(* ===== verification/Prelude.thy ===== *)
theory Prelude
  imports Main "HOL-Library.List_Lexorder" "HOL-Library.AList" "HOL-Library.Sublist"
    "HOL-Library.Word"
begin

text \<open>
  Shared vocabulary of the development: Rust strings, the operations of \<^verbatim>\<open>str\<close> the crates use,
  fallible results, ordered maps and hash maps as association lists, and the lemmas on them that the
  component theories rely on.

  A Rust \<^verbatim>\<open>str\<close> is a sequence of Unicode scalar values, so a string is a list of code
  points. Order on strings is the lexicographic order on code points, which is the order Rust gets by
  comparing UTF-8 bytes. The Unicode tables of the standard library (case mapping, the
  alphanumeric and decimal classes) are data, not code of this repository: they are the record
  \<open>unicode\<close>, an argument of every definition that consults them.
\<close>

named_theorems str_simps \<open>rewrite rules for the string operations\<close>
named_theorems res_simps \<open>rewrite rules for fallible results\<close>

section \<open>Strings\<close>

type_synonym uchar = int
type_synonym str = "uchar list"

text \<open>A string literal of the source, as code points.\<close>

definition lit :: "string \<Rightarrow> str" where
  "lit s = map of_char s"

lemma lit_Nil [simp]: "lit [] = []"
  by (simp add: lit_def)

lemma lit_Cons [simp]: "lit (c # cs) = of_char c # lit cs"
  by (simp add: lit_def)

abbreviation slash :: uchar where "slash \<equiv> 47"
abbreviation backslash :: uchar where "backslash \<equiv> 92"
abbreviation dot :: uchar where "dot \<equiv> 46"
abbreviation space :: uchar where "space \<equiv> 32"
abbreviation dollar :: uchar where "dollar \<equiv> 36"
abbreviation underscore :: uchar where "underscore \<equiv> 95"
abbreviation star :: uchar where "star \<equiv> 42"
abbreviation colon :: uchar where "colon \<equiv> 58"

subsection \<open>Characters\<close>

text \<open>\<^verbatim>\<open>char::is_control\<close>: the category Cc, which is exactly C0, DEL and C1.\<close>

definition is_control :: "uchar \<Rightarrow> bool" where
  "is_control c \<longleftrightarrow> c < 32 \<or> (127 \<le> c \<and> c < 160)"

text \<open>\<^verbatim>\<open>char::is_whitespace\<close>: the property White\_Space, a fixed list of code points.\<close>

definition is_whitespace :: "uchar \<Rightarrow> bool" where
  "is_whitespace c \<longleftrightarrow> (9 \<le> c \<and> c \<le> 13) \<or> c = 32 \<or> c = 133 \<or> c = 160 \<or> c = 5760
     \<or> (8192 \<le> c \<and> c \<le> 8202) \<or> c = 8232 \<or> c = 8233 \<or> c = 8239 \<or> c = 8287 \<or> c = 12288"

definition is_ascii_digit :: "uchar \<Rightarrow> bool" where
  "is_ascii_digit c \<longleftrightarrow> 48 \<le> c \<and> c \<le> 57"

definition ascii_upper :: "uchar \<Rightarrow> uchar" where
  "ascii_upper c = (if 97 \<le> c \<and> c \<le> 122 then c - 32 else c)"

definition ascii_lower :: "uchar \<Rightarrow> uchar" where
  "ascii_lower c = (if 65 \<le> c \<and> c \<le> 90 then c + 32 else c)"

definition to_ascii_uppercase :: "str \<Rightarrow> str" where
  "to_ascii_uppercase = map ascii_upper"

definition to_ascii_lowercase :: "str \<Rightarrow> str" where
  "to_ascii_lowercase = map ascii_lower"

definition eq_ignore_ascii_case :: "str \<Rightarrow> str \<Rightarrow> bool" where
  "eq_ignore_ascii_case a b \<longleftrightarrow> to_ascii_lowercase a = to_ascii_lowercase b"

text \<open>The number of bytes a code point takes in UTF-8, and \<^verbatim>\<open>str::len\<close>.\<close>

definition utf8_width :: "uchar \<Rightarrow> nat" where
  "utf8_width c = (if c < 128 then 1 else if c < 2048 then 2 else if c < 65536 then 3 else 4)"

definition str_len :: "str \<Rightarrow> nat" where
  "str_len s = sum_list (map utf8_width s)"

text \<open>The Unicode tables the standard library carries.\<close>

record unicode =
  str_upper :: "str \<Rightarrow> str"          \<comment> \<open>\<^verbatim>\<open>str::to_uppercase\<close>\<close>
  str_lower :: "str \<Rightarrow> str"          \<comment> \<open>\<^verbatim>\<open>str::to_lowercase\<close>\<close>
  char_alphanumeric :: "uchar \<Rightarrow> bool" \<comment> \<open>\<^verbatim>\<open>char::is_alphanumeric\<close>\<close>
  char_decimal :: "uchar \<Rightarrow> bool"    \<comment> \<open>the class \<^verbatim>\<open>\d\<close> of the regex crate\<close>

text \<open>The tables restricted to ASCII: what they say about text with no other character.\<close>

definition ascii_alphanumeric :: "uchar \<Rightarrow> bool" where
  "ascii_alphanumeric c \<longleftrightarrow> is_ascii_digit c \<or> (65 \<le> c \<and> c \<le> 90) \<or> (97 \<le> c \<and> c \<le> 122)"

definition ascii_tables :: unicode where
  "ascii_tables = \<lparr>str_upper = to_ascii_uppercase, str_lower = to_ascii_lowercase,
     char_alphanumeric = ascii_alphanumeric, char_decimal = is_ascii_digit\<rparr>"

subsection \<open>Splitting and joining\<close>

text \<open>\<^verbatim>\<open>str::split\<close> on a character predicate: never empty, and \<open>[[]]\<close> on the empty string.\<close>

fun split_on :: "(uchar \<Rightarrow> bool) \<Rightarrow> str \<Rightarrow> str list" where
  "split_on P [] = [[]]"
| "split_on P (c # cs) =
     (if P c then [] # split_on P cs
      else (case split_on P cs of [] \<Rightarrow> [[c]] | w # ws \<Rightarrow> (c # w) # ws))"

text \<open>\<^verbatim>\<open>join\<close> with a one-character separator.\<close>

fun join_on :: "uchar \<Rightarrow> str list \<Rightarrow> str" where
  "join_on d [] = []"
| "join_on d [w] = w"
| "join_on d (w # ws) = w @ d # join_on d ws"

definition replace_char :: "uchar \<Rightarrow> uchar \<Rightarrow> str \<Rightarrow> str" where
  "replace_char a b = map (\<lambda>c. if c = a then b else c)"

text \<open>\<^verbatim>\<open>path.replace('\\', "/")\<close>, the separator normalisation the crates apply everywhere.\<close>

abbreviation fwd :: "str \<Rightarrow> str" where
  "fwd \<equiv> replace_char backslash slash"

definition starts_with :: "str \<Rightarrow> str \<Rightarrow> bool" where
  "starts_with s p \<longleftrightarrow> take (length p) s = p"

definition ends_with :: "str \<Rightarrow> str \<Rightarrow> bool" where
  "ends_with s p \<longleftrightarrow> starts_with (rev s) (rev p)"

definition strip_prefix :: "str \<Rightarrow> str \<Rightarrow> str option" where
  "strip_prefix s p = (if starts_with s p then Some (drop (length p) s) else None)"

definition strip_suffix :: "str \<Rightarrow> str \<Rightarrow> str option" where
  "strip_suffix s p = (if ends_with s p then Some (take (length s - length p) s) else None)"

fun contains_str :: "str \<Rightarrow> str \<Rightarrow> bool" where
  "contains_str [] p = (p = [])"
| "contains_str (c # cs) p = (starts_with (c # cs) p \<or> contains_str cs p)"

definition trim_start_by :: "(uchar \<Rightarrow> bool) \<Rightarrow> str \<Rightarrow> str" where
  "trim_start_by = dropWhile"

definition trim_end_by :: "(uchar \<Rightarrow> bool) \<Rightarrow> str \<Rightarrow> str" where
  "trim_end_by P s = rev (dropWhile P (rev s))"

definition trim :: "str \<Rightarrow> str" where
  "trim s = trim_end_by is_whitespace (trim_start_by is_whitespace s)"

text \<open>\<^verbatim>\<open>split_once\<close> and \<^verbatim>\<open>rsplit_once\<close> on one character.\<close>

definition split_once :: "uchar \<Rightarrow> str \<Rightarrow> (str \<times> str) option" where
  "split_once c s = (case dropWhile (\<lambda>x. x \<noteq> c) s of
      [] \<Rightarrow> None | _ # rest \<Rightarrow> Some (takeWhile (\<lambda>x. x \<noteq> c) s, rest))"

definition rsplit_once :: "uchar \<Rightarrow> str \<Rightarrow> (str \<times> str) option" where
  "rsplit_once c s = map_option (\<lambda>(a, b). (rev b, rev a)) (split_once c (rev s))"

text \<open>Decimal rendering, \<^verbatim>\<open>{}\<close>, and zero padding, \<^verbatim>\<open>{:0w}\<close>.\<close>

fun nat_digits :: "nat \<Rightarrow> str" where
  "nat_digits n = (if n < 10 then [48 + int n] else nat_digits (n div 10) @ [48 + int (n mod 10)])"

declare nat_digits.simps [simp del]

definition pad_digits :: "nat \<Rightarrow> nat \<Rightarrow> str" where
  "pad_digits w n = (let ds = nat_digits n in replicate (w - length ds) 48 @ ds)"

text \<open>The value of decimal digits, and \<^verbatim>\<open>str::parse::<u64>\<close>, which allows one plus sign in front.\<close>

definition digits_value :: "str \<Rightarrow> nat" where
  "digits_value = foldl (\<lambda>acc c. 10 * acc + nat (c - 48)) 0"

definition U64_END :: int where
  "U64_END = 18446744073709551616"

definition parse_u64 :: "str \<Rightarrow> nat option" where
  "parse_u64 s =
     (let ds = (case s of [] \<Rightarrow> s | c # cs \<Rightarrow> if c = 43 then cs else s) in
      if ds \<noteq> [] \<and> list_all is_ascii_digit ds \<and> int (digits_value ds) < U64_END
      then Some (digits_value ds) else None)"

text \<open>\<^verbatim>\<open>u64::saturating_add\<close>.\<close>

definition sat_add :: "nat \<Rightarrow> nat \<Rightarrow> nat" where
  "sat_add a b = nat (min (int a + int b) (U64_END - 1))"

section \<open>Fallible results\<close>

definition res_bind :: "'e + 'a \<Rightarrow> ('a \<Rightarrow> 'e + 'b) \<Rightarrow> 'e + 'b" where
  "res_bind r f = (case r of Inl e \<Rightarrow> Inl e | Inr x \<Rightarrow> f x)"

lemma res_bind_Inl [simp, res_simps]: "res_bind (Inl e) f = Inl e"
  by (simp add: res_bind_def)

lemma res_bind_Inr [simp, res_simps]: "res_bind (Inr x) f = f x"
  by (simp add: res_bind_def)

lemma res_bind_eq_Inr [res_simps]: "res_bind r f = Inr y \<longleftrightarrow> (\<exists>x. r = Inr x \<and> f x = Inr y)"
  by (cases r) simp_all

lemma res_bind_eq_Inl [res_simps]:
  "res_bind r f = Inl e \<longleftrightarrow> r = Inl e \<or> (\<exists>x. r = Inr x \<and> f x = Inl e)"
  by (cases r) auto

text \<open>Fallible computations that pass a state along; an error keeps the state it was raised in.\<close>

type_synonym ('s, 'e, 'a) st = "'s \<Rightarrow> ('e + 'a) \<times> 's"

definition st_ret :: "'a \<Rightarrow> ('s, 'e, 'a) st" where
  "st_ret x s = (Inr x, s)"

definition st_lift :: "'e + 'a \<Rightarrow> ('s, 'e, 'a) st" where
  "st_lift r s = (r, s)"

definition st_bind :: "('s, 'e, 'a) st \<Rightarrow> ('a \<Rightarrow> ('s, 'e, 'b) st) \<Rightarrow> ('s, 'e, 'b) st" where
  "st_bind m f s = (case m s of (Inl e, s') \<Rightarrow> (Inl e, s') | (Inr x, s') \<Rightarrow> f x s')"

lemma st_bind_Inr: "st_bind m f s = (Inr y, s') \<longleftrightarrow> (\<exists>x s1. m s = (Inr x, s1) \<and> f x s1 = (Inr y, s'))"
  by (auto simp: st_bind_def split: prod.splits sum.splits)

lemma st_lift_eq: "st_lift r s = (r', s') \<longleftrightarrow> r = r' \<and> s = s'"
  by (auto simp: st_lift_def)

lemma st_ret_eq: "st_ret x s = (r', s') \<longleftrightarrow> r' = Inr x \<and> s = s'"
  by (auto simp: st_ret_def)

text \<open>\<^verbatim>\<open>opt.ok_or(e)\<close>.\<close>

definition ok_or :: "'a option \<Rightarrow> 'e \<Rightarrow> 'e + 'a" where
  "ok_or x e = (case x of None \<Rightarrow> Inl e | Some y \<Rightarrow> Inr y)"

lemma ok_or_simps [simp, res_simps]: "ok_or None e = Inl e" "ok_or (Some x) e = Inr x"
  by (simp_all add: ok_or_def)

lemma ok_or_eq_Inr [res_simps]: "ok_or x e = Inr y \<longleftrightarrow> x = Some y"
  by (cases x) simp_all

text \<open>A \<^verbatim>\<open>for\<close> loop over a list that threads a state and stops at the first error.\<close>

fun fold_res :: "('a \<Rightarrow> 's \<Rightarrow> 'e + 's) \<Rightarrow> 'a list \<Rightarrow> 's \<Rightarrow> 'e + 's" where
  "fold_res f [] s = Inr s"
| "fold_res f (x # xs) s = res_bind (f x s) (fold_res f xs)"

fun map_res :: "('a \<Rightarrow> 'e + 'b) \<Rightarrow> 'a list \<Rightarrow> 'e + 'b list" where
  "map_res f [] = Inr []"
| "map_res f (x # xs) = res_bind (f x) (\<lambda>y. res_bind (map_res f xs) (\<lambda>ys. Inr (y # ys)))"

lemma fold_res_append:
  "fold_res f (xs @ ys) s = res_bind (fold_res f xs s) (fold_res f ys)"
proof (induction xs arbitrary: s)
  case Nil
  then show ?case by simp
next
  case (Cons x xs)
  then show ?case by (cases "f x s") simp_all
qed

text \<open>An invariant each step of a loop keeps is kept by the whole loop.\<close>

lemma fold_res_invariant:
  assumes "fold_res f xs s = Inr t" and "P s"
    and "\<And>x s s'. x \<in> set xs \<Longrightarrow> P s \<Longrightarrow> f x s = Inr s' \<Longrightarrow> P s'"
  shows "P t"
  using assms
proof (induction xs arbitrary: s)
  case Nil
  then show ?case by simp
next
  case (Cons x xs)
  then show ?case by (auto simp: res_bind_eq_Inr)
qed

lemma fold_res_steps: "fold_res f xs s = Inr t \<Longrightarrow> x \<in> set xs \<Longrightarrow> \<exists>s s'. f x s = Inr s'"
  by (induction xs arbitrary: s) (auto simp: res_bind_eq_Inr)

text \<open>When every step of one loop is a run of another loop, so is the whole.\<close>

lemma fold_res_simulates:
  assumes "\<And>x s s'. x \<in> set xs \<Longrightarrow> f x s = Inr s' \<Longrightarrow> fold_res c (g x) (h s) = Inr (h s')"
    and "fold_res f xs s = Inr t"
  shows "fold_res c (concat (map g xs)) (h s) = Inr (h t)"
  using assms
proof (induction xs arbitrary: s)
  case Nil
  then show ?case by simp
next
  case (Cons x xs)
  then show ?case by (fastforce simp: res_bind_eq_Inr fold_res_append)
qed

lemma map_res_Inr_iff:
  "map_res f xs = Inr ys \<longleftrightarrow> list_all2 (\<lambda>x y. f x = Inr y) xs ys"
  by (induction xs arbitrary: ys)
     (auto simp: res_bind_eq_Inr list_all2_Cons1)

section \<open>Lemmas on the string operations\<close>

lemma str_len_append [simp]: "str_len (a @ b) = str_len a + str_len b"
  by (simp add: str_len_def)

lemma starts_with_iff [str_simps]: "starts_with s p \<longleftrightarrow> (\<exists>t. s = p @ t)"
  by (auto simp: starts_with_def) (metis append_take_drop_id)

lemma ends_with_iff [str_simps]: "ends_with s p \<longleftrightarrow> (\<exists>t. s = t @ p)"
  by (auto simp: ends_with_def starts_with_iff) (metis rev_append rev_rev_ident)

lemma digits_value_simps [simp]:
  "digits_value [] = 0" "digits_value (ds @ [c]) = 10 * digits_value ds + nat (c - 48)"
  by (simp_all add: digits_value_def)

lemma digits_value_nat_digits [simp]: "digits_value (nat_digits n) = n"
proof (induction n rule: nat_digits.induct)
  case (1 n)
  show ?case
  proof (cases "n < 10")
    case True
    then show ?thesis by (simp add: nat_digits.simps [of n] digits_value_def)
  next
    case False
    then show ?thesis using 1 by (simp add: nat_digits.simps [of n])
  qed
qed

lemma digits_value_zeros: "digits_value (replicate k 48 @ ds) = digits_value ds"
  by (induction k) (simp_all add: digits_value_def)

lemma digits_value_pad [simp]: "digits_value (pad_digits w n) = n"
  by (simp add: pad_digits_def Let_def digits_value_zeros)

lemma nat_digits_not_Nil [simp]: "nat_digits n \<noteq> []"
  by (simp add: nat_digits.simps [of n])

lemma nat_digits_ascii: "list_all is_ascii_digit (nat_digits n)"
proof (induction n rule: nat_digits.induct)
  case (1 n)
  show ?case
  proof (cases "n < 10")
    case True
    then show ?thesis by (simp add: nat_digits.simps [of n] is_ascii_digit_def)
  next
    case False
    then show ?thesis using 1 by (simp add: nat_digits.simps [of n] is_ascii_digit_def)
  qed
qed

lemma parse_u64_digits: "parse_u64 (nat_digits n) = (if int n < U64_END then Some n else None)"
proof -
  have "(case nat_digits n of [] \<Rightarrow> nat_digits n | c # cs \<Rightarrow> if c = 43 then cs else nat_digits n) = nat_digits n"
    using nat_digits_ascii [of n] by (auto simp: is_ascii_digit_def split: list.split)
  then show ?thesis by (simp add: parse_u64_def Let_def nat_digits_ascii)
qed

lemma split_once_eq_Some [str_simps]: "split_once c s = Some (a, b) \<longleftrightarrow> s = a @ c # b \<and> c \<notin> set a"
proof
  assume some: "split_once c s = Some (a, b)"
  then obtain x where tail: "dropWhile (\<lambda>x. x \<noteq> c) s = x # b" and a: "a = takeWhile (\<lambda>x. x \<noteq> c) s"
    by (auto simp: split_once_def split: list.splits)
  have "x = c" using hd_dropWhile [of "\<lambda>x. x \<noteq> c" s] tail by simp
  moreover have "s = a @ dropWhile (\<lambda>x. x \<noteq> c) s" by (simp add: a)
  moreover have "c \<notin> set a" by (auto simp: a dest: set_takeWhileD)
  ultimately show "s = a @ c # b \<and> c \<notin> set a" using tail by simp
next
  assume "s = a @ c # b \<and> c \<notin> set a"
  moreover from this have "\<forall>x \<in> set a. x \<noteq> c" by auto
  ultimately show "split_once c s = Some (a, b)" by (simp add: split_once_def)
qed

lemma strip_prefix_eq_Some [str_simps]: "strip_prefix s p = Some t \<longleftrightarrow> s = p @ t"
  by (auto simp: strip_prefix_def starts_with_iff)

lemma strip_suffix_eq_Some [str_simps]: "strip_suffix s p = Some t \<longleftrightarrow> s = t @ p"
  by (auto simp: strip_suffix_def ends_with_iff)

lemma contains_str_iff [str_simps]: "contains_str s p \<longleftrightarrow> (\<exists>a b. s = a @ p @ b)"
proof (induction s)
  case Nil
  then show ?case by auto
next
  case (Cons c cs)
  note IH = Cons.IH
  show ?case
  proof
    assume "contains_str (c # cs) p"
    then consider t where "c # cs = p @ t" | a b where "cs = a @ p @ b"
      using Cons by (auto simp: starts_with_iff)
    then show "\<exists>a b. c # cs = a @ p @ b"
    proof cases
      case 1
      then have "c # cs = [] @ p @ t" by simp
      then show ?thesis by blast
    next
      case 2
      then have "c # cs = (c # a) @ p @ b" by simp
      then show ?thesis by blast
    qed
  next
    assume "\<exists>a b. c # cs = a @ p @ b"
    then obtain a b where ab: "c # cs = a @ p @ b" by blast
    show "contains_str (c # cs) p"
    proof (cases a)
      case Nil
      with ab have "starts_with (c # cs) p" by (auto simp: starts_with_iff)
      then show ?thesis by simp
    next
      case (Cons x xs)
      with ab have "cs = xs @ p @ b" by simp
      then have "contains_str cs p" using IH by blast
      then show ?thesis by simp
    qed
  qed
qed

lemma split_on_not_Nil [simp]: "split_on P s \<noteq> []"
  by (induction s) (auto split: list.splits)

lemma split_on_segments: "w \<in> set (split_on P s) \<Longrightarrow> c \<in> set w \<Longrightarrow> \<not> P c"
proof (induction s arbitrary: w)
  case Nil
  then show ?case by simp
next
  case (Cons x xs)
  obtain v vs where vs: "split_on P xs = v # vs"
    by (cases "split_on P xs") auto
  show ?case
    using Cons.prems Cons.IH [of v] Cons.IH [of w] by (auto simp: vs split: if_splits)
qed

lemma join_on_Cons: "ws \<noteq> [] \<Longrightarrow> join_on d (w # ws) = w @ d # join_on d ws"
  by (cases ws) auto

lemma join_on_split_on [simp]: "join_on d (split_on (\<lambda>c. c = d) s) = s"
proof (induction s)
  case Nil
  then show ?case by simp
next
  case (Cons x xs)
  obtain v vs where vs: "split_on (\<lambda>c. c = d) xs = v # vs"
    by (cases "split_on (\<lambda>c. c = d) xs") auto
  show ?case
  proof (cases "x = d")
    case True
    then show ?thesis using Cons by (simp add: vs)
  next
    case False
    then show ?thesis using Cons vs by (cases vs) auto
  qed
qed

lemma split_on_no_sep: "\<forall>c \<in> set w. \<not> P c \<Longrightarrow> split_on P w = [w]"
  by (induction w) auto

lemma split_on_append: "P d \<Longrightarrow> split_on P (a @ d # s) = split_on P a @ split_on P s"
  by (induction a) (auto split: list.splits)

lemma split_on_append_sep:
  "\<forall>c \<in> set w. \<not> P c \<Longrightarrow> P d \<Longrightarrow> split_on P (w @ d # s) = w # split_on P s"
  by (simp add: split_on_append split_on_no_sep)

lemma split_on_join_on:
  "ws \<noteq> [] \<Longrightarrow> \<forall>w \<in> set ws. d \<notin> set w \<Longrightarrow> split_on (\<lambda>c. c = d) (join_on d ws) = ws"
proof (induction ws)
  case Nil
  then show ?case by simp
next
  case (Cons w ws)
  show ?case
  proof (cases "ws = []")
    case True
    then show ?thesis using Cons.prems by (simp, intro split_on_no_sep) auto
  next
    case False
    then have "split_on (\<lambda>c. c = d) (join_on d ws) = ws" using Cons by simp
    then show ?thesis using Cons.prems False
      by (simp add: join_on_Cons) (subst split_on_append_sep, auto)
  qed
qed

lemma set_join_on: "set (join_on d ws) \<subseteq> insert d (\<Union> (set ` set ws))"
  by (induction d ws rule: join_on.induct) auto

lemma replace_char_id: "a \<notin> set s \<Longrightarrow> replace_char a b s = s"
  by (induction s) (auto simp: replace_char_def)

lemma set_replace_char: "a \<noteq> b \<Longrightarrow> a \<notin> set (replace_char a b s)"
  by (auto simp: replace_char_def)

lemma length_replace_char [simp]: "length (replace_char a b s) = length s"
  by (simp add: replace_char_def)

lemma replace_char_Nil_iff [simp]: "replace_char a b s = [] \<longleftrightarrow> s = []"
  by (simp add: replace_char_def)

lemma fwd_no_backslash [simp]: "backslash \<notin> set (fwd s)"
  by (simp add: set_replace_char)

lemma fwd_fwd [simp]: "fwd (fwd s) = fwd s"
  by (simp add: replace_char_id set_replace_char)

section \<open>Sorted results\<close>

text \<open>A strictly increasing enumeration of the elements of a list with distinct keys is its
  stable sort.\<close>

lemma sort_key_unique:
  assumes "sorted_wrt (<) (map f ys)" and "set ys = set xs" and "distinct (map f xs)"
  shows "sort_key f xs = ys"
proof -
  have inj: "inj_on f (set xs)" using assms(3) by (simp add: distinct_map)
  have "sorted (map f ys)" "distinct (map f ys)"
    using assms(1) strict_sorted_iff by blast+
  moreover have "sorted (map f (sort_key f xs))" "distinct (map f (sort_key f xs))"
    using assms(3) by (auto simp: distinct_map)
  moreover have "set (map f (sort_key f xs)) = set (map f ys)" using assms(2) by simp
  ultimately have "map f (sort_key f xs) = map f ys"
    by (metis sorted_distinct_set_unique)
  then show ?thesis
    using inj assms(2) by (intro map_inj_on [of f]) auto
qed

lemma sorted_wrt_concat:
  assumes "\<forall>l \<in> set ls. sorted_wrt P l"
    and "sorted_wrt (\<lambda>a b. \<forall>x \<in> set a. \<forall>y \<in> set b. P x y) ls"
  shows "sorted_wrt P (concat ls)"
  using assms by (induction ls) (auto simp: sorted_wrt_append)

lemma append_less_iff: "q @ xs < q @ ys \<longleftrightarrow> xs < (ys :: 'a :: linorder list)"
  by (induction q) auto

lemma Cons_less_append: "xs < xs @ y # (ys :: 'a :: linorder list)"
  using append_less_iff [of xs "[]" "y # ys"] by simp

lemma strict_sorted_sort_key:
  "distinct (map f xs) \<Longrightarrow> sorted_wrt (\<lambda>a b. f a < f b) (sort_key f xs)"
proof -
  assume "distinct (map f xs)"
  then have "sorted_wrt (<) (map f (sort_key f xs))"
    by (auto simp: strict_sorted_iff distinct_map)
  then show ?thesis by (simp add: sorted_wrt_map)
qed

lemma distinct_concat_map:
  "\<forall>x \<in> set xs. distinct (f x) \<Longrightarrow> sorted_wrt (\<lambda>a b. set (f a) \<inter> set (f b) = {}) xs \<Longrightarrow>
     distinct (concat (map f xs))"
  by (induction xs) auto

lemma concat_map_filter_Nil:
  "(\<And>x. x \<in> set xs \<Longrightarrow> \<not> P x \<Longrightarrow> f x = []) \<Longrightarrow> concat (map f (filter P xs)) = concat (map f xs)"
  by (induction xs) auto

lemma subseq_set_subset: "subseq xs ys \<Longrightarrow> set xs \<subseteq> set ys"
  by (induction rule: list_emb.induct) auto

lemma subseq_sorted_wrt: "subseq xs ys \<Longrightarrow> sorted_wrt P ys \<Longrightarrow> sorted_wrt P xs"
  by (induction rule: list_emb.induct) (auto dest: subseq_set_subset)

end
