(* ===== verification/Claim_Store.thy ===== *)
theory Claim_Store
  imports Prelude
begin

text \<open>
  The contract three loops of the organization engine share: each item takes a key in a store, and an
  item whose key is already taken is refused. Output names, the destinations of one output and the
  destinations of a whole plan are all claimed this way; the theories that define those loops
  interpret the locale on their own claim step.
\<close>

locale claim_store =
  fixes claim :: "'d \<Rightarrow> 's \<Rightarrow> 'e + 's"
    and key :: "'d \<Rightarrow> 'k"
    and taken :: "'s \<Rightarrow> 'k set"
  assumes claim_takes: "claim d s = Inr s' \<Longrightarrow> taken s' = insert (key d) (taken s)"
    and claim_free: "(\<exists>s'. claim d s = Inr s') \<longleftrightarrow> key d \<notin> taken s"
begin

lemma claim_refuses: "key d \<in> taken s \<Longrightarrow> \<exists>e. claim d s = Inl e"
  using claim_free [of d s] by (cases "claim d s") auto

text \<open>A run of claims that succeeds took pairwise different keys, none of them taken before.\<close>

lemma claims_taken:
  "fold_res claim ds s = Inr t \<Longrightarrow>
     taken t = taken s \<union> key ` set ds \<and> distinct (map key ds) \<and> key ` set ds \<inter> taken s = {}"
proof (induction ds arbitrary: s)
  case Nil
  then show ?case by simp
next
  case (Cons d ds)
  then obtain s' where s': "claim d s = Inr s'" and run: "fold_res claim ds s' = Inr t"
    by (auto simp: res_bind_eq_Inr)
  have "key d \<notin> taken s" using s' claim_free by blast
  then show ?case using Cons.IH [OF run] claim_takes [OF s'] by auto
qed

text \<open>Conversely, different free keys can all be claimed.\<close>

lemma claims_succeed:
  "distinct (map key ds) \<Longrightarrow> key ` set ds \<inter> taken s = {} \<Longrightarrow> \<exists>t. fold_res claim ds s = Inr t"
proof (induction ds arbitrary: s)
  case Nil
  then show ?case by simp
next
  case (Cons d ds)
  then obtain s' where s': "claim d s = Inr s'" using claim_free [of d s] by auto
  have "key ` set ds \<inter> taken s' = {}" using Cons.prems claim_takes [OF s'] by auto
  then show ?case using Cons s' by auto
qed

end

end
