(* ===== verification/Layout.thy ===== *)
theory Layout
  imports Prelude
begin

text \<open>
  The vocabulary a rule is written in: \<^verbatim>\<open>layout.rs\<close>, the rule types of
  \<^verbatim>\<open>organization/mod.rs\<close> and the metadata types of \<^verbatim>\<open>metadata.rs\<close>, with the
  translation of rules saved before layouts existed.
\<close>

datatype output_selector = Whole | PerDirectoryContaining str

record file_variable =
  as_name :: str
  fv_file :: str
  fv_key :: str

datatype source_sel = SourceAll | SourceMatching str | SourceContentRoot

record placement =
  pl_from :: source_sel
  pl_into :: str

datatype generated_content = MetadataDocument

record generated =
  gen_into :: str
  gen_content :: generated_content

datatype fetch_source = Screenshots

record fetched =
  fetch_into :: str
  fetch_from :: fetch_source
  fetch_name :: str

record layout =
  lay_outputs :: output_selector
  lay_file_variables :: "file_variable list"
  lay_name :: str
  lay_place :: "placement list"
  lay_generate :: "generated list"
  lay_fetch :: "fetched list"

definition default_layout :: layout where
  "default_layout = \<lparr>lay_outputs = Whole, lay_file_variables = [], lay_name = [],
     lay_place = [], lay_generate = [], lay_fetch = []\<rparr>"

section \<open>Rules\<close>

record rule_trigger =
  metadata_source :: "str option"
  filename_pattern :: "str option"
  has_file :: "str option"

record rule_actions =
  output_name :: "str option"
  act_layout :: layout

record organization_rule =
  rule_id :: int
  rule_name :: str
  priority :: int
  is_enabled :: bool
  trigger :: rule_trigger
  actions :: rule_actions

record move_action =
  ma_pattern :: str
  ma_target :: str

text \<open>\<^verbatim>\<open>layout_from_legacy_actions\<close>: the layout an old rule stood for.\<close>

definition metadata_generated :: "generated list" where
  "metadata_generated = [\<lparr>gen_into = lit ''metadata.json'', gen_content = MetadataDocument\<rparr>]"

definition layout_from_legacy_actions ::
  "str option \<Rightarrow> move_action list \<Rightarrow> bool \<Rightarrow> layout" where
  "layout_from_legacy_actions root_folder move_files use_standard_layout =
     (let name = (case root_folder of Some n \<Rightarrow> n | None \<Rightarrow> lit ''Game'') in
      if use_standard_layout then
        \<lparr>lay_outputs = Whole, lay_file_variables = [], lay_name = name,
         lay_place = [\<lparr>pl_from = SourceContentRoot, pl_into = lit ''Game''\<rparr>],
         lay_generate = metadata_generated,
         lay_fetch = [\<lparr>fetch_into = lit ''screenshots'', fetch_from = Screenshots,
                       fetch_name = lit ''image_$index.$ext''\<rparr>]\<rparr>
      else
        \<lparr>lay_outputs = Whole, lay_file_variables = [], lay_name = name,
         lay_place = map (\<lambda>a. \<lparr>pl_from = SourceMatching (ma_pattern a), pl_into = ma_target a\<rparr>)
           move_files,
         lay_generate = metadata_generated,
         lay_fetch = [\<lparr>fetch_into = lit ''Screenshots'', fetch_from = Screenshots,
                       fetch_name = lit ''image_$index.$ext''\<rparr>]\<rparr>)"

text \<open>Reading saved actions: a document that carries a layout is current, any other is converted.\<close>

record rule_actions_document =
  doc_output_name :: "str option"
  doc_layout :: "layout option"
  doc_root_folder :: "str option"
  doc_move_files :: "move_action list"
  doc_use_standard_layout :: bool

definition rule_actions_of_document :: "rule_actions_document \<Rightarrow> rule_actions" where
  "rule_actions_of_document d =
     \<lparr>output_name = doc_output_name d,
      act_layout = (case doc_layout d of
          Some l \<Rightarrow> l
        | None \<Rightarrow> layout_from_legacy_actions (doc_root_folder d) (doc_move_files d)
            (doc_use_standard_layout d))\<rparr>"

section \<open>Game metadata\<close>

datatype screenshot_data = ScreenshotUrl str | ScreenshotFilePath str | ScreenshotBase64 str

record game_metadata =
  product_id :: str
  gm_source :: str
  gm_title :: str
  description :: "str option"
  tags :: "str list"
  release_date :: "str option"
  creator :: "str option"
  screenshots :: "screenshot_data list"
  metadata_json :: str

end
