(* ===== verification/Modinfo.thy ===== *)
theory Modinfo
  imports Prelude
begin

text \<open>
  \<^verbatim>\<open>crates/core/src/features/conversion/modinfo.rs\<close>: the parser of the
  \<^verbatim>\<open>modinfo.ini\<close> files mod managers ship, whose \<^verbatim>\<open>name\<close> becomes a folder name.
  The lemmas show what the sanitiser guarantees of that name and where its documentation promises
  more than it does.
\<close>

section \<open>The parser\<close>

record mod_info =
  mi_name :: "str option"
  mi_addonfor :: "str option"
  mi_screenshot :: "str option"

definition default_mod_info :: mod_info where
  "default_mod_info = \<lparr>mi_name = None, mi_addonfor = None, mi_screenshot = None\<rparr>"

text \<open>\<^verbatim>\<open>str::lines\<close>: a line feed ends a line and takes one carriage return before it along;
  what follows the last line feed is a line unless it is empty.\<close>

definition strip_cr :: "str \<Rightarrow> str" where
  "strip_cr l = (case strip_suffix l [13] of Some r \<Rightarrow> r | None \<Rightarrow> l)"

definition str_lines :: "str \<Rightarrow> str list" where
  "str_lines s =
     (let ps = split_on (\<lambda>c. c = 10) s in
      map strip_cr (butlast ps) @ (if last ps = [] then [] else [last ps]))"

definition take_value :: "str \<Rightarrow> str \<Rightarrow> str option" where
  "take_value line key =
     (let with_eq = key @ lit ''=''; with_pad = key @ lit '' = '' in
      case strip_prefix line with_pad of
        Some rest \<Rightarrow> Some (trim rest)
      | None \<Rightarrow> (case strip_prefix line with_eq of
            Some rest \<Rightarrow> Some (trim rest)
          | None \<Rightarrow> None))"

definition illegal_name_chars :: str where
  "illegal_name_chars = [60, 62, 58, 34, 47, 92, 124, 63, 42]"

definition sanitize_char :: "uchar \<Rightarrow> uchar" where
  "sanitize_char c = (if c \<in> set illegal_name_chars then underscore
     else if c < 32 then underscore else c)"

definition sanitize_modinfo_name :: "str \<Rightarrow> str" where
  "sanitize_modinfo_name name =
     trim_start_by (\<lambda>c. c = dot) (trim_end_by (\<lambda>c. c = dot) (trim (map sanitize_char name)))"

definition parse_line :: "str \<Rightarrow> mod_info \<Rightarrow> mod_info" where
  "parse_line raw info =
     (let line = trim raw in
      if line = [] \<or> starts_with line (lit ''['') \<or> starts_with line (lit ''#'')
         \<or> starts_with line (lit '';'') then info
      else case take_value line (lit ''name'') of
        Some rest \<Rightarrow>
          (let s = sanitize_modinfo_name rest in
           if s \<noteq> [] then info\<lparr>mi_name := Some s\<rparr> else info)
      | None \<Rightarrow> (case take_value line (lit ''addonfor'') of
          Some rest \<Rightarrow> if rest \<noteq> [] then info\<lparr>mi_addonfor := Some rest\<rparr> else info
        | None \<Rightarrow> (case take_value line (lit ''screenshot'') of
            Some rest \<Rightarrow>
              if rest \<noteq> [] then
                (let stripped = (case strip_prefix rest (lit ''./'') of Some r \<Rightarrow> r | None \<Rightarrow> rest) in
                 if stripped \<noteq> [] then info\<lparr>mi_screenshot := Some stripped\<rparr> else info)
              else info
          | None \<Rightarrow> info)))"

definition parse_str :: "str \<Rightarrow> mod_info" where
  "parse_str contents = fold parse_line (str_lines contents) default_mod_info"

section \<open>What a parsed name looks like\<close>

definition safe_mod_name :: "str \<Rightarrow> bool" where
  "safe_mod_name n \<longleftrightarrow> n \<noteq> [] \<and> hd n \<noteq> dot \<and> last n \<noteq> dot
     \<and> (\<forall>c \<in> set n. 32 \<le> c \<and> c \<notin> set illegal_name_chars)"

lemma sanitize_char_safe: "32 \<le> sanitize_char c \<and> sanitize_char c \<notin> set illegal_name_chars"
  by (auto simp: sanitize_char_def illegal_name_chars_def)

lemma set_trim_by: "set (trim_end_by P s) \<subseteq> set s" "set (trim_start_by P s) \<subseteq> set s"
  by (auto simp: trim_end_by_def trim_start_by_def dest: set_dropWhileD)

lemma set_trim: "set (trim s) \<subseteq> set s"
  unfolding trim_def using set_trim_by by blast

lemma hd_trim_start: "trim_start_by P s \<noteq> [] \<Longrightarrow> \<not> P (hd (trim_start_by P s))"
  unfolding trim_start_by_def by (rule hd_dropWhile)

lemma last_trim_end: "trim_end_by P s \<noteq> [] \<Longrightarrow> \<not> P (last (trim_end_by P s))"
  by (simp add: trim_end_by_def last_rev hd_dropWhile)

lemma last_trim_start: "trim_start_by P s \<noteq> [] \<Longrightarrow> last (trim_start_by P s) = last s"
  unfolding trim_start_by_def
  by (metis dropWhile_eq_self_iff last_appendR takeWhile_dropWhile_id)

lemma sanitize_safe: "sanitize_modinfo_name s \<noteq> [] \<Longrightarrow> safe_mod_name (sanitize_modinfo_name s)"
proof -
  let ?mapped = "map sanitize_char s"
  let ?ended = "trim_end_by (\<lambda>c. c = dot) (trim ?mapped)"
  assume ne: "sanitize_modinfo_name s \<noteq> []"
  then have "?ended \<noteq> []"
    by (auto simp: sanitize_modinfo_name_def trim_start_by_def)
  then have "last (sanitize_modinfo_name s) \<noteq> dot"
    using ne last_trim_end [of "\<lambda>c. c = dot"] last_trim_start [of "\<lambda>c. c = dot" ?ended]
    by (simp add: sanitize_modinfo_name_def)
  moreover have "hd (sanitize_modinfo_name s) \<noteq> dot"
    using ne hd_trim_start [of "\<lambda>c. c = dot" ?ended] by (simp add: sanitize_modinfo_name_def)
  moreover have "set (sanitize_modinfo_name s) \<subseteq> set ?mapped"
    unfolding sanitize_modinfo_name_def using set_trim_by set_trim by blast
  ultimately show ?thesis
    using ne sanitize_char_safe by (fastforce simp: safe_mod_name_def)
qed

definition safe_info :: "mod_info \<Rightarrow> bool" where
  "safe_info i \<longleftrightarrow> (case mi_name i of Some n \<Rightarrow> safe_mod_name n | None \<Rightarrow> True)
     \<and> mi_addonfor i \<noteq> Some [] \<and> mi_screenshot i \<noteq> Some []"

lemma parse_line_safe: "safe_info i \<Longrightarrow> safe_info (parse_line l i)"
  by (auto simp: parse_line_def safe_info_def Let_def sanitize_safe split: option.splits if_splits)

lemma fold_parse_line_safe: "safe_info i \<Longrightarrow> safe_info (fold parse_line ls i)"
  by (induction ls arbitrary: i) (auto intro: parse_line_safe)

section \<open>Properties\<close>

text \<open>Whatever a \<^verbatim>\<open>modinfo.ini\<close> holds, the name read out of it is a single folder
  name: not empty, without path separators, reserved or C0 control characters, and neither
  starting nor ending with a dot; the other two fields are never the empty string.\<close>

theorem parse_str_safe:
  "(case mi_name (parse_str contents) of
      Some n \<Rightarrow> n \<noteq> [] \<and> hd n \<noteq> dot \<and> last n \<noteq> dot \<and> slash \<notin> set n \<and> backslash \<notin> set n
        \<and> set n \<inter> (set illegal_name_chars \<union> {..<32}) = {}
    | None \<Rightarrow> True)
   \<and> mi_addonfor (parse_str contents) \<noteq> Some [] \<and> mi_screenshot (parse_str contents) \<noteq> Some []"
proof -
  have "safe_info (parse_str contents)"
    unfolding parse_str_def by (rule fold_parse_line_safe) (simp add: safe_info_def default_mod_info_def)
  then show ?thesis
    by (force simp: safe_info_def safe_mod_name_def illegal_name_chars_def split: option.splits)
qed

text \<open>The sanitiser's documentation says trailing whitespace is trimmed, because it is unsafe at
  the end of a name. It is not when a dot follows it: dots are trimmed after whitespace, so
  \<^verbatim>\<open>Mod .\<close> becomes a name that ends in a space, and \<^verbatim>\<open>. Mod\<close> one that starts with a
  space.\<close>

theorem sanitize_leaves_outer_space:
  "mi_name (parse_str (lit ''name=Mod .'')) = Some (lit ''Mod '')
   \<and> mi_name (parse_str (lit ''name=. Mod'')) = Some (lit '' Mod'')"
  by code_simp

end
