(* ===== verification/Archive_Entry.thy ===== *)
theory Archive_Entry
  imports Prelude
begin

text \<open>
  \<^verbatim>\<open>ArchiveEntry\<close> of \<^verbatim>\<open>crates/core/src/archive/info.rs\<close>: one row of an archive
  listing, the data every planning and browsing component reads.
\<close>

type_synonym u64 = "64 word"

record archive_entry =
  entry_path :: str
  entry_size :: u64
  packed_size :: u64
  modified :: "str option"
  is_dir :: bool
  encrypted :: bool
  crc32 :: "str option"

text \<open>The separator test \<^verbatim>\<open>|c| c == '/' || c == '\\'\<close> and the segments it leaves.\<close>

definition is_separator :: "uchar \<Rightarrow> bool" where
  "is_separator c \<longleftrightarrow> c = slash \<or> c = backslash"

definition name_parts :: "str \<Rightarrow> str list" where
  "name_parts p = filter (\<lambda>s. s \<noteq> []) (split_on is_separator p)"

lemma name_parts_nonempty: "s \<in> set (name_parts p) \<Longrightarrow> s \<noteq> []"
  by (simp add: name_parts_def)

lemma name_parts_no_separator: "s \<in> set (name_parts p) \<Longrightarrow> c \<in> set s \<Longrightarrow> \<not> is_separator c"
  by (auto simp: name_parts_def dest: split_on_segments)

text \<open>A file entry and a directory entry with nothing but a path and a size, for examples.\<close>

definition file_entry :: "str \<Rightarrow> u64 \<Rightarrow> archive_entry" where
  "file_entry p n = \<lparr>entry_path = p, entry_size = n, packed_size = n, modified = None,
     is_dir = False, encrypted = False, crc32 = None\<rparr>"

definition dir_entry :: "str \<Rightarrow> archive_entry" where
  "dir_entry p = (file_entry p 0)\<lparr>is_dir := True\<rparr>"

end
