(* ===== verification/Utf8.thy ===== *)
theory Utf8
  imports Prelude
begin

text \<open>
  \<^verbatim>\<open>String::from_utf8\<close> and \<^verbatim>\<open>str::as_bytes\<close>: the strict decoder of the standard
  library, which refuses truncated and overlong sequences, surrogates and values past the last code
  point, and the encoder it inverts.
\<close>

type_synonym byte = "8 word"

definition is_scalar :: "uchar \<Rightarrow> bool" where
  "is_scalar c \<longleftrightarrow> 0 \<le> c \<and> c < 1114112 \<and> \<not> (55296 \<le> c \<and> c < 57344)"

definition is_cont :: "byte \<Rightarrow> bool" where
  "is_cont b \<longleftrightarrow> uint b div 64 = 2"

definition cont_bits :: "byte \<Rightarrow> int" where
  "cont_bits b = uint b mod 64"

fun utf8_next :: "byte list \<Rightarrow> (uchar \<times> byte list) option" where
  "utf8_next [] = None"
| "utf8_next (b # bs) =
     (let x = uint b in
      if x < 128 then Some (x, bs)
      else if x < 192 then None
      else if x < 224 then
        (case bs of
           b1 # rest \<Rightarrow>
             let c = (x - 192) * 64 + cont_bits b1 in
             if is_cont b1 \<and> 128 \<le> c then Some (c, rest) else None
         | _ \<Rightarrow> None)
      else if x < 240 then
        (case bs of
           b1 # b2 # rest \<Rightarrow>
             let c = (x - 224) * 4096 + cont_bits b1 * 64 + cont_bits b2 in
             if is_cont b1 \<and> is_cont b2 \<and> 2048 \<le> c \<and> is_scalar c then Some (c, rest) else None
         | _ \<Rightarrow> None)
      else if x < 248 then
        (case bs of
           b1 # b2 # b3 # rest \<Rightarrow>
             let c = (x - 240) * 262144 + cont_bits b1 * 4096 + cont_bits b2 * 64 + cont_bits b3 in
             if is_cont b1 \<and> is_cont b2 \<and> is_cont b3 \<and> 65536 \<le> c \<and> is_scalar c
             then Some (c, rest) else None
         | _ \<Rightarrow> None)
      else None)"

lemma utf8_next_shorter:
  "utf8_next bs = Some (c, rest) \<Longrightarrow> length rest < length bs"
  by (cases bs) (auto simp: Let_def split: if_splits list.splits)

function from_utf8 :: "byte list \<Rightarrow> str option" where
  "from_utf8 bs =
     (if bs = [] then Some []
      else case utf8_next bs of
        None \<Rightarrow> None
      | Some (c, rest) \<Rightarrow> map_option ((#) c) (from_utf8 rest))"
  by pat_completeness auto
termination
  by (relation "measure length") (auto dest: utf8_next_shorter)

declare from_utf8.simps [simp del]

definition mk_byte :: "int \<Rightarrow> byte" where
  "mk_byte x = word_of_int x"

definition utf8_char :: "uchar \<Rightarrow> byte list" where
  "utf8_char c =
     (if c < 128 then [mk_byte c]
      else if c < 2048 then [mk_byte (192 + c div 64), mk_byte (128 + c mod 64)]
      else if c < 65536 then
        [mk_byte (224 + c div 4096), mk_byte (128 + c div 64 mod 64),
         mk_byte (128 + c mod 64)]
      else
        [mk_byte (240 + c div 262144), mk_byte (128 + c div 4096 mod 64),
         mk_byte (128 + c div 64 mod 64), mk_byte (128 + c mod 64)])"

definition as_bytes :: "str \<Rightarrow> byte list" where
  "as_bytes s = concat (map utf8_char s)"

section \<open>Round trip\<close>

lemma uint_byte [simp]: "0 \<le> x \<Longrightarrow> x < 256 \<Longrightarrow> uint (mk_byte x) = x"
  by (simp add: mk_byte_def uint_word_of_int take_bit_int_eq_self)

lemma cont_byte [simp]:
  "is_cont (mk_byte (128 + x mod 64))" "cont_bits (mk_byte (128 + x mod 64)) = x mod 64"
proof -
  have b: "0 \<le> 128 + x mod 64" "128 + x mod 64 < 256" by (simp_all add: add_increasing)
  have "0 \<le> x mod 64" "x mod 64 < 64" by simp_all
  then show "is_cont (mk_byte (128 + x mod 64))"
    using b by (simp add: is_cont_def)
  have "(x mod 64 + 2 * 64) mod 64 = x mod 64"
    by (simp only: mod_mult_self1 mod_mod_trivial)
  moreover have "x mod 64 + 2 * 64 = 128 + x mod 64" by simp
  ultimately have "(128 + x mod 64) mod 64 = x mod 64" by argo
  then show "cont_bits (mk_byte (128 + x mod 64)) = x mod 64"
    using b by (simp only: cont_bits_def uint_byte)
qed

lemma split64: "c div 64 * 64 + c mod 64 = (c :: int)"
  by simp

lemma split4096: "c div 4096 * 4096 + c div 64 mod 64 * 64 + c mod 64 = (c :: int)"
proof -
  have "c div 64 div 64 * 64 + c div 64 mod 64 = c div 64" by simp
  moreover have "c div 64 div 64 = c div 4096" by (simp add: zdiv_zmult2_eq [symmetric])
  ultimately show ?thesis using split64 [of c] by linarith
qed

lemma split262144:
  "c div 262144 * 262144 + c div 4096 mod 64 * 4096 + c div 64 mod 64 * 64 + c mod 64 = (c :: int)"
proof -
  have "c div 4096 div 64 * 64 + c div 4096 mod 64 = c div 4096" by simp
  moreover have "c div 4096 div 64 = c div 262144" by (simp add: zdiv_zmult2_eq [symmetric])
  ultimately show ?thesis using split4096 [of c] by linarith
qed

lemma utf8_next_char:
  assumes "is_scalar c"
  shows "utf8_next (utf8_char c @ rest) = Some (c, rest)"
proof -
  have c: "0 \<le> c" "c < 1114112" using assms by (auto simp: is_scalar_def)
  consider "c < 128" | "128 \<le> c" "c < 2048" | "2048 \<le> c" "c < 65536" | "65536 \<le> c" by linarith
  then show ?thesis
  proof cases
    case 1
    then show ?thesis using c by (simp add: utf8_char_def)
  next
    case 2
    then have "0 \<le> c div 64" "c div 64 < 32" by auto
    then show ?thesis using 2 c by (simp add: utf8_char_def Let_def)
  next
    case 3
    then have "0 \<le> c div 4096" "c div 4096 < 16" by auto
    then show ?thesis using 3 c assms by (simp add: utf8_char_def Let_def split4096)
  next
    case 4
    then have "0 \<le> c div 262144" "c div 262144 < 8" using c by auto
    then show ?thesis using 4 c assms by (simp add: utf8_char_def Let_def split262144)
  qed
qed

lemma utf8_char_nonempty [simp]: "utf8_char c \<noteq> []"
  by (simp add: utf8_char_def)

lemma from_utf8_as_bytes:
  "\<forall>c \<in> set s. is_scalar c \<Longrightarrow> from_utf8 (as_bytes s) = Some s"
proof (induction s)
  case Nil
  then show ?case by (simp add: as_bytes_def from_utf8.simps)
next
  case (Cons c s)
  then have IH: "from_utf8 (as_bytes s) = Some s" by simp
  have "as_bytes (c # s) = utf8_char c @ as_bytes s" by (simp add: as_bytes_def)
  then show ?case
    using Cons.prems IH utf8_next_char [of c "as_bytes s"]
    by (simp add: from_utf8.simps [of "utf8_char c @ as_bytes s"])
qed

text \<open>The decoder accepts nothing but encodings, so decoding loses nothing.\<close>

lemma mk_byte_uint [simp]: "mk_byte (uint b) = b"
  by (simp add: mk_byte_def)

lemma cont_byte_back: "is_cont b \<Longrightarrow> mk_byte (128 + cont_bits b) = b"
proof -
  assume "is_cont b"
  then have "128 + cont_bits b = uint b"
    using mult_div_mod_eq [of 64 "uint b"] by (simp add: is_cont_def cont_bits_def)
  then show ?thesis by simp
qed

lemma cont_bits_range: "0 \<le> cont_bits b" "cont_bits b < 64"
  by (simp_all add: cont_bits_def)

lemma pack2: "0 \<le> r \<Longrightarrow> r < 64 \<Longrightarrow> (a * 64 + r) div 64 = a \<and> (a * 64 + r) mod 64 = (r :: int)"
  by (simp add: div_pos_pos_trivial)

lemma pack3:
  assumes "0 \<le> r" "r < 64" "0 \<le> q" "q < 64"
  shows "(a * 4096 + q * 64 + r) div 4096 = a \<and> (a * 4096 + q * 64 + r) div 64 mod 64 = q
    \<and> (a * 4096 + q * 64 + r) mod 64 = (r :: int)"
proof -
  have eq: "a * 4096 + q * 64 + r = (a * 64 + q) * 64 + r" by simp
  have "(a * 4096 + q * 64 + r) div 64 = a * 64 + q" "(a * 4096 + q * 64 + r) mod 64 = r"
    unfolding eq using pack2 [OF assms(1,2), of "a * 64 + q"] by blast+
  moreover have "(a * 4096 + q * 64 + r) div 4096 = (a * 4096 + q * 64 + r) div 64 div 64"
    by (simp add: zdiv_zmult2_eq [symmetric])
  ultimately show ?thesis using pack2 [OF assms(3,4), of a] by simp
qed

lemma pack4:
  assumes "0 \<le> r" "r < 64" "0 \<le> q" "q < 64" "0 \<le> p" "p < 64"
  shows "(a * 262144 + p * 4096 + q * 64 + r) div 262144 = a
    \<and> (a * 262144 + p * 4096 + q * 64 + r) div 4096 mod 64 = p
    \<and> (a * 262144 + p * 4096 + q * 64 + r) div 64 mod 64 = q
    \<and> (a * 262144 + p * 4096 + q * 64 + r) mod 64 = (r :: int)"
proof -
  have eq: "a * 262144 + p * 4096 + q * 64 + r = (a * 64 + p) * 4096 + q * 64 + r" by simp
  have "(a * 262144 + p * 4096 + q * 64 + r) div 262144
      = (a * 262144 + p * 4096 + q * 64 + r) div 4096 div 64"
    by (simp add: zdiv_zmult2_eq [symmetric])
  then show ?thesis
    unfolding eq using pack3 [OF assms(1-4), of "a * 64 + p"] pack2 [OF assms(5,6), of a] by simp
qed

lemma below2: "a \<le> 223 \<Longrightarrow> r < 64 \<Longrightarrow> (a - 192) * 64 + r < (2048 :: int)"
  by arith

lemma below3: "a \<le> 239 \<Longrightarrow> q \<le> 63 \<Longrightarrow> r < 64 \<Longrightarrow> (a - 224) * 4096 + q * 64 + r < (65536 :: int)"
proof -
  assume "a \<le> 239" "q \<le> 63" "r < 64"
  then have "(a - 224) * 4096 \<le> 61440" "q * 64 \<le> 4032" "r < 64" by simp_all
  then show ?thesis by simp
qed

lemma utf8_next_inverse:
  assumes "utf8_next bs = Some (c, rest)"
  shows "bs = utf8_char c @ rest"
proof (cases bs)
  case Nil
  then show ?thesis using assms by simp
next
  case (Cons b bs1)
  note r = cont_bits_range
  consider "uint b < 128"
    | b1 where "192 \<le> uint b" "uint b < 224" "bs1 = b1 # rest" "is_cont b1"
        "c = (uint b - 192) * 64 + cont_bits b1" "128 \<le> c"
    | b1 b2 where "224 \<le> uint b" "uint b < 240" "bs1 = b1 # b2 # rest" "is_cont b1" "is_cont b2"
        "c = (uint b - 224) * 4096 + cont_bits b1 * 64 + cont_bits b2" "2048 \<le> c"
    | b1 b2 b3 where "240 \<le> uint b" "uint b < 248" "bs1 = b1 # b2 # b3 # rest"
        "is_cont b1" "is_cont b2" "is_cont b3"
        "c = (uint b - 240) * 262144 + cont_bits b1 * 4096 + cont_bits b2 * 64 + cont_bits b3" "65536 \<le> c"
    using assms Cons by (auto simp: Let_def split: if_splits list.splits)
  then show ?thesis
  proof cases
    case 1
    then show ?thesis using assms Cons by (auto simp: Let_def utf8_char_def)
  next
    case 2
    have "uint b \<le> 223" using 2(2) by simp
    then have "c < 2048" using 2(5) below2 r(2) [of b1] by simp
    then show ?thesis
      using 2 Cons pack2 [OF r [of b1], of "uint b - 192"]
      by (simp add: utf8_char_def cont_byte_back)
  next
    case 3
    have "uint b \<le> 239" "cont_bits b1 \<le> 63" using 3(2) r(2) [of b1] by simp_all
    then have "c < 65536" using 3(6) below3 r(2) [of b2] by simp
    then show ?thesis
      using 3 Cons pack3 [OF r [of b2] r [of b1], of "uint b - 224"]
      by (simp add: utf8_char_def cont_byte_back)
  next
    case 4
    then show ?thesis
      using Cons pack4 [OF r [of b3] r [of b2] r [of b1], of "uint b - 240"]
      by (simp add: utf8_char_def cont_byte_back)
  qed
qed

lemma as_bytes_from_utf8: "from_utf8 bs = Some s \<Longrightarrow> as_bytes s = bs"
proof (induction bs arbitrary: s rule: from_utf8.induct)
  case (1 bs)
  show ?case
  proof (cases "bs = []")
    case True
    then show ?thesis using 1 by (simp add: as_bytes_def from_utf8.simps)
  next
    case False
    then obtain c rest s' where step: "utf8_next bs = Some (c, rest)" "from_utf8 rest = Some s'" "s = c # s'"
      using "1.prems" by (auto simp: from_utf8.simps [of bs] split: option.splits)
    then have "as_bytes s' = rest" using "1.IH" [OF False] by simp
    then show ?thesis
      using utf8_next_inverse [OF step(1)] step(3) by (simp add: as_bytes_def)
  qed
qed

text \<open>The byte length of the encoding is what \<^verbatim>\<open>str::len\<close> counts.\<close>

lemma length_as_bytes: "length (as_bytes s) = str_len s"
  by (induction s) (auto simp: as_bytes_def str_len_def utf8_char_def utf8_width_def)

end
