(* ===== verification/Outputs.thy ===== *)
theory Outputs
  imports Claim_Store Layout Modinfo Archive_Entry Utf8 "HOL-Library.Multiset"
begin

text \<open>
  \<^verbatim>\<open>crates/core/src/features/organization/engine/outputs.rs\<close>: the first half of resolving a
  layout. How many outputs an archive produces, where each one's content starts, what each is called.
  Messages of \<^verbatim>\<open>bail!\<close> and the reasons on \<^verbatim>\<open>skipped\<close> are values that carry what
  the text interpolates.

  The lemmas give template expansion a one-line specification, show that the selected roots are
  sorted and never nested, and that resolution accounts for every root and hands out names a
  case-folding file system keeps apart.
\<close>

section \<open>Template expansion\<close>

definition token_char :: "unicode \<Rightarrow> uchar \<Rightarrow> bool" where
  "token_char u c \<longleftrightarrow> char_alphanumeric u c \<or> c = underscore"

text \<open>The \<^verbatim>\<open>while\<close> loop of \<^verbatim>\<open>expand\<close>: the result so far, the tokens without a value so far,
  and the rest of the template.\<close>

function expand_loop ::
  "unicode \<Rightarrow> (str \<rightharpoonup> str) \<Rightarrow> str \<Rightarrow> str list \<Rightarrow> str \<Rightarrow> str \<times> str list" where
  "expand_loop u vars expanded missing rest =
     (case dropWhile (\<lambda>c. c \<noteq> dollar) rest of
        [] \<Rightarrow> (expanded @ rest, missing)
      | _ # after \<Rightarrow>
          let expanded' = expanded @ takeWhile (\<lambda>c. c \<noteq> dollar) rest;
              token = takeWhile (token_char u) after;
              rest' = dropWhile (token_char u) after
          in if token = [] then expand_loop u vars (expanded' @ [dollar]) missing rest'
             else (case vars token of
                 Some value \<Rightarrow> expand_loop u vars (expanded' @ value) missing rest'
               | None \<Rightarrow> expand_loop u vars (expanded' @ dollar # token)
                   (if token \<in> set missing then missing else missing @ [token]) rest'))"
  by pat_completeness auto
termination
proof (relation "measure (\<lambda>(u, vars, expanded, missing, rest). length rest)", goal_cases)
  case 1
  then show ?case by simp
qed (clarsimp,
     metis length_dropWhile_le le_less_trans length_Cons lessI less_le_trans)+

declare expand_loop.simps [simp del]

definition expand :: "unicode \<Rightarrow> str \<Rightarrow> (str \<rightharpoonup> str) \<Rightarrow> str \<times> str list" where
  "expand u template vars = expand_loop u vars [] [] template"

section \<open>Selecting roots\<close>

datatype layout_error =
    UnknownModinfoKey str str
  | NoWrapperForOutputs nat
  | UnnamedSibling nat
  | SameOutputName str
  | MergeableOutputNames str str
  | NestedRoots str str

definition root_of_marker :: "str \<Rightarrow> archive_entry \<Rightarrow> str option" where
  "root_of_marker marker e =
     (if is_dir e then None
      else let path = fwd (entry_path e) in
        if path = marker then Some []
        else Option.bind (strip_suffix path marker) (\<lambda>root. strip_suffix root [slash]))"

text \<open>Every directory strictly above a root, outermost first.\<close>

definition ancestors_of :: "str \<Rightarrow> str list" where
  "ancestors_of root =
     (if root = [] then []
      else [] # filter (\<lambda>a. a \<noteq> [])
        (map (\<lambda>i. take i root) (filter (\<lambda>i. root ! i = slash) [0..<length root])))"

definition refuse_nested_roots :: "str list \<Rightarrow> layout_error + unit" where
  "refuse_nested_roots roots =
     fold_res (\<lambda>root _. fold_res (\<lambda>ancestor _.
         if ancestor \<in> set roots then Inl (NestedRoots root ancestor) else Inr ())
       (ancestors_of root) ()) roots ()"

definition select_roots :: "output_selector \<Rightarrow> archive_entry list \<Rightarrow> layout_error + str list" where
  "select_roots sel entries =
     (case sel of
        Whole \<Rightarrow> Inr [[]]
      | PerDirectoryContaining marker \<Rightarrow>
          let roots = sort (remdups (List.map_filter (root_of_marker marker) entries)) in
          res_bind (refuse_nested_roots roots) (\<lambda>_. Inr roots))"

section \<open>Naming one output\<close>

datatype mod_info_key = KeyName | KeyAddonFor | KeyScreenshot

definition parse_key :: "str \<Rightarrow> mod_info_key option" where
  "parse_key k =
     (if k = lit ''name'' then Some KeyName
      else if k = lit ''addonfor'' then Some KeyAddonFor
      else if k = lit ''screenshot'' then Some KeyScreenshot
      else None)"

fun take_key :: "mod_info_key \<Rightarrow> mod_info \<Rightarrow> str option" where
  "take_key KeyName i = mi_name i"
| "take_key KeyAddonFor i = mi_addonfor i"
| "take_key KeyScreenshot i = mi_screenshot i"

record resolved_output =
  ro_root :: str
  ro_name :: str
  ro_variables :: "str \<rightharpoonup> str"

datatype variable_fault =
    FileNotInArchive str str
  | FileNotUtf8 str str
  | KeyNotSet str str str

datatype skip_reason =
    VariablesUnresolved "variable_fault list"
  | NameNeeds "str list"
  | StagesNothing str

datatype resolution = Named resolved_output | Unnameable skip_reason

type_synonym read_entry = "str \<Rightarrow> byte list option"

definition join_path :: "str \<Rightarrow> str \<Rightarrow> str" where
  "join_path root relative = (if root = [] then relative else root @ slash # relative)"

definition read_file_variable ::
  "str \<Rightarrow> file_variable \<Rightarrow> mod_info_key \<Rightarrow> read_entry \<Rightarrow> variable_fault + str" where
  "read_file_variable path var key read =
     (case read path of
        None \<Rightarrow> Inl (FileNotInArchive (as_name var) path)
      | Some bytes \<Rightarrow> (case from_utf8 bytes of
            None \<Rightarrow> Inl (FileNotUtf8 (as_name var) path)
          | Some txt \<Rightarrow> ok_or (take_key key (parse_str txt))
              (KeyNotSet (as_name var) (fv_key var) path)))"

fun read_variables ::
  "str \<Rightarrow> read_entry \<Rightarrow> (file_variable \<times> mod_info_key) list \<Rightarrow> (str \<rightharpoonup> str) \<Rightarrow> variable_fault list
    \<Rightarrow> (str \<rightharpoonup> str) \<times> variable_fault list" where
  "read_variables root read [] vars unresolved = (vars, unresolved)"
| "read_variables root read ((var, key) # wanted) vars unresolved =
     (case read_file_variable (join_path root (fv_file var)) var key read of
        Inr value \<Rightarrow> read_variables root read wanted (vars(as_name var \<mapsto> value)) unresolved
      | Inl reason \<Rightarrow> read_variables root read wanted vars (unresolved @ [reason]))"

definition resolve_one ::
  "unicode \<Rightarrow> str \<Rightarrow> (file_variable \<times> mod_info_key) list \<Rightarrow> str \<Rightarrow> (str \<rightharpoonup> str) \<Rightarrow> read_entry
    \<Rightarrow> resolution" where
  "resolve_one u template wanted root base read =
     (case read_variables root read wanted base [] of
        (vars, unresolved) \<Rightarrow>
          (case expand u template vars of
             (name, missing) \<Rightarrow>
               if unresolved \<noteq> [] then Unnameable (VariablesUnresolved unresolved)
               else if missing \<noteq> [] then Unnameable (NameNeeds missing)
               else Named \<lparr>ro_root = root, ro_name = name, ro_variables = vars\<rparr>))"

section \<open>Resolving a layout\<close>

definition wanted_variables ::
  "layout \<Rightarrow> layout_error + (file_variable \<times> mod_info_key) list" where
  "wanted_variables l = map_res (\<lambda>var. case parse_key (fv_key var) of
       Some key \<Rightarrow> Inr (var, key)
     | None \<Rightarrow> Inl (UnknownModinfoKey (as_name var) (fv_key var))) (lay_file_variables l)"

fun split_resolutions ::
  "(str \<times> resolution) list \<Rightarrow> resolved_output list \<times> (str \<times> skip_reason) list" where
  "split_resolutions [] = ([], [])"
| "split_resolutions ((root, r) # rs) =
     (case split_resolutions rs of (outputs, skipped) \<Rightarrow>
        (case r of
           Named output \<Rightarrow> (output # outputs, skipped)
         | Unnameable reason \<Rightarrow> (outputs, (root, reason) # skipped)))"

text \<open>The loop that refuses two outputs of one name, compared in upper case; \<open>claimed\<close> is the
  \<^verbatim>\<open>BTreeMap\<close> from folded names to the names that took them.\<close>

definition claim_name ::
  "unicode \<Rightarrow> resolved_output \<Rightarrow> (str \<rightharpoonup> str) \<Rightarrow> layout_error + (str \<rightharpoonup> str)" where
  "claim_name u out claimed =
     (case claimed (str_upper u (ro_name out)) of
        Some first \<Rightarrow>
          if first = ro_name out then Inl (SameOutputName (ro_name out))
          else Inl (MergeableOutputNames first (ro_name out))
      | None \<Rightarrow> Inr (claimed(str_upper u (ro_name out) \<mapsto> ro_name out)))"

definition claim_names :: "unicode \<Rightarrow> resolved_output list \<Rightarrow> layout_error + (str \<rightharpoonup> str)" where
  "claim_names u outs = fold_res (claim_name u) outs Map.empty"

record resolved_outputs =
  res_outputs :: "resolved_output list"
  res_skipped :: "(str \<times> skip_reason) list"

definition resolve_outputs ::
  "unicode \<Rightarrow> layout \<Rightarrow> archive_entry list \<Rightarrow> (str \<rightharpoonup> str) \<Rightarrow> read_entry
    \<Rightarrow> layout_error + resolved_outputs" where
  "resolve_outputs u l entries base read =
     res_bind (wanted_variables l) (\<lambda>wanted.
     res_bind (select_roots (lay_outputs l) entries) (\<lambda>roots.
       if lay_name l = [] \<and> length roots > 1 then Inl (NoWrapperForOutputs (length roots))
       else let (outputs, skipped) = split_resolutions
                (map (\<lambda>root. (root, resolve_one u (lay_name l) wanted root base read)) roots)
         in if length outputs > 1 \<and> list_ex (\<lambda>out. ro_name out = []) outputs
            then Inl (UnnamedSibling (length outputs))
            else res_bind (claim_names u outputs)
              (\<lambda>_. Inr \<lparr>res_outputs = outputs, res_skipped = skipped\<rparr>)))"

section \<open>Expansion against a reference\<close>

text \<open>A template read as a list of pieces, independent of any variable map.\<close>

datatype piece = Verbatim str | Token str

function template_pieces :: "unicode \<Rightarrow> str \<Rightarrow> piece list" where
  "template_pieces u t =
     (case dropWhile (\<lambda>c. c \<noteq> dollar) t of
        [] \<Rightarrow> [Verbatim t]
      | _ # after \<Rightarrow>
          let token = takeWhile (token_char u) after in
          Verbatim (takeWhile (\<lambda>c. c \<noteq> dollar) t)
          # (if token = [] then Verbatim [dollar] else Token token)
          # template_pieces u (dropWhile (token_char u) after))"
  by pat_completeness auto
termination
proof (relation "measure (\<lambda>(u, t). length t)", goal_cases)
  case 1
  then show ?case by simp
qed (clarsimp,
     metis length_dropWhile_le le_less_trans length_Cons lessI less_le_trans)

declare template_pieces.simps [simp del]

fun piece_text :: "piece \<Rightarrow> str" where
  "piece_text (Verbatim s) = s"
| "piece_text (Token t) = dollar # t"

fun render_piece :: "(str \<rightharpoonup> str) \<Rightarrow> piece \<Rightarrow> str" where
  "render_piece vars (Verbatim s) = s"
| "render_piece vars (Token t) = (case vars t of Some v \<Rightarrow> v | None \<Rightarrow> dollar # t)"

fun piece_unset :: "(str \<rightharpoonup> str) \<Rightarrow> piece \<Rightarrow> str list" where
  "piece_unset vars (Verbatim s) = []"
| "piece_unset vars (Token t) = (if vars t = None then [t] else [])"

text \<open>The distinct elements of a list in order of first appearance, from a given start.\<close>

definition first_seen :: "'a list \<Rightarrow> 'a list \<Rightarrow> 'a list" where
  "first_seen seen xs = fold (\<lambda>x acc. if x \<in> set acc then acc else acc @ [x]) xs seen"

lemma first_seen_simps [simp]:
  "first_seen seen [] = seen"
  "first_seen seen (x # xs) = first_seen (if x \<in> set seen then seen else seen @ [x]) xs"
  by (simp_all add: first_seen_def)

lemma set_first_seen: "set (first_seen seen xs) = set seen \<union> set xs"
  by (induction xs arbitrary: seen) auto

lemma distinct_first_seen: "distinct seen \<Longrightarrow> distinct (first_seen seen xs)"
  by (induction xs arbitrary: seen) auto

lemma first_seen_append: "first_seen seen (xs @ ys) = first_seen (first_seen seen xs) ys"
  by (simp add: first_seen_def)

lemma expand_loop_pieces:
  "expand_loop u vars expanded missing rest =
     (expanded @ concat (map (render_piece vars) (template_pieces u rest)),
      first_seen missing (concat (map (piece_unset vars) (template_pieces u rest))))"
proof (induction u vars expanded missing rest rule: expand_loop.induct)
  case (1 u vars expanded missing rest)
  show ?case
  proof (cases "dropWhile (\<lambda>c. c \<noteq> dollar) rest")
    case Nil
    then show ?thesis
      by (simp add: expand_loop.simps [of u vars expanded missing rest] template_pieces.simps [of u rest]
          del: dropWhile_eq_Nil_conv)
  next
    case (Cons d after)
    let ?tok = "takeWhile (token_char u) after"
    show ?thesis
      using "1.IH" [OF Cons refl refl refl] Cons
      by (cases "?tok = []"; cases "vars ?tok")
         (simp_all add: expand_loop.simps [of u vars expanded missing rest]
            template_pieces.simps [of u rest] Let_def)
  qed
qed

lemma template_pieces_text: "concat (map piece_text (template_pieces u t)) = t"
proof (induction u t rule: template_pieces.induct)
  case (1 u t)
  show ?case
  proof (cases "dropWhile (\<lambda>c. c \<noteq> dollar) t")
    case Nil
    then show ?thesis
      by (simp add: template_pieces.simps [of u t] del: dropWhile_eq_Nil_conv)
  next
    case (Cons d after)
    have d: "d = dollar" using hd_dropWhile [of "\<lambda>c. c \<noteq> dollar" t] Cons by simp
    have t: "t = takeWhile (\<lambda>c. c \<noteq> dollar) t @ dollar # after"
      using takeWhile_dropWhile_id [of "\<lambda>c. c \<noteq> dollar" t] Cons d by simp
    let ?tok = "takeWhile (token_char u) after"
    have tok: "piece_text (if ?tok = [] then Verbatim [dollar] else Token ?tok) = dollar # ?tok"
      by (simp del: takeWhile_eq_Nil_iff)
    have "concat (map piece_text (template_pieces u t))
        = takeWhile (\<lambda>c. c \<noteq> dollar) t @ (dollar # ?tok) @ dropWhile (token_char u) after"
      unfolding template_pieces.simps [of u t] Cons list.case Let_def list.map concat.simps tok
        "1.IH" [OF Cons refl] piece_text.simps ..
    also have "\<dots> = takeWhile (\<lambda>c. c \<noteq> dollar) t @ dollar # after" by simp
    finally show ?thesis using t by simp
  qed
qed

section \<open>Roots\<close>

text \<open>One directory lies strictly inside another.\<close>

definition inside :: "str \<Rightarrow> str \<Rightarrow> bool" where
  "inside p root \<longleftrightarrow> (if root = [] then p \<noteq> [] else \<exists>rest. p = root @ slash # rest)"

lemma ancestors_of_iff: "a \<in> set (ancestors_of r) \<longleftrightarrow> inside r a"
proof (cases "r = []")
  case True
  then show ?thesis by (auto simp: ancestors_of_def inside_def)
next
  case False
  have "a \<in> (\<lambda>i. take i r) ` {i. i < length r \<and> r ! i = slash} \<longleftrightarrow> (\<exists>rest. r = a @ slash # rest)"
  proof
    assume "a \<in> (\<lambda>i. take i r) ` {i. i < length r \<and> r ! i = slash}"
    then obtain i where i: "i < length r" "r ! i = slash" "a = take i r" by auto
    then have "r = a @ slash # drop (Suc i) r" by (metis id_take_nth_drop)
    then show "\<exists>rest. r = a @ slash # rest" by blast
  next
    assume "\<exists>rest. r = a @ slash # rest"
    then obtain rest where "r = a @ slash # rest" by blast
    then have "length a < length r \<and> r ! length a = slash \<and> take (length a) r = a" by simp
    then show "a \<in> (\<lambda>i. take i r) ` {i. i < length r \<and> r ! i = slash}" by (force simp: image_iff)
  qed
  then show ?thesis using False by (auto simp: ancestors_of_def inside_def)
qed

lemma fold_res_unit_iff:
  "fold_res f xs () = Inr () \<longleftrightarrow> (\<forall>x \<in> set xs. f x () = Inr ())"
  by (induction xs) (auto simp: res_bind_eq_Inr)

lemma refuse_nested_roots_iff:
  "refuse_nested_roots roots = Inr () \<longleftrightarrow> (\<forall>r \<in> set roots. \<forall>a \<in> set roots. \<not> inside r a)"
  by (auto simp: refuse_nested_roots_def fold_res_unit_iff ancestors_of_iff)

lemma select_roots_facts:
  assumes "select_roots sel es = Inr roots"
  shows "sorted_wrt (<) roots" and "\<forall>r \<in> set roots. \<forall>a \<in> set roots. \<not> inside r a"
    and "set roots = (case sel of Whole \<Rightarrow> {[]}
      | PerDirectoryContaining m \<Rightarrow> {r. \<exists>e \<in> set es. root_of_marker m e = Some r})"
proof -
  have "sorted_wrt (<) roots \<and> (\<forall>r \<in> set roots. \<forall>a \<in> set roots. \<not> inside r a)
    \<and> set roots = (case sel of Whole \<Rightarrow> {[]}
      | PerDirectoryContaining m \<Rightarrow> {r. \<exists>e \<in> set es. root_of_marker m e = Some r})"
  proof (cases sel)
    case Whole
    then show ?thesis using assms by (auto simp: select_roots_def inside_def)
  next
    case (PerDirectoryContaining m)
    have found: "set (List.map_filter (root_of_marker m) es)
        = {r. \<exists>e \<in> set es. root_of_marker m e = Some r}"
      by (induction es) (auto simp: map_filter_simps split: option.splits)
    show ?thesis using assms PerDirectoryContaining found
      by (auto simp: select_roots_def Let_def res_bind_eq_Inr refuse_nested_roots_iff strict_sorted_iff)
  qed
  then show "sorted_wrt (<) roots" "\<forall>r \<in> set roots. \<forall>a \<in> set roots. \<not> inside r a"
    "set roots = (case sel of Whole \<Rightarrow> {[]}
      | PerDirectoryContaining m \<Rightarrow> {r. \<exists>e \<in> set es. root_of_marker m e = Some r})"
    by blast+
qed

section \<open>Names\<close>

lemma resolve_one_root: "resolve_one u tpl w root base read = Named out \<Longrightarrow> ro_root out = root"
  by (auto simp: resolve_one_def split: prod.splits if_splits)

lemma split_resolutions_roots:
  assumes "\<forall>(root, r) \<in> set rs. \<forall>out. r = Named out \<longrightarrow> ro_root out = root"
    and "split_resolutions rs = (outs, skipped)"
  shows "mset (map ro_root outs) + mset (map fst skipped) = mset (map fst rs)
    \<and> subseq (map ro_root outs) (map fst rs)"
  using assms
proof (induction rs arbitrary: outs skipped)
  case Nil
  then show ?case by simp
next
  case (Cons x rs)
  obtain root r where x: "x = (root, r)" by fastforce
  obtain outs' skipped' where sp: "split_resolutions rs = (outs', skipped')" by fastforce
  have IH: "mset (map ro_root outs') + mset (map fst skipped') = mset (map fst rs)
      \<and> subseq (map ro_root outs') (map fst rs)"
    using Cons.IH [OF _ sp] Cons.prems(1) by simp
  show ?case
    using IH Cons.prems x sp by (cases r) auto
qed

interpretation names: claim_store "claim_name u" "\<lambda>out. str_upper u (ro_name out)" dom
  for u :: unicode
  by unfold_locales (auto simp: claim_name_def dom_def split: option.splits if_splits)

lemma claim_names_distinct:
  "claim_names u outs = Inr claimed \<Longrightarrow> distinct (map (\<lambda>out. str_upper u (ro_name out)) outs)"
  using names.claims_taken by (auto simp: claim_names_def)

lemma resolve_outputs_facts:
  assumes "resolve_outputs u l es base read = Inr r"
  shows "\<exists>roots. select_roots (lay_outputs l) es = Inr roots
    \<and> mset (map ro_root (res_outputs r)) + mset (map fst (res_skipped r)) = mset roots
    \<and> sorted_wrt (<) (map ro_root (res_outputs r))
    \<and> distinct (map (\<lambda>out. str_upper u (ro_name out)) (res_outputs r))
    \<and> (1 < length (res_outputs r) \<longrightarrow> (\<forall>out \<in> set (res_outputs r). ro_name out \<noteq> []))"
proof -
  obtain wanted roots outs skipped where
    sel: "select_roots (lay_outputs l) es = Inr roots"
    and sp: "split_resolutions
        (map (\<lambda>root. (root, resolve_one u (lay_name l) wanted root base read)) roots) = (outs, skipped)"
    and named: "\<not> (length outs > 1 \<and> list_ex (\<lambda>out. ro_name out = []) outs)"
    and claim: "\<exists>claimed. claim_names u outs = Inr claimed"
    and r: "r = \<lparr>res_outputs = outs, res_skipped = skipped\<rparr>"
    using assms by (auto simp: resolve_outputs_def res_bind_eq_Inr split: if_splits prod.splits)
  have "mset (map ro_root outs) + mset (map fst skipped) = mset roots \<and> subseq (map ro_root outs) roots"
    using split_resolutions_roots [OF _ sp] resolve_one_root by (force simp: o_def)
  moreover have "sorted_wrt (<) roots" using select_roots_facts(1) [OF sel] .
  ultimately show ?thesis
    using sel r named claim claim_names_distinct
    by (auto simp: list_ex_iff intro: subseq_sorted_wrt)
qed

section \<open>Properties\<close>

text \<open>Template expansion is what its documentation says: read the template as verbatim text and
  maximal \<^verbatim>\<open>$token\<close>s, replace each token that has a value by it and leave the others standing,
  without looking at the inserted values again; the second result lists the tokens without a value
  once each, in order of first appearance.\<close>

theorem expand_is_piecewise:
  "expand u t vars =
     (concat (map (render_piece vars) (template_pieces u t)),
      first_seen [] (concat (map (piece_unset vars) (template_pieces u t))))
   \<and> concat (map piece_text (template_pieces u t)) = t"
  by (simp add: expand_def expand_loop_pieces template_pieces_text)

text \<open>C11. The roots a marker selects are exactly the directories that hold it, in increasing order,
  and no selected root lies inside another, so no two outputs are scoped to the same files.\<close>

theorem selected_roots_never_nest:
  assumes "select_roots (PerDirectoryContaining m) es = Inr roots"
  shows "sorted_wrt (<) roots
    \<and> set roots = {r. \<exists>e \<in> set es. root_of_marker m e = Some r}
    \<and> (\<forall>r \<in> set roots. \<forall>a \<in> set roots. \<not> inside r a)"
  using select_roots_facts [OF assms] by simp

definition two_mods :: "archive_entry list" where
  "two_mods = [file_entry (lit ''B/modinfo.ini'') 20, file_entry (lit ''A/modinfo.ini'') 20,
     file_entry (lit ''A/body.pak'') 9, file_entry (lit ''B/body.pak'') 7]"

theorem selected_roots_never_nest_witness:
  "select_roots (PerDirectoryContaining (lit ''modinfo.ini'')) two_mods = Inr [lit ''A'', lit ''B'']
   \<and> \<not> inside (lit ''A'') (lit ''B'')"
proof -
  have h: "select_roots (PerDirectoryContaining (lit ''modinfo.ini'')) two_mods
      = Inr [lit ''A'', lit ''B'']"
    by code_simp
  show ?thesis using h selected_roots_never_nest [OF h] by simp
qed

text \<open>C10. A successful resolution accounts for every selected root exactly once, as a named output
  or on the skipped list, keeps the outputs in the order of the roots, and names them apart: two
  outputs never agree even after case folding, and with several outputs each has a name.\<close>

theorem resolve_outputs_accounts:
  assumes "resolve_outputs u l es base read = Inr r"
  shows "\<exists>roots. select_roots (lay_outputs l) es = Inr roots
    \<and> mset (map ro_root (res_outputs r)) + mset (map fst (res_skipped r)) = mset roots
    \<and> sorted_wrt (<) (map ro_root (res_outputs r))
    \<and> distinct (map (\<lambda>out. str_upper u (ro_name out)) (res_outputs r))
    \<and> (1 < length (res_outputs r) \<longrightarrow> (\<forall>out \<in> set (res_outputs r). ro_name out \<noteq> []))"
  using assms by (rule resolve_outputs_facts)

definition mod_layout :: layout where
  "mod_layout = \<lparr>lay_outputs = PerDirectoryContaining (lit ''modinfo.ini''),
     lay_file_variables = [\<lparr>as_name = lit ''mod'', fv_file = lit ''modinfo.ini'', fv_key = lit ''name''\<rparr>],
     lay_name = lit ''$mod'', lay_place = [\<lparr>pl_from = SourceAll, pl_into = []\<rparr>],
     lay_generate = [], lay_fetch = []\<rparr>"

definition two_mods_read :: read_entry where
  "two_mods_read path =
     (if path = lit ''A/modinfo.ini'' then Some (as_bytes (lit ''name=Alpha''))
      else if path = lit ''B/modinfo.ini'' then Some (as_bytes (lit ''addonfor=Alpha''))
      else None)"

theorem resolve_outputs_accounts_witness:
  "\<exists>r. resolve_outputs ascii_tables mod_layout two_mods Map.empty two_mods_read = Inr r
     \<and> map ro_name (res_outputs r) = [lit ''Alpha''] \<and> map fst (res_skipped r) = [lit ''B'']
     \<and> sorted_wrt (<) (map ro_root (res_outputs r))"
proof -
  let ?run = "resolve_outputs ascii_tables mod_layout two_mods Map.empty two_mods_read"
  have e: "(case ?run of Inr r \<Rightarrow> map ro_name (res_outputs r) = [lit ''Alpha'']
      \<and> map fst (res_skipped r) = [lit ''B''] | Inl _ \<Rightarrow> False)"
    by code_simp
  then obtain r where r: "?run = Inr r" by (auto split: sum.splits)
  show ?thesis using e r resolve_outputs_accounts [OF r] by auto
qed

end
