(* ===== verification/Host_Path.thy ===== *)
theory Host_Path
  imports Prelude
begin

text \<open>
  The operations of \<^verbatim>\<open>std::path::Path\<close> the organization engine uses, on the text of a path:
  \<^verbatim>\<open>components\<close>, \<^verbatim>\<open>parent\<close>, \<^verbatim>\<open>file_name\<close>, \<^verbatim>\<open>extension\<close>,
  \<^verbatim>\<open>starts_with\<close> and the order of \<^verbatim>\<open>PathBuf\<close>. The separator test is a parameter: the slash
  alone on Unix, the slash and the backslash on Windows. Windows drive and UNC prefixes are left
  out. A path keeps its spelling (repeated separators, dots) and compares by components, as in Rust.
\<close>

section \<open>Components\<close>

datatype path_component = RootDir | CurDir | ParentDir | NormalComp str

fun component_rank :: "path_component \<Rightarrow> nat \<times> str" where
  "component_rank RootDir = (0, [])"
| "component_rank CurDir = (1, [])"
| "component_rank ParentDir = (2, [])"
| "component_rank (NormalComp s) = (3, s)"

lemma component_rank_inj: "component_rank a = component_rank b \<Longrightarrow> a = b"
  by (cases a; cases b) auto

instantiation path_component :: linorder
begin

definition less_eq_path_component :: "path_component \<Rightarrow> path_component \<Rightarrow> bool" where
  "less_eq_path_component a b \<longleftrightarrow>
     fst (component_rank a) < fst (component_rank b)
     \<or> (fst (component_rank a) = fst (component_rank b) \<and> snd (component_rank a) \<le> snd (component_rank b))"

definition less_path_component :: "path_component \<Rightarrow> path_component \<Rightarrow> bool" where
  "less_path_component a b \<longleftrightarrow>
     fst (component_rank a) < fst (component_rank b)
     \<or> (fst (component_rank a) = fst (component_rank b) \<and> snd (component_rank a) < snd (component_rank b))"

instance
proof
  fix a b c :: path_component
  show "(a < b) = (a \<le> b \<and> \<not> b \<le> a)"
    by (auto simp: less_path_component_def less_eq_path_component_def)
  show "a \<le> a" by (simp add: less_eq_path_component_def)
  show "a \<le> b \<Longrightarrow> b \<le> c \<Longrightarrow> a \<le> c"
    by (auto simp: less_eq_path_component_def)
  show "a \<le> b \<Longrightarrow> b \<le> a \<Longrightarrow> a = b"
    by (rule component_rank_inj) (auto simp: less_eq_path_component_def prod_eq_iff)
  show "a \<le> b \<or> b \<le> a" by (auto simp: less_eq_path_component_def)
qed

end

text \<open>The root or leading current-directory component of a path, and the text after it.\<close>

definition path_rooted :: "(uchar \<Rightarrow> bool) \<Rightarrow> str \<Rightarrow> bool" where
  "path_rooted sep p \<longleftrightarrow> p \<noteq> [] \<and> sep (hd p)"

definition path_curdir :: "(uchar \<Rightarrow> bool) \<Rightarrow> str \<Rightarrow> bool" where
  "path_curdir sep p \<longleftrightarrow> (case p of [] \<Rightarrow> False | c # cs \<Rightarrow> c = dot \<and> (cs = [] \<or> sep (hd cs)))"

definition path_head :: "(uchar \<Rightarrow> bool) \<Rightarrow> str \<Rightarrow> str" where
  "path_head sep p = (if path_rooted sep p \<or> path_curdir sep p then take 1 p else [])"

definition path_body :: "(uchar \<Rightarrow> bool) \<Rightarrow> str \<Rightarrow> str" where
  "path_body sep p = drop (length (path_head sep p)) p"

definition component_of :: "str \<Rightarrow> path_component" where
  "component_of s = (if s = [dot, dot] then ParentDir else NormalComp s)"

definition path_components :: "(uchar \<Rightarrow> bool) \<Rightarrow> str \<Rightarrow> path_component list" where
  "path_components sep p =
     (if path_rooted sep p then [RootDir] else if path_curdir sep p then [CurDir] else [])
     @ map component_of (filter (\<lambda>s. s \<noteq> [] \<and> s \<noteq> [dot]) (split_on sep (path_body sep p)))"

section \<open>Parent and file name\<close>

text \<open>The last component of a body and what is left when it and its separator are cut off.\<close>

definition last_comp :: "(uchar \<Rightarrow> bool) \<Rightarrow> str \<Rightarrow> str" where
  "last_comp sep b = rev (takeWhile (\<lambda>c. \<not> sep c) (rev b))"

definition cut_last :: "(uchar \<Rightarrow> bool) \<Rightarrow> str \<Rightarrow> str" where
  "cut_last sep b = rev (drop 1 (dropWhile (\<lambda>c. \<not> sep c) (rev b)))"

lemma cut_last_shorter: "b \<noteq> [] \<Longrightarrow> length (cut_last sep b) < length b"
proof -
  assume "b \<noteq> []"
  have "length (dropWhile (\<lambda>c. \<not> sep c) (rev b)) \<le> length b"
    by (metis length_dropWhile_le length_rev)
  moreover have "0 < length b" using \<open>b \<noteq> []\<close> by simp
  ultimately have "length (dropWhile (\<lambda>c. \<not> sep c) (rev b)) - 1 < length b" by linarith
  then show ?thesis by (simp add: cut_last_def)
qed

text \<open>Trailing separators and dot components name nothing and are dropped.\<close>

function trim_body :: "(uchar \<Rightarrow> bool) \<Rightarrow> str \<Rightarrow> str" where
  "trim_body sep b =
     (if b = [] then []
      else if last_comp sep b = [] \<or> last_comp sep b = [dot] then trim_body sep (cut_last sep b)
      else b)"
  by pat_completeness auto
termination
  by (relation "measure (\<lambda>(sep, b). length b)") (auto dest: cut_last_shorter)

declare trim_body.simps [simp del]

definition path_parent :: "(uchar \<Rightarrow> bool) \<Rightarrow> str \<Rightarrow> str option" where
  "path_parent sep p =
     (let b = trim_body sep (path_body sep p) in
      if b \<noteq> [] then Some (path_head sep p @ trim_body sep (cut_last sep b))
      else if path_curdir sep p then Some []
      else None)"

definition path_file_name :: "(uchar \<Rightarrow> bool) \<Rightarrow> str \<Rightarrow> str option" where
  "path_file_name sep p =
     (let b = trim_body sep (path_body sep p) in
      if b = [] \<or> last_comp sep b = [dot, dot] then None else Some (last_comp sep b))"

definition path_extension :: "(uchar \<Rightarrow> bool) \<Rightarrow> str \<Rightarrow> str option" where
  "path_extension sep p =
     Option.bind (path_file_name sep p) (\<lambda>name.
       case rsplit_once dot name of
         Some (before, after) \<Rightarrow> if before = [] then None else Some after
       | None \<Rightarrow> None)"

definition path_starts_with :: "(uchar \<Rightarrow> bool) \<Rightarrow> str \<Rightarrow> str \<Rightarrow> bool" where
  "path_starts_with sep p base \<longleftrightarrow> prefix (path_components sep base) (path_components sep p)"

lemma trim_body_length: "length (trim_body sep b) \<le> length b"
proof (induction sep b rule: trim_body.induct)
  case (1 sep b)
  then show ?case
    using cut_last_shorter [of b sep] by (auto simp: trim_body.simps [of sep b])
qed

text \<open>A path is strictly longer than its parent, so walking parents ends.\<close>

lemma path_parent_shorter: "path_parent sep p = Some q \<Longrightarrow> length q < length p"
proof -
  assume parent: "path_parent sep p = Some q"
  have total: "length (path_head sep p) + length (path_body sep p) = length p"
    by (auto simp: path_body_def path_head_def)
  show ?thesis
  proof (cases "trim_body sep (path_body sep p) = []")
    case False
    have "length (trim_body sep (cut_last sep (trim_body sep (path_body sep p))))
        < length (path_body sep p)"
      using trim_body_length cut_last_shorter [OF False] by (meson le_less_trans less_le_trans)
    then show ?thesis using parent False total by (auto simp: path_parent_def Let_def)
  next
    case True
    then show ?thesis using parent
      by (auto simp: path_parent_def Let_def path_curdir_def split: if_splits list.splits)
  qed
qed

end
