(* ===== verification/Title_Filter.thy ===== *)
theory Title_Filter
  imports Prelude
begin

text \<open>
  The title sanitiser of \<^verbatim>\<open>crates/core/src/utilities/title_filter.rs\<close>. Its configuration, a
  global cache in the program, is an argument. A \<^verbatim>\<open>HashMap\<close> of replacements is the list of
  its pairs in the order the iteration visits them. \<^verbatim>\<open>String::truncate\<close> panics when the limit is
  not a character boundary, so the result is an option with \<open>None\<close> for the panic.
\<close>

section \<open>The filter\<close>

record filter_settings =
  invalid_chars :: str
  replacement :: str
  max_length :: nat
  trim_whitespace :: bool

record title_filter_config =
  filters :: filter_settings
  replacements :: "(str \<times> str) list"

definition default_filter_settings :: filter_settings where
  "default_filter_settings = \<lparr>invalid_chars = [47, 58, 42, 63, 34, 60, 62, 124, 92],
     replacement = [underscore], max_length = 255, trim_whitespace = True\<rparr>"

definition default_system_replacements :: "(str \<times> str) list" where
  "default_system_replacements =
     [([12304], lit ''[''), ([12305], lit '']''), ([65374], [126]), ([65288], lit ''(''),
      ([65289], lit '')'')]"

definition default_filter_config :: title_filter_config where
  "default_filter_config = \<lparr>filters = default_filter_settings,
     replacements = default_system_replacements\<rparr>"

text \<open>\<^verbatim>\<open>str::replace\<close> with a string pattern: matches are found from the left and do not
  overlap. An empty pattern matches before every character and at the end.\<close>

function replace_str :: "str \<Rightarrow> str \<Rightarrow> str \<Rightarrow> str" where
  "replace_str pat rep [] = (if pat = [] then rep else [])"
| "replace_str pat rep (c # cs) =
     (if pat = [] then rep @ c # replace_str pat rep cs
      else if starts_with (c # cs) pat then rep @ replace_str pat rep (drop (length pat) (c # cs))
      else c # replace_str pat rep cs)"
  by pat_completeness auto
termination
proof (relation "measure (\<lambda>(pat, rep, s). length s)", goal_cases)
  case (3 pat rep c cs)
  then show ?case by (cases pat) auto
qed auto

definition first_replacement :: "filter_settings \<Rightarrow> uchar" where
  "first_replacement f = (case replacement f of [] \<Rightarrow> underscore | c # _ \<Rightarrow> c)"

text \<open>The longest prefix that ends within a byte limit, when the limit is a boundary.\<close>

fun truncate_bytes :: "nat \<Rightarrow> str \<Rightarrow> str option" where
  "truncate_bytes 0 s = Some []"
| "truncate_bytes (Suc n) [] = Some []"
| "truncate_bytes (Suc n) (c # cs) =
     (if utf8_width c \<le> Suc n
      then map_option ((#) c) (truncate_bytes (Suc n - utf8_width c) cs)
      else None)"

definition sanitize_title_with_config :: "title_filter_config \<Rightarrow> str \<Rightarrow> str option" where
  "sanitize_title_with_config cfg title =
     (let replaced = fold (\<lambda>(from, to) s. replace_str from to s) (replacements cfg) title;
          mapped = map (\<lambda>c. if c \<in> set (invalid_chars (filters cfg)) \<or> is_control c
              then first_replacement (filters cfg) else c) replaced;
          trimmed = (if trim_whitespace (filters cfg) then trim mapped else mapped)
      in map_option (\<lambda>r. if r = [] then lit ''untitled'' else r)
           (if str_len trimmed > max_length (filters cfg)
            then truncate_bytes (max_length (filters cfg)) trimmed else Some trimmed))"

section \<open>What the filter guarantees\<close>

lemma truncate_bytes_prefix: "truncate_bytes n s = Some r \<Longrightarrow> prefix r s \<and> str_len r \<le> n"
proof (induction n s arbitrary: r rule: truncate_bytes.induct)
  case (3 n c cs)
  then show ?case
    by (fastforce simp: str_len_def split: if_splits)
qed (auto simp: str_len_def)

lemma set_trim_title: "set (trim s) \<subseteq> set s"
  by (auto simp: trim_def trim_end_by_def trim_start_by_def dest!: set_dropWhileD)

lemma sanitized_chars:
  assumes "sanitize_title_with_config cfg title = Some r" and "c \<in> set r" and "r \<noteq> lit ''untitled''"
  shows "c = first_replacement (filters cfg)
    \<or> (c \<notin> set (invalid_chars (filters cfg)) \<and> \<not> is_control c)"
proof -
  define mapped where "mapped = map (\<lambda>c. if c \<in> set (invalid_chars (filters cfg)) \<or> is_control c
      then first_replacement (filters cfg) else c)
    (fold (\<lambda>(from, to) s. replace_str from to s) (replacements cfg) title)"
  define trimmed where "trimmed = (if trim_whitespace (filters cfg) then trim mapped else mapped)"
  have run: "map_option (\<lambda>r. if r = [] then lit ''untitled'' else r)
      (if str_len trimmed > max_length (filters cfg)
       then truncate_bytes (max_length (filters cfg)) trimmed else Some trimmed) = Some r"
    using assms(1) by (simp only: sanitize_title_with_config_def Let_def mapped_def trimmed_def)
  then have "set r \<subseteq> set trimmed"
    using assms(3) truncate_bytes_prefix [of _ trimmed]
    by (auto split: if_splits dest!: set_mono_prefix)
  moreover have "set trimmed \<subseteq> set mapped" using set_trim_title by (auto simp: trimmed_def)
  ultimately show ?thesis using assms(2) by (auto simp: mapped_def)
qed

section \<open>Properties\<close>

text \<open>A sanitised title is never empty, and with the default settings it carries no path
  separator, reserved or control character.\<close>

theorem sanitize_title_default_clean:
  assumes "sanitize_title_with_config default_filter_config title = Some r"
  shows "r \<noteq> [] \<and> slash \<notin> set r \<and> backslash \<notin> set r
    \<and> (\<forall>c \<in> set r. \<not> is_control c \<and> c \<notin> set (invalid_chars default_filter_settings))"
proof (cases "r = lit ''untitled''")
  case True
  then show ?thesis by (simp add: is_control_def default_filter_settings_def)
next
  case False
  have "r \<noteq> []" using assms by (auto simp: sanitize_title_with_config_def Let_def split: if_splits)
  moreover have "\<not> is_control c \<and> c \<notin> set (invalid_chars default_filter_settings)" if "c \<in> set r" for c
    using sanitized_chars [OF assms that False]
    by (auto simp: default_filter_config_def first_replacement_def default_filter_settings_def
        is_control_def)
  ultimately show ?thesis by (force simp: default_filter_settings_def)
qed

theorem sanitize_title_default_clean_witness:
  "sanitize_title_with_config default_filter_config (lit ''A/B: C?'') = Some (lit ''A_B_ C_'')
   \<and> slash \<notin> set (lit ''A_B_ C_'')"
proof -
  have h: "sanitize_title_with_config default_filter_config (lit ''A/B: C?'') = Some (lit ''A_B_ C_'')"
    by code_simp
  show ?thesis using h sanitize_title_default_clean [OF h] by blast
qed

text \<open>The loop after \<^verbatim>\<open>truncate\<close> that is meant to keep a multi-byte character whole never
  gets the chance: when the limit falls inside a character the truncation itself panics. With the
  default limit of 255 bytes a title of 128 two-byte letters is enough.\<close>

theorem sanitize_title_panics_inside_character:
  "sanitize_title_with_config default_filter_config (replicate 128 233) = None"
  by code_simp

end
