(* ===== verification/Rule_Match.thy ===== *)
theory Rule_Match
  imports Layout Archive_Entry Host_Path Title_Filter "HOL-Library.Multiset"
begin

text \<open>
  Rule selection and the variables a rule's templates start from: \<^verbatim>\<open>find_matching_rules\<close>,
  \<^verbatim>\<open>matches_trigger\<close> and \<^verbatim>\<open>build_metadata_map\<close> of
  \<^verbatim>\<open>engine/plan_builder.rs\<close>, and \<^verbatim>\<open>flatten_helper.rs\<close>.

  A pattern a user wrote goes to the regex crate and a provider's document to serde; both are
  third-party code and are fields of \<open>engine_env\<close>. The two fixed patterns of the source are small
  enough to be written out as functions. The lemmas say exactly when a trigger matches, in which order
  matching rules come back, and which source of a variable wins.
\<close>

section \<open>What the engine calls but does not define\<close>

datatype json = JNull | JBool bool | JNumber str | JString str | JArray "json list"
  | JObject "(str \<times> json) list"

record compiled_regex =
  re_is_match :: "str \<Rightarrow> bool"
  re_capture_names :: "str list"
  re_captures :: "str \<Rightarrow> (str \<rightharpoonup> str) option"

record engine_env =
  tables :: unicode
  is_sep :: "uchar \<Rightarrow> bool"                  \<comment> \<open>the path separators of the host\<close>
  regex_new :: "str \<Rightarrow> compiled_regex option" \<comment> \<open>\<^verbatim>\<open>Regex::new\<close>, \<open>None\<close> when invalid\<close>
  json_from_str :: "str \<Rightarrow> json option"       \<comment> \<open>\<^verbatim>\<open>serde_json::from_str\<close>\<close>
  json_pretty :: "game_metadata \<Rightarrow> str option" \<comment> \<open>\<^verbatim>\<open>serde_json::to_string_pretty\<close>\<close>
  debug_str :: "str \<Rightarrow> str"                   \<comment> \<open>\<^verbatim>\<open>{:?}\<close> of a string\<close>
  title_config :: title_filter_config       \<comment> \<open>\<^verbatim>\<open>FILTER_CACHE\<close>\<close>

section \<open>Matching\<close>

definition matches_trigger ::
  "engine_env \<Rightarrow> rule_trigger \<Rightarrow> str \<Rightarrow> archive_entry list \<Rightarrow> game_metadata option \<Rightarrow> bool" where
  "matches_trigger env trig archive_name entries gm =
     (let rest =
        (if (case filename_pattern trig of
               Some pattern \<Rightarrow> (case regex_new env pattern of
                   Some re \<Rightarrow> \<not> re_is_match re archive_name
                 | None \<Rightarrow> True)
             | None \<Rightarrow> False)
         then False
         else (case has_file trig of
             Some file_glob \<Rightarrow> list_ex (\<lambda>e. contains_str (entry_path e) file_glob) entries
           | None \<Rightarrow> True))
      in case metadata_source trig of
           Some source_trigger \<Rightarrow> (case gm of
               Some m \<Rightarrow> if eq_ignore_ascii_case (gm_source m) source_trigger then True else False
             | None \<Rightarrow> False)
         | None \<Rightarrow> rest)"

definition find_matching_rules ::
  "engine_env \<Rightarrow> organization_rule list \<Rightarrow> str \<Rightarrow> archive_entry list \<Rightarrow> game_metadata option
    \<Rightarrow> organization_rule list" where
  "find_matching_rules env rules archive_name entries gm =
     sort_key (\<lambda>r. - priority r)
       (filter (\<lambda>r. is_enabled r \<and> matches_trigger env (trigger r) archive_name entries gm) rules)"

section \<open>Variables\<close>

fun bool_str :: "bool \<Rightarrow> str" where
  "bool_str True = lit ''true''"
| "bool_str False = lit ''false''"

fun flatten_json_value :: "json \<Rightarrow> (str \<rightharpoonup> str) \<Rightarrow> str \<Rightarrow> (str \<rightharpoonup> str)"
  and flatten_json_members :: "(str \<times> json) list \<Rightarrow> (str \<rightharpoonup> str) \<Rightarrow> str \<Rightarrow> (str \<rightharpoonup> str)" where
  "flatten_json_value JNull acc pre = acc"
| "flatten_json_value (JBool b) acc pre = acc(pre \<mapsto> bool_str b)"
| "flatten_json_value (JNumber n) acc pre = acc(pre \<mapsto> n)"
| "flatten_json_value (JString s) acc pre = acc(pre \<mapsto> s)"
| "flatten_json_value (JArray vs) acc pre = acc"
| "flatten_json_value (JObject ms) acc pre = flatten_json_members ms acc pre"
| "flatten_json_members [] acc pre = acc"
| "flatten_json_members ((k, v) # ms) acc pre =
     flatten_json_members ms
       (flatten_json_value v acc (if pre = [] then k else pre @ dot # k)) pre"

text \<open>The pattern \<^verbatim>\<open>[vV](\d+(\.\d+)+)\<close>: the group of its leftmost match.\<close>

function version_groups :: "unicode \<Rightarrow> str \<Rightarrow> str" where
  "version_groups u s =
     (case s of [] \<Rightarrow> []
      | c # r \<Rightarrow>
          if c = dot \<and> takeWhile (char_decimal u) r \<noteq> []
          then dot # takeWhile (char_decimal u) r @ version_groups u (dropWhile (char_decimal u) r)
          else [])"
  by pat_completeness auto
termination
proof (relation "measure (\<lambda>(u, s). length s)", goal_cases)
  case (2 u s c r)
  then show ?case using length_dropWhile_le [of "char_decimal u" r] by simp
qed simp

declare version_groups.simps [simp del]

definition version_here :: "unicode \<Rightarrow> str \<Rightarrow> str option" where
  "version_here u s =
     (let major = takeWhile (char_decimal u) s;
          minor = version_groups u (dropWhile (char_decimal u) s)
      in if major = [] \<or> minor = [] then None else Some (major @ minor))"

fun find_version :: "unicode \<Rightarrow> str \<Rightarrow> str option" where
  "find_version u [] = None"
| "find_version u (c # cs) =
     (if c = 118 \<or> c = 86
      then (case version_here u cs of Some v \<Rightarrow> Some v | None \<Rightarrow> find_version u cs)
      else find_version u cs)"

text \<open>The pattern \<^verbatim>\<open>\[([^\]]+)\]\<close>: the groups of all its matches, left to right.\<close>

function bracket_tags :: "str \<Rightarrow> str list" where
  "bracket_tags [] = []"
| "bracket_tags (c # cs) =
     (if c = 91 \<and> takeWhile (\<lambda>x. x \<noteq> 93) cs \<noteq> [] \<and> dropWhile (\<lambda>x. x \<noteq> 93) cs \<noteq> []
      then takeWhile (\<lambda>x. x \<noteq> 93) cs # bracket_tags (drop 1 (dropWhile (\<lambda>x. x \<noteq> 93) cs))
      else bracket_tags cs)"
  by pat_completeness auto
termination
proof (relation "measure length", goal_cases)
  case (2 c cs)
  then show ?case using length_dropWhile_le [of "\<lambda>x. x \<noteq> 93" cs]
    by (simp del: dropWhile_eq_Nil_conv)
qed simp_all

fun join_comma :: "str list \<Rightarrow> str" where
  "join_comma [] = []"
| "join_comma [t] = t"
| "join_comma (t # ts) = t @ lit '', '' @ join_comma ts"

definition upd_opt :: "str \<Rightarrow> str option \<Rightarrow> (str \<rightharpoonup> str) \<Rightarrow> (str \<rightharpoonup> str)" where
  "upd_opt k v m = (case v of Some x \<Rightarrow> m(k \<mapsto> x) | None \<Rightarrow> m)"

text \<open>The stages of \<^verbatim>\<open>build_metadata_map\<close> in the order the source runs them. \<open>None\<close> is the panic of
  the title filter.\<close>

definition game_variables :: "engine_env \<Rightarrow> game_metadata option \<Rightarrow> (str \<rightharpoonup> str) option" where
  "game_variables env gm =
     (case gm of
        None \<Rightarrow> Some Map.empty
      | Some g \<Rightarrow>
          map_option (\<lambda>filtered.
            let m = [lit ''product_id'' \<mapsto> product_id g, lit ''source'' \<mapsto> gm_source g,
                     lit ''title'' \<mapsto> gm_title g, lit ''filtered_title'' \<mapsto> filtered];
                m = upd_opt (lit ''circle'') (creator g) (upd_opt (lit ''creator'') (creator g) m);
                m = upd_opt (lit ''release_date'') (release_date g) m
            in (case json_from_str env (metadata_json g) of
                  Some j \<Rightarrow> flatten_json_value j m []
                | None \<Rightarrow> m))
            (sanitize_title_with_config (title_config env) (gm_title g)))"

definition capture_variables ::
  "engine_env \<Rightarrow> rule_trigger \<Rightarrow> str \<Rightarrow> (str \<rightharpoonup> str) \<Rightarrow> (str \<rightharpoonup> str)" where
  "capture_variables env trig archive_name m =
     (case filename_pattern trig of
        None \<Rightarrow> m
      | Some pattern \<Rightarrow> (case regex_new env pattern of
            None \<Rightarrow> m
          | Some re \<Rightarrow> (case re_captures re archive_name of
                None \<Rightarrow> m
              | Some caps \<Rightarrow> fold (\<lambda>n. upd_opt n (caps n)) (re_capture_names re) m)))"

definition folder_variables ::
  "engine_env \<Rightarrow> str option \<Rightarrow> (str \<rightharpoonup> str) \<Rightarrow> (str \<rightharpoonup> str)" where
  "folder_variables env content_root m =
     (case Option.bind content_root (path_file_name (is_sep env)) of
        None \<Rightarrow> m
      | Some folder_name \<Rightarrow>
          let m = upd_opt (lit ''version'') (find_version (tables env) folder_name) m;
              found = bracket_tags folder_name
          in if found \<noteq> []
             then m(lit ''root_tags'' \<mapsto> join_comma found, lit ''folder_name'' \<mapsto> folder_name)
             else m)"

definition build_metadata_map ::
  "engine_env \<Rightarrow> organization_rule \<Rightarrow> str \<Rightarrow> game_metadata option \<Rightarrow> str option
    \<Rightarrow> (str \<rightharpoonup> str) option" where
  "build_metadata_map env rule archive_name gm content_root =
     map_option (\<lambda>m.
       folder_variables env content_root
         (upd_opt (lit ''version'') (find_version (tables env) archive_name)
           (capture_variables env (trigger rule) archive_name m)))
       (game_variables env gm)"

section \<open>Lemmas\<close>

lemma upd_opt_apply:
  "upd_opt k v m x = (if x = k then (case v of Some y \<Rightarrow> Some y | None \<Rightarrow> m k) else m x)"
  by (auto simp: upd_opt_def split: option.splits)

lemma sort_key_filter_key:
  "filter (\<lambda>x. f x = k) (sort_key f xs) = filter (\<lambda>x. f x = k) xs"
  using sort_key_stable [of f k xs] by simp

text \<open>Every key that flattening writes continues the prefix it was given.\<close>

lemma flatten_json_keys:
  "flatten_json_value v acc pre x \<noteq> acc x \<Longrightarrow> prefix pre x"
  "flatten_json_members ms acc pre x \<noteq> acc x \<Longrightarrow> prefix pre x"
proof (induction v acc pre and ms acc pre rule: flatten_json_value_flatten_json_members.induct)
  case (8 k v ms acc pre)
  let ?q = "if pre = [] then k else pre @ dot # k"
  show ?case
  proof (cases "flatten_json_value v acc ?q x = acc x")
    case True
    then show ?thesis using 8 by simp
  next
    case False
    then have "prefix ?q x" using 8 by blast
    then show ?thesis by (auto simp: prefix_def split: if_splits)
  qed
qed (auto split: if_splits)

section \<open>Properties\<close>

text \<open>When a trigger applies. A trigger with a metadata source is decided by the source alone:
  the filename pattern and the required file are not consulted. Without one, both of the others must
  hold where they are set, and a pattern the regex crate rejects never matches.\<close>

theorem matches_trigger_iff:
  "matches_trigger env t name es gm =
     (case metadata_source t of
        Some s \<Rightarrow> (case gm of Some g \<Rightarrow> eq_ignore_ascii_case (gm_source g) s | None \<Rightarrow> False)
      | None \<Rightarrow>
          (case filename_pattern t of Some p \<Rightarrow>
             (case regex_new env p of Some re \<Rightarrow> re_is_match re name | None \<Rightarrow> False) | None \<Rightarrow> True)
          \<and> (case has_file t of Some f \<Rightarrow> (\<exists>e. e \<in> set es \<and> contains_str (entry_path e) f)
             | None \<Rightarrow> True))"
  by (auto simp: matches_trigger_def Let_def list_ex_iff split: option.splits)

text \<open>The matching rules are the enabled rules whose trigger applies, highest priority first,
  and rules of one priority keep the order they were listed in.\<close>

theorem find_matching_rules_order:
  "mset (find_matching_rules env rules name es gm)
     = mset (filter (\<lambda>r. is_enabled r \<and> matches_trigger env (trigger r) name es gm) rules)
   \<and> sorted_wrt (\<lambda>a b. priority b \<le> priority a) (find_matching_rules env rules name es gm)
   \<and> filter (\<lambda>r. priority r = p) (find_matching_rules env rules name es gm)
     = filter (\<lambda>r. is_enabled r \<and> matches_trigger env (trigger r) name es gm \<and> priority r = p) rules"
proof -
  let ?l = "filter (\<lambda>r. is_enabled r \<and> matches_trigger env (trigger r) name es gm) rules"
  have "sorted (map (\<lambda>r. - priority r) (sort_key (\<lambda>r. - priority r) ?l))" by simp
  moreover have "filter (\<lambda>r. priority r = p) (sort_key (\<lambda>r. - priority r) ?l)
      = filter (\<lambda>r. priority r = p) ?l"
    using sort_key_filter_key [of "\<lambda>r. - priority r" "- p" ?l] by simp
  ultimately show ?thesis by (simp add: find_matching_rules_def sorted_map)
qed

text \<open>Which version a template sees: the content root's folder name is asked first, then the
  archive name, and only then what the captures and the provider's document set.\<close>

theorem version_precedence:
  assumes "build_metadata_map env rule name gm root = Some m"
  shows "\<exists>base. game_variables env gm = Some base
    \<and> m (lit ''version'') =
        (case Option.bind (Option.bind root (path_file_name (is_sep env))) (find_version (tables env)) of
           Some v \<Rightarrow> Some v
         | None \<Rightarrow> (case find_version (tables env) name of
               Some v \<Rightarrow> Some v
             | None \<Rightarrow> capture_variables env (trigger rule) name base (lit ''version'')))"
proof -
  obtain base where base: "game_variables env gm = Some base"
    using assms by (auto simp: build_metadata_map_def)
  define early where "early = upd_opt (lit ''version'') (find_version (tables env) name)
    (capture_variables env (trigger rule) name base)"
  have m: "m = folder_variables env root early"
    using assms base by (simp add: build_metadata_map_def early_def)
  have "m (lit ''version'') =
      (case Option.bind (Option.bind root (path_file_name (is_sep env))) (find_version (tables env)) of
         Some v \<Rightarrow> Some v | None \<Rightarrow> early (lit ''version''))"
    by (cases "Option.bind root (path_file_name (is_sep env))")
       (simp_all add: m folder_variables_def upd_opt_apply Let_def split: option.split)
  then show ?thesis using base by (auto simp: early_def upd_opt_apply split: option.splits)
qed

definition sample_env :: engine_env where
  "sample_env = \<lparr>tables = ascii_tables, is_sep = (\<lambda>c. c = slash),
     regex_new = (\<lambda>p. Some \<lparr>re_is_match = (\<lambda>s. contains_str s p), re_capture_names = [],
        re_captures = (\<lambda>s. if contains_str s p then Some Map.empty else None)\<rparr>),
     json_from_str = (\<lambda>_. None), json_pretty = (\<lambda>g. Some (gm_title g)), debug_str = (\<lambda>s. s),
     title_config = default_filter_config\<rparr>"

definition sample_rule :: organization_rule where
  "sample_rule = \<lparr>rule_id = 1, rule_name = lit ''Mods'', priority = 5, is_enabled = True,
     trigger = \<lparr>metadata_source = None, filename_pattern = None, has_file = None\<rparr>,
     actions = \<lparr>output_name = None, act_layout = default_layout\<rparr>\<rparr>"

theorem version_precedence_witness:
  "\<exists>m. build_metadata_map sample_env sample_rule (lit ''Game v1.2.zip'') None
      (Some (lit ''pack/Game_v3.0.1 [EN]'')) = Some m \<and> m (lit ''version'') = Some (lit ''3.0.1'')"
proof -
  let ?b = "build_metadata_map sample_env sample_rule (lit ''Game v1.2.zip'') None
      (Some (lit ''pack/Game_v3.0.1 [EN]''))"
  have s: "(case ?b of Some _ \<Rightarrow> True | None \<Rightarrow> False)" by code_simp
  then obtain m where m: "?b = Some m" by (auto split: option.splits)
  have v: "Option.bind (Option.bind (Some (lit ''pack/Game_v3.0.1 [EN]''))
      (path_file_name (is_sep sample_env))) (find_version (tables sample_env)) = Some (lit ''3.0.1'')"
    by code_simp
  show ?thesis using m version_precedence [OF m] unfolding v by auto
qed

end
