(* ===== verification/Ordered_Map.thy ===== *)
theory Ordered_Map
  imports Prelude
begin

text \<open>
  \<^verbatim>\<open>BTreeMap\<close> and \<^verbatim>\<open>BTreeSet\<close> as association lists in key order. Keys compare through an
  order key, because a \<^verbatim>\<open>PathBuf\<close> compares by its components and not by its text; the entry that is
  already there keeps its spelling, as the \<^verbatim>\<open>entry\<close> interface does.
\<close>

text \<open>\<^verbatim>\<open>m.entry(k).and_modify(upd).or_insert(ins)\<close>.\<close>

fun bt_upsert ::
  "('k \<Rightarrow> 'o :: linorder) \<Rightarrow> 'k \<Rightarrow> 'v \<Rightarrow> ('v \<Rightarrow> 'v) \<Rightarrow> ('k \<times> 'v) list \<Rightarrow> ('k \<times> 'v) list" where
  "bt_upsert ord k ins upd [] = [(k, ins)]"
| "bt_upsert ord k ins upd ((k', v) # m) =
     (if ord k < ord k' then (k, ins) # (k', v) # m
      else if ord k = ord k' then (k', upd v) # m
      else (k', v) # bt_upsert ord k ins upd m)"

definition bt_sorted :: "('k \<Rightarrow> 'o :: linorder) \<Rightarrow> ('k \<times> 'v) list \<Rightarrow> bool" where
  "bt_sorted ord m \<longleftrightarrow> sorted_wrt (<) (map (ord \<circ> fst) m)"

lemma bt_sorted_Nil [simp]: "bt_sorted ord []"
  by (simp add: bt_sorted_def)

lemma bt_upsert_keys:
  "set (map (ord \<circ> fst) (bt_upsert ord k ins upd m)) = insert (ord k) (set (map (ord \<circ> fst) m))"
  by (induction ord k ins upd m rule: bt_upsert.induct) (simp_all add: insert_commute)

lemma bt_upsert_sorted: "bt_sorted ord m \<Longrightarrow> bt_sorted ord (bt_upsert ord k ins upd m)"
proof (induction m)
  case Nil
  then show ?case by (simp add: bt_sorted_def)
next
  case (Cons kv m)
  obtain k' v where kv: "kv = (k', v)" by fastforce
  have m: "bt_sorted ord m" "\<forall>x \<in> set (map (ord \<circ> fst) m). ord k' < x"
    using Cons.prems by (auto simp: bt_sorted_def kv)
  show ?case
  proof (cases "ord k' < ord k")
    case True
    have "\<forall>x \<in> set (map (ord \<circ> fst) (bt_upsert ord k ins upd m)). ord k' < x"
      unfolding bt_upsert_keys using m True by simp
    then show ?thesis using Cons.IH [OF m(1)] True by (auto simp: bt_sorted_def kv)
  next
    case False
    then show ?thesis using Cons.prems by (auto simp: bt_sorted_def kv)
  qed
qed

text \<open>A property of every value that a fresh value has and an update keeps.\<close>

lemma bt_upsert_all:
  assumes "\<forall>(k, v) \<in> set m. P k v" and "P k ins"
    and "\<And>k' v. (k', v) \<in> set m \<Longrightarrow> ord k' = ord k \<Longrightarrow> P k' v \<Longrightarrow> P k' (upd v)"
  shows "\<forall>(k, v) \<in> set (bt_upsert ord k ins upd m). P k v"
  using assms by (induction ord k ins upd m rule: bt_upsert.induct) auto

end
