(* ===== verification/Content_Root.thy ===== *)
theory Content_Root
  imports Rule_Match Ordered_Map "HOL-Library.Product_Lexorder"
begin

text \<open>
  \<^verbatim>\<open>RuleEngine::detect_content_root\<close> of \<^verbatim>\<open>engine/plan_builder.rs\<close>: the folder that looks
  like the payload. Directories are scored by the indicator files and folders they hold; with fewer
  than two indicators anywhere the deepest directory common to all entries is used.

  The lemmas show that the winner is the best scored directory with ties going to the smallest path,
  and that the fallback really lies above every entry.
\<close>

section \<open>Scoring\<close>

definition game_indicators :: "str list" where
  "game_indicators = map lit [''Game.exe'', ''game.exe'', ''nw.exe'', ''index.html'', ''package.json'',
     ''www'', ''data'', ''js'']"

definition is_indicator :: "str \<Rightarrow> bool" where
  "is_indicator name \<longleftrightarrow> list_ex (\<lambda>i. eq_ignore_ascii_case name i) game_indicators"

type_synonym 'v path_map = "(str \<times> 'v) list"

abbreviation path_upsert ::
  "engine_env \<Rightarrow> str \<Rightarrow> 'v \<Rightarrow> ('v \<Rightarrow> 'v) \<Rightarrow> 'v path_map \<Rightarrow> 'v path_map" where
  "path_upsert env \<equiv> bt_upsert (path_components (is_sep env))"

text \<open>One pass of the first loop: the indicator names and the smallest executable per directory.\<close>

definition note_entry ::
  "engine_env \<Rightarrow> archive_entry \<Rightarrow> str list path_map \<times> str path_map
    \<Rightarrow> str list path_map \<times> str path_map" where
  "note_entry env e st =
     (case (path_parent (is_sep env) (entry_path e), path_file_name (is_sep env) (entry_path e), st) of
        (Some parent, Some fname, named, executables) \<Rightarrow>
          (if is_indicator fname then path_upsert env parent [fname] (\<lambda>ns. ns @ [fname]) named
           else named,
           if \<not> is_dir e \<and> ends_with (str_lower (tables env) fname) (lit ''.exe'')
           then path_upsert env parent fname (\<lambda>s. if fname < s then fname else s) executables
           else executables)
      | _ \<Rightarrow> st)"

text \<open>The directories above a path, innermost first, up to and without the empty one.\<close>

function dirs_above :: "(uchar \<Rightarrow> bool) \<Rightarrow> str \<Rightarrow> str list" where
  "dirs_above sep p =
     (case path_parent sep p of
        None \<Rightarrow> []
      | Some d \<Rightarrow> if d = [] then [] else d # dirs_above sep d)"
  by pat_completeness auto
termination
  by (relation "measure (\<lambda>(sep, p). length p)") (auto dest: path_parent_shorter)

declare dirs_above.simps [simp del]

definition implied_dirs :: "engine_env \<Rightarrow> archive_entry list \<Rightarrow> unit path_map" where
  "implied_dirs env es =
     fold (\<lambda>e m. fold (\<lambda>d. path_upsert env d () (\<lambda>_. ())) (dirs_above (is_sep env) (entry_path e)) m)
       es []"

definition credit :: "engine_env \<Rightarrow> str \<Rightarrow> str list \<Rightarrow> str list path_map \<Rightarrow> str list path_map" where
  "credit env dir found = path_upsert env dir found (\<lambda>ev. ev @ found)"

definition credit_folder :: "engine_env \<Rightarrow> str \<Rightarrow> str list path_map \<Rightarrow> str list path_map" where
  "credit_folder env dir scored =
     (case (path_parent (is_sep env) dir, path_file_name (is_sep env) dir) of
        (Some parent, Some name) \<Rightarrow>
          if is_indicator name then credit env parent [lit ''a '' @ name @ lit ''/ folder''] scored
          else scored
      | _ \<Rightarrow> scored)"

definition scored_dirs :: "engine_env \<Rightarrow> archive_entry list \<Rightarrow> str list path_map" where
  "scored_dirs env es =
     (case fold (note_entry env) es ([], []) of
        (named, executables) \<Rightarrow>
          let scored = fold (\<lambda>(dir, names). credit env dir (sort names)) named [];
              scored = fold (\<lambda>(dir, exe). credit env dir [lit ''an executable ('' @ exe @ lit '')''])
                executables scored
          in fold (\<lambda>(dir, _). credit_folder env dir) (implied_dirs env es) scored)"

section \<open>Choosing\<close>

record detected_content_root =
  dc_path :: str
  dc_score :: nat
  dc_evidence :: "str list"

definition ranked_dirs :: "engine_env \<Rightarrow> archive_entry list \<Rightarrow> str list path_map" where
  "ranked_dirs env es =
     sort_key (\<lambda>(dir, ev). (- int (length ev), path_components (is_sep env) dir)) (scored_dirs env es)"

text \<open>\<^verbatim>\<open>while !path.starts_with(&common) { if !common.pop() { break; } }\<close>.\<close>

function pop_until :: "(uchar \<Rightarrow> bool) \<Rightarrow> str \<Rightarrow> str \<Rightarrow> str" where
  "pop_until sep path common =
     (if path_starts_with sep path common then common
      else (case path_parent sep common of
          None \<Rightarrow> common
        | Some shorter \<Rightarrow> pop_until sep path shorter))"
  by pat_completeness auto
termination
  by (relation "measure (\<lambda>(sep, path, common). length common)") (auto dest: path_parent_shorter)

declare pop_until.simps [simp del]

definition common_root :: "engine_env \<Rightarrow> archive_entry list \<Rightarrow> str" where
  "common_root env es =
     (case es of
        [] \<Rightarrow> []
      | e # rest \<Rightarrow>
          fold (\<lambda>x. pop_until (is_sep env) (entry_path x)) rest
            (case path_parent (is_sep env) (entry_path e) of Some d \<Rightarrow> d | None \<Rightarrow> []))"

definition detect_content_root :: "engine_env \<Rightarrow> archive_entry list \<Rightarrow> detected_content_root" where
  "detect_content_root env es =
     (let fallback = \<lparr>dc_path = common_root env es, dc_score = 0, dc_evidence = []\<rparr> in
      case ranked_dirs env es of
        (dir, evidence) # _ \<Rightarrow>
          if length evidence \<ge> 2
          then \<lparr>dc_path = dir, dc_score = length evidence, dc_evidence = evidence\<rparr>
          else fallback
      | [] \<Rightarrow> fallback)"

definition find_game_content_root_in_entries :: "engine_env \<Rightarrow> archive_entry list \<Rightarrow> str" where
  "find_game_content_root_in_entries env es = dc_path (detect_content_root env es)"

section \<open>The winner\<close>

lemma ranked_head:
  assumes "ranked_dirs env es = (dir, ev) # rest"
  shows "(dir, ev) \<in> set (scored_dirs env es)"
    and "(dir', ev') \<in> set (scored_dirs env es) \<Longrightarrow>
      length ev' < length ev
      \<or> (length ev' = length ev
         \<and> path_components (is_sep env) dir \<le> path_components (is_sep env) dir')"
proof -
  let ?key = "\<lambda>(dir, ev). (- int (length ev), path_components (is_sep env) dir)"
  have set: "set (ranked_dirs env es) = set (scored_dirs env es)" by (simp add: ranked_dirs_def)
  then show "(dir, ev) \<in> set (scored_dirs env es)" using assms by force
  have "sorted (map ?key (ranked_dirs env es))" by (simp add: ranked_dirs_def)
  then have "?key (dir, ev) \<le> ?key (dir', ev')" if "(dir', ev') \<in> set (ranked_dirs env es)"
    using that assms by (fastforce simp: assms)
  then show "(dir', ev') \<in> set (scored_dirs env es) \<Longrightarrow>
      length ev' < length ev
      \<or> (length ev' = length ev
         \<and> path_components (is_sep env) dir \<le> path_components (is_sep env) dir')"
    using set by (auto simp: less_eq_prod_def)
qed

lemma ranked_Nil_iff: "ranked_dirs env es = [] \<longleftrightarrow> scored_dirs env es = []"
  unfolding ranked_dirs_def by (metis length_0_conv length_sort)

section \<open>The fallback\<close>

definition real_segments :: "(uchar \<Rightarrow> bool) \<Rightarrow> str \<Rightarrow> str list" where
  "real_segments sep b = filter (\<lambda>s. s \<noteq> [] \<and> s \<noteq> [dot]) (split_on sep b)"

lemma split_on_cut_last:
  "real_segments sep b
     = real_segments sep (cut_last sep b) @ filter (\<lambda>s. s \<noteq> [] \<and> s \<noteq> [dot]) [last_comp sep b]"
proof (cases "dropWhile (\<lambda>c. \<not> sep c) (rev b)")
  case Nil
  then have none: "\<forall>c \<in> set b. \<not> sep c" by simp
  then have "last_comp sep b = b" by (simp add: last_comp_def takeWhile_eq_all_conv [THEN iffD2])
  moreover have "cut_last sep b = []" unfolding cut_last_def Nil by simp
  ultimately show ?thesis using none by (simp add: real_segments_def split_on_no_sep)
next
  case (Cons d r)
  have d: "sep d" using hd_dropWhile [of "\<lambda>c. \<not> sep c" "rev b"] Cons by simp
  have "rev b = takeWhile (\<lambda>c. \<not> sep c) (rev b) @ d # r"
    using takeWhile_dropWhile_id [of "\<lambda>c. \<not> sep c" "rev b"] Cons by simp
  then have b: "b = cut_last sep b @ d # last_comp sep b"
    unfolding cut_last_def last_comp_def Cons by (metis append.assoc append_Cons append_Nil
        drop_Suc_Cons drop0 One_nat_def rev.simps(2) rev_append rev_rev_ident)
  have "split_on sep (last_comp sep b) = [last_comp sep b]"
    by (rule split_on_no_sep) (auto simp: last_comp_def dest: set_takeWhileD)
  then have "split_on sep (cut_last sep b @ d # last_comp sep b)
      = split_on sep (cut_last sep b) @ [last_comp sep b]"
    using d by (simp add: split_on_append)
  then show ?thesis unfolding real_segments_def using b by (metis filter_append)
qed

lemma real_segments_trim_body: "real_segments sep (trim_body sep b) = real_segments sep b"
proof (induction sep b rule: trim_body.induct)
  case (1 sep b)
  show ?case
  proof (cases "b = [] \<or> \<not> (last_comp sep b = [] \<or> last_comp sep b = [dot])")
    case True
    then show ?thesis by (auto simp: trim_body.simps [of sep b])
  next
    case False
    then show ?thesis
      using 1 split_on_cut_last [of sep b] by (auto simp: trim_body.simps [of sep b])
  qed
qed

lemma path_components_segments:
  "path_components sep p =
     (if path_rooted sep p then [RootDir] else if path_curdir sep p then [CurDir] else [])
     @ map component_of (real_segments sep (path_body sep p))"
  by (simp add: path_components_def real_segments_def)

text \<open>Cutting and trimming only ever leave a prefix that ends before a separator.\<close>

definition boundary_prefix :: "(uchar \<Rightarrow> bool) \<Rightarrow> str \<Rightarrow> str \<Rightarrow> bool" where
  "boundary_prefix sep q b \<longleftrightarrow> q = b \<or> (\<exists>d r. b = q @ d # r \<and> sep d) \<or> q = []"

lemma cut_last_boundary: "boundary_prefix sep (cut_last sep b) b"
proof (cases "dropWhile (\<lambda>c. \<not> sep c) (rev b)")
  case Nil
  then show ?thesis by (simp add: boundary_prefix_def cut_last_def del: dropWhile_eq_Nil_conv)
next
  case (Cons d r)
  have d: "sep d" using hd_dropWhile [of "\<lambda>c. \<not> sep c" "rev b"] Cons by simp
  have "rev b = takeWhile (\<lambda>c. \<not> sep c) (rev b) @ d # r"
    using takeWhile_dropWhile_id [of "\<lambda>c. \<not> sep c" "rev b"] Cons by simp
  then have "b = rev (takeWhile (\<lambda>c. \<not> sep c) (rev b) @ d # r)" by (metis rev_rev_ident)
  then show ?thesis using d unfolding boundary_prefix_def cut_last_def Cons by auto
qed

lemma boundary_prefix_trans:
  "boundary_prefix sep a b \<Longrightarrow> boundary_prefix sep b c \<Longrightarrow> boundary_prefix sep a c"
  by (auto simp: boundary_prefix_def)

lemma trim_body_boundary: "boundary_prefix sep (trim_body sep b) b"
proof (induction sep b rule: trim_body.induct)
  case (1 sep b)
  then show ?case
    using boundary_prefix_trans [OF _ cut_last_boundary [of sep b]]
    by (auto simp: trim_body.simps [of sep b] boundary_prefix_def)
qed

lemma trim_body_last:
  "trim_body sep b \<noteq> [] \<Longrightarrow>
     last_comp sep (trim_body sep b) \<noteq> [] \<and> last_comp sep (trim_body sep b) \<noteq> [dot]"
proof (induction sep b rule: trim_body.induct)
  case (1 sep b)
  show ?case
  proof (cases "b = [] \<or> \<not> (last_comp sep b = [] \<or> last_comp sep b = [dot])")
    case True
    then show ?thesis using "1.prems" by (auto simp: trim_body.simps [of sep b])
  next
    case False
    then show ?thesis using 1 by (simp add: trim_body.simps [of sep b])
  qed
qed

text \<open>A boundary prefix of the body, put back after the head, is read the same way.\<close>

lemma boundary_prefix_reads:
  assumes "boundary_prefix sep t (path_body sep p)"
  shows "path_rooted sep (path_head sep p @ t) = path_rooted sep p
    \<and> (\<not> path_rooted sep p \<longrightarrow> path_curdir sep (path_head sep p @ t) = path_curdir sep p)"
proof -
  consider "path_rooted sep p" | "\<not> path_rooted sep p" "path_curdir sep p"
    | "\<not> path_rooted sep p" "\<not> path_curdir sep p" by blast
  then show ?thesis
  proof cases
    case 1
    then show ?thesis by (cases p) (auto simp: path_rooted_def path_head_def)
  next
    case 2
    then obtain cs where p: "p = dot # cs" "cs = [] \<or> sep (hd cs)"
      by (auto simp: path_curdir_def split: list.splits)
    then have "path_head sep p = [dot]" "path_body sep p = cs"
      using 2 by (simp_all add: path_head_def path_body_def)
    then have "t = cs \<or> t = [] \<or> sep (hd t)"
      using assms p by (cases t) (auto simp: boundary_prefix_def)
    then show ?thesis using 2 p \<open>path_head sep p = [dot]\<close>
      by (auto simp: path_rooted_def path_curdir_def)
  next
    case 3
    then have h: "path_head sep p = []" "path_body sep p = p"
      by (simp_all add: path_head_def path_body_def)
    then show ?thesis using assms 3
      by (cases t) (auto simp: boundary_prefix_def path_rooted_def path_curdir_def hd_append
          split: list.splits if_splits)
  qed
qed

lemma boundary_prefix_body:
  assumes "boundary_prefix sep t (path_body sep p)"
  shows "path_body sep (path_head sep p @ t) = t"
proof -
  have "path_head sep (path_head sep p @ t) = path_head sep p"
    using boundary_prefix_reads [OF assms]
    by (cases p) (auto simp: path_head_def path_rooted_def path_curdir_def)
  then show ?thesis by (simp add: path_body_def)
qed

text \<open>The components of a parent are those of the path without the last.\<close>

lemma path_parent_components:
  assumes "path_parent sep p = Some q"
  shows "\<exists>c. path_components sep p = path_components sep q @ [c]"
proof (cases "trim_body sep (path_body sep p) = []")
  case True
  then have cur: "path_curdir sep p" "q = []"
    using assms by (auto simp: path_parent_def Let_def split: if_splits)
  have "real_segments sep (path_body sep p) = []"
    using real_segments_trim_body [of sep "path_body sep p"] True by (simp add: real_segments_def)
  then show ?thesis using cur
    by (auto simp: path_components_segments real_segments_def path_body_def path_head_def
        path_rooted_def path_curdir_def)
next
  case False
  let ?b = "trim_body sep (path_body sep p)"
  let ?t = "trim_body sep (cut_last sep ?b)"
  have q: "q = path_head sep p @ ?t" using assms False by (simp add: path_parent_def Let_def)
  have bp: "boundary_prefix sep ?t (path_body sep p)"
    using boundary_prefix_trans trim_body_boundary cut_last_boundary by metis
  have segs: "real_segments sep (path_body sep p) = real_segments sep ?t @ [last_comp sep ?b]"
    using split_on_cut_last [of sep ?b] trim_body_last [OF False] by (simp add: real_segments_trim_body)
  show ?thesis
    unfolding path_components_segments [of sep p] path_components_segments [of sep q]
    using boundary_prefix_reads [OF bp] boundary_prefix_body [OF bp] by (simp add: q segs)
qed

lemma path_parent_None_components:
  assumes "path_parent sep p = None" and "RootDir \<notin> set (path_components sep p)"
  shows "path_components sep p = []"
proof -
  have "trim_body sep (path_body sep p) = []" "\<not> path_curdir sep p"
    using assms(1) by (auto simp: path_parent_def Let_def split: if_splits)
  then have "real_segments sep (path_body sep p) = []"
    using real_segments_trim_body [of sep "path_body sep p"] by (simp add: real_segments_def)
  then show ?thesis using assms(2) \<open>\<not> path_curdir sep p\<close>
    by (auto simp: path_components_segments split: if_splits)
qed

lemma pop_until_prefix:
  "prefix (path_components sep (pop_until sep path common)) (path_components sep common)"
proof (induction sep path common rule: pop_until.induct)
  case (1 sep path common)
  then show ?case
    using path_parent_components [of sep common]
    by (fastforce simp: pop_until.simps [of sep path common] split: option.splits)
qed

lemma pop_until_covers:
  "RootDir \<notin> set (path_components sep common) \<Longrightarrow>
     path_starts_with sep path (pop_until sep path common)"
proof (induction sep path common rule: pop_until.induct)
  case (1 sep path common)
  show ?case
  proof (cases "path_parent sep common")
    case None
    then have "path_starts_with sep path common"
      using path_parent_None_components [OF None "1.prems"] by (simp add: path_starts_with_def)
    then show ?thesis by (simp add: pop_until.simps [of sep path common])
  next
    case (Some c)
    then have "RootDir \<notin> set (path_components sep c)"
      using path_parent_components 1 by fastforce
    then show ?thesis using 1 Some by (simp add: pop_until.simps [of sep path common])
  qed
qed

lemma pop_fold_covers:
  assumes "RootDir \<notin> set (path_components sep common)"
  shows "prefix (path_components sep (fold (\<lambda>x. pop_until sep (entry_path x)) es common))
      (path_components sep common)
    \<and> (\<forall>e \<in> set es. path_starts_with sep (entry_path e)
        (fold (\<lambda>x. pop_until sep (entry_path x)) es common))"
  using assms
proof (induction es arbitrary: common)
  case Nil
  then show ?case by simp
next
  case (Cons e es)
  let ?c = "pop_until sep (entry_path e) common"
  have "RootDir \<notin> set (path_components sep ?c)"
    using pop_until_prefix Cons.prems by (metis set_mono_prefix subsetD)
  note IH = Cons.IH [OF this]
  have "path_starts_with sep (entry_path e) ?c" using pop_until_covers Cons.prems by blast
  then show ?case using IH pop_until_prefix [of sep "entry_path e" common]
    by (auto simp: path_starts_with_def intro: prefix_order.trans)
qed

section \<open>Properties\<close>

text \<open>The detection picks the directory with the most indicators, needs at least two, and breaks
  ties towards the smallest path; the evidence it shows is exactly what it counted. When no directory
  has two indicators it reports none and falls back to the common directory.\<close>

theorem content_root_is_best:
  "(2 \<le> dc_score (detect_content_root env es)
     \<and> dc_score (detect_content_root env es) = length (dc_evidence (detect_content_root env es))
     \<and> (dc_path (detect_content_root env es), dc_evidence (detect_content_root env es))
         \<in> set (scored_dirs env es)
     \<and> list_all (\<lambda>(p, ev). length ev < dc_score (detect_content_root env es)
         \<or> (length ev = dc_score (detect_content_root env es)
            \<and> path_components (is_sep env) (dc_path (detect_content_root env es))
                \<le> path_components (is_sep env) p)) (scored_dirs env es))
   \<or> (detect_content_root env es
        = \<lparr>dc_path = common_root env es, dc_score = 0, dc_evidence = []\<rparr>
      \<and> list_all (\<lambda>(p, ev). length ev < 2) (scored_dirs env es))"
proof (cases "ranked_dirs env es")
  case Nil
  then have "scored_dirs env es = []" using ranked_Nil_iff by blast
  then show ?thesis using Nil by (simp add: detect_content_root_def)
next
  case (Cons w rest)
  obtain dir ev where w: "w = (dir, ev)" by fastforce
  note top = ranked_head [OF Cons [unfolded w]]
  show ?thesis
  proof (cases "2 \<le> length ev")
    case True
    then have "detect_content_root env es = \<lparr>dc_path = dir, dc_score = length ev, dc_evidence = ev\<rparr>"
      using Cons w by (simp add: detect_content_root_def)
    then show ?thesis using True top by (fastforce simp: list_all_iff)
  next
    case False
    then have "detect_content_root env es
        = \<lparr>dc_path = common_root env es, dc_score = 0, dc_evidence = []\<rparr>"
      using Cons w by (simp add: detect_content_root_def)
    then show ?thesis using False top(2) by (fastforce simp: list_all_iff)
  qed
qed

text \<open>The common directory of a listing of relative paths lies above every entry, so a fallback
  content root never leaves a file outside it.\<close>

theorem common_root_above:
  assumes "\<forall>e \<in> set es. \<not> path_rooted (is_sep env) (entry_path e)" and "e \<in> set es"
  shows "path_starts_with (is_sep env) (entry_path e) (common_root env es)"
proof -
  let ?sep = "is_sep env"
  obtain x xs where es: "es = x # xs" using assms(2) by (cases es) auto
  define start where "start = (case path_parent ?sep (entry_path x) of Some d \<Rightarrow> d | None \<Rightarrow> [])"
  have root: "common_root env es = fold (\<lambda>x. pop_until ?sep (entry_path x)) xs start"
    by (simp add: common_root_def es start_def)
  have empty: "path_components ?sep [] = []"
    by (simp add: path_components_def path_rooted_def path_curdir_def path_body_def)
  have "prefix (path_components ?sep start) (path_components ?sep (entry_path x))"
    using path_parent_components [of ?sep "entry_path x"] empty
    by (fastforce simp: start_def split: option.splits)
  moreover have "RootDir \<notin> set (path_components ?sep (entry_path x))"
    using assms(1) by (auto simp: es path_components_def component_of_def)
  ultimately have "RootDir \<notin> set (path_components ?sep start)"
    "path_starts_with ?sep (entry_path x) start"
    by (auto simp: path_starts_with_def dest: set_mono_prefix)
  then show ?thesis
    using pop_fold_covers [of ?sep start xs] assms(2)
    unfolding root by (auto simp: es path_starts_with_def intro: prefix_order.trans)
qed

definition nested_listing :: "archive_entry list" where
  "nested_listing = [file_entry (lit ''Pack/bin/run.sh'') 4, file_entry (lit ''Pack/readme.txt'') 9]"

theorem common_root_above_witness:
  "common_root sample_env nested_listing = lit ''Pack''
   \<and> path_starts_with (is_sep sample_env) (lit ''Pack/readme.txt'') (lit ''Pack'')"
proof -
  have c: "common_root sample_env nested_listing = lit ''Pack''" by code_simp
  have h: "\<forall>e \<in> set nested_listing. \<not> path_rooted (is_sep sample_env) (entry_path e)" by code_simp
  have i: "file_entry (lit ''Pack/readme.txt'') 9 \<in> set nested_listing"
    by (simp add: nested_listing_def)
  show ?thesis using c common_root_above [OF h i] by (simp add: file_entry_def)
qed

end
