(* ===== verification/Path_Tree.thy ===== *)
theory Path_Tree
  imports Archive_Entry
begin

text \<open>
  \<^verbatim>\<open>crates/core/src/features/organization/engine/tree.rs\<close> and
  \<^verbatim>\<open>RuleEngine::prune_entries\<close>: the path tree that drops empty files and empty folders from a
  listing before anything is planned. A node's \<^verbatim>\<open>HashMap\<close> of children is an association list
  with distinct keys, whose order nothing reads: \<open>flatten\<close> sorts by name.

  The theory proves that on a consistent listing the tree computes a sort and a filter, and shows the
  one shape of listing where it does not.
\<close>

section \<open>The tree\<close>

datatype tree_node =
  TreeNode (node_entry: "archive_entry option") (node_children: "(str \<times> tree_node) list")
    (node_is_dir: bool)

definition new_node :: "bool \<Rightarrow> tree_node" where
  "new_node d = TreeNode None [] d"

fun insert_recursive :: "str list \<Rightarrow> archive_entry \<Rightarrow> tree_node \<Rightarrow> tree_node" where
  "insert_recursive [] e (TreeNode _ ch _) = TreeNode (Some e) ch (is_dir e)"
| "insert_recursive (name # parts) e (TreeNode x ch d) =
     TreeNode x
       (AList.update name
          (insert_recursive parts e
             (case map_of ch name of Some c \<Rightarrow> c | None \<Rightarrow> new_node True)) ch) d"

definition tree_insert :: "str \<Rightarrow> archive_entry \<Rightarrow> tree_node \<Rightarrow> tree_node" where
  "tree_insert path e t = insert_recursive (name_parts path) e t"

lemma child_size [termination_simp]:
  "p \<in> set ch \<Longrightarrow> size (snd p) < Suc (size_list (size_prod (\<lambda>_. 0) size) ch)"
  by (induction ch) (auto simp: size_prod_def)

text \<open>\<^verbatim>\<open>prune\<close> answers whether the node is kept and leaves it pruned.\<close>

fun prune :: "tree_node \<Rightarrow> bool \<times> tree_node" where
  "prune (TreeNode x ch d) =
     (let pruned = map (\<lambda>p. (fst p, prune (snd p))) ch;
          kept = map (\<lambda>p. (fst p, snd (snd p))) (filter (\<lambda>p. fst (snd p)) pruned)
      in (if \<not> d then (case x of Some e \<Rightarrow> entry_size e \<noteq> 0 | None \<Rightarrow> True) else kept \<noteq> [],
          TreeNode x kept d))"

fun flatten :: "tree_node \<Rightarrow> archive_entry list" where
  "flatten (TreeNode x ch d) =
     (case x of Some e \<Rightarrow> if is_dir e then [] else [e] | None \<Rightarrow> [])
     @ concat (map snd (sort_key fst (map (\<lambda>p. (fst p, flatten (snd p))) ch)))"

definition build_tree :: "archive_entry list \<Rightarrow> tree_node" where
  "build_tree es = fold (\<lambda>e t. tree_insert (entry_path e) e t) es (new_node True)"

definition prune_entries :: "archive_entry list \<Rightarrow> archive_entry list" where
  "prune_entries es = flatten (snd (prune (build_tree es)))"

section \<open>What the tree holds\<close>

abbreviation entry_parts :: "archive_entry \<Rightarrow> str list" where
  "entry_parts e \<equiv> name_parts (entry_path e)"

fun entries_of :: "tree_node \<Rightarrow> archive_entry set" where
  "entries_of (TreeNode x ch d) = set_option x \<union> (\<Union>p \<in> set ch. entries_of (snd p))"

text \<open>Every entry sits at the place its path names, under distinct child names.\<close>

fun tree_keys :: "str list \<Rightarrow> tree_node \<Rightarrow> bool" where
  "tree_keys q (TreeNode x ch d) \<longleftrightarrow>
     distinct (map fst ch) \<and> (\<forall>e \<in> set_option x. entry_parts e = q)
     \<and> (\<forall>p \<in> set ch. tree_keys (q @ [fst p]) (snd p))"

text \<open>A node is a directory unless its own entry says otherwise, and no branch is barren.\<close>

fun tree_dirs :: "tree_node \<Rightarrow> bool" where
  "tree_dirs (TreeNode x ch d) \<longleftrightarrow>
     d = (case x of Some e \<Rightarrow> is_dir e | None \<Rightarrow> True)
     \<and> (\<forall>p \<in> set ch. entries_of (snd p) \<noteq> {} \<and> tree_dirs (snd p))"

lemma new_node_facts [simp]:
  "entries_of (new_node d) = {}" "tree_keys q (new_node d)" "tree_dirs (new_node True)"
  by (simp_all add: new_node_def)

lemma entries_of_prefix: "tree_keys q t \<Longrightarrow> e \<in> entries_of t \<Longrightarrow> \<exists>r. entry_parts e = q @ r"
proof (induction t arbitrary: q)
  case (TreeNode x ch d)
  show ?case
  proof (cases "e \<in> set_option x")
    case True
    then show ?thesis using TreeNode.prems by auto
  next
    case False
    then obtain n c where nc: "(n, c) \<in> set ch" "e \<in> entries_of c"
      using TreeNode.prems by auto
    then have "tree_keys (q @ [n]) c" using TreeNode.prems(1) by force
    then have "\<exists>r. entry_parts e = (q @ [n]) @ r"
      using TreeNode.IH [of "(n, c)" c "q @ [n]"] nc by (auto simp: snds.simps)
    then show ?thesis by auto
  qed
qed

lemma update_child_cases:
  "p \<in> set (AList.update n c ch) \<Longrightarrow> p = (n, c) \<or> p \<in> set ch"
  by (induction ch) (auto split: if_splits)

lemma update_child_in: "(n, c) \<in> set (AList.update n c ch)"
  by (induction ch) auto

lemma update_child_keep:
  "distinct (map fst ch) \<Longrightarrow> p \<in> set ch \<Longrightarrow> fst p \<noteq> n \<Longrightarrow> p \<in> set (AList.update n c ch)"
  by (induction ch) auto

abbreviation child_or_new :: "(str \<times> tree_node) list \<Rightarrow> str \<Rightarrow> tree_node" where
  "child_or_new ch n \<equiv> (case map_of ch n of Some c \<Rightarrow> c | None \<Rightarrow> new_node True)"

lemma child_or_new_cases:
  "(map_of ch n = None \<and> child_or_new ch n = new_node True) \<or> (n, child_or_new ch n) \<in> set ch"
  by (cases "map_of ch n") (auto dest: map_of_SomeD)

lemma insert_entries_mem: "e \<in> entries_of (insert_recursive ps e t)"
proof (induction ps e t rule: insert_recursive.induct)
  case (2 name parts e x ch d)
  then show ?case using update_child_in [of name _ ch] by force
qed simp

lemma insert_entries_subset:
  "entries_of (insert_recursive ps e t) \<subseteq> insert e (entries_of t)"
proof (induction ps e t rule: insert_recursive.induct)
  case (2 name parts e x ch d)
  have "entries_of (child_or_new ch name) \<subseteq> entries_of (TreeNode x ch d)"
    using child_or_new_cases [of ch name] by fastforce
  then show ?case using 2 by (fastforce dest!: update_child_cases)
qed auto

lemma insert_entries_keep:
  "tree_keys q t \<Longrightarrow> e' \<in> entries_of t \<Longrightarrow> entry_parts e' \<noteq> q @ ps
    \<Longrightarrow> e' \<in> entries_of (insert_recursive ps e t)"
proof (induction ps e t arbitrary: q rule: insert_recursive.induct)
  case (1 e x ch d)
  then show ?case by auto
next
  case (2 name parts e x ch d)
  let ?new = "insert_recursive parts e (child_or_new ch name)"
  consider "e' \<in> set_option x" | n c where "(n, c) \<in> set ch" "e' \<in> entries_of c"
    using "2.prems" by auto
  then show ?case
  proof cases
    case 1
    then show ?thesis by simp
  next
    case 2
    show ?thesis
    proof (cases "n = name")
      case False
      then have "(n, c) \<in> set (AList.update name ?new ch)"
        using "2" "2.prems" by (intro update_child_keep) auto
      then show ?thesis using "2"(2) by force
    next
      case True
      then have look: "map_of ch name = Some c" using "2" "2.prems" by simp
      have "e' \<in> entries_of ?new"
        using "2.IH" [of "q @ [name]"] "2" "2.prems" True look by force
      then show ?thesis using update_child_in [of name ?new ch] by force
    qed
  qed
qed

lemma insert_tree_keys:
  "tree_keys q t \<Longrightarrow> entry_parts e = q @ ps \<Longrightarrow> tree_keys q (insert_recursive ps e t)"
proof (induction ps e t arbitrary: q rule: insert_recursive.induct)
  case (2 name parts e x ch d)
  have "tree_keys (q @ [name]) (child_or_new ch name)"
  proof (cases "map_of ch name")
    case (Some c)
    then have "(name, c) \<in> set ch" by (rule map_of_SomeD)
    then show ?thesis using "2.prems"(1) Some by (auto dest: bspec)
  qed simp
  then have "tree_keys (q @ [name]) (insert_recursive parts e (child_or_new ch name))"
    using "2.IH" [of "q @ [name]"] "2.prems" by simp
  moreover have "distinct (map fst (AList.update name c ch))" for c
    using "2.prems" by (simp add: distinct_update)
  ultimately show ?case
    using "2.prems" by (auto dest!: update_child_cases)
qed auto

lemma insert_tree_dirs: "tree_dirs t \<Longrightarrow> tree_dirs (insert_recursive ps e t)"
proof (induction ps e t rule: insert_recursive.induct)
  case (2 name parts e x ch d)
  have "tree_dirs (child_or_new ch name)"
  proof (cases "map_of ch name")
    case (Some c)
    then have "(name, c) \<in> set ch" by (rule map_of_SomeD)
    then show ?thesis using "2.prems" Some by (auto dest: bspec)
  qed simp
  then have "tree_dirs (insert_recursive parts e (child_or_new ch name))" by (rule "2.IH")
  moreover have "entries_of (insert_recursive parts e (child_or_new ch name)) \<noteq> {}"
    using insert_entries_mem by blast
  ultimately show ?case
    using "2.prems" by (auto dest!: update_child_cases)
qed auto

section \<open>Building the tree\<close>

lemma build_tree_invariant:
  assumes "tree_keys [] t" "tree_dirs t" "distinct (map entry_parts es)"
    and "\<forall>e \<in> entries_of t. entry_parts e \<notin> entry_parts ` set es"
  shows "let t' = fold (\<lambda>e t. tree_insert (entry_path e) e t) es t in
    tree_keys [] t' \<and> tree_dirs t' \<and> entries_of t' = entries_of t \<union> set es"
  using assms
proof (induction es arbitrary: t)
  case Nil
  then show ?case by simp
next
  case (Cons e es)
  let ?t = "insert_recursive (entry_parts e) e t"
  have "e' \<in> entries_of ?t" if "e' \<in> entries_of t" for e'
    using insert_entries_keep [of "[]" t e' "entry_parts e" e] that Cons.prems by auto
  then have ent: "entries_of ?t = insert e (entries_of t)"
    using insert_entries_mem [of e "entry_parts e" t] insert_entries_subset [of "entry_parts e" e t]
    by blast
  have "tree_keys [] ?t" "tree_dirs ?t"
    using Cons.prems by (auto intro: insert_tree_keys insert_tree_dirs)
  then show ?case
    using Cons.IH [of ?t] Cons.prems ent by (auto simp: Let_def tree_insert_def)
qed

lemma build_tree_facts:
  assumes "distinct (map entry_parts es)"
  shows "tree_keys [] (build_tree es)" "tree_dirs (build_tree es)"
    "entries_of (build_tree es) = set es"
  using build_tree_invariant [of "new_node True" es] assms by (auto simp: build_tree_def Let_def)

section \<open>Flattening\<close>

lemma sort_children_set:
  "set (concat (map snd (sort_key fst (map (\<lambda>p. (fst p, f (snd p))) ch))))
     = (\<Union>p \<in> set ch. set (f (snd p)))"
  by auto

lemma set_flatten: "set (flatten t) = {e \<in> entries_of t. \<not> is_dir e}"
proof (induction t)
  case (TreeNode x ch d)
  have "set (flatten (snd p)) = {e \<in> entries_of (snd p). \<not> is_dir e}" if "p \<in> set ch" for p
    using TreeNode.IH [of p "snd p"] that by (simp add: prod_set_defs)
  then show ?case
    by (auto simp: sort_children_set split: option.splits if_splits)
qed

lemma flatten_sorted:
  "tree_keys q t \<Longrightarrow> sorted_wrt (\<lambda>a b. entry_parts a < entry_parts b) (flatten t)"
proof (induction t arbitrary: q)
  case (TreeNode x ch d)
  let ?kids = "sort_key fst (map (\<lambda>p. (fst p, flatten (snd p))) ch)"
  have below: "\<exists>r. entry_parts e = q @ n # r" if "(n, es) \<in> set ?kids" "e \<in> set es" for n es e
  proof -
    from that obtain c where c: "(n, c) \<in> set ch" and es: "es = flatten c" by auto
    then have "tree_keys (q @ [n]) c" using TreeNode.prems by force
    moreover have "e \<in> entries_of c" using that es set_flatten [of c] by simp
    ultimately show ?thesis using entries_of_prefix [of "q @ [n]" c e] by simp
  qed
  have each: "sorted_wrt (\<lambda>a b. entry_parts a < entry_parts b) es" if "(n, es) \<in> set ?kids" for n es
  proof -
    from that obtain c where c: "(n, c) \<in> set ch" and es: "es = flatten c" by auto
    then have "tree_keys (q @ [n]) c" using TreeNode.prems by force
    then show ?thesis using TreeNode.IH [of "(n, c)" c "q @ [n]"] c es by (simp add: prod_set_defs)
  qed
  have "distinct (map fst (map (\<lambda>p. (fst p, flatten (snd p))) ch))"
    using TreeNode.prems by (simp add: o_def)
  then have "sorted_wrt (\<lambda>a b. fst a < fst b) ?kids" by (rule strict_sorted_sort_key)
  then have "sorted_wrt (\<lambda>a b. \<forall>e \<in> set (snd a). \<forall>e' \<in> set (snd b). entry_parts e < entry_parts e')
      ?kids"
  proof (rule sorted_wrt_mono_rel [rotated])
    fix a b assume ab: "a \<in> set ?kids" "b \<in> set ?kids" "fst a < fst b"
    show "\<forall>e \<in> set (snd a). \<forall>e' \<in> set (snd b). entry_parts e < entry_parts e'"
    proof (intro ballI)
      fix e e' assume "e \<in> set (snd a)" "e' \<in> set (snd b)"
      then obtain r r' where "entry_parts e = q @ fst a # r" "entry_parts e' = q @ fst b # r'"
        using below [of "fst a" "snd a" e] below [of "fst b" "snd b" e'] ab by auto
      then show "entry_parts e < entry_parts e'" using ab(3) by (simp add: append_less_iff)
    qed
  qed
  then have kids: "sorted_wrt (\<lambda>a b. entry_parts a < entry_parts b) (concat (map snd ?kids))"
    using each by (intro sorted_wrt_concat) (auto simp: sorted_wrt_map)
  have own: "entry_parts e < entry_parts e'" if x: "x = Some e" and e': "e' \<in> set (concat (map snd ?kids))" for e e'
  proof -
    have "entry_parts e = q" using TreeNode.prems x by simp
    moreover obtain n r where "entry_parts e' = q @ n # r" using below e' by force
    ultimately show ?thesis by (simp add: Cons_less_append)
  qed
  then show ?case using kids
    by (auto simp: sorted_wrt_append split: option.splits)
qed

section \<open>Pruning\<close>

text \<open>The entries pruning is meant to keep: files with content.\<close>

definition has_content :: "archive_entry \<Rightarrow> bool" where
  "has_content e \<longleftrightarrow> \<not> is_dir e \<and> entry_size e \<noteq> 0"

lemma prune_entries_subset: "entries_of (snd (prune t)) \<subseteq> entries_of t"
proof (induction t)
  case (TreeNode x ch d)
  have "entries_of (snd (prune (snd p))) \<subseteq> entries_of (snd p)" if "p \<in> set ch" for p
    using TreeNode.IH [of p "snd p"] that by (simp add: prod_set_defs)
  then show ?case by (fastforce simp: Let_def)
qed

lemma prune_tree_keys: "tree_keys q t \<Longrightarrow> tree_keys q (snd (prune t))"
proof (induction t arbitrary: q)
  case (TreeNode x ch d)
  have "tree_keys (q @ [fst p]) (snd (prune (snd p)))" if "p \<in> set ch" for p
    using TreeNode.IH [of p "snd p" "q @ [fst p]"] TreeNode.prems that by (simp add: prod_set_defs)
  moreover have "distinct (map fst (filter P ch))" for P
    using TreeNode.prems by (simp add: distinct_map_filter)
  ultimately show ?case using TreeNode.prems
    by (auto simp: Let_def filter_map o_def)
qed

text \<open>A listing is consistent when no file's path is a proper ancestor of another entry's.\<close>

definition files_are_leaves :: "archive_entry set \<Rightarrow> bool" where
  "files_are_leaves E \<longleftrightarrow>
     (\<forall>e \<in> E. \<forall>e' \<in> E. \<not> is_dir e \<longrightarrow> \<not> strict_prefix (entry_parts e) (entry_parts e'))"

lemma files_are_leaves_mono: "files_are_leaves E \<Longrightarrow> E' \<subseteq> E \<Longrightarrow> files_are_leaves E'"
  by (auto simp: files_are_leaves_def)

lemma file_node_no_children:
  assumes "tree_keys q (TreeNode (Some e) ch d)" "tree_dirs (TreeNode (Some e) ch d)"
    and "files_are_leaves (entries_of (TreeNode (Some e) ch d))" "\<not> is_dir e"
  shows "ch = []"
proof (rule ccontr)
  assume "ch \<noteq> []"
  then obtain n c where nc: "(n, c) \<in> set ch" by (cases ch) auto
  then obtain e' where e': "e' \<in> entries_of c" using assms(2) by fastforce
  have "tree_keys (q @ [n]) c" using assms(1) nc by force
  then obtain r where "entry_parts e' = q @ n # r" using entries_of_prefix e' by fastforce
  then have "strict_prefix (entry_parts e) (entry_parts e')"
    using assms(1) by (simp add: strict_prefix_def)
  moreover have "e' \<in> entries_of (TreeNode (Some e) ch d)" using nc e' by force
  ultimately show False using assms(3,4) by (auto simp: files_are_leaves_def)
qed

text \<open>What \<open>prune\<close> promises of one node: the verdict is whether content lies below it, and
  what survives is that content.\<close>

lemma prune_spec:
  "tree_keys q t \<Longrightarrow> tree_dirs t \<Longrightarrow> files_are_leaves (entries_of t) \<Longrightarrow>
     (fst (prune t) \<longrightarrow> {e \<in> entries_of (snd (prune t)). \<not> is_dir e} = {e \<in> entries_of t. has_content e})
     \<and> (\<not> fst (prune t) \<longrightarrow> {e \<in> entries_of t. has_content e} = {})"
proof (induction t arbitrary: q)
  case (TreeNode x ch d)
  let ?kept = "map (\<lambda>p. (fst p, snd (snd p)))
      (filter (\<lambda>p. fst (snd p)) (map (\<lambda>p. (fst p, prune (snd p))) ch))"
  have kid: "(fst (prune (snd p)) \<longrightarrow>
        {e \<in> entries_of (snd (prune (snd p))). \<not> is_dir e} = {e \<in> entries_of (snd p). has_content e})
      \<and> (\<not> fst (prune (snd p)) \<longrightarrow> {e \<in> entries_of (snd p). has_content e} = {})"
    if p: "p \<in> set ch" for p
  proof -
    have "entries_of (snd p) \<subseteq> entries_of (TreeNode x ch d)" using p by force
    then have "files_are_leaves (entries_of (snd p))"
      using TreeNode.prems(3) files_are_leaves_mono by blast
    then show ?thesis
      using TreeNode.IH [of p "snd p" "q @ [fst p]"] TreeNode.prems p by (simp add: prod_set_defs)
  qed
  have kids: "(\<Union>p \<in> set ?kept. {e \<in> entries_of (snd p). \<not> is_dir e})
      = (\<Union>p \<in> set ch. {e \<in> entries_of (snd p). has_content e})"
  proof -
    let ?live = "{p \<in> set ch. fst (prune (snd p))}"
    have "set ?kept = (\<lambda>p. (fst p, snd (prune (snd p)))) ` ?live"
      by (simp add: filter_map o_def image_image)
    then have "(\<Union>p \<in> set ?kept. {e \<in> entries_of (snd p). \<not> is_dir e})
        = (\<Union>p \<in> ?live. {e \<in> entries_of (snd (prune (snd p))). \<not> is_dir e})" by simp
    also have "\<dots> = (\<Union>p \<in> ?live. {e \<in> entries_of (snd p). has_content e})"
      using kid by (intro SUP_cong) simp_all
    also have "\<dots> = (\<Union>p \<in> set ch. {e \<in> entries_of (snd p). has_content e})"
      using kid by blast
    finally show ?thesis .
  qed
  show ?case
  proof (cases "\<exists>e. x = Some e \<and> \<not> is_dir e")
    case True
    then obtain e where x: "x = Some e" "\<not> is_dir e" by blast
    then have "ch = []" using file_node_no_children TreeNode.prems by blast
    moreover have "\<not> d" using TreeNode.prems(2) x by simp
    ultimately show ?thesis using x by (auto simp: has_content_def)
  next
    case False
    then have d: "d" and own: "set_option x \<inter> {e. \<not> is_dir e} = {}"
      using TreeNode.prems(2) by (auto split: option.splits)
    have "entries_of (snd (prune (TreeNode x ch d)))
        = set_option x \<union> (\<Union>p \<in> set ?kept. entries_of (snd p))"
      by (simp add: Let_def)
    then have left: "{e \<in> entries_of (snd (prune (TreeNode x ch d))). \<not> is_dir e}
        = (\<Union>p \<in> set ?kept. {e \<in> entries_of (snd p). \<not> is_dir e})"
      using own by blast
    have right: "{e \<in> entries_of (TreeNode x ch d). has_content e}
        = (\<Union>p \<in> set ch. {e \<in> entries_of (snd p). has_content e})"
      using own by (auto simp: has_content_def)
    have verdict: "fst (prune (TreeNode x ch d)) \<longleftrightarrow> ?kept \<noteq> []" using d by (simp add: Let_def)
    have bare: "(\<Union>p \<in> set ch. {e \<in> entries_of (snd p). has_content e}) = {}" if "?kept = []"
      using kids unfolding that by simp
    show ?thesis unfolding left right verdict kids using bare by blast
  qed
qed

section \<open>Any listing\<close>

text \<open>Without any assumption on the listing: what comes out are files of the listing, at different
  places of the tree, in path order.\<close>

lemma build_tree_any:
  "tree_keys [] (build_tree es) \<and> entries_of (build_tree es) \<subseteq> set es"
proof -
  have "tree_keys [] (fold (\<lambda>e t. tree_insert (entry_path e) e t) es t)
      \<and> entries_of (fold (\<lambda>e t. tree_insert (entry_path e) e t) es t) \<subseteq> entries_of t \<union> set es"
    if "tree_keys [] t" for t
    using that
  proof (induction es arbitrary: t)
    case Nil
    then show ?case by simp
  next
    case (Cons e es)
    have "tree_keys [] (tree_insert (entry_path e) e t)"
      using insert_tree_keys Cons.prems by (simp add: tree_insert_def)
    from Cons.IH [OF this] show ?case
      using insert_entries_subset [of "entry_parts e" e t] by (auto simp: tree_insert_def)
  qed
  from this [of "new_node True"] show ?thesis by (simp add: build_tree_def)
qed

lemma prune_entries_ordered:
  "sorted_wrt (\<lambda>a b. entry_parts a < entry_parts b) (prune_entries es)"
  unfolding prune_entries_def using flatten_sorted prune_tree_keys build_tree_any by blast

lemma prune_entries_files: "e \<in> set (prune_entries es) \<Longrightarrow> e \<in> set es \<and> \<not> is_dir e"
  unfolding prune_entries_def set_flatten
  using prune_entries_subset [of "build_tree es"] build_tree_any [of es] by blast

section \<open>Properties\<close>

lemma prune_entries_functional:
  assumes "distinct (map entry_parts es)" "files_are_leaves (set es)"
    and "\<forall>e \<in> set es. entry_parts e \<noteq> []"
  shows "prune_entries es = sort_key entry_parts (filter has_content es)"
proof -
  let ?t = "build_tree es"
  note facts = build_tree_facts [OF assms(1)]
  have root: "node_entry ?t = None"
  proof (rule ccontr)
    assume "node_entry ?t \<noteq> None"
    then obtain e where "node_entry ?t = Some e" by blast
    then have "e \<in> entries_of ?t" "entry_parts e = []"
      using facts(1) by (cases ?t; simp)+
    then show False using assms(3) facts(3) by blast
  qed
  have spec: "(fst (prune ?t) \<longrightarrow>
        {e \<in> entries_of (snd (prune ?t)). \<not> is_dir e} = {e \<in> entries_of ?t. has_content e})
      \<and> (\<not> fst (prune ?t) \<longrightarrow> {e \<in> entries_of ?t. has_content e} = {})"
    using prune_spec facts assms(2) by simp
  have dead: "entries_of (snd (prune ?t)) = {}" if "\<not> fst (prune ?t)"
    using that root facts(2) by (cases ?t) (auto simp: Let_def)
  have "{e \<in> entries_of (snd (prune ?t)). \<not> is_dir e} = {e \<in> entries_of ?t. has_content e}"
  proof (cases "fst (prune ?t)")
    case True
    with spec show ?thesis by blast
  next
    case False
    with spec dead show ?thesis by blast
  qed
  then have "set (prune_entries es) = set (filter has_content es)"
    by (simp add: prune_entries_def set_flatten facts(3))
  moreover have "sorted_wrt (<) (map entry_parts (prune_entries es))"
    using flatten_sorted [OF prune_tree_keys [OF facts(1)]]
    by (simp add: prune_entries_def sorted_wrt_map)
  moreover have "distinct (map entry_parts (filter has_content es))"
    using assms(1) by (simp add: distinct_map_filter)
  ultimately show ?thesis using sort_key_unique [of entry_parts] by metis
qed

text \<open>C12. On a listing that names each path once and never puts an entry below a file,
  \<^verbatim>\<open>prune_entries\<close> returns exactly the files that have content, ordered by path: building,
  pruning and flattening the tree computes a filter followed by a sort.\<close>

theorem prune_entries_is_filter_sort:
  assumes "distinct (map entry_parts es)" and "files_are_leaves (set es)"
    and "\<forall>e \<in> set es. entry_parts e \<noteq> []"
  shows "prune_entries es = sort_key entry_parts (filter has_content es)"
  using assms by (rule prune_entries_functional)

definition sample_listing :: "archive_entry list" where
  "sample_listing = [dir_entry (lit ''m''), file_entry (lit ''m/z.pak'') 9,
     file_entry (lit ''m/e.txt'') 0, file_entry (lit ''a.txt'') 3]"

theorem prune_entries_is_filter_sort_witness:
  "distinct (map entry_parts sample_listing) \<and> files_are_leaves (set sample_listing)
   \<and> prune_entries sample_listing = [file_entry (lit ''a.txt'') 3, file_entry (lit ''m/z.pak'') 9]"
proof -
  have parts: "map entry_parts sample_listing
      = [[lit ''m''], [lit ''m'', lit ''z.pak''], [lit ''m'', lit ''e.txt''], [lit ''a.txt'']]"
    by code_simp
  have d: "distinct (map entry_parts sample_listing)" unfolding parts by code_simp
  have l: "files_are_leaves (set sample_listing)" unfolding files_are_leaves_def by code_simp
  have n: "\<forall>e \<in> set sample_listing. entry_parts e \<noteq> []" by code_simp
  have "sort_key entry_parts (filter has_content sample_listing)
      = [file_entry (lit ''a.txt'') 3, file_entry (lit ''m/z.pak'') 9]"
    by code_simp
  then show ?thesis using d l prune_entries_is_filter_sort [OF d l n] by simp
qed

text \<open>The consistency hypothesis is needed: an archive that lists a folder as an empty file
  and also lists a file inside it loses that file, because the whole branch below an empty file
  is dropped with it.\<close>

theorem prune_entries_drops_below_empty_file:
  "prune_entries [file_entry (lit ''m'') 0, file_entry (lit ''m/body.pak'') 9] = []
   \<and> has_content (file_entry (lit ''m/body.pak'') 9)"
  by code_simp

end
