(* ===== verification/Checked_Path.thy ===== *)
theory Checked_Path
  imports Prelude
begin

text \<open>
  \<^verbatim>\<open>crates/core/src/utilities/checked_relative_path.rs\<close>: a relative path that cannot leave
  the directory it is resolved under. \<open>checked_new\<close> is the constructor, which rejects by the
  text of the path alone; \<open>resolve_under\<close> walks the file system below a root and refuses
  symbolic links. \<^verbatim>\<open>plain_file_component\<close> of \<^verbatim>\<open>title_filter.rs\<close>, which is
  derived from the constructor, is here too.

  The lemmas show that an accepted path resolves lexically to a place strictly below any root, that
  acceptance is exactly the portability of every component, that the constructor is idempotent, and
  that a resolved host path lies below the canonical root with no symbolic link on the way.
\<close>

section \<open>The constructor\<close>

datatype path_error =
    EmptyPath
  | NotRelative str
  | UnsafeComponent str
  | NonPortable str
  | ReservedComponent str

text \<open>The characters \<^verbatim>\<open>< > : \ " | ? *\<close> of the raw string in the source.\<close>

definition forbidden_chars :: str where
  "forbidden_chars = [60, 62, 58, 92, 34, 124, 63, 42]"

definition device_digits :: "str list" where
  "device_digits = [[49], [50], [51], [52], [53], [54], [55], [56], [57], [185], [178], [179]]"

definition component_stem :: "str \<Rightarrow> str" where
  "component_stem c = to_ascii_uppercase (hd (split_on (\<lambda>x. x = dot) c))"

definition reserved_stem :: "str \<Rightarrow> bool" where
  "reserved_stem stem \<longleftrightarrow>
     (let numbered = (case strip_prefix stem (lit ''COM'') of
            Some r \<Rightarrow> Some r | None \<Rightarrow> strip_prefix stem (lit ''LPT''))
      in stem \<in> set [lit ''CON'', lit ''PRN'', lit ''AUX'', lit ''NUL'']
         \<or> (case numbered of Some d \<Rightarrow> d \<in> set device_digits | None \<Rightarrow> False))"

definition check_component :: "str \<Rightarrow> path_error + unit" where
  "check_component c =
     (if c = [] \<or> c = [dot] \<or> c = [dot, dot] then Inl (UnsafeComponent c)
      else if ends_with c [dot] \<or> ends_with c [space]
              \<or> list_ex (\<lambda>x. is_control x \<or> x \<in> set forbidden_chars) c
        then Inl (NonPortable c)
      else if reserved_stem (component_stem c) then Inl (ReservedComponent c)
      else Inr ())"

abbreviation path_segments :: "str \<Rightarrow> str list" where
  "path_segments \<equiv> split_on (\<lambda>c. c = slash)"

definition checked_new :: "str \<Rightarrow> path_error + str" where
  "checked_new raw =
     (if raw = [] then Inl EmptyPath
      else let normalized = fwd raw in
        if starts_with normalized [slash] \<or> contains_str normalized [slash, slash]
        then Inl (NotRelative raw)
        else res_bind (fold_res (\<lambda>c _. check_component c) (path_segments normalized) ())
               (\<lambda>_. Inr normalized))"

text \<open>\<^verbatim>\<open>plain_file_component\<close>: the trimmed candidate, when it is one component.\<close>

definition plain_file_component :: "str \<Rightarrow> str option" where
  "plain_file_component candidate =
     (let c = trim candidate in
      case checked_new c of
        Inl _ \<Rightarrow> None
      | Inr checked \<Rightarrow> if length (path_segments checked) \<noteq> 1 then None else Some c)"

section \<open>Resolving below a root\<close>

datatype file_kind = RegularFile | Directory | Symlink | OtherFile
datatype io_error = NotFound | OtherIo str

text \<open>
  What the operating system answers about absolute paths, given as component lists:
  \<^verbatim>\<open>std::fs::symlink_metadata\<close> and \<^verbatim>\<open>canonicalize\<close>.
\<close>

record host_fs =
  symlink_metadata :: "str list \<Rightarrow> io_error + file_kind"
  canonicalize :: "str list \<Rightarrow> io_error + str list"

datatype resolve_error =
    InspectRoot io_error
  | RootIsSymlink
  | RootNotDirectory
  | CanonicalizeRoot io_error
  | TraversesSymlink "str list"
  | ParentNotDirectory "str list"
  | InspectFailed "str list" io_error
  | EscapedRoot

fun resolve_walk :: "host_fs \<Rightarrow> str list \<Rightarrow> str list \<Rightarrow> resolve_error + str list" where
  "resolve_walk fs resolved [] = Inr resolved"
| "resolve_walk fs resolved (c # cs) =
     (let r = resolved @ [c] in
      case symlink_metadata fs r of
        Inr k \<Rightarrow>
          if k = Symlink then Inl (TraversesSymlink r)
          else if cs \<noteq> [] \<and> k \<noteq> Directory then Inl (ParentNotDirectory r)
          else resolve_walk fs r cs
      | Inl NotFound \<Rightarrow> Inr (r @ cs)
      | Inl e \<Rightarrow> Inl (InspectFailed r e))"

definition resolve_under :: "host_fs \<Rightarrow> str \<Rightarrow> str list \<Rightarrow> resolve_error + str list" where
  "resolve_under fs p root =
     (case symlink_metadata fs root of
        Inl e \<Rightarrow> Inl (InspectRoot e)
      | Inr k \<Rightarrow>
          if k = Symlink then Inl RootIsSymlink
          else if k \<noteq> Directory then Inl RootNotDirectory
          else (case canonicalize fs root of
              Inl e \<Rightarrow> Inl (CanonicalizeRoot e)
            | Inr canonical_root \<Rightarrow>
                res_bind (resolve_walk fs canonical_root (path_segments p))
                  (\<lambda>resolved. if take (length canonical_root) resolved = canonical_root
                              then Inr resolved else Inl EscapedRoot)))"

section \<open>What acceptance means\<close>

text \<open>
  The property of a component the constructor demands, said without its order of tests: it is not
  a directory alias, ends in neither a dot nor a space, carries no control or reserved character, and
  its stem is not a device name in any capitalisation.
\<close>

definition portable_component :: "str \<Rightarrow> bool" where
  "portable_component c \<longleftrightarrow>
     c \<noteq> [] \<and> last c \<noteq> dot \<and> last c \<noteq> space
     \<and> (\<forall>x \<in> set c. \<not> is_control x \<and> x \<notin> set forbidden_chars)
     \<and> \<not> reserved_stem (component_stem c)"

lemma ends_with_single [simp]: "ends_with s [x] \<longleftrightarrow> s \<noteq> [] \<and> last s = x"
proof
  assume "ends_with s [x]"
  then show "s \<noteq> [] \<and> last s = x" by (auto simp: ends_with_iff)
next
  assume "s \<noteq> [] \<and> last s = x"
  then have "s = butlast s @ [x]" by auto
  then show "ends_with s [x]" unfolding ends_with_iff by blast
qed

lemma check_component_ok_iff: "check_component c = Inr () \<longleftrightarrow> portable_component c"
  by (auto simp: check_component_def portable_component_def list_ex_iff)

lemma fold_check_components_iff:
  "fold_res (\<lambda>c _. check_component c) cs () = Inr () \<longleftrightarrow> (\<forall>c \<in> set cs. portable_component c)"
  by (induction cs) (auto simp: res_bind_eq_Inr check_component_ok_iff)

lemma starts_with_slash_empty_segment:
  "starts_with s [slash] \<Longrightarrow> [] \<in> set (path_segments s)"
  by (auto simp: starts_with_iff)

lemma double_slash_empty_segment:
  assumes "contains_str s [slash, slash]"
  shows "[] \<in> set (path_segments s)"
proof -
  obtain a b where s: "s = a @ [slash, slash] @ b"
    using assms by (auto simp: contains_str_iff)
  have "[] \<in> set (path_segments (a @ [slash, slash] @ b))"
    by (simp add: split_on_append)
  then show ?thesis by (simp add: s)
qed

lemma not_portable_Nil [simp]: "\<not> portable_component []"
  by (simp add: portable_component_def)

text \<open>The acceptance condition: every segment of the normalised path is portable.\<close>

lemma checked_new_Inr_iff:
  "checked_new raw = Inr p \<longleftrightarrow>
     p = fwd raw \<and> (\<forall>c \<in> set (path_segments p). portable_component c)"
proof -
  have "\<exists>c \<in> set (path_segments (fwd raw)). \<not> portable_component c"
    if "raw = [] \<or> starts_with (fwd raw) [slash] \<or> contains_str (fwd raw) [slash, slash]"
    using that starts_with_slash_empty_segment double_slash_empty_segment
    by (metis not_portable_Nil list.set_intros(1) replace_char_Nil_iff split_on.simps(1))
  then show ?thesis
    by (auto simp: checked_new_def Let_def res_bind_eq_Inr fold_check_components_iff)
qed

lemma checked_new_no_backslash: "checked_new raw = Inr p \<Longrightarrow> backslash \<notin> set p"
  by (auto simp: checked_new_Inr_iff)

lemma portable_not_dots:
  "portable_component c \<Longrightarrow> c \<noteq> [] \<and> c \<noteq> [dot] \<and> c \<noteq> [dot, dot]"
  by (auto simp: portable_component_def)

text \<open>
  Lexical resolution, as a file system that follows every component would do it: an empty
  component and \<^verbatim>\<open>.\<close> stay, \<^verbatim>\<open>..\<close> goes up, anything else goes down.
\<close>

fun lexical_resolve :: "str list \<Rightarrow> str list \<Rightarrow> str list" where
  "lexical_resolve here [] = here"
| "lexical_resolve here (c # cs) =
     (if c = [] \<or> c = [dot] then lexical_resolve here cs
      else if c = [dot, dot] then lexical_resolve (butlast here) cs
      else lexical_resolve (here @ [c]) cs)"

lemma lexical_resolve_portable:
  "\<forall>c \<in> set cs. portable_component c \<Longrightarrow> lexical_resolve here cs = here @ cs"
  by (induction cs arbitrary: here) (auto dest: portable_not_dots)

lemma resolve_walk_result: "resolve_walk fs r cs = Inr r' \<Longrightarrow> r' = r @ cs"
  by (induction fs r cs rule: resolve_walk.induct)
     (auto simp: Let_def split: sum.splits if_splits io_error.splits)

text \<open>No step below the starting point goes through a symbolic link, and every component before
  the last is either a directory or does not exist yet.\<close>

lemma resolve_walk_no_symlink:
  "resolve_walk fs r cs = Inr r' \<Longrightarrow> 0 < n \<Longrightarrow> n \<le> length cs \<Longrightarrow>
     (\<forall>m < n. 0 < m \<longrightarrow> symlink_metadata fs (r @ take m cs) \<noteq> Inl NotFound) \<Longrightarrow>
     symlink_metadata fs (r @ take n cs) \<noteq> Inr Symlink
     \<and> (n < length cs \<longrightarrow> symlink_metadata fs (r @ take n cs) \<in> {Inr Directory, Inl NotFound})"
proof (induction fs r cs arbitrary: n rule: resolve_walk.induct)
  case (1 fs resolved)
  then show ?case by simp
next
  case (2 fs resolved c cs)
  show ?case
  proof (cases "n = 1")
    case True
    with "2.prems" show ?thesis
      by (auto simp: Let_def split: sum.splits if_splits io_error.splits)
  next
    case False
    then obtain k where n: "n = Suc k" and k: "0 < k" "k \<le> length cs"
      using "2.prems" by (cases n) auto
    have "symlink_metadata fs (resolved @ take 1 (c # cs)) \<noteq> Inl NotFound"
      using "2.prems"(4) k n by force
    then obtain kd where kd: "symlink_metadata fs (resolved @ [c]) = Inr kd"
      and notsym: "kd \<noteq> Symlink" and dir: "cs \<noteq> [] \<longrightarrow> kd = Directory"
      and walk: "resolve_walk fs (resolved @ [c]) cs = Inr r'"
      using "2.prems"(1) by (auto simp: Let_def split: sum.splits if_splits io_error.splits)
    have step: "\<forall>m < k. 0 < m \<longrightarrow> symlink_metadata fs ((resolved @ [c]) @ take m cs) \<noteq> Inl NotFound"
    proof (intro allI impI)
      fix m assume "m < k" "0 < m"
      then have "symlink_metadata fs (resolved @ take (Suc m) (c # cs)) \<noteq> Inl NotFound"
        using "2.prems"(4) n by blast
      then show "symlink_metadata fs ((resolved @ [c]) @ take m cs) \<noteq> Inl NotFound" by simp
    qed
    have "symlink_metadata fs ((resolved @ [c]) @ take k cs) \<noteq> Inr Symlink
       \<and> (k < length cs \<longrightarrow>
            symlink_metadata fs ((resolved @ [c]) @ take k cs) \<in> {Inr Directory, Inl NotFound})"
      using "2.IH" [OF refl kd notsym] dir walk k step by auto
    then show ?thesis using n by simp
  qed
qed

section \<open>Properties\<close>

text \<open>C8. A path the constructor accepts cannot lexically escape a root: resolving its components
  below any directory, with \<^verbatim>\<open>.\<close> and \<^verbatim>\<open>..\<close> followed, ends at that directory extended
  by exactly those components, and there is at least one.\<close>

theorem checked_path_contained:
  assumes "checked_new raw = Inr p"
  shows "lexical_resolve root (path_segments p) = root @ path_segments p
    \<and> path_segments p \<noteq> [] \<and> checked_new p = Inr p"
  using assms by (auto simp: checked_new_Inr_iff lexical_resolve_portable)

definition sample_raw :: str where
  "sample_raw = lit ''Mods'' @ [backslash] @ lit ''body.pak''"

theorem checked_path_contained_witness:
  "checked_new sample_raw = Inr (lit ''Mods/body.pak'')
   \<and> lexical_resolve [lit ''srv''] (path_segments (lit ''Mods/body.pak''))
       = [lit ''srv'', lit ''Mods'', lit ''body.pak'']"
proof -
  have h: "checked_new sample_raw = Inr (lit ''Mods/body.pak'')"
    by code_simp
  have "path_segments (lit ''Mods/body.pak'') = [lit ''Mods'', lit ''body.pak'']"
    by code_simp
  then show ?thesis
    using h checked_path_contained [OF h, of "[lit ''srv'']"] by simp
qed

text \<open>A file name derived from text the program does not control names one file in the
  directory it is joined onto: when \<^verbatim>\<open>plain_file_component\<close> returns a name, the name is the
  trimmed candidate, carries no separator of either kind, and is a portable component.\<close>

theorem plain_file_component_safe:
  assumes "plain_file_component candidate = Some c"
  shows "c = trim candidate \<and> slash \<notin> set c \<and> backslash \<notin> set c \<and> portable_component c"
proof -
  obtain checked where new: "checked_new c = Inr checked"
    and one: "length (path_segments checked) = 1" and c: "c = trim candidate"
    using assms by (auto simp: plain_file_component_def Let_def split: sum.splits if_splits)
  obtain w where w: "path_segments checked = [w]"
    using one by (cases "path_segments checked") auto
  have checked: "checked = w" using join_on_split_on [of slash checked] w by simp
  have "slash \<notin> set w" using split_on_segments [of w "\<lambda>c. c = slash" checked] w by auto
  moreover have w_fwd: "w = fwd c" and port: "portable_component w"
    using new w checked by (auto simp: checked_new_Inr_iff)
  ultimately have "backslash \<notin> set c \<and> slash \<notin> set c"
    by (auto simp: replace_char_def)
  moreover from this have "w = c" using w_fwd by (simp add: replace_char_id)
  ultimately show ?thesis using c port by simp
qed

theorem plain_file_component_safe_witness:
  "plain_file_component (lit '' Game v1.0 '') = Some (lit ''Game v1.0'')
   \<and> slash \<notin> set (lit ''Game v1.0'')"
proof -
  have h: "plain_file_component (lit '' Game v1.0 '') = Some (lit ''Game v1.0'')"
    by code_simp
  show ?thesis using h plain_file_component_safe [OF h] by blast
qed

text \<open>C9. A host path resolved below a root is the canonical root followed by the path's own
  components; as far as those components exist, none of them is a symbolic link and every one
  before the last is a directory.\<close>

theorem resolve_under_stays_below:
  assumes "resolve_under fs p root = Inr r"
  shows "\<exists>cr. canonicalize fs root = Inr cr \<and> r = cr @ path_segments p
    \<and> symlink_metadata fs root = Inr Directory
    \<and> (\<forall>n. 0 < n \<and> n \<le> length (path_segments p)
          \<and> (\<forall>m < n. 0 < m \<longrightarrow> symlink_metadata fs (cr @ take m (path_segments p)) \<noteq> Inl NotFound)
        \<longrightarrow> symlink_metadata fs (cr @ take n (path_segments p)) \<noteq> Inr Symlink
          \<and> (n < length (path_segments p) \<longrightarrow>
               symlink_metadata fs (cr @ take n (path_segments p)) \<in> {Inr Directory, Inl NotFound}))"
proof -
  obtain cr where root: "symlink_metadata fs root = Inr Directory" "canonicalize fs root = Inr cr"
    and walk: "resolve_walk fs cr (path_segments p) = Inr r"
    using assms by (auto simp: resolve_under_def res_bind_eq_Inr split: sum.splits if_splits)
  show ?thesis
    using root resolve_walk_result [OF walk] resolve_walk_no_symlink [OF walk] by auto
qed

text \<open>A host with one directory \<^verbatim>\<open>/srv/Mods\<close> and nothing else.\<close>

definition sample_fs :: host_fs where
  "sample_fs = \<lparr>symlink_metadata = (\<lambda>path.
       if path = [lit ''srv''] \<or> path = [lit ''srv'', lit ''Mods''] then Inr Directory
       else Inl NotFound),
     canonicalize = (\<lambda>path. Inr path)\<rparr>"

theorem resolve_under_stays_below_witness:
  "resolve_under sample_fs (lit ''Mods/body.pak'') [lit ''srv'']
     = Inr [lit ''srv'', lit ''Mods'', lit ''body.pak'']
   \<and> symlink_metadata sample_fs [lit ''srv''] = Inr Directory"
proof -
  have h: "resolve_under sample_fs (lit ''Mods/body.pak'') [lit ''srv'']
      = Inr [lit ''srv'', lit ''Mods'', lit ''body.pak'']"
    by code_simp
  show ?thesis using h resolve_under_stays_below [OF h] by blast
qed

end
