(* ===== verification/Plan_Builder.thy ===== *)
theory Plan_Builder
  imports Outputs Content_Root Path_Tree Checked_Path
begin

text \<open>
  The second half of resolving a layout, \<^verbatim>\<open>engine/plan_builder.rs\<close>, and the plan types of
  \<^verbatim>\<open>engine/mod.rs\<close>: filling a named output (placements, generated documents, downloads, the
  reasoning shown in a preview), assembling a plan and validating its paths.

  String slices of the source are taken at byte offsets; here at character offsets. They agree,
  because each slice is taken after a comparison that fixes the characters before it.
\<close>

section \<open>Plans\<close>

record pending_download =
  pd_product_id :: "str option"
  pd_url :: str
  pd_dest_path :: str
  pd_cache_key :: str
  pd_cached :: bool

record planned_output =
  root_folder :: str
  root_folder_template :: str
  moves :: "(str \<times> str) list"
  generated_files :: "(str \<times> str) list"
  downloads :: "pending_download list"
  resolved_variables :: "str \<rightharpoonup> str"
  reasoning :: "str list"

record organization_plan =
  plan_rule_name :: str
  plan_outputs :: "planned_output list"
  skipped_outputs :: "(str \<times> skip_reason) list"

definition staged_counts :: "planned_output \<Rightarrow> nat \<times> nat \<times> nat" where
  "staged_counts out = (length (moves out), length (generated_files out), length (downloads out))"

definition stages_nothing :: "planned_output \<Rightarrow> bool" where
  "stages_nothing out \<longleftrightarrow> staged_counts out = (0, 0, 0)"

definition plan_stages_nothing :: "planned_output list \<Rightarrow> bool" where
  "plan_stages_nothing outs \<longleftrightarrow> list_all stages_nothing outs"

datatype plan_error =
    LayoutFault layout_error
  | TitleFilterPanic
  | UnreachablePlacements nat nat
  | SameDestination str
  | MergeableDestinations str str
  | UnwrappedSibling nat nat
  | BadRootFolder path_error
  | BadMoveSource str path_error
  | BadMoveDestination str path_error
  | BadGeneratedPath str path_error
  | BadDownloadPath str path_error
  | DuplicateDestination str

text \<open>\<^verbatim>\<open>.with_context(...)\<close>: the same result with another error.\<close>

definition with_context :: "('e \<Rightarrow> 'f) \<Rightarrow> 'e + 'a \<Rightarrow> 'f + 'a" where
  "with_context f r = (case r of Inl e \<Rightarrow> Inl (f e) | Inr x \<Rightarrow> Inr x)"

lemma with_context_eq_Inr [simp, res_simps]: "with_context f r = Inr x \<longleftrightarrow> r = Inr x"
  by (cases r) (auto simp: with_context_def)

section \<open>Globs and directories\<close>

definition under_directory :: "str \<Rightarrow> str \<Rightarrow> bool" where
  "under_directory path pre \<longleftrightarrow>
     length path > length pre \<and> eq_ignore_ascii_case (take (length pre) path) pre
     \<and> path ! length pre = slash"

definition under_root :: "str \<Rightarrow> str \<Rightarrow> bool" where
  "under_root path root \<longleftrightarrow>
     length path > length root \<and> starts_with path root \<and> path ! length root = slash"

definition strip_directory :: "str \<Rightarrow> str \<Rightarrow> str" where
  "strip_directory path pre =
     (if pre = [] \<or> \<not> under_directory path pre then path else drop (length pre + 1) path)"

definition matches_glob :: "engine_env \<Rightarrow> str \<Rightarrow> str \<Rightarrow> bool" where
  "matches_glob env pattern path =
     (if pattern = lit ''**'' then True
      else if starts_with pattern (lit ''*.'')
      then ends_with (str_lower (tables env) path) (str_lower (tables env) (drop 1 pattern))
      else (case strip_suffix pattern (lit ''/**'') of
          Some directory \<Rightarrow> under_directory (fwd path) directory
        | None \<Rightarrow>
            if pattern = path then True
            else path_file_name (is_sep env) path = Some pattern))"

definition literal_directory_prefix :: "str \<Rightarrow> str" where
  "literal_directory_prefix glob =
     (case rsplit_once slash glob of
        None \<Rightarrow> []
      | Some (directories, _) \<Rightarrow>
          join_on slash (takeWhile (\<lambda>seg. star \<notin> set seg \<and> 63 \<notin> set seg)
            (split_on (\<lambda>c. c = slash) directories)))"

definition join_destination :: "str list \<Rightarrow> str" where
  "join_destination parts =
     fold (\<lambda>part joined. fold (\<lambda>seg j.
         if seg = [] \<or> seg = [dot] then j
         else (if j = [] then j else j @ [slash]) @ seg) (split_on is_separator part) joined) parts []"

record scoped_entry =
  sc_source :: str
  sc_relative :: archive_entry

definition scope_entries :: "str \<Rightarrow> archive_entry list \<Rightarrow> scoped_entry list" where
  "scope_entries raw_root entries =
     (let root = fwd raw_root in
      List.map_filter (\<lambda>e.
        if is_dir e then None
        else let path = fwd (entry_path e) in
          if root = [] then Some \<lparr>sc_source = entry_path e, sc_relative = e\<lparr>entry_path := path\<rparr>\<rparr>
          else if under_root path root
          then Some \<lparr>sc_source = entry_path e,
                     sc_relative = e\<lparr>entry_path := drop (length root + 1) path\<rparr>\<rparr>
          else None) entries)"

definition refuse_unreachable_placements :: "placement list \<Rightarrow> plan_error + unit" where
  "refuse_unreachable_placements place =
     fold_res (\<lambda>(index, pl) _.
         let after = length place - index - 1 in
         if pl_from pl = SourceAll \<and> after > 0 then Inl (UnreachablePlacements (index + 1) after)
         else Inr ()) (enumerate 0 place) ()"

definition claim_destination ::
  "unicode \<Rightarrow> str \<Rightarrow> (str \<rightharpoonup> str) \<Rightarrow> plan_error + (str \<rightharpoonup> str)" where
  "claim_destination u destination taken =
     (case taken (str_upper u destination) of
        None \<Rightarrow> Inr (taken(str_upper u destination \<mapsto> destination))
      | Some first \<Rightarrow>
          if first = destination then Inl (SameDestination destination)
          else Inl (MergeableDestinations first destination))"

section \<open>Reasoning lines\<close>

definition describe_source :: "engine_env \<Rightarrow> source_sel \<Rightarrow> str" where
  "describe_source env from =
     (case from of
        SourceAll \<Rightarrow> lit ''everything under the output's root''
      | SourceMatching glob \<Rightarrow> lit ''the glob '' @ debug_str env glob
      | SourceContentRoot \<Rightarrow> lit ''the content root'')"

definition describe_destination :: "str \<Rightarrow> str \<Rightarrow> str" where
  "describe_destination name into =
     (let destination = join_destination [name, into] in
      if destination = [] then lit ''the output's root'' else destination)"

definition count_files :: "nat \<Rightarrow> str" where
  "count_files n =
     (if n = 0 then lit ''nothing'' else if n = 1 then lit ''1 file''
      else nat_digits n @ lit '' files'')"

definition note_unset :: "engine_env \<Rightarrow> str \<Rightarrow> str \<Rightarrow> str list \<Rightarrow> str list" where
  "note_unset env what template unset =
     (if unset = [] then []
      else [lit ''the '' @ what @ lit '' '' @ debug_str env template @ lit '' needs ''
            @ join_comma (map (\<lambda>t. dollar # t) unset) @ lit '', which nothing set''])"

definition describe_content_root :: "detected_content_root \<Rightarrow> str" where
  "describe_content_root d =
     (let folder = (if dc_path d = [] then lit ''the output's root'' else dc_path d) in
      if dc_evidence d = []
      then lit ''nothing scored as a content root, so '' @ folder @ lit '' is the payload''
      else lit ''content root '' @ folder @ lit '' scored '' @ nat_digits (dc_score d) @ lit '' on ''
           @ join_comma (dc_evidence d))"

definition left_behind_line :: "str list \<Rightarrow> str list" where
  "left_behind_line left =
     (if left = [] then []
      else let shown = min (length left) 3; rest = length left - shown in
        [count_files (length left) @ lit '' matched no placement and ''
         @ (if length left = 1 then lit ''was'' else lit ''were'') @ lit '' not carried: ''
         @ join_comma (take shown left)
         @ (if rest > 0 then lit '', and '' @ nat_digits rest @ lit '' more'' else [])])"

section \<open>Filling one output\<close>

record fill_state =
  fs_claimed :: "bool list"
  fs_placed :: nat
  fs_moves :: "(str \<times> str) list"
  fs_dests :: "str \<rightharpoonup> str"
  fs_reasoning :: "str list"

text \<open>What a placement located, and the line content-root detection adds.\<close>

definition located_of :: "engine_env \<Rightarrow> scoped_entry list \<Rightarrow> source_sel \<Rightarrow> str \<times> str list" where
  "located_of env scoped from =
     (case from of
        SourceAll \<Rightarrow> ([], [])
      | SourceMatching glob \<Rightarrow> (literal_directory_prefix glob, [])
      | SourceContentRoot \<Rightarrow>
          let detected = detect_content_root env (map sc_relative scoped)
          in (fwd (dc_path detected), [describe_content_root detected]))"

definition source_matches :: "engine_env \<Rightarrow> source_sel \<Rightarrow> str \<Rightarrow> str \<Rightarrow> bool" where
  "source_matches env from located path =
     (case from of
        SourceAll \<Rightarrow> True
      | SourceMatching glob \<Rightarrow> matches_glob env glob path
      | SourceContentRoot \<Rightarrow> located = [] \<or> under_directory path located)"

definition place_file ::
  "engine_env \<Rightarrow> resolved_output \<Rightarrow> source_sel \<Rightarrow> str \<Rightarrow> str \<Rightarrow> nat \<times> scoped_entry \<Rightarrow> fill_state
    \<Rightarrow> plan_error + fill_state" where
  "place_file env out from located into indexed st =
     (case indexed of (index, file) \<Rightarrow>
        if fs_claimed st ! index then Inr st
        else let path = entry_path (sc_relative file) in
          if \<not> source_matches env from located path then Inr st
          else let destination = join_destination [ro_name out, into, strip_directory path located] in
            res_bind (claim_destination (tables env) destination (fs_dests st)) (\<lambda>dests.
              Inr (st\<lparr>fs_claimed := (fs_claimed st)[index := True], fs_placed := fs_placed st + 1,
                      fs_moves := fs_moves st @ [(sc_source file, destination)],
                      fs_dests := dests\<rparr>)))"

definition run_placement ::
  "engine_env \<Rightarrow> resolved_output \<Rightarrow> scoped_entry list \<Rightarrow> placement \<Rightarrow> fill_state
    \<Rightarrow> plan_error + fill_state" where
  "run_placement env out scoped pl st =
     (case (located_of env scoped (pl_from pl), expand (tables env) (pl_into pl) (ro_variables out)) of
        ((located, why), (into, unset)) \<Rightarrow>
          res_bind
            (fold_res (place_file env out (pl_from pl) located into) (enumerate 0 scoped)
              (st\<lparr>fs_placed := 0, fs_reasoning := fs_reasoning st @ why
                   @ note_unset env (lit ''destination'') (pl_into pl) unset\<rparr>))
            (\<lambda>st'. Inr (st'\<lparr>fs_reasoning := fs_reasoning st'
               @ [describe_source env (pl_from pl) @ lit '' placed '' @ count_files (fs_placed st')
                  @ lit '' into '' @ describe_destination (ro_name out) into]\<rparr>)))"

definition metadata_document :: "engine_env \<Rightarrow> game_metadata \<Rightarrow> str option" where
  "metadata_document env g =
     (if trim (metadata_json g) = [] then json_pretty env g else Some (metadata_json g))"

type_synonym side_state = "(str \<rightharpoonup> str) \<times> str list"

definition run_generated ::
  "engine_env \<Rightarrow> resolved_output \<Rightarrow> game_metadata option \<Rightarrow> generated
    \<Rightarrow> side_state \<times> (str \<times> str) list \<Rightarrow> plan_error + side_state \<times> (str \<times> str) list" where
  "run_generated env out gm gen st =
     (case st of ((dests, why), files) \<Rightarrow>
        (case gen_content gen of MetadataDocument \<Rightarrow>
           (case Option.bind gm (metadata_document env) of
              None \<Rightarrow> Inr st
            | Some document \<Rightarrow>
                (case expand (tables env) (gen_into gen) (ro_variables out) of (into, unset) \<Rightarrow>
                   let destination = join_destination [ro_name out, into] in
                   res_bind (claim_destination (tables env) destination dests) (\<lambda>dests'.
                     Inr ((dests', why @ note_unset env (lit ''generated file'') (gen_into gen) unset),
                          files @ [(destination, document)]))))))"

definition url_extension :: "engine_env \<Rightarrow> str \<Rightarrow> str" where
  "url_extension env url =
     (case path_extension (is_sep env) url of Some ext \<Rightarrow> ext | None \<Rightarrow> lit ''jpg'')"

definition screenshot_cache_key :: "game_metadata \<Rightarrow> nat \<Rightarrow> str" where
  "screenshot_cache_key g index =
     (if eq_ignore_ascii_case (gm_source g) (lit ''dlsite'')
      then lit ''dlsite:'' @ product_id g @ lit '':screenshot_'' @ nat_digits index
      else lit ''screenshot:'' @ product_id g @ lit '':'' @ nat_digits index)"

definition run_screenshot ::
  "engine_env \<Rightarrow> resolved_output \<Rightarrow> game_metadata \<Rightarrow> fetched \<Rightarrow> str \<Rightarrow> nat \<times> screenshot_data
    \<Rightarrow> side_state \<times> pending_download list \<Rightarrow> plan_error + side_state \<times> pending_download list" where
  "run_screenshot env out g fet into indexed st =
     (case (indexed, st) of ((index, shot), ((dests, why), dls)) \<Rightarrow>
        (case shot of
           ScreenshotUrl url \<Rightarrow>
             let vars = (ro_variables out)(lit ''index'' \<mapsto> pad_digits 3 (index + 1),
                   lit ''ext'' \<mapsto> url_extension env url) in
             (case expand (tables env) (fetch_name fet) vars of (name, unset) \<Rightarrow>
                let destination = join_destination [ro_name out, into, name] in
                res_bind (claim_destination (tables env) destination dests) (\<lambda>dests'.
                  Inr ((dests', why @ note_unset env (lit ''fetched file name'') (fetch_name fet) unset),
                    dls @ [\<lparr>pd_product_id = (if eq_ignore_ascii_case (gm_source g) (lit ''dlsite'')
                               then Some (product_id g) else None),
                            pd_url = url, pd_dest_path = destination,
                            pd_cache_key = screenshot_cache_key g index, pd_cached = False\<rparr>])))
         | _ \<Rightarrow> Inr st))"

definition run_fetched ::
  "engine_env \<Rightarrow> resolved_output \<Rightarrow> game_metadata option \<Rightarrow> fetched
    \<Rightarrow> side_state \<times> pending_download list \<Rightarrow> plan_error + side_state \<times> pending_download list" where
  "run_fetched env out gm fet st =
     (case st of ((dests, why), dls) \<Rightarrow>
        (case fetch_from fet of Screenshots \<Rightarrow>
           (case gm of
              None \<Rightarrow> Inr st
            | Some g \<Rightarrow>
                (case expand (tables env) (fetch_into fet) (ro_variables out) of (into, unset) \<Rightarrow>
                   fold_res (run_screenshot env out g fet into) (enumerate 0 (screenshots g))
                     ((dests, why @ note_unset env (lit ''fetch destination'') (fetch_into fet) unset),
                      dls)))))"

definition fill_output ::
  "engine_env \<Rightarrow> layout \<Rightarrow> resolved_output \<Rightarrow> archive_entry list \<Rightarrow> game_metadata option
    \<Rightarrow> plan_error + planned_output" where
  "fill_output env l out entries gm =
     res_bind (refuse_unreachable_placements (lay_place l)) (\<lambda>_.
     let scoped = scope_entries (ro_root out) entries in
     res_bind (fold_res (run_placement env out scoped) (lay_place l)
         \<lparr>fs_claimed = replicate (length scoped) False, fs_placed = 0, fs_moves = [],
          fs_dests = Map.empty, fs_reasoning = []\<rparr>) (\<lambda>st.
     let left = map (\<lambda>(file, _). entry_path (sc_relative file))
           (filter (\<lambda>(_, carried). \<not> carried) (zip scoped (fs_claimed st))) in
     res_bind (fold_res (run_generated env out gm) (lay_generate l)
         ((fs_dests st, fs_reasoning st @ left_behind_line left), [])) (\<lambda>(side, files).
     res_bind (fold_res (run_fetched env out gm) (lay_fetch l) (side, [])) (\<lambda>((dests, why), dls).
     Inr \<lparr>root_folder = ro_name out, root_folder_template = lay_name l, moves = fs_moves st,
          generated_files = files, downloads = dls, resolved_variables = ro_variables out,
          reasoning = first_seen [] why\<rparr>))))"

section \<open>The plan\<close>

definition collision_key :: "unicode \<Rightarrow> str \<Rightarrow> str" where
  "collision_key u p = str_upper u (fwd p)"

definition claim_plan_path :: "unicode \<Rightarrow> str \<Rightarrow> str set \<Rightarrow> plan_error + str set" where
  "claim_plan_path u p dests =
     (if collision_key u p \<in> dests then Inl (DuplicateDestination p)
      else Inr (insert (collision_key u p) dests))"

definition validate_move ::
  "unicode \<Rightarrow> str \<times> str \<Rightarrow> str set \<Rightarrow> plan_error + str set" where
  "validate_move u mv dests =
     (case mv of (source, destination) \<Rightarrow>
        res_bind (with_context (BadMoveSource source) (checked_new source)) (\<lambda>_.
        res_bind (with_context (BadMoveDestination destination) (checked_new destination)) (\<lambda>p.
        claim_plan_path u p dests)))"

definition validate_output ::
  "unicode \<Rightarrow> nat \<Rightarrow> nat \<times> planned_output \<Rightarrow> str set \<Rightarrow> plan_error + str set" where
  "validate_output u n indexed dests =
     (case indexed of (index, out) \<Rightarrow>
        res_bind
          (if root_folder out = []
           then (if n > 1 then Inl (UnwrappedSibling index n) else Inr [])
           else with_context BadRootFolder (checked_new (root_folder out))) (\<lambda>_.
        res_bind (fold_res (validate_move u) (moves out) dests) (\<lambda>dests.
        res_bind (fold_res (\<lambda>(path, _) ds.
            res_bind (with_context (BadGeneratedPath path) (checked_new path)) (\<lambda>p.
            claim_plan_path u p ds)) (generated_files out) dests) (\<lambda>dests.
        fold_res (\<lambda>dl ds.
            res_bind (with_context (BadDownloadPath (pd_dest_path dl)) (checked_new (pd_dest_path dl)))
              (\<lambda>p. claim_plan_path u p ds)) (downloads out) dests))))"

definition validate_paths :: "unicode \<Rightarrow> organization_plan \<Rightarrow> plan_error + unit" where
  "validate_paths u plan =
     res_bind (fold_res (validate_output u (length (plan_outputs plan)))
         (enumerate 0 (plan_outputs plan)) {}) (\<lambda>_. Inr ())"

definition report_outputs_that_carry_nothing ::
  "organization_plan \<Rightarrow> resolved_output list \<Rightarrow> organization_plan" where
  "report_outputs_that_carry_nothing plan located =
     plan\<lparr>plan_outputs := map fst (filter (\<lambda>(out, _). \<not> stages_nothing out)
            (zip (plan_outputs plan) located)),
          skipped_outputs := skipped_outputs plan
            @ map (\<lambda>(out, loc). (fwd (ro_root loc), StagesNothing (root_folder out)))
                (filter (\<lambda>(out, _). stages_nothing out) (zip (plan_outputs plan) located))\<rparr>"

definition create_plan ::
  "engine_env \<Rightarrow> organization_rule \<Rightarrow> str \<Rightarrow> archive_entry list \<Rightarrow> game_metadata option \<Rightarrow> read_entry
    \<Rightarrow> plan_error + organization_plan" where
  "create_plan env rule input_name all_entries gm read =
     (let entries = prune_entries all_entries;
          l = act_layout (actions rule);
          names_a_content_root = list_ex (\<lambda>pl. pl_from pl = SourceContentRoot) (lay_place l);
          content_root = (if names_a_content_root \<and> lay_outputs l = Whole
            then Some (find_game_content_root_in_entries env entries) else None)
      in
      res_bind (ok_or (build_metadata_map env rule input_name gm content_root) TitleFilterPanic) (\<lambda>base.
      res_bind (with_context LayoutFault (resolve_outputs (tables env) l entries base read)) (\<lambda>resolved.
      res_bind (map_res (\<lambda>out. fill_output env l out entries gm) (res_outputs resolved)) (\<lambda>outs.
      let plan = \<lparr>plan_rule_name = rule_name rule, plan_outputs = outs,
            skipped_outputs = res_skipped resolved\<rparr> in
      res_bind (validate_paths (tables env) plan) (\<lambda>_.
      Inr (report_outputs_that_carry_nothing plan (res_outputs resolved)))))))"

section \<open>The two claim loops\<close>

interpretation dests: claim_store "claim_destination u" "str_upper u" dom for u :: unicode
  by unfold_locales (auto simp: claim_destination_def split: option.splits if_splits)

interpretation plan_paths: claim_store "claim_plan_path u" "collision_key u" "\<lambda>s. s" for u :: unicode
  by unfold_locales (auto simp: claim_plan_path_def split: if_splits)

end
