(* ===== verification/Plan_Properties.thy ===== *)
theory Plan_Properties
  imports Plan_Builder
begin

text \<open>
  What a plan guarantees. The flag array and the loops of \<^verbatim>\<open>fill_output\<close> are shown equal to a
  routing by first matching placement; the claim loops give distinct destinations; and a plan that
  \<^verbatim>\<open>create_plan\<close> returns stays below its root, never carries a file twice and accounts for
  every output.
\<close>

section \<open>Routing by first match\<close>

definition placement_takes :: "engine_env \<Rightarrow> scoped_entry list \<Rightarrow> placement \<Rightarrow> scoped_entry \<Rightarrow> bool" where
  "placement_takes env scoped pl f =
     source_matches env (pl_from pl) (fst (located_of env scoped (pl_from pl)))
       (entry_path (sc_relative f))"

definition placement_dest ::
  "engine_env \<Rightarrow> resolved_output \<Rightarrow> scoped_entry list \<Rightarrow> placement \<Rightarrow> scoped_entry \<Rightarrow> str" where
  "placement_dest env out scoped pl f =
     join_destination [ro_name out, fst (expand (tables env) (pl_into pl) (ro_variables out)),
       strip_directory (entry_path (sc_relative f)) (fst (located_of env scoped (pl_from pl)))]"

text \<open>The specification: each placement in turn takes what it matches of what is left.\<close>

fun route ::
  "engine_env \<Rightarrow> resolved_output \<Rightarrow> scoped_entry list \<Rightarrow> placement list \<Rightarrow> scoped_entry list
    \<Rightarrow> (str \<times> str) list" where
  "route env out scoped [] files = []"
| "route env out scoped (pl # pls) files =
     map (\<lambda>f. (sc_source f, placement_dest env out scoped pl f))
       (filter (placement_takes env scoped pl) files)
     @ route env out scoped pls (filter (\<lambda>f. \<not> placement_takes env scoped pl f) files)"

definition unclaimed :: "scoped_entry list \<Rightarrow> bool list \<Rightarrow> scoped_entry list" where
  "unclaimed files flags = map fst (filter (\<lambda>p. \<not> snd p) (zip files flags))"

lemma unclaimed_simps [simp]:
  "unclaimed [] flags = []"
  "unclaimed (f # files) (c # flags) = (if c then unclaimed files flags else f # unclaimed files flags)"
  by (simp_all add: unclaimed_def)

lemma unclaimed_none: "unclaimed files (replicate (length files) False) = files"
  by (induction files) simp_all

lemma unclaimed_map2:
  "length flags = length files \<Longrightarrow>
     unclaimed files (map2 (\<lambda>f c. c \<or> M f) files flags) = filter (\<lambda>f. \<not> M f) (unclaimed files flags)"
  by (induction files flags rule: list_induct2') auto

lemma place_files_spec:
  assumes M_def: "M = (\<lambda>f. source_matches env src located (entry_path (sc_relative f)))"
    and D_def: "D = (\<lambda>f. join_destination [ro_name out, into,
      strip_directory (entry_path (sc_relative f)) located])"
    and "fold_res (place_file env out src located into) (enumerate n files) st = Inr st'"
    and "fs_claimed st = pre @ flags" "length pre = n" "length flags = length files"
  shows "fs_claimed st' = pre @ map2 (\<lambda>f c. c \<or> M f) files flags
    \<and> fs_moves st' = fs_moves st @ map (\<lambda>f. (sc_source f, D f)) (filter M (unclaimed files flags))
    \<and> fold_res (claim_destination (tables env)) (map D (filter M (unclaimed files flags))) (fs_dests st)
        = Inr (fs_dests st')"
  using assms(3-6)
proof (induction files arbitrary: n st pre flags)
  case Nil
  then show ?case by simp
next
  case (Cons f files)
  obtain c cs where flags: "flags = c # cs" using Cons.prems(4) by (cases flags) auto
  obtain st1 where one: "place_file env out src located into (n, f) st = Inr st1"
    and rest: "fold_res (place_file env out src located into) (enumerate (Suc n) files) st1 = Inr st'"
    using Cons.prems(1) by (auto simp: res_bind_eq_Inr)
  have at: "fs_claimed st ! n = c" using Cons.prems(2,3) flags by (simp add: nth_append)
  have len: "length cs = length files" using Cons.prems(4) flags by simp
  show ?case
  proof (cases "c \<or> \<not> M f")
    case True
    then have "st1 = st" using one at by (auto simp: place_file_def M_def Let_def split: if_splits)
    moreover have "fs_claimed st = (pre @ [c]) @ cs" using Cons.prems(2) flags by simp
    ultimately show ?thesis
      using Cons.IH [OF rest, of "pre @ [c]" cs] Cons.prems(3) len flags True by auto
  next
    case False
    then obtain d where d: "claim_destination (tables env) (D f) (fs_dests st) = Inr d"
      and st1: "st1 = st\<lparr>fs_claimed := (fs_claimed st)[n := True], fs_placed := fs_placed st + 1,
        fs_moves := fs_moves st @ [(sc_source f, D f)], fs_dests := d\<rparr>"
      using one at by (auto simp: place_file_def M_def D_def Let_def res_bind_eq_Inr split: if_splits)
    have "fs_claimed st1 = (pre @ [True]) @ cs"
      using Cons.prems(2,3) flags st1 by (simp add: list_update_append)
    then show ?thesis
      using Cons.IH [OF rest, of "pre @ [True]" cs] Cons.prems(3) len flags False d st1 by auto
  qed
qed

lemma run_placement_spec:
  assumes "run_placement env out scoped pl st = Inr st'" and "length (fs_claimed st) = length scoped"
  shows "length (fs_claimed st') = length scoped
    \<and> unclaimed scoped (fs_claimed st')
        = filter (\<lambda>f. \<not> placement_takes env scoped pl f) (unclaimed scoped (fs_claimed st))
    \<and> fs_moves st' = fs_moves st @ map (\<lambda>f. (sc_source f, placement_dest env out scoped pl f))
        (filter (placement_takes env scoped pl) (unclaimed scoped (fs_claimed st)))
    \<and> fold_res (claim_destination (tables env)) (map (placement_dest env out scoped pl)
        (filter (placement_takes env scoped pl) (unclaimed scoped (fs_claimed st)))) (fs_dests st)
        = Inr (fs_dests st')"
proof -
  obtain located why where loc: "located_of env scoped (pl_from pl) = (located, why)" by fastforce
  obtain into unset where ex: "expand (tables env) (pl_into pl) (ro_variables out) = (into, unset)"
    by fastforce
  obtain mid where run: "fold_res (place_file env out (pl_from pl) located into) (enumerate 0 scoped)
      (st\<lparr>fs_placed := 0, fs_reasoning := fs_reasoning st @ why
        @ note_unset env (lit ''destination'') (pl_into pl) unset\<rparr>) = Inr mid"
    and st': "fs_claimed st' = fs_claimed mid" "fs_moves st' = fs_moves mid"
      "fs_dests st' = fs_dests mid"
    using assms(1) by (auto simp: run_placement_def loc ex res_bind_eq_Inr)
  show ?thesis
    using place_files_spec [OF refl refl run, of "[]" "fs_claimed st"] assms(2)
    by (simp add: st' placement_takes_def [abs_def] placement_dest_def [abs_def] loc ex unclaimed_map2)
qed

lemma placements_spec:
  assumes "fold_res (run_placement env out scoped) pls st = Inr st'"
    and "length (fs_claimed st) = length scoped"
  shows "fs_moves st' = fs_moves st @ route env out scoped pls (unclaimed scoped (fs_claimed st))
    \<and> fold_res (claim_destination (tables env))
        (map snd (route env out scoped pls (unclaimed scoped (fs_claimed st)))) (fs_dests st)
        = Inr (fs_dests st')"
  using assms
proof (induction pls arbitrary: st)
  case Nil
  then show ?case by simp
next
  case (Cons pl pls)
  then obtain mid where one: "run_placement env out scoped pl st = Inr mid"
    and rest: "fold_res (run_placement env out scoped) pls mid = Inr st'"
    by (auto simp: res_bind_eq_Inr)
  note step = run_placement_spec [OF one Cons.prems(2)]
  show ?case using step Cons.IH [OF rest] by (simp add: fold_res_append o_def)
qed

section \<open>Destinations of one output\<close>

definition output_destinations :: "planned_output \<Rightarrow> str list" where
  "output_destinations out =
     map snd (moves out) @ map fst (generated_files out) @ map pd_dest_path (downloads out)"

lemma generated_claims:
  "fold_res (run_generated env out gm) gens ((d, w), files) = Inr ((d', w'), files') \<Longrightarrow>
     \<exists>new. files' = files @ new \<and> fold_res (claim_destination (tables env)) (map fst new) d = Inr d'"
proof (induction gens arbitrary: d w files)
  case Nil
  then show ?case by auto
next
  case (Cons g gens)
  then obtain d1 w1 files1 where one: "run_generated env out gm g ((d, w), files) = Inr ((d1, w1), files1)"
    and rest: "fold_res (run_generated env out gm) gens ((d1, w1), files1) = Inr ((d', w'), files')"
    by (auto simp: res_bind_eq_Inr)
  obtain new where new: "files' = files1 @ new"
    "fold_res (claim_destination (tables env)) (map fst new) d1 = Inr d'"
    using Cons.IH [OF rest] by blast
  have "(files1 = files \<and> d1 = d)
      \<or> (\<exists>p doc. files1 = files @ [(p, doc)] \<and> claim_destination (tables env) p d = Inr d1)"
    using one by (auto simp: run_generated_def Let_def res_bind_eq_Inr
        split: generated_content.splits option.splits prod.splits)
  then consider "files1 = files" "d1 = d"
    | p doc where "files1 = files @ [(p, doc)]" "claim_destination (tables env) p d = Inr d1"
    by blast
  then show ?case
  proof cases
    case 1
    then show ?thesis using new by blast
  next
    case 2
    then show ?thesis using new by (intro exI [of _ "(p, doc) # new"]) simp
  qed
qed

lemma screenshots_claims:
  "fold_res (run_screenshot env out g fet into) shots ((d, w), dls) = Inr ((d', w'), dls') \<Longrightarrow>
     \<exists>new. dls' = dls @ new
       \<and> fold_res (claim_destination (tables env)) (map pd_dest_path new) d = Inr d'"
proof (induction shots arbitrary: d w dls)
  case Nil
  then show ?case by auto
next
  case (Cons shot shots)
  then obtain d1 w1 dls1 where
    one: "run_screenshot env out g fet into shot ((d, w), dls) = Inr ((d1, w1), dls1)"
    and rest: "fold_res (run_screenshot env out g fet into) shots ((d1, w1), dls1)
      = Inr ((d', w'), dls')"
    by (auto simp: res_bind_eq_Inr)
  obtain new where new: "dls' = dls1 @ new"
    "fold_res (claim_destination (tables env)) (map pd_dest_path new) d1 = Inr d'"
    using Cons.IH [OF rest] by blast
  have "(dls1 = dls \<and> d1 = d)
      \<or> (\<exists>dl. dls1 = dls @ [dl] \<and> claim_destination (tables env) (pd_dest_path dl) d = Inr d1)"
    using one by (auto simp: run_screenshot_def Let_def res_bind_eq_Inr
        split: screenshot_data.splits prod.splits)
  then consider "dls1 = dls" "d1 = d"
    | dl where "dls1 = dls @ [dl]" "claim_destination (tables env) (pd_dest_path dl) d = Inr d1"
    by blast
  then show ?case
  proof cases
    case 1
    then show ?thesis using new by blast
  next
    case 2
    then show ?thesis using new by (intro exI [of _ "dl # new"]) simp
  qed
qed

lemma fetched_claims:
  "fold_res (run_fetched env out gm) fets ((d, w), dls) = Inr ((d', w'), dls') \<Longrightarrow>
     \<exists>new. dls' = dls @ new
       \<and> fold_res (claim_destination (tables env)) (map pd_dest_path new) d = Inr d'"
proof (induction fets arbitrary: d w dls)
  case Nil
  then show ?case by auto
next
  case (Cons fet fets)
  then obtain d1 w1 dls1 where
    one: "run_fetched env out gm fet ((d, w), dls) = Inr ((d1, w1), dls1)"
    and rest: "fold_res (run_fetched env out gm) fets ((d1, w1), dls1) = Inr ((d', w'), dls')"
    by (auto simp: res_bind_eq_Inr)
  have "\<exists>some. dls1 = dls @ some
      \<and> fold_res (claim_destination (tables env)) (map pd_dest_path some) d = Inr d1"
    using one screenshots_claims by (fastforce simp: run_fetched_def
        split: fetch_source.splits option.splits prod.splits)
  then obtain some where "dls1 = dls @ some"
    "fold_res (claim_destination (tables env)) (map pd_dest_path some) d = Inr d1" by blast
  moreover obtain new where "dls' = dls1 @ new"
    "fold_res (claim_destination (tables env)) (map pd_dest_path new) d1 = Inr d'"
    using Cons.IH [OF rest] by blast
  ultimately show ?case by (intro exI [of _ "some @ new"]) (simp add: fold_res_append)
qed

lemma fill_output_facts:
  assumes "fill_output env l out entries gm = Inr po"
  shows "moves po = route env out (scope_entries (ro_root out) entries) (lay_place l)
      (scope_entries (ro_root out) entries)"
    and "root_folder po = ro_name out"
    and "\<exists>taken. fold_res (claim_destination (tables env)) (output_destinations po) Map.empty = Inr taken"
proof -
  let ?scoped = "scope_entries (ro_root out) entries"
  let ?st0 = "\<lparr>fs_claimed = replicate (length ?scoped) False, fs_placed = 0, fs_moves = [],
    fs_dests = Map.empty, fs_reasoning = []\<rparr>"
  obtain st w files side d dls where
    pl: "fold_res (run_placement env out ?scoped) (lay_place l) ?st0 = Inr st"
    and gen: "fold_res (run_generated env out gm) (lay_generate l) ((fs_dests st, w), []) = Inr (side, files)"
    and fet: "fold_res (run_fetched env out gm) (lay_fetch l) (side, []) = Inr (d, dls)"
    and po: "moves po = fs_moves st" "generated_files po = files" "downloads po = dls"
      "root_folder po = ro_name out"
    using assms by (auto simp: fill_output_def Let_def res_bind_eq_Inr split: prod.splits)
  have moved: "fs_moves st = route env out ?scoped (lay_place l) ?scoped"
    "fold_res (claim_destination (tables env)) (map snd (route env out ?scoped (lay_place l) ?scoped))
       Map.empty = Inr (fs_dests st)"
    using placements_spec [OF pl] by (simp_all add: unclaimed_none)
  then show "moves po = route env out ?scoped (lay_place l) ?scoped" using po by simp
  show "root_folder po = ro_name out" using po by simp
  obtain sd sw where side: "side = (sd, sw)" by fastforce
  obtain dd dw where d: "d = (dd, dw)" by fastforce
  have "fold_res (claim_destination (tables env)) (map fst files) (fs_dests st) = Inr sd"
    using generated_claims [OF gen [unfolded side]] by simp
  moreover have "fold_res (claim_destination (tables env)) (map pd_dest_path dls) sd = Inr dd"
    using fetched_claims [OF fet [unfolded side d]] by simp
  ultimately show "\<exists>taken. fold_res (claim_destination (tables env)) (output_destinations po) Map.empty
      = Inr taken"
    using moved by (simp add: output_destinations_def po fold_res_append)
qed

section \<open>Properties of one output\<close>

text \<open>C3. A filled output carries exactly the files under its root that some placement matches, each
  once, where the first placement that matches it says, in placement order; and no two of its files,
  documents and downloads have destinations that agree after case folding.\<close>

theorem fill_output_routes_first_match:
  assumes "fill_output env l out entries gm = Inr po"
  shows "moves po = route env out (scope_entries (ro_root out) entries) (lay_place l)
      (scope_entries (ro_root out) entries)
    \<and> distinct (map (str_upper (tables env)) (output_destinations po))"
  using fill_output_facts [OF assms] dests.claims_taken by blast

definition art_layout :: layout where
  "art_layout = \<lparr>lay_outputs = Whole, lay_file_variables = [], lay_name = lit ''Out'',
     lay_place = [\<lparr>pl_from = SourceMatching (lit ''art/**''), pl_into = lit ''Extras''\<rparr>,
       \<lparr>pl_from = SourceAll, pl_into = []\<rparr>], lay_generate = [], lay_fetch = []\<rparr>"

definition art_entries :: "archive_entry list" where
  "art_entries = [file_entry (lit ''Art/a.png'') 5, file_entry (lit ''game.dat'') 9]"

definition art_output :: resolved_output where
  "art_output = \<lparr>ro_root = [], ro_name = lit ''Out'', ro_variables = Map.empty\<rparr>"

theorem fill_output_routes_first_match_witness:
  "\<exists>po. fill_output sample_env art_layout art_output art_entries None = Inr po
     \<and> moves po = [(lit ''Art/a.png'', lit ''Out/Extras/a.png''), (lit ''game.dat'', lit ''Out/game.dat'')]
     \<and> distinct (map (str_upper ascii_tables) (output_destinations po))"
proof -
  let ?run = "fill_output sample_env art_layout art_output art_entries None"
  have e: "(case ?run of Inr po \<Rightarrow> moves po = [(lit ''Art/a.png'', lit ''Out/Extras/a.png''),
      (lit ''game.dat'', lit ''Out/game.dat'')] | Inl _ \<Rightarrow> False)"
    by code_simp
  then obtain po where po: "?run = Inr po" by (auto split: sum.splits)
  have "tables sample_env = ascii_tables" by (simp add: sample_env_def)
  then show ?thesis using e po fill_output_routes_first_match [OF po] by auto
qed

section \<open>Scopes\<close>

definition in_scope :: "str \<Rightarrow> archive_entry \<Rightarrow> bool" where
  "in_scope root e \<longleftrightarrow> \<not> is_dir e \<and> (root = [] \<or> under_root (fwd (entry_path e)) root)"

lemma scope_sources:
  assumes "fwd root = root"
  shows "map sc_source (scope_entries root es) = map entry_path (filter (in_scope root) es)"
proof (induction es)
  case Nil
  then show ?case by (simp add: scope_entries_def map_filter_simps)
next
  case (Cons e es)
  then show ?case
    by (auto simp: scope_entries_def in_scope_def map_filter_simps Let_def assms)
qed

lemma under_root_iff: "under_root path root \<longleftrightarrow> (\<exists>rest. path = root @ slash # rest)"
proof
  assume "under_root path root"
  then obtain t where "path = root @ t" "t \<noteq> []" "(root @ t) ! length root = slash"
    by (auto simp: under_root_def starts_with_iff)
  then show "\<exists>rest. path = root @ slash # rest" by (cases t) auto
qed (auto simp: under_root_def starts_with_iff)

lemma scopes_disjoint:
  assumes "in_scope r1 e" "in_scope r2 e" "\<not> inside r1 r2" "\<not> inside r2 r1"
  shows "r1 = r2"
proof (cases "r1 = [] \<or> r2 = []")
  case True
  then show ?thesis using assms(3,4) by (auto simp: inside_def)
next
  case False
  then obtain x y where p: "fwd (entry_path e) = r1 @ slash # x" "fwd (entry_path e) = r2 @ slash # y"
    using assms(1,2) unfolding in_scope_def under_root_iff by blast
  then have "r1 @ slash # x = r2 @ slash # y" by simp
  then obtain us where "r1 = r2 @ us \<and> us @ slash # x = slash # y
      \<or> r1 @ us = r2 \<and> slash # x = us @ slash # y"
    by (auto simp: append_eq_append_conv2)
  then show ?thesis using assms(3,4) False
    by (cases us) (auto simp: inside_def)
qed

lemma route_sources:
  "distinct (map sc_source files) \<Longrightarrow>
     distinct (map fst (route env out scoped pls files))
     \<and> set (map fst (route env out scoped pls files)) \<subseteq> sc_source ` set files"
proof (induction pls arbitrary: files)
  case Nil
  then show ?case by simp
next
  case (Cons pl pls)
  let ?yes = "filter (placement_takes env scoped pl) files"
  let ?no = "filter (\<lambda>f. \<not> placement_takes env scoped pl f) files"
  have IH: "distinct (map fst (route env out scoped pls ?no))
      \<and> set (map fst (route env out scoped pls ?no)) \<subseteq> sc_source ` set ?no"
    using Cons.IH [of ?no] Cons.prems distinct_map_filter by blast
  have "sc_source ` set ?yes \<inter> sc_source ` set ?no = {}"
    using Cons.prems by (auto simp: distinct_map dest: inj_onD)
  moreover have "distinct (map sc_source ?yes)" using Cons.prems distinct_map_filter by blast
  moreover have "map fst (route env out scoped (pl # pls) files)
      = map sc_source ?yes @ map fst (route env out scoped pls ?no)" by simp
  moreover have "set (map sc_source ?yes) \<inter> set (map fst (route env out scoped pls ?no)) = {}"
    using IH \<open>sc_source ` set ?yes \<inter> sc_source ` set ?no = {}\<close> unfolding set_map by blast
  ultimately have "distinct (map fst (route env out scoped (pl # pls) files))" using IH by (simp add: o_def)
  moreover have "set (map fst (route env out scoped (pl # pls) files)) \<subseteq> sc_source ` set files"
    using IH by auto
  ultimately show ?case by blast
qed

lemma selected_root_fwd: "select_roots sel es = Inr roots \<Longrightarrow> r \<in> set roots \<Longrightarrow> fwd r = r"
proof -
  assume sel: "select_roots sel es = Inr roots" "r \<in> set roots"
  have "backslash \<notin> set r" if "root_of_marker m e = Some r" for m e
  proof -
    have "r = [] \<or> (\<exists>t. fwd (entry_path e) = r @ t)"
      using that by (auto simp: root_of_marker_def Let_def strip_suffix_eq_Some bind_eq_Some_conv
          split: if_splits)
    then show ?thesis using fwd_no_backslash [of "entry_path e"] by (auto simp del: fwd_no_backslash)
  qed
  then have "backslash \<notin> set r"
    using select_roots_facts(3) [OF sel(1)] sel(2) by (cases sel) auto
  then show ?thesis by (simp add: replace_char_id)
qed

section \<open>Validation\<close>

lemma validate_output_claims:
  assumes "validate_output u n (i, out) ds = Inr ds'"
  shows "fold_res (claim_plan_path u) (map fwd (output_destinations out)) ds = Inr ds'"
    and "\<forall>d \<in> set (output_destinations out). checked_new d = Inr (fwd d)"
    and "\<forall>(s, d) \<in> set (moves out). checked_new s = Inr (fwd s)"
    and "root_folder out = [] \<and> n \<le> 1 \<or> checked_new (root_folder out) = Inr (fwd (root_folder out))"
proof -
  let ?gen = "\<lambda>(path, _ :: str) ds. res_bind (with_context (BadGeneratedPath path) (checked_new path))
    (\<lambda>p. claim_plan_path u p ds)"
  let ?dl = "\<lambda>dl ds. res_bind (with_context (BadDownloadPath (pd_dest_path dl))
    (checked_new (pd_dest_path dl))) (\<lambda>p. claim_plan_path u p ds)"
  obtain ds1 ds2 where mv: "fold_res (validate_move u) (moves out) ds = Inr ds1"
    and gen: "fold_res ?gen (generated_files out) ds1 = Inr ds2"
    and dl: "fold_res ?dl (downloads out) ds2 = Inr ds'"
    and root: "root_folder out = [] \<and> n \<le> 1 \<or> (\<exists>p. checked_new (root_folder out) = Inr p)"
    using assms by (auto simp: validate_output_def res_bind_eq_Inr split: if_splits)
  have norm: "checked_new p = Inr q \<Longrightarrow> q = fwd p" for p q by (simp add: checked_new_Inr_iff)
  show "root_folder out = [] \<and> n \<le> 1 \<or> checked_new (root_folder out) = Inr (fwd (root_folder out))"
    using root norm by blast
  have "fold_res (claim_plan_path u) (concat (map (\<lambda>m. [fwd (snd m)]) (moves out))) ds = Inr ds1"
    by (rule fold_res_simulates [where h = "\<lambda>s. s", OF _ mv])
       (auto simp: validate_move_def res_bind_eq_Inr dest: norm)
  moreover have "fold_res (claim_plan_path u) (concat (map (\<lambda>g. [fwd (fst g)]) (generated_files out))) ds1
      = Inr ds2"
    by (rule fold_res_simulates [where h = "\<lambda>s. s", OF _ gen]) (auto simp: res_bind_eq_Inr dest: norm)
  moreover have "fold_res (claim_plan_path u) (concat (map (\<lambda>d. [fwd (pd_dest_path d)]) (downloads out)))
      ds2 = Inr ds'"
    by (rule fold_res_simulates [where h = "\<lambda>s. s", OF _ dl]) (auto simp: res_bind_eq_Inr dest: norm)
  ultimately show "fold_res (claim_plan_path u) (map fwd (output_destinations out)) ds = Inr ds'"
    by (simp add: output_destinations_def fold_res_append concat_map_singleton o_def)
  have "checked_new (snd m) = Inr (fwd (snd m)) \<and> checked_new (fst m) = Inr (fwd (fst m))"
    if "m \<in> set (moves out)" for m
    using fold_res_steps [OF mv that] norm by (cases m) (auto simp: validate_move_def res_bind_eq_Inr)
  moreover have "checked_new (fst g) = Inr (fwd (fst g))" if "g \<in> set (generated_files out)" for g
    using fold_res_steps [OF gen that] norm by (cases g) (auto simp: res_bind_eq_Inr)
  moreover have "checked_new (pd_dest_path d) = Inr (fwd (pd_dest_path d))"
    if "d \<in> set (downloads out)" for d
    using fold_res_steps [OF dl that] norm by (auto simp: res_bind_eq_Inr)
  ultimately show "\<forall>d \<in> set (output_destinations out). checked_new d = Inr (fwd d)"
    "\<forall>(s, d) \<in> set (moves out). checked_new s = Inr (fwd s)"
    by (fastforce simp: output_destinations_def)+
qed

definition plan_destinations :: "organization_plan \<Rightarrow> str list" where
  "plan_destinations plan = concat (map output_destinations (plan_outputs plan))"

lemma validate_paths_facts:
  assumes "validate_paths u plan = Inr ()"
  shows "distinct (map (collision_key u) (plan_destinations plan))"
    and "\<forall>out \<in> set (plan_outputs plan).
      (\<forall>d \<in> set (output_destinations out). checked_new d = Inr (fwd d))
      \<and> (\<forall>(s, d) \<in> set (moves out). checked_new s = Inr (fwd s))
      \<and> (root_folder out = [] \<and> length (plan_outputs plan) \<le> 1
         \<or> checked_new (root_folder out) = Inr (fwd (root_folder out)))"
proof -
  let ?n = "length (plan_outputs plan)"
  obtain t where run: "fold_res (validate_output u ?n) (enumerate 0 (plan_outputs plan)) {} = Inr t"
    using assms by (auto simp: validate_paths_def res_bind_eq_Inr)
  have "fold_res (claim_plan_path u)
      (concat (map (\<lambda>x. map fwd (output_destinations (snd x))) (enumerate 0 (plan_outputs plan)))) {} = Inr t"
    by (rule fold_res_simulates [where h = "\<lambda>s. s", OF _ run])
       (auto dest: validate_output_claims(1))
  moreover have "map (\<lambda>x. map fwd (output_destinations (snd x))) (enumerate 0 (plan_outputs plan))
      = map (\<lambda>x. map fwd (output_destinations x)) (map snd (enumerate 0 (plan_outputs plan)))"
    by (simp only: map_map o_def)
  ultimately have "fold_res (claim_plan_path u) (map fwd (plan_destinations plan)) {} = Inr t"
    by (simp add: plan_destinations_def map_concat o_def)
  then have "distinct (map (collision_key u) (map fwd (plan_destinations plan)))"
    using plan_paths.claims_taken by blast
  then show "distinct (map (collision_key u) (plan_destinations plan))"
    by (simp add: collision_key_def [abs_def] o_def)
  have "\<exists>i. (i, out) \<in> set (enumerate 0 (plan_outputs plan))" if "out \<in> set (plan_outputs plan)" for out
    using that by (metis (no_types, lifting) imageE list.set_map map_snd_enumerate prod.collapse)
  then show "\<forall>out \<in> set (plan_outputs plan).
      (\<forall>d \<in> set (output_destinations out). checked_new d = Inr (fwd d))
      \<and> (\<forall>(s, d) \<in> set (moves out). checked_new s = Inr (fwd s))
      \<and> (root_folder out = [] \<and> ?n \<le> 1
         \<or> checked_new (root_folder out) = Inr (fwd (root_folder out)))"
    using fold_res_steps [OF run] validate_output_claims(2-4) by meson
qed

section \<open>The whole plan\<close>

lemma create_plan_unfold:
  assumes "create_plan env rule name es gm read = Inr plan"
  obtains base resolved outs where
    "resolve_outputs (tables env) (act_layout (actions rule)) (prune_entries es) base read = Inr resolved"
    and "list_all2 (\<lambda>out po. fill_output env (act_layout (actions rule)) out (prune_entries es) gm = Inr po)
      (res_outputs resolved) outs"
    and "validate_paths (tables env) \<lparr>plan_rule_name = rule_name rule, plan_outputs = outs,
      skipped_outputs = res_skipped resolved\<rparr> = Inr ()"
    and "plan = report_outputs_that_carry_nothing \<lparr>plan_rule_name = rule_name rule,
      plan_outputs = outs, skipped_outputs = res_skipped resolved\<rparr> (res_outputs resolved)"
  using assms by (auto simp: create_plan_def Let_def res_bind_eq_Inr map_res_Inr_iff)

lemma kept_outputs:
  assumes "length (plan_outputs p) = length located"
  shows "plan_outputs (report_outputs_that_carry_nothing p located)
      = filter (\<lambda>out. \<not> stages_nothing out) (plan_outputs p)"
    and "length (plan_outputs (report_outputs_that_carry_nothing p located))
      + length (skipped_outputs (report_outputs_that_carry_nothing p located))
      = length located + length (skipped_outputs p)"
proof -
  have "map fst (filter (\<lambda>(out, _). \<not> stages_nothing out) (zip outs located))
      = filter (\<lambda>out. \<not> stages_nothing out) outs
    \<and> length (filter (\<lambda>out. \<not> stages_nothing out) outs)
      + length (filter (\<lambda>(out, _). stages_nothing out) (zip outs located)) = length located"
    if "length outs = length located" for outs
    using that by (induction outs located rule: list_induct2) auto
  from this [OF assms] show "plan_outputs (report_outputs_that_carry_nothing p located)
      = filter (\<lambda>out. \<not> stages_nothing out) (plan_outputs p)"
    "length (plan_outputs (report_outputs_that_carry_nothing p located))
      + length (skipped_outputs (report_outputs_that_carry_nothing p located))
      = length located + length (skipped_outputs p)"
    by (simp_all add: report_outputs_that_carry_nothing_def)
qed

lemma stages_nothing_empty:
  "stages_nothing out \<longleftrightarrow> moves out = [] \<and> generated_files out = [] \<and> downloads out = []"
  by (auto simp: stages_nothing_def staged_counts_def)

lemma kept_destinations:
  "concat (map output_destinations (filter (\<lambda>out. \<not> stages_nothing out) outs))
     = concat (map output_destinations outs)"
  by (rule concat_map_filter_Nil) (simp add: stages_nothing_empty output_destinations_def)

lemma kept_moves:
  "concat (map (\<lambda>out. map fst (moves out)) (filter (\<lambda>out. \<not> stages_nothing out) outs))
     = concat (map (\<lambda>out. map fst (moves out)) outs)"
  by (rule concat_map_filter_Nil) (simp add: stages_nothing_empty)

lemma output_sources:
  assumes "fill_output env l out es gm = Inr po" and "fwd (ro_root out) = ro_root out"
    and "distinct (map entry_path es)"
  shows "distinct (map fst (moves po))
    \<and> set (map fst (moves po)) \<subseteq> entry_path ` {e \<in> set es. in_scope (ro_root out) e}"
proof -
  let ?scoped = "scope_entries (ro_root out) es"
  have src: "map sc_source ?scoped = map entry_path (filter (in_scope (ro_root out)) es)"
    using scope_sources [OF assms(2)] .
  then have d: "distinct (map sc_source ?scoped)" using assms(3) by (simp add: distinct_map_filter)
  have "sc_source ` set ?scoped = entry_path ` {e \<in> set es. in_scope (ro_root out) e}"
    using arg_cong [OF src, of set] by simp
  then show ?thesis
    using route_sources [OF d, of env out ?scoped "lay_place l"] fill_output_facts(1) [OF assms(1)]
    by simp
qed

lemma plan_sources:
  assumes "resolve_outputs u l es base read = Inr r"
    and "list_all2 (\<lambda>out po. fill_output env l out es gm = Inr po) (res_outputs r) outs"
    and "distinct (map entry_path es)"
  shows "distinct (concat (map (\<lambda>out. map fst (moves out)) outs))
    \<and> set (concat (map (\<lambda>out. map fst (moves out)) outs)) \<subseteq> entry_path ` set es"
proof -
  obtain roots where sel: "select_roots (lay_outputs l) es = Inr roots"
    and acc: "mset (map ro_root (res_outputs r)) + mset (map fst (res_skipped r)) = mset roots"
    and sorted: "sorted_wrt (<) (map ro_root (res_outputs r))"
    using resolve_outputs_facts [OF assms(1)] by blast
  have roots: "ro_root out \<in> set roots" if "out \<in> set (res_outputs r)" for out
    using that arg_cong [OF acc, of set_mset] by auto
  note apart = select_roots_facts(2) [OF sel]
  define pick where "pick out = (THE po. fill_output env l out es gm = Inr po)" for out
  have "fill_output env l out es gm = Inr po \<Longrightarrow> pick out = po" for out po by (simp add: pick_def)
  then have outs: "outs = map pick (res_outputs r)"
    using assms(2) by (auto simp: list_all2_conv_all_nth intro!: nth_equalityI)
  have filled: "fill_output env l out es gm = Inr (pick out)" if "out \<in> set (res_outputs r)" for out
    using assms(2) that by (auto simp: outs list_all2_map2 list_all2_same)
  have src: "distinct (map fst (moves (pick out)))
      \<and> set (map fst (moves (pick out))) \<subseteq> entry_path ` {e \<in> set es. in_scope (ro_root out) e}"
    if "out \<in> set (res_outputs r)" for out
    using output_sources [OF filled [OF that] _ assms(3)] selected_root_fwd [OF sel roots [OF that]]
    by blast
  have "sorted_wrt (\<lambda>a b. set (map fst (moves (pick a))) \<inter> set (map fst (moves (pick b))) = {})
      (res_outputs r)"
  proof (rule sorted_wrt_mono_rel [of _ "\<lambda>a b. ro_root a < ro_root b"])
    show "sorted_wrt (\<lambda>a b. ro_root a < ro_root b) (res_outputs r)"
      using sorted by (simp add: sorted_wrt_map)
  next
    fix a b assume ab: "a \<in> set (res_outputs r)" "b \<in> set (res_outputs r)" "ro_root a < ro_root b"
    have inj: "inj_on entry_path (set es)" using assms(3) by (simp add: distinct_map)
    have "\<not> (in_scope (ro_root a) e \<and> in_scope (ro_root b) e)" for e
      using scopes_disjoint [of "ro_root a" e "ro_root b"] apart roots [OF ab(1)] roots [OF ab(2)] ab(3)
      by auto
    then have "entry_path ` {e \<in> set es. in_scope (ro_root a) e}
        \<inter> entry_path ` {e \<in> set es. in_scope (ro_root b) e} = {}"
      using inj by (auto dest: inj_onD)
    then show "set (map fst (moves (pick a))) \<inter> set (map fst (moves (pick b))) = {}"
      using src [OF ab(1)] src [OF ab(2)] by blast
  qed
  then have "distinct (concat (map (\<lambda>out. map fst (moves (pick out))) (res_outputs r)))"
    using src by (intro distinct_concat_map) blast+
  moreover have "set (map fst (moves (pick out))) \<subseteq> entry_path ` set es"
    if "out \<in> set (res_outputs r)" for out
    using src [OF that] by auto
  ultimately show ?thesis by (auto simp: outs o_def)
qed

lemma strict_sorted_imp_distinct_keys:
  assumes "sorted_wrt (\<lambda>a b. entry_parts a < entry_parts b) es"
  shows "distinct (map entry_path es)"
proof -
  have "sorted_wrt (<) (map entry_parts es)" using assms by (simp add: sorted_wrt_map)
  then have "distinct (map name_parts (map entry_path es))"
    by (simp add: strict_sorted_iff o_def)
  then show ?thesis using distinct_map by blast
qed

section \<open>Properties of a plan\<close>

text \<open>C1. A plan that is returned stays inside its work directory and overwrites nothing: every
  root folder, source and destination is an accepted relative path, no two destinations anywhere in
  the plan agree after separators and case are normalised, and every output it lists puts something on
  disk.\<close>

theorem create_plan_paths_safe:
  assumes "create_plan env rule name es gm read = Inr plan"
  shows "distinct (map (collision_key (tables env)) (plan_destinations plan))
    \<and> (\<forall>d \<in> set (plan_destinations plan). checked_new d = Inr (fwd d))
    \<and> (\<forall>out \<in> set (plan_outputs plan). \<not> stages_nothing out
        \<and> (\<forall>(s, d) \<in> set (moves out). checked_new s = Inr (fwd s))
        \<and> (root_folder out = [] \<or> checked_new (root_folder out) = Inr (fwd (root_folder out))))"
proof -
  obtain base resolved outs where
    res: "resolve_outputs (tables env) (act_layout (actions rule)) (prune_entries es) base read = Inr resolved"
    and fill: "list_all2 (\<lambda>out po. fill_output env (act_layout (actions rule)) out (prune_entries es) gm = Inr po)
      (res_outputs resolved) outs"
    and valid: "validate_paths (tables env) \<lparr>plan_rule_name = rule_name rule, plan_outputs = outs,
      skipped_outputs = res_skipped resolved\<rparr> = Inr ()"
    and plan: "plan = report_outputs_that_carry_nothing \<lparr>plan_rule_name = rule_name rule,
      plan_outputs = outs, skipped_outputs = res_skipped resolved\<rparr> (res_outputs resolved)"
    by (rule create_plan_unfold [OF assms])
  let ?p = "\<lparr>plan_rule_name = rule_name rule, plan_outputs = outs,
      skipped_outputs = res_skipped resolved\<rparr>"
  have "length (plan_outputs ?p) = length (res_outputs resolved)"
    using list_all2_lengthD [OF fill] by simp
  then have kept: "plan_outputs plan = filter (\<lambda>out. \<not> stages_nothing out) outs"
    using kept_outputs(1) [of ?p] plan by simp
  have "plan_destinations plan = plan_destinations ?p"
    by (simp add: plan_destinations_def kept kept_destinations)
  note ok = validate_paths_facts [OF valid]
  have "\<forall>d \<in> set (plan_destinations ?p). checked_new d = Inr (fwd d)"
    using ok(2) by (simp add: plan_destinations_def)
  moreover have "\<forall>out \<in> set (plan_outputs plan). \<not> stages_nothing out
        \<and> (\<forall>(s, d) \<in> set (moves out). checked_new s = Inr (fwd s))
        \<and> (root_folder out = [] \<or> checked_new (root_folder out) = Inr (fwd (root_folder out)))"
    using ok(2) unfolding kept by auto
  ultimately show ?thesis using ok(1) \<open>plan_destinations plan = plan_destinations ?p\<close> by simp
qed

definition pack_rule :: organization_rule where
  "pack_rule = sample_rule\<lparr>actions := \<lparr>output_name = None, act_layout = mod_layout\<rparr>\<rparr>"

abbreviation pack_run :: "plan_error + organization_plan" where
  "pack_run \<equiv> create_plan sample_env pack_rule (lit ''pack.zip'') two_mods None two_mods_read"

definition pack_destinations :: "str list" where
  "pack_destinations = [lit ''Alpha/body.pak'', lit ''Alpha/modinfo.ini'']"

theorem create_plan_paths_safe_witness:
  "\<exists>plan. pack_run = Inr plan \<and> plan_destinations plan = pack_destinations
     \<and> distinct (map (collision_key ascii_tables) pack_destinations)"
proof -
  have e: "(case pack_run of Inr plan \<Rightarrow> plan_destinations plan = pack_destinations | Inl _ \<Rightarrow> False)"
    by code_simp
  then obtain plan where plan: "pack_run = Inr plan" by (auto split: sum.splits)
  have "tables sample_env = ascii_tables" by (simp add: sample_env_def)
  then show ?thesis using e plan create_plan_paths_safe [OF plan] by auto
qed

text \<open>C2. A plan never carries a file twice: the sources of all moves of all outputs are pairwise
  different, and each is a file of the archive.\<close>

theorem create_plan_carries_files_once:
  assumes "create_plan env rule name es gm read = Inr plan"
  shows "distinct (concat (map (\<lambda>out. map fst (moves out)) (plan_outputs plan)))
    \<and> set (concat (map (\<lambda>out. map fst (moves out)) (plan_outputs plan)))
        \<subseteq> entry_path ` {e \<in> set es. \<not> is_dir e}"
proof -
  obtain base resolved outs where
    res: "resolve_outputs (tables env) (act_layout (actions rule)) (prune_entries es) base read = Inr resolved"
    and fill: "list_all2 (\<lambda>out po. fill_output env (act_layout (actions rule)) out (prune_entries es) gm = Inr po)
      (res_outputs resolved) outs"
    and valid: "validate_paths (tables env) \<lparr>plan_rule_name = rule_name rule, plan_outputs = outs,
      skipped_outputs = res_skipped resolved\<rparr> = Inr ()"
    and plan: "plan = report_outputs_that_carry_nothing \<lparr>plan_rule_name = rule_name rule,
      plan_outputs = outs, skipped_outputs = res_skipped resolved\<rparr> (res_outputs resolved)"
    by (rule create_plan_unfold [OF assms])
  let ?p = "\<lparr>plan_rule_name = rule_name rule, plan_outputs = outs,
      skipped_outputs = res_skipped resolved\<rparr>"
  have "length (plan_outputs ?p) = length (res_outputs resolved)"
    using list_all2_lengthD [OF fill] by simp
  then have "plan_outputs plan = filter (\<lambda>out. \<not> stages_nothing out) outs"
    using kept_outputs(1) [of ?p] plan by simp
  moreover have "distinct (map entry_path (prune_entries es))"
    using prune_entries_ordered [of es] strict_sorted_imp_distinct_keys by blast
  ultimately show ?thesis
    using plan_sources [OF res fill] by (simp only: kept_moves) (blast dest: prune_entries_files)
qed

theorem create_plan_carries_files_once_witness:
  "\<exists>plan. pack_run = Inr plan
     \<and> concat (map (\<lambda>out. map fst (moves out)) (plan_outputs plan))
         = [lit ''A/body.pak'', lit ''A/modinfo.ini'']
     \<and> distinct (concat (map (\<lambda>out. map fst (moves out)) (plan_outputs plan)))"
proof -
  have e: "(case pack_run of Inr plan \<Rightarrow> concat (map (\<lambda>out. map fst (moves out)) (plan_outputs plan))
      = [lit ''A/body.pak'', lit ''A/modinfo.ini''] | Inl _ \<Rightarrow> False)"
    by code_simp
  then obtain plan where plan: "pack_run = Inr plan" by (auto split: sum.splits)
  then show ?thesis using e create_plan_carries_files_once [OF plan] by simp
qed



end
