(* ===== verification/Application_Error.thy ===== *)
theory Application_Error
  imports Archive_Entry
begin

text \<open>
  \<^verbatim>\<open>crates/app/src/error.rs\<close>: the error envelope every fallible facade method returns. The
  constructor and the builder methods are functions on a record; the process-wide correlation counter
  is an argument of the constructor. The lemmas show the two promises the builders make, of every
  error that can be built with them.
\<close>

datatype application_error_kind =
    Backend | Busy | CancelledKind | Conflict | ExternalToolMissing | Internal | InvalidInput
  | NotFoundKind | PasswordRequired | PermissionDenied | Persistence | Plugin | Unsupported

datatype recoverability = Retry | UserAction | Fatal

datatype suggested_action =
    CheckPermissions | ChooseDestination | InstallExternalTool | RetryAction | SupplyPassword

record application_error =
  err_kind :: application_error_kind
  err_summary :: str
  err_diagnostic :: "str option"
  err_recoverability :: recoverability
  err_retryable :: bool
  err_suggested_action :: "suggested_action option"
  err_correlation_id :: u64
  err_operation_id :: "u64 option"
  err_archive_session_id :: "u64 option"
  err_entry_id :: "u64 option"
  err_path :: "str option"
  err_field :: "str option"

section \<open>Diagnostics\<close>

definition MAX_DIAGNOSTIC_BYTES :: nat where
  "MAX_DIAGNOSTIC_BYTES = 4096"

definition TRUNCATION_MARKER :: str where
  "TRUNCATION_MARKER = lit ''... [truncated]''"

text \<open>The loop that walks back to a character boundary finds the longest prefix of whole characters
  within the byte budget.\<close>

fun take_bytes :: "nat \<Rightarrow> str \<Rightarrow> str" where
  "take_bytes n [] = []"
| "take_bytes n (c # cs) = (if utf8_width c \<le> n then c # take_bytes (n - utf8_width c) cs else [])"

definition truncate_diagnostic :: "str \<Rightarrow> str" where
  "truncate_diagnostic txt =
     (if str_len txt \<le> MAX_DIAGNOSTIC_BYTES then txt
      else take_bytes (min (MAX_DIAGNOSTIC_BYTES - str_len TRUNCATION_MARKER) (str_len txt)) txt
           @ TRUNCATION_MARKER)"

definition redact_path_like_tokens :: "str \<Rightarrow> str" where
  "redact_path_like_tokens txt =
     join_on space (map (\<lambda>token. if slash \<in> set token \<or> backslash \<in> set token
         then lit ''<redacted-path>'' else token)
       (filter (\<lambda>w. w \<noteq> []) (split_on is_whitespace txt)))"

section \<open>Building an error\<close>

definition new_error :: "u64 \<Rightarrow> application_error_kind \<Rightarrow> str \<Rightarrow> application_error" where
  "new_error correlation kind summary =
     \<lparr>err_kind = kind, err_summary = summary, err_diagnostic = None, err_recoverability = Fatal,
      err_retryable = False, err_suggested_action = None, err_correlation_id = correlation,
      err_operation_id = None, err_archive_session_id = None, err_entry_id = None, err_path = None,
      err_field = None\<rparr>"

definition with_diagnostic :: "str \<Rightarrow> application_error \<Rightarrow> application_error" where
  "with_diagnostic d e = e\<lparr>err_diagnostic := Some (truncate_diagnostic (redact_path_like_tokens d))\<rparr>"

definition with_recoverability :: "recoverability \<Rightarrow> application_error \<Rightarrow> application_error" where
  "with_recoverability r e = e\<lparr>err_retryable := (r = Retry), err_recoverability := r\<rparr>"

definition with_suggested_action :: "suggested_action \<Rightarrow> application_error \<Rightarrow> application_error" where
  "with_suggested_action a e = e\<lparr>err_suggested_action := Some a\<rparr>"

definition with_operation_id :: "u64 \<Rightarrow> application_error \<Rightarrow> application_error" where
  "with_operation_id i e = e\<lparr>err_operation_id := Some i\<rparr>"

definition with_archive_session_id :: "u64 \<Rightarrow> application_error \<Rightarrow> application_error" where
  "with_archive_session_id i e = e\<lparr>err_archive_session_id := Some i\<rparr>"

definition with_entry_id :: "u64 \<Rightarrow> application_error \<Rightarrow> application_error" where
  "with_entry_id i e = e\<lparr>err_entry_id := Some i\<rparr>"

definition with_path :: "str \<Rightarrow> application_error \<Rightarrow> application_error" where
  "with_path p e = e\<lparr>err_path := Some p\<rparr>"

definition with_field :: "str \<Rightarrow> application_error \<Rightarrow> application_error" where
  "with_field f e = e\<lparr>err_field := Some f\<rparr>"

definition archive_not_found :: "u64 \<Rightarrow> str \<Rightarrow> application_error" where
  "archive_not_found correlation path =
     with_path path (with_recoverability Fatal
       (new_error correlation NotFoundKind (lit ''no such archive file'')))"

lemmas error_builders =
  new_error_def with_diagnostic_def with_recoverability_def with_suggested_action_def
  with_operation_id_def with_archive_session_id_def with_entry_id_def with_path_def with_field_def
  archive_not_found_def

text \<open>Every error the constructor and the builders can produce.\<close>

inductive built_error :: "application_error \<Rightarrow> bool" where
  built_new: "built_error (new_error correlation kind summary)"
| built_not_found: "built_error (archive_not_found correlation path)"
| built_diagnostic: "built_error e \<Longrightarrow> built_error (with_diagnostic d e)"
| built_recoverability: "built_error e \<Longrightarrow> built_error (with_recoverability r e)"
| built_suggested_action: "built_error e \<Longrightarrow> built_error (with_suggested_action a e)"
| built_operation_id: "built_error e \<Longrightarrow> built_error (with_operation_id i e)"
| built_archive_session_id: "built_error e \<Longrightarrow> built_error (with_archive_session_id i e)"
| built_entry_id: "built_error e \<Longrightarrow> built_error (with_entry_id i e)"
| built_path: "built_error e \<Longrightarrow> built_error (with_path p e)"
| built_field: "built_error e \<Longrightarrow> built_error (with_field f e)"

section \<open>Lemmas\<close>

lemma take_bytes_bound: "str_len (take_bytes n s) \<le> n"
  by (induction n s rule: take_bytes.induct) (auto simp: str_len_def)

lemma set_take_bytes: "set (take_bytes n s) \<subseteq> set s"
  by (induction n s rule: take_bytes.induct) auto

lemma truncate_diagnostic_bound: "str_len (truncate_diagnostic s) \<le> MAX_DIAGNOSTIC_BYTES"
proof -
  have m: "str_len TRUNCATION_MARKER = 15" by code_simp
  have "str_len (take_bytes (min (MAX_DIAGNOSTIC_BYTES - str_len TRUNCATION_MARKER) (str_len s)) s)
      \<le> MAX_DIAGNOSTIC_BYTES - str_len TRUNCATION_MARKER"
    using take_bytes_bound by (meson min.cobounded1 order_trans)
  then show ?thesis by (auto simp: truncate_diagnostic_def m MAX_DIAGNOSTIC_BYTES_def)
qed

lemma redacted_no_separator:
  "slash \<notin> set (redact_path_like_tokens s)" "backslash \<notin> set (redact_path_like_tokens s)"
  using set_join_on [of space "map (\<lambda>token. if slash \<in> set token \<or> backslash \<in> set token
      then lit ''<redacted-path>'' else token) (filter (\<lambda>w. w \<noteq> []) (split_on is_whitespace s))"]
  by (auto simp: redact_path_like_tokens_def split: if_splits)

lemma truncate_no_separator:
  "slash \<notin> set s \<Longrightarrow> slash \<notin> set (truncate_diagnostic s)"
  "backslash \<notin> set s \<Longrightarrow> backslash \<notin> set (truncate_diagnostic s)"
  using set_take_bytes [of "min (MAX_DIAGNOSTIC_BYTES - str_len TRUNCATION_MARKER) (str_len s)" s]
  by (auto simp: truncate_diagnostic_def TRUNCATION_MARKER_def)

section \<open>Properties\<close>

text \<open>An error built with the constructor and the builders, in any order and number, says that
  it is retryable exactly when its recoverability is Retry, and its diagnostic is at most four
  kibibytes of text that contains no path separator.\<close>

theorem built_error_invariant:
  assumes "built_error e"
  shows "(err_retryable e \<longleftrightarrow> err_recoverability e = Retry)
    \<and> (case err_diagnostic e of None \<Rightarrow> True
        | Some d \<Rightarrow> str_len d \<le> 4096 \<and> slash \<notin> set d \<and> backslash \<notin> set d)"
  using assms
proof induction
  case (built_diagnostic e d)
  then show ?case
    using truncate_diagnostic_bound redacted_no_separator truncate_no_separator
    by (simp add: error_builders MAX_DIAGNOSTIC_BYTES_def)
qed (auto simp: error_builders)

theorem built_error_invariant_witness:
  "\<exists>d. err_diagnostic (with_diagnostic (lit ''open /home/u/a.zip failed'')
        (with_recoverability Retry (new_error 7 Backend (lit ''extract'')))) = Some d
     \<and> d = lit ''open <redacted-path> failed'' \<and> str_len d \<le> 4096"
proof -
  let ?e = "with_diagnostic (lit ''open /home/u/a.zip failed'')
    (with_recoverability Retry (new_error 7 Backend (lit ''extract'')))"
  have b: "built_error ?e" by (intro built_error.intros)
  have "err_diagnostic ?e = Some (lit ''open <redacted-path> failed'')" by code_simp
  then show ?thesis using built_error_invariant [OF b] by auto
qed

end
