(* ===== verification/Operation_Registry.thy ===== *)
theory Operation_Registry
  imports Application_Error
begin

text \<open>
  \<^verbatim>\<open>crates/app/src/operations/registry.rs\<close> with the event, challenge and snapshot types: the
  registry every in-flight operation is tracked through. Each critical section under the record lock
  is one function on the registry state; the public methods compose them as the source does, and an
  inductive step relation interleaves them arbitrarily, the way concurrent callers do.

  The broadcast channel belongs to tokio. What the registry sends on it is kept in order in
  \<open>reg_events\<close>, so ordering and loss are visible. The map of records is an association list with
  distinct keys. Identifiers and sequence numbers are 64-bit words.

  The lemmas show that, below the point where a 64-bit counter would wrap, the events of an operation
  are numbered without gap and end at the first terminal one, and that no active operation is dropped.
\<close>

section \<open>Events and challenges\<close>

datatype operation_kind =
    ArchiveModify | ConvertOp | DragStage | Extract | Materialize | Merge | OpenArchive | Organize
  | Pipeline | PluginAction

datatype challenge =
    PasswordChallenge u64 str nat
  | ConfirmOverwrite u64 str
  | ConfirmDestructiveAction u64 str
  | MissingExternalTool u64 str
  | RetryPermission u64 str

fun challenge_id :: "challenge \<Rightarrow> u64" where
  "challenge_id (PasswordChallenge i _ _) = i"
| "challenge_id (ConfirmOverwrite i _) = i"
| "challenge_id (ConfirmDestructiveAction i _) = i"
| "challenge_id (MissingExternalTool i _) = i"
| "challenge_id (RetryPermission i _) = i"

text \<open>The payloads of a finished operation are data of other components; they are carried through.\<close>

datatype operation_result = ResultNone | ResultPayload str

datatype operation_state =
    Accepted
  | Started
  | Progress u64 "u64 option" "str option"
  | Challenge challenge
  | SnapshotChanged u64 u64
  | Completed operation_result
  | Cancelled
  | Failed application_error

record operation_event =
  ev_operation_id :: u64
  ev_sequence :: u64
  ev_kind :: operation_kind
  ev_state :: operation_state

record operation_snapshot =
  snap_operation_id :: u64
  snap_kind :: operation_kind
  snap_last_sequence :: u64
  snap_state :: operation_state

record operation_record =
  rec_kind :: operation_kind
  last_sequence :: u64
  rec_state :: operation_state
  rec_cancel :: bool
  pending_challenge :: "u64 option"

definition snapshot :: "u64 \<Rightarrow> operation_record \<Rightarrow> operation_snapshot" where
  "snapshot i r = \<lparr>snap_operation_id = i, snap_kind = rec_kind r,
     snap_last_sequence = last_sequence r, snap_state = rec_state r\<rparr>"

fun is_terminal :: "operation_state \<Rightarrow> bool" where
  "is_terminal (Completed _) = True"
| "is_terminal Cancelled = True"
| "is_terminal (Failed _) = True"
| "is_terminal _ = False"

section \<open>The registry\<close>

definition MAX_TERMINAL_HISTORY :: nat where
  "MAX_TERMINAL_HISTORY = 256"

record registry =
  next_id :: u64
  minted :: "u64 list"
  records :: "(u64 \<times> operation_record) list"
  reg_events :: "operation_event list"

definition new_registry :: registry where
  "new_registry = \<lparr>next_id = 1, minted = [], records = [], reg_events = []\<rparr>"

definition publish ::
  "u64 \<Rightarrow> operation_kind \<Rightarrow> u64 \<Rightarrow> operation_state \<Rightarrow> registry \<Rightarrow> registry" where
  "publish i kind sequence state reg =
     reg\<lparr>reg_events := reg_events reg @ [\<lparr>ev_operation_id = i, ev_sequence = sequence,
        ev_kind = kind, ev_state = state\<rparr>]\<rparr>"

text \<open>The static counter, bumped before the lock is taken: an identifier is minted and for a while
  known to its caller only.\<close>

definition next_operation_id :: "registry \<Rightarrow> u64 \<times> registry" where
  "next_operation_id reg =
     (next_id reg, reg\<lparr>next_id := next_id reg + 1, minted := next_id reg # minted reg\<rparr>)"

definition begin_locked :: "u64 \<Rightarrow> operation_kind \<Rightarrow> registry \<Rightarrow> registry" where
  "begin_locked i kind reg =
     publish i kind 1 Accepted
       (reg\<lparr>minted := remove1 i (minted reg),
            records := AList.update i \<lparr>rec_kind = kind, last_sequence = 1, rec_state = Accepted,
              rec_cancel = False, pending_challenge = None\<rparr> (records reg)\<rparr>)"

definition begin_op :: "operation_kind \<Rightarrow> registry \<Rightarrow> u64 \<times> registry" where
  "begin_op kind reg =
     (case next_operation_id reg of (i, reg') \<Rightarrow> (i, begin_locked i kind reg'))"

datatype registry_error = UnknownOperation u64 | ChallengeMismatch u64

text \<open>The critical section of \<^verbatim>\<open>transition\<close>: the record and its event change together.\<close>

definition transition_locked ::
  "u64 \<Rightarrow> operation_state \<Rightarrow> registry \<Rightarrow> registry_error + registry" where
  "transition_locked i state reg =
     (case map_of (records reg) i of
        None \<Rightarrow> Inl (UnknownOperation i)
      | Some r \<Rightarrow>
          if is_terminal (rec_state r) then Inr reg
          else let r' = r\<lparr>pending_challenge := (case state of
                     Challenge c \<Rightarrow> Some (challenge_id c) | _ \<Rightarrow> None),
                   last_sequence := last_sequence r + 1, rec_state := state\<rparr>
            in Inr (publish i (rec_kind r) (last_sequence r') state
                 (reg\<lparr>records := AList.update i r' (records reg)\<rparr>)))"

definition terminal_ids :: "registry \<Rightarrow> u64 list" where
  "terminal_ids reg = sort (map fst (filter (\<lambda>(_, r). is_terminal (rec_state r)) (records reg)))"

definition evict_excess_history :: "registry \<Rightarrow> registry" where
  "evict_excess_history reg =
     (let terminal_count = length (filter (\<lambda>(_, r). is_terminal (rec_state r)) (records reg)) in
      if terminal_count \<le> MAX_TERMINAL_HISTORY then reg
      else let evicted = take (terminal_count - MAX_TERMINAL_HISTORY) (terminal_ids reg)
        in reg\<lparr>records := filter (\<lambda>(i, _). i \<notin> set evicted) (records reg)\<rparr>)"

text \<open>\<^verbatim>\<open>transition\<close> returns early on an unknown or finished operation, before the history is
  trimmed.\<close>

definition transition :: "u64 \<Rightarrow> operation_state \<Rightarrow> registry \<Rightarrow> registry_error + registry" where
  "transition i state reg =
     (case map_of (records reg) i of
        None \<Rightarrow> Inl (UnknownOperation i)
      | Some r \<Rightarrow>
          if is_terminal (rec_state r) then Inr reg
          else res_bind (transition_locked i state reg) (\<lambda>reg'. Inr (evict_excess_history reg')))"

definition operation :: "u64 \<Rightarrow> registry \<Rightarrow> operation_snapshot option" where
  "operation i reg = map_option (snapshot i) (map_of (records reg) i)"

definition recent :: "nat \<Rightarrow> registry \<Rightarrow> operation_snapshot list" where
  "recent limit reg =
     take limit (sort_key (\<lambda>s. - int (unat (snap_operation_id s)))
       (map (\<lambda>(i, r). snapshot i r) (records reg)))"

text \<open>The first critical section of \<^verbatim>\<open>cancel\<close>: raise the flag and look at the state.\<close>

definition cancel_flag :: "u64 \<Rightarrow> registry \<Rightarrow> registry_error + (bool \<times> registry)" where
  "cancel_flag i reg =
     (case map_of (records reg) i of
        None \<Rightarrow> Inl (UnknownOperation i)
      | Some r \<Rightarrow> Inr (is_terminal (rec_state r),
          reg\<lparr>records := AList.update i (r\<lparr>rec_cancel := True\<rparr>) (records reg)\<rparr>))"

definition cancel :: "u64 \<Rightarrow> registry \<Rightarrow> registry_error + registry" where
  "cancel i reg =
     res_bind (cancel_flag i reg) (\<lambda>(already_terminal, reg').
       if already_terminal then Inr reg' else transition i Cancelled reg')"

definition is_cancelled :: "u64 \<Rightarrow> registry \<Rightarrow> bool" where
  "is_cancelled i reg = (case map_of (records reg) i of Some r \<Rightarrow> rec_cancel r | None \<Rightarrow> False)"

definition resolve_challenge :: "u64 \<Rightarrow> u64 \<Rightarrow> registry \<Rightarrow> registry_error + registry" where
  "resolve_challenge i c reg =
     (case map_of (records reg) i of
        None \<Rightarrow> Inl (UnknownOperation i)
      | Some r \<Rightarrow>
          if pending_challenge r \<noteq> Some c then Inl (ChallengeMismatch i)
          else Inr (reg\<lparr>records := AList.update i (r\<lparr>pending_challenge := None\<rparr>) (records reg)\<rparr>))"

section \<open>Interleavings\<close>

text \<open>One critical section at a time, in any order. Trimming may run at any point, which covers every
  schedule of the calls that trigger it.\<close>

inductive reg_step :: "registry \<Rightarrow> registry \<Rightarrow> bool" where
  step_mint: "reg_step reg (snd (next_operation_id reg))"
| step_begin: "i \<in> set (minted reg) \<Longrightarrow> reg_step reg (begin_locked i kind reg)"
| step_transition: "transition_locked i state reg = Inr reg' \<Longrightarrow> reg_step reg reg'"
| step_evict: "reg_step reg (evict_excess_history reg)"
| step_cancel: "cancel_flag i reg = Inr (t, reg') \<Longrightarrow> reg_step reg reg'"
| step_resolve: "resolve_challenge i c reg = Inr reg' \<Longrightarrow> reg_step reg reg'"

text \<open>The registries reachable in a number of steps.\<close>

inductive reg_reachable :: "nat \<Rightarrow> registry \<Rightarrow> bool" where
  reach_new: "reg_reachable 0 new_registry"
| reach_step: "reg_reachable n reg \<Longrightarrow> reg_step reg reg' \<Longrightarrow> reg_reachable (Suc n) reg'"

inductive_cases reg_stepE: "reg_step reg reg'"

definition events_of :: "u64 \<Rightarrow> registry \<Rightarrow> operation_event list" where
  "events_of i reg = filter (\<lambda>e. ev_operation_id e = i) (reg_events reg)"

text \<open>What an operation's events look like: numbered from one, finished at most at the end.\<close>

definition well_numbered :: "operation_event list \<Rightarrow> bool" where
  "well_numbered es \<longleftrightarrow> map (\<lambda>e. unat (ev_sequence e)) es = [1..<Suc (length es)]
     \<and> (\<forall>e \<in> set (butlast es). \<not> is_terminal (ev_state e))"

text \<open>The invariant, with the number of steps taken as the bound that keeps counters from wrapping.\<close>

definition record_ok :: "operation_event list \<Rightarrow> operation_record \<Rightarrow> bool" where
  "record_ok es r \<longleftrightarrow> es \<noteq> [] \<and> unat (last_sequence r) = length es
     \<and> ev_state (last es) = rec_state r
     \<and> (\<forall>c. pending_challenge r = Some c \<longrightarrow> (\<exists>ch. rec_state r = Challenge ch \<and> challenge_id ch = c))"

definition reg_inv :: "nat \<Rightarrow> registry \<Rightarrow> bool" where
  "reg_inv n reg \<longleftrightarrow>
     distinct (map fst (records reg))
     \<and> (\<forall>(i, r) \<in> set (records reg). record_ok (events_of i reg) r)
     \<and> (\<forall>i. well_numbered (events_of i reg))
     \<and> (\<forall>e \<in> set (reg_events reg). unat (ev_operation_id e) < unat (next_id reg)
          \<and> ev_operation_id e \<notin> set (minted reg))
     \<and> distinct (minted reg) \<and> (\<forall>i \<in> set (minted reg). unat i < unat (next_id reg))
     \<and> (\<forall>i. events_of i reg \<noteq> [] \<longrightarrow> i \<notin> fst ` set (records reg) \<longrightarrow>
          is_terminal (ev_state (last (events_of i reg))))
     \<and> length (reg_events reg) \<le> n \<and> unat (next_id reg) \<le> Suc n"

section \<open>The invariant is kept\<close>

lemma events_of_publish:
  "events_of i (publish j k q st reg) = events_of i reg
     @ (if i = j then [\<lparr>ev_operation_id = j, ev_sequence = q, ev_kind = k, ev_state = st\<rparr>] else [])"
  by (simp add: events_of_def publish_def)

lemma publish_fields [simp]:
  "records (publish j k q st reg) = records reg" "next_id (publish j k q st reg) = next_id reg"
  "minted (publish j k q st reg) = minted reg"
  "reg_events (publish j k q st reg) = reg_events reg
     @ [\<lparr>ev_operation_id = j, ev_sequence = q, ev_kind = k, ev_state = st\<rparr>]"
  by (simp_all add: publish_def)

lemma events_of_fields [simp]:
  "events_of i (reg\<lparr>records := rs\<rparr>) = events_of i reg"
  "events_of i (reg\<lparr>minted := ms\<rparr>) = events_of i reg"
  "events_of i (reg\<lparr>next_id := n\<rparr>) = events_of i reg"
  by (simp_all add: events_of_def)

lemma events_of_empty: "events_of i reg = [] \<longleftrightarrow> i \<notin> ev_operation_id ` set (reg_events reg)"
  by (auto simp: events_of_def filter_empty_conv)

lemma well_numbered_snoc:
  assumes "well_numbered es" and "es \<noteq> [] \<Longrightarrow> \<not> is_terminal (ev_state (last es))"
    and "unat (ev_sequence e) = Suc (length es)"
  shows "well_numbered (es @ [e])"
proof -
  have "\<not> is_terminal (ev_state x)" if "x \<in> set es" for x
  proof (cases "es = []")
    case True
    then show ?thesis using that by simp
  next
    case False
    then have "x \<in> set (butlast es) \<or> x = last es"
      using that by (metis append_butlast_last_id in_set_conv_decomp rotate1.simps(2) set_ConsD set_rotate1)
    then show ?thesis using assms(1,2) False by (auto simp: well_numbered_def)
  qed
  then show ?thesis using assms(1,3) by (simp add: well_numbered_def)
qed

lemma unat_succ: "unat (w :: u64) < 2 ^ 64 - 1 \<Longrightarrow> unat (w + 1) = Suc (unat w)"
  by (simp add: unat_word_ariths(1))

lemma alist_update_cases:
  "(j, s) \<in> set (AList.update i r xs) \<Longrightarrow> distinct (map fst xs) \<Longrightarrow>
     (j = i \<and> s = r) \<or> (j \<noteq> i \<and> (j, s) \<in> set xs)"
  by (induction xs) (force split: if_splits)+

lemma fst_alist_update: "fst ` set (AList.update i r xs) = insert i (fst ` set xs)"
  using dom_update [of i r xs] by (simp add: dom_map_of_conv_image_fst)

text \<open>The invariant by its parts, so that each step argues about the parts it touches.\<close>

lemma reg_invD:
  assumes "reg_inv n reg"
  shows "distinct (map fst (records reg))"
    and "(i, r) \<in> set (records reg) \<Longrightarrow> record_ok (events_of i reg) r"
    and "well_numbered (events_of i reg)"
    and "e \<in> set (reg_events reg) \<Longrightarrow> unat (ev_operation_id e) < unat (next_id reg)"
    and "e \<in> set (reg_events reg) \<Longrightarrow> ev_operation_id e \<notin> set (minted reg)"
    and "distinct (minted reg)"
    and "i \<in> set (minted reg) \<Longrightarrow> unat i < unat (next_id reg)"
    and "events_of i reg \<noteq> [] \<Longrightarrow> i \<notin> fst ` set (records reg) \<Longrightarrow>
      is_terminal (ev_state (last (events_of i reg)))"
    and "length (reg_events reg) \<le> n" "unat (next_id reg) \<le> Suc n"
  using assms by (auto simp: reg_inv_def)

lemma mint_keeps:
  assumes "reg_inv n reg" and "Suc n < 2 ^ 64 - 1"
  shows "reg_inv (Suc n) (snd (next_operation_id reg))"
proof -
  note I = reg_invD [OF assms(1)]
  have nxt: "unat (next_id reg + 1) = Suc (unat (next_id reg))"
    using I(10) assms(2) by (intro unat_succ) simp
  have "next_id reg \<notin> set (minted reg)" using I(7) by blast
  moreover have "ev_operation_id e \<noteq> next_id reg" if "e \<in> set (reg_events reg)" for e
    using I(4) [OF that] by auto
  ultimately show ?thesis
    using I nxt unfolding reg_inv_def next_operation_id_def
    by (auto simp: less_Suc_eq events_of_def split: prod.splits)
qed

lemma begin_keeps:
  assumes "reg_inv n reg" and "i \<in> set (minted reg)"
  shows "reg_inv (Suc n) (begin_locked i kind reg)"
proof -
  note I = reg_invD [OF assms(1)]
  let ?reg = "begin_locked i kind reg"
  have none: "events_of i reg = []" using I(5) assms(2) by (auto simp: events_of_empty)
  have ev: "events_of j ?reg = (if j = i then [\<lparr>ev_operation_id = i, ev_sequence = 1, ev_kind = kind,
      ev_state = Accepted\<rparr>] else events_of j reg)" for j
    using none by (simp add: begin_locked_def events_of_publish)
  have rec: "record_ok (events_of j ?reg) r" if "(j, r) \<in> set (records ?reg)" for j r
    using alist_update_cases [of j r i _ "records reg"] that I(1,2) ev
    by (fastforce simp: begin_locked_def record_ok_def)
  have wn: "well_numbered (events_of j ?reg)" for j
    using I(3) [of j] ev by (cases "j = i") (simp_all add: well_numbered_def [of "[_]"])
  have gone: "is_terminal (ev_state (last (events_of j ?reg)))"
    if "events_of j ?reg \<noteq> []" "j \<notin> fst ` set (records ?reg)" for j
    using that I(8) [of j] ev by (auto simp: begin_locked_def fst_alist_update)
  have ids: "unat (ev_operation_id e) < unat (next_id ?reg) \<and> ev_operation_id e \<notin> set (minted ?reg)"
    if "e \<in> set (reg_events ?reg)" for e
    using that I(4,5,6,7) assms(2) by (auto simp: begin_locked_def dest: in_set_remove1 [THEN iffD1, rotated])
  have "distinct (map fst (records ?reg))" using I(1) by (simp add: begin_locked_def distinct_update)
  moreover have "distinct (minted ?reg) \<and> (\<forall>j \<in> set (minted ?reg). unat j < unat (next_id ?reg))"
    using I(6,7) by (auto simp: begin_locked_def dest: notin_set_remove1)
  moreover have "length (reg_events ?reg) \<le> Suc n" "unat (next_id ?reg) \<le> Suc (Suc n)"
    using I(9,10) by (auto simp: begin_locked_def)
  ultimately show ?thesis using rec wn gone ids unfolding reg_inv_def by blast
qed

lemma transition_keeps:
  assumes "reg_inv n reg" and "transition_locked i state reg = Inr reg'" and "Suc n < 2 ^ 64 - 1"
  shows "reg_inv (Suc n) reg'"
proof -
  note I = reg_invD [OF assms(1)]
  obtain r where r: "map_of (records reg) i = Some r"
    using assms(2) by (auto simp: transition_locked_def split: option.splits)
  then have mem: "(i, r) \<in> set (records reg)" by (rule map_of_SomeD)
  show ?thesis
  proof (cases "is_terminal (rec_state r)")
    case True
    then have "reg' = reg" using assms(2) r by (simp add: transition_locked_def)
    then show ?thesis using assms(1) by (auto simp: reg_inv_def)
  next
    case False
    define r' where "r' = r\<lparr>pending_challenge := (case state of
        Challenge c \<Rightarrow> Some (challenge_id c) | _ \<Rightarrow> None),
      last_sequence := last_sequence r + 1, rec_state := state\<rparr>"
    have reg': "reg' = publish i (rec_kind r) (last_sequence r') state
        (reg\<lparr>records := AList.update i r' (records reg)\<rparr>)"
      using assms(2) r False by (simp add: transition_locked_def Let_def r'_def)
    have ok: "record_ok (events_of i reg) r" using I(2) [OF mem] .
    have "length (events_of i reg) \<le> n" using I(9) unfolding events_of_def
      by (meson le_trans length_filter_le)
    then have seq: "unat (last_sequence r') = Suc (length (events_of i reg))"
      using ok assms(3) by (simp add: r'_def record_ok_def unat_succ)
    have ev: "events_of j reg' = (if j = i then events_of i reg @ [\<lparr>ev_operation_id = i,
        ev_sequence = last_sequence r', ev_kind = rec_kind r, ev_state = state\<rparr>]
        else events_of j reg)" for j
      by (simp add: reg' events_of_publish)
    have wn: "well_numbered (events_of j reg')" for j
      using I(3) [of j] ev seq ok False
      by (auto simp: record_ok_def intro!: well_numbered_snoc)
    have rec: "record_ok (events_of j reg') s" if "(j, s) \<in> set (records reg')" for j s
      using alist_update_cases [of j s i r' "records reg"] that I(1,2) ev seq
      by (auto simp: reg' record_ok_def r'_def split: operation_state.splits)
    have gone: "is_terminal (ev_state (last (events_of j reg')))"
      if "events_of j reg' \<noteq> []" "j \<notin> fst ` set (records reg')" for j
      using that I(8) [of j] ev by (auto simp: reg' fst_alist_update)
    have known: "e \<in> set (reg_events reg) \<or> ev_operation_id e = i" if "e \<in> set (reg_events reg')" for e
      using that by (auto simp: reg')
    have "i \<in> ev_operation_id ` set (reg_events reg)"
      using ok by (auto simp: record_ok_def events_of_empty)
    then have "unat (ev_operation_id e) < unat (next_id reg') \<and> ev_operation_id e \<notin> set (minted reg')"
      if "e \<in> set (reg_events reg')" for e
      using known [OF that] I(4,5) by (auto simp: reg')
    moreover have "distinct (map fst (records reg'))" using I(1) by (simp add: reg' distinct_update)
    moreover have "distinct (minted reg') \<and> (\<forall>j \<in> set (minted reg'). unat j < unat (next_id reg'))"
      using I(6,7) by (simp add: reg')
    moreover have "length (reg_events reg') \<le> Suc n" "unat (next_id reg') \<le> Suc (Suc n)"
      using I(9,10) by (auto simp: reg')
    ultimately show ?thesis using rec wn gone unfolding reg_inv_def by blast
  qed
qed

lemma evict_records:
  "\<exists>gone. records (evict_excess_history reg) = filter (\<lambda>(i, _). i \<notin> set gone) (records reg)
     \<and> set gone \<subseteq> set (terminal_ids reg)
     \<and> reg_events (evict_excess_history reg) = reg_events reg
     \<and> next_id (evict_excess_history reg) = next_id reg
     \<and> minted (evict_excess_history reg) = minted reg"
proof (cases "length (filter (\<lambda>(_, r). is_terminal (rec_state r)) (records reg)) \<le> MAX_TERMINAL_HISTORY")
  case True
  then show ?thesis by (intro exI [of _ "[]"]) (simp add: evict_excess_history_def)
next
  case False
  then show ?thesis
    by (intro exI [of _ "take (length (filter (\<lambda>(_, r). is_terminal (rec_state r)) (records reg))
          - MAX_TERMINAL_HISTORY) (terminal_ids reg)"])
       (auto simp: evict_excess_history_def Let_def dest: in_set_takeD)
qed

lemma evict_keeps:
  assumes "reg_inv n reg"
  shows "reg_inv (Suc n) (evict_excess_history reg)"
proof -
  note I = reg_invD [OF assms]
  let ?reg = "evict_excess_history reg"
  obtain gone where gone: "records ?reg = filter (\<lambda>(i, _). i \<notin> set gone) (records reg)"
    "set gone \<subseteq> set (terminal_ids reg)"
    and same: "reg_events ?reg = reg_events reg" "next_id ?reg = next_id reg" "minted ?reg = minted reg"
    using evict_records [of reg] by blast
  have ev: "events_of j ?reg = events_of j reg" for j by (simp add: events_of_def same)
  have "is_terminal (ev_state (last (events_of j reg)))"
    if "events_of j reg \<noteq> []" "j \<notin> fst ` set (records ?reg)" for j
  proof (cases "j \<in> fst ` set (records reg)")
    case False
    then show ?thesis using I(8) that by blast
  next
    case True
    then have "j \<in> set gone" using that(2) by (force simp: gone(1))
    then obtain r where r: "(j, r) \<in> set (records reg)" "is_terminal (rec_state r)"
      using gone(2) by (auto simp: terminal_ids_def)
    then show ?thesis using I(2) [OF r(1)] by (simp add: record_ok_def)
  qed
  moreover have "distinct (map fst (records ?reg))"
    using I(1) by (simp add: gone(1) distinct_map_filter)
  ultimately show ?thesis
    using I unfolding reg_inv_def by (auto simp: ev same gone(1))
qed

text \<open>Raising the flag and clearing the challenge touch one record and no event.\<close>

lemma touch_keeps:
  assumes "reg_inv n reg" and "map_of (records reg) i = Some r"
    and "record_ok (events_of i reg) r \<Longrightarrow> record_ok (events_of i reg) r'"
    and "reg' = reg\<lparr>records := AList.update i r' (records reg)\<rparr>"
  shows "reg_inv (Suc n) reg'"
proof -
  note I = reg_invD [OF assms(1)]
  have mem: "(i, r) \<in> set (records reg)" using assms(2) by (rule map_of_SomeD)
  have ev: "events_of j reg' = events_of j reg" for j by (simp add: assms(4))
  have "record_ok (events_of j reg') s" if "(j, s) \<in> set (records reg')" for j s
    using alist_update_cases [of j s i r' "records reg"] that I(1,2) assms(3) mem ev
    by (auto simp: assms(4))
  moreover have "is_terminal (ev_state (last (events_of j reg')))"
    if "events_of j reg' \<noteq> []" "j \<notin> fst ` set (records reg')" for j
    using that I(8) [of j] ev by (auto simp: assms(4) fst_alist_update)
  moreover have "distinct (map fst (records reg'))" using I(1) by (simp add: assms(4) distinct_update)
  ultimately show ?thesis using I unfolding reg_inv_def by (auto simp: assms(4))
qed

lemma cancel_flag_keeps:
  assumes "reg_inv n reg" and "cancel_flag i reg = Inr (t, reg')"
  shows "reg_inv (Suc n) reg'"
proof -
  obtain r where r: "map_of (records reg) i = Some r"
    and reg': "reg' = reg\<lparr>records := AList.update i (r\<lparr>rec_cancel := True\<rparr>) (records reg)\<rparr>"
    using assms(2) by (auto simp: cancel_flag_def split: option.splits)
  show ?thesis by (rule touch_keeps [OF assms(1) r _ reg']) (simp add: record_ok_def)
qed

lemma resolve_keeps:
  assumes "reg_inv n reg" and "resolve_challenge i c reg = Inr reg'"
  shows "reg_inv (Suc n) reg'"
proof -
  obtain r where r: "map_of (records reg) i = Some r"
    and reg': "reg' = reg\<lparr>records := AList.update i (r\<lparr>pending_challenge := None\<rparr>) (records reg)\<rparr>"
    using assms(2) by (auto simp: resolve_challenge_def split: option.splits if_splits)
  show ?thesis by (rule touch_keeps [OF assms(1) r _ reg']) (simp add: record_ok_def)
qed

lemma reg_step_keeps:
  assumes "reg_inv n reg" and "reg_step reg reg'" and "Suc n < 2 ^ 64 - 1"
  shows "reg_inv (Suc n) reg'"
  using assms(2,1,3)
  by (cases rule: reg_stepE)
     (auto intro: mint_keeps begin_keeps transition_keeps evict_keeps cancel_flag_keeps resolve_keeps)

lemma reachable_inv: "reg_reachable n reg \<Longrightarrow> n < 2 ^ 64 - 1 \<Longrightarrow> reg_inv n reg"
proof (induction rule: reg_reachable.induct)
  case reach_new
  show ?case by (simp add: reg_inv_def new_registry_def events_of_def well_numbered_def)
next
  case (reach_step n reg reg')
  then show ?case by (auto intro: reg_step_keeps)
qed

text \<open>The public methods are runs of the critical sections.\<close>

lemma reach_begin:
  "reg_reachable n reg \<Longrightarrow> reg_reachable (Suc (Suc n)) (snd (begin_op kind reg))"
proof -
  assume "reg_reachable n reg"
  then have one: "reg_reachable (Suc n) (snd (next_operation_id reg))"
    by (rule reach_step) (rule step_mint)
  have "reg_step (snd (next_operation_id reg)) (snd (begin_op kind reg))"
    using step_begin [of "next_id reg" "snd (next_operation_id reg)" kind]
    by (simp add: begin_op_def next_operation_id_def)
  then show ?thesis using one by (rule reach_step [rotated])
qed

lemma reach_transition:
  assumes "reg_reachable n reg" and "transition i state reg = Inr reg'"
  shows "\<exists>m \<le> n + 2. reg_reachable m reg'"
proof (cases "transition_locked i state reg")
  case (Inl e)
  then show ?thesis using assms
    by (auto simp: transition_def transition_locked_def Let_def split: option.splits if_splits)
next
  case (Inr mid)
  have "reg_reachable (Suc n) mid" using assms(1) Inr step_transition reach_step by blast
  moreover from this have "reg_reachable (Suc (Suc n)) (evict_excess_history mid)"
    using step_evict reach_step by blast
  moreover have "reg' = evict_excess_history mid \<or> reg' = reg"
    using assms(2) Inr by (auto simp: transition_def split: option.splits if_splits)
  ultimately show ?thesis using assms(1) by (metis add_2_eq_Suc' le_add1 order_refl)
qed

section \<open>History\<close>

lemma sorted_take_below:
  assumes "sorted xs" and "a \<in> set (take k xs)" and "b \<in> set xs" and "b \<notin> set (take k xs)"
  shows "a \<le> b"
proof -
  have "b \<in> set (drop k xs)" using assms(3,4) by (metis append_take_drop_id Un_iff set_append)
  then show ?thesis using assms(1,2) sorted_append [of "take k xs" "drop k xs"] by simp
qed

lemma evict_spec:
  assumes "distinct (map fst (records reg))"
  defines "reg' \<equiv> evict_excess_history reg"
  shows "length (terminal_ids reg') = min (length (terminal_ids reg)) MAX_TERMINAL_HISTORY"
    and "filter (\<lambda>(_, r). \<not> is_terminal (rec_state r)) (records reg')
      = filter (\<lambda>(_, r). \<not> is_terminal (rec_state r)) (records reg)"
    and "\<forall>a \<in> set (terminal_ids reg) - set (terminal_ids reg'). \<forall>b \<in> set (terminal_ids reg'). a < b"
proof -
  let ?T = "\<lambda>p :: u64 \<times> operation_record. is_terminal (rec_state (snd p))"
  let ?k = "length (filter ?T (records reg)) - MAX_TERMINAL_HISTORY"
  let ?out = "take ?k (terminal_ids reg)"
  have ids: "terminal_ids q = sort (map fst (filter ?T (records q)))" for q
    by (simp add: terminal_ids_def case_prod_unfold)
  have d: "distinct (map fst (filter ?T (records reg)))" using assms(1) distinct_map_filter by blast
  have rec: "records reg' = filter (\<lambda>p. fst p \<notin> set ?out) (records reg)"
    by (auto simp: reg'_def evict_excess_history_def Let_def case_prod_unfold)
  have sub: "set ?out \<subseteq> fst ` set (filter ?T (records reg))"
    using set_take_subset [of ?k "terminal_ids reg"] by (simp add: ids)
  have keep: "fst p \<notin> set ?out" if "p \<in> set (records reg)" "\<not> ?T p" for p
  proof
    assume "fst p \<in> set ?out"
    then obtain q where "q \<in> set (records reg)" "?T q" "fst q = fst p" using sub by auto
    then show False using assms(1) that by (metis distinct_map inj_onD)
  qed
  have "filter (\<lambda>p. \<not> ?T p) (records reg') = filter (\<lambda>p. \<not> ?T p) (records reg)"
    unfolding rec filter_filter using keep by (intro filter_cong) auto
  then show "filter (\<lambda>(_, r). \<not> is_terminal (rec_state r)) (records reg')
      = filter (\<lambda>(_, r). \<not> is_terminal (rec_state r)) (records reg)"
    by (simp add: case_prod_unfold)
  have left: "map fst (filter ?T (records reg')) = filter (\<lambda>i. i \<notin> set ?out) (map fst (filter ?T (records reg)))"
    unfolding rec by (simp add: filter_map o_def filter_filter conj_commute)
  then have set': "set (terminal_ids reg') = set (terminal_ids reg) - set ?out"
    using arg_cong [OF left, of set] by (auto simp: ids)
  have "terminal_ids reg' = filter (\<lambda>i. i \<notin> set ?out) (terminal_ids reg)"
    unfolding ids [of reg'] left unfolding ids by (rule filter_sort [symmetric])
  also have "filter (\<lambda>i. i \<notin> set ?out) (terminal_ids reg) = drop ?k (terminal_ids reg)"
  proof -
    have dd: "distinct (terminal_ids reg)" using d by (simp add: ids)
    have "filter (\<lambda>i. i \<notin> set ?out) (?out @ drop ?k (terminal_ids reg)) = drop ?k (terminal_ids reg)"
      unfolding filter_append using set_take_disj_set_drop_if_distinct [OF dd, of ?k ?k]
      by (auto simp: filter_empty_conv filter_id_conv)
    then show ?thesis by (simp only: append_take_drop_id)
  qed
  finally have "terminal_ids reg' = drop ?k (terminal_ids reg)" .
  then show "length (terminal_ids reg') = min (length (terminal_ids reg)) MAX_TERMINAL_HISTORY"
    by (simp add: ids)
  show "\<forall>a \<in> set (terminal_ids reg) - set (terminal_ids reg'). \<forall>b \<in> set (terminal_ids reg'). a < b"
    using sorted_take_below [of "terminal_ids reg" _ ?k] set'
    by (auto simp: ids less_le)
qed

section \<open>Properties\<close>

text \<open>C13. However concurrent callers interleave, the events published for one operation are numbered
  1, 2, 3 and so on in the order they are sent, and nothing is published after a terminal event.\<close>

theorem operation_events_in_order:
  assumes "reg_reachable n reg" and "n < 2 ^ 64 - 1"
  shows "map (\<lambda>e. unat (ev_sequence e)) (events_of i reg) = [1..<Suc (length (events_of i reg))]
    \<and> (\<forall>e \<in> set (butlast (events_of i reg)). \<not> is_terminal (ev_state e))"
  using reg_invD(3) [OF reachable_inv [OF assms], of i] by (simp add: well_numbered_def)

definition sample_run :: registry where
  "sample_run = (case transition_locked 1 Started (snd (begin_op Extract new_registry)) of
      Inr reg \<Rightarrow> reg | Inl _ \<Rightarrow> new_registry)"

lemma sample_run_reachable: "reg_reachable 3 sample_run"
proof -
  have two: "reg_reachable 2 (snd (begin_op Extract new_registry))"
    using reach_begin [OF reach_new] by (simp add: numeral_2_eq_2)
  have "(case transition_locked 1 Started (snd (begin_op Extract new_registry)) of
      Inr _ \<Rightarrow> True | Inl _ \<Rightarrow> False)"
    by code_simp
  then have "transition_locked 1 Started (snd (begin_op Extract new_registry)) = Inr sample_run"
    by (auto simp: sample_run_def split: sum.splits)
  then show ?thesis using reach_step [OF two step_transition] by (simp add: numeral_3_eq_3 numeral_2_eq_2)
qed

theorem operation_events_in_order_witness:
  "map (\<lambda>e. unat (ev_sequence e)) (events_of 1 sample_run) = [1, 2]"
proof -
  have l: "length (events_of 1 sample_run) = 2" by code_simp
  have b: "(3 :: nat) < 2 ^ 64 - 1" by simp
  show ?thesis
    using operation_events_in_order [OF sample_run_reachable b, of 1] l
    by (simp add: upt_rec numeral_2_eq_2)
qed

text \<open>What the registry answers about an operation is the truth: the snapshot's state and sequence
  number are those of the last event published for it, and an operation whose last event is not
  terminal can always be looked up, however much history is trimmed.\<close>

theorem snapshot_reflects_last_event:
  assumes "reg_reachable n reg" and "n < 2 ^ 64 - 1" and "events_of i reg \<noteq> []"
  shows "(case operation i reg of
       Some s \<Rightarrow> snap_state s = ev_state (last (events_of i reg))
         \<and> unat (snap_last_sequence s) = length (events_of i reg)
     | None \<Rightarrow> is_terminal (ev_state (last (events_of i reg))))"
proof (cases "map_of (records reg) i")
  case None
  then have "i \<notin> fst ` set (records reg)" by (simp add: map_of_eq_None_iff)
  then show ?thesis
    using reg_invD(8) [OF reachable_inv [OF assms(1,2)] assms(3)] by (simp add: operation_def None)
next
  case (Some r)
  then show ?thesis
    using reg_invD(2) [OF reachable_inv [OF assms(1,2)] map_of_SomeD [OF Some]]
    by (simp add: operation_def snapshot_def record_ok_def)
qed

theorem snapshot_reflects_last_event_witness:
  "\<exists>s. operation 1 sample_run = Some s \<and> snap_state s = Started \<and> unat (snap_last_sequence s) = 2"
proof -
  have l: "length (events_of 1 sample_run) = 2" by code_simp
  then have ne: "events_of 1 sample_run \<noteq> []" by auto
  have st: "(case ev_state (last (events_of 1 sample_run)) of Started \<Rightarrow> True | _ \<Rightarrow> False)" by code_simp
  then have st: "ev_state (last (events_of 1 sample_run)) = Started"
    by (auto split: operation_state.splits)
  have b: "(3 :: nat) < 2 ^ 64 - 1" by simp
  show ?thesis
    using snapshot_reflects_last_event [OF sample_run_reachable b ne] l st
    by (auto split: option.splits)
qed

text \<open>Trimming leaves at most 256 finished operations, keeps the ones created last, and never
  removes an active one.\<close>

theorem evict_keeps_newest_terminal:
  assumes "distinct (map fst (records reg))"
  shows "length (terminal_ids (evict_excess_history reg)) = min (length (terminal_ids reg)) 256
    \<and> filter (\<lambda>(_, r). \<not> is_terminal (rec_state r)) (records (evict_excess_history reg))
        = filter (\<lambda>(_, r). \<not> is_terminal (rec_state r)) (records reg)
    \<and> (\<forall>a \<in> set (terminal_ids reg) - set (terminal_ids (evict_excess_history reg)).
        \<forall>b \<in> set (terminal_ids (evict_excess_history reg)). a < b)"
  using evict_spec [OF assms] by (simp add: MAX_TERMINAL_HISTORY_def)

theorem evict_keeps_newest_terminal_witness:
  "length (terminal_ids (evict_excess_history sample_run)) = 0"
proof -
  have d: "distinct (map fst (records sample_run))" by code_simp
  have t: "length (terminal_ids sample_run) = 0" by code_simp
  show ?thesis using evict_keeps_newest_terminal [OF d] t by simp
qed

text \<open>A challenge is answered at most once, and only while the operation is waiting on it: a
  successful resolution means the operation's state was that challenge, and answering again is refused.\<close>

theorem challenge_resolved_once:
  assumes "reg_reachable n reg" and "n < 2 ^ 64 - 1" and "resolve_challenge i c reg = Inr reg'"
  shows "(\<exists>r ch. map_of (records reg) i = Some r \<and> rec_state r = Challenge ch \<and> challenge_id ch = c)
    \<and> resolve_challenge i c' reg' = Inl (ChallengeMismatch i)
    \<and> reg_events reg' = reg_events reg"
proof -
  obtain r where r: "map_of (records reg) i = Some r" "pending_challenge r = Some c"
    and reg': "reg' = reg\<lparr>records := AList.update i (r\<lparr>pending_challenge := None\<rparr>) (records reg)\<rparr>"
    using assms(3) by (auto simp: resolve_challenge_def split: option.splits if_splits)
  have "record_ok (events_of i reg) r"
    using reg_invD(2) [OF reachable_inv [OF assms(1,2)] map_of_SomeD [OF r(1)]] .
  then have "\<exists>ch. rec_state r = Challenge ch \<and> challenge_id ch = c"
    using r(2) by (simp add: record_ok_def)
  moreover have "resolve_challenge i c' reg' = Inl (ChallengeMismatch i)"
    by (simp add: resolve_challenge_def reg' update_conv')
  ultimately show ?thesis using r(1) by (simp add: reg')
qed

definition challenged_run :: registry where
  "challenged_run = (case transition_locked 1 (Challenge (MissingExternalTool 9 (lit ''7z''))) sample_run of
      Inr reg \<Rightarrow> reg | Inl _ \<Rightarrow> sample_run)"

theorem challenge_resolved_once_witness:
  "\<exists>reg'. resolve_challenge 1 9 challenged_run = Inr reg'
     \<and> resolve_challenge 1 9 reg' = Inl (ChallengeMismatch 1)"
proof -
  have "(case transition_locked 1 (Challenge (MissingExternalTool 9 (lit ''7z''))) sample_run of
      Inr _ \<Rightarrow> True | Inl _ \<Rightarrow> False)"
    by code_simp
  then have "transition_locked 1 (Challenge (MissingExternalTool 9 (lit ''7z''))) sample_run
      = Inr challenged_run"
    by (auto simp: challenged_run_def split: sum.splits)
  then have r: "reg_reachable 4 challenged_run"
    using reach_step [OF sample_run_reachable step_transition] by simp
  have b: "(4 :: nat) < 2 ^ 64 - 1" by simp
  have "(case resolve_challenge 1 9 challenged_run of Inr _ \<Rightarrow> True | Inl _ \<Rightarrow> False)" by code_simp
  then obtain reg' where reg': "resolve_challenge 1 9 challenged_run = Inr reg'"
    by (auto split: sum.splits)
  show ?thesis using reg' challenge_resolved_once [OF r b reg', of 9] by blast
qed

end
