(* ===== verification/Rate_Limiter.thy ===== *)
theory Rate_Limiter
  imports Prelude
begin

text \<open>
  \<^verbatim>\<open>crates/network/src/features/rate_limiting/limiter.rs\<close>: the sliding-window limiter. An
  \<^verbatim>\<open>Instant\<close> is a number of nanoseconds on a clock that does not run backwards; each operation
  takes the reading it makes under the lock as an argument. The history map is a function from scopes
  to queues.

  The specification is a limiter that keeps every request for ever and counts. The lemmas show that
  pruning and sweeping never change an answer, and that no window of a minute holds more granted
  requests than the limit.
\<close>

section \<open>The limiter\<close>

type_synonym u32 = "32 word"
type_synonym instant = int

definition RATE_LIMIT_WINDOW :: int where
  "RATE_LIMIT_WINDOW = 60000000000"

record request_history =
  by_scope :: "str \<rightharpoonup> instant list"
  last_sweep :: instant

record rate_limiter =
  limits :: "str \<rightharpoonup> u32"
  default_limit :: u32
  history :: request_history
  window :: int

definition prune_expired :: "instant \<Rightarrow> instant list \<Rightarrow> instant list" where
  "prune_expired window_start queue = dropWhile (\<lambda>timestamp. timestamp \<le> window_start) queue"

definition sweep_expired :: "instant \<Rightarrow> request_history \<Rightarrow> request_history" where
  "sweep_expired window_start h =
     h\<lparr>by_scope := (\<lambda>s. case by_scope h s of
         None \<Rightarrow> None
       | Some queue \<Rightarrow> (let q = prune_expired window_start queue in if q = [] then None else Some q))\<rparr>"

definition sweep_if_due :: "instant \<Rightarrow> int \<Rightarrow> request_history \<Rightarrow> request_history" where
  "sweep_if_due now win h =
     (if max 0 (now - last_sweep h) \<ge> win then (sweep_expired (now - win) h)\<lparr>last_sweep := now\<rparr> else h)"

definition new_limiter :: "instant \<Rightarrow> u32 \<Rightarrow> rate_limiter" where
  "new_limiter now default_rpm =
     \<lparr>limits = Map.empty, default_limit = default_rpm,
      history = \<lparr>by_scope = Map.empty, last_sweep = now\<rparr>, window = RATE_LIMIT_WINDOW\<rparr>"

definition set_limit :: "unicode \<Rightarrow> str \<Rightarrow> u32 \<Rightarrow> rate_limiter \<Rightarrow> rate_limiter" where
  "set_limit u domain rpm l = l\<lparr>limits := (limits l)(str_lower u domain \<mapsto> rpm)\<rparr>"

definition get_limit :: "unicode \<Rightarrow> str \<Rightarrow> rate_limiter \<Rightarrow> u32" where
  "get_limit u domain l =
     (case limits l (str_lower u domain) of Some n \<Rightarrow> n | None \<Rightarrow> default_limit l)"

text \<open>The part \<^verbatim>\<open>check\<close> and \<^verbatim>\<open>remaining\<close> share: sweep, prune one scope, count it, and
  drop it when nothing is left.\<close>

definition count_recent :: "str \<Rightarrow> instant \<Rightarrow> rate_limiter \<Rightarrow> nat \<times> rate_limiter" where
  "count_recent scope now l =
     (let h = sweep_if_due now (window l) (history l) in
      case by_scope h scope of
        None \<Rightarrow> (0, l\<lparr>history := h\<rparr>)
      | Some queue \<Rightarrow>
          let q = prune_expired (now - window l) queue in
          (length q, l\<lparr>history := h\<lparr>by_scope := (by_scope h)(scope := (if q = [] then None else Some q))\<rparr>\<rparr>))"

definition check :: "unicode \<Rightarrow> str \<Rightarrow> instant \<Rightarrow> rate_limiter \<Rightarrow> bool \<times> rate_limiter" where
  "check u domain now l =
     (case count_recent (str_lower u domain) now l of
        (n, l') \<Rightarrow> (n < unat (get_limit u (str_lower u domain) l), l'))"

definition record_request :: "unicode \<Rightarrow> str \<Rightarrow> instant \<Rightarrow> rate_limiter \<Rightarrow> rate_limiter" where
  "record_request u domain now l =
     (let h = sweep_if_due now (window l) (history l);
          queue = (case by_scope h (str_lower u domain) of Some q \<Rightarrow> q | None \<Rightarrow> [])
      in l\<lparr>history := h\<lparr>by_scope := (by_scope h)(str_lower u domain \<mapsto> queue @ [now])\<rparr>\<rparr>)"

text \<open>Taking from a budget once the scope and the limit are known: the tail both acquiring methods
  share.\<close>

definition acquire_from :: "str \<Rightarrow> u32 \<Rightarrow> instant \<Rightarrow> rate_limiter \<Rightarrow> bool \<times> rate_limiter" where
  "acquire_from scope limit now l =
     (let h = sweep_if_due now (window l) (history l);
          queue = (case by_scope h scope of Some q \<Rightarrow> q | None \<Rightarrow> []);
          q = prune_expired (now - window l) queue;
          ok = length q < unat limit
      in (ok, l\<lparr>history := h\<lparr>by_scope := (by_scope h)(scope \<mapsto> (if ok then q @ [now] else q))\<rparr>\<rparr>))"

definition try_acquire :: "unicode \<Rightarrow> str \<Rightarrow> instant \<Rightarrow> rate_limiter \<Rightarrow> bool \<times> rate_limiter" where
  "try_acquire u domain now l =
     (let limit = get_limit u (str_lower u domain) l in
      if limit = 0 then (False, l\<lparr>history := sweep_if_due now (window l) (history l)\<rparr>)
      else acquire_from (str_lower u domain) limit now l)"

definition scope_key :: "str \<Rightarrow> str" where
  "scope_key scope =
     (case split_once 0 scope of
        Some (plugin_id, domain) \<Rightarrow> plugin_id @ 0 # to_ascii_lowercase domain
      | None \<Rightarrow> scope)"

definition try_acquire_with_limit :: "str \<Rightarrow> u32 \<Rightarrow> instant \<Rightarrow> rate_limiter \<Rightarrow> bool \<times> rate_limiter" where
  "try_acquire_with_limit scope limit now l =
     (if limit = 0 then (False, l) else acquire_from (scope_key scope) limit now l)"

definition remaining :: "unicode \<Rightarrow> str \<Rightarrow> instant \<Rightarrow> rate_limiter \<Rightarrow> u32 \<times> rate_limiter" where
  "remaining u domain now l =
     (let limit = get_limit u (str_lower u domain) l in
      case count_recent (str_lower u domain) now l of
        (n, l') \<Rightarrow> (if (of_nat n :: u32) \<le> limit then limit - of_nat n else 0, l'))"

definition retry_after :: "unicode \<Rightarrow> str \<Rightarrow> instant \<Rightarrow> rate_limiter \<Rightarrow> int option" where
  "retry_after u domain now l =
     (case by_scope (history l) (str_lower u domain) of
        Some (oldest # _) \<Rightarrow>
          (if oldest + window l > now then Some (oldest + window l - now) else None)
      | _ \<Rightarrow> None)"

section \<open>Operations and the counting specification\<close>

datatype limiter_op =
    OpCheck str | OpRecord str | OpAcquire str | OpAcquireWith str u32 | OpRemaining str

datatype limiter_answer = Allowed bool | Left u32 | Done

fun exec :: "unicode \<Rightarrow> limiter_op \<Rightarrow> instant \<Rightarrow> rate_limiter \<Rightarrow> limiter_answer \<times> rate_limiter" where
  "exec u (OpCheck d) now l = (case check u d now l of (b, l') \<Rightarrow> (Allowed b, l'))"
| "exec u (OpRecord d) now l = (Done, record_request u d now l)"
| "exec u (OpAcquire d) now l = (case try_acquire u d now l of (b, l') \<Rightarrow> (Allowed b, l'))"
| "exec u (OpAcquireWith s n) now l =
     (case try_acquire_with_limit s n now l of (b, l') \<Rightarrow> (Allowed b, l'))"
| "exec u (OpRemaining d) now l = (case remaining u d now l of (n, l') \<Rightarrow> (Left n, l'))"

fun exec_all ::
  "unicode \<Rightarrow> (instant \<times> limiter_op) list \<Rightarrow> rate_limiter \<Rightarrow> limiter_answer list \<times> rate_limiter" where
  "exec_all u [] l = ([], l)"
| "exec_all u ((now, op) # ops) l =
     (case exec u op now l of (a, l') \<Rightarrow>
        (case exec_all u ops l' of (as, l'') \<Rightarrow> (a # as, l'')))"

text \<open>The specification state: when each scope was used, never forgotten.\<close>

type_synonym request_log = "str \<Rightarrow> instant list"

definition in_window :: "int \<Rightarrow> instant \<Rightarrow> instant list \<Rightarrow> nat" where
  "in_window win now ts = length (filter (\<lambda>t. now - win < t) ts)"

definition spec_acquire ::
  "int \<Rightarrow> str \<Rightarrow> u32 \<Rightarrow> instant \<Rightarrow> request_log \<Rightarrow> bool \<times> request_log" where
  "spec_acquire win scope limit now lg =
     (if in_window win now (lg scope) < unat limit then (True, lg(scope := lg scope @ [now]))
      else (False, lg))"

fun spec_exec ::
  "unicode \<Rightarrow> rate_limiter \<Rightarrow> limiter_op \<Rightarrow> instant \<Rightarrow> request_log \<Rightarrow> limiter_answer \<times> request_log" where
  "spec_exec u cfg (OpCheck d) now lg =
     (Allowed (in_window (window cfg) now (lg (str_lower u d)) < unat (get_limit u (str_lower u d) cfg)), lg)"
| "spec_exec u cfg (OpRecord d) now lg =
     (Done, lg(str_lower u d := lg (str_lower u d) @ [now]))"
| "spec_exec u cfg (OpAcquire d) now lg =
     (case spec_acquire (window cfg) (str_lower u d) (get_limit u (str_lower u d) cfg) now lg of
        (b, lg') \<Rightarrow> (Allowed b, lg'))"
| "spec_exec u cfg (OpAcquireWith s n) now lg =
     (case spec_acquire (window cfg) (scope_key s) n now lg of (b, lg') \<Rightarrow> (Allowed b, lg'))"
| "spec_exec u cfg (OpRemaining d) now lg =
     (Left (let limit = get_limit u (str_lower u d) cfg;
                n = in_window (window cfg) now (lg (str_lower u d))
            in if (of_nat n :: u32) \<le> limit then limit - of_nat n else 0), lg)"

fun spec_exec_all ::
  "unicode \<Rightarrow> rate_limiter \<Rightarrow> (instant \<times> limiter_op) list \<Rightarrow> request_log
    \<Rightarrow> limiter_answer list \<times> request_log" where
  "spec_exec_all u cfg [] lg = ([], lg)"
| "spec_exec_all u cfg ((now, op) # ops) lg =
     (case spec_exec u cfg op now lg of (a, lg') \<Rightarrow>
        (case spec_exec_all u cfg ops lg' of (as, lg'') \<Rightarrow> (a # as, lg'')))"

section \<open>Refinement\<close>

definition queue_of :: "request_history \<Rightarrow> str \<Rightarrow> instant list" where
  "queue_of h s = (case by_scope h s of Some q \<Rightarrow> q | None \<Rightarrow> [])"

text \<open>What is left of a queue agrees with the log inside the window.\<close>

definition agrees :: "int \<Rightarrow> instant \<Rightarrow> instant list \<Rightarrow> instant list \<Rightarrow> bool" where
  "agrees win now q ts \<longleftrightarrow> sorted q \<and> (\<forall>t \<in> set q. t \<le> now) \<and> (\<forall>t \<in> set ts. t \<le> now)
     \<and> filter (\<lambda>t. now - win < t) q = filter (\<lambda>t. now - win < t) ts"

definition log_rel :: "instant \<Rightarrow> rate_limiter \<Rightarrow> request_log \<Rightarrow> bool" where
  "log_rel now l lg \<longleftrightarrow> 0 \<le> window l \<and> (\<forall>s. agrees (window l) now (queue_of (history l) s) (lg s))"

lemma sorted_prune: "sorted q \<Longrightarrow> prune_expired ws q = filter (\<lambda>t. ws < t) q"
proof (induction q)
  case Nil
  then show ?case by (simp add: prune_expired_def)
next
  case (Cons t q)
  show ?case
  proof (cases "t \<le> ws")
    case True
    then show ?thesis using Cons by (simp add: prune_expired_def)
  next
    case False
    then have "\<forall>x \<in> set q. ws < x" using Cons.prems by fastforce
    then show ?thesis using False by (simp add: prune_expired_def filter_id_conv)
  qed
qed

lemma filter_weaken:
  "(\<And>t. Q t \<Longrightarrow> P t) \<Longrightarrow> filter P q = filter P ts \<Longrightarrow> filter Q q = filter Q ts"
  by (metis (mono_tags, lifting) filter_cong filter_filter)

lemma agrees_later: "agrees win now q ts \<Longrightarrow> now \<le> now' \<Longrightarrow> agrees win now' q ts"
  unfolding agrees_def by (auto intro: filter_weaken [of "\<lambda>t. now' - win < t" "\<lambda>t. now - win < t"])

lemma agrees_prune: "agrees win now q ts \<Longrightarrow> agrees win now (prune_expired (now - win) q) ts"
  unfolding agrees_def using sorted_wrt_filter [of "(\<le>)" q "\<lambda>t. now - win < t"]
  by (auto simp: sorted_prune)

lemma agrees_push: "agrees win now q ts \<Longrightarrow> 0 \<le> win \<Longrightarrow> agrees win now (q @ [now]) (ts @ [now])"
  by (auto simp: agrees_def sorted_append)

lemma agrees_count: "agrees win now q ts \<Longrightarrow> length (prune_expired (now - win) q) = in_window win now ts"
  by (simp add: agrees_def sorted_prune in_window_def)

lemma queue_of_sweep:
  "queue_of (sweep_if_due now win h) s = queue_of h s
   \<or> queue_of (sweep_if_due now win h) s = prune_expired (now - win) (queue_of h s)"
  by (cases "by_scope h s")
     (simp_all add: sweep_if_due_def sweep_expired_def queue_of_def Let_def prune_expired_def
        del: dropWhile_eq_Nil_conv)

lemma log_rel_sweep:
  assumes "log_rel now l lg" and "now \<le> now'"
  shows "agrees (window l) now' (queue_of (sweep_if_due now' (window l) (history l)) s) (lg s)"
    and "0 \<le> window l"
proof -
  have ag: "agrees (window l) now' (queue_of (history l) s) (lg s)"
    using assms by (auto simp: log_rel_def intro: agrees_later)
  show "agrees (window l) now' (queue_of (sweep_if_due now' (window l) (history l)) s) (lg s)"
    using queue_of_sweep [of now' "window l" "history l" s] ag agrees_prune [OF ag] by auto
  show "0 \<le> window l" using assms by (simp add: log_rel_def)
qed

lemma log_relI:
  assumes "0 \<le> window l" and "\<And>s. agrees (window l) now (queue_of (history l) s) (lg s)"
  shows "log_rel now l lg"
  using assms by (simp add: log_rel_def)

lemma count_recent_refines:
  assumes "log_rel now l lg" and "now \<le> now'" and "count_recent scope now' l = (n, l')"
  shows "n = in_window (window l) now' (lg scope) \<and> log_rel now' l' lg
    \<and> limits l' = limits l \<and> default_limit l' = default_limit l \<and> window l' = window l"
proof -
  let ?h = "sweep_if_due now' (window l) (history l)"
  note ag = log_rel_sweep [OF assms(1,2)]
  show ?thesis
  proof (cases "by_scope ?h scope")
    case None
    then have n: "n = 0" "l' = l\<lparr>history := ?h\<rparr>"
      using assms(3) by (auto simp: count_recent_def Let_def)
    have "queue_of ?h scope = []" using None by (simp add: queue_of_def)
    then have "in_window (window l) now' (lg scope) = 0"
      using agrees_count [OF ag(1) [of scope]] by (simp add: prune_expired_def)
    then show ?thesis using n ag by (auto intro: log_relI)
  next
    case (Some queue)
    let ?q = "prune_expired (now' - window l) queue"
    have q: "queue_of ?h scope = queue" using Some by (simp add: queue_of_def)
    have n: "n = length ?q"
      "l' = l\<lparr>history := ?h\<lparr>by_scope := (by_scope ?h)(scope := (if ?q = [] then None else Some ?q))\<rparr>\<rparr>"
      using assms(3) Some by (auto simp: count_recent_def Let_def)
    have "queue_of (history l') s = (if s = scope then ?q else queue_of ?h s)" for s
      by (simp add: n(2) queue_of_def)
    then have "log_rel now' l' lg"
      using ag agrees_prune [OF ag(1) [of scope]] q n(2) by (auto intro!: log_relI)
    then show ?thesis using n agrees_count [OF ag(1) [of scope]] q by simp
  qed
qed

lemma acquire_from_refines:
  assumes "log_rel now l lg" and "now \<le> now'" and "acquire_from scope limit now' l = (b, l')"
    and "spec_acquire (window l) scope limit now' lg = (b', lg')"
  shows "b = b' \<and> log_rel now' l' lg'
    \<and> limits l' = limits l \<and> default_limit l' = default_limit l \<and> window l' = window l"
proof -
  let ?h = "sweep_if_due now' (window l) (history l)"
  note ag = log_rel_sweep [OF assms(1,2)]
  let ?q = "prune_expired (now' - window l) (queue_of ?h scope)"
  have cnt: "length ?q = in_window (window l) now' (lg scope)"
    using agrees_count [OF ag(1) [of scope]] .
  have pr: "agrees (window l) now' ?q (lg scope)" using agrees_prune [OF ag(1) [of scope]] .
  have b: "b = (length ?q < unat limit)"
    and l': "l' = l\<lparr>history := ?h\<lparr>by_scope := (by_scope ?h)(scope \<mapsto>
        (if length ?q < unat limit then ?q @ [now'] else ?q))\<rparr>\<rparr>"
    using assms(3) by (auto simp: acquire_from_def Let_def queue_of_def)
  have bb: "b' = b" "lg' = (if b then lg(scope := lg scope @ [now']) else lg)"
    using assms(4) cnt b by (auto simp: spec_acquire_def split: if_splits)
  have "queue_of (history l') s
      = (if s = scope then (if b then ?q @ [now'] else ?q) else queue_of ?h s)" for s
    by (simp add: l' b queue_of_def)
  then have "agrees (window l') now' (queue_of (history l') s) (lg' s)" for s
    using pr ag agrees_push [OF pr] bb(2) by (simp add: l')
  then show ?thesis using bb(1) ag(2) by (simp add: log_rel_def l')
qed

lemma record_refines:
  assumes "log_rel now l lg" and "now \<le> now'"
  shows "log_rel now' (record_request u d now' l) (lg(str_lower u d := lg (str_lower u d) @ [now']))"
proof -
  note ag = log_rel_sweep [OF assms]
  have "queue_of (history (record_request u d now' l)) s
      = (if s = str_lower u d then queue_of (sweep_if_due now' (window l) (history l)) s @ [now']
         else queue_of (sweep_if_due now' (window l) (history l)) s)" for s
    by (simp add: record_request_def Let_def queue_of_def)
  then show ?thesis
    using ag agrees_push [OF ag] by (auto simp: record_request_def Let_def intro!: log_relI)
qed

definition same_config :: "rate_limiter \<Rightarrow> rate_limiter \<Rightarrow> bool" where
  "same_config l l' \<longleftrightarrow> limits l' = limits l \<and> default_limit l' = default_limit l \<and> window l' = window l"

lemma get_limit_config: "same_config l l' \<Longrightarrow> get_limit u d l' = get_limit u d l"
  by (simp add: same_config_def get_limit_def split: option.split)

lemma exec_refines:
  assumes "log_rel now l lg" and "now \<le> now'" and "exec u op now' l = (a, l')"
    and "spec_exec u l op now' lg = (a', lg')"
  shows "a = a' \<and> log_rel now' l' lg' \<and> same_config l l'"
proof (cases op)
  case (OpCheck d)
  then show ?thesis using assms(3,4) count_recent_refines [OF assms(1,2)]
    by (fastforce simp: check_def same_config_def split: prod.splits)
next
  case (OpRecord d)
  then show ?thesis using assms(3,4) record_refines [OF assms(1,2), of u d]
    by (auto simp: same_config_def record_request_def Let_def)
next
  case (OpAcquire d)
  show ?thesis
  proof (cases "get_limit u (str_lower u d) l = 0")
    case True
    then show ?thesis using assms(3,4) OpAcquire log_rel_sweep [OF assms(1,2)]
      by (auto simp: try_acquire_def spec_acquire_def same_config_def intro!: log_relI)
  next
    case False
    then show ?thesis using assms(3,4) OpAcquire acquire_from_refines [OF assms(1,2)]
      by (fastforce simp: try_acquire_def same_config_def split: prod.splits)
  qed
next
  case (OpAcquireWith s n)
  show ?thesis
  proof (cases "n = 0")
    case True
    have "log_rel now' l lg" using assms(1,2) by (auto simp: log_rel_def intro: agrees_later)
    then show ?thesis using assms(3,4) OpAcquireWith True
      by (auto simp: try_acquire_with_limit_def spec_acquire_def same_config_def)
  next
    case False
    then show ?thesis using assms(3,4) OpAcquireWith acquire_from_refines [OF assms(1,2)]
      by (fastforce simp: try_acquire_with_limit_def same_config_def split: prod.splits)
  qed
next
  case (OpRemaining d)
  then show ?thesis using assms(3,4) count_recent_refines [OF assms(1,2)]
    by (fastforce simp: remaining_def same_config_def Let_def split: prod.splits)
qed

lemma spec_exec_config: "same_config l l' \<Longrightarrow> spec_exec u l' op now lg = spec_exec u l op now lg"
  by (cases op) (auto simp: get_limit_config [of l l'] same_config_def [of l l'])

lemma exec_all_refines:
  assumes "log_rel now l lg" and "sorted (now # map fst ops)" and "same_config cfg l"
  shows "fst (exec_all u ops l) = fst (spec_exec_all u cfg ops lg)"
  using assms
proof (induction ops arbitrary: now l lg)
  case Nil
  then show ?case by simp
next
  case (Cons x ops)
  obtain now' op where x: "x = (now', op)" by fastforce
  obtain a l' where e: "exec u op now' l = (a, l')" by fastforce
  obtain a' lg' where s: "spec_exec u l op now' lg = (a', lg')" by fastforce
  have le: "now \<le> now'" "sorted (now' # map fst ops)" using Cons.prems(2) x by auto
  have step: "a = a' \<and> log_rel now' l' lg' \<and> same_config l l'"
    using exec_refines [OF Cons.prems(1) le(1) e s] .
  have cfg: "spec_exec u cfg op now' lg = (a', lg')"
    using spec_exec_config [OF Cons.prems(3)] s by simp
  have "same_config cfg l'" using step Cons.prems(3) by (simp add: same_config_def)
  then show ?case using Cons.IH [of now' l' lg'] step le(2)
    by (simp add: x e cfg case_prod_unfold)
qed

section \<open>No window holds more than the limit\<close>

text \<open>The grants of a run of acquisitions: when and for which domain.\<close>

fun grants :: "unicode \<Rightarrow> (instant \<times> str) list \<Rightarrow> rate_limiter \<Rightarrow> (instant \<times> str) list" where
  "grants u [] l = []"
| "grants u ((now, d) # reqs) l =
     (case try_acquire u d now l of (b, l') \<Rightarrow>
        (if b then (now, str_lower u d) # grants u reqs l' else grants u reqs l'))"

definition granted_within :: "instant \<Rightarrow> int \<Rightarrow> instant list \<Rightarrow> nat" where
  "granted_within s win ts = length (filter (\<lambda>t. s < t \<and> t \<le> s + win) ts)"

lemma granted_push:
  assumes "\<forall>t \<in> set ts. t \<le> now" and "granted_within s win ts \<le> limit" and "in_window win now ts < limit"
  shows "granted_within s win (ts @ [now]) \<le> limit"
proof (cases "s < now \<and> now \<le> s + win")
  case True
  have "length (filter (\<lambda>t. s < t \<and> t \<le> s + win) ts) \<le> length (filter (\<lambda>t. now - win < t) ts)"
    using True by (induction ts) auto
  then show ?thesis using assms(3) True by (simp add: granted_within_def in_window_def)
next
  case False
  then have "filter (\<lambda>t. s < t \<and> t \<le> s + win) [now] = []" by simp
  then show ?thesis using assms(2) by (simp add: granted_within_def)
qed

lemma grants_bounded:
  assumes "log_rel now l lg" and "sorted (now # map fst reqs)" and "same_config cfg l"
    and "granted_within s (window cfg) (lg k) \<le> unat (get_limit u k cfg)"
  shows "granted_within s (window cfg) (lg k @ map fst (filter (\<lambda>g. snd g = k) (grants u reqs l)))
    \<le> unat (get_limit u k cfg)"
  using assms
proof (induction reqs arbitrary: now l lg)
  case Nil
  then show ?case by simp
next
  case (Cons x reqs)
  obtain now' d where x: "x = (now', d)" by fastforce
  obtain b l' where t: "try_acquire u d now' l = (b, l')" by fastforce
  let ?k = "str_lower u d"
  obtain b' lg' where s: "spec_acquire (window l) ?k (get_limit u ?k l) now' lg = (b', lg')" by fastforce
  have le: "now \<le> now'" "sorted (now' # map fst reqs)" using Cons.prems(2) x by auto
  have "exec u (OpAcquire d) now' l = (Allowed b, l')" using t by simp
  moreover have "spec_exec u l (OpAcquire d) now' lg = (Allowed b', lg')" using s by simp
  ultimately have step: "b = b' \<and> log_rel now' l' lg' \<and> same_config l l'"
    using exec_refines [OF Cons.prems(1) le(1)] by blast
  have cfg: "same_config cfg l'" using step Cons.prems(3) by (simp add: same_config_def)
  have lim: "get_limit u ?k l = get_limit u ?k cfg" "window l = window cfg"
    using get_limit_config [OF Cons.prems(3)] Cons.prems(3) by (simp_all add: same_config_def)
  have lg': "lg' = (if b then lg(?k := lg ?k @ [now']) else lg)"
    "b \<Longrightarrow> in_window (window cfg) now' (lg ?k) < unat (get_limit u ?k cfg)"
    using s step lim by (auto simp: spec_acquire_def split: if_splits)
  have past: "\<forall>t \<in> set (lg k). t \<le> now'"
    using Cons.prems(1) le(1) by (fastforce simp: log_rel_def agrees_def)
  have "granted_within s (window cfg) (lg' k) \<le> unat (get_limit u k cfg)"
    using granted_push [OF past Cons.prems(4)] lg' Cons.prems(4) by auto
  from Cons.IH [of now' l' lg', OF _ le(2) cfg this] step
  have "granted_within s (window cfg) (lg' k @ map fst (filter (\<lambda>g. snd g = k) (grants u reqs l')))
      \<le> unat (get_limit u k cfg)" by blast
  then show ?case by (cases b; cases "?k = k") (simp_all add: x t lg'(1))
qed

text \<open>A limiter nobody has asked yet, however its limits are set.\<close>

definition unused :: "rate_limiter \<Rightarrow> bool" where
  "unused l \<longleftrightarrow> by_scope (history l) = Map.empty \<and> 0 < window l"

lemma unused_rel: "unused l \<Longrightarrow> log_rel now l (\<lambda>_. [])"
  by (simp add: log_rel_def unused_def agrees_def queue_of_def)

section \<open>Properties\<close>

text \<open>C14. Forgetting is invisible: on any sequence of checks, records, acquisitions and queries at
  times that do not run backwards, the limiter answers exactly as one that remembers every request
  and counts those of the last window.\<close>

theorem limiter_answers_like_counting:
  assumes "unused l" and "sorted (map fst ops)"
  shows "fst (exec_all u ops l) = fst (spec_exec_all u l ops (\<lambda>_. []))"
proof (cases ops)
  case Nil
  then show ?thesis by simp
next
  case (Cons x rest)
  have "sorted (fst x # map fst ops)" using assms(2) Cons by auto
  from exec_all_refines [OF unused_rel [OF assms(1)] this, of l u] show ?thesis
    by (simp add: same_config_def)
qed

definition sample_ops :: "(instant \<times> limiter_op) list" where
  "sample_ops = [(0, OpAcquire (lit ''a.org'')), (1, OpAcquire (lit ''A.org'')),
     (2, OpRemaining (lit ''a.org'')), (60000000000, OpAcquire (lit ''a.org''))]"

theorem limiter_answers_like_counting_witness:
  "fst (spec_exec_all ascii_tables (new_limiter 0 1) sample_ops (\<lambda>_. []))
     = [Allowed True, Allowed False, Left 0, Allowed True]"
proof -
  have un: "unused (new_limiter 0 1)"
    by (simp add: unused_def new_limiter_def RATE_LIMIT_WINDOW_def)
  have so: "sorted (map fst sample_ops)" by (simp add: sample_ops_def)
  have "fst (exec_all ascii_tables sample_ops (new_limiter 0 1))
      = [Allowed True, Allowed False, Left 0, Allowed True]"
    by code_simp
  then show ?thesis using limiter_answers_like_counting [OF un so, of ascii_tables] by simp
qed

text \<open>C15. No window of the configured length, wherever it starts, contains more granted requests of
  one domain than that domain's limit.\<close>

theorem grants_per_window_bounded:
  assumes "unused l" and "sorted (map fst reqs)"
  shows "granted_within s (window l) (map fst (filter (\<lambda>g. snd g = k) (grants u reqs l)))
    \<le> unat (get_limit u k l)"
proof (cases reqs)
  case Nil
  then show ?thesis by (simp add: granted_within_def)
next
  case (Cons x rest)
  have "sorted (fst x # map fst reqs)" using assms(2) Cons by auto
  then show ?thesis
    using grants_bounded [OF unused_rel [OF assms(1)], of "fst x" reqs l s u k]
    by (simp add: same_config_def granted_within_def)
qed

theorem grants_per_window_bounded_witness:
  "grants ascii_tables [(0, lit ''a''), (1, lit ''A''), (60000000000, lit ''a'')] (new_limiter 0 1)
     = [(0, lit ''a''), (60000000000, lit ''a'')]
   \<and> granted_within 0 60000000000 [0, 60000000000] \<le> 1"
proof -
  let ?reqs = "[(0, lit ''a''), (1, lit ''A''), (60000000000, lit ''a'')] :: (instant \<times> str) list"
  have un: "unused (new_limiter 0 1)"
    by (simp add: unused_def new_limiter_def RATE_LIMIT_WINDOW_def)
  have so: "sorted (map fst ?reqs)" by simp
  have g: "grants ascii_tables ?reqs (new_limiter 0 1) = [(0, lit ''a''), (60000000000, lit ''a'')]"
    by code_simp
  have w: "window (new_limiter 0 1) = 60000000000"
    by (simp add: new_limiter_def RATE_LIMIT_WINDOW_def)
  have n: "unat (get_limit ascii_tables (lit ''a'') (new_limiter 0 1)) = 1" by code_simp
  show ?thesis
    using grants_per_window_bounded [OF un so, of 0 "lit ''a''" ascii_tables] g w n by simp
qed

text \<open>The documentation of \<^verbatim>\<open>retry_after\<close> promises a delay only when the domain is rate
  limited. It answers with a delay right after every granted request, however much of the budget is
  left.\<close>

theorem retry_after_without_limit:
  assumes "try_acquire u d now l = (True, l')" and "0 < window l"
  shows "\<exists>delay. retry_after u d now l' = Some delay \<and> 0 < delay"
proof -
  let ?k = "str_lower u d"
  let ?q = "prune_expired (now - window l) (queue_of (sweep_if_due now (window l) (history l)) ?k)"
  have l': "by_scope (history l') ?k = Some (?q @ [now])" "window l' = window l"
    using assms(1)
    by (auto simp: try_acquire_def acquire_from_def Let_def queue_of_def split: if_splits)
  show ?thesis
  proof (cases ?q)
    case Nil
    then show ?thesis using l' assms(2) by (simp add: retry_after_def)
  next
    case (Cons t ts)
    then have "now - window l < t"
      using hd_dropWhile [of "\<lambda>x. x \<le> now - window l"
          "queue_of (sweep_if_due now (window l) (history l)) ?k"]
      by (simp add: prune_expired_def)
    then show ?thesis using l' Cons by (simp add: retry_after_def)
  qed
qed

theorem retry_after_without_limit_witness:
  "\<exists>l'. try_acquire ascii_tables (lit ''a'') 5 (new_limiter 0 60) = (True, l')
     \<and> fst (remaining ascii_tables (lit ''a'') 5 l') = 59
     \<and> (\<exists>delay. retry_after ascii_tables (lit ''a'') 5 l' = Some delay \<and> 0 < delay)"
proof -
  obtain b l' where t: "try_acquire ascii_tables (lit ''a'') 5 (new_limiter 0 60) = (b, l')"
    by fastforce
  have "fst (try_acquire ascii_tables (lit ''a'') 5 (new_limiter 0 60))" by code_simp
  then have h: "try_acquire ascii_tables (lit ''a'') 5 (new_limiter 0 60) = (True, l')"
    using t by simp
  have "fst (remaining ascii_tables (lit ''a'') 5
      (snd (try_acquire ascii_tables (lit ''a'') 5 (new_limiter 0 60)))) = 59"
    by code_simp
  then have "fst (remaining ascii_tables (lit ''a'') 5 l') = 59" using h by simp
  moreover have "0 < window (new_limiter 0 60)" by (simp add: new_limiter_def RATE_LIMIT_WINDOW_def)
  ultimately show ?thesis using h retry_after_without_limit [OF h] by blast
qed

end
