(* ===== verification/Navigation.thy ===== *)
theory Navigation
  imports Archive_Entry Utf8 Ordered_Map
begin

text \<open>
  \<^verbatim>\<open>crates/core/src/archive/navigation.rs\<close>: the folder a user is looking at inside an archive,
  the back and forward history, and the rows shown for it. The CRC-32 of the crc32fast crate is a
  parameter, a function of the bytes it is fed.

  The lemmas give the laws of the history, show that the current path stays normalised, and describe
  the visible rows: direct children only, one per name, in order, with saturating folder totals.
\<close>

section \<open>History\<close>

record navigation_state =
  current_path :: str
  path_stack :: "str list"      \<comment> \<open>last element on top\<close>
  forward_stack :: "str list"

definition new_navigation :: navigation_state where
  "new_navigation = \<lparr>current_path = [], path_stack = [], forward_stack = []\<rparr>"

definition normalize_path :: "str \<Rightarrow> str" where
  "normalize_path path = join_on slash (filter (\<lambda>s. s \<noteq> []) (split_on is_separator path))"

definition navigate_to :: "str \<Rightarrow> navigation_state \<Rightarrow> navigation_state" where
  "navigate_to folder st =
     (let segment = normalize_path folder in
      if segment = [] then st
      else let current = normalize_path (current_path st) in
        st\<lparr>path_stack := (if current \<noteq> [] then path_stack st @ [current] else path_stack st),
           current_path := (if current = [] then segment else current @ slash # segment),
           forward_stack := []\<rparr>)"

definition navigate_to_absolute :: "str \<Rightarrow> navigation_state \<Rightarrow> navigation_state" where
  "navigate_to_absolute path st =
     (let new_path = normalize_path path in
      if new_path = current_path st then st
      else st\<lparr>path_stack := (if current_path st \<noteq> [] then path_stack st @ [current_path st]
                else path_stack st),
              current_path := new_path, forward_stack := []\<rparr>)"

definition navigate_back :: "navigation_state \<Rightarrow> bool \<times> navigation_state" where
  "navigate_back st =
     (if path_stack st \<noteq> []
      then (True, st\<lparr>path_stack := butlast (path_stack st),
              forward_stack := forward_stack st @ [current_path st],
              current_path := last (path_stack st)\<rparr>)
      else if current_path st \<noteq> []
      then (True, st\<lparr>forward_stack := forward_stack st @ [current_path st], current_path := []\<rparr>)
      else (False, st))"

definition navigate_forward :: "navigation_state \<Rightarrow> bool \<times> navigation_state" where
  "navigate_forward st =
     (if forward_stack st \<noteq> []
      then (True, st\<lparr>forward_stack := butlast (forward_stack st),
              path_stack := path_stack st @ [current_path st],
              current_path := last (forward_stack st)\<rparr>)
      else (False, st))"

definition navigate_up :: "navigation_state \<Rightarrow> bool \<times> navigation_state" where
  "navigate_up st =
     (if current_path st = [] then (False, st)
      else (case rsplit_once slash (current_path st) of
          Some (upper, _) \<Rightarrow>
            (True, st\<lparr>path_stack := path_stack st @ [current_path st], current_path := upper,
                      forward_stack := []\<rparr>)
        | None \<Rightarrow>
            (True, st\<lparr>path_stack := path_stack st @ [current_path st], current_path := [],
                      forward_stack := []\<rparr>)))"

definition can_go_back :: "navigation_state \<Rightarrow> bool" where
  "can_go_back st \<longleftrightarrow> path_stack st \<noteq> [] \<or> current_path st \<noteq> []"

definition can_go_forward :: "navigation_state \<Rightarrow> bool" where
  "can_go_forward st \<longleftrightarrow> forward_stack st \<noteq> []"

definition can_go_up :: "navigation_state \<Rightarrow> bool" where
  "can_go_up st \<longleftrightarrow> current_path st \<noteq> []"

definition set_current_path :: "str \<Rightarrow> navigation_state \<Rightarrow> navigation_state" where
  "set_current_path path st = st\<lparr>current_path := normalize_path path\<rparr>"

section \<open>Folders\<close>

text \<open>The proper prefixes of a path that end before a slash, longest first, without the empty one.\<close>

function parent_folders :: "str \<Rightarrow> str list" where
  "parent_folders path =
     (case rsplit_once slash path of
        None \<Rightarrow> []
      | Some (upper, _) \<Rightarrow> (if upper \<noteq> [] then [upper] else []) @ parent_folders upper)"
  by pat_completeness auto
termination
proof (relation "measure length", goal_cases)
  case (2 path x upper rest)
  then have "rev path = takeWhile (\<lambda>c. c \<noteq> slash) (rev path) @ dropWhile (\<lambda>c. c \<noteq> slash) (rev path)"
    "length upper < length (dropWhile (\<lambda>c. c \<noteq> slash) (rev path))"
    by (auto simp: rsplit_once_def split_once_def split: list.splits)
  then show ?case using length_dropWhile_le [of "\<lambda>c. c \<noteq> slash" "rev path"] by simp
qed simp

declare parent_folders.simps [simp del]

definition get_all_folders :: "archive_entry list \<Rightarrow> str list" where
  "get_all_folders entries =
     sort (remdups (concat (map (\<lambda>e.
       (if is_dir e then [normalize_path (entry_path e)] else [])
       @ parent_folders (normalize_path (entry_path e))) entries)))"

section \<open>Rows\<close>

record visible_archive_entry =
  vis_entry :: archive_entry
  archive_path :: str

definition folder_row :: "str \<Rightarrow> str \<Rightarrow> visible_archive_entry" where
  "folder_row name path =
     \<lparr>vis_entry = \<lparr>entry_path = name, entry_size = 0, packed_size = 0, modified = None,
        is_dir = True, encrypted = False, crc32 = None\<rparr>, archive_path = path\<rparr>"

text \<open>The row an entry contributes to the current folder.\<close>

definition entry_row :: "str \<Rightarrow> archive_entry \<Rightarrow> visible_archive_entry option" where
  "entry_row current e =
     (let pre = (if fwd current = [] then [] else fwd current @ [slash]);
          path = fwd (entry_path e)
      in if current = [] then
           (if slash \<notin> set path then Some \<lparr>vis_entry = e\<lparr>entry_path := path\<rparr>, archive_path = path\<rparr>
            else let folder = takeWhile (\<lambda>c. c \<noteq> slash) path in Some (folder_row folder folder))
         else if starts_with path pre then
           (let relative = drop (length pre) path in
            if relative = [] then None
            else if slash \<notin> set relative
            then Some \<lparr>vis_entry = e\<lparr>entry_path := relative\<rparr>, archive_path = path\<rparr>
            else let folder = takeWhile (\<lambda>c. c \<noteq> slash) relative
              in Some (folder_row folder (take (length pre + length folder) path)))
         else None)"

definition keep_modified ::
  "visible_archive_entry \<Rightarrow> visible_archive_entry \<Rightarrow> visible_archive_entry" where
  "keep_modified item existing =
     (if modified (vis_entry existing) = None \<and> modified (vis_entry item) \<noteq> None then item
      else existing)"

definition row_map :: "visible_archive_entry list \<Rightarrow> (str \<times> visible_archive_entry) list" where
  "row_map items =
     fold (\<lambda>item. bt_upsert (\<lambda>k. k) (entry_path (vis_entry item)) item (keep_modified item)) items []"

definition saturating_add :: "u64 \<Rightarrow> u64 \<Rightarrow> u64" where
  "saturating_add a b = (if a + b < a then - 1 else a + b)"

definition in_folder :: "str \<Rightarrow> archive_entry \<Rightarrow> bool" where
  "in_folder folder_path e \<longleftrightarrow>
     (let folder = normalize_path folder_path;
          pre = trim_end_by (\<lambda>c. c = slash) folder @ [slash];
          path = fwd (entry_path e)
      in \<not> is_dir e \<and> (path = folder \<or> starts_with path pre))"

definition compute_folder_totals :: "archive_entry list \<Rightarrow> str \<Rightarrow> u64 \<times> u64" where
  "compute_folder_totals entries folder_path =
     fold (\<lambda>e (bytes, packed).
       if in_folder folder_path e
       then (saturating_add bytes (entry_size e), saturating_add packed (packed_size e))
       else (bytes, packed)) entries (0, 0)"

text \<open>\<^verbatim>\<open>{:08X}\<close> of a 32-bit word.\<close>

definition hex_digit :: "nat \<Rightarrow> uchar" where
  "hex_digit d = (if d < 10 then 48 + int d else 55 + int d)"

definition hex8 :: "32 word \<Rightarrow> str" where
  "hex8 w = map (\<lambda>i. hex_digit (unat w div 16 ^ (7 - i) mod 16)) [0..<8]"

definition compute_folder_crc ::
  "unicode \<Rightarrow> (byte list \<Rightarrow> 32 word) \<Rightarrow> archive_entry list \<Rightarrow> str \<Rightarrow> str option" where
  "compute_folder_crc u crc entries folder_path =
     (let items = List.map_filter (\<lambda>e.
           if in_folder folder_path e
           then map_option (\<lambda>c. (fwd (entry_path e), str_upper u c)) (crc32 e) else None) entries
      in if items = [] then None
         else Some (hex8 (crc (concat (map (\<lambda>(p, c). as_bytes p @ as_bytes (lit '':'') @ as_bytes c
           @ as_bytes [10]) (sort_key fst items))))))"

definition fill_folder_row ::
  "unicode \<Rightarrow> (byte list \<Rightarrow> 32 word) \<Rightarrow> archive_entry list \<Rightarrow> visible_archive_entry
    \<Rightarrow> visible_archive_entry" where
  "fill_folder_row u crc entries item =
     (if is_dir (vis_entry item)
      then (case compute_folder_totals entries (archive_path item) of (bytes, packed) \<Rightarrow>
        item\<lparr>vis_entry := (vis_entry item)\<lparr>entry_size := bytes, packed_size := packed,
          crc32 := compute_folder_crc u crc entries (archive_path item)\<rparr>\<rparr>)
      else item)"

definition filter_entries_with_archive_paths ::
  "unicode \<Rightarrow> (byte list \<Rightarrow> 32 word) \<Rightarrow> navigation_state \<Rightarrow> archive_entry list
    \<Rightarrow> visible_archive_entry list" where
  "filter_entries_with_archive_paths u crc st entries =
     map (\<lambda>(_, item). fill_folder_row u crc entries item)
       (row_map (List.map_filter (entry_row (current_path st)) entries))"

definition filter_entries ::
  "unicode \<Rightarrow> (byte list \<Rightarrow> 32 word) \<Rightarrow> navigation_state \<Rightarrow> archive_entry list \<Rightarrow> archive_entry list" where
  "filter_entries u crc st entries =
     map vis_entry (filter_entries_with_archive_paths u crc st entries)"

section \<open>Laws of the history\<close>

lemmas navigation_defs = navigate_back_def navigate_forward_def navigate_up_def navigate_to_def
  navigate_to_absolute_def set_current_path_def

text \<open>A normalised path is a join of non-empty segments without separators.\<close>

definition normal_path :: "str \<Rightarrow> bool" where
  "normal_path p \<longleftrightarrow> (\<exists>ws. p = join_on slash ws \<and> (\<forall>w \<in> set ws. w \<noteq> [] \<and> (\<forall>c \<in> set w. \<not> is_separator c)))"

lemma normalize_path_normal [simp]: "normal_path (normalize_path p)"
  unfolding normal_path_def normalize_path_def
  by (rule exI [of _ "filter (\<lambda>s. s \<noteq> []) (split_on is_separator p)"])
     (auto dest: split_on_segments)

lemma normal_path_Nil [simp]: "normal_path []"
  unfolding normal_path_def by (rule exI [of _ "[]"]) simp

lemma join_on_append:
  "vs \<noteq> [] \<Longrightarrow> ws \<noteq> [] \<Longrightarrow> join_on d (vs @ ws) = join_on d vs @ d # join_on d ws"
  by (induction d vs rule: join_on.induct) (auto simp: join_on_Cons)

lemma normal_path_join: "normal_path a \<Longrightarrow> normal_path b \<Longrightarrow> a \<noteq> [] \<Longrightarrow> b \<noteq> [] \<Longrightarrow> normal_path (a @ slash # b)"
proof -
  assume "normal_path a" "normal_path b" "a \<noteq> []" "b \<noteq> []"
  then obtain vs ws where "a = join_on slash vs" "b = join_on slash ws" "vs \<noteq> []" "ws \<noteq> []"
    "\<forall>w \<in> set (vs @ ws). w \<noteq> [] \<and> (\<forall>c \<in> set w. \<not> is_separator c)"
    unfolding normal_path_def by (metis Un_iff join_on.simps(1) set_append)
  then show ?thesis unfolding normal_path_def
    by (intro exI [of _ "vs @ ws"]) (simp add: join_on_append)
qed

lemma rsplit_once_join:
  assumes "ws \<noteq> []" and "\<forall>c \<in> set w. c \<noteq> d"
  shows "rsplit_once d (join_on d (ws @ [w])) = Some (join_on d ws, w)"
proof -
  have t: "takeWhile (\<lambda>x. x \<noteq> d) (rev w @ d # rev (join_on d ws)) = rev w"
    "dropWhile (\<lambda>x. x \<noteq> d) (rev w @ d # rev (join_on d ws)) = d # rev (join_on d ws)"
    using assms(2) by (auto simp: takeWhile_append dropWhile_append)
  show ?thesis using assms(1) t by (simp add: rsplit_once_def split_once_def join_on_append)
qed

lemma rsplit_once_none: "\<forall>c \<in> set w. c \<noteq> d \<Longrightarrow> rsplit_once d w = None"
proof -
  assume "\<forall>c \<in> set w. c \<noteq> d"
  then have "dropWhile (\<lambda>x. x \<noteq> d) (rev w) = []" by auto
  then show ?thesis by (simp add: rsplit_once_def split_once_def del: dropWhile_eq_Nil_conv)
qed

text \<open>Going up removes exactly the last segment.\<close>

lemma navigate_up_segments:
  assumes "current_path st = join_on slash (ws @ [w])"
    and "\<forall>v \<in> set (ws @ [w]). v \<noteq> [] \<and> (\<forall>c \<in> set v. \<not> is_separator c)"
  shows "fst (navigate_up st) \<and> current_path (snd (navigate_up st)) = join_on slash ws"
proof -
  have w: "\<forall>c \<in> set w. c \<noteq> slash" using assms(2) by (auto simp: is_separator_def)
  have ne: "current_path st \<noteq> []" using assms by (cases "ws = []") (auto simp: join_on_append)
  show ?thesis
  proof (cases "ws = []")
    case True
    then show ?thesis using ne assms(1) rsplit_once_none [OF w] by (simp add: navigate_up_def)
  next
    case False
    then show ?thesis using ne assms(1) rsplit_once_join [OF False w] by (simp add: navigate_up_def)
  qed
qed

lemma normal_path_up:
  "normal_path (current_path st) \<Longrightarrow> normal_path (current_path (snd (navigate_up st)))"
proof -
  assume "normal_path (current_path st)"
  then obtain ws where ws: "current_path st = join_on slash ws"
    "\<forall>w \<in> set ws. w \<noteq> [] \<and> (\<forall>c \<in> set w. \<not> is_separator c)" by (auto simp: normal_path_def)
  show ?thesis
  proof (cases ws rule: rev_cases)
    case Nil
    then show ?thesis using ws by (simp add: navigate_up_def)
  next
    case (snoc vs w)
    then have "current_path (snd (navigate_up st)) = join_on slash vs"
      using navigate_up_segments [of st vs w] ws by simp
    then show ?thesis using ws(2) snoc by (auto simp: normal_path_def)
  qed
qed

text \<open>Every path the state holds is normalised.\<close>

definition nav_inv :: "navigation_state \<Rightarrow> bool" where
  "nav_inv st \<longleftrightarrow> normal_path (current_path st) \<and> (\<forall>p \<in> set (path_stack st @ forward_stack st). normal_path p)"

datatype nav_op =
  NavTo str | NavAbsolute str | NavBack | NavForward | NavUp | NavSet str

fun nav_exec :: "nav_op \<Rightarrow> navigation_state \<Rightarrow> navigation_state" where
  "nav_exec (NavTo f) st = navigate_to f st"
| "nav_exec (NavAbsolute p) st = navigate_to_absolute p st"
| "nav_exec NavBack st = snd (navigate_back st)"
| "nav_exec NavForward st = snd (navigate_forward st)"
| "nav_exec NavUp st = snd (navigate_up st)"
| "nav_exec (NavSet p) st = set_current_path p st"

lemma nav_exec_inv: "nav_inv st \<Longrightarrow> nav_inv (nav_exec op st)"
proof (cases op)
  case NavUp
  assume inv: "nav_inv st"
  have "set (path_stack (snd (navigate_up st)) @ forward_stack (snd (navigate_up st)))
      \<subseteq> insert (current_path st) (set (path_stack st @ forward_stack st))"
    by (auto simp: navigate_up_def split: option.splits prod.splits)
  then show ?thesis using inv normal_path_up NavUp by (auto simp: nav_inv_def)
qed (auto simp: nav_inv_def navigation_defs Let_def normal_path_join
       dest: in_set_butlastD last_in_set split: if_splits)

section \<open>Properties of the history\<close>

text \<open>Back and forward undo each other: going forward and then back restores the state exactly,
  going back and then forward returns to the same folder with the same forward history, and exactly
  the same state unless the step back was the implicit one to the root.\<close>

theorem back_forward_inverse:
  "(can_go_forward st \<longrightarrow> navigate_back (snd (navigate_forward st)) = (True, st))
   \<and> (path_stack st \<noteq> [] \<longrightarrow> navigate_forward (snd (navigate_back st)) = (True, st))
   \<and> (can_go_back st \<longrightarrow>
        current_path (snd (navigate_forward (snd (navigate_back st)))) = current_path st
        \<and> forward_stack (snd (navigate_forward (snd (navigate_back st)))) = forward_stack st)"
  by (auto simp: navigate_back_def navigate_forward_def can_go_forward_def can_go_back_def)

theorem back_forward_inverse_witness:
  "navigate_back (snd (navigate_forward
      \<lparr>current_path = lit ''a'', path_stack = [], forward_stack = [lit ''a/b'']\<rparr>))
   = (True, \<lparr>current_path = lit ''a'', path_stack = [], forward_stack = [lit ''a/b'']\<rparr>)"
  using back_forward_inverse [of "\<lparr>current_path = lit ''a'', path_stack = [], forward_stack = [lit ''a/b'']\<rparr>"]
  by (simp add: can_go_forward_def)

text \<open>The paths in the state stay normalised through any sequence of operations, and the three
  buttons are enabled exactly when their operation does something.\<close>

theorem navigation_invariant:
  "nav_inv (fold nav_exec ops new_navigation)
   \<and> (can_go_back st \<longleftrightarrow> fst (navigate_back st)) \<and> (can_go_forward st \<longleftrightarrow> fst (navigate_forward st))
   \<and> (can_go_up st \<longleftrightarrow> fst (navigate_up st))"
proof -
  have "nav_inv s \<Longrightarrow> nav_inv (fold nav_exec ops s)" for s
    by (induction ops arbitrary: s) (auto intro: nav_exec_inv)
  moreover have "nav_inv new_navigation" by (simp add: nav_inv_def new_navigation_def)
  ultimately show ?thesis
    by (auto simp: can_go_back_def can_go_forward_def can_go_up_def navigate_back_def
        navigate_forward_def navigate_up_def split: option.splits prod.splits)
qed

text \<open>The root is not remembered when a folder is opened from it: after visiting a folder, going
  to the root and opening another folder, going back shows the first folder and not the root.\<close>

theorem back_skips_root:
  "current_path (snd (navigate_back (navigate_to (lit ''B'') (navigate_to_absolute []
      (navigate_to (lit ''A'') new_navigation))))) = lit ''A''"
  by code_simp

section \<open>Rows and totals\<close>

abbreviation row_name :: "visible_archive_entry \<Rightarrow> str" where
  "row_name item \<equiv> entry_path (vis_entry item)"

definition folder_prefix :: "str \<Rightarrow> str" where
  "folder_prefix current = (if current = [] then [] else current @ [slash])"

lemma normal_path_fwd: "normal_path p \<Longrightarrow> fwd p = p"
proof -
  assume "normal_path p"
  then obtain ws where "p = join_on slash ws" "\<forall>w \<in> set ws. \<forall>c \<in> set w. \<not> is_separator c"
    by (auto simp: normal_path_def)
  then have "backslash \<notin> set p"
    using set_join_on [of slash ws] by (fastforce simp: is_separator_def)
  then show ?thesis by (simp add: replace_char_id)
qed

text \<open>What \<open>entry_row\<close> does, in terms of the part of the path below the current folder.\<close>

lemma entry_row_below:
  assumes "fwd current = current" and "fwd (entry_path e) = folder_prefix current @ rel"
    and "current = [] \<or> rel \<noteq> []"
  shows "\<exists>item. entry_row current e = Some item \<and> row_name item = takeWhile (\<lambda>c. c \<noteq> slash) rel
    \<and> archive_path item = folder_prefix current @ takeWhile (\<lambda>c. c \<noteq> slash) rel"
proof (cases "slash \<in> set rel")
  case True
  have "take (length (takeWhile (\<lambda>c. c \<noteq> slash) rel)) rel = takeWhile (\<lambda>c. c \<noteq> slash) rel"
    by (metis takeWhile_eq_take take_all_iff length_take nat_le_linear min.absorb1 min.absorb2 append_eq_conv_conj takeWhile_dropWhile_id)
  then show ?thesis using assms True
    by (cases "current = []")
       (auto simp: entry_row_def Let_def folder_prefix_def folder_row_def starts_with_iff)
next
  case False
  then have whole: "takeWhile (\<lambda>c. c \<noteq> slash) rel = rel" by (auto simp: takeWhile_eq_all_conv)
  show ?thesis unfolding whole using assms False
    by (cases "current = []")
       (auto simp: entry_row_def Let_def folder_prefix_def starts_with_iff)
qed

lemma entry_row_only_below:
  assumes "fwd current = current" and "entry_row current e = Some item"
  shows "\<exists>rel. fwd (entry_path e) = folder_prefix current @ rel \<and> (current = [] \<or> rel \<noteq> [])"
  using assms
  by (cases "current = []")
     (auto simp: entry_row_def Let_def folder_prefix_def starts_with_iff split: if_splits)

lemma row_map_facts:
  "bt_sorted (\<lambda>k. k) (row_map items)
   \<and> (\<forall>(k, item) \<in> set (row_map items). row_name item = k \<and> item \<in> set items)
   \<and> fst ` set (row_map items) = row_name ` set items"
proof -
  have "bt_sorted (\<lambda>k. k) (fold (\<lambda>item. bt_upsert (\<lambda>k. k) (row_name item) item (keep_modified item)) its m)
      \<and> (\<forall>(k, item) \<in> set (fold (\<lambda>item. bt_upsert (\<lambda>k. k) (row_name item) item (keep_modified item)) its m).
          row_name item = k \<and> item \<in> S \<union> set its)
      \<and> fst ` set (fold (\<lambda>item. bt_upsert (\<lambda>k. k) (row_name item) item (keep_modified item)) its m)
          = fst ` set m \<union> row_name ` set its"
    if "bt_sorted (\<lambda>k. k) m" "\<forall>(k, item) \<in> set m. row_name item = k \<and> item \<in> S" for its m S
    using that
  proof (induction its arbitrary: m S)
    case Nil
    then show ?case by simp
  next
    case (Cons it its)
    let ?m = "bt_upsert (\<lambda>k. k) (row_name it) it (keep_modified it) m"
    have "\<forall>(k, item) \<in> set ?m. row_name item = k \<and> item \<in> insert it S"
      by (rule bt_upsert_all) (use Cons.prems(2) in \<open>auto simp: keep_modified_def\<close>)
    moreover have "fst ` set ?m = insert (row_name it) (fst ` set m)"
      using bt_upsert_keys [of "\<lambda>k. k" "row_name it" it "keep_modified it" m] by (simp add: o_def)
    ultimately show ?case
      using Cons.IH [of ?m "insert it S"] bt_upsert_sorted [OF Cons.prems(1)] by simp
  qed
  from this [of "[]" "{}" items] show ?thesis by (simp add: row_map_def)
qed

lemma fill_folder_row_fields [simp]:
  "row_name (fill_folder_row u crc es item) = row_name item"
  "archive_path (fill_folder_row u crc es item) = archive_path item"
  by (simp_all add: fill_folder_row_def split: prod.splits)

lemma unat_lt_64: "unat (w :: u64) < 2 ^ 64"
  using unsigned_less [of w] by simp

lemma unat_saturating_add: "unat (saturating_add a b) = min (2 ^ 64 - 1) (unat a + unat b)"
proof -
  have ab: "unat a < 2 ^ 64" "unat b < 2 ^ 64" using unat_lt_64 by blast+
  have plus: "unat (a + b) = (unat a + unat b) mod 2 ^ 64" by (simp add: unat_word_ariths(1))
  show ?thesis
  proof (cases "unat a + unat b < 2 ^ 64")
    case True
    then have "\<not> a + b < a" using plus by (simp add: word_less_nat_alt)
    then show ?thesis using True plus by (simp add: saturating_add_def)
  next
    case False
    then have "(unat a + unat b) mod 2 ^ 64 = unat a + unat b - 2 ^ 64"
      using ab by (simp add: le_mod_geq)
    then have "a + b < a" using plus ab False by (simp add: word_less_nat_alt)
    then show ?thesis using False
      by (simp add: saturating_add_def unsigned_minus_1_eq_mask mask_eq_exp_minus_1)
  qed
qed

lemma folder_totals_fold:
  "unat (fst (fold (\<lambda>e (bytes, packed). if in_folder p e
        then (saturating_add bytes (entry_size e), saturating_add packed (packed_size e))
        else (bytes, packed)) es (a, b)))
     = min (2 ^ 64 - 1) (unat a + sum_list (map (unat \<circ> entry_size) (filter (in_folder p) es)))
   \<and> unat (snd (fold (\<lambda>e (bytes, packed). if in_folder p e
        then (saturating_add bytes (entry_size e), saturating_add packed (packed_size e))
        else (bytes, packed)) es (a, b)))
     = min (2 ^ 64 - 1) (unat b + sum_list (map (unat \<circ> packed_size) (filter (in_folder p) es)))"
proof (induction es arbitrary: a b)
  case Nil
  have "unat w \<le> 2 ^ 64 - 1" for w :: u64 using unat_lt_64 [of w] by simp
  then show ?case by (simp add: min_absorb2)
next
  case (Cons e es)
  then show ?case by (auto simp: unat_saturating_add min_def)
qed

section \<open>Properties of the rows\<close>

text \<open>The rows shown for a folder are its direct children, one per name and in name order; each
  row knows its path in the archive, stands for at least one entry at or below that path, and every
  entry below the folder is represented by the row of the child it belongs to.\<close>

theorem visible_rows_are_children:
  assumes "normal_path (current_path st)"
  shows "sorted_wrt (<) (map row_name (filter_entries_with_archive_paths u crc st es))
    \<and> (\<forall>row \<in> set (filter_entries_with_archive_paths u crc st es).
         slash \<notin> set (row_name row)
         \<and> archive_path row = folder_prefix (current_path st) @ row_name row
         \<and> (\<exists>e \<in> set es. \<exists>rest. fwd (entry_path e) = archive_path row @ rest
              \<and> (rest = [] \<or> hd rest = slash)))
    \<and> (\<forall>e \<in> set es. \<forall>rel. fwd (entry_path e) = folder_prefix (current_path st) @ rel
         \<longrightarrow> rel \<noteq> []
         \<longrightarrow> (\<exists>row \<in> set (filter_entries_with_archive_paths u crc st es).
               row_name row = takeWhile (\<lambda>c. c \<noteq> slash) rel))"
proof -
  let ?cur = "current_path st"
  let ?items = "List.map_filter (entry_row ?cur) es"
  let ?rows = "filter_entries_with_archive_paths u crc st es"
  have cur: "fwd ?cur = ?cur" using normal_path_fwd [OF assms] .
  have items: "item \<in> set ?items \<longleftrightarrow> (\<exists>e \<in> set es. entry_row ?cur e = Some item)" for item
    by (force simp: List.map_filter_def image_iff)
  note rm = row_map_facts [of ?items]
  have fsts: "map row_name ?rows = map fst (row_map ?items)"
    using rm by (auto simp: filter_entries_with_archive_paths_def)
  have one: "sorted_wrt (<) (map row_name ?rows)"
    using rm by (simp add: fsts bt_sorted_def o_def)
  have two: "slash \<notin> set (row_name row) \<and> archive_path row = folder_prefix ?cur @ row_name row
      \<and> (\<exists>e \<in> set es. \<exists>rest. fwd (entry_path e) = archive_path row @ rest \<and> (rest = [] \<or> hd rest = slash))"
    if mem: "row \<in> set ?rows" for row
  proof -
    obtain k item where item: "(k, item) \<in> set (row_map ?items)" "row = fill_folder_row u crc es item"
      using mem by (auto simp: filter_entries_with_archive_paths_def)
    then obtain e where e: "e \<in> set es" "entry_row ?cur e = Some item" using rm items by fastforce
    obtain rel where rel: "fwd (entry_path e) = folder_prefix ?cur @ rel" "?cur = [] \<or> rel \<noteq> []"
      using entry_row_only_below [OF cur e(2)] by blast
    have nm: "row_name row = takeWhile (\<lambda>c. c \<noteq> slash) rel"
      "archive_path row = folder_prefix ?cur @ takeWhile (\<lambda>c. c \<noteq> slash) rel"
      using entry_row_below [OF cur rel] e(2) item(2) by auto
    moreover have "slash \<notin> set (takeWhile (\<lambda>c. c \<noteq> slash) rel)" by (auto dest: set_takeWhileD)
    moreover have "fwd (entry_path e) = archive_path row @ dropWhile (\<lambda>c. c \<noteq> slash) rel"
      using rel(1) nm(2) by simp
    moreover have "dropWhile (\<lambda>c. c \<noteq> slash) rel = [] \<or> hd (dropWhile (\<lambda>c. c \<noteq> slash) rel) = slash"
      using hd_dropWhile [of "\<lambda>c. c \<noteq> slash" rel] by blast
    ultimately show ?thesis using e(1) by metis
  qed
  have three: "\<exists>row \<in> set ?rows. row_name row = takeWhile (\<lambda>c. c \<noteq> slash) rel"
    if e: "e \<in> set es" "fwd (entry_path e) = folder_prefix ?cur @ rel" "rel \<noteq> []" for e rel
  proof -
    obtain item where "entry_row ?cur e = Some item" "row_name item = takeWhile (\<lambda>c. c \<noteq> slash) rel"
      using entry_row_below [OF cur e(2)] e(3) by blast
    then have "takeWhile (\<lambda>c. c \<noteq> slash) rel \<in> row_name ` set ?items"
      using items e(1) by (metis image_eqI)
    then have "takeWhile (\<lambda>c. c \<noteq> slash) rel \<in> set (map row_name ?rows)"
      using rm fsts by simp
    then show ?thesis by auto
  qed
  show ?thesis using one two three by blast
qed

definition shown_entries :: "archive_entry list" where
  "shown_entries = [file_entry (lit ''m/b.txt'') 3, file_entry (lit ''m/x/y.txt'') 4,
     file_entry (lit ''other'') 1]"

definition shown_state :: navigation_state where
  "shown_state = navigate_to (lit ''m'') new_navigation"

theorem visible_rows_are_children_witness:
  "map row_name (filter_entries_with_archive_paths ascii_tables (\<lambda>_. 0) shown_state shown_entries)
     = [lit ''b.txt'', lit ''x'']
   \<and> sorted_wrt (<) [lit ''b.txt'', lit ''x'']"
proof -
  have c: "current_path shown_state = normalize_path (lit ''m'')" by code_simp
  have h: "normal_path (current_path shown_state)" unfolding c by simp
  have m: "map row_name (filter_entries_with_archive_paths ascii_tables (\<lambda>_. 0) shown_state shown_entries)
     = [lit ''b.txt'', lit ''x'']"
    by code_simp
  show ?thesis
    using visible_rows_are_children [OF h, of ascii_tables "\<lambda>_. 0" shown_entries] unfolding m by blast
qed

text \<open>The totals of a folder are the exact sums over the files at or below it, capped at the
  largest 64-bit number instead of wrapping.\<close>

theorem folder_totals_saturate:
  "unat (fst (compute_folder_totals es p))
     = min (2 ^ 64 - 1) (sum_list (map (unat \<circ> entry_size) (filter (in_folder p) es)))
   \<and> unat (snd (compute_folder_totals es p))
     = min (2 ^ 64 - 1) (sum_list (map (unat \<circ> packed_size) (filter (in_folder p) es)))"
  using folder_totals_fold [of p es 0 0] by (simp add: compute_folder_totals_def)

end
