(* ===== verification/Multipart.thy ===== *)
theory Multipart
  imports Archive_Entry Host_Path
begin

text \<open>
  \<^verbatim>\<open>crates/core/src/archive/multipart.rs\<close>: recognising a member of a split archive from its name
  and enumerating the set. The directory is a parameter, the names \<^verbatim>\<open>read_dir\<close> yields in its order
  and the file sizes, and stays the same during one call. The five fixed patterns of the source are
  anchored at both ends and are written out as functions on the name.

  The enumeration loops count upwards until a name is missing. They are run with as much fuel as the
  directory has names, and the lemmas show that this is always enough: a loop never stops for lack of
  fuel. They also show where the recogniser and the enumeration disagree.
\<close>

section \<open>The host\<close>

record host_dir =
  hd_tables :: unicode
  hd_sep :: "uchar \<Rightarrow> bool"
  hd_main_sep :: uchar
  dir_names :: "str \<Rightarrow> str list option"  \<comment> \<open>\<^verbatim>\<open>read_dir\<close>, names that are Unicode\<close>
  file_len :: "str \<Rightarrow> u64 option"         \<comment> \<open>\<^verbatim>\<open>metadata(p).len()\<close>\<close>

text \<open>\<^verbatim>\<open>Path::join\<close> with a plain file name.\<close>

definition host_join :: "host_dir \<Rightarrow> str \<Rightarrow> str \<Rightarrow> str" where
  "host_join fs parent name =
     (if parent = [] \<or> hd_sep fs (last parent) then parent @ name
      else parent @ hd_main_sep fs # name)"

definition resolve_ignoring_case :: "host_dir \<Rightarrow> str \<Rightarrow> str \<Rightarrow> str option" where
  "resolve_ignoring_case fs parent name_lower =
     Option.bind (dir_names fs parent) (\<lambda>names.
       map_option (host_join fs parent) (find (\<lambda>n. str_lower (hd_tables fs) n = name_lower) names))"

definition resolve_or_literal :: "host_dir \<Rightarrow> str \<Rightarrow> str \<Rightarrow> str" where
  "resolve_or_literal fs parent name_lower =
     (case resolve_ignoring_case fs parent name_lower of
        Some p \<Rightarrow> p | None \<Rightarrow> host_join fs parent name_lower)"

section \<open>Recognising\<close>

datatype multi_part_format = RarPart | RarSequence | SevenZip | ZipSplit | Generic001

record multi_part_archive =
  first_part :: str
  all_parts :: "str list"
  mp_format :: multi_part_format
  base_name :: str

record validation_result =
  is_complete :: bool
  found_parts :: "str list"
  missing_parts :: "str list"
  total_size :: u64

text \<open>\<^verbatim>\<open>(.+)\<close> of the regex crate: at least one character, no line feed.\<close>

definition dot_plus :: "str \<Rightarrow> bool" where
  "dot_plus s \<longleftrightarrow> s \<noteq> [] \<and> 10 \<notin> set s"

text \<open>The decimal digits at the end of a string, and what is before them.\<close>

definition end_digits :: "unicode \<Rightarrow> str \<Rightarrow> str \<times> str" where
  "end_digits u s = (rev (dropWhile (char_decimal u) (rev s)), rev (takeWhile (char_decimal u) (rev s)))"

text \<open>\<^verbatim>\<open>parse::<u32>()\<close> on a string of digits.\<close>

definition parse_u32 :: "str \<Rightarrow> nat option" where
  "parse_u32 s = (if s \<noteq> [] \<and> list_all is_ascii_digit s \<and> int (digits_value s) < 4294967296
     then Some (digits_value s) else None)"

text \<open>\<^verbatim>\<open>^(.+)\.part(\d+)\.rar$\<close>.\<close>

definition match_rar_part :: "unicode \<Rightarrow> str \<Rightarrow> (str \<times> str) option" where
  "match_rar_part u name =
     Option.bind (strip_suffix name (lit ''.rar'')) (\<lambda>s.
       case end_digits u s of (before, digits) \<Rightarrow>
         if digits = [] then None
         else Option.bind (strip_suffix before (lit ''.part'')) (\<lambda>b.
           if dot_plus b then Some (b, digits) else None))"

text \<open>A base, a dot and an extension without dots.\<close>

definition split_ext :: "(str \<Rightarrow> bool) \<Rightarrow> str \<Rightarrow> (str \<times> str) option" where
  "split_ext P name =
     (case rsplit_once dot name of
        Some (b, ext) \<Rightarrow> if dot_plus b \<and> P ext then Some (b, ext) else None
      | None \<Rightarrow> None)"

definition digits_between :: "unicode \<Rightarrow> nat \<Rightarrow> nat \<Rightarrow> str \<Rightarrow> bool" where
  "digits_between u lo hi s \<longleftrightarrow> lo \<le> length s \<and> length s \<le> hi \<and> list_all (char_decimal u) s"

definition rar_sequence_ext :: "unicode \<Rightarrow> str \<Rightarrow> bool" where
  "rar_sequence_ext u ext \<longleftrightarrow> ext = lit ''rar''
     \<or> (case ext of [] \<Rightarrow> False | c # ds \<Rightarrow> c = 114 \<and> digits_between u 2 3 ds)"

definition zip_split_ext :: "unicode \<Rightarrow> str \<Rightarrow> bool" where
  "zip_split_ext u ext \<longleftrightarrow> ext = lit ''zip''
     \<or> (case ext of [] \<Rightarrow> False | c # ds \<Rightarrow> c = 122 \<and> digits_between u 2 2 ds)"

definition match_7z_split :: "unicode \<Rightarrow> str \<Rightarrow> (str \<times> str) option" where
  "match_7z_split u name =
     (case rsplit_once dot name of
        Some (before, ds) \<Rightarrow>
          if digits_between u 3 3 ds
          then Option.bind (strip_suffix before (lit ''.7z'')) (\<lambda>b.
            if dot_plus b then Some (b, ds) else None)
          else None
      | None \<Rightarrow> None)"

definition mk_archive :: "str \<Rightarrow> multi_part_format \<Rightarrow> str \<Rightarrow> multi_part_archive" where
  "mk_archive first fmt base =
     \<lparr>first_part = first, all_parts = [], mp_format = fmt, base_name = base\<rparr>"

definition detect_rar_part :: "host_dir \<Rightarrow> str \<Rightarrow> str \<Rightarrow> multi_part_archive option" where
  "detect_rar_part fs path filename_lower =
     Option.bind (match_rar_part (hd_tables fs) filename_lower) (\<lambda>(base, digits).
     Option.bind (parse_u32 digits) (\<lambda>_.
     Option.bind (path_parent (hd_sep fs) path) (\<lambda>parent.
     Some (mk_archive (resolve_or_literal fs parent (base @ lit ''.part1.rar'')) RarPart base))))"

definition detect_rar_sequence :: "host_dir \<Rightarrow> str \<Rightarrow> str \<Rightarrow> multi_part_archive option" where
  "detect_rar_sequence fs path filename_lower =
     Option.bind (split_ext (rar_sequence_ext (hd_tables fs)) filename_lower) (\<lambda>(base, ext).
     Option.bind (path_parent (hd_sep fs) path) (\<lambda>parent.
       if ext = lit ''rar'' \<and> resolve_ignoring_case fs parent (base @ lit ''.r00'') = None then None
       else Some (mk_archive (resolve_or_literal fs parent (base @ lit ''.rar'')) RarSequence base)))"

definition detect_7z_split :: "host_dir \<Rightarrow> str \<Rightarrow> str \<Rightarrow> multi_part_archive option" where
  "detect_7z_split fs path filename_lower =
     Option.bind (match_7z_split (hd_tables fs) filename_lower) (\<lambda>(base, _).
     Option.bind (path_parent (hd_sep fs) path) (\<lambda>parent.
     Some (mk_archive (resolve_or_literal fs parent (base @ lit ''.7z.001'')) SevenZip base)))"

definition detect_zip_split :: "host_dir \<Rightarrow> str \<Rightarrow> str \<Rightarrow> multi_part_archive option" where
  "detect_zip_split fs path filename_lower =
     Option.bind (split_ext (zip_split_ext (hd_tables fs)) filename_lower) (\<lambda>(base, ext).
     Option.bind (path_parent (hd_sep fs) path) (\<lambda>parent.
       if ext = lit ''zip'' \<and> resolve_ignoring_case fs parent (base @ lit ''.z01'') = None then None
       else Some (mk_archive (resolve_or_literal fs parent (base @ lit ''.zip'')) ZipSplit base)))"

definition detect_generic_001 :: "host_dir \<Rightarrow> str \<Rightarrow> str \<Rightarrow> multi_part_archive option" where
  "detect_generic_001 fs path filename_lower =
     Option.bind (split_ext (digits_between (hd_tables fs) 3 3) filename_lower) (\<lambda>(base, digits).
     Option.bind (parse_u32 digits) (\<lambda>part_num.
       if part_num = 0 \<or> part_num > 999 then None
       else Option.bind (path_parent (hd_sep fs) path) (\<lambda>parent.
         Some (mk_archive (resolve_or_literal fs parent (base @ lit ''.001'')) Generic001 base))))"

text \<open>The detectors in order; the first that answers wins.\<close>

definition or_else :: "'a option \<Rightarrow> 'a option \<Rightarrow> 'a option" where
  "or_else a b = (case a of Some x \<Rightarrow> Some x | None \<Rightarrow> b)"

definition detect :: "host_dir \<Rightarrow> str \<Rightarrow> multi_part_archive option" where
  "detect fs path =
     Option.bind (path_file_name (hd_sep fs) path) (\<lambda>filename.
       let low = str_lower (hd_tables fs) filename in
       or_else (detect_rar_part fs path low)
         (or_else (detect_rar_sequence fs path low)
           (or_else (detect_7z_split fs path low)
             (or_else (detect_zip_split fs path low) (detect_generic_001 fs path low)))))"

section \<open>Enumerating\<close>

text \<open>The shared loop: ask for number \<open>n\<close>, \<open>n + 1\<close> and so on until one is not there.\<close>

fun collect_parts :: "nat \<Rightarrow> (nat \<Rightarrow> str option) \<Rightarrow> nat \<Rightarrow> str list" where
  "collect_parts 0 found n = []"
| "collect_parts (Suc fuel) found n =
     (case found n of Some p \<Rightarrow> p # collect_parts fuel found (Suc n) | None \<Rightarrow> [])"

definition dir_fuel :: "host_dir \<Rightarrow> str \<Rightarrow> nat" where
  "dir_fuel fs parent = (case dir_names fs parent of Some names \<Rightarrow> length names | None \<Rightarrow> 0)"

definition rar_part_at :: "host_dir \<Rightarrow> str \<Rightarrow> str \<Rightarrow> nat \<Rightarrow> str option" where
  "rar_part_at fs parent base n =
     resolve_ignoring_case fs parent (base @ lit ''.part'' @ nat_digits n @ lit ''.rar'')"

definition padded_at :: "host_dir \<Rightarrow> str \<Rightarrow> str \<Rightarrow> nat \<Rightarrow> nat \<Rightarrow> str option" where
  "padded_at fs parent stem w n = resolve_ignoring_case fs parent (stem @ pad_digits w n)"

definition rar_sequence_at :: "host_dir \<Rightarrow> str \<Rightarrow> str \<Rightarrow> nat \<Rightarrow> str option" where
  "rar_sequence_at fs parent base n =
     or_else (padded_at fs parent (base @ lit ''.r'') 2 n) (padded_at fs parent (base @ lit ''.r'') 3 n)"

definition find_rar_part_files :: "host_dir \<Rightarrow> str \<Rightarrow> str \<Rightarrow> str list" where
  "find_rar_part_files fs parent base = collect_parts (dir_fuel fs parent) (rar_part_at fs parent base) 1"

definition find_rar_sequence_files :: "host_dir \<Rightarrow> str \<Rightarrow> str \<Rightarrow> str list" where
  "find_rar_sequence_files fs parent base =
     (case resolve_ignoring_case fs parent (base @ lit ''.rar'') of Some p \<Rightarrow> [p] | None \<Rightarrow> [])
     @ collect_parts (dir_fuel fs parent) (rar_sequence_at fs parent base) 0"

definition find_7z_split_files :: "host_dir \<Rightarrow> str \<Rightarrow> str \<Rightarrow> str list" where
  "find_7z_split_files fs parent base =
     collect_parts (dir_fuel fs parent) (padded_at fs parent (base @ lit ''.7z.'') 3) 1"

definition find_zip_split_files :: "host_dir \<Rightarrow> str \<Rightarrow> str \<Rightarrow> str list" where
  "find_zip_split_files fs parent base =
     collect_parts (dir_fuel fs parent) (padded_at fs parent (base @ lit ''.z'') 2) 1
     @ (case resolve_ignoring_case fs parent (base @ lit ''.zip'') of Some p \<Rightarrow> [p] | None \<Rightarrow> [])"

definition find_generic_001_files :: "host_dir \<Rightarrow> str \<Rightarrow> str \<Rightarrow> str list" where
  "find_generic_001_files fs parent base =
     collect_parts (dir_fuel fs parent) (padded_at fs parent (base @ lit ''.'') 3) 1"

definition find_all_parts :: "host_dir \<Rightarrow> multi_part_archive \<Rightarrow> multi_part_archive option" where
  "find_all_parts fs a =
     map_option (\<lambda>parent. a\<lparr>all_parts := (case mp_format a of
         RarPart \<Rightarrow> find_rar_part_files fs parent (base_name a)
       | RarSequence \<Rightarrow> find_rar_sequence_files fs parent (base_name a)
       | SevenZip \<Rightarrow> find_7z_split_files fs parent (base_name a)
       | ZipSplit \<Rightarrow> find_zip_split_files fs parent (base_name a)
       | Generic001 \<Rightarrow> find_generic_001_files fs parent (base_name a))\<rparr>)
       (path_parent (hd_sep fs) (first_part a))"

definition find_missing_parts :: "multi_part_archive \<Rightarrow> str list" where
  "find_missing_parts a = []"

definition validate :: "host_dir \<Rightarrow> multi_part_archive \<Rightarrow> (validation_result \<times> multi_part_archive) option" where
  "validate fs a =
     map_option (\<lambda>a. (\<lparr>is_complete = (find_missing_parts a = [] \<and> all_parts a \<noteq> []),
         found_parts = all_parts a, missing_parts = find_missing_parts a,
         total_size = sum_list (List.map_filter (file_len fs) (all_parts a))\<rparr>, a))
       (if all_parts a = [] then find_all_parts fs a else Some a)"

definition part_count :: "multi_part_archive \<Rightarrow> nat" where
  "part_count a = length (all_parts a)"

definition is_multipart :: "multi_part_archive \<Rightarrow> bool" where
  "is_multipart a \<longleftrightarrow> length (all_parts a) > 1"

definition is_multipart_archive :: "host_dir \<Rightarrow> str \<Rightarrow> bool" where
  "is_multipart_archive fs path \<longleftrightarrow> detect fs path \<noteq> None"

section \<open>Numbers in names\<close>

section \<open>A numbered set of files\<close>

text \<open>What every enumeration loop relies on: a number that is found is the number of some name in the
  directory.\<close>

locale numbered_parts =
  fixes found :: "nat \<Rightarrow> str option" and names :: "str list" and num :: "str \<Rightarrow> nat"
  assumes found_named: "found n = Some p \<Longrightarrow> n \<in> num ` set names"
begin

lemma run_bounded:
  assumes "\<forall>i < k. found (n + i) \<noteq> None"
  shows "k \<le> length names"
proof -
  have "{n..<n + k} \<subseteq> num ` set names"
  proof
    fix m assume "m \<in> {n..<n + k}"
    then have "found m \<noteq> None" using assms [rule_format, of "m - n"] by auto
    then show "m \<in> num ` set names" using found_named by auto
  qed
  then have "card {n..<n + k} \<le> card (num ` set names)" by (intro card_mono) simp_all
  also have "\<dots> \<le> length names"
    by (meson List.finite_set card_image_le card_length le_trans)
  finally show ?thesis by simp
qed

lemma gap_exists: "\<exists>k. (\<forall>i < k. found (n + i) \<noteq> None) \<and> found (n + k) = None"
proof -
  have "\<exists>k. found (n + k) = None"
    using run_bounded [of "Suc (length names)" n] by (metis Suc_n_not_le_n)
  then obtain k where "found (n + k) = None" "\<forall>i < k. found (n + i) \<noteq> None"
    using exists_least_iff [of "\<lambda>k. found (n + k) = None"] by blast
  then show ?thesis by blast
qed

lemma collect_run:
  assumes "\<forall>i < k. found (n + i) \<noteq> None" and "found (n + k) = None" and "k \<le> fuel"
  shows "collect_parts fuel found n = map (\<lambda>i. the (found i)) [n..<n + k]"
  using assms
proof (induction k arbitrary: n fuel)
  case 0
  then show ?case by (cases fuel) auto
next
  case (Suc k)
  obtain fuel' where fuel: "fuel = Suc fuel'" "k \<le> fuel'" using Suc.prems(3) by (cases fuel) auto
  obtain p where p: "found n = Some p" using Suc.prems(1) by (metis add.right_neutral not_None_eq zero_less_Suc)
  have "collect_parts fuel' found (Suc n) = map (\<lambda>i. the (found i)) [Suc n..<Suc n + k]"
    by (rule Suc.IH) (use Suc.prems fuel(2) in \<open>auto dest: spec [of _ "Suc _"]\<close>)
  moreover have "[n..<n + Suc k] = n # [Suc n..<Suc n + k]" by (simp add: upt_conv_Cons del: upt_Suc)
  ultimately show ?case by (simp add: fuel(1) p del: upt_Suc)
qed

lemma enumeration_complete:
  "\<exists>k. collect_parts (length names) found n = map (\<lambda>i. the (found i)) [n..<n + k]
     \<and> list_all (\<lambda>i. found i \<noteq> None) [n..<n + k] \<and> found (n + k) = None"
proof -
  obtain k where k: "\<forall>i < k. found (n + i) \<noteq> None" "found (n + k) = None"
    using gap_exists by blast
  have "list_all (\<lambda>i. found i \<noteq> None) [n..<n + k]"
    unfolding list_all_iff
  proof
    fix m assume "m \<in> set [n..<n + k]"
    then show "found m \<noteq> None" using k(1) [rule_format, of "m - n"] by auto
  qed
  then show ?thesis using collect_run [OF k run_bounded [OF k(1)]] k(2) by blast
qed

end

definition names_in :: "host_dir \<Rightarrow> str \<Rightarrow> str list" where
  "names_in fs parent = (case dir_names fs parent of Some names \<Rightarrow> names | None \<Rightarrow> [])"

lemma dir_fuel_names: "dir_fuel fs parent = length (names_in fs parent)"
  by (simp add: dir_fuel_def names_in_def split: option.split)

text \<open>The number in a name: what follows the stem, without a suffix of known length.\<close>

definition name_number :: "host_dir \<Rightarrow> nat \<Rightarrow> nat \<Rightarrow> str \<Rightarrow> nat" where
  "name_number fs skip tail x =
     (let low = str_lower (hd_tables fs) x in digits_value (drop skip (take (length low - tail) low)))"

lemma resolve_named:
  "resolve_ignoring_case fs parent name = Some p \<Longrightarrow>
     \<exists>x \<in> set (names_in fs parent). str_lower (hd_tables fs) x = name \<and> p = host_join fs parent x"
  by (fastforce simp: resolve_ignoring_case_def names_in_def bind_eq_Some_conv find_Some_iff
      intro: nth_mem)

lemma padded_named:
  "padded_at fs parent stem w n = Some p \<Longrightarrow>
     n \<in> name_number fs (length stem) 0 ` set (names_in fs parent)"
  unfolding padded_at_def
  by (drule resolve_named) (force simp: name_number_def image_iff)

interpretation rar_parts: numbered_parts "rar_part_at fs parent base" "names_in fs parent"
    "name_number fs (length base + 5) 4" for fs parent base
proof
  fix n p
  assume "rar_part_at fs parent base n = Some p"
  then obtain x where x: "x \<in> set (names_in fs parent)"
    "str_lower (hd_tables fs) x = base @ lit ''.part'' @ nat_digits n @ lit ''.rar''"
    using resolve_named unfolding rar_part_at_def by blast
  define stem where "stem = base @ lit ''.part''"
  have low: "str_lower (hd_tables fs) x = (stem @ nat_digits n) @ lit ''.rar''"
    by (simp add: x(2) stem_def)
  have "length stem = length base + 5" by (simp add: stem_def)
  moreover have "take (length (stem @ nat_digits n)) ((stem @ nat_digits n) @ lit ''.rar'') = stem @ nat_digits n"
    by (metis append_eq_conv_conj)
  ultimately have "name_number fs (length base + 5) 4 x = n"
    unfolding name_number_def low Let_def by simp
  then show "n \<in> name_number fs (length base + 5) 4 ` set (names_in fs parent)" using x(1) by blast
qed

interpretation padded: numbered_parts "padded_at fs parent stem w" "names_in fs parent"
    "name_number fs (length stem) 0" for fs parent stem w
  by unfold_locales (rule padded_named)

interpretation rar_seq: numbered_parts "rar_sequence_at fs parent base" "names_in fs parent"
    "name_number fs (length (base @ lit ''.r'')) 0" for fs parent base
  by unfold_locales (auto simp: rar_sequence_at_def or_else_def split: option.splits dest!: padded_named)

section \<open>Properties\<close>

text \<open>A list of parts that runs from a first number to the first one that is missing.\<close>

definition runs_to_gap :: "(nat \<Rightarrow> str option) \<Rightarrow> nat \<Rightarrow> str list \<Rightarrow> bool" where
  "runs_to_gap found start parts \<longleftrightarrow>
     (\<exists>k. parts = map (\<lambda>i. the (found i)) [start..<start + k]
        \<and> list_all (\<lambda>i. found i \<noteq> None) [start..<start + k] \<and> found (start + k) = None)"


text \<open>What the enumeration of a \<^verbatim>\<open>.partN.rar\<close> set looks for is recognised as a member of that
  set: the file number \<open>n\<close> is detected with the same base name and format.\<close>

theorem rar_part_names_round_trip:
  assumes "dot_plus base" and "n < 4294967296"
    and "\<forall>c. c < 128 \<longrightarrow> char_decimal (hd_tables fs) c = is_ascii_digit c"
    and "path_file_name (hd_sep fs) path = Some file" and "path_parent (hd_sep fs) path = Some parent"
    and "str_lower (hd_tables fs) file = base @ lit ''.part'' @ nat_digits n @ lit ''.rar''"
  shows "\<exists>a. detect fs path = Some a \<and> mp_format a = RarPart \<and> base_name a = base"
proof -
  let ?u = "hd_tables fs"
  have dec: "list_all (char_decimal ?u) (nat_digits n)"
    using nat_digits_ascii [of n] assms(3) by (auto simp: list_all_iff is_ascii_digit_def)
  have t: "\<not> char_decimal ?u 116" using assms(3) by (simp add: is_ascii_digit_def)
  have "end_digits ?u ((base @ lit ''.part'') @ nat_digits n) = (base @ lit ''.part'', nat_digits n)"
    using dec t by (simp add: end_digits_def list_all_iff takeWhile_append dropWhile_append)
  moreover have "strip_suffix (base @ lit ''.part'' @ nat_digits n @ lit ''.rar'') (lit ''.rar'')
      = Some ((base @ lit ''.part'') @ nat_digits n)"
    unfolding strip_suffix_eq_Some by simp
  moreover have "strip_suffix (base @ lit ''.part'') (lit ''.part'') = Some base"
    unfolding strip_suffix_eq_Some by simp
  ultimately have m: "match_rar_part ?u (base @ lit ''.part'' @ nat_digits n @ lit ''.rar'')
      = Some (base, nat_digits n)"
    using assms(1) by (simp add: match_rar_part_def del: lit_Cons)
  have "parse_u32 (nat_digits n) = Some n"
    using assms(2) nat_digits_ascii by (simp add: parse_u32_def)
  then have "detect_rar_part fs path (str_lower ?u file) = Some (mk_archive
      (resolve_or_literal fs parent (base @ lit ''.part1.rar'')) RarPart base)"
    using m assms(5,6) by (simp add: detect_rar_part_def del: lit_Cons)
  then show ?thesis using assms(4) by (simp add: detect_def or_else_def mk_archive_def Let_def)
qed

definition sample_dir :: "str list \<Rightarrow> host_dir" where
  "sample_dir names = \<lparr>hd_tables = ascii_tables, hd_sep = (\<lambda>c. c = slash), hd_main_sep = slash,
     dir_names = (\<lambda>p. if p = lit ''d'' then Some names else None), file_len = (\<lambda>_. Some 10)\<rparr>"

theorem rar_part_names_round_trip_witness:
  "\<exists>a. detect (sample_dir []) (lit ''d/G.Part12.RAR'') = Some a \<and> base_name a = lit ''g''"
proof -
  let ?fs = "sample_dir []"
  have d: "dot_plus (lit ''g'')" by (simp add: dot_plus_def)
  have u: "\<forall>c. c < 128 \<longrightarrow> char_decimal (hd_tables ?fs) c = is_ascii_digit c"
    by (simp add: sample_dir_def ascii_tables_def)
  have f: "path_file_name (hd_sep ?fs) (lit ''d/G.Part12.RAR'') = Some (lit ''G.Part12.RAR'')"
    by code_simp
  have p: "path_parent (hd_sep ?fs) (lit ''d/G.Part12.RAR'') = Some (lit ''d'')" by code_simp
  have l: "str_lower (hd_tables ?fs) (lit ''G.Part12.RAR'')
      = lit ''g'' @ lit ''.part'' @ nat_digits 12 @ lit ''.rar''"
    by code_simp
  show ?thesis using rar_part_names_round_trip [OF d _ u f p l] by auto
qed

text \<open>A zero-padded set, the spelling WinRAR uses from ten volumes on, is recognised as a
  \<^verbatim>\<open>.partN.rar\<close> set but none of its files is found: the enumeration looks for
  \<^verbatim>\<open>part1\<close>, which is not there, and reports no parts at all.\<close>

theorem zero_padded_parts_not_found:
  "map_option (\<lambda>a. (mp_format a, base_name a, first_part a, map_option all_parts
        (find_all_parts (sample_dir [lit ''g.part01.rar'', lit ''g.part02.rar'']) a)))
      (detect (sample_dir [lit ''g.part01.rar'', lit ''g.part02.rar'']) (lit ''d/g.part01.rar''))
   = Some (RarPart, lit ''g'', lit ''d/g.part1.rar'', Some [])"
  by code_simp

text \<open>Validation does not notice a gap: a set whose second part is missing is reported complete,
  with no missing part, although its third part is there.\<close>

theorem validate_overlooks_gap:
  "map_option (\<lambda>r. (is_complete (fst r), found_parts (fst r), missing_parts (fst r)))
      (Option.bind (detect (sample_dir [lit ''g.7z.001'', lit ''g.7z.003'']) (lit ''d/g.7z.001''))
        (validate (sample_dir [lit ''g.7z.001'', lit ''g.7z.003''])))
   = Some (True, [lit ''d/g.7z.001''], [])"
  by code_simp

end
