(* ===== verification/File_System.thy ===== *)
theory File_System
  imports Utf8
begin

text \<open>
  The operations of \<^verbatim>\<open>std::fs\<close> the conversion feature uses, over an explicit tree of
  directories and files. A name is the sequence of bytes the host keeps, so a name that is not
  Unicode is a value like any other; a path is the list of names from the root. A directory lists its
  entries in the order \<^verbatim>\<open>read_dir\<close> yields them. Symbolic links are left out.

  A call can fail although its arguments are fine. Whether the n-th call does is the function
  \<open>io_fault\<close>, a parameter, and so is what a failing \<^verbatim>\<open>remove_dir_all\<close> leaves behind; every
  theorem about a program over this interface covers all of its error paths. The questions
  \<^verbatim>\<open>exists\<close>, \<^verbatim>\<open>is_file\<close> and \<^verbatim>\<open>is_dir\<close> are answered from the tree.

  The second half is a small program logic: \<open>io_ok P m Q E\<close> says that \<open>m\<close>, started in a tree
  with \<open>P\<close>, returns a value with \<open>Q\<close> or fails with \<open>E\<close>.
\<close>

section \<open>Trees\<close>

type_synonym os_name = "byte list"
type_synonym host_path = "os_name list"

datatype fs_node = FileNode "byte list" | DirNode "(os_name \<times> fs_node) list"

fun node_at :: "fs_node \<Rightarrow> host_path \<Rightarrow> fs_node option" where
  "node_at n [] = Some n"
| "node_at (FileNode _) (c # cs) = None"
| "node_at (DirNode es) (c # cs) =
     (case map_of es c of None \<Rightarrow> None | Some n \<Rightarrow> node_at n cs)"

definition file_at :: "fs_node \<Rightarrow> host_path \<Rightarrow> byte list option" where
  "file_at t p = (case node_at t p of Some (FileNode b) \<Rightarrow> Some b | _ \<Rightarrow> None)"

definition dir_at :: "fs_node \<Rightarrow> host_path \<Rightarrow> (os_name \<times> fs_node) list option" where
  "dir_at t p = (case node_at t p of Some (DirNode es) \<Rightarrow> Some es | _ \<Rightarrow> None)"

definition path_exists :: "fs_node \<Rightarrow> host_path \<Rightarrow> bool" where
  "path_exists t p \<longleftrightarrow> node_at t p \<noteq> None"

text \<open>Put a node at a path whose parent is a directory, and take one away.\<close>

fun put_at :: "fs_node \<Rightarrow> host_path \<Rightarrow> fs_node \<Rightarrow> fs_node" where
  "put_at n [] x = x"
| "put_at (FileNode b) (c # cs) x = FileNode b"
| "put_at (DirNode es) (c # cs) x =
     (if cs = [] then DirNode (AList.update c x es)
      else case map_of es c of
        None \<Rightarrow> DirNode es
      | Some n \<Rightarrow> DirNode (AList.update c (put_at n cs x) es))"

fun del_at :: "fs_node \<Rightarrow> host_path \<Rightarrow> fs_node" where
  "del_at n [] = n"
| "del_at (FileNode b) (c # cs) = FileNode b"
| "del_at (DirNode es) (c # cs) =
     (if cs = [] then DirNode (AList.delete c es)
      else case map_of es c of
        None \<Rightarrow> DirNode es
      | Some n \<Rightarrow> DirNode (AList.update c (del_at n cs) es))"

fun dir_chain :: "host_path \<Rightarrow> fs_node" where
  "dir_chain [] = DirNode []"
| "dir_chain (c # cs) = DirNode [(c, dir_chain cs)]"

text \<open>The missing directories of a path; \<open>None\<close> when a file is in the way.\<close>

fun mkdirs :: "fs_node \<Rightarrow> host_path \<Rightarrow> fs_node option" where
  "mkdirs (FileNode _) p = None"
| "mkdirs (DirNode es) [] = Some (DirNode es)"
| "mkdirs (DirNode es) (c # cs) =
     (case map_of es c of
        None \<Rightarrow> Some (DirNode (AList.update c (dir_chain cs) es))
      | Some n \<Rightarrow> map_option (\<lambda>n'. DirNode (AList.update c n' es)) (mkdirs n cs))"

text \<open>\<^verbatim>\<open>read_dir\<close> skips the entries of the directory itself and of its parent.\<close>

definition normal_name :: "os_name \<Rightarrow> bool" where
  "normal_name n \<longleftrightarrow> n \<noteq> [] \<and> n \<noteq> as_bytes [dot] \<and> n \<noteq> as_bytes [dot, dot]"

definition listed :: "(os_name \<times> fs_node) list \<Rightarrow> (os_name \<times> fs_node) list" where
  "listed es = filter (\<lambda>(n, _). normal_name n) es"

text \<open>\<^verbatim>\<open>Path::join\<close> with a single name, as the place it denotes below an existing directory.\<close>

definition join_name :: "host_path \<Rightarrow> os_name \<Rightarrow> host_path" where
  "join_name p n =
     (if n = [] \<or> n = as_bytes [dot] then p
      else if n = as_bytes [dot, dot] then butlast p
      else p @ [n])"

section \<open>Calls\<close>

record host_state =
  hs_tree :: fs_node
  hs_calls :: nat

record io_env =
  io_fault :: "nat \<Rightarrow> bool"
  io_residue :: "nat \<Rightarrow> fs_node \<Rightarrow> fs_node"

type_synonym ('e, 'a) io = "host_state \<Rightarrow> ('e + 'a) \<times> host_state"

definition io_ret :: "'a \<Rightarrow> ('e, 'a) io" where
  "io_ret x s = (Inr x, s)"

definition io_fail :: "'e \<Rightarrow> ('e, 'a) io" where
  "io_fail e s = (Inl e, s)"

definition io_get :: "(fs_node \<Rightarrow> 'a) \<Rightarrow> ('e, 'a) io" where
  "io_get f s = (Inr (f (hs_tree s)), s)"

definition io_bind :: "('e, 'a) io \<Rightarrow> ('a \<Rightarrow> ('e, 'b) io) \<Rightarrow> ('e, 'b) io" where
  "io_bind m f s = (case m s of (Inl e, s') \<Rightarrow> (Inl e, s') | (Inr x, s') \<Rightarrow> f x s')"

text \<open>\<^verbatim>\<open>match m { Ok(x) => f(x), Err(e) => g(e) }\<close>.\<close>

definition io_match ::
  "('e, 'a) io \<Rightarrow> ('a \<Rightarrow> ('d, 'b) io) \<Rightarrow> ('e \<Rightarrow> ('d, 'b) io) \<Rightarrow> ('d, 'b) io" where
  "io_match m f g s = (case m s of (Inl e, s') \<Rightarrow> g e s' | (Inr x, s') \<Rightarrow> f x s')"

fun io_for :: "'x list \<Rightarrow> ('x \<Rightarrow> 'a \<Rightarrow> ('e, 'a) io) \<Rightarrow> 'a \<Rightarrow> ('e, 'a) io" where
  "io_for [] body acc = io_ret acc"
| "io_for (x # xs) body acc = io_bind (body x acc) (io_for xs body)"

text \<open>One call: it counts, it can fail, and otherwise maps the tree to an answer and a tree.\<close>

definition io_call :: "'z io_env_scheme \<Rightarrow> 'e \<Rightarrow> (fs_node \<Rightarrow> ('a \<times> fs_node) option) \<Rightarrow> ('e, 'a) io" where
  "io_call env e f s =
     (let s' = s\<lparr>hs_calls := Suc (hs_calls s)\<rparr> in
      if io_fault env (hs_calls s) then (Inl e, s')
      else case f (hs_tree s) of
        None \<Rightarrow> (Inl e, s')
      | Some (x, t) \<Rightarrow> (Inr x, s'\<lparr>hs_tree := t\<rparr>))"

definition read_dir :: "'z io_env_scheme \<Rightarrow> 'e \<Rightarrow> host_path \<Rightarrow> ('e, (os_name \<times> fs_node) list) io" where
  "read_dir env e p = io_call env e (\<lambda>t. map_option (\<lambda>es. (listed es, t)) (dir_at t p))"

text \<open>Going through the entries of an open directory, which can fail at any of them.\<close>

definition read_entries ::
  "'z io_env_scheme \<Rightarrow> 'e \<Rightarrow> (os_name \<times> fs_node) list \<Rightarrow> ('e, (os_name \<times> fs_node) list) io" where
  "read_entries env e es = io_call env e (\<lambda>t. Some (listed es, t))"

definition read_file :: "'z io_env_scheme \<Rightarrow> 'e \<Rightarrow> host_path \<Rightarrow> ('e, byte list) io" where
  "read_file env e p = io_call env e (\<lambda>t. map_option (\<lambda>b. (b, t)) (file_at t p))"

definition create_dir_all :: "'z io_env_scheme \<Rightarrow> 'e \<Rightarrow> host_path \<Rightarrow> ('e, unit) io" where
  "create_dir_all env e p = io_call env e (\<lambda>t. map_option (\<lambda>t'. ((), t')) (mkdirs t p))"

definition remove_file :: "'z io_env_scheme \<Rightarrow> 'e \<Rightarrow> host_path \<Rightarrow> ('e, unit) io" where
  "remove_file env e p = io_call env e (\<lambda>t.
     case file_at t p of None \<Rightarrow> None | Some _ \<Rightarrow> Some ((), del_at t p))"

definition remove_dir :: "'z io_env_scheme \<Rightarrow> 'e \<Rightarrow> host_path \<Rightarrow> ('e, unit) io" where
  "remove_dir env e p = io_call env e (\<lambda>t.
     if p \<noteq> [] \<and> dir_at t p = Some [] then Some ((), del_at t p) else None)"

text \<open>\<^verbatim>\<open>rename(2)\<close>: a file replaces a file, a directory an empty directory, and no directory moves
  below itself.\<close>

definition rename_tree :: "fs_node \<Rightarrow> host_path \<Rightarrow> host_path \<Rightarrow> fs_node option" where
  "rename_tree t a b =
     (case node_at t a of
        None \<Rightarrow> None
      | Some n \<Rightarrow>
          if a = b then Some t
          else if prefix a b \<or> b = [] \<or> dir_at t (butlast b) = None then None
          else if (case node_at t b of
                     None \<Rightarrow> True
                   | Some (FileNode _) \<Rightarrow> dir_at t a = None
                   | Some (DirNode es) \<Rightarrow> es = [] \<and> dir_at t a \<noteq> None)
          then Some (put_at (del_at t a) b n)
          else None)"

definition rename :: "'z io_env_scheme \<Rightarrow> 'e \<Rightarrow> host_path \<Rightarrow> host_path \<Rightarrow> ('e, unit) io" where
  "rename env e a b = io_call env e (\<lambda>t. map_option (\<lambda>t'. ((), t')) (rename_tree t a b))"

text \<open>\<^verbatim>\<open>remove_dir_all\<close> deletes entry by entry, so a failing call leaves some rest of the
  directory.\<close>

definition remove_dir_all :: "'z io_env_scheme \<Rightarrow> 'e \<Rightarrow> host_path \<Rightarrow> ('e, unit) io" where
  "remove_dir_all env e p s =
     (let n = hs_calls s; t = hs_tree s; s' = s\<lparr>hs_calls := Suc n\<rparr> in
      case node_at t p of
        Some (DirNode es) \<Rightarrow>
          if p = [] \<or> io_fault env n
          then (Inl e, s'\<lparr>hs_tree := put_at t p (io_residue env n (DirNode es))\<rparr>)
          else (Inr (), s'\<lparr>hs_tree := del_at t p\<rparr>)
      | _ \<Rightarrow> (Inl e, s'))"

section \<open>Looking up after a change\<close>

lemma node_at_append: "node_at t (p @ q) = Option.bind (node_at t p) (\<lambda>n. node_at n q)"
  by (induction t p rule: node_at.induct) (auto split: option.splits)

lemma file_at_Nil [simp]: "file_at (FileNode b) [] = Some b" "file_at (DirNode es) [] = None"
  by (simp_all add: file_at_def)

lemma file_at_Cons [simp]:
  "file_at (FileNode b) (c # cs) = None"
  "file_at (DirNode es) (c # cs) = (case map_of es c of None \<Rightarrow> None | Some n \<Rightarrow> file_at n cs)"
  by (auto simp: file_at_def split: option.splits)

lemma file_at_exists: "file_at t q = Some b \<Longrightarrow> prefix p q \<Longrightarrow> node_at t p \<noteq> None"
  by (auto simp: file_at_def prefix_def node_at_append bind_eq_Some_conv split: option.splits)

lemma map_of_update [simp]: "map_of (AList.update k v es) = (map_of es)(k \<mapsto> v)"
  by (rule ext) (simp add: update_conv')

lemma map_of_delete [simp]: "map_of (AList.delete k es) = (map_of es)(k := None)"
  by (rule ext) (simp add: delete_conv')

lemma map_of_listed: "map_of (listed es) n = (if normal_name n then map_of es n else None)"
  by (induction es) (auto simp: listed_def)

lemma join_name_normal [simp]: "normal_name n \<Longrightarrow> join_name p n = p @ [n]"
  by (simp add: join_name_def normal_name_def)

lemma size_listed: "size (DirNode (listed es)) \<le> size (DirNode es)"
  by (induction es) (auto simp: listed_def)

text \<open>A change at \<open>p\<close> is seen at \<open>p\<close> and below and nowhere else.\<close>

lemma file_at_put_other: "\<not> prefix p q \<Longrightarrow> file_at (put_at t p x) q = file_at t q"
proof (induction t p x arbitrary: q rule: put_at.induct)
  case (3 es c cs x)
  show ?case
  proof (cases q)
    case Nil
    then show ?thesis by (simp split: option.splits)
  next
    case (Cons d ds)
    then show ?thesis using "3.IH" [of _ ds] "3.prems"
      by (auto split: option.splits if_splits)
  qed
qed auto

lemma file_at_del_other: "\<not> prefix p q \<Longrightarrow> file_at (del_at t p) q = file_at t q"
proof (induction t p arbitrary: q rule: del_at.induct)
  case (3 es c cs)
  show ?case
  proof (cases q)
    case Nil
    then show ?thesis by (simp split: option.splits)
  next
    case (Cons d ds)
    then show ?thesis using "3.IH" [of _ ds] "3.prems"
      by (auto split: option.splits if_splits)
  qed
qed auto

lemma file_at_dir_chain [simp]: "file_at (dir_chain p) q = None"
proof (induction p arbitrary: q)
  case Nil
  then show ?case by (cases q) auto
next
  case (Cons c cs)
  then show ?case by (cases q) auto
qed

lemma file_at_mkdirs: "mkdirs t p = Some t' \<Longrightarrow> file_at t' q = file_at t q"
proof (induction t p arbitrary: q t' rule: mkdirs.induct)
  case (3 es c cs)
  then show ?case by (cases q) (auto split: option.splits if_splits)
qed auto

lemma node_at_mkdirs: "mkdirs t p = Some t' \<Longrightarrow> node_at t' p \<noteq> None"
proof (induction t p arbitrary: t' rule: mkdirs.induct)
  case (3 es c cs)
  have "node_at (dir_chain cs) cs \<noteq> None" by (induction cs) auto
  then show ?case using 3 by (auto split: option.splits)
qed auto

lemma file_at_rename_other:
  "rename_tree t a b = Some t' \<Longrightarrow> \<not> prefix a q \<Longrightarrow> \<not> prefix b q \<Longrightarrow> file_at t' q = file_at t q"
  by (auto simp: rename_tree_def file_at_put_other file_at_del_other split: option.splits if_splits)

text \<open>The node itself, at the place of the change and beside it.\<close>

lemma node_at_put_below:
  "p \<noteq> [] \<Longrightarrow> dir_at t (butlast p) \<noteq> None \<Longrightarrow> node_at (put_at t p x) (p @ q) = node_at x q"
proof (induction t p x rule: put_at.induct)
  case (3 es c cs x)
  then show ?case by (auto simp: dir_at_def split: option.splits if_splits)
qed (auto simp: dir_at_def split: if_splits)

lemma node_at_put_same: "p \<noteq> [] \<Longrightarrow> dir_at t (butlast p) \<noteq> None \<Longrightarrow> node_at (put_at t p x) p = Some x"
  using node_at_put_below [of p t x "[]"] by simp

lemma node_at_put_parallel:
  "\<not> prefix p q \<Longrightarrow> \<not> prefix q p \<Longrightarrow> node_at (put_at t p x) q = node_at t q"
proof (induction t p x arbitrary: q rule: put_at.induct)
  case (3 es c cs x)
  then show ?case by (cases q) (auto split: option.splits if_splits)
qed auto

lemma node_at_del_same: "p \<noteq> [] \<Longrightarrow> node_at (del_at t p) p = None"
proof (induction t p rule: del_at.induct)
  case (3 es c cs)
  then show ?case by (auto split: option.splits if_splits)
qed auto

lemma node_at_del_parallel:
  "\<not> prefix p q \<Longrightarrow> \<not> prefix q p \<Longrightarrow> node_at (del_at t p) q = node_at t q"
proof (induction t p arbitrary: q rule: del_at.induct)
  case (3 es c cs)
  then show ?case by (cases q) (auto split: option.splits if_splits)
qed auto

text \<open>A directory on the way stays one.\<close>

lemma dir_at_put_above:
  "strict_prefix q p \<Longrightarrow> dir_at (put_at t p x) q = None \<longleftrightarrow> dir_at t q = None"
proof (induction t p x arbitrary: q rule: put_at.induct)
  case (3 es c cs x)
  show ?case
  proof (cases q)
    case Nil
    then show ?thesis by (simp add: dir_at_def split: option.splits)
  next
    case (Cons d ds)
    then show ?thesis using 3 by (auto simp: dir_at_def split: option.splits if_splits)
  qed
qed auto

lemma dir_at_del_above:
  "strict_prefix q p \<Longrightarrow> dir_at (del_at t p) q = None \<longleftrightarrow> dir_at t q = None"
proof (induction t p arbitrary: q rule: del_at.induct)
  case (3 es c cs)
  show ?case
  proof (cases q)
    case Nil
    then show ?thesis by (simp add: dir_at_def split: option.splits)
  next
    case (Cons d ds)
    then show ?thesis using 3 by (auto simp: dir_at_def split: option.splits if_splits)
  qed
qed auto

lemma dir_at_parallel:
  "\<not> prefix p q \<Longrightarrow> \<not> prefix q p \<Longrightarrow> dir_at (put_at t p x) q = dir_at t q"
  "\<not> prefix p q \<Longrightarrow> \<not> prefix q p \<Longrightarrow> dir_at (del_at t p) q = dir_at t q"
  by (simp_all add: dir_at_def node_at_put_parallel node_at_del_parallel)

lemma node_at_put_above:
  "q \<noteq> [] \<Longrightarrow> node_at (put_at t (p @ q) x) p = map_option (\<lambda>n. put_at n q x) (node_at t p)"
proof (induction t p rule: node_at.induct)
  case (1 t)
  then show ?case by (cases q) auto
next
  case (2 b c cs)
  then show ?case by simp
next
  case (3 es c cs)
  then show ?case by (auto split: option.splits)
qed

text \<open>Making directories adds nothing but directories.\<close>

lemma node_at_mkdirs_below: "mkdirs t p = Some t' \<Longrightarrow> node_at t' (p @ [c]) = node_at t (p @ [c])"
proof (induction t p arbitrary: t' rule: mkdirs.induct)
  case (3 es d ds)
  have "node_at (dir_chain ds) (ds @ [c]) = None" by (induction ds) auto
  then show ?case using 3 by (auto split: option.splits)
qed auto

lemma node_at_mkdirs_other:
  "mkdirs t p = Some t' \<Longrightarrow> node_at t q = Some n \<Longrightarrow> \<not> prefix q p \<Longrightarrow> node_at t' q = Some n"
proof (induction t p arbitrary: t' q rule: mkdirs.induct)
  case (3 es c cs)
  then show ?case by (cases q) (auto split: option.splits if_splits)
qed auto

lemma dir_at_Nil [simp]: "dir_at (FileNode b) p = None" "dir_at (DirNode es) [] = Some es"
  by (cases p; simp add: dir_at_def)+

lemma dir_at_Cons [simp]:
  "dir_at (DirNode es) (c # cs) = (case map_of es c of None \<Rightarrow> None | Some n \<Rightarrow> dir_at n cs)"
  by (auto simp: dir_at_def split: option.splits)

lemma dir_at_mkdirs: "mkdirs t p = Some t' \<Longrightarrow> dir_at t' p \<noteq> None"
proof (induction t p arbitrary: t' rule: mkdirs.induct)
  case (3 es c cs)
  have "dir_at (dir_chain cs) cs \<noteq> None" by (induction cs) auto
  then show ?case using 3 by (auto split: option.splits)
qed auto

text \<open>A rename between two places beside each other.\<close>

lemma rename_tree_parallel:
  assumes "\<not> prefix a b" "\<not> prefix b a" "node_at t a = Some n" "node_at t b = None"
    and "dir_at t (butlast b) \<noteq> None"
  shows "rename_tree t a b = Some (put_at (del_at t a) b n)"
  using assms by (auto simp: rename_tree_def)

text \<open>An empty directory has no file in it.\<close>

lemma file_at_empty_dir: "dir_at t p = Some [] \<Longrightarrow> prefix p q \<Longrightarrow> file_at t q = None"
proof -
  assume "dir_at t p = Some []" "prefix p q"
  then obtain r where "node_at t p = Some (DirNode [])" "q = p @ r"
    by (auto simp: dir_at_def prefix_def split: option.splits fs_node.splits)
  then show ?thesis by (cases r) (auto simp: file_at_def node_at_append)
qed

section \<open>A program logic\<close>

definition io_ok ::
  "(fs_node \<Rightarrow> bool) \<Rightarrow> ('e, 'a) io \<Rightarrow> ('a \<Rightarrow> fs_node \<Rightarrow> bool) \<Rightarrow> (fs_node \<Rightarrow> bool) \<Rightarrow> bool" where
  "io_ok P m Q E \<longleftrightarrow> (\<forall>s. P (hs_tree s) \<longrightarrow>
     (\<forall>x s'. m s = (Inr x, s') \<longrightarrow> Q x (hs_tree s'))
     \<and> (\<forall>e s'. m s = (Inl e, s') \<longrightarrow> E (hs_tree s')))"

lemma io_okD:
  "io_ok P m Q E \<Longrightarrow> P (hs_tree s) \<Longrightarrow> m s = (Inr x, s') \<Longrightarrow> Q x (hs_tree s')"
  "io_ok P m Q E \<Longrightarrow> P (hs_tree s) \<Longrightarrow> m s = (Inl e, s') \<Longrightarrow> E (hs_tree s')"
  by (auto simp: io_ok_def)

lemma io_ok_weaken:
  assumes "io_ok P' m Q' E'" "\<And>t. P t \<Longrightarrow> P' t" "\<And>x t. Q' x t \<Longrightarrow> Q x t" "\<And>t. E' t \<Longrightarrow> E t"
  shows "io_ok P m Q E"
  using assms unfolding io_ok_def by meson

text \<open>A fact that does not speak of the tree is carried along.\<close>

lemma io_ok_fact: "(c \<Longrightarrow> io_ok P m Q E) \<Longrightarrow> io_ok (\<lambda>t. P t \<and> c) m (\<lambda>x t. Q x t \<and> c) E"
  unfolding io_ok_def by blast

lemma io_ok_any: "io_ok P m (\<lambda>_ _. True) (\<lambda>_. True)"
  by (simp add: io_ok_def)

lemma io_ok_false: "(\<And>t. \<not> P t) \<Longrightarrow> io_ok P m Q E"
  by (simp add: io_ok_def)

lemma io_ok_ret: "(\<And>t. P t \<Longrightarrow> Q x t) \<Longrightarrow> io_ok P (io_ret x) Q E"
  by (simp add: io_ok_def io_ret_def)

lemma io_ok_fail: "(\<And>t. P t \<Longrightarrow> E t) \<Longrightarrow> io_ok P (io_fail e) Q E"
  by (simp add: io_ok_def io_fail_def)

lemma io_ok_get: "(\<And>t. P t \<Longrightarrow> Q (f t) t) \<Longrightarrow> io_ok P (io_get f) Q E"
  by (simp add: io_ok_def io_get_def)

lemma io_ok_bind:
  assumes "io_ok P m R E" "\<And>x. io_ok (R x) (f x) Q E"
  shows "io_ok P (io_bind m f) Q E"
  using assms unfolding io_ok_def io_bind_def by (auto split: prod.splits sum.splits; blast)

lemma io_ok_match:
  assumes "io_ok P m R D" "\<And>x. io_ok (R x) (f x) Q E" "\<And>e. io_ok D (g e) Q E"
  shows "io_ok P (io_match m f g) Q E"
  using assms unfolding io_ok_def io_match_def by (auto split: prod.splits sum.splits; blast)

lemma io_ok_for:
  assumes "\<And>x acc. x \<in> set xs \<Longrightarrow> io_ok (I acc) (body x acc) I E"
  shows "io_ok (I acc) (io_for xs body acc) I E"
  using assms
proof (induction xs arbitrary: acc)
  case Nil
  then show ?case by (simp add: io_ok_ret)
next
  case (Cons x xs)
  have "io_ok (I acc) (body x acc) I E" using Cons.prems by simp
  moreover have "io_ok (I acc') (io_for xs body acc') I E" for acc'
    using Cons.prems by (intro Cons.IH) simp
  ultimately show ?case unfolding io_for.simps by (rule io_ok_bind)
qed

lemma io_ok_if:
  "(b \<Longrightarrow> io_ok P m Q E) \<Longrightarrow> (\<not> b \<Longrightarrow> io_ok P m' Q E) \<Longrightarrow> io_ok P (if b then m else m') Q E"
  by simp

lemma io_ok_call:
  assumes "\<And>t. P t \<Longrightarrow> E t" "\<And>t x t'. P t \<Longrightarrow> f t = Some (x, t') \<Longrightarrow> Q x t'"
  shows "io_ok P (io_call env e f) Q E"
  using assms by (auto simp: io_ok_def io_call_def Let_def split: option.splits)

text \<open>Reading calls answer from the tree and leave it alone.\<close>

lemma io_ok_read_dir:
  "(\<And>t. P t \<Longrightarrow> E t) \<Longrightarrow> (\<And>t es. P t \<Longrightarrow> dir_at t p = Some es \<Longrightarrow> Q (listed es) t) \<Longrightarrow>
     io_ok P (read_dir env e p) Q E"
  unfolding read_dir_def by (rule io_ok_call) auto

lemma io_ok_read_entries:
  "(\<And>t. P t \<Longrightarrow> E t) \<Longrightarrow> (\<And>t. P t \<Longrightarrow> Q (listed es) t) \<Longrightarrow> io_ok P (read_entries env e es) Q E"
  unfolding read_entries_def by (rule io_ok_call) auto

lemma io_ok_read_file:
  "(\<And>t. P t \<Longrightarrow> E t) \<Longrightarrow> (\<And>t b. P t \<Longrightarrow> file_at t p = Some b \<Longrightarrow> Q b t) \<Longrightarrow>
     io_ok P (read_file env e p) Q E"
  unfolding read_file_def by (rule io_ok_call) auto

text \<open>A computation that keeps every property of the tree.\<close>

definition io_pure :: "('e, 'a) io \<Rightarrow> bool" where
  "io_pure m \<longleftrightarrow> (\<forall>s. hs_tree (snd (m s)) = hs_tree s)"

lemma io_pure_ok: "io_pure m \<Longrightarrow> io_ok P m (\<lambda>_. P) P"
  unfolding io_pure_def io_ok_def by (metis snd_conv)

lemma io_pure_basic [simp]:
  "io_pure (io_ret x)" "io_pure (io_fail e)" "io_pure (io_get f)"
  "io_pure (read_dir env e p)" "io_pure (read_entries env e es)" "io_pure (read_file env e p)"
  by (auto simp: io_pure_def io_ret_def io_fail_def io_get_def read_dir_def read_entries_def
      read_file_def io_call_def Let_def split: option.splits)

lemma io_pure_bind [simp]: "io_pure m \<Longrightarrow> (\<And>x. io_pure (f x)) \<Longrightarrow> io_pure (io_bind m f)"
  by (auto simp: io_pure_def io_bind_def split: prod.splits sum.splits) (metis snd_conv)+

lemma io_pure_match [simp]:
  "io_pure m \<Longrightarrow> (\<And>x. io_pure (f x)) \<Longrightarrow> (\<And>e. io_pure (g e)) \<Longrightarrow> io_pure (io_match m f g)"
  by (auto simp: io_pure_def io_match_def split: prod.splits sum.splits) (metis snd_conv)+

lemma io_pure_for [simp]: "(\<And>x acc. io_pure (body x acc)) \<Longrightarrow> io_pure (io_for xs body acc)"
  by (induction xs arbitrary: acc) auto

end
