(* ===== verification/Flatten.thy ===== *)
theory Flatten
  imports Diagnose Title_Filter
begin

text \<open>
  \<^verbatim>\<open>crates/core/src/features/conversion\<close>: \<^verbatim>\<open>mod.rs\<close> (the conversion options and the
  common prefix of names) and \<^verbatim>\<open>flatten.rs\<close> (archives found in a directory tree are unpacked to
  sibling folders and removed). The callback that unpacks an archive is the field
  \<open>fe_extractor\<close>: given the number of the call, the tree, the archive and the destination it answers
  with success or a message and with the tree it leaves. Paths are those of Unix.

  The lemmas show how folder names come about, that no file is lost on any path through the code,
  failing calls included, that a pass accounts for every archive, and what the recursive run returns.
\<close>

section \<open>Conversion options\<close>

datatype convert_format = ConvertZip | ConvertSevenZ

fun format_extension :: "convert_format \<Rightarrow> str" where
  "format_extension ConvertZip = lit ''zip''"
| "format_extension ConvertSevenZ = lit ''7z''"

fun format_sevenz_flag :: "convert_format \<Rightarrow> str" where
  "format_sevenz_flag ConvertZip = lit ''-tzip''"
| "format_sevenz_flag ConvertSevenZ = lit ''-t7z''"

datatype compression_level = FastLevel | NormalLevel | MaxLevel

fun level_sevenz_flag :: "compression_level \<Rightarrow> str" where
  "level_sevenz_flag FastLevel = lit ''-mx=1''"
| "level_sevenz_flag NormalLevel = lit ''-mx=5''"
| "level_sevenz_flag MaxLevel = lit ''-mx=9''"

record convert_options =
  co_format :: convert_format
  co_compression :: compression_level
  co_password :: "str option"
  co_flatten_nested :: bool
  co_strip_common_prefix :: bool
  co_output_path :: "host_path option"

definition default_convert_options :: convert_options where
  "default_convert_options = \<lparr>co_format = ConvertZip, co_compression = NormalLevel,
     co_password = None, co_flatten_nested = False, co_strip_common_prefix = False,
     co_output_path = None\<rparr>"

section \<open>Names\<close>

definition common_chars :: "str \<Rightarrow> str \<Rightarrow> nat" where
  "common_chars a b = length (takeWhile (\<lambda>(x, y). x = y) (zip a b))"

text \<open>The loop over the other names; \<open>None\<close> is the early return of the empty string.\<close>

fun prefix_len_loop :: "str \<Rightarrow> nat \<Rightarrow> str list \<Rightarrow> nat option" where
  "prefix_len_loop first n [] = Some n"
| "prefix_len_loop first n (name # names) =
     (let m = min n (common_chars first name) in
      if m = 0 then None else prefix_len_loop first m names)"

definition longest_common_prefix_of :: "str list \<Rightarrow> str" where
  "longest_common_prefix_of names =
     (case names of
        [] \<Rightarrow> []
      | [_] \<Rightarrow> []
      | first # others \<Rightarrow>
          (case prefix_len_loop first (str_len first) others of
             None \<Rightarrow> []
           | Some n \<Rightarrow> let p = take n first in if str_len p < 5 then [] else p))"

definition archive_extensions :: "str list" where
  "archive_extensions = [lit ''rar'', lit ''zip'', lit ''7z'', lit ''tar'', lit ''tgz'']"

definition is_archive_filename :: "unicode \<Rightarrow> str \<Rightarrow> bool" where
  "is_archive_filename u name \<longleftrightarrow>
     list_ex (\<lambda>ext. ends_with (str_lower u name) (dot # ext)) archive_extensions"

text \<open>The slice \<^verbatim>\<open>name[..name.len() - suffix.len()]\<close> panics when the difference is negative or
  lies inside a character: \<open>None\<close>.\<close>

definition strip_archive_extension :: "unicode \<Rightarrow> str \<Rightarrow> str option" where
  "strip_archive_extension u name =
     (case find (\<lambda>ext. ends_with (str_lower u name) (dot # ext)) archive_extensions of
        None \<Rightarrow> Some name
      | Some ext \<Rightarrow>
          (let n = str_len (dot # ext) in
           if str_len name < n then None else truncate_bytes (str_len name - n) name))"

definition would_produce_broken_names :: "unicode \<Rightarrow> str list \<Rightarrow> str \<Rightarrow> bool" where
  "would_produce_broken_names u names pre =
     list_ex (\<lambda>name. case strip_prefix name pre of
         None \<Rightarrow> False
       | Some [] \<Rightarrow> True
       | Some (c # _) \<Rightarrow> \<not> char_alphanumeric u c) names"

definition file_name_str :: "host_path \<Rightarrow> str option" where
  "file_name_str p = (if p = [] then None else from_utf8 (last p))"

fun sequence_opt :: "'a option list \<Rightarrow> 'a list option" where
  "sequence_opt [] = Some []"
| "sequence_opt (x # xs) =
     Option.bind x (\<lambda>y. map_option ((#) y) (sequence_opt xs))"

definition base_names_of :: "unicode \<Rightarrow> host_path list \<Rightarrow> str list option" where
  "base_names_of u archives =
     sequence_opt (map (strip_archive_extension u) (List.map_filter file_name_str archives))"

definition folder_name_of :: "str \<Rightarrow> str \<Rightarrow> str" where
  "folder_name_of pre base =
     (if pre \<noteq> [] \<and> starts_with base pre
      then (let stripped = drop (length pre) base in if stripped = [] then base else stripped)
      else base)"

definition strip_candidate :: "unicode \<Rightarrow> str list \<Rightarrow> bool \<Rightarrow> str" where
  "strip_candidate u base_names strip_pre =
     (if strip_pre
      then (let candidate = longest_common_prefix_of base_names in
            if candidate \<noteq> [] \<and> would_produce_broken_names u base_names candidate then []
            else candidate)
      else [])"

definition target_folder_names ::
  "unicode \<Rightarrow> host_path list \<Rightarrow> bool \<Rightarrow> (host_path \<times> str) list option" where
  "target_folder_names u archives strip_pre =
     map_option (\<lambda>base_names.
         map (\<lambda>(path, base). (path, folder_name_of (strip_candidate u base_names strip_pre) base))
           (zip archives base_names))
       (base_names_of u archives)"

section \<open>Flattening\<close>

record flatten_env = diag_env +
  fe_pid :: nat
  fe_extractor :: "nat \<Rightarrow> fs_node \<Rightarrow> host_path \<Rightarrow> host_path \<Rightarrow> (str + unit) \<times> fs_node"

datatype flatten_error =
    ReadingDir host_path
  | CreatingFolder host_path
  | RenamingToTemp host_path
  | RemovingWrapper host_path
  | RenamingTempTo host_path
  | Promoting host_path host_path
  | RenamingTo host_path host_path
  | FlattenPanic

record flatten_report =
  extracted :: "str list"
  skipped :: "str list"
  failed :: "(str \<times> str) list"
  warnings :: "mod_warning list"

definition empty_report :: flatten_report where
  "empty_report = \<lparr>extracted = [], skipped = [], failed = [], warnings = []\<rparr>"

definition report_total :: "flatten_report \<Rightarrow> nat" where
  "report_total r = length (extracted r) + length (skipped r) + length (failed r)"

definition success_count :: "flatten_report \<Rightarrow> nat" where
  "success_count r = length (extracted r)"

definition is_archive_entry :: "unicode \<Rightarrow> os_name \<Rightarrow> bool" where
  "is_archive_entry u n = (case from_utf8 n of None \<Rightarrow> False | Some s \<Rightarrow> is_archive_filename u s)"

definition find_archive_files ::
  "'z diag_env_scheme \<Rightarrow> host_path \<Rightarrow> (flatten_error, host_path list) io" where
  "find_archive_files env dir =
     io_bind (read_dir env (ReadingDir dir) dir) (\<lambda>es.
       io_ret (map (\<lambda>(n, _). dir @ [n])
         (filter (\<lambda>(n, x). \<not> is_dir_node x \<and> is_archive_entry (de_tables env) n) es)))"

function walk_entries ::
  "'z diag_env_scheme \<Rightarrow> host_path \<Rightarrow> (os_name \<times> fs_node) list \<Rightarrow> host_path list
     \<Rightarrow> (flatten_error, host_path list) io" where
  "walk_entries env dir [] archives = io_ret archives"
| "walk_entries env dir ((n, FileNode b) # es) archives =
     walk_entries env dir es
       (if is_archive_entry (de_tables env) n then archives @ [dir @ [n]] else archives)"
| "walk_entries env dir ((n, DirNode ds) # es) archives =
     io_bind
       (io_bind (read_entries env (ReadingDir (dir @ [n])) ds)
          (\<lambda>_. walk_entries env (dir @ [n]) (listed ds) archives))
       (\<lambda>archives'. walk_entries env dir es archives')"
  by pat_completeness auto
termination
  by (relation "measure (\<lambda>(env, dir, es, archives). size (DirNode es))")
     (auto simp: size_listed less_Suc_eq_le intro: le_trans [OF size_listed [simplified]])

definition find_archive_files_recursive ::
  "'z diag_env_scheme \<Rightarrow> host_path \<Rightarrow> (flatten_error, host_path list) io" where
  "find_archive_files_recursive env dir =
     io_bind (read_dir env (ReadingDir dir) dir) (\<lambda>es. walk_entries env dir es [])"

text \<open>Promote the single folder an archive unpacked to.\<close>

definition tmp_name :: "nat \<Rightarrow> str \<Rightarrow> str" where
  "tmp_name pid inner = lit ''.arclain_flatten_tmp_'' @ nat_digits pid @ underscore # inner"

definition promote_inner ::
  "'z flatten_env_scheme \<Rightarrow> host_path \<Rightarrow> os_name \<Rightarrow> str \<Rightarrow> (flatten_error, str option) io" where
  "promote_inner env dest n inner_name =
     (if dest = [] then io_ret None
      else let inner_path = dest @ [n]; parent = butlast dest;
               final_dest = join_name parent (as_bytes inner_name) in
        if final_dest = dest then
          let tmp = join_name parent (as_bytes (tmp_name (fe_pid env) inner_name)) in
          io_bind (rename env (RenamingToTemp inner_path) inner_path tmp) (\<lambda>_.
          io_bind (remove_dir env (RemovingWrapper dest) dest) (\<lambda>_.
          io_bind (rename env (RenamingTempTo final_dest) tmp final_dest) (\<lambda>_.
            io_ret (Some inner_name))))
        else
          io_bind (io_get (\<lambda>t. path_exists t final_dest)) (\<lambda>taken.
            if taken then io_ret None
            else
              io_bind (rename env (Promoting inner_path final_dest) inner_path final_dest) (\<lambda>_.
              io_bind (remove_dir env (RemovingWrapper dest) dest) (\<lambda>_.
                io_ret (Some inner_name)))))"

definition unwrap_single_root_folder ::
  "'z flatten_env_scheme \<Rightarrow> host_path \<Rightarrow> (flatten_error, str option) io" where
  "unwrap_single_root_folder env dest =
     io_bind (read_dir env (ReadingDir dest) dest) (\<lambda>es.
       case es of
         [(n, DirNode _)] \<Rightarrow>
           (case from_utf8 n of None \<Rightarrow> io_ret None | Some inner_name \<Rightarrow> promote_inner env dest n inner_name)
       | _ \<Rightarrow> io_ret None)"

definition rename_to_modinfo_name ::
  "'z flatten_env_scheme \<Rightarrow> host_path \<Rightarrow> (flatten_error, str option) io" where
  "rename_to_modinfo_name env folder =
     io_bind (modinfo_parse env folder) (\<lambda>info.
       case Option.bind info mi_name of
         None \<Rightarrow> io_ret None
       | Some mod_name \<Rightarrow>
           if file_name_str folder = Some mod_name then io_ret None
           else if folder = [] then io_ret None
           else let target = join_name (butlast folder) (as_bytes mod_name) in
             io_bind (io_get (\<lambda>t. path_exists t target)) (\<lambda>taken.
               if taken then io_ret None
               else io_bind (rename env (RenamingTo folder target) folder target) (\<lambda>_.
                 io_ret (Some mod_name))))"

definition run_extractor :: "'z flatten_env_scheme \<Rightarrow> host_path \<Rightarrow> host_path \<Rightarrow> (str, unit) io" where
  "run_extractor env archive dest s =
     (case fe_extractor env (hs_calls s) (hs_tree s) archive dest of
        (r, t) \<Rightarrow> (r, s\<lparr>hs_tree := t, hs_calls := Suc (hs_calls s)\<rparr>))"

definition io_or :: "('e, 'a option) io \<Rightarrow> 'a \<Rightarrow> ('d, 'a) io" where
  "io_or m d = io_match m (\<lambda>r. io_ret (case r of Some x \<Rightarrow> x | None \<Rightarrow> d)) (\<lambda>_. io_ret d)"

text \<open>The body of the loop over the archives of one pass.\<close>

definition flatten_one ::
  "'z flatten_env_scheme \<Rightarrow> host_path \<Rightarrow> host_path \<times> str \<Rightarrow> flatten_report
     \<Rightarrow> (flatten_error, flatten_report) io" where
  "flatten_one env dir target report =
     (let (archive_path, folder_name) = target;
          dest_parent = (if archive_path = [] then dir else butlast archive_path);
          dest_folder = join_name dest_parent (as_bytes folder_name) in
      io_bind (io_get (\<lambda>t. path_exists t dest_folder)) (\<lambda>taken.
        if taken then io_ret (report\<lparr>skipped := skipped report @ [folder_name]\<rparr>)
        else
          io_bind (create_dir_all env (CreatingFolder dest_folder) dest_folder) (\<lambda>_.
          io_match (run_extractor env archive_path dest_folder)
            (\<lambda>_.
              io_bind (io_match (remove_file env () archive_path) io_ret (\<lambda>_. io_ret ())) (\<lambda>_.
              io_bind (io_or (unwrap_single_root_folder env dest_folder) folder_name) (\<lambda>name.
              io_bind (io_or (rename_to_modinfo_name env (join_name dest_parent (as_bytes name))) name)
                (\<lambda>final_name. io_ret (report\<lparr>extracted := extracted report @ [final_name]\<rparr>)))))
            (\<lambda>e.
              io_bind (io_match (remove_dir_all env () dest_folder) io_ret (\<lambda>_. io_ret ())) (\<lambda>_.
                io_ret (report\<lparr>failed := failed report @ [(folder_name, e)]\<rparr>))))))"

definition flatten_nested_archives ::
  "'z flatten_env_scheme \<Rightarrow> host_path \<Rightarrow> bool \<Rightarrow> (flatten_error, flatten_report) io" where
  "flatten_nested_archives env dir strip_pre =
     io_bind (find_archive_files_recursive env dir) (\<lambda>archives.
       case target_folder_names (de_tables env) archives strip_pre of
         None \<Rightarrow> io_fail FlattenPanic
       | Some targets \<Rightarrow>
           io_bind (io_for targets (flatten_one env dir) empty_report) (\<lambda>report.
           io_match (diagnose_mods env dir)
             (\<lambda>w. io_ret (report\<lparr>warnings := w\<rparr>))
             (\<lambda>_. io_ret (report\<lparr>warnings := []\<rparr>))))"

definition flatten_max_iterations :: nat where
  "flatten_max_iterations = 10"

definition flatten_max_total_extractions :: int where
  "flatten_max_total_extractions = 1000"

definition merge_reports :: "flatten_report \<Rightarrow> flatten_report \<Rightarrow> flatten_report" where
  "merge_reports combined pass =
     combined\<lparr>extracted := extracted combined @ extracted pass,
       failed := failed combined @ failed pass,
       skipped := skipped combined @ skipped pass,
       warnings := warnings pass\<rparr>"

text \<open>\<^verbatim>\<open>total.saturating_add(n as u32)\<close>.\<close>

definition add_extractions :: "int \<Rightarrow> nat \<Rightarrow> int" where
  "add_extractions n k = min 4294967295 (n + int k mod 4294967296)"

fun flatten_passes ::
  "'z flatten_env_scheme \<Rightarrow> host_path \<Rightarrow> bool \<Rightarrow> nat \<Rightarrow> flatten_report \<Rightarrow> int
     \<Rightarrow> (flatten_error, flatten_report) io" where
  "flatten_passes env dir strip_pre 0 combined n = io_ret combined"
| "flatten_passes env dir strip_pre (Suc iterations) combined n =
     io_bind (flatten_nested_archives env dir strip_pre) (\<lambda>pass.
       let combined' = merge_reports combined pass;
           n' = add_extractions n (length (extracted pass)) in
       if n' > flatten_max_total_extractions then io_ret combined'
       else if extracted pass = [] then io_ret combined'
       else flatten_passes env dir strip_pre iterations combined' n')"

definition flatten_nested_archives_recursive ::
  "'z flatten_env_scheme \<Rightarrow> host_path \<Rightarrow> bool \<Rightarrow> nat \<Rightarrow> (flatten_error, flatten_report) io" where
  "flatten_nested_archives_recursive env dir strip_pre max_depth =
     (let requested_cap = (if max_depth = 0 then flatten_max_iterations
                           else min max_depth flatten_max_iterations) in
      flatten_passes env dir strip_pre requested_cap empty_report 0)"

end
