(* ===== verification/File_Frame.thy ===== *)
theory File_Frame
  imports File_System
begin

text \<open>
  Frame reasoning over the file-system calls: which files a call leaves alone. A client names the
  files that have to stay and the places none of them is at or below; the rules say which calls keep
  the former when they work on the latter, whether they succeed or fail.
\<close>

section \<open>Files that must survive\<close>

text \<open>A partial map of files that have to stay, and a place none of them is at or below.\<close>

definition keeps :: "(host_path \<Rightarrow> byte list option) \<Rightarrow> fs_node \<Rightarrow> bool" where
  "keeps F t \<longleftrightarrow> (\<forall>q b. F q = Some b \<longrightarrow> file_at t q = Some b)"

definition clear_of :: "(host_path \<Rightarrow> byte list option) \<Rightarrow> host_path \<Rightarrow> bool" where
  "clear_of F p \<longleftrightarrow> (\<forall>q. prefix p q \<longrightarrow> F q = None)"

lemma clear_of_below: "clear_of F p \<Longrightarrow> prefix p q \<Longrightarrow> clear_of F q"
  unfolding clear_of_def using prefix_order.order_trans by blast

lemma keeps_absent: "keeps F t \<Longrightarrow> node_at t p = None \<Longrightarrow> clear_of F p"
  unfolding keeps_def clear_of_def using file_at_exists by (metis not_None_eq)

lemma keeps_empty_dir: "keeps F t \<Longrightarrow> dir_at t p = Some [] \<Longrightarrow> clear_of F p"
  unfolding keeps_def clear_of_def using file_at_empty_dir by (metis not_None_eq option.discI)

lemma keeps_file:
  assumes "keeps F t" "file_at t p = Some b" "F p = None"
  shows "clear_of F p"
  unfolding clear_of_def
proof (intro allI impI)
  fix q assume "prefix p q"
  then obtain r where q: "q = p @ r" by (auto simp: prefix_def)
  have "node_at t p = Some (FileNode b)"
    using assms(2) by (auto simp: file_at_def split: option.splits fs_node.splits)
  then have "r \<noteq> [] \<Longrightarrow> file_at t q = None"
    by (cases r) (auto simp: q file_at_def node_at_append)
  then show "F q = None"
    using assms(1,3) q by (cases "r = []") (auto simp: keeps_def, metis not_None_eq option.discI)
qed

lemma keeps_nothing: "clear_of F [] \<Longrightarrow> keeps F t"
  by (simp add: keeps_def clear_of_def)

lemma keeps_put: "keeps F t \<Longrightarrow> clear_of F p \<Longrightarrow> keeps F (put_at t p x)"
  unfolding keeps_def clear_of_def by (metis file_at_put_other option.discI)

lemma keeps_del: "keeps F t \<Longrightarrow> clear_of F p \<Longrightarrow> keeps F (del_at t p)"
  unfolding keeps_def clear_of_def by (metis file_at_del_other option.discI)

lemma keeps_rename:
  "keeps F t \<Longrightarrow> clear_of F a \<Longrightarrow> clear_of F b \<Longrightarrow> rename_tree t a b = Some t' \<Longrightarrow> keeps F t'"
  unfolding keeps_def clear_of_def by (metis file_at_rename_other option.discI)

text \<open>A directory can only be renamed to a place that holds no file.\<close>

lemma rename_dir_target_clear:
  assumes "keeps F t" "dir_at t a \<noteq> None" "rename_tree t a b = Some t'" "clear_of F a"
  shows "clear_of F b"
proof (cases "a = b")
  case True
  then show ?thesis using assms(4) by simp
next
  case False
  show ?thesis
  proof (cases "node_at t b")
    case None
    then show ?thesis using assms(1) keeps_absent by blast
  next
    case (Some m)
    then have "dir_at t b = Some []"
      using assms(2,3) False
      by (auto simp: rename_tree_def dir_at_def split: option.splits if_splits fs_node.splits)
    then show ?thesis using assms(1) keeps_empty_dir by blast
  qed
qed

section \<open>The calls\<close>

lemma io_ok_create_dir_all: "io_ok (keeps F) (create_dir_all env e p) (\<lambda>_. keeps F) (keeps F)"
  unfolding create_dir_all_def
  by (rule io_ok_call) (auto simp: keeps_def file_at_mkdirs)

lemma io_ok_remove_file:
  "F p = None \<Longrightarrow> io_ok (keeps F) (remove_file env e p) (\<lambda>_. keeps F) (keeps F)"
  unfolding remove_file_def
  by (rule io_ok_call) (auto dest: keeps_file intro: keeps_del split: option.splits)

lemma io_ok_remove_dir: "io_ok (keeps F) (remove_dir env e p) (\<lambda>_. keeps F) (keeps F)"
  unfolding remove_dir_def
  by (rule io_ok_call) (auto dest: keeps_empty_dir intro: keeps_del split: if_splits)

lemma io_ok_rename_dir:
  "clear_of F a \<Longrightarrow>
   io_ok (\<lambda>t. keeps F t \<and> dir_at t a \<noteq> None) (rename env e a b) (\<lambda>_ t. keeps F t \<and> clear_of F b) (keeps F)"
  unfolding rename_def
  by (rule io_ok_call) (auto dest: rename_dir_target_clear keeps_rename)

lemma io_ok_rename_free:
  "clear_of F a \<Longrightarrow> clear_of F b \<Longrightarrow>
   io_ok (keeps F) (rename env e a b) (\<lambda>_. keeps F) (keeps F)"
  unfolding rename_def by (rule io_ok_call) (auto dest: keeps_rename)

lemma io_ok_remove_dir_all:
  "clear_of F p \<Longrightarrow> io_ok (keeps F) (remove_dir_all env e p) (\<lambda>_. keeps F) (keeps F)"
  by (auto simp: io_ok_def remove_dir_all_def Let_def intro: keeps_put keeps_del keeps_nothing
      split: option.splits fs_node.splits if_splits)

section \<open>Well-formed trees\<close>

text \<open>Trees as hosts keep them: the names of a directory differ and are names.\<close>

fun wf_node :: "fs_node \<Rightarrow> bool" where
  "wf_node (FileNode b) \<longleftrightarrow> True"
| "wf_node (DirNode es) \<longleftrightarrow> distinct (map fst es) \<and> list_all (\<lambda>(n, x). normal_name n \<and> wf_node x) es"

lemma wf_node_Cons:
  "wf_node (DirNode ((n, x) # es)) \<longleftrightarrow>
     n \<notin> fst ` set es \<and> normal_name n \<and> wf_node x \<and> wf_node (DirNode es)"
  by auto

lemma wf_listed: "wf_node (DirNode es) \<Longrightarrow> listed es = es"
  by (auto simp: listed_def list_all_iff filter_id_conv)

lemma wf_node_at: "wf_node t \<Longrightarrow> node_at t p = Some n \<Longrightarrow> wf_node n"
proof (induction t p rule: node_at.induct)
  case (3 es c cs)
  then show ?case
    by (auto simp: list_all_iff dest!: map_of_SomeD split: option.splits)
qed auto

end
