(* ===== verification/Flatten_Properties.thy ===== *)
theory Flatten_Properties
  imports Flatten File_Frame
begin

text \<open>
  Properties of \<^verbatim>\<open>flatten.rs\<close>: how folder names come about, that no file is lost whichever calls
  fail, that a pass accounts for every archive it finds, and what the recursive run returns.
\<close>

section \<open>Folder names\<close>

lemma common_chars_prefix: "prefix p a \<Longrightarrow> prefix p b \<longleftrightarrow> length p \<le> common_chars a b"
proof (induction p arbitrary: a b)
  case Nil
  then show ?case by simp
next
  case (Cons x p)
  obtain a' where a: "a = x # a'" "prefix p a'" using Cons.prems by (cases a) auto
  then show ?case using Cons.IH [of a'] by (cases b) (auto simp: common_chars_def)
qed

lemma prefix_len_loop_Some:
  "prefix_len_loop first n names = Some m \<Longrightarrow> prefix p first \<Longrightarrow>
     length p \<le> m \<longleftrightarrow> length p \<le> n \<and> (\<forall>name \<in> set names. prefix p name)"
proof (induction first n names rule: prefix_len_loop.induct)
  case (2 first n name names)
  have "prefix p name \<longleftrightarrow> length p \<le> common_chars first name"
    using "2.prems" by (intro common_chars_prefix)
  then show ?case using 2 by (auto simp: Let_def split: if_splits)
qed simp

lemma prefix_len_loop_None:
  "prefix_len_loop first n names = None \<Longrightarrow> prefix p first \<Longrightarrow> length p \<le> n \<Longrightarrow>
     \<forall>name \<in> set names. prefix p name \<Longrightarrow> p = []"
proof (induction first n names rule: prefix_len_loop.induct)
  case (2 first n name names)
  have "length p \<le> min n (common_chars first name)"
    using "2.prems" common_chars_prefix [of p first name] by simp
  then show ?case
    using 2 by (cases "min n (common_chars first name) = 0") (auto simp: Let_def)
qed simp

lemma length_le_str_len: "length s \<le> str_len s"
  by (induction s) (auto simp: str_len_def utf8_width_def)

lemma prefix_len_loop_lcp:
  assumes "names \<noteq> []"
  shows "(case prefix_len_loop first (str_len first) names of None \<Rightarrow> [] | Some n \<Rightarrow> take n first)
    = Longest_common_prefix (insert first (set names))"
proof (rule sym, rule Longest_common_prefix_eq)
  have bound: "length p \<le> str_len first" if "prefix p first" for p
    using prefix_length_le [OF that] length_le_str_len [of first] by linarith
  let ?r = "case prefix_len_loop first (str_len first) names of None \<Rightarrow> [] | Some n \<Rightarrow> take n first"
  show "\<forall>xs \<in> insert first (set names). prefix ?r xs"
  proof (cases "prefix_len_loop first (str_len first) names")
    case (Some n)
    then show ?thesis
      using prefix_len_loop_Some [OF Some, of "take n first"] by (auto simp: take_is_prefix)
  qed simp
  show "\<forall>qs. (\<forall>xs \<in> insert first (set names). prefix qs xs) \<longrightarrow> length qs \<le> length ?r"
  proof (intro allI impI)
    fix qs assume all: "\<forall>xs \<in> insert first (set names). prefix qs xs"
    show "length qs \<le> length ?r"
    proof (cases "prefix_len_loop first (str_len first) names")
      case None
      then show ?thesis using prefix_len_loop_None [OF None, of qs] all bound by simp
    next
      case (Some n)
      then have "length qs \<le> n" using prefix_len_loop_Some [OF Some, of qs] all bound by simp
      then show ?thesis using Some all prefix_length_le [of qs first] by simp
    qed
  qed
qed simp

lemma longest_common_prefix_of_eq:
  "longest_common_prefix_of names =
     (let p = Longest_common_prefix (set names) in
      if 2 \<le> length names \<and> 5 \<le> str_len p then p else [])"
proof -
  consider "names = []" | x where "names = [x]" | x y zs where "names = x # y # zs"
    by (cases names rule: list.exhaust [case_product list.exhaust]) (metis list.exhaust)+
  then show ?thesis
  proof cases
    case 3
    then show ?thesis
      using prefix_len_loop_lcp [of "y # zs" x]
      by (cases "prefix_len_loop x (str_len x) (y # zs)")
         (auto simp: longest_common_prefix_of_def Let_def str_len_def simp del: prefix_len_loop.simps)
  qed (auto simp: longest_common_prefix_of_def)
qed

text \<open>What lower-casing has to respect for the byte slice to hit a character boundary: the letters of
  an archive extension come from ASCII letters only.\<close>

definition lowercase_ascii_suffixes :: "unicode \<Rightarrow> bool" where
  "lowercase_ascii_suffixes u \<longleftrightarrow> (\<forall>name. \<forall>ext \<in> set archive_extensions.
     ends_with (str_lower u name) (dot # ext) \<longrightarrow>
       (\<exists>b e. name = b @ dot # e \<and> to_ascii_lowercase e = ext))"

definition archive_suffix :: "str \<Rightarrow> bool" where
  "archive_suffix e \<longleftrightarrow> to_ascii_lowercase e \<in> set archive_extensions"

lemma ascii_tables_suffixes: "lowercase_ascii_suffixes ascii_tables"
  unfolding lowercase_ascii_suffixes_def
proof (intro allI ballI impI)
  fix name ext
  assume "ends_with (str_lower ascii_tables name) (dot # ext)"
  then obtain t where t: "map ascii_lower name = t @ dot # ext"
    by (auto simp: ends_with_iff ascii_tables_def to_ascii_lowercase_def)
  then obtain b c e where "name = b @ c # e" "ascii_lower c = dot" "map ascii_lower e = ext"
    by (auto simp: map_eq_append_conv map_eq_Cons_conv)
  then show "\<exists>b e. name = b @ dot # e \<and> to_ascii_lowercase e = ext"
    by (auto simp: ascii_lower_def to_ascii_lowercase_def split: if_splits)
qed

lemma truncate_bytes_append: "truncate_bytes (str_len a) (a @ b) = Some a"
proof (induction a)
  case Nil
  then show ?case by (simp add: str_len_def)
next
  case (Cons c a)
  have "str_len (c # a) = utf8_width c + str_len a" "0 < utf8_width c"
    by (simp_all add: str_len_def utf8_width_def)
  then obtain m where "str_len (c # a) = Suc m" "Suc m - utf8_width c = str_len a" "utf8_width c \<le> Suc m"
    by (metis add_diff_cancel_left' add_gr_0 gr0_conv_Suc le_add1)
  then show ?case using Cons by simp
qed

lemma str_len_ascii_lower: "to_ascii_lowercase e = ext \<Longrightarrow> str_len e = str_len ext"
  by (induction e arbitrary: ext)
     (auto simp: to_ascii_lowercase_def str_len_def utf8_width_def ascii_lower_def)

lemma strip_archive_extension_ok:
  assumes "lowercase_ascii_suffixes u" "is_archive_filename u name"
  obtains b e where "name = b @ dot # e" "archive_suffix e" "strip_archive_extension u name = Some b"
proof -
  obtain ext where ext: "find (\<lambda>x. ends_with (str_lower u name) (dot # x)) archive_extensions = Some ext"
    using assms(2) by (cases "find (\<lambda>x. ends_with (str_lower u name) (dot # x)) archive_extensions")
      (auto simp: is_archive_filename_def list_ex_iff find_None_iff)
  then have in_list: "ext \<in> set archive_extensions" "ends_with (str_lower u name) (dot # ext)"
    by (auto simp: find_Some_iff)
  then obtain b e where be: "name = b @ dot # e" "to_ascii_lowercase e = ext"
    using assms(1) unfolding lowercase_ascii_suffixes_def by blast
  then have "str_len (dot # e) = str_len (dot # ext)"
    using str_len_ascii_lower [of e ext] by (simp add: str_len_def)
  then have "strip_archive_extension u name = Some b"
    using ext be(1) truncate_bytes_append [of b "dot # e"]
    by (simp add: strip_archive_extension_def)
  then show thesis using that be in_list(1) by (auto simp: archive_suffix_def)
qed

definition archive_path :: "unicode \<Rightarrow> host_path \<Rightarrow> bool" where
  "archive_path u p \<longleftrightarrow> p \<noteq> [] \<and> is_archive_entry u (last p)"

lemma archive_path_name:
  assumes "archive_path u p"
  obtains name where "file_name_str p = Some name" "is_archive_filename u name"
  using assms by (auto simp: archive_path_def is_archive_entry_def file_name_str_def split: option.splits)

text \<open>The base name of an archive is its file name without the archive extension.\<close>

definition base_of :: "host_path \<Rightarrow> str \<Rightarrow> bool" where
  "base_of p b \<longleftrightarrow> (\<exists>e. file_name_str p = Some (b @ dot # e) \<and> archive_suffix e)"

lemma base_names_total:
  assumes "lowercase_ascii_suffixes u" "list_all (archive_path u) archives"
  shows "\<exists>bases. base_names_of u archives = Some bases \<and> list_all2 base_of archives bases"
  using assms(2)
proof (induction archives)
  case Nil
  then show ?case by (simp add: base_names_of_def map_filter_simps)
next
  case (Cons p archives)
  then obtain bases where bases: "base_names_of u archives = Some bases" "list_all2 base_of archives bases"
    by auto
  obtain name where name: "file_name_str p = Some name" "is_archive_filename u name"
    using Cons.prems archive_path_name by auto
  obtain b e where "name = b @ dot # e" "archive_suffix e" "strip_archive_extension u name = Some b"
    using strip_archive_extension_ok [OF assms(1) name(2)] .
  then show ?case
    using bases name(1) base_of_def [of p b] by (auto simp: base_names_of_def map_filter_simps)
qed

lemma would_produce_broken_names_iff:
  assumes "\<forall>b \<in> set bases. prefix pre b"
  shows "would_produce_broken_names u bases pre \<longleftrightarrow>
     \<not> list_all (\<lambda>b. \<exists>c r. b = pre @ c # r \<and> char_alphanumeric u c) bases"
proof -
  have "(case strip_prefix b pre of None \<Rightarrow> False | Some [] \<Rightarrow> True
      | Some (c # _) \<Rightarrow> \<not> char_alphanumeric u c)
    \<longleftrightarrow> \<not> (\<exists>c r. b = pre @ c # r \<and> char_alphanumeric u c)" if "b \<in> set bases" for b
  proof -
    have "prefix pre b" using assms that by blast
    then obtain r where "b = pre @ r" by (rule prefixE)
    then show ?thesis
      by (cases r) (auto simp: strip_prefix_def starts_with_def)
  qed
  then show ?thesis by (auto simp: would_produce_broken_names_def list_ex_iff list_all_iff)
qed

lemma folder_name_of_Nil [simp]: "folder_name_of [] b = b"
  by (simp add: folder_name_of_def)

lemma target_folder_names_fst:
  assumes "target_folder_names u archives strip_pre = Some targets" "x \<in> set targets"
  shows "fst x \<in> set archives"
proof -
  obtain bases where "targets = map (\<lambda>(path, base).
      (path, folder_name_of (strip_candidate u bases strip_pre) base)) (zip archives bases)"
    using assms(1) by (auto simp: target_folder_names_def)
  then obtain y where "y \<in> set (zip archives bases)" "fst x = fst y" using assms(2) by auto
  then show ?thesis by (metis prod.collapse set_zip_leftD)
qed

section \<open>Unwrapping and renaming\<close>

lemma dir_at_child:
  assumes "dir_at t p = Some es" "listed es = [(n, DirNode ds)]"
  shows "\<exists>ds. dir_at t (p @ [n]) = Some ds" "normal_name n"
proof -
  have "map_of (listed es) n = Some (DirNode ds)" using assms(2) by simp
  then have "map_of es n = Some (DirNode ds)" "normal_name n"
    by (simp_all add: map_of_listed split: if_splits)
  then show "\<exists>ds. dir_at t (p @ [n]) = Some ds" "normal_name n"
    using assms(1) by (auto simp: dir_at_def node_at_append split: option.splits fs_node.splits)
qed

lemma io_ok_via_temp:
  assumes "clear_of F inner" "clear_of F dest"
  shows "io_ok (\<lambda>t. keeps F t \<and> dir_at t inner \<noteq> None)
     (io_bind (rename env e inner tmp) (\<lambda>_.
      io_bind (remove_dir env e' dest) (\<lambda>_.
      io_bind (rename env e'' tmp dest) (\<lambda>_. io_ret (Some name)))))
     (\<lambda>r t. keeps F t \<and> r = Some name) (keeps F)"
proof (rule io_ok_bind [OF io_ok_rename_dir [OF assms(1)]],
    rule io_ok_bind [OF io_ok_fact [OF io_ok_remove_dir]])
  have "io_ok (\<lambda>t. keeps F t \<and> clear_of F tmp) (rename env e'' tmp dest)
     (\<lambda>_ t. keeps F t \<and> clear_of F tmp) (keeps F)"
    by (rule io_ok_fact) (rule io_ok_rename_free [OF _ assms(2)])
  then show "io_ok (\<lambda>t. keeps F t \<and> clear_of F tmp)
     (io_bind (rename env e'' tmp dest) (\<lambda>_. io_ret (Some name)))
     (\<lambda>r t. keeps F t \<and> r = Some name) (keeps F)"
    by (rule io_ok_bind) (rule io_ok_ret, simp)
qed

lemma io_ok_promote_dir:
  assumes "clear_of F inner"
  shows "io_ok (\<lambda>t. keeps F t \<and> dir_at t inner \<noteq> None)
     (io_bind (io_get (\<lambda>t. path_exists t final)) (\<lambda>taken.
        if taken then io_ret None
        else io_bind (rename env e inner final) (\<lambda>_.
             io_bind (remove_dir env e' dest) (\<lambda>_. io_ret (Some name)))))
     (\<lambda>r t. keeps F t \<and> (r = None \<or> r = Some name \<and> clear_of F final)) (keeps F)"
proof (rule io_ok_bind [OF io_ok_get [where Q = "\<lambda>_ t. keeps F t \<and> dir_at t inner \<noteq> None"]])
  fix taken
  have "io_ok (\<lambda>t. keeps F t \<and> clear_of F final) (remove_dir env e' dest)
     (\<lambda>_ t. keeps F t \<and> clear_of F final) (keeps F)"
    by (rule io_ok_fact) (rule io_ok_remove_dir)
  then have "io_ok (\<lambda>t. keeps F t \<and> clear_of F final)
     (io_bind (remove_dir env e' dest) (\<lambda>_. io_ret (Some name)))
     (\<lambda>r t. keeps F t \<and> (r = None \<or> r = Some name \<and> clear_of F final)) (keeps F)"
    by (rule io_ok_bind) (rule io_ok_ret, simp)
  with io_ok_rename_dir [OF assms]
  have "io_ok (\<lambda>t. keeps F t \<and> dir_at t inner \<noteq> None)
     (io_bind (rename env e inner final) (\<lambda>_.
        io_bind (remove_dir env e' dest) (\<lambda>_. io_ret (Some name))))
     (\<lambda>r t. keeps F t \<and> (r = None \<or> r = Some name \<and> clear_of F final)) (keeps F)"
    by (rule io_ok_bind)
  then show "io_ok (\<lambda>t. keeps F t \<and> dir_at t inner \<noteq> None)
     (if taken then io_ret None
      else io_bind (rename env e inner final) (\<lambda>_.
           io_bind (remove_dir env e' dest) (\<lambda>_. io_ret (Some name))))
     (\<lambda>r t. keeps F t \<and> (r = None \<or> r = Some name \<and> clear_of F final)) (keeps F)"
    by (cases taken) (auto intro: io_ok_ret)
qed auto

lemma io_ok_promote_inner:
  assumes "clear_of F dest"
  shows "io_ok (\<lambda>t. keeps F t \<and> dir_at t (dest @ [n]) \<noteq> None) (promote_inner env dest n name)
     (\<lambda>r t. keeps F t \<and> (\<forall>nm. r = Some nm \<longrightarrow>
        nm = name \<and> clear_of F (join_name (butlast dest) (as_bytes nm))))
     (keeps F)"
proof -
  have inner: "clear_of F (dest @ [n])"
    using assms clear_of_below by (metis prefixI)
  show ?thesis
  proof (cases "join_name (butlast dest) (as_bytes name) = dest")
    case True
    then show ?thesis
      using assms
      by (auto simp: promote_inner_def Let_def
          intro!: io_ok_ret io_ok_weaken [OF io_ok_via_temp [OF inner assms]])
  next
    case False
    then show ?thesis
      by (auto simp: promote_inner_def Let_def
          intro!: io_ok_ret io_ok_weaken [OF io_ok_promote_dir [OF inner]])
  qed
qed

text \<open>A promoted folder lies beside the wrapper and no file that has to stay is in it.\<close>

lemma io_ok_unwrap:
  assumes "clear_of F dest"
  shows "io_ok (keeps F) (unwrap_single_root_folder env dest)
     (\<lambda>r t. keeps F t \<and> (\<forall>nm. r = Some nm \<longrightarrow>
        normal_name (as_bytes nm) \<and> clear_of F (join_name (butlast dest) (as_bytes nm)))) (keeps F)"
  unfolding unwrap_single_root_folder_def
proof (rule io_ok_bind [OF io_ok_read_dir
      [where Q = "\<lambda>es t. keeps F t \<and> (\<exists>es'. dir_at t dest = Some es' \<and> es = listed es')"]])
  fix es
  have promoted: "io_ok (\<lambda>t. keeps F t \<and> (\<exists>es'. dir_at t dest = Some es' \<and> es = listed es'))
      (promote_inner env dest n name)
      (\<lambda>r t. keeps F t \<and> (\<forall>nm. r = Some nm \<longrightarrow>
         normal_name (as_bytes nm) \<and> clear_of F (join_name (butlast dest) (as_bytes nm)))) (keeps F)"
    if "es = [(n, DirNode ds)]" "from_utf8 n = Some name" for n ds name
  proof (cases "normal_name n")
    case True
    then have "normal_name (as_bytes name)" using that(2) as_bytes_from_utf8 by simp
    then show ?thesis
      using that dir_at_child
      by (intro io_ok_weaken [OF io_ok_promote_inner [OF assms, of n]]) (auto, metis)
  next
    case False
    then show ?thesis using that dir_at_child(2) by (intro io_ok_false) metis
  qed
  show "io_ok (\<lambda>t. keeps F t \<and> (\<exists>es'. dir_at t dest = Some es' \<and> es = listed es'))
     (case es of
        [(n, DirNode _)] \<Rightarrow>
          (case from_utf8 n of None \<Rightarrow> io_ret None | Some name \<Rightarrow> promote_inner env dest n name)
      | _ \<Rightarrow> io_ret None)
     (\<lambda>r t. keeps F t \<and> (\<forall>nm. r = Some nm \<longrightarrow>
        normal_name (as_bytes nm) \<and> clear_of F (join_name (butlast dest) (as_bytes nm)))) (keeps F)"
    using promoted
    by (auto split: list.splits prod.splits fs_node.splits option.splits intro!: io_ok_ret)
qed auto

lemma io_ok_rename_to_modinfo:
  assumes "clear_of F folder"
  shows "io_ok (keeps F) (rename_to_modinfo_name env folder) (\<lambda>_. keeps F) (keeps F)"
proof -
  have step: "io_ok (\<lambda>t. keeps F t \<and> (taken \<or> clear_of F target))
     (if taken then io_ret None
      else io_bind (rename env e folder target) (\<lambda>_. io_ret (Some name))) (\<lambda>_. keeps F) (keeps F)"
    for taken target name e
  proof (cases "\<not> taken \<and> clear_of F target")
    case True
    then show ?thesis
      using io_ok_bind [OF io_ok_rename_free [OF assms, of target] io_ok_ret] by simp
  next
    case False
    then show ?thesis by (cases taken) (auto simp: io_ok_def io_ret_def)
  qed
  have "io_ok (keeps F)
     (io_bind (io_get (\<lambda>t. path_exists t target)) (\<lambda>taken. if taken then io_ret None
      else io_bind (rename env e folder target) (\<lambda>_. io_ret (Some name)))) (\<lambda>_. keeps F) (keeps F)"
    for target name e
    by (rule io_ok_bind [OF io_ok_get step]) (auto simp: path_exists_def dest: keeps_absent)
  then show ?thesis
    unfolding rename_to_modinfo_name_def
    by (intro io_ok_bind [OF io_pure_ok [OF modinfo_parse_pure]])
       (auto simp: Let_def intro: io_ok_ret split: option.splits)
qed

section \<open>One archive\<close>

text \<open>What is asked of the extractor: it writes nowhere but at and below its destination.\<close>

definition extractor_confined :: "'z flatten_env_scheme \<Rightarrow> bool" where
  "extractor_confined env \<longleftrightarrow> (\<forall>n t a d q. \<not> prefix d q \<longrightarrow>
     file_at (snd (fe_extractor env n t a d)) q = file_at t q)"

definition can_extract :: "'z flatten_env_scheme \<Rightarrow> host_path \<Rightarrow> bool" where
  "can_extract env a \<longleftrightarrow> (\<exists>n t d. fst (fe_extractor env n t a d) = Inr ())"

lemma io_ok_extractor:
  assumes "extractor_confined env" "clear_of F dest" "can_extract env a \<Longrightarrow> F a = None"
  shows "io_ok (keeps F) (run_extractor env a dest) (\<lambda>_ t. keeps F t \<and> F a = None) (keeps F)"
proof -
  have "keeps F (snd (fe_extractor env n t a dest))" if "keeps F t" for n t
    using that assms(1,2) unfolding keeps_def extractor_confined_def clear_of_def
    by (metis option.discI)
  moreover have "F a = None" if "fe_extractor env n t a dest = (Inr x, t')" for n t x t'
    using that assms(3) unfolding can_extract_def by (metis fst_conv old.unit.exhaust)
  ultimately show ?thesis
    unfolding io_ok_def run_extractor_def by (auto split: prod.splits) (metis snd_conv)+
qed

lemma io_ok_or:
  assumes "io_ok P m (\<lambda>r t. case r of Some x \<Rightarrow> Q x t | None \<Rightarrow> Q d t) (Q d)"
  shows "io_ok P (io_or m d) Q E"
  unfolding io_or_def
  by (rule io_ok_match [OF assms]) (auto intro!: io_ok_ret split: option.splits)

lemma io_ok_ignore:
  assumes "io_ok P m (\<lambda>_. P) P"
  shows "io_ok P (io_match m io_ret (\<lambda>_. io_ret ())) (\<lambda>_. P) E"
  by (rule io_ok_match [OF assms]) (auto intro: io_ok_ret)

lemma io_ok_unpacked:
  assumes "clear_of F dest" "F a = None" "dest = join_name parent (as_bytes name)"
    and "\<And>nm. normal_name (as_bytes nm) \<Longrightarrow> clear_of F (join_name (butlast dest) (as_bytes nm)) \<Longrightarrow>
      clear_of F (join_name parent (as_bytes nm))"
  shows "io_ok (keeps F)
     (io_bind (io_match (remove_file env () a) io_ret (\<lambda>_. io_ret ())) (\<lambda>_.
      io_bind (io_or (unwrap_single_root_folder env dest) name) (\<lambda>nm.
      io_bind (io_or (rename_to_modinfo_name env (join_name parent (as_bytes nm))) nm)
        (\<lambda>final. io_ret (f final)))))
     (\<lambda>_. keeps F) (keeps F)"
proof -
  let ?R = "\<lambda>nm t. keeps F t \<and> clear_of F (join_name parent (as_bytes nm))"
  have removed: "io_ok (keeps F) (io_match (remove_file env () a) io_ret (\<lambda>_. io_ret ()))
     (\<lambda>_. keeps F) (keeps F)"
    using assms(2) by (intro io_ok_ignore io_ok_remove_file)
  have unwrapped: "io_ok (keeps F) (io_or (unwrap_single_root_folder env dest) name) ?R (keeps F)"
    by (intro io_ok_or io_ok_weaken [OF io_ok_unwrap [OF assms(1)]])
       (use assms in \<open>auto split: option.splits\<close>)
  have "io_ok (?R nm) (io_or (rename_to_modinfo_name env (join_name parent (as_bytes nm))) nm)
     (\<lambda>_ t. keeps F t \<and> clear_of F (join_name parent (as_bytes nm))) (keeps F)" for nm
    by (intro io_ok_fact io_ok_or io_ok_weaken [OF io_ok_rename_to_modinfo]) (auto split: option.splits)
  then have renamed: "io_ok (?R nm)
     (io_bind (io_or (rename_to_modinfo_name env (join_name parent (as_bytes nm))) nm)
        (\<lambda>final. io_ret (f final))) (\<lambda>_. keeps F) (keeps F)" for nm
    by (rule io_ok_bind) (rule io_ok_ret, simp)
  show ?thesis
    by (rule io_ok_bind [OF removed io_ok_bind [OF unwrapped renamed]])
qed

text \<open>Where a destination that does not exist lies relative to the folder of its archive.\<close>

lemma join_name_clear:
  assumes "clear_of F (join_name parent n)" "normal_name m"
    and "clear_of F (join_name (butlast (join_name parent n)) m)"
  shows "clear_of F (join_name parent m)"
proof (cases "normal_name n")
  case True
  then show ?thesis using assms(2,3) by simp
next
  case False
  then have "prefix (join_name parent n) parent"
    by (auto simp: join_name_def normal_name_def prefixeq_butlast)
  then have "prefix (join_name parent n) (join_name parent m)"
    using assms(2) by (simp add: prefix_def) (metis append.assoc)
  then show ?thesis using assms(1) clear_of_below by blast
qed

lemma io_ok_flatten_one:
  assumes "extractor_confined env" "can_extract env a \<Longrightarrow> F a = None"
  shows "io_ok (keeps F) (flatten_one env dir (a, name) report) (\<lambda>_. keeps F) (keeps F)"
proof -
  define parent where "parent = (if a = [] then dir else butlast a)"
  define dest where "dest = join_name parent (as_bytes name)"
  let ?done = "io_bind (io_match (remove_file env () a) io_ret (\<lambda>_. io_ret ())) (\<lambda>_.
      io_bind (io_or (unwrap_single_root_folder env dest) name) (\<lambda>nm.
      io_bind (io_or (rename_to_modinfo_name env (join_name parent (as_bytes nm))) nm)
        (\<lambda>final. io_ret (report\<lparr>extracted := extracted report @ [final]\<rparr>))))"
  let ?undo = "\<lambda>e. io_bind (io_match (remove_dir_all env () dest) io_ret (\<lambda>_. io_ret ())) (\<lambda>_.
      io_ret (report\<lparr>failed := failed report @ [(name, e)]\<rparr>))"
  have body: "io_ok (keeps F) (io_bind (create_dir_all env (CreatingFolder dest) dest) (\<lambda>_.
      io_match (run_extractor env a dest) (\<lambda>_. ?done) ?undo)) (\<lambda>_. keeps F) (keeps F)"
    if clear: "clear_of F dest"
  proof (rule io_ok_bind [OF io_ok_create_dir_all], rule io_ok_match [OF io_ok_extractor])
    show "io_ok (\<lambda>t. keeps F t \<and> F a = None) ?done (\<lambda>_. keeps F) (keeps F)"
    proof (cases "F a = None")
      case True
      show ?thesis
        by (rule io_ok_weaken [OF io_ok_unpacked [OF clear True dest_def]])
           (use join_name_clear clear dest_def in auto)
    next
      case False
      then show ?thesis by (intro io_ok_false) simp
    qed
    show "io_ok (keeps F) (?undo e) (\<lambda>_. keeps F) (keeps F)" for e
      by (rule io_ok_bind [OF io_ok_ignore [OF io_ok_remove_dir_all [OF clear]]]) (simp add: io_ok_ret)
  qed (use assms clear in auto)
  have "io_ok (keeps F) (io_get (\<lambda>t. path_exists t dest))
     (\<lambda>taken t. keeps F t \<and> (\<not> taken \<longrightarrow> clear_of F dest)) (keeps F)"
    by (rule io_ok_get) (auto simp: path_exists_def dest: keeps_absent)
  moreover have "io_ok (\<lambda>t. keeps F t \<and> (\<not> taken \<longrightarrow> clear_of F dest))
     (if taken then io_ret (report\<lparr>skipped := skipped report @ [name]\<rparr>)
      else io_bind (create_dir_all env (CreatingFolder dest) dest) (\<lambda>_.
        io_match (run_extractor env a dest) (\<lambda>_. ?done) ?undo)) (\<lambda>_. keeps F) (keeps F)" for taken
  proof (cases "taken \<or> clear_of F dest", rule io_ok_if)
    assume "\<not> taken" "taken \<or> clear_of F dest"
    then show "io_ok (\<lambda>t. keeps F t \<and> (\<not> taken \<longrightarrow> clear_of F dest))
       (io_bind (create_dir_all env (CreatingFolder dest) dest) (\<lambda>_.
        io_match (run_extractor env a dest) (\<lambda>_. ?done) ?undo)) (\<lambda>_. keeps F) (keeps F)"
      by (intro io_ok_weaken [OF body]) blast+
  qed (auto intro: io_ok_ret io_ok_false)
  ultimately show ?thesis
    unfolding flatten_one_def Let_def prod.case parent_def [symmetric] dest_def [symmetric]
    by (rule io_ok_bind)
qed

section \<open>Finding the archives\<close>

text \<open>The archive files below a list of entries, in the order of the walk.\<close>

function archives_in :: "unicode \<Rightarrow> host_path \<Rightarrow> (os_name \<times> fs_node) list \<Rightarrow> host_path list" where
  "archives_in u dir [] = []"
| "archives_in u dir ((n, FileNode b) # es) =
     (if is_archive_entry u n then [dir @ [n]] else []) @ archives_in u dir es"
| "archives_in u dir ((n, DirNode ds) # es) =
     archives_in u (dir @ [n]) (listed ds) @ archives_in u dir es"
  by pat_completeness auto
termination
  by (relation "measure (\<lambda>(u, dir, es). size (DirNode es))")
     (auto simp: size_listed less_Suc_eq_le intro: le_trans [OF size_listed [simplified]])

lemma walk_entries_pure [simp]: "io_pure (walk_entries env dir es archives)"
  by (induction env dir es archives rule: walk_entries.induct) auto

lemma walk_entries_result:
  "walk_entries env dir es archives s = (Inr found, s') \<Longrightarrow>
     found = archives @ archives_in (de_tables env) dir es"
proof (induction env dir es archives arbitrary: s s' found rule: walk_entries.induct)
  case (3 env dir n ds es archives)
  obtain found1 s1 s2 where
      "walk_entries env (dir @ [n]) (listed ds) archives s1 = (Inr found1, s2)"
    and "walk_entries env dir es found1 s2 = (Inr found, s')"
    using "3.prems" by (auto simp: io_bind_def split: prod.splits sum.splits)
  then show ?case using "3.IH" by fastforce
qed (auto simp: io_ret_def)

lemma find_archive_files_recursive_result:
  assumes "find_archive_files_recursive env dir s = (Inr archives, s')"
  shows "\<exists>es. dir_at (hs_tree s) dir = Some es \<and> archives = archives_in (de_tables env) dir (listed es)"
    and "hs_tree s' = hs_tree s"
proof -
  obtain es s1 where read: "read_dir env (ReadingDir dir) dir s = (Inr es, s1)"
    and walk: "walk_entries env dir es [] s1 = (Inr archives, s')"
    using assms by (auto simp: find_archive_files_recursive_def io_bind_def split: prod.splits sum.splits)
  have "\<exists>ds. dir_at (hs_tree s) dir = Some ds \<and> es = listed ds"
    using read by (auto simp: read_dir_def io_call_def Let_def split: if_splits option.splits)
  then show "\<exists>es. dir_at (hs_tree s) dir = Some es \<and> archives = archives_in (de_tables env) dir (listed es)"
    using walk_entries_result [OF walk] by auto
  show "hs_tree s' = hs_tree s"
    using walk read io_pure_basic(4) [of env _ dir] walk_entries_pure [of env dir es]
    unfolding io_pure_def by (metis snd_conv)
qed

lemma archives_in_below:
  "p \<in> set (archives_in u dir es) \<Longrightarrow> prefix dir p \<and> archive_path u p"
proof (induction u dir es rule: archives_in.induct)
  case (3 u dir n ds es)
  then show ?case using prefix_order.trans [of dir "dir @ [n]" p] by auto
qed (auto simp: archive_path_def split: if_splits)

section \<open>No file is lost\<close>

lemma io_ok_flatten_pass:
  assumes "extractor_confined env"
    and "\<And>a. prefix dir a \<Longrightarrow> archive_path (de_tables env) a \<Longrightarrow> can_extract env a \<Longrightarrow> F a = None"
  shows "io_ok (keeps F) (flatten_nested_archives env dir strip_pre) (\<lambda>_. keeps F) (keeps F)"
proof -
  let ?found = "\<lambda>archives. list_all (\<lambda>a. prefix dir a \<and> archive_path (de_tables env) a) archives"
  have found: "io_ok (keeps F) (find_archive_files_recursive env dir)
     (\<lambda>archives t. keeps F t \<and> ?found archives) (keeps F)"
    unfolding io_ok_def
  proof (intro allI impI conjI)
    fix s archives s'
    assume "keeps F (hs_tree s)" and run: "find_archive_files_recursive env dir s = (Inr archives, s')"
    then show "keeps F (hs_tree s')" using find_archive_files_recursive_result(2) [OF run] by simp
    show "?found archives"
      using find_archive_files_recursive_result(1) [OF run] archives_in_below
      by (fastforce simp: list_all_iff)
  next
    fix s e s'
    assume "keeps F (hs_tree s)" "find_archive_files_recursive env dir s = (Inl e, s')"
    moreover have "io_pure (find_archive_files_recursive env dir)"
      by (simp add: find_archive_files_recursive_def)
    ultimately show "keeps F (hs_tree s')" unfolding io_pure_def by (metis snd_conv)
  qed
  have loop: "io_ok (keeps F) (io_for targets (flatten_one env dir) report) (\<lambda>_. keeps F) (keeps F)"
    if all: "?found archives" and named: "target_folder_names (de_tables env) archives strip_pre = Some targets"
    for archives targets report
  proof (rule io_ok_for)
    fix x acc assume "x \<in> set targets"
    then have "fst x \<in> set archives"
      using target_folder_names_fst [OF named] by simp
    then obtain a name where x: "x = (a, name)" "a \<in> set archives"
      by (cases x) auto
    then show "io_ok (keeps F) (flatten_one env dir x acc) (\<lambda>_. keeps F) (keeps F)"
      using all assms by (auto simp: list_all_iff intro: io_ok_flatten_one)
  qed
  have diag: "io_ok (keeps F) (io_match (diagnose_mods env dir) (\<lambda>w. io_ret (f w)) (\<lambda>_. io_ret d))
     (\<lambda>_. keeps F) (keeps F)" for f d
    by (rule io_ok_match [OF io_pure_ok [OF diagnose_mods_pure]]) (simp_all add: io_ok_ret)
  have "io_ok (\<lambda>t. keeps F t \<and> ?found archives)
     (case target_folder_names (de_tables env) archives strip_pre of
        None \<Rightarrow> io_fail FlattenPanic
      | Some targets \<Rightarrow> io_bind (io_for targets (flatten_one env dir) empty_report) (\<lambda>report.
          io_match (diagnose_mods env dir)
             (\<lambda>w. io_ret (report\<lparr>warnings := w\<rparr>)) (\<lambda>_. io_ret (report\<lparr>warnings := []\<rparr>))))
     (\<lambda>_. keeps F) (keeps F)" for archives
  proof (cases "?found archives")
    case True
    show ?thesis
    proof (cases "target_folder_names (de_tables env) archives strip_pre")
      case (Some targets)
      show ?thesis
        using io_ok_bind [OF loop [OF True Some] diag] by (simp add: Some True)
    qed (auto intro: io_ok_fail)
  qed (simp add: io_ok_false)
  then show ?thesis
    unfolding flatten_nested_archives_def by (rule io_ok_bind [OF found])
qed

lemma io_ok_flatten_passes:
  assumes "io_ok (keeps F) (flatten_nested_archives env dir strip_pre) (\<lambda>_. keeps F) (keeps F)"
  shows "io_ok (keeps F) (flatten_passes env dir strip_pre k combined n) (\<lambda>_. keeps F) (keeps F)"
proof (induction k arbitrary: combined n)
  case 0
  then show ?case by (simp add: io_ok_ret)
next
  case (Suc k)
  show ?case
    unfolding flatten_passes.simps
    by (rule io_ok_bind [OF assms]) (simp add: Let_def io_ok_ret Suc.IH)
qed

section \<open>A pass accounts for every archive\<close>

lemma archives_in_first:
  "p \<in> set (archives_in u dir es) \<Longrightarrow> \<exists>c cs. p = dir @ c # cs \<and> c \<in> fst ` set es"
proof (induction u dir es rule: archives_in.induct)
  case (3 u dir n ds es)
  consider "p \<in> set (archives_in u (dir @ [n]) (listed ds))" | "p \<in> set (archives_in u dir es)"
    using "3.prems" by auto
  then show ?case using 3 by cases auto
qed (auto split: if_splits)

lemma archives_in_iff:
  "wf_node (DirNode es) \<Longrightarrow>
   dir @ q \<in> set (archives_in u dir es) \<longleftrightarrow>
     q \<noteq> [] \<and> file_at (DirNode es) q \<noteq> None \<and> is_archive_entry u (last q)"
proof (induction u dir es arbitrary: q rule: archives_in.induct)
  case (1 u dir)
  then show ?case by (cases q) auto
next
  case (2 u dir n b es)
  have outside: "dir @ n # cs \<notin> set (archives_in u dir es)" for cs
    using "2.prems" archives_in_first [of "dir @ n # cs" u dir es] by (auto simp: wf_node_Cons)
  show ?case
  proof (cases q)
    case (Cons c cs)
    then show ?thesis
      using "2.IH" [of q] "2.prems" outside [of cs] by (cases cs) (auto simp: wf_node_Cons)
  next
    case Nil
    then show ?thesis using "2.IH" [of "[]"] "2.prems" by (auto simp: wf_node_Cons)
  qed
next
  case (3 u dir n ds es)
  have outside: "dir @ n # cs \<notin> set (archives_in u dir es)" for cs
    using "3.prems" archives_in_first [of "dir @ n # cs" u dir es] by (auto simp: wf_node_Cons)
  have inside: "c = n" if "dir @ c # cs \<in> set (archives_in u (dir @ [n]) ds)" for c cs
    using archives_in_first [OF that] by auto
  have wf: "wf_node (DirNode ds)" "wf_node (DirNode es)" "listed ds = ds"
    using "3.prems" wf_listed by (simp_all only: wf_node_Cons)
  show ?case
  proof (cases q)
    case Nil
    then show ?thesis
      using "3.IH"(2) [OF wf(2), of "[]"] archives_in_first [of dir u "dir @ [n]" ds] wf(3) by auto
  next
    case (Cons c cs)
    show ?thesis
    proof (cases "c = n")
      case True
      then show ?thesis
        using Cons outside [of cs] "3.IH"(1) [of cs] wf by (cases cs) auto
    next
      case False
      then show ?thesis
        using Cons "3.IH"(2) [OF wf(2), of q] inside wf(3) by auto
    qed
  qed
qed

lemma archives_in_distinct: "wf_node (DirNode es) \<Longrightarrow> distinct (archives_in u dir es)"
proof (induction u dir es rule: archives_in.induct)
  case (2 u dir n b es)
  then show ?case using archives_in_first [of "dir @ [n]" u dir es] by (auto simp: wf_node_Cons)
next
  case (3 u dir n ds es)
  have "set (archives_in u (dir @ [n]) (listed ds)) \<inter> set (archives_in u dir es) = {}"
  proof (rule ccontr)
    assume "\<not> ?thesis"
    then obtain p where p: "p \<in> set (archives_in u (dir @ [n]) (listed ds))" "p \<in> set (archives_in u dir es)"
      by blast
    then show False
      using archives_in_first [OF p(1)] archives_in_first [OF p(2)] "3.prems" by (auto simp: wf_node_Cons)
  qed
  then show ?case using 3 wf_listed [of ds] by (auto simp: wf_node_Cons)
qed simp

lemma find_archives_exact:
  assumes "wf_node (hs_tree s)" "find_archive_files_recursive env dir s = (Inr archives, s')"
  shows "distinct archives"
    and "set archives = {p. prefix dir p \<and> file_at (hs_tree s) p \<noteq> None \<and> archive_path (de_tables env) p}"
proof -
  obtain es where es: "dir_at (hs_tree s) dir = Some es"
    "archives = archives_in (de_tables env) dir (listed es)"
    using find_archive_files_recursive_result(1) [OF assms(2)] by blast
  then have node: "node_at (hs_tree s) dir = Some (DirNode es)"
    by (auto simp: dir_at_def split: option.splits fs_node.splits)
  then have wf: "wf_node (DirNode es)" using wf_node_at [OF assms(1)] by blast
  then show "distinct archives" using es(2) archives_in_distinct wf_listed by simp
  have content: "file_at (hs_tree s) (dir @ q) = file_at (DirNode es) q" for q
    using node by (simp add: file_at_def node_at_append)
  have "p \<in> set archives \<longleftrightarrow> prefix dir p \<and> file_at (hs_tree s) p \<noteq> None \<and> archive_path (de_tables env) p" for p
  proof (cases "prefix dir p")
    case True
    then obtain q where "p = dir @ q" by (rule prefixE)
    then show ?thesis
      using archives_in_iff [OF wf, of dir q "de_tables env"] es(2) wf_listed [OF wf] content [of q]
      by (cases "q = []") (auto simp: archive_path_def)
  next
    case False
    then show ?thesis using archives_in_below es(2) by blast
  qed
  then show "set archives = {p. prefix dir p \<and> file_at (hs_tree s) p \<noteq> None \<and> archive_path (de_tables env) p}"
    by blast
qed

lemma flatten_one_counts:
  "io_ok (\<lambda>_. True) (flatten_one env dir x report)
     (\<lambda>r _. report_total r = Suc (report_total report)) (\<lambda>_. True)"
  unfolding flatten_one_def Let_def split_beta
  by (intro io_ok_bind [OF io_ok_any] io_ok_if io_ok_match [OF io_ok_any] io_ok_ret)
     (simp_all add: report_total_def)

lemma io_for_counts:
  assumes "\<And>x acc. io_ok (\<lambda>_. True) (body x acc) (\<lambda>r _. f r = Suc (f acc)) (\<lambda>_. True)"
    and "io_for xs body acc s = (Inr r, s')"
  shows "f r = f acc + length xs"
  using assms(2)
proof (induction xs arbitrary: acc s)
  case Nil
  then show ?case by (simp add: io_ret_def)
next
  case (Cons x xs)
  then obtain acc1 s1 where "body x acc s = (Inr acc1, s1)" "io_for xs body acc1 s1 = (Inr r, s')"
    by (auto simp: io_bind_def split: prod.splits sum.splits)
  then show ?case using Cons.IH io_okD(1) [OF assms(1)] by fastforce
qed

lemma sequence_opt_length: "sequence_opt xs = Some ys \<Longrightarrow> length ys = length xs"
  by (induction xs arbitrary: ys) (auto simp: bind_eq_Some_conv)

lemma file_names_length:
  "list_all (archive_path u) archives \<Longrightarrow> length (List.map_filter file_name_str archives) = length archives"
proof (induction archives)
  case (Cons p archives)
  obtain name where "file_name_str p = Some name" using Cons.prems archive_path_name [of u p] by auto
  then show ?case using Cons by (simp add: map_filter_simps)
qed (simp add: map_filter_simps)

lemma target_folder_names_length:
  assumes "target_folder_names u archives strip_pre = Some targets" "list_all (archive_path u) archives"
  shows "length targets = length archives"
proof -
  obtain bases where bases: "base_names_of u archives = Some bases" "length targets = min (length archives) (length bases)"
    using assms(1) by (auto simp: target_folder_names_def)
  then have "length bases = length archives"
    using sequence_opt_length file_names_length [OF assms(2)] by (fastforce simp: base_names_of_def)
  then show ?thesis using bases(2) by simp
qed

section \<open>The recursive run\<close>

text \<open>A number of passes one after the other, with their reports.\<close>

fun run_passes ::
  "'z flatten_env_scheme \<Rightarrow> host_path \<Rightarrow> bool \<Rightarrow> nat \<Rightarrow> (flatten_error, flatten_report list) io" where
  "run_passes env dir strip_pre 0 = io_ret []"
| "run_passes env dir strip_pre (Suc k) =
     io_bind (flatten_nested_archives env dir strip_pre) (\<lambda>r.
       io_bind (run_passes env dir strip_pre k) (\<lambda>rs. io_ret (r # rs)))"

definition union_of_passes :: "flatten_report \<Rightarrow> flatten_report \<Rightarrow> flatten_report list \<Rightarrow> bool" where
  "union_of_passes start r rs \<longleftrightarrow>
     extracted r = extracted start @ concat (map extracted rs)
     \<and> skipped r = skipped start @ concat (map skipped rs)
     \<and> failed r = failed start @ concat (map failed rs)
     \<and> warnings r = warnings (last rs)"

lemma union_of_passes_Cons:
  "rs \<noteq> [] \<Longrightarrow> union_of_passes (merge_reports start p) r rs \<Longrightarrow> union_of_passes start r (p # rs)"
  by (simp add: union_of_passes_def merge_reports_def)

lemma union_of_passes_single: "union_of_passes start (merge_reports start p) [p]"
  by (simp add: union_of_passes_def merge_reports_def)

lemma flatten_passes_result:
  assumes "flatten_passes env dir strip_pre k combined n s = (Inr r, s')" "0 < k"
    and "n \<le> int (length (extracted combined))"
  shows "\<exists>rs. rs \<noteq> [] \<and> length rs \<le> k \<and> run_passes env dir strip_pre (length rs) s = (Inr rs, s')
     \<and> union_of_passes combined r rs
     \<and> list_all (\<lambda>p. extracted p \<noteq> []) (butlast rs)
     \<and> (length rs < k \<longrightarrow> extracted (last rs) = [] \<or> 1000 < length (extracted r))"
  using assms
proof (induction k arbitrary: combined n s)
  case (Suc k)
  obtain p s1 where pass: "flatten_nested_archives env dir strip_pre s = (Inr p, s1)"
    using Suc.prems(1) by (auto simp: io_bind_def split: prod.splits sum.splits)
  define merged where "merged = merge_reports combined p"
  define m where "m = add_extractions n (length (extracted p))"
  have "int (length (extracted p)) mod 4294967296 \<le> int (length (extracted p))"
    by (simp add: zmod_le_nonneg_dividend)
  then have "m \<le> n + int (length (extracted p))"
    unfolding m_def add_extractions_def by linarith
  then have m: "m \<le> int (length (extracted merged))"
    using Suc.prems(3) by (simp add: merged_def merge_reports_def)
  have rest: "(if flatten_max_total_extractions < m then io_ret merged
      else if extracted p = [] then io_ret merged
      else flatten_passes env dir strip_pre k merged m) s1 = (Inr r, s')"
    using Suc.prems(1) pass by (auto simp: io_bind_def Let_def merged_def m_def split: if_splits)
  consider (stop) "flatten_max_total_extractions < m \<or> extracted p = []" "r = merged" "s' = s1"
    | (last) "extracted p \<noteq> []" "k = 0" "r = merged" "s' = s1"
    | (more) "extracted p \<noteq> []" "0 < k" "flatten_passes env dir strip_pre k merged m s1 = (Inr r, s')"
    using rest by (cases k) (auto simp: io_ret_def split: if_splits)
  then show ?case
  proof cases
    case stop
    have "extracted p = [] \<or> 1000 < length (extracted r)"
      using stop m by (auto simp: flatten_max_total_extractions_def)
    then show ?thesis
      using stop pass union_of_passes_single [of combined p]
      by (intro exI [of _ "[p]"]) (auto simp: merged_def io_bind_def io_ret_def)
  next
    case last
    then show ?thesis
      using pass union_of_passes_single [of combined p]
      by (intro exI [of _ "[p]"]) (auto simp: merged_def io_bind_def io_ret_def)
  next
    case more
    obtain rs where "rs \<noteq> []" "length rs \<le> k" "run_passes env dir strip_pre (length rs) s1 = (Inr rs, s')"
      "union_of_passes merged r rs" "list_all (\<lambda>p. extracted p \<noteq> []) (butlast rs)"
      "length rs < k \<longrightarrow> extracted (last rs) = [] \<or> 1000 < length (extracted r)"
      using Suc.IH [OF more(3,2) m] by blast
    then show ?thesis
      using pass more union_of_passes_Cons [of rs combined p r]
      by (intro exI [of _ "p # rs"]) (auto simp: merged_def io_bind_def io_ret_def)
  qed
qed simp

section \<open>Properties\<close>

text \<open>A callback that unpacks one file, except from an archive named \<^verbatim>\<open>b.zip\<close>, which it reports
  as broken.\<close>

definition sample_extract :: "nat \<Rightarrow> fs_node \<Rightarrow> host_path \<Rightarrow> host_path \<Rightarrow> (str + unit) \<times> fs_node" where
  "sample_extract n t a d =
     (if last a = as_bytes (lit ''b.zip'') then (Inl (lit ''broken''), t)
      else (Inr (), put_at t (d @ [as_bytes (lit ''mod.pak'')]) (FileNode [1])))"

definition sample_flatten_env :: flatten_env where
  "sample_flatten_env = \<lparr>io_fault = (\<lambda>n. n = 5), io_residue = (\<lambda>_ n. n), de_tables = ascii_tables,
     de_sha256 = id, de_order = id, fe_pid = 7, fe_extractor = sample_extract\<rparr>"

definition sample_mods :: host_state where
  "sample_mods = \<lparr>hs_tree = DirNode [(as_bytes (lit ''mods''), DirNode
     [(as_bytes (lit ''a.zip''), FileNode [9]), (as_bytes (lit ''b.zip''), FileNode [8]),
      (as_bytes (lit ''note.txt''), FileNode [7])])], hs_calls = 0\<rparr>"

lemma sample_extract_confined: "extractor_confined sample_flatten_env"
proof -
  have "\<not> prefix d q \<Longrightarrow> \<not> prefix (d @ [x]) q" for d q :: host_path and x
    by (auto simp: prefix_def)
  then show ?thesis
    by (simp add: extractor_confined_def sample_flatten_env_def sample_extract_def file_at_put_other)
qed

text \<open>C17. Flattening loses no file. Whatever calls fail, whichever error or report comes back and
  however many passes are made, a file that was there before is there afterwards with the same
  content, unless it is an archive below the directory that the extractor can unpack. All that is
  asked of the extractor is that it writes only below the folder it is given.\<close>

theorem flatten_keeps_files:
  assumes "extractor_confined env"
    and "file_at (hs_tree s) q = Some b"
    and "\<not> (prefix dir q \<and> archive_path (de_tables env) q \<and> can_extract env q)"
  shows "file_at (hs_tree (snd (flatten_nested_archives_recursive env dir strip_pre depth s))) q = Some b"
proof -
  define F where "F = (\<lambda>p. if p = q then Some b else None)"
  have "io_ok (keeps F) (flatten_nested_archives_recursive env dir strip_pre depth) (\<lambda>_. keeps F) (keeps F)"
    unfolding flatten_nested_archives_recursive_def Let_def
    using assms by (intro io_ok_flatten_passes io_ok_flatten_pass) (auto simp: F_def)
  moreover have "keeps F (hs_tree s)" using assms(2) by (simp add: F_def keeps_def)
  ultimately have "keeps F (hs_tree (snd (flatten_nested_archives_recursive env dir strip_pre depth s)))"
    unfolding io_ok_def by (metis sum.exhaust prod.collapse)
  then show ?thesis by (simp add: F_def keeps_def)
qed

theorem flatten_keeps_files_witness:
  "file_at (hs_tree (snd (flatten_nested_archives_recursive sample_flatten_env
      [as_bytes (lit ''mods'')] True 0 sample_mods))) [as_bytes (lit ''mods''), as_bytes (lit ''note.txt'')]
    = Some [7]"
proof (rule flatten_keeps_files [OF sample_extract_confined])
  show "file_at (hs_tree sample_mods) [as_bytes (lit ''mods''), as_bytes (lit ''note.txt'')] = Some [7]"
    by code_simp
  have "\<not> archive_path (de_tables sample_flatten_env) [as_bytes (lit ''mods''), as_bytes (lit ''note.txt'')]"
    by code_simp
  then show "\<not> (prefix [as_bytes (lit ''mods'')] [as_bytes (lit ''mods''), as_bytes (lit ''note.txt'')]
     \<and> archive_path (de_tables sample_flatten_env) [as_bytes (lit ''mods''), as_bytes (lit ''note.txt'')]
     \<and> can_extract sample_flatten_env [as_bytes (lit ''mods''), as_bytes (lit ''note.txt'')])"
    by blast
qed

text \<open>A pass that returns a report accounts for every archive: what it extracted, skipped and
  failed on adds up to the number of archive files there were below the directory.\<close>

theorem flatten_pass_accounts:
  assumes "wf_node (hs_tree s)"
    and "flatten_nested_archives env dir strip_pre s = (Inr report, s')"
  shows "report_total report =
    card {p. prefix dir p \<and> file_at (hs_tree s) p \<noteq> None \<and> archive_path (de_tables env) p}"
proof -
  obtain archives s1 where found: "find_archive_files_recursive env dir s = (Inr archives, s1)"
    using assms(2) by (auto simp: flatten_nested_archives_def io_bind_def split: prod.splits sum.splits)
  then obtain targets r s2 where named: "target_folder_names (de_tables env) archives strip_pre = Some targets"
    and loop: "io_for targets (flatten_one env dir) empty_report s1 = (Inr r, s2)"
    and total: "report_total report = report_total r"
    using assms(2)
    by (auto simp: flatten_nested_archives_def io_bind_def io_fail_def io_match_def io_ret_def report_total_def
        split: prod.splits sum.splits option.splits)
  have "list_all (archive_path (de_tables env)) archives"
    using find_archives_exact(2) [OF assms(1) found] by (simp add: list_all_iff)
  then have "report_total report = length archives"
    using io_for_counts [OF flatten_one_counts loop] total target_folder_names_length [OF named]
    by (simp add: report_total_def empty_report_def)
  then show ?thesis
    using find_archives_exact [OF assms(1) found] distinct_card by fastforce
qed

theorem flatten_pass_accounts_witness:
  "wf_node (hs_tree sample_mods)
   \<and> report_total \<lparr>extracted = [lit ''a''], skipped = [], failed = [(lit ''b'', lit ''broken'')], warnings = []\<rparr> =
    card {p. prefix [as_bytes (lit ''mods'')] p \<and> file_at (hs_tree sample_mods) p \<noteq> None
      \<and> archive_path (de_tables sample_flatten_env) p}"
proof
  show wf: "wf_node (hs_tree sample_mods)" by code_simp
  let ?run = "flatten_nested_archives sample_flatten_env [as_bytes (lit ''mods'')] True sample_mods"
  have "fst ?run
     = Inr \<lparr>extracted = [lit ''a''], skipped = [], failed = [(lit ''b'', lit ''broken'')], warnings = []\<rparr>"
    by code_simp
  then have "?run = (Inr \<lparr>extracted = [lit ''a''], skipped = [], failed = [(lit ''b'', lit ''broken'')],
      warnings = []\<rparr>, snd ?run)"
    by (rule prod_eqI [OF trans]) (simp_all only: fst_conv snd_conv)
  then show "report_total \<lparr>extracted = [lit ''a''], skipped = [], failed = [(lit ''b'', lit ''broken'')],
      warnings = []\<rparr> = card {p. prefix [as_bytes (lit ''mods'')] p \<and> file_at (hs_tree sample_mods) p \<noteq> None
      \<and> archive_path (de_tables sample_flatten_env) p}"
    by (rule flatten_pass_accounts [OF wf])
qed

text \<open>Folder names are chosen for the whole batch. The names are the file names without their
  archive extension; they lose their longest common prefix when that was asked for, there are two
  archives at least, the prefix takes five bytes or more and what is left of every name starts with a
  letter or digit, and otherwise none of them does. The slice that cuts the extension off never
  panics.\<close>

theorem target_folder_names_all_or_none:
  assumes "lowercase_ascii_suffixes u" and "list_all (archive_path u) archives"
  shows "\<exists>bases. list_all2 base_of archives bases
    \<and> (let pre = Longest_common_prefix (set bases) in
       target_folder_names u archives strip_pre = Some (zip archives
         (if strip_pre \<and> 2 \<le> length bases \<and> 5 \<le> str_len pre
             \<and> list_all (\<lambda>b. \<exists>c r. b = pre @ c # r \<and> char_alphanumeric u c) bases
          then map (drop (length pre)) bases else bases)))"
proof -
  obtain bases where bases: "base_names_of u archives = Some bases" "list_all2 base_of archives bases"
    using base_names_total [OF assms] by blast
  let ?pre = "Longest_common_prefix (set bases)"
  let ?cut = "strip_pre \<and> 2 \<le> length bases \<and> 5 \<le> str_len ?pre
     \<and> list_all (\<lambda>b. \<exists>c r. b = ?pre @ c # r \<and> char_alphanumeric u c) bases"
  have common: "\<forall>b \<in> set bases. prefix ?pre b" using Longest_common_prefix_prefix by blast
  have candidate: "strip_candidate u bases strip_pre = (if ?cut then ?pre else [])"
    using would_produce_broken_names_iff [OF common, of u]
    by (auto simp: strip_candidate_def longest_common_prefix_of_eq Let_def str_len_def)
  have cut_name: "folder_name_of ?pre b = drop (length ?pre) b" if ?cut "b \<in> set bases" for b
    using that by (auto simp: folder_name_of_def list_all_iff starts_with_def str_len_def Let_def)
  have "target_folder_names u archives strip_pre = Some (zip archives
      (map (folder_name_of (strip_candidate u bases strip_pre)) bases))"
    using bases(1) by (simp add: target_folder_names_def zip_map2 split_def)
  also have "map (folder_name_of (strip_candidate u bases strip_pre)) bases
     = (if ?cut then map (drop (length ?pre)) bases else bases)"
    using cut_name by (auto simp: candidate map_idI)
  finally show ?thesis using bases(2) by (auto simp: Let_def)
qed

theorem target_folder_names_all_or_none_witness:
  "\<exists>bases. list_all2 base_of [[as_bytes (lit ''Cat Mod A.zip'')], [as_bytes (lit ''Cat Mod B.RAR'')]] bases
    \<and> (let pre = Longest_common_prefix (set bases) in
       target_folder_names ascii_tables [[as_bytes (lit ''Cat Mod A.zip'')], [as_bytes (lit ''Cat Mod B.RAR'')]] True
       = Some (zip [[as_bytes (lit ''Cat Mod A.zip'')], [as_bytes (lit ''Cat Mod B.RAR'')]]
         (if True \<and> 2 \<le> length bases \<and> 5 \<le> str_len pre
             \<and> list_all (\<lambda>b. \<exists>c r. b = pre @ c # r \<and> char_alphanumeric ascii_tables c) bases
          then map (drop (length pre)) bases else bases)))"
  by (rule target_folder_names_all_or_none [OF ascii_tables_suffixes]) code_simp



end
