(* ===== verification/Output_Transaction.thy ===== *)
theory Output_Transaction
  imports File_System
begin

text \<open>
  \<^verbatim>\<open>crates/core/src/features/pipeline/output_transaction.rs\<close>, \<^verbatim>\<open>rename_no_replace\<close> of
  \<^verbatim>\<open>utilities/filesystem.rs\<close> and the folder output of \<^verbatim>\<open>executor.rs\<close>: an artifact is staged
  in a directory beside its destination and promoted by renames, and what was at the destination
  before is moved aside, put back or kept for recovery.

  The temporary directory is made by the tempfile crate: its random name is the parameter
  \<open>te_suffix\<close>, and making it fails when the name is taken. Destinations are given from the root.
  The locks that serialise commits are in \<open>Destination_Lock\<close>.
\<close>

section \<open>Calls\<close>

record transaction_env = io_env +
  te_suffix :: "nat \<Rightarrow> os_name"

datatype output_error =
    NoParent
  | NoFileName
  | CreatingParent host_path
  | CreatingTransaction host_path
  | Canonicalizing host_path
  | ReadingStaged host_path
  | NotRegularFile host_path
  | EmptyArchive host_path
  | NotDirectory host_path
  | CheckingDestination host_path
  | AlreadyExists host_path
  | TransactionRootGone               \<comment> \<open>the panic of the \<^verbatim>\<open>expect\<close> in \<^verbatim>\<open>commit_with_hooks\<close>\<close>
  | BackupFailed host_path host_path
  | NotPromoted host_path             \<comment> \<open>the cause carried by the messages below\<close>
  | FinalizeFailedRestored host_path
  | FinalizeFailedRecovery host_path host_path
  | FinalizeFailedNew host_path
  | CopyCreating host_path
  | CopyReading host_path
  | Copying host_path host_path

text \<open>The atomic rename that refuses an existing target.\<close>

definition rename_no_replace ::
  "'z io_env_scheme \<Rightarrow> 'e \<Rightarrow> host_path \<Rightarrow> host_path \<Rightarrow> ('e, unit) io" where
  "rename_no_replace env e a b = io_call env e (\<lambda>t.
     if path_exists t b then None else map_option (\<lambda>t'. ((), t')) (rename_tree t a b))"

definition create_dir :: "'z io_env_scheme \<Rightarrow> 'e \<Rightarrow> host_path \<Rightarrow> ('e, unit) io" where
  "create_dir env e p = io_call env e (\<lambda>t.
     if p = [] \<or> path_exists t p \<or> dir_at t (butlast p) = None then None
     else Some ((), put_at t p (DirNode [])))"

text \<open>\<^verbatim>\<open>std::fs::copy\<close> of a file with the given content; a failing call can leave part of it.\<close>

definition copy_file :: "'z io_env_scheme \<Rightarrow> 'e \<Rightarrow> byte list \<Rightarrow> host_path \<Rightarrow> ('e, unit) io" where
  "copy_file env e b p s =
     (let n = hs_calls s; t = hs_tree s; s' = s\<lparr>hs_calls := Suc n\<rparr> in
      if p = [] \<or> dir_at t (butlast p) = None \<or> dir_at t p \<noteq> None then (Inl e, s')
      else if io_fault env n
      then (Inl e, s'\<lparr>hs_tree := put_at t p (io_residue env n (FileNode b))\<rparr>)
      else (Inr (), s'\<lparr>hs_tree := put_at t p (FileNode b)\<rparr>))"

section \<open>Staging\<close>

record staged_output =
  so_destination :: host_path
  so_lock_key :: host_path
  so_root :: "host_path option"
  so_artifact :: host_path
  so_replace_existing :: bool

definition temp_dir_name :: "os_name \<Rightarrow> os_name" where
  "temp_dir_name random = as_bytes (lit ''.arclain-output-'') @ random"

text \<open>\<^verbatim>\<open>tempdir_in\<close>: the name is drawn by the number of the call.\<close>

definition tempdir_in :: "'z transaction_env_scheme \<Rightarrow> 'e \<Rightarrow> host_path \<Rightarrow> ('e, host_path) io" where
  "tempdir_in env e parent s =
     (let p = parent @ [temp_dir_name (te_suffix env (hs_calls s))] in
      io_bind (create_dir env e p) (\<lambda>_. io_ret p) s)"

definition close_transaction_root ::
  "'z io_env_scheme \<Rightarrow> host_path \<Rightarrow> ('e + 'a) \<Rightarrow> ('e, 'a) io" where
  "close_transaction_root env root outcome =
     io_match (remove_dir_all env () root)
       (\<lambda>_ s. (outcome, s)) (\<lambda>_ s. (outcome, s))"

definition staged_new ::
  "'z transaction_env_scheme \<Rightarrow> host_path \<Rightarrow> bool \<Rightarrow> (output_error, staged_output) io" where
  "staged_new env destination replace_existing =
     (if destination = [] then io_fail NoParent
      else
        (let parent = butlast destination in
         io_bind (create_dir_all env (CreatingParent parent) parent) (\<lambda>_.
         io_bind (tempdir_in env (CreatingTransaction destination) parent) (\<lambda>root.
         io_match (io_call env (Canonicalizing parent) (\<lambda>t. Some (parent, t)))
           (\<lambda>canonical_parent. io_ret \<lparr>so_destination = destination, so_lock_key = canonical_parent,
              so_root = Some root, so_artifact = root @ [as_bytes (lit ''artifact'')],
              so_replace_existing = replace_existing\<rparr>)
           (\<lambda>e. close_transaction_root env root (Inl e))))))"

text \<open>\<^verbatim>\<open>Drop\<close> of a transaction that was not committed.\<close>

definition staged_drop :: "'z io_env_scheme \<Rightarrow> staged_output \<Rightarrow> ('e + 'a) \<Rightarrow> ('e, 'a) io" where
  "staged_drop env so outcome =
     (case so_root so of
        None \<Rightarrow> (\<lambda>s. (outcome, s))
      | Some root \<Rightarrow> close_transaction_root env root outcome)"

datatype output_artifact = ArchiveArtifact | FolderArtifact

function verify_entries ::
  "'z io_env_scheme \<Rightarrow> host_path \<Rightarrow> (os_name \<times> fs_node) list \<Rightarrow> (output_error, unit) io" where
  "verify_entries env dir [] = io_ret ()"
| "verify_entries env dir ((n, FileNode b) # es) =
     io_bind (io_call env (ReadingStaged (dir @ [n])) (\<lambda>t. Some ((), t)))
       (\<lambda>_. verify_entries env dir es)"
| "verify_entries env dir ((n, DirNode ds) # es) =
     io_bind
       (io_bind (read_entries env (ReadingStaged (dir @ [n])) ds)
          (\<lambda>_. verify_entries env (dir @ [n]) (listed ds)))
       (\<lambda>_. verify_entries env dir es)"
  by pat_completeness auto
termination
  by (relation "measure (\<lambda>(env, dir, es). size (DirNode es))")
     (auto simp: size_listed less_Suc_eq_le intro: le_trans [OF size_listed [simplified]])

definition verify_regular_tree :: "'z io_env_scheme \<Rightarrow> host_path \<Rightarrow> (output_error, unit) io" where
  "verify_regular_tree env root =
     io_bind (io_call env (ReadingStaged root) (\<lambda>t. map_option (\<lambda>n. (n, t)) (node_at t root))) (\<lambda>n.
       case n of
         FileNode _ \<Rightarrow> io_fail (NotDirectory root)
       | DirNode _ \<Rightarrow> io_bind (read_dir env (ReadingStaged root) root) (verify_entries env root))"

definition verify :: "'z io_env_scheme \<Rightarrow> staged_output \<Rightarrow> output_artifact \<Rightarrow> (output_error, unit) io" where
  "verify env so artifact =
     (case artifact of
        ArchiveArtifact \<Rightarrow>
          io_bind (io_call env (ReadingStaged (so_artifact so))
              (\<lambda>t. map_option (\<lambda>n. (n, t)) (node_at t (so_artifact so)))) (\<lambda>n.
            case n of
              DirNode _ \<Rightarrow> io_fail (NotRegularFile (so_artifact so))
            | FileNode b \<Rightarrow> if b = [] then io_fail (EmptyArchive (so_artifact so)) else io_ret ())
      | FolderArtifact \<Rightarrow> verify_regular_tree env (so_artifact so))"

section \<open>Committing\<close>

text \<open>The closure \<^verbatim>\<open>outcome\<close> of \<^verbatim>\<open>commit_with_hooks\<close>. It returns the outcome and whether
  the transaction root is still there to be closed.\<close>

definition promote ::
  "'z io_env_scheme \<Rightarrow> (output_error, unit) io \<Rightarrow> staged_output \<Rightarrow> host_path \<Rightarrow> (output_error, unit) io" where
  "promote env before_promote so destination =
     io_bind before_promote (\<lambda>_. rename_no_replace env (NotPromoted destination) (so_artifact so) destination)"

definition roll_back ::
  "'z io_env_scheme \<Rightarrow> host_path \<Rightarrow> host_path \<Rightarrow> host_path \<Rightarrow> ('e, (output_error + host_path) \<times> bool) io" where
  "roll_back env root previous destination =
     io_match (rename_no_replace env () previous destination)
       (\<lambda>_. io_ret (Inl (FinalizeFailedRestored destination), True))
       (\<lambda>_. io_ret (Inl (FinalizeFailedRecovery destination root), False))"

definition commit_outcome ::
  "'z io_env_scheme \<Rightarrow> (output_error, unit) io \<Rightarrow> staged_output \<Rightarrow> host_path
     \<Rightarrow> ('e, (output_error + host_path) \<times> bool) io" where
  "commit_outcome env before_promote so root =
     (let destination = so_destination so; previous = root @ [as_bytes (lit ''previous'')] in
      io_match (io_call env (CheckingDestination destination) (\<lambda>t. Some (path_exists t destination, t)))
        (\<lambda>destination_exists.
          if destination_exists \<and> \<not> so_replace_existing so
          then io_ret (Inl (AlreadyExists destination), True)
          else if destination_exists then
            io_match (rename env (BackupFailed destination previous) destination previous)
              (\<lambda>_. io_match (promote env before_promote so destination)
                 (\<lambda>_. io_ret (Inr destination, True))
                 (\<lambda>_. roll_back env root previous destination))
              (\<lambda>e. io_ret (Inl e, True))
          else
            io_match (promote env before_promote so destination)
              (\<lambda>_. io_ret (Inr destination, True))
              (\<lambda>_. io_ret (Inl (FinalizeFailedNew destination), True)))
        (\<lambda>e. io_ret (Inl e, True)))"

text \<open>A transaction without a root has been committed already, which \<^verbatim>\<open>commit\<close> by value rules
  out.\<close>

definition commit_with_hooks ::
  "'z io_env_scheme \<Rightarrow> (output_error, unit) io \<Rightarrow> staged_output \<Rightarrow> (output_error, host_path) io" where
  "commit_with_hooks env before_promote so =
     (case so_root so of
        None \<Rightarrow> io_fail TransactionRootGone
      | Some root \<Rightarrow>
          io_bind (commit_outcome env before_promote so root) (\<lambda>(outcome, close_root).
            if close_root then close_transaction_root env root outcome
            else (\<lambda>s. (outcome, s))))"

definition commit :: "'z io_env_scheme \<Rightarrow> staged_output \<Rightarrow> (output_error, host_path) io" where
  "commit env so = commit_with_hooks env (io_ret ()) so"

section \<open>The folder output of the executor\<close>

text \<open>The source is the node it was when the copy began, which is what \<^verbatim>\<open>read_dir\<close> finds as long
  as the destination is not below the source.\<close>

function copy_entries ::
  "'z io_env_scheme \<Rightarrow> host_path \<Rightarrow> host_path \<Rightarrow> (os_name \<times> fs_node) list \<Rightarrow> (output_error, unit) io" where
  "copy_entries env src dest [] = io_ret ()"
| "copy_entries env src dest ((n, FileNode b) # es) =
     io_bind (copy_file env (Copying (src @ [n]) (dest @ [n])) b (dest @ [n]))
       (\<lambda>_. copy_entries env src dest es)"
| "copy_entries env src dest ((n, DirNode ds) # es) =
     io_bind
       (io_bind (create_dir env (CopyCreating (dest @ [n])) (dest @ [n])) (\<lambda>_.
        io_bind (read_entries env (CopyReading (src @ [n])) ds) (\<lambda>_.
          copy_entries env (src @ [n]) (dest @ [n]) (listed ds))))
       (\<lambda>_. copy_entries env src dest es)"
  by pat_completeness auto
termination
  by (relation "measure (\<lambda>(env, src, dest, es). size (DirNode es))")
     (auto simp: size_listed less_Suc_eq_le intro: le_trans [OF size_listed [simplified]])

definition copy_dir_recursive ::
  "'z io_env_scheme \<Rightarrow> host_path \<Rightarrow> host_path \<Rightarrow> (output_error, unit) io" where
  "copy_dir_recursive env src dest =
     io_bind (create_dir env (CopyCreating dest) dest) (\<lambda>_.
     io_bind (read_dir env (CopyReading src) src) (copy_entries env src dest))"

text \<open>Stage, copy, verify and commit; a transaction that is dropped on the way is closed.\<close>

definition write_folder_output ::
  "'z transaction_env_scheme \<Rightarrow> host_path \<Rightarrow> host_path \<Rightarrow> bool \<Rightarrow> (output_error, host_path) io" where
  "write_folder_output env work_dir output_path replace_existing =
     io_bind (staged_new env output_path replace_existing) (\<lambda>staged.
       io_match
         (io_bind (copy_dir_recursive env work_dir (so_artifact staged))
            (\<lambda>_. verify env staged FolderArtifact))
         (\<lambda>_. commit env staged)
         (\<lambda>e. staged_drop env staged (Inl e)))"

end
