(* ===== verification/Output_Properties.thy ===== *)
theory Output_Properties
  imports Output_Transaction File_Frame
begin

text \<open>
  Properties of the output transaction: a commit replaces the destination as a whole or leaves what
  was there recoverable, whichever calls fail and whatever arrives at the destination meanwhile; a
  folder output that is reported as written is the work directory.
\<close>

section \<open>The places of a transaction\<close>

definition artifact_name :: os_name where
  "artifact_name = as_bytes (lit ''artifact'')"

definition previous_name :: os_name where
  "previous_name = as_bytes (lit ''previous'')"

lemma artifact_not_previous: "artifact_name \<noteq> previous_name"
  by code_simp

text \<open>What a transaction beside \<open>parent @ [name]\<close> in the directory \<open>parent @ [tmp]\<close> finds: the
  destination, the backup and the artifact; and the files that have to stay.\<close>

definition laid ::
  "(host_path \<Rightarrow> byte list option) \<Rightarrow> host_path \<Rightarrow> os_name \<Rightarrow> os_name \<Rightarrow> fs_node option \<Rightarrow> fs_node option
     \<Rightarrow> fs_node option \<Rightarrow> fs_node \<Rightarrow> bool" where
  "laid F parent name tmp d prev art t \<longleftrightarrow> keeps F t \<and> dir_at t parent \<noteq> None
     \<and> dir_at t (parent @ [tmp]) \<noteq> None \<and> node_at t (parent @ [name]) = d
     \<and> node_at t (parent @ [tmp, previous_name]) = prev \<and> node_at t (parent @ [tmp, artifact_name]) = art"

lemma laid_keeps: "laid F parent name tmp d prev art t \<Longrightarrow> keeps F t"
  by (simp add: laid_def)

lemma exists_None: "\<not> path_exists t p \<longleftrightarrow> node_at t p = None"
  by (simp add: path_exists_def)

text \<open>The frame of a transaction: nothing that has to stay is at the destination or in the
  transaction root.\<close>

definition framed :: "(host_path \<Rightarrow> byte list option) \<Rightarrow> host_path \<Rightarrow> os_name \<Rightarrow> os_name \<Rightarrow> bool" where
  "framed F parent name tmp \<longleftrightarrow>
     name \<noteq> tmp \<and> clear_of F (parent @ [name]) \<and> clear_of F (parent @ [tmp])"

lemma framed_inside: "framed F parent name tmp \<Longrightarrow> clear_of F (parent @ [tmp, x])"
  unfolding framed_def using clear_of_below by (metis append.assoc append_Cons append_Nil prefixI)

lemma del_inside:
  "(\<exists>es. dir_at (del_at t (parent @ [tmp, x])) (parent @ [tmp]) = Some es)
     \<longleftrightarrow> (\<exists>es. dir_at t (parent @ [tmp]) = Some es)"
  using dir_at_del_above [of "parent @ [tmp]" "parent @ [tmp, x]" t] by (auto simp: strict_prefix_def)

lemma laid_moved:
  assumes "framed F parent name tmp" "laid F parent name tmp d prev art t"
  shows "node_at t (parent @ [name]) = Some n \<Longrightarrow> prev = None \<Longrightarrow>
      laid F parent name tmp None (Some n) art
        (put_at (del_at t (parent @ [name])) (parent @ [tmp, previous_name]) n)"
    and "art = Some a \<Longrightarrow> d = None \<Longrightarrow>
      laid F parent name tmp (Some a) prev None
        (put_at (del_at t (parent @ [tmp, artifact_name])) (parent @ [name]) a)"
    and "prev = Some a \<Longrightarrow> d = None \<Longrightarrow>
      laid F parent name tmp (Some a) None art
        (put_at (del_at t (parent @ [tmp, previous_name])) (parent @ [name]) a)"
  using assms artifact_not_previous framed_inside [OF assms(1)] del_inside [of t parent tmp]
  by (auto simp: laid_def framed_def keeps_put keeps_del node_at_put_same node_at_del_same
      node_at_put_parallel node_at_del_parallel dir_at_put_above dir_at_del_above dir_at_parallel
      butlast_append strict_prefix_def simp del: not_None_eq)

section \<open>The renames\<close>

lemma io_ok_rename_parallel:
  assumes "\<not> prefix a b" "\<not> prefix b a"
    and "\<And>t. P t \<Longrightarrow> node_at t a = Some n \<and> node_at t b = None \<and> dir_at t (butlast b) \<noteq> None"
    and "\<And>t. P t \<Longrightarrow> Q (put_at (del_at t a) b n)"
  shows "io_ok P (rename env e a b) (\<lambda>_. Q) P"
  unfolding rename_def
  by (rule io_ok_call) (use assms rename_tree_parallel [OF assms(1,2)] in fastforce)+

lemma io_ok_rename_no_replace:
  assumes "\<not> prefix a b" "\<not> prefix b a"
    and "\<And>t. P t \<Longrightarrow> node_at t a = Some n \<and> dir_at t (butlast b) \<noteq> None"
    and "\<And>t. P t \<Longrightarrow> node_at t b = None \<Longrightarrow> Q (put_at (del_at t a) b n)"
  shows "io_ok P (rename_no_replace env e a b) (\<lambda>_. Q) P"
  unfolding rename_no_replace_def
  by (rule io_ok_call)
     (use assms rename_tree_parallel [OF assms(1,2)] in \<open>fastforce simp: path_exists_def split: if_splits\<close>)+

lemma io_ok_back_up:
  assumes "framed F parent name tmp"
  shows "io_ok (laid F parent name tmp (Some n) None art)
     (rename env e (parent @ [name]) (parent @ [tmp, previous_name]))
     (\<lambda>_. laid F parent name tmp None (Some n) art) (laid F parent name tmp (Some n) None art)"
  using assms laid_moved(1) [OF assms]
  by (intro io_ok_rename_parallel [where n = n]) (auto simp: laid_def framed_def butlast_append)

lemma io_ok_promote_artifact:
  assumes "framed F parent name tmp"
  shows "io_ok (laid F parent name tmp d prev (Some a))
     (rename_no_replace env e (parent @ [tmp, artifact_name]) (parent @ [name]))
     (\<lambda>_ t. d = None \<and> laid F parent name tmp (Some a) prev None t) (laid F parent name tmp d prev (Some a))"
  using assms laid_moved(2) [OF assms]
  by (intro io_ok_rename_no_replace [where n = a]) (auto simp: laid_def framed_def butlast_append)

lemma io_ok_restore:
  assumes "framed F parent name tmp"
  shows "io_ok (laid F parent name tmp d (Some n) art)
     (rename_no_replace env e (parent @ [tmp, previous_name]) (parent @ [name]))
     (\<lambda>_ t. d = None \<and> laid F parent name tmp (Some n) None art t) (laid F parent name tmp d (Some n) art)"
  using assms laid_moved(3) [OF assms]
  by (intro io_ok_rename_no_replace [where n = n]) (auto simp: laid_def framed_def butlast_append)

text \<open>Closing the root leaves the destination alone.\<close>

lemma close_root_result:
  assumes "framed F parent name tmp" "laid F parent name tmp d prev art (hs_tree s)"
    and "close_transaction_root env (parent @ [tmp]) outcome s = (r, s')"
  shows "r = outcome \<and> keeps F (hs_tree s') \<and> node_at (hs_tree s') (parent @ [name]) = d"
  using assms
  by (auto simp: close_transaction_root_def io_match_def remove_dir_all_def Let_def laid_def framed_def
      keeps_put keeps_del node_at_put_parallel node_at_del_parallel
      split: option.splits fs_node.splits if_splits prod.splits sum.splits)

section \<open>Committing\<close>

text \<open>Another process puts something at the destination just before the artifact is promoted, or
  nothing happens.\<close>

definition arrival :: "host_path \<Rightarrow> fs_node option \<Rightarrow> ('e, unit) io" where
  "arrival p arr s =
     (Inr (), case arr of None \<Rightarrow> s | Some n \<Rightarrow> s\<lparr>hs_tree := put_at (hs_tree s) p n\<rparr>)"

lemma laid_arrived:
  assumes "framed F parent name tmp" "laid F parent name tmp None prev art t"
  shows "laid F parent name tmp (Some n) prev art (put_at t (parent @ [name]) n)"
  using assms
  by (auto simp: laid_def framed_def keeps_put node_at_put_same node_at_put_parallel dir_at_put_above
      dir_at_parallel butlast_append strict_prefix_def simp del: not_None_eq)

lemma io_ok_arrival:
  assumes "framed F parent name tmp"
  shows "io_ok (laid F parent name tmp None prev art) (arrival (parent @ [name]) arr)
     (\<lambda>_. laid F parent name tmp arr prev art) E"
  using laid_arrived [OF assms] by (cases arr) (auto simp: io_ok_def arrival_def)

lemma io_ok_promote:
  assumes "framed F parent name tmp" "so_artifact so = parent @ [tmp, artifact_name]"
  shows "io_ok (laid F parent name tmp None prev (Some a))
     (promote env (arrival (parent @ [name]) arr) so (parent @ [name]))
     (\<lambda>_ t. arr = None \<and> laid F parent name tmp (Some a) prev None t)
     (laid F parent name tmp arr prev (Some a))"
  unfolding promote_def assms(2)
  by (rule io_ok_bind [OF io_ok_arrival [OF assms(1)]]) (rule io_ok_promote_artifact [OF assms(1)])

text \<open>What a commit may leave, and whether its root is to be closed.\<close>

definition settled ::
  "(host_path \<Rightarrow> byte list option) \<Rightarrow> host_path \<Rightarrow> os_name \<Rightarrow> os_name \<Rightarrow> fs_node option \<Rightarrow> fs_node option
     \<Rightarrow> fs_node \<Rightarrow> (output_error + host_path) \<times> bool \<Rightarrow> fs_node \<Rightarrow> bool" where
  "settled F parent name tmp old arr a r t \<longleftrightarrow> (\<exists>d prev art. laid F parent name tmp d prev art t
     \<and> (case r of
          (Inr p, close) \<Rightarrow> p = parent @ [name] \<and> arr = None \<and> d = Some a \<and> close
        | (Inl e, close) \<Rightarrow>
            if close then d = old \<or> d = arr \<and> old = None
            else d = arr \<and> prev = old \<and> art = Some a
              \<and> e = FinalizeFailedRecovery (parent @ [name]) (parent @ [tmp])))"

lemma io_ok_roll_back:
  assumes "framed F parent name tmp"
  shows "io_ok (laid F parent name tmp arr (Some n) (Some a))
     (roll_back env (parent @ [tmp]) (parent @ [tmp, previous_name]) (parent @ [name]))
     (settled F parent name tmp (Some n) arr a) E"
  unfolding roll_back_def
  by (rule io_ok_match [OF io_ok_restore [OF assms]]; rule io_ok_ret)
     (auto simp: settled_def)

lemma io_ok_commit_outcome:
  assumes frame: "framed F parent name tmp"
    and so: "so_destination so = parent @ [name]" "so_artifact so = parent @ [tmp, artifact_name]"
  shows "io_ok (laid F parent name tmp old None (Some a))
     (commit_outcome env (arrival (parent @ [name]) arr) so (parent @ [tmp]))
     (settled F parent name tmp old arr a) E"
proof -
  let ?D = "parent @ [name]" let ?P = "parent @ [tmp, previous_name]"
  have unchanged: "io_ok (laid F parent name tmp old None (Some a)) (io_ret (Inl e, True))
     (settled F parent name tmp old arr a) E" for e
    by (rule io_ok_ret) (auto simp: settled_def)
  have promoted: "io_ok (\<lambda>t. arr = None \<and> laid F parent name tmp (Some a) prev None t)
     (io_ret (Inr ?D, True)) (settled F parent name tmp old arr a) E" for prev
    by (rule io_ok_ret) (auto simp: settled_def)
  have replace: "io_ok (laid F parent name tmp old None (Some a))
     (io_match (rename env (BackupFailed ?D ?P) ?D ?P)
        (\<lambda>_. io_match (promote env (arrival ?D arr) so ?D) (\<lambda>_. io_ret (Inr ?D, True))
           (\<lambda>_. roll_back env (parent @ [tmp]) ?P ?D))
        (\<lambda>e. io_ret (Inl e, True))) (settled F parent name tmp old arr a) E"
    if "old = Some n" for n
    unfolding that
    by (rule io_ok_match [OF io_ok_back_up [OF frame]])
       (rule io_ok_match [OF io_ok_promote [OF frame so(2)] promoted [unfolded that]
          io_ok_roll_back [OF frame]], rule unchanged [unfolded that])
  have fresh: "io_ok (laid F parent name tmp old None (Some a))
     (io_match (promote env (arrival ?D arr) so ?D) (\<lambda>_. io_ret (Inr ?D, True))
        (\<lambda>_. io_ret (Inl (FinalizeFailedNew ?D), True))) (settled F parent name tmp old arr a) E"
    if "old = None"
    unfolding that
    by (rule io_ok_match [OF io_ok_promote [OF frame so(2)] promoted [unfolded that]])
       (rule io_ok_ret, auto simp: settled_def)
  have "io_ok (laid F parent name tmp old None (Some a))
     (io_call env (CheckingDestination ?D) (\<lambda>t. Some (path_exists t ?D, t)))
     (\<lambda>ex t. laid F parent name tmp old None (Some a) t \<and> ex = (old \<noteq> None))
     (laid F parent name tmp old None (Some a))"
    by (rule io_ok_call) (auto simp: laid_def path_exists_def)
  moreover have "io_ok (\<lambda>t. laid F parent name tmp old None (Some a) t \<and> ex = (old \<noteq> None))
     (if ex \<and> \<not> so_replace_existing so then io_ret (Inl (AlreadyExists ?D), True)
      else if ex then
        io_match (rename env (BackupFailed ?D ?P) ?D ?P)
          (\<lambda>_. io_match (promote env (arrival ?D arr) so ?D) (\<lambda>_. io_ret (Inr ?D, True))
             (\<lambda>_. roll_back env (parent @ [tmp]) ?P ?D))
          (\<lambda>e. io_ret (Inl e, True))
      else
        io_match (promote env (arrival ?D arr) so ?D) (\<lambda>_. io_ret (Inr ?D, True))
          (\<lambda>_. io_ret (Inl (FinalizeFailedNew ?D), True))) (settled F parent name tmp old arr a) E" for ex
  proof (cases "ex = (old \<noteq> None)")
    case True
    then show ?thesis using unchanged replace fresh
      by (cases old) (auto intro: io_ok_weaken)
  qed (simp add: io_ok_false)
  ultimately show ?thesis
    unfolding commit_outcome_def Let_def so(1) previous_name_def [symmetric] append.assoc append.simps
    by (rule io_ok_match) (rule unchanged)
qed

text \<open>The files of a tree that are neither at the destination nor in the root.\<close>

definition files_beside :: "fs_node \<Rightarrow> host_path \<Rightarrow> os_name \<Rightarrow> os_name \<Rightarrow> host_path \<Rightarrow> byte list option" where
  "files_beside t parent name tmp q =
     (if prefix (parent @ [name]) q \<or> prefix (parent @ [tmp]) q then None else file_at t q)"

lemma files_beside_framed: "name \<noteq> tmp \<Longrightarrow> framed (files_beside t parent name tmp) parent name tmp"
  by (simp add: framed_def clear_of_def files_beside_def)

lemma files_beside_keeps: "keeps (files_beside t parent name tmp) t"
  by (auto simp: keeps_def files_beside_def split: if_splits)

lemma commit_result:
  assumes frame: "framed F parent name tmp"
    and so: "so_destination so = parent @ [name]" "so_root so = Some (parent @ [tmp])"
      "so_artifact so = parent @ [tmp, artifact_name]"
    and laid: "laid F parent name tmp old None (Some a) (hs_tree s)"
    and run: "commit_with_hooks env (arrival (parent @ [name]) arr) so s = (r, s')"
  shows "keeps F (hs_tree s')
    \<and> (case r of
         Inr p \<Rightarrow> p = parent @ [name] \<and> arr = None \<and> node_at (hs_tree s') (parent @ [name]) = Some a
       | Inl e \<Rightarrow> node_at (hs_tree s') (parent @ [name]) = old
           \<or> node_at (hs_tree s') (parent @ [name]) = arr \<and> (old = None
             \<or> e = FinalizeFailedRecovery (parent @ [name]) (parent @ [tmp])
               \<and> node_at (hs_tree s') (parent @ [tmp, previous_name]) = old
               \<and> node_at (hs_tree s') (parent @ [tmp, artifact_name]) = Some a))"
proof -
  let ?out = "commit_outcome env (arrival (parent @ [name]) arr) so (parent @ [tmp])
     :: (output_error, (output_error + host_path) \<times> bool) io"
  have ok: "io_ok (laid F parent name tmp old None (Some a)) ?out
     (settled F parent name tmp old arr a) (\<lambda>_. False)"
    by (rule io_ok_commit_outcome [OF frame so(1,3)])
  obtain outcome close s1 where out: "?out s = (Inr (outcome, close), s1)"
    using io_okD(2) [OF ok laid] by (cases "?out s") (auto split: sum.splits, metis surj_pair sum.exhaust)
  then obtain d prev art where d: "laid F parent name tmp d prev art (hs_tree s1)"
    and cases_r: "case outcome of
        Inr p \<Rightarrow> p = parent @ [name] \<and> arr = None \<and> d = Some a \<and> close
      | Inl e \<Rightarrow> if close then d = old \<or> d = arr \<and> old = None
          else d = arr \<and> prev = old \<and> art = Some a
            \<and> e = FinalizeFailedRecovery (parent @ [name]) (parent @ [tmp])"
    using io_okD(1) [OF ok laid out] unfolding settled_def prod.case by blast
  show ?thesis
  proof (cases close)
    case True
    then have "close_transaction_root env (parent @ [tmp]) outcome s1 = (r, s')"
      using run out so(2) by (simp add: commit_with_hooks_def io_bind_def)
    then show ?thesis
      using close_root_result [OF frame d] cases_r True by (auto split: sum.splits)
  next
    case False
    then have "r = outcome" "s' = s1"
      using run out so(2) by (simp_all add: commit_with_hooks_def io_bind_def)
    then show ?thesis using cases_r d False by (auto simp: laid_def split: sum.splits)
  qed
qed

section \<open>Copying\<close>

text \<open>A property of the tree that a change at or below a place does not touch.\<close>

definition stable_below :: "(fs_node \<Rightarrow> bool) \<Rightarrow> host_path \<Rightarrow> bool" where
  "stable_below K p \<longleftrightarrow> (\<forall>t q x. prefix p q \<longrightarrow> K t \<longrightarrow> K (put_at t q x))"

lemma stable_belowD: "stable_below K p \<Longrightarrow> prefix p q \<Longrightarrow> K t \<Longrightarrow> K (put_at t q x)"
  by (simp add: stable_below_def)

lemma update_fresh: "n \<notin> fst ` set acc \<Longrightarrow> AList.update n x acc = acc @ [(n, x)]"
  by (induction acc) auto

lemma update_last: "n \<notin> fst ` set acc \<Longrightarrow> AList.update n y (acc @ [(n, x)]) = acc @ [(n, y)]"
  by (induction acc) auto

lemma map_of_last: "n \<notin> fst ` set acc \<Longrightarrow> map_of (acc @ [(n, x)]) n = Some x"
  by (induction acc) auto

text \<open>An entry added to a directory.\<close>

lemma node_at_add_entry:
  assumes "node_at t dest = Some (DirNode acc)" "n \<notin> fst ` set acc"
  shows "node_at (put_at t (dest @ [n]) x) dest = Some (DirNode (acc @ [(n, x)]))"
    and "node_at (put_at t (dest @ [n]) x) (dest @ [n]) = Some x"
proof -
  show "node_at (put_at t (dest @ [n]) x) dest = Some (DirNode (acc @ [(n, x)]))"
    using assms by (simp add: node_at_put_above update_fresh)
  show "node_at (put_at t (dest @ [n]) x) (dest @ [n]) = Some x"
    using assms(1) by (intro node_at_put_same) (auto simp: dir_at_def)
qed

lemma io_ok_create_dir:
  assumes "stable_below K dest" "n \<notin> fst ` set acc"
  shows "io_ok (\<lambda>t. K t \<and> node_at t dest = Some (DirNode acc)) (create_dir env e (dest @ [n]))
     (\<lambda>_ t. K t \<and> node_at t dest = Some (DirNode (acc @ [(n, DirNode [])]))
        \<and> node_at t (dest @ [n]) = Some (DirNode [])) K"
  unfolding create_dir_def
  using node_at_add_entry [OF _ assms(2)] stable_belowD [OF assms(1)]
  by (intro io_ok_call) (auto split: if_splits)

lemma io_ok_copy_file:
  assumes "stable_below K dest" "n \<notin> fst ` set acc"
  shows "io_ok (\<lambda>t. K t \<and> node_at t dest = Some (DirNode acc)) (copy_file env e b (dest @ [n]))
     (\<lambda>_ t. K t \<and> node_at t dest = Some (DirNode (acc @ [(n, FileNode b)]))) K"
  using node_at_add_entry [OF _ assms(2)] stable_belowD [OF assms(1), of "dest @ [n]"]
  by (auto simp: io_ok_def copy_file_def Let_def split: if_splits)

text \<open>What is known of a directory while the last of its entries is filled.\<close>

lemma stable_below_last:
  assumes "stable_below K dest" "n \<notin> fst ` set acc"
  shows "stable_below (\<lambda>t. K t \<and> (\<exists>x. node_at t dest = Some (DirNode (acc @ [(n, x)])))) (dest @ [n])"
  unfolding stable_below_def
proof (intro allI impI)
  fix t q x
  assume "prefix (dest @ [n]) q" and K: "K t \<and> (\<exists>x. node_at t dest = Some (DirNode (acc @ [(n, x)])))"
  then obtain r where q: "q = dest @ n # r" by (auto simp: prefix_def)
  obtain y where y: "node_at t dest = Some (DirNode (acc @ [(n, y)]))" using K by blast
  have "map_of (acc @ [(n, y)]) n = Some y"
    using assms(2) by (rule map_of_last)
  then have "\<exists>z. put_at (DirNode (acc @ [(n, y)])) (n # r) x = DirNode (acc @ [(n, z)])"
    using assms(2) by (auto simp: update_last)
  then have "\<exists>z. node_at (put_at t q x) dest = Some (DirNode (acc @ [(n, z)]))"
    using y by (simp add: q node_at_put_above)
  moreover have "K (put_at t q x)"
    using stable_belowD [OF assms(1)] K q by simp
  ultimately show "K (put_at t q x) \<and> (\<exists>z. node_at (put_at t q x) dest = Some (DirNode (acc @ [(n, z)])))"
    by blast
qed

lemma io_ok_copy_entries:
  "wf_node (DirNode es) \<Longrightarrow> stable_below K dest \<Longrightarrow> fst ` set acc \<inter> fst ` set es = {} \<Longrightarrow>
   io_ok (\<lambda>t. K t \<and> node_at t dest = Some (DirNode acc)) (copy_entries env src dest es)
     (\<lambda>_ t. K t \<and> node_at t dest = Some (DirNode (acc @ es))) K"
proof (induction env src dest es arbitrary: acc K rule: copy_entries.induct)
  case (1 env src dest)
  then show ?case by (simp add: io_ok_ret)
next
  case (2 env src dest n b es)
  have "io_ok (\<lambda>t. K t \<and> node_at t dest = Some (DirNode (acc @ [(n, FileNode b)]))) (copy_entries env src dest es)
     (\<lambda>_ t. K t \<and> node_at t dest = Some (DirNode ((acc @ [(n, FileNode b)]) @ es))) K"
    using "2.prems" by (intro "2.IH") (auto simp: wf_node_Cons)
  then show ?case
    using "2.prems" io_ok_copy_file [of K dest n acc]
    by (auto intro!: io_ok_bind)
next
  case (3 env src dest n ds es)
  have n: "n \<notin> fst ` set acc" "wf_node (DirNode ds)" "listed ds = ds" "wf_node (DirNode es)"
    using "3.prems" wf_listed [of ds] unfolding wf_node_Cons by auto
  let ?K = "\<lambda>t. K t \<and> (\<exists>x. node_at t dest = Some (DirNode (acc @ [(n, x)])))"
  have made: "io_ok (\<lambda>t. K t \<and> node_at t dest = Some (DirNode acc))
     (create_dir env (CopyCreating (dest @ [n])) (dest @ [n]))
     (\<lambda>_ t. ?K t \<and> node_at t (dest @ [n]) = Some (DirNode [])) K"
    by (rule io_ok_weaken [OF io_ok_create_dir [OF "3.prems"(2) n(1)]]) auto
  have listing: "io_ok (\<lambda>t. ?K t \<and> node_at t (dest @ [n]) = Some (DirNode []))
     (read_entries env (CopyReading (src @ [n])) ds)
     (\<lambda>_ t. ?K t \<and> node_at t (dest @ [n]) = Some (DirNode [])) K"
    by (rule io_ok_read_entries) auto
  have filled: "io_ok (\<lambda>t. ?K t \<and> node_at t (dest @ [n]) = Some (DirNode []))
     (copy_entries env (src @ [n]) (dest @ [n]) (listed ds))
     (\<lambda>_ t. K t \<and> node_at t dest = Some (DirNode (acc @ [(n, DirNode ds)]))) K"
  proof (rule io_ok_weaken [OF "3.IH"(1) [of ?K "[]"]])
    show "wf_node (DirNode (listed ds))" using n by simp
    show "stable_below ?K (dest @ [n])" by (rule stable_below_last [OF "3.prems"(2) n(1)])
    fix t assume "?K t \<and> node_at t (dest @ [n]) = Some (DirNode ([] @ listed ds))"
    then show "K t \<and> node_at t dest = Some (DirNode (acc @ [(n, DirNode ds)]))"
      using n(3) map_of_last [OF n(1)] by (auto simp: node_at_append simp del: map_of_append)
  qed auto
  have rest: "io_ok (\<lambda>t. K t \<and> node_at t dest = Some (DirNode (acc @ [(n, DirNode ds)])))
     (copy_entries env src dest es)
     (\<lambda>_ t. K t \<and> node_at t dest = Some (DirNode ((acc @ [(n, DirNode ds)]) @ es))) K"
    using "3.prems" n by (intro "3.IH"(2)) (auto simp: wf_node_Cons)
  show ?case
    unfolding copy_entries.simps
    using io_ok_bind [OF io_ok_bind [OF made io_ok_bind [OF listing filled]] rest] by simp
qed

section \<open>Writing a folder\<close>

text \<open>What holds of the destination, the work directory and the other files before and after the
  transaction root is made.\<close>

definition before_stage ::
  "(host_path \<Rightarrow> byte list option) \<Rightarrow> host_path \<Rightarrow> fs_node option \<Rightarrow> host_path \<Rightarrow> fs_node \<Rightarrow> fs_node \<Rightarrow> bool" where
  "before_stage F dest old work w t \<longleftrightarrow> keeps F t \<and> node_at t dest = old \<and> node_at t work = Some w"

definition staged_at ::
  "(host_path \<Rightarrow> byte list option) \<Rightarrow> host_path \<Rightarrow> os_name \<Rightarrow> fs_node option \<Rightarrow> host_path \<Rightarrow> fs_node
     \<Rightarrow> fs_node \<Rightarrow> bool" where
  "staged_at F parent name old work w t \<longleftrightarrow>
     before_stage F (parent @ [name]) old work w t \<and> dir_at t parent \<noteq> None"

definition apart :: "host_path \<Rightarrow> os_name \<Rightarrow> os_name \<Rightarrow> host_path \<Rightarrow> bool" where
  "apart parent name tmp work \<longleftrightarrow> name \<noteq> tmp \<and> \<not> prefix (parent @ [tmp]) work
     \<and> \<not> prefix work (parent @ [tmp])"

lemma io_ok_create_parent:
  assumes "\<not> prefix work parent"
  shows "io_ok (before_stage F (parent @ [name]) old work w) (create_dir_all env e parent)
     (\<lambda>_. staged_at F parent name old work w) (before_stage F (parent @ [name]) old work w)"
  unfolding create_dir_all_def
proof (rule io_ok_call)
  fix t x t'
  assume "before_stage F (parent @ [name]) old work w t"
    and "map_option (\<lambda>t'. ((), t')) (mkdirs t parent) = Some (x, t')"
  then show "staged_at F parent name old work w t'"
    using assms node_at_mkdirs_other [of t parent t' work w]
    by (auto simp: staged_at_def before_stage_def keeps_def file_at_mkdirs node_at_mkdirs_below
        dest: dir_at_mkdirs)
qed

lemma staged_put:
  assumes "clear_of F (parent @ [tmp])" "apart parent name tmp work" "prefix (parent @ [tmp]) q"
    and "staged_at F parent name old work w t"
  shows "staged_at F parent name old work w (put_at t q x)"
proof -
  obtain r where q: "q = parent @ tmp # r" using assms(3) by (auto simp: prefix_def)
  have "\<not> prefix q work" "\<not> prefix work q \<or> prefix (parent @ [tmp]) work"
    using assms(2,3) unfolding apart_def
    by (metis prefix_order.trans) (metis assms(2) apart_def assms(3) prefix_same_cases)
  moreover have "\<not> prefix (parent @ [name]) q" "\<not> prefix q (parent @ [name])" "strict_prefix parent q"
    using assms(2) by (auto simp: q apart_def strict_prefix_def)
  moreover have "clear_of F q" using assms(1,3) clear_of_below by blast
  ultimately show ?thesis
    using assms(2,4)
    by (auto simp: staged_at_def before_stage_def apart_def keeps_put node_at_put_parallel
        dir_at_put_above simp del: not_None_eq)
qed

lemma io_ok_tempdir:
  assumes "\<not> prefix work (parent @ [name])" "\<not> prefix (parent @ [name]) work"
    and "\<And>n. name \<noteq> temp_dir_name (te_suffix env n)"
  shows "io_ok (staged_at F parent name old work w) (tempdir_in env e parent)
     (\<lambda>root t. \<exists>tmp. root = parent @ [tmp] \<and> apart parent name tmp work \<and> clear_of F root
        \<and> staged_at F parent name old work w t \<and> node_at t root = Some (DirNode []))
     (before_stage F (parent @ [name]) old work w)"
  unfolding io_ok_def
proof (intro allI impI conjI)
  fix s :: host_state and root s'
  assume pre: "staged_at F parent name old work w (hs_tree s)"
  define tmp where "tmp = temp_dir_name (te_suffix env (hs_calls s))"
  { assume "tempdir_in env e parent s = (Inr root, s')"
    then have root: "root = parent @ [tmp]" and free: "node_at (hs_tree s) root = None"
      and t': "hs_tree s' = put_at (hs_tree s) root (DirNode [])"
      by (auto simp: tempdir_in_def create_dir_def io_call_def io_bind_def io_ret_def Let_def tmp_def
          path_exists_def split: if_splits option.splits)
    have "node_at (hs_tree s) work = Some w" "keeps F (hs_tree s)" "dir_at (hs_tree s) parent \<noteq> None"
      using pre by (simp_all add: staged_at_def before_stage_def)
    moreover from this have "\<not> prefix root work"
      using free by (auto simp: prefix_def node_at_append)
    moreover have "\<not> prefix work root" using assms(1) calculation by (auto simp: root)
    ultimately have "apart parent name tmp work" "clear_of F root"
      using assms(3) free keeps_absent by (auto simp: apart_def root tmp_def)
    then show "\<exists>tmp. root = parent @ [tmp] \<and> apart parent name tmp work \<and> clear_of F root
        \<and> staged_at F parent name old work w (hs_tree s')
        \<and> node_at (hs_tree s') root = Some (DirNode [])"
      using staged_put [of F parent tmp name work root old w "hs_tree s"] pre t' root
        node_at_put_same [of root "hs_tree s"]
      by (auto simp: staged_at_def) }
next
  fix s :: host_state and err s'
  assume "staged_at F parent name old work w (hs_tree s)" "tempdir_in env e parent s = (Inl err, s')"
  then show "before_stage F (parent @ [name]) old work w (hs_tree s')"
    by (auto simp: tempdir_in_def create_dir_def io_call_def io_bind_def io_ret_def Let_def staged_at_def
        split: if_splits option.splits)
qed

text \<open>After staging: the transaction and an empty root.\<close>

definition opened ::
  "(host_path \<Rightarrow> byte list option) \<Rightarrow> host_path \<Rightarrow> os_name \<Rightarrow> fs_node option \<Rightarrow> host_path \<Rightarrow> fs_node
     \<Rightarrow> (os_name \<times> fs_node) list \<Rightarrow> os_name \<Rightarrow> fs_node \<Rightarrow> bool" where
  "opened F parent name old work w es tmp t \<longleftrightarrow> apart parent name tmp work \<and> clear_of F (parent @ [tmp])
     \<and> staged_at F parent name old work w t \<and> node_at t (parent @ [tmp]) = Some (DirNode es)"

definition transaction_at :: "host_path \<Rightarrow> os_name \<Rightarrow> os_name \<Rightarrow> staged_output \<Rightarrow> bool" where
  "transaction_at parent name tmp so \<longleftrightarrow> so_destination so = parent @ [name]
     \<and> so_root so = Some (parent @ [tmp]) \<and> so_artifact so = parent @ [tmp, artifact_name]"

lemma io_ok_close:
  assumes "clear_of F (parent @ [tmp])" "apart parent name tmp work"
  shows "io_ok (staged_at F parent name old work w) (close_transaction_root env (parent @ [tmp]) (Inl e))
     Q (before_stage F (parent @ [name]) old work w)"
  using assms
  by (auto simp: io_ok_def close_transaction_root_def io_match_def remove_dir_all_def Let_def apart_def
      staged_at_def before_stage_def keeps_put keeps_del node_at_put_parallel node_at_del_parallel
      split: option.splits fs_node.splits if_splits prod.splits sum.splits)

lemma io_ok_staged_new:
  assumes "\<not> prefix work (parent @ [name])" "\<not> prefix (parent @ [name]) work"
    and "\<And>n. name \<noteq> temp_dir_name (te_suffix env n)"
  shows "io_ok (before_stage F (parent @ [name]) old work w) (staged_new env (parent @ [name]) rep)
     (\<lambda>so t. \<exists>tmp. transaction_at parent name tmp so \<and> opened F parent name old work w [] tmp t)
     (before_stage F (parent @ [name]) old work w)"
proof -
  let ?open = "\<lambda>root t. \<exists>tmp. root = parent @ [tmp] \<and> apart parent name tmp work \<and> clear_of F root
     \<and> staged_at F parent name old work w t \<and> node_at t root = Some (DirNode [])"
  have canonical: "io_ok (?open root) (io_match (io_call env (Canonicalizing parent) (\<lambda>t. Some (parent, t)))
       (\<lambda>canonical_parent. io_ret \<lparr>so_destination = parent @ [name], so_lock_key = canonical_parent,
          so_root = Some root, so_artifact = root @ [as_bytes (lit ''artifact'')], so_replace_existing = rep\<rparr>)
       (\<lambda>e. close_transaction_root env root (Inl e)))
     (\<lambda>so t. \<exists>tmp. transaction_at parent name tmp so \<and> opened F parent name old work w [] tmp t)
     (before_stage F (parent @ [name]) old work w)" for root
  proof (cases "\<exists>tmp. root = parent @ [tmp] \<and> apart parent name tmp work \<and> clear_of F root")
    case True
    then obtain tmp where tmp: "root = parent @ [tmp]" "apart parent name tmp work" "clear_of F root" by blast
    show ?thesis
    proof (rule io_ok_match [where R = "\<lambda>_. ?open root" and D = "?open root"])
      show "io_ok (?open root) (close_transaction_root env root (Inl e))
         (\<lambda>so t. \<exists>tmp. transaction_at parent name tmp so \<and> opened F parent name old work w [] tmp t)
         (before_stage F (parent @ [name]) old work w)" for e
        unfolding tmp(1)
        by (rule io_ok_weaken [OF io_ok_close [OF tmp(3) [unfolded tmp(1)] tmp(2)]]) auto
    qed (use tmp in \<open>auto intro!: io_ok_call io_ok_ret simp: transaction_at_def opened_def artifact_name_def\<close>)
  next
    case False
    then show ?thesis by (intro io_ok_false) blast
  qed
  have "\<not> prefix work parent" using assms(1) by (auto simp: prefix_def)
  then show ?thesis
    unfolding staged_new_def Let_def
    using io_ok_bind [OF io_ok_create_parent io_ok_bind [OF io_ok_tempdir [OF assms] canonical]]
    by simp
qed

text \<open>Copying the work directory fills the root with the artifact.\<close>

lemma opened_stable:
  "stable_below (\<lambda>t. \<exists>x. opened F parent name old work w [(artifact_name, x)] tmp t) (parent @ [tmp, artifact_name])"
  unfolding stable_below_def
proof (intro allI impI)
  fix t q x
  assume q: "prefix (parent @ [tmp, artifact_name]) q"
    and "\<exists>x. opened F parent name old work w [(artifact_name, x)] tmp t"
  then obtain y where y: "opened F parent name old work w [(artifact_name, y)] tmp t" by blast
  obtain r where r: "q = (parent @ [tmp]) @ artifact_name # r" using q by (auto simp: prefix_def)
  have "\<exists>z. put_at (DirNode [(artifact_name, y)]) (artifact_name # r) x = DirNode [(artifact_name, z)]"
    by auto
  then have "\<exists>z. node_at (put_at t q x) (parent @ [tmp]) = Some (DirNode [(artifact_name, z)])"
    unfolding r using y node_at_put_above [of "artifact_name # r" t "parent @ [tmp]" x]
    by (auto simp: opened_def)
  moreover have "staged_at F parent name old work w (put_at t q x)"
    using y r by (intro staged_put [where tmp = tmp]) (auto simp: opened_def)
  ultimately show "\<exists>z. opened F parent name old work w [(artifact_name, z)] tmp (put_at t q x)"
    using y by (auto simp: opened_def)
qed

lemma io_ok_copy_dir:
  assumes "w = DirNode es" "wf_node w"
  shows "io_ok (opened F parent name old work w [] tmp)
     (copy_dir_recursive env work (parent @ [tmp, artifact_name]))
     (\<lambda>_. opened F parent name old work w [(artifact_name, w)] tmp)
     (\<lambda>t. \<exists>es. opened F parent name old work w es tmp t)"
proof -
  let ?A = "parent @ [tmp, artifact_name]"
  let ?K = "\<lambda>t. \<exists>x. opened F parent name old work w [(artifact_name, x)] tmp t"
  let ?E = "\<lambda>t. \<exists>es. opened F parent name old work w es tmp t"
  let ?made = "\<lambda>t. ?K t \<and> node_at t ?A = Some (DirNode [])"
  have made: "io_ok (opened F parent name old work w [] tmp) (create_dir env (CopyCreating ?A) ?A) (\<lambda>_. ?made) ?E"
    unfolding create_dir_def
  proof (rule io_ok_call)
    fix t x t'
    assume pre: "opened F parent name old work w [] tmp t"
      and "(if ?A = [] \<or> path_exists t ?A \<or> dir_at t (butlast ?A) = None then None
        else Some ((), put_at t ?A (DirNode []))) = Some (x, t')"
    then have t': "t' = put_at t ((parent @ [tmp]) @ [artifact_name]) (DirNode [])" by (auto split: if_splits)
    then show "?made t'"
      using pre node_at_add_entry [of t "parent @ [tmp]" "[]" artifact_name "DirNode []"]
        staged_put [of F parent tmp name work ?A old w t]
      by (auto simp: opened_def)
  qed auto
  have listing: "io_ok ?made (read_dir env (CopyReading work) work) (\<lambda>es' t. ?made t \<and> es' = es) ?E"
    using assms wf_listed [of es]
    by (intro io_ok_read_dir) (auto simp: opened_def staged_at_def before_stage_def dir_at_def)
  have copy: "io_ok (\<lambda>t. ?made t \<and> es' = es) (copy_entries env work ?A es')
     (\<lambda>_. opened F parent name old work w [(artifact_name, w)] tmp) ?E" for es'
  proof (cases "es' = es")
    case True
    show ?thesis
      unfolding True
    proof (rule io_ok_weaken [OF io_ok_copy_entries [OF assms(2) [unfolded assms(1)] opened_stable]])
      fix t assume "?K t \<and> node_at t ?A = Some (DirNode ([] @ es))"
      then obtain x where "opened F parent name old work w [(artifact_name, x)] tmp t"
        "node_at t ((parent @ [tmp]) @ [artifact_name]) = Some w" using assms(1) by auto
      then show "opened F parent name old work w [(artifact_name, w)] tmp t"
        using node_at_append [of t "parent @ [tmp]" "[artifact_name]"] by (auto simp: opened_def)
    qed (use assms True in auto)
  qed (simp add: io_ok_false)
  show ?thesis
    unfolding copy_dir_recursive_def by (rule io_ok_bind [OF made io_ok_bind [OF listing copy]])
qed

lemma verify_pure [simp]: "io_pure (verify env so artifact)"
proof -
  have call: "io_pure (io_call env e (\<lambda>t. Some (x, t)))" "io_pure (io_call env e (\<lambda>t. map_option (\<lambda>n. (n, t)) (f t)))"
    for e x f env
    by (auto simp: io_pure_def io_call_def Let_def split: option.splits)
  have "io_pure (verify_entries env dir es)" for dir es
    by (induction env dir es rule: verify_entries.induct) (auto simp: call)
  then show ?thesis
    by (auto simp: verify_def verify_regular_tree_def call intro!: io_pure_bind
        split: output_artifact.splits fs_node.splits)
qed

lemma opened_laid:
  assumes "opened F parent name old work w [(artifact_name, w)] tmp t" "clear_of F (parent @ [name])"
  shows "framed F parent name tmp" "laid F parent name tmp old None (Some w) t"
  using assms artifact_not_previous node_at_append [of t "parent @ [tmp]" "[artifact_name]"]
    node_at_append [of t "parent @ [tmp]" "[previous_name]"]
  by (auto simp: opened_def framed_def apart_def laid_def staged_at_def before_stage_def dir_at_def)

lemma arrival_None: "arrival p None = io_ret ()"
  by (rule ext) (simp add: arrival_def io_ret_def)

text \<open>What a failed output leaves: the old content in place, or all of it in a root kept for
  recovery.\<close>

definition preserved ::
  "(host_path \<Rightarrow> byte list option) \<Rightarrow> host_path \<Rightarrow> os_name \<Rightarrow> fs_node option \<Rightarrow> fs_node \<Rightarrow> fs_node \<Rightarrow> bool" where
  "preserved F parent name old w t \<longleftrightarrow> keeps F t \<and> (node_at t (parent @ [name]) = old
     \<or> node_at t (parent @ [name]) = None \<and> (\<exists>tmp. node_at t (parent @ [tmp, previous_name]) = old
         \<and> node_at t (parent @ [tmp, artifact_name]) = Some w))"

lemma io_ok_commit:
  assumes "transaction_at parent name tmp so" "clear_of F (parent @ [name])"
  shows "io_ok (opened F parent name old work w [(artifact_name, w)] tmp) (commit env so)
     (\<lambda>p t. keeps F t \<and> p = parent @ [name] \<and> node_at t (parent @ [name]) = Some w)
     (preserved F parent name old w)"
  unfolding io_ok_def
proof (intro allI impI conjI)
  fix s :: host_state and r :: "output_error + host_path" and s'
  assume "opened F parent name old work w [(artifact_name, w)] tmp (hs_tree s)"
  note laid = opened_laid [OF this assms(2)]
  have result: "commit env so s = (r, s') \<Longrightarrow> keeps F (hs_tree s') \<and> (case r of
      Inr p \<Rightarrow> p = parent @ [name] \<and> node_at (hs_tree s') (parent @ [name]) = Some w
    | Inl e \<Rightarrow> preserved F parent name old w (hs_tree s'))" for r s'
    using commit_result [OF laid(1) _ _ _ laid(2), of so env None r s'] assms(1)
    unfolding commit_def arrival_None transaction_at_def
    by (auto simp: preserved_def split: sum.splits)
  show "commit env so s = (Inr x, s') \<Longrightarrow> keeps F (hs_tree s')" for x s' using result by fastforce
  show "commit env so s = (Inr x, s') \<Longrightarrow> x = parent @ [name]" for x s' using result by fastforce
  show "commit env so s = (Inr x, s') \<Longrightarrow> node_at (hs_tree s') (parent @ [name]) = Some w" for x s'
    using result by fastforce
  show "commit env so s = (Inl e, s') \<Longrightarrow> preserved F parent name old w (hs_tree s')" for e s'
    using result by fastforce
qed

lemma io_ok_write_folder:
  assumes "w = DirNode es" "wf_node w" "clear_of F (parent @ [name])"
    and "\<not> prefix work (parent @ [name])" "\<not> prefix (parent @ [name]) work"
    and "\<And>n. name \<noteq> temp_dir_name (te_suffix env n)"
  shows "io_ok (before_stage F (parent @ [name]) old work w)
     (write_folder_output env work (parent @ [name]) rep)
     (\<lambda>p t. keeps F t \<and> p = parent @ [name] \<and> node_at t (parent @ [name]) = Some w)
     (preserved F parent name old w)"
proof -
  have weak: "before_stage F (parent @ [name]) old work w t \<Longrightarrow> preserved F parent name old w t" for t
    by (auto simp: before_stage_def preserved_def)
  have staged: "io_ok (opened F parent name old work w [] tmp)
     (io_match (io_bind (copy_dir_recursive env work (so_artifact so)) (\<lambda>_. verify env so FolderArtifact))
        (\<lambda>_. commit env so) (\<lambda>e. staged_drop env so (Inl e)))
     (\<lambda>p t. keeps F t \<and> p = parent @ [name] \<and> node_at t (parent @ [name]) = Some w)
     (preserved F parent name old w)" if so: "transaction_at parent name tmp so" for so tmp
  proof (rule io_ok_match [OF _ io_ok_commit [OF so assms(3)]])
    have "io_ok (opened F parent name old work w [(artifact_name, w)] tmp) (verify env so FolderArtifact)
       (\<lambda>_. opened F parent name old work w [(artifact_name, w)] tmp)
       (\<lambda>t. \<exists>es. opened F parent name old work w es tmp t)"
      by (rule io_ok_weaken [OF io_pure_ok
            [OF verify_pure, where P = "opened F parent name old work w [(artifact_name, w)] tmp"]]) auto
    then show "io_ok (opened F parent name old work w [] tmp)
       (io_bind (copy_dir_recursive env work (so_artifact so)) (\<lambda>_. verify env so FolderArtifact))
       (\<lambda>_. opened F parent name old work w [(artifact_name, w)] tmp)
       (\<lambda>t. \<exists>es. opened F parent name old work w es tmp t)"
      using so io_ok_bind [OF io_ok_copy_dir [OF assms(1,2)]] by (simp add: transaction_at_def)
    show "io_ok (\<lambda>t. \<exists>es. opened F parent name old work w es tmp t) (staged_drop env so (Inl e))
       (\<lambda>p t. keeps F t \<and> p = parent @ [name] \<and> node_at t (parent @ [name]) = Some w)
       (preserved F parent name old w)" for e
    proof (cases "clear_of F (parent @ [tmp]) \<and> apart parent name tmp work")
      case True
      then show ?thesis
        using so weak
        by (auto simp: staged_drop_def transaction_at_def opened_def
            intro!: io_ok_weaken [OF io_ok_close [of F parent tmp name work old w, where Q = "\<lambda>_ _. False"]])
    qed (auto intro: io_ok_false simp: opened_def)
  qed
  then have rest: "io_ok (\<lambda>t. \<exists>tmp. transaction_at parent name tmp so \<and> opened F parent name old work w [] tmp t)
     (io_match (io_bind (copy_dir_recursive env work (so_artifact so)) (\<lambda>_. verify env so FolderArtifact))
        (\<lambda>_. commit env so) (\<lambda>e. staged_drop env so (Inl e)))
     (\<lambda>p t. keeps F t \<and> p = parent @ [name] \<and> node_at t (parent @ [name]) = Some w)
     (preserved F parent name old w)" for so
    unfolding io_ok_def by meson
  have "io_ok (before_stage F (parent @ [name]) old work w) (staged_new env (parent @ [name]) rep)
     (\<lambda>so t. \<exists>tmp. transaction_at parent name tmp so \<and> opened F parent name old work w [] tmp t)
     (preserved F parent name old w)"
    by (rule io_ok_weaken [OF io_ok_staged_new [OF assms(4-6)]]) (auto intro: weak)
  then show ?thesis
    unfolding write_folder_output_def using rest by (rule io_ok_bind)
qed

section \<open>Properties\<close>

text \<open>C19. A commit replaces the destination as a whole or not at all. If it returns, the destination is
  the staged artifact and nothing had arrived there meanwhile. If it fails, the destination is what it
  was, or it is what another process put there in between, which is never overwritten; in that case
  the previous content, if there was any, and the artifact are both kept in the root the error names.
  No file beside the destination and the root is touched. This holds whichever calls fail.\<close>

theorem commit_replaces_or_preserves:
  assumes "name \<noteq> tmp"
    and "so = \<lparr>so_destination = parent @ [name], so_lock_key = key, so_root = Some (parent @ [tmp]),
       so_artifact = parent @ [tmp, artifact_name], so_replace_existing = rep\<rparr>"
    and "node_at (hs_tree s) (parent @ [tmp]) = Some (DirNode [(artifact_name, a)])"
    and "commit_with_hooks env (arrival (parent @ [name]) arr) so s = (r, s')"
  shows "(case r of
      Inr p \<Rightarrow> p = parent @ [name] \<and> arr = None \<and> node_at (hs_tree s') (parent @ [name]) = Some a
    | Inl e \<Rightarrow> node_at (hs_tree s') (parent @ [name]) = node_at (hs_tree s) (parent @ [name])
        \<or> node_at (hs_tree s') (parent @ [name]) = arr
          \<and> (node_at (hs_tree s) (parent @ [name]) = None
             \<or> e = FinalizeFailedRecovery (parent @ [name]) (parent @ [tmp])
               \<and> node_at (hs_tree s') (parent @ [tmp, previous_name]) = node_at (hs_tree s) (parent @ [name])
               \<and> node_at (hs_tree s') (parent @ [tmp, artifact_name]) = Some a))
    \<and> (\<forall>q b. file_at (hs_tree s) q = Some b \<and> \<not> prefix (parent @ [name]) q \<and> \<not> prefix (parent @ [tmp]) q
         \<longrightarrow> file_at (hs_tree s') q = Some b)"
proof -
  let ?t = "hs_tree s" let ?F = "files_beside (hs_tree s) parent name tmp"
  have "dir_at ?t parent \<noteq> None"
    using assms(3) node_at_append [of ?t parent "[tmp]"]
    by (auto simp: dir_at_def bind_eq_Some_conv split: option.splits fs_node.splits)
  then have laid: "laid ?F parent name tmp (node_at ?t (parent @ [name])) None (Some a) ?t"
    using assms(3) artifact_not_previous files_beside_keeps node_at_append [of ?t "parent @ [tmp]" "[artifact_name]"]
      node_at_append [of ?t "parent @ [tmp]" "[previous_name]"]
    by (auto simp: laid_def dir_at_def)
  from commit_result [OF files_beside_framed [OF assms(1)] _ _ _ this assms(4)] assms(2)
  have "keeps ?F (hs_tree s')" and result: "case r of
      Inr p \<Rightarrow> p = parent @ [name] \<and> arr = None \<and> node_at (hs_tree s') (parent @ [name]) = Some a
    | Inl e \<Rightarrow> node_at (hs_tree s') (parent @ [name]) = node_at ?t (parent @ [name])
        \<or> node_at (hs_tree s') (parent @ [name]) = arr \<and> (node_at ?t (parent @ [name]) = None
             \<or> e = FinalizeFailedRecovery (parent @ [name]) (parent @ [tmp])
               \<and> node_at (hs_tree s') (parent @ [tmp, previous_name]) = node_at ?t (parent @ [name])
               \<and> node_at (hs_tree s') (parent @ [tmp, artifact_name]) = Some a)"
    by simp_all
  then show ?thesis by (auto simp: keeps_def files_beside_def)
qed

text \<open>A destination with an old file, an artifact staged beside it, and a host whose third call
  fails: the promotion.\<close>

definition sample_host_env :: transaction_env where
  "sample_host_env = \<lparr>io_fault = (\<lambda>n. n = 2), io_residue = (\<lambda>_ n. n), te_suffix = (\<lambda>n. [120])\<rparr>"

definition sample_staged :: host_state where
  "sample_staged = \<lparr>hs_tree = DirNode [(as_bytes (lit ''out''), FileNode [1]),
     (as_bytes (lit ''work''), DirNode [(as_bytes (lit ''f''), FileNode [3])]),
     (as_bytes (lit ''t''), DirNode [(artifact_name, FileNode [2])])], hs_calls = 0\<rparr>"

definition sample_transaction :: staged_output where
  "sample_transaction = \<lparr>so_destination = [] @ [as_bytes (lit ''out'')], so_lock_key = [],
     so_root = Some ([] @ [as_bytes (lit ''t'')]), so_artifact = [] @ [as_bytes (lit ''t''), artifact_name],
     so_replace_existing = True\<rparr>"

definition sample_commit :: "(output_error + host_path) \<times> host_state" where
  "sample_commit = commit_with_hooks sample_host_env (arrival ([] @ [as_bytes (lit ''out'')]) None)
     sample_transaction sample_staged"

lemma conj_at_path: "P \<and> (\<forall>q b. A q b \<longrightarrow> B q b) \<Longrightarrow> A q b \<Longrightarrow> P \<and> B q b"
  by blast

theorem commit_replaces_or_preserves_witness:
  "(case fst sample_commit of
      Inr p \<Rightarrow> p = [] @ [as_bytes (lit ''out'')] \<and> (None :: fs_node option) = None
        \<and> node_at (hs_tree (snd sample_commit)) ([] @ [as_bytes (lit ''out'')]) = Some (FileNode [2])
    | Inl e \<Rightarrow> node_at (hs_tree (snd sample_commit)) ([] @ [as_bytes (lit ''out'')])
          = node_at (hs_tree sample_staged) ([] @ [as_bytes (lit ''out'')])
        \<or> node_at (hs_tree (snd sample_commit)) ([] @ [as_bytes (lit ''out'')]) = None
          \<and> (node_at (hs_tree sample_staged) ([] @ [as_bytes (lit ''out'')]) = None
             \<or> e = FinalizeFailedRecovery ([] @ [as_bytes (lit ''out'')]) ([] @ [as_bytes (lit ''t'')])
               \<and> node_at (hs_tree (snd sample_commit)) ([] @ [as_bytes (lit ''t''), previous_name])
                  = node_at (hs_tree sample_staged) ([] @ [as_bytes (lit ''out'')])
               \<and> node_at (hs_tree (snd sample_commit)) ([] @ [as_bytes (lit ''t''), artifact_name])
                  = Some (FileNode [2])))
    \<and> file_at (hs_tree (snd sample_commit)) [as_bytes (lit ''work''), as_bytes (lit ''f'')] = Some [3]"
proof (rule conj_at_path [OF commit_replaces_or_preserves [OF _ sample_transaction_def]])
  show "as_bytes (lit ''out'') \<noteq> as_bytes (lit ''t'')" by code_simp
  show "node_at (hs_tree sample_staged) ([] @ [as_bytes (lit ''t'')]) = Some (DirNode [(artifact_name, FileNode [2])])"
    by code_simp
  show "commit_with_hooks sample_host_env (arrival ([] @ [as_bytes (lit ''out'')]) None)
      sample_transaction sample_staged = (fst sample_commit, snd sample_commit)"
    by (simp add: sample_commit_def)
  show "file_at (hs_tree sample_staged) [as_bytes (lit ''work''), as_bytes (lit ''f'')] = Some [3]
      \<and> \<not> prefix ([] @ [as_bytes (lit ''out'')]) [as_bytes (lit ''work''), as_bytes (lit ''f'')]
      \<and> \<not> prefix ([] @ [as_bytes (lit ''t'')]) [as_bytes (lit ''work''), as_bytes (lit ''f'')]"
    by code_simp
qed

text \<open>Writing a folder output is all or nothing from the work directory to the destination. If it
  returns, the destination holds exactly the work directory, in place of what was there; if it fails,
  whichever call did, what was at the destination is still there, or it is in a transaction root
  beside it together with the complete copy. The files elsewhere are untouched.\<close>

theorem folder_output_is_work_dir:
  assumes "node_at (hs_tree s) work = Some (DirNode es)" and "wf_node (DirNode es)"
    and "\<not> prefix work (parent @ [name])" and "\<not> prefix (parent @ [name]) work"
    and "\<And>n. name \<noteq> temp_dir_name (te_suffix env n)"
    and "write_folder_output env work (parent @ [name]) rep s = (r, s')"
  shows "(case r of
      Inr p \<Rightarrow> p = parent @ [name] \<and> node_at (hs_tree s') (parent @ [name]) = Some (DirNode es)
    | Inl e \<Rightarrow> node_at (hs_tree s') (parent @ [name]) = node_at (hs_tree s) (parent @ [name])
        \<or> node_at (hs_tree s') (parent @ [name]) = None
          \<and> (\<exists>tmp. node_at (hs_tree s') (parent @ [tmp, previous_name]) = node_at (hs_tree s) (parent @ [name])
               \<and> node_at (hs_tree s') (parent @ [tmp, artifact_name]) = Some (DirNode es)))
    \<and> (\<forall>q b. file_at (hs_tree s) q = Some b \<and> \<not> prefix (parent @ [name]) q
         \<longrightarrow> file_at (hs_tree s') q = Some b)"
proof -
  define F where "F q = (if prefix (parent @ [name]) q then None else file_at (hs_tree s) q)" for q
  have clear: "clear_of F (parent @ [name])" by (simp add: clear_of_def F_def)
  have "before_stage F (parent @ [name]) (node_at (hs_tree s) (parent @ [name])) work (DirNode es) (hs_tree s)"
    using assms(1) by (auto simp: before_stage_def keeps_def F_def split: if_splits)
  note result = io_okD [OF io_ok_write_folder [OF refl assms(2) clear assms(3-5)] this]
  have "keeps F (hs_tree s')"
    using result assms(6) by (cases r) (auto simp: preserved_def)
  then have others: "\<forall>q b. file_at (hs_tree s) q = Some b \<and> \<not> prefix (parent @ [name]) q
      \<longrightarrow> file_at (hs_tree s') q = Some b"
    by (simp add: keeps_def F_def)
  show ?thesis
  proof (cases r)
    case (Inl e)
    then have "preserved F parent name (node_at (hs_tree s) (parent @ [name])) (DirNode es) (hs_tree s')"
      using result(2) assms(6) by blast
    then show ?thesis using others Inl by (simp add: preserved_def)
  next
    case (Inr p)
    then show ?thesis using result(1) assms(6) others by fastforce
  qed
qed

definition sample_output :: "(output_error + host_path) \<times> host_state" where
  "sample_output = write_folder_output sample_host_env [as_bytes (lit ''work'')]
     ([] @ [as_bytes (lit ''out'')]) True sample_staged"

theorem folder_output_is_work_dir_witness:
  "(case fst sample_output of
      Inr p \<Rightarrow> p = [] @ [as_bytes (lit ''out'')]
        \<and> node_at (hs_tree (snd sample_output)) ([] @ [as_bytes (lit ''out'')])
          = Some (DirNode [(as_bytes (lit ''f''), FileNode [3])])
    | Inl e \<Rightarrow> node_at (hs_tree (snd sample_output)) ([] @ [as_bytes (lit ''out'')])
          = node_at (hs_tree sample_staged) ([] @ [as_bytes (lit ''out'')])
        \<or> node_at (hs_tree (snd sample_output)) ([] @ [as_bytes (lit ''out'')]) = None
          \<and> (\<exists>tmp. node_at (hs_tree (snd sample_output)) ([] @ [tmp, previous_name])
                = node_at (hs_tree sample_staged) ([] @ [as_bytes (lit ''out'')])
               \<and> node_at (hs_tree (snd sample_output)) ([] @ [tmp, artifact_name])
                = Some (DirNode [(as_bytes (lit ''f''), FileNode [3])])))
    \<and> file_at (hs_tree (snd sample_output)) [as_bytes (lit ''work''), as_bytes (lit ''f'')] = Some [3]"
proof (rule conj_at_path [OF folder_output_is_work_dir])
  show "node_at (hs_tree sample_staged) [as_bytes (lit ''work'')]
      = Some (DirNode [(as_bytes (lit ''f''), FileNode [3])])" by code_simp
  show "wf_node (DirNode [(as_bytes (lit ''f''), FileNode [3])])" by code_simp
  show "\<not> prefix [as_bytes (lit ''work'')] ([] @ [as_bytes (lit ''out'')])" by code_simp
  show "\<not> prefix ([] @ [as_bytes (lit ''out'')]) [as_bytes (lit ''work'')]" by code_simp
  have "as_bytes (lit ''out'') \<noteq> temp_dir_name [120]" by code_simp
  then show "as_bytes (lit ''out'') \<noteq> temp_dir_name (te_suffix sample_host_env n)" for n
    by (simp add: sample_host_env_def)
  show "write_folder_output sample_host_env [as_bytes (lit ''work'')] ([] @ [as_bytes (lit ''out'')]) True
      sample_staged = (fst sample_output, snd sample_output)"
    by (simp add: sample_output_def)
  show "file_at (hs_tree sample_staged) [as_bytes (lit ''work''), as_bytes (lit ''f'')] = Some [3]
      \<and> \<not> prefix ([] @ [as_bytes (lit ''out'')]) [as_bytes (lit ''work''), as_bytes (lit ''f'')]"
    by code_simp
qed

end
