(* ===== verification/Destination_Lock.thy ===== *)
theory Destination_Lock
  imports File_System
begin

text \<open>
  The per-directory commit locks of
  \<^verbatim>\<open>crates/core/src/features/pipeline/output_transaction.rs\<close> (\<^verbatim>\<open>DESTINATION_LOCKS\<close>,
  \<^verbatim>\<open>DestinationLock\<close> and their use in \<^verbatim>\<open>commit_with_hooks\<close>). The registry keeps weak
  references; a mutex lives as long as a handle holds a strong one. Each operation on the registry is
  one critical section, and a step relation interleaves them: a handle is acquired, takes the mutex,
  gives it back, runs its \<^verbatim>\<open>Drop\<close> and then lets go of its strong reference, and between any two
  of these other handles can do anything.
\<close>

section \<open>State and operations\<close>

datatype lock_phase = Acquired | Guarded | Released | Dying

record lock_handle =
  lh_key :: host_path
  lh_mutex :: nat
  lh_phase :: lock_phase

record lock_state =
  lock_registry :: "host_path \<rightharpoonup> nat"         \<comment> \<open>weak references\<close>
  lock_handles :: "(nat \<times> lock_handle) list"
  next_mutex :: nat
  next_handle :: nat

definition no_locks :: lock_state where
  "no_locks = \<lparr>lock_registry = Map.empty, lock_handles = [], next_mutex = 0, next_handle = 0\<rparr>"

definition strong_count :: "lock_state \<Rightarrow> nat \<Rightarrow> nat" where
  "strong_count s m = length (filter (\<lambda>(_, h). lh_mutex h = m) (lock_handles s))"

definition acquire :: "host_path \<Rightarrow> lock_state \<Rightarrow> lock_state" where
  "acquire key s =
     (let live = (case lock_registry s key of
            Some m \<Rightarrow> if strong_count s m > 0 then Some m else None | None \<Rightarrow> None) in
      case live of
        Some m \<Rightarrow> s\<lparr>lock_handles := lock_handles s
            @ [(next_handle s, \<lparr>lh_key = key, lh_mutex = m, lh_phase = Acquired\<rparr>)],
          next_handle := Suc (next_handle s)\<rparr>
      | None \<Rightarrow> s\<lparr>lock_registry := (lock_registry s)(key \<mapsto> next_mutex s),
          lock_handles := lock_handles s
            @ [(next_handle s, \<lparr>lh_key = key, lh_mutex = next_mutex s, lh_phase = Acquired\<rparr>)],
          next_mutex := Suc (next_mutex s), next_handle := Suc (next_handle s)\<rparr>)"

definition set_phase :: "nat \<Rightarrow> lock_phase \<Rightarrow> lock_state \<Rightarrow> lock_state" where
  "set_phase i ph s = s\<lparr>lock_handles :=
     map (\<lambda>(j, h). (j, if j = i then h\<lparr>lh_phase := ph\<rparr> else h)) (lock_handles s)\<rparr>"

text \<open>The mutex is free when no handle on it is in the guarded phase.\<close>

definition mutex_free :: "lock_state \<Rightarrow> nat \<Rightarrow> bool" where
  "mutex_free s m \<longleftrightarrow> list_all (\<lambda>(_, h). lh_mutex h = m \<longrightarrow> lh_phase h \<noteq> Guarded) (lock_handles s)"

text \<open>The critical section of \<^verbatim>\<open>Drop\<close>: the entry goes when it is this mutex and no other handle
  holds it.\<close>

definition drop_section :: "nat \<Rightarrow> lock_handle \<Rightarrow> lock_state \<Rightarrow> lock_state" where
  "drop_section i h s =
     (let current = lock_registry s (lh_key h) = Some (lh_mutex h);
          s' = (if current \<and> strong_count s (lh_mutex h) = 1
                then s\<lparr>lock_registry := (lock_registry s)(lh_key h := None)\<rparr> else s) in
      set_phase i Dying s')"

definition release :: "nat \<Rightarrow> lock_state \<Rightarrow> lock_state" where
  "release i s = s\<lparr>lock_handles := filter (\<lambda>(j, _). j \<noteq> i) (lock_handles s)\<rparr>"

section \<open>Interleavings\<close>

inductive lock_step :: "lock_state \<Rightarrow> lock_state \<Rightarrow> bool" where
  step_acquire: "lock_step s (acquire key s)"
| step_lock: "(i, h) \<in> set (lock_handles s) \<Longrightarrow> lh_phase h = Acquired \<Longrightarrow> mutex_free s (lh_mutex h) \<Longrightarrow>
     lock_step s (set_phase i Guarded s)"
| step_unlock: "(i, h) \<in> set (lock_handles s) \<Longrightarrow> lh_phase h = Guarded \<Longrightarrow>
     lock_step s (set_phase i Released s)"
| step_drop: "(i, h) \<in> set (lock_handles s) \<Longrightarrow> lh_phase h = Released \<Longrightarrow>
     lock_step s (drop_section i h s)"
| step_release: "(i, h) \<in> set (lock_handles s) \<Longrightarrow> lh_phase h = Dying \<Longrightarrow>
     lock_step s (release i s)"

inductive lock_reachable :: "lock_state \<Rightarrow> bool" where
  start: "lock_reachable no_locks"
| step: "lock_reachable s \<Longrightarrow> lock_step s t \<Longrightarrow> lock_reachable t"

inductive_cases lock_stepE: "lock_step s t"

section \<open>Invariant\<close>

text \<open>Handles are told apart; a handle that is not dying is what the registry names; a mutex is held by
  one handle at most; mutexes yet to be made are not in use.\<close>

definition handle_ok :: "lock_state \<Rightarrow> nat \<Rightarrow> lock_handle \<Rightarrow> bool" where
  "handle_ok s i h \<longleftrightarrow> i < next_handle s \<and> lh_mutex h < next_mutex s
     \<and> (lh_phase h \<noteq> Dying \<longrightarrow> lock_registry s (lh_key h) = Some (lh_mutex h))"

definition lock_inv :: "lock_state \<Rightarrow> bool" where
  "lock_inv s \<longleftrightarrow>
     distinct (map fst (lock_handles s))
     \<and> (\<forall>i h. (i, h) \<in> set (lock_handles s) \<longrightarrow> handle_ok s i h)
     \<and> (\<forall>i h j g. (i, h) \<in> set (lock_handles s) \<longrightarrow> (j, g) \<in> set (lock_handles s) \<longrightarrow>
         lh_phase h = Guarded \<longrightarrow> lh_phase g = Guarded \<longrightarrow> lh_mutex h = lh_mutex g \<longrightarrow> i = j)"

lemma strong_count_pos: "(i, h) \<in> set (lock_handles s) \<Longrightarrow> 0 < strong_count s (lh_mutex h)"
  by (auto simp: strong_count_def filter_empty_conv)

lemma strong_count_some: "0 < strong_count s m \<Longrightarrow> \<exists>i h. (i, h) \<in> set (lock_handles s) \<and> lh_mutex h = m"
  by (auto simp: strong_count_def filter_empty_conv)

lemma strong_count_one:
  assumes "strong_count s m = 1" "(i, h) \<in> set (lock_handles s)" "lh_mutex h = m"
    and "(j, g) \<in> set (lock_handles s)" "lh_mutex g = m"
  shows "i = j"
proof -
  obtain x where "filter (\<lambda>(_, h). lh_mutex h = m) (lock_handles s) = [x]"
    using assms(1) by (auto simp: strong_count_def length_Suc_conv)
  moreover have "(i, h) \<in> set (filter (\<lambda>(_, h). lh_mutex h = m) (lock_handles s))"
    "(j, g) \<in> set (filter (\<lambda>(_, h). lh_mutex h = m) (lock_handles s))"
    using assms by auto
  ultimately show ?thesis by auto
qed

text \<open>What the handles are after an operation.\<close>

lemma handles_set_phase:
  "(j, g) \<in> set (lock_handles (set_phase i ph s)) \<longleftrightarrow>
     (\<exists>h. (j, h) \<in> set (lock_handles s) \<and> g = (if j = i then h\<lparr>lh_phase := ph\<rparr> else h))"
proof -
  have "(j, g) \<in> (\<lambda>(j, h). (j, if j = i then h\<lparr>lh_phase := ph\<rparr> else h)) ` set hs \<longleftrightarrow>
     (\<exists>h. (j, h) \<in> set hs \<and> g = (if j = i then h\<lparr>lh_phase := ph\<rparr> else h))" for hs
    by (induction hs) auto
  then show ?thesis by (simp add: set_phase_def)
qed

lemma handles_set_phaseE:
  assumes "(j, g) \<in> set (lock_handles (set_phase i ph s))"
  obtains h where "(j, h) \<in> set (lock_handles s)" "lh_key g = lh_key h" "lh_mutex g = lh_mutex h"
    "lh_phase g = (if j = i then ph else lh_phase h)"
  using assms unfolding handles_set_phase by (metis lock_handle.select_convs lock_handle.simps(5,6,7) lock_handle.surjective lock_handle.update_convs(3))

lemma set_phase_fields [simp]:
  "lock_registry (set_phase i ph s) = lock_registry s" "next_mutex (set_phase i ph s) = next_mutex s"
  "next_handle (set_phase i ph s) = next_handle s"
  "map fst (lock_handles (set_phase i ph s)) = map fst (lock_handles s)"
  by (auto simp: set_phase_def)

lemma lock_inv_ok: "lock_inv s \<Longrightarrow> (i, h) \<in> set (lock_handles s) \<Longrightarrow> handle_ok s i h"
  by (simp add: lock_inv_def)

lemma lock_inv_exclusive:
  "lock_inv s \<Longrightarrow> (i, h) \<in> set (lock_handles s) \<Longrightarrow> (j, g) \<in> set (lock_handles s) \<Longrightarrow>
     lh_phase h = Guarded \<Longrightarrow> lh_phase g = Guarded \<Longrightarrow> lh_mutex h = lh_mutex g \<Longrightarrow> i = j"
  unfolding lock_inv_def by blast

lemma inv_same_handle:
  "lock_inv s \<Longrightarrow> (i, h) \<in> set (lock_handles s) \<Longrightarrow> (i, g) \<in> set (lock_handles s) \<Longrightarrow> h = g"
  unfolding lock_inv_def by (blast dest: eq_key_imp_eq_value)

lemma lock_invI:
  assumes "distinct (map fst (lock_handles s))"
    and "\<And>i h. (i, h) \<in> set (lock_handles s) \<Longrightarrow> handle_ok s i h"
    and "\<And>i h j g. (i, h) \<in> set (lock_handles s) \<Longrightarrow> (j, g) \<in> set (lock_handles s) \<Longrightarrow>
       lh_phase h = Guarded \<Longrightarrow> lh_phase g = Guarded \<Longrightarrow> lh_mutex h = lh_mutex g \<Longrightarrow> i = j"
  shows "lock_inv s"
  using assms unfolding lock_inv_def by blast

lemma acquire_inv: "lock_inv s \<Longrightarrow> lock_inv (acquire key s)"
proof -
  assume inv: "lock_inv s"
  have ok: "handle_ok s i h" if "(i, h) \<in> set (lock_handles s)" for i h
    using inv that by (simp add: lock_inv_def)
  have fresh: "(next_handle s, h) \<notin> set (lock_handles s)" for h
    using ok by (fastforce simp: handle_ok_def)
  show ?thesis
  proof (cases "\<exists>m. lock_registry s key = Some m \<and> 0 < strong_count s m")
    case True
    then obtain m where m: "lock_registry s key = Some m" "0 < strong_count s m" by blast
    obtain i h where "(i, h) \<in> set (lock_handles s)" "lh_mutex h = m"
      using strong_count_some [OF m(2)] by blast
    then have "m < next_mutex s" using ok [of i h] by (auto simp: handle_ok_def)
    then show ?thesis
      using inv m fresh
      by (auto simp: acquire_def Let_def lock_inv_def handle_ok_def image_iff less_Suc_eq)
  next
    case False
    then have acq: "acquire key s = s\<lparr>lock_registry := (lock_registry s)(key \<mapsto> next_mutex s),
          lock_handles := lock_handles s
            @ [(next_handle s, \<lparr>lh_key = key, lh_mutex = next_mutex s, lh_phase = Acquired\<rparr>)],
          next_mutex := Suc (next_mutex s), next_handle := Suc (next_handle s)\<rparr>"
      by (auto simp: acquire_def Let_def split: option.splits)
    have "lh_phase h = Dying" if "(i, h) \<in> set (lock_handles s)" "lh_key h = key" for i h
      using False ok [OF that(1)] strong_count_pos [OF that(1)] that(2) by (auto simp: handle_ok_def)
    then show ?thesis
      using inv fresh unfolding acq
      by (auto simp: lock_inv_def handle_ok_def image_iff less_Suc_eq)
  qed
qed

lemma set_phase_inv:
  assumes "lock_inv s" "(i, h) \<in> set (lock_handles s)" "lh_phase h \<noteq> Dying"
    and "ph = Guarded \<Longrightarrow> mutex_free s (lh_mutex h)"
  shows "lock_inv (set_phase i ph s)"
proof -
  have same: "g = h" if "(i, g) \<in> set (lock_handles s)" for g
    using inv_same_handle [OF assms(1)] assms(2) that by blast
  have alone: "lh_phase g \<noteq> Guarded" if "ph = Guarded" "(j, g) \<in> set (lock_handles s)" "lh_mutex g = lh_mutex h" for j g
    using assms(4) that by (auto simp: mutex_free_def list_all_iff)
  show ?thesis
  proof (rule lock_invI)
    show "distinct (map fst (lock_handles (set_phase i ph s)))" using assms(1) by (simp add: lock_inv_def)
  next
    fix j g assume "(j, g) \<in> set (lock_handles (set_phase i ph s))"
    then obtain f where f: "(j, f) \<in> set (lock_handles s)" "lh_key g = lh_key f" "lh_mutex g = lh_mutex f"
      "lh_phase g = (if j = i then ph else lh_phase f)" by (rule handles_set_phaseE)
    have "j = i \<Longrightarrow> lh_phase f \<noteq> Dying" using same [of f] f(1) assms(3) by blast
    then show "handle_ok (set_phase i ph s) j g"
      using lock_inv_ok [OF assms(1) f(1)] f(2-4) by (auto simp: handle_ok_def)
  next
    fix j g k f
    assume "(j, g) \<in> set (lock_handles (set_phase i ph s))" "(k, f) \<in> set (lock_handles (set_phase i ph s))"
      "lh_phase g = Guarded" "lh_phase f = Guarded" "lh_mutex g = lh_mutex f"
    then obtain g' f' where "(j, g') \<in> set (lock_handles s)" "(k, f') \<in> set (lock_handles s)"
      "lh_mutex g' = lh_mutex f'" "if j = i then ph = Guarded else lh_phase g' = Guarded"
      "if k = i then ph = Guarded else lh_phase f' = Guarded"
      by (elim handles_set_phaseE) (auto split: if_splits)
    then show "j = k"
      using lock_inv_exclusive [OF assms(1), of j g' k f'] alone [of k f'] alone [of j g'] same
      by (cases "j = i"; cases "k = i") auto
  qed
qed

lemma drop_section_inv:
  assumes "lock_inv s" "(i, h) \<in> set (lock_handles s)" "lh_phase h = Released"
  shows "lock_inv (drop_section i h s)"
proof (cases "lock_registry s (lh_key h) = Some (lh_mutex h) \<and> strong_count s (lh_mutex h) = 1")
  case True
  have same: "g = h" if "(i, g) \<in> set (lock_handles s)" for g
    using inv_same_handle [OF assms(1)] assms(2) that by blast
  have dying: "lh_phase g = Dying" if "(j, g) \<in> set (lock_handles s)" "j \<noteq> i" "lh_key g = lh_key h" for j g
  proof (rule ccontr)
    assume "lh_phase g \<noteq> Dying"
    then have "lh_mutex g = lh_mutex h"
      using lock_inv_ok [OF assms(1) that(1)] that(3) True by (simp add: handle_ok_def)
    then show False using strong_count_one [of s "lh_mutex h" i h j g] True assms(2) that by simp
  qed
  let ?s = "s\<lparr>lock_registry := (lock_registry s)(lh_key h := None)\<rparr>"
  have drop: "drop_section i h s = set_phase i Dying ?s" using True by (simp add: drop_section_def)
  show ?thesis
    unfolding drop
  proof (rule lock_invI)
    show "distinct (map fst (lock_handles (set_phase i Dying ?s)))" using assms(1) by (simp add: lock_inv_def)
  next
    fix j g assume "(j, g) \<in> set (lock_handles (set_phase i Dying ?s))"
    then obtain f where f: "(j, f) \<in> set (lock_handles s)" "lh_key g = lh_key f" "lh_mutex g = lh_mutex f"
      "lh_phase g = (if j = i then Dying else lh_phase f)" by (rule handles_set_phaseE) auto
    then show "handle_ok (set_phase i Dying ?s) j g"
      using lock_inv_ok [OF assms(1) f(1)] dying [OF f(1)] by (auto simp: handle_ok_def)
  next
    fix j g k f
    assume "(j, g) \<in> set (lock_handles (set_phase i Dying ?s))" "(k, f) \<in> set (lock_handles (set_phase i Dying ?s))"
      "lh_phase g = Guarded" "lh_phase f = Guarded" "lh_mutex g = lh_mutex f"
    then show "j = k"
      by (elim handles_set_phaseE)
         (use lock_inv_exclusive [OF assms(1)] in \<open>auto split: if_splits\<close>)
  qed
next
  case False
  then show ?thesis
    using assms set_phase_inv [of s i h Dying] by (auto simp: drop_section_def)
qed

lemma release_inv: "lock_inv s \<Longrightarrow> lock_inv (release i s)"
  by (auto simp: lock_inv_def release_def handle_ok_def distinct_map_filter)

lemma lock_step_inv: "lock_step s t \<Longrightarrow> lock_inv s \<Longrightarrow> lock_inv t"
  by (erule lock_stepE)
     (auto intro: acquire_inv drop_section_inv release_inv set_phase_inv)

lemma lock_reachable_inv: "lock_reachable s \<Longrightarrow> lock_inv s"
proof (induction rule: lock_reachable.induct)
  case start
  then show ?case by (simp add: lock_inv_def no_locks_def)
next
  case (step s t)
  then show ?case using lock_step_inv by blast
qed

text \<open>Once its holder has given a mutex back, nobody holds it.\<close>

lemma unlock_frees:
  assumes "lock_inv s" "(j, g) \<in> set (lock_handles s)" "lh_phase g = Guarded"
  shows "mutex_free (set_phase j Released s) (lh_mutex g)"
  unfolding mutex_free_def list_all_iff
proof (intro ballI, clarify)
  fix k f
  assume "(k, f) \<in> set (lock_handles (set_phase j Released s))" "lh_mutex f = lh_mutex g" "lh_phase f = Guarded"
  then show False
    by (elim handles_set_phaseE) (use lock_inv_exclusive [OF assms(1) _ assms(2)] assms(3) in \<open>auto split: if_splits\<close>)
qed

lemma lock_now:
  assumes "(i, h) \<in> set (lock_handles s)" "lh_phase h = Acquired" "mutex_free s (lh_mutex h)"
  shows "\<exists>t h'. lock_step s t \<and> (i, h') \<in> set (lock_handles t) \<and> lh_phase h' = Guarded"
  using assms step_lock [OF assms] handles_set_phase [of i _ i Guarded s] by force

section \<open>Properties\<close>

text \<open>A commit that holds the lock of a directory and another one that waits for it.\<close>

definition two_commits :: lock_state where
  "two_commits = set_phase 0 Guarded (acquire [] (acquire [] no_locks))"

lemma two_commits_reachable: "lock_reachable two_commits"
proof -
  have "lock_reachable (acquire [] (acquire [] no_locks))"
    by (intro lock_reachable.step [OF _ step_acquire] lock_reachable.start)
  moreover have "(0, \<lparr>lh_key = [], lh_mutex = 0, lh_phase = Acquired\<rparr>)
      \<in> set (lock_handles (acquire [] (acquire [] no_locks)))"
    "mutex_free (acquire [] (acquire [] no_locks)) 0"
    by code_simp+
  ultimately show ?thesis
    unfolding two_commits_def by (intro lock_reachable.step [OF _ step_lock]) auto
qed

text \<open>C20. Two commits into the same directory are never between taking and giving back the lock at the
  same time, whatever the order in which handles come and go and their weak references lapse.\<close>

theorem commits_exclude_each_other:
  assumes "lock_reachable s"
    and "(i, h) \<in> set (lock_handles s)" and "(j, g) \<in> set (lock_handles s)"
    and "lh_key h = lh_key g" and "i \<noteq> j" and "lh_phase h = Guarded"
  shows "lh_phase g \<noteq> Guarded"
proof
  assume "lh_phase g = Guarded"
  note inv = lock_reachable_inv [OF assms(1)]
  have "lh_mutex h = lh_mutex g"
    using lock_inv_ok [OF inv assms(2)] lock_inv_ok [OF inv assms(3)] assms(4,6) \<open>lh_phase g = Guarded\<close>
    by (simp add: handle_ok_def)
  then show False
    using lock_inv_exclusive [OF inv assms(2,3)] assms(5,6) \<open>lh_phase g = Guarded\<close> by blast
qed

theorem commits_exclude_each_other_witness:
  "lh_phase (snd (lock_handles two_commits ! 0)) = Guarded
   \<and> lh_phase (snd (lock_handles two_commits ! 1)) \<noteq> Guarded"
proof
  show guarded: "lh_phase (snd (lock_handles two_commits ! 0)) = Guarded" by code_simp
  show "lh_phase (snd (lock_handles two_commits ! 1)) \<noteq> Guarded"
  proof (rule commits_exclude_each_other [OF two_commits_reachable _ _ _ _ guarded])
    show "(0, snd (lock_handles two_commits ! 0)) \<in> set (lock_handles two_commits)" by code_simp
    show "(1, snd (lock_handles two_commits ! 1)) \<in> set (lock_handles two_commits)" by code_simp
    show "lh_key (snd (lock_handles two_commits ! 0)) = lh_key (snd (lock_handles two_commits ! 1))"
      by code_simp
  qed simp
qed



end
