(* ===== verification/Bytes.thy ===== *)
theory Bytes
  imports Utf8
begin

text \<open>
  Little-endian integers and length-prefixed fields, the byte-level vocabulary of the checksum and
  archive-import crates: \<^verbatim>\<open>to_le_bytes\<close> and \<^verbatim>\<open>from_le_bytes\<close>.
\<close>

fun le_bytes :: "nat \<Rightarrow> nat \<Rightarrow> byte list" where
  "le_bytes 0 x = []"
| "le_bytes (Suc n) x = of_nat (x mod 256) # le_bytes n (x div 256)"

fun le_value :: "byte list \<Rightarrow> nat" where
  "le_value [] = 0"
| "le_value (b # bs) = unat b + 256 * le_value bs"

lemma length_le_bytes [simp]: "length (le_bytes n x) = n"
  by (induction n x rule: le_bytes.induct) auto

lemma unat_of_nat_byte [simp]: "unat (of_nat (x mod 256) :: byte) = x mod 256"
  by (simp add: unat_of_nat)

lemma le_value_le_bytes: "le_value (le_bytes n x) = x mod 256 ^ n"
proof (induction n x rule: le_bytes.induct)
  case (2 n x)
  have "x mod 256 + 256 * (x div 256 mod 256 ^ n) = x mod (256 * 256 ^ n)"
    by (simp add: mod_mult2_eq)
  then show ?case using 2 by simp
qed simp

lemma le_value_less: "le_value bs < 256 ^ length bs"
proof (induction bs)
  case (Cons b bs)
  have "unat b < 256" using unsigned_less [of b] by simp
  moreover have "256 * le_value bs + 256 \<le> 256 * 256 ^ length bs"
    using Cons by (simp add: Suc_le_eq flip: mult_Suc_right)
  ultimately show ?case by simp
qed simp

lemma le_bytes_le_value: "le_bytes (length bs) (le_value bs) = bs"
proof (induction bs)
  case (Cons b bs)
  have b: "unat b < 256" using unsigned_less [of b] by simp
  then have "(unat b + 256 * le_value bs) mod 256 = unat b" "(unat b + 256 * le_value bs) div 256 = le_value bs"
    by simp_all
  then show ?case using Cons by simp
qed simp

lemma le_bytes_inject: "x < 256 ^ n \<Longrightarrow> y < 256 ^ n \<Longrightarrow> le_bytes n x = le_bytes n y \<longleftrightarrow> x = y"
  by (metis le_value_le_bytes mod_less)

text \<open>A field behind its length.\<close>

definition length_prefixed :: "byte list \<Rightarrow> byte list" where
  "length_prefixed field = le_bytes 8 (length field) @ field"

lemma length_prefixed_inject:
  assumes "length a < 2 ^ 64" "length b < 2 ^ 64"
    and "length_prefixed a @ r = length_prefixed b @ s"
  shows "a = b \<and> r = s"
proof -
  have "le_bytes 8 (length a) = le_bytes 8 (length b)" and rest: "a @ r = b @ s"
    using assms(3) by (auto simp: length_prefixed_def)
  then have "length a = length b" using assms(1,2) le_bytes_inject [of "length a" 8 "length b"] by simp
  then show ?thesis using rest by simp
qed

end
