(* ===== verification/Merkle.thy ===== *)
theory Merkle
  imports Bytes "HOL-Library.Product_Lexorder"
begin

text \<open>
  \<^verbatim>\<open>crates/checksum/src/merkle.rs\<close>, with \<^verbatim>\<open>algorithm.rs\<close> and the hash types of
  \<^verbatim>\<open>hasher.rs\<close>: a tree of hashes over the files of a folder. Leaves commit to the normalised path, the
  size and the content hash of a file.

  The hash functions come from other crates and are the record \<open>hash_crates\<close>. Nothing is assumed of
  them here but that a SHA-256 digest has 32 bytes.
\<close>

section \<open>Algorithms and hashes\<close>

datatype algorithm = Crc32 | XxHash | Sha256

fun output_size :: "algorithm \<Rightarrow> nat" where
  "output_size Crc32 = 4"
| "output_size XxHash = 8"
| "output_size Sha256 = 32"

definition algorithm_from_str :: "unicode \<Rightarrow> str \<Rightarrow> algorithm option" where
  "algorithm_from_str u s =
     (let l = str_lower u s in
      if l = lit ''crc32'' then Some Crc32
      else if l = lit ''xxhash'' \<or> l = lit ''xxh3'' then Some XxHash
      else if l = lit ''sha256'' \<or> l = lit ''sha-256'' then Some Sha256
      else None)"

fun algorithm_display :: "algorithm \<Rightarrow> str" where
  "algorithm_display Crc32 = lit ''crc32''"
| "algorithm_display XxHash = lit ''xxhash''"
| "algorithm_display Sha256 = lit ''sha256''"

record hash =
  hash_algorithm :: algorithm
  hash_bytes :: "byte list"

definition hex_digit :: "nat \<Rightarrow> uchar" where
  "hex_digit n = (if n < 10 then 48 + int n else 87 + int n)"

definition to_hex :: "hash \<Rightarrow> str" where
  "to_hex h = concat (map (\<lambda>b. [hex_digit (unat b div 16), hex_digit (unat b mod 16)]) (hash_bytes h))"

record file_hash_result =
  relative_path :: str
  fh_hash :: hash
  fh_size :: "64 word"

record hash_crates =
  crc32_of :: "byte list \<Rightarrow> 32 word"
  xxh3_64_of :: "byte list \<Rightarrow> 64 word"
  sha256_of :: "byte list \<Rightarrow> byte list"

definition digest_length_ok :: "hash_crates \<Rightarrow> bool" where
  "digest_length_ok hc \<longleftrightarrow> (\<forall>e. length (sha256_of hc e) = 32)"

definition compute_hash :: "hash_crates \<Rightarrow> byte list \<Rightarrow> algorithm \<Rightarrow> byte list" where
  "compute_hash hc data alg =
     (case alg of
        Crc32 \<Rightarrow> le_bytes 4 (unat (crc32_of hc data))
      | XxHash \<Rightarrow> le_bytes 8 (unat (xxh3_64_of hc data))
      | Sha256 \<Rightarrow> sha256_of hc data)"

section \<open>Normalised paths\<close>

datatype path_namespace = NsEmpty | NsCurrent | NsRelative | NsRooted | NsUnc | NsDriveRelative | NsDriveRooted

fun namespace_tag :: "path_namespace \<Rightarrow> byte" where
  "namespace_tag NsEmpty = 0"
| "namespace_tag NsCurrent = 1"
| "namespace_tag NsRelative = 2"
| "namespace_tag NsRooted = 3"
| "namespace_tag NsUnc = 4"
| "namespace_tag NsDriveRelative = 5"
| "namespace_tag NsDriveRooted = 6"

record normalized_path =
  np_namespace :: path_namespace
  np_value :: str

text \<open>The stack of components is held with its top first.\<close>

fun push_component :: "str list \<Rightarrow> str \<Rightarrow> str list" where
  "push_component stack c =
     (if c = [] \<or> c = [dot] then stack
      else if c = [dot, dot] then
        (case stack of
           previous # below \<Rightarrow> if previous \<noteq> [dot, dot] then below else c # stack
         | [] \<Rightarrow> [c])
      else c # stack)"

definition normalize_components :: "str \<Rightarrow> str" where
  "normalize_components path =
     join_on slash (rev (foldl push_component [] (split_on (\<lambda>c. c = slash) path)))"

definition normalize_unc_path :: "str \<Rightarrow> str" where
  "normalize_unc_path path =
     (let components = filter (\<lambda>c. c \<noteq> [] \<and> c \<noteq> [dot]) (split_on (\<lambda>c. c = slash) path);
          authority_length = min (length components) 2;
          authority = join_on slash (take authority_length components);
          tail = normalize_components (join_on slash (drop authority_length components)) in
      if authority = [] then lit ''//''
      else if tail = [] then lit ''//'' @ authority
      else lit ''//'' @ authority @ [slash] @ tail)"

definition is_ascii_alphabetic_byte :: "byte \<Rightarrow> bool" where
  "is_ascii_alphabetic_byte b \<longleftrightarrow> 65 \<le> b \<and> b \<le> 90 \<or> 97 \<le> b \<and> b \<le> 122"

definition has_drive_prefix :: "str \<Rightarrow> bool" where
  "has_drive_prefix path =
     (case as_bytes path of
        b0 # b1 # _ \<Rightarrow> is_ascii_alphabetic_byte b0 \<and> b1 = 58
      | _ \<Rightarrow> False)"

text \<open>A drive prefix is two ASCII characters, so the slices at byte two are slices at character two.\<close>

definition normalize_relative_path :: "str \<Rightarrow> normalized_path" where
  "normalize_relative_path path =
     (if path = [] then \<lparr>np_namespace = NsEmpty, np_value = []\<rparr>
      else
        let portable = fwd path in
        if has_drive_prefix portable then
          let drive = take 2 portable; remainder = drop 2 portable;
              rooted = starts_with remainder [slash];
              normalized = normalize_components (trim_start_by (\<lambda>c. c = slash) remainder);
              val = (if rooted
                     then if normalized = [] then drive @ [slash] else drive @ [slash] @ normalized
                     else drive @ normalized) in
          \<lparr>np_namespace = (if rooted then NsDriveRooted else NsDriveRelative), np_value = val\<rparr>
        else if starts_with portable [slash, slash] then
          \<lparr>np_namespace = NsUnc, np_value = normalize_unc_path (trim_start_by (\<lambda>c. c = slash) portable)\<rparr>
        else if starts_with portable [slash] then
          let normalized = normalize_components (trim_start_by (\<lambda>c. c = slash) portable) in
          \<lparr>np_namespace = NsRooted, np_value = (if normalized = [] then [slash] else slash # normalized)\<rparr>
        else
          let normalized = normalize_components portable in
          if normalized = [] then \<lparr>np_namespace = NsCurrent, np_value = [dot]\<rparr>
          else \<lparr>np_namespace = NsRelative, np_value = normalized\<rparr>)"

section \<open>Encodings\<close>

fun algorithm_tag :: "algorithm \<Rightarrow> byte" where
  "algorithm_tag Crc32 = 0"
| "algorithm_tag XxHash = 1"
| "algorithm_tag Sha256 = 2"

definition MERKLE_ENCODING_VERSION :: byte where
  "MERKLE_ENCODING_VERSION = 2"

definition LEAF_DOMAIN :: "byte list" where
  "LEAF_DOMAIN = as_bytes (lit ''arclain-merkle-leaf'')"

definition NODE_DOMAIN :: "byte list" where
  "NODE_DOMAIN = as_bytes (lit ''arclain-merkle-node'')"

definition append_length_prefixed :: "byte list \<Rightarrow> byte list \<Rightarrow> byte list" where
  "append_length_prefixed encoded field = encoded @ le_bytes 8 (length field) @ field"

definition hash_encoded :: "hash_crates \<Rightarrow> byte list \<Rightarrow> algorithm \<Rightarrow> hash" where
  "hash_encoded hc encoded alg = \<lparr>hash_algorithm = alg, hash_bytes =
     (case alg of
        Crc32 \<Rightarrow> le_bytes 4 (unat (crc32_of hc encoded))
      | XxHash \<Rightarrow> le_bytes 8 (unat (xxh3_64_of hc encoded))
      | Sha256 \<Rightarrow> sha256_of hc encoded)\<rparr>"

definition encode_leaf :: "normalized_path \<Rightarrow> file_hash_result \<Rightarrow> algorithm \<Rightarrow> byte list" where
  "encode_leaf path f alg =
     (let e = append_length_prefixed [] LEAF_DOMAIN;
          e = e @ [MERKLE_ENCODING_VERSION];
          e = e @ [algorithm_tag alg];
          e = e @ [namespace_tag (np_namespace path)];
          e = append_length_prefixed e (as_bytes (np_value path));
          e = e @ le_bytes 8 (unat (fh_size f));
          e = e @ [algorithm_tag (hash_algorithm (fh_hash f))] in
      append_length_prefixed e (hash_bytes (fh_hash f)))"

definition hash_leaf :: "hash_crates \<Rightarrow> normalized_path \<Rightarrow> file_hash_result \<Rightarrow> algorithm \<Rightarrow> hash" where
  "hash_leaf hc path f alg = hash_encoded hc (encode_leaf path f alg) alg"

definition encode_node :: "hash \<Rightarrow> hash \<Rightarrow> algorithm \<Rightarrow> byte list" where
  "encode_node left right alg =
     (let e = append_length_prefixed [] NODE_DOMAIN;
          e = e @ [MERKLE_ENCODING_VERSION];
          e = e @ [algorithm_tag alg];
          e = e @ [algorithm_tag (hash_algorithm left)];
          e = append_length_prefixed e (hash_bytes left);
          e = e @ [algorithm_tag (hash_algorithm right)] in
      append_length_prefixed e (hash_bytes right))"

definition combine_hashes :: "hash_crates \<Rightarrow> hash \<Rightarrow> hash \<Rightarrow> algorithm \<Rightarrow> hash" where
  "combine_hashes hc left right alg = hash_encoded hc (encode_node left right alg) alg"

section \<open>The tree\<close>

record merkle_tree =
  mt_root :: hash
  mt_nodes :: "hash list list"
  mt_content_hashes :: "hash list"
  mt_file_paths :: "str list"
  mt_file_count :: nat
  mt_algorithm :: algorithm

definition merkle_empty :: "algorithm \<Rightarrow> merkle_tree" where
  "merkle_empty alg = \<lparr>mt_root = \<lparr>hash_algorithm = alg, hash_bytes = []\<rparr>, mt_nodes = [],
     mt_content_hashes = [], mt_file_paths = [], mt_file_count = 0, mt_algorithm = alg\<rparr>"

text \<open>\<^verbatim>\<open>chunks(2)\<close>: pairs, and a last chunk of one that is hashed with itself.\<close>

fun build_next_level :: "hash_crates \<Rightarrow> hash list \<Rightarrow> algorithm \<Rightarrow> hash list" where
  "build_next_level hc [] alg = []"
| "build_next_level hc [x] alg = [combine_hashes hc x x alg]"
| "build_next_level hc (x # y # zs) alg = combine_hashes hc x y alg # build_next_level hc zs alg"

lemma length_build_next_level [simp]: "length (build_next_level hc xs alg) = (length xs + 1) div 2"
  by (induction hc xs alg rule: build_next_level.induct) auto

function build_levels :: "hash_crates \<Rightarrow> hash list \<Rightarrow> algorithm \<Rightarrow> hash list list" where
  "build_levels hc level alg =
     level # (if length level > 1 then build_levels hc (build_next_level hc level alg) alg else [])"
  by pat_completeness auto
termination
  by (relation "measure (\<lambda>(hc, level, alg). length level)") auto

declare build_levels.simps [simp del]

text \<open>The comparison of the sort: path, namespace, size, then the content hash. The derived order on
  namespaces is the order of their tags.\<close>

definition entry_key ::
  "file_hash_result \<Rightarrow> normalized_path \<Rightarrow> str \<times> byte \<times> 64 word \<times> byte \<times> byte list" where
  "entry_key f path = (np_value path, namespace_tag (np_namespace path), fh_size f,
     algorithm_tag (hash_algorithm (fh_hash f)), hash_bytes (fh_hash f))"

definition sorted_entries :: "file_hash_result list \<Rightarrow> (nat \<times> normalized_path) list" where
  "sorted_entries files =
     sort_key (\<lambda>(index, path). entry_key (files ! index) path)
       (map (\<lambda>(index, f). (index, normalize_relative_path (relative_path f))) (enumerate 0 files))"

definition entry_leaf :: "hash_crates \<Rightarrow> file_hash_result list \<Rightarrow> algorithm \<Rightarrow> nat \<times> normalized_path \<Rightarrow> hash" where
  "entry_leaf hc files alg entry = hash_leaf hc (snd entry) (files ! fst entry) alg"

definition from_file_hashes :: "hash_crates \<Rightarrow> file_hash_result list \<Rightarrow> algorithm \<Rightarrow> merkle_tree" where
  "from_file_hashes hc files alg =
     (if files = [] then merkle_empty alg
      else
        let entries = sorted_entries files;
            file_paths = map (\<lambda>(_, path). np_value path) entries;
            content_hashes = map (\<lambda>(index, _). fh_hash (files ! index)) entries;
            leaves = map (entry_leaf hc files alg) entries;
            nodes = build_levels hc leaves alg;
            root = (case last nodes of h # _ \<Rightarrow> h | [] \<Rightarrow> \<lparr>hash_algorithm = alg, hash_bytes = []\<rparr>) in
        \<lparr>mt_root = root, mt_nodes = nodes, mt_content_hashes = content_hashes,
         mt_file_paths = file_paths, mt_file_count = length file_paths, mt_algorithm = alg\<rparr>)"

definition depth :: "merkle_tree \<Rightarrow> nat" where
  "depth t = length (mt_nodes t)"

definition get_file_hash :: "merkle_tree \<Rightarrow> nat \<Rightarrow> hash option" where
  "get_file_hash t index =
     (if index < length (mt_content_hashes t) then Some (mt_content_hashes t ! index) else None)"

fun proof_siblings :: "hash list list \<Rightarrow> nat \<Rightarrow> hash list" where
  "proof_siblings [] index = []"
| "proof_siblings (level # levels) index =
     (let sibling_index = (if index mod 2 = 0 then index + 1 else index - 1) in
      (if sibling_index < length level then [level ! sibling_index]
       else if index < length level then [level ! index] else [])
      @ proof_siblings levels (index div 2))"

definition get_proof :: "merkle_tree \<Rightarrow> nat \<Rightarrow> hash list option" where
  "get_proof t file_index =
     (if file_index \<ge> length (mt_content_hashes t) \<or> mt_nodes t = [] then None
      else Some (proof_siblings (take (length (mt_nodes t) - 1) (mt_nodes t)) file_index))"

definition verify_file :: "merkle_tree \<Rightarrow> nat \<Rightarrow> hash \<Rightarrow> bool" where
  "verify_file t file_index h =
     (case get_file_hash t file_index of Some stored \<Rightarrow> stored = h | None \<Rightarrow> False)"

section \<open>Storage\<close>

definition to_bytes :: "merkle_tree \<Rightarrow> byte list" where
  "to_bytes t = [algorithm_tag (mt_algorithm t)] @ le_bytes 4 (mt_file_count t)
     @ le_bytes 4 (length (hash_bytes (mt_root t))) @ hash_bytes (mt_root t)"

definition algorithm_of_byte :: "byte \<Rightarrow> algorithm option" where
  "algorithm_of_byte b =
     (if b = 0 then Some Crc32 else if b = 1 then Some XxHash else if b = 2 then Some Sha256 else None)"

definition from_bytes :: "byte list \<Rightarrow> merkle_tree option" where
  "from_bytes bytes =
     (if length bytes < 9 then None
      else
        case algorithm_of_byte (bytes ! 0) of
          None \<Rightarrow> None
        | Some alg \<Rightarrow>
            let file_count = le_value (take 4 (drop 1 bytes));
                hash_len = le_value (take 4 (drop 5 bytes));
                expected_hash_len = (if file_count = 0 then 0 else output_size alg);
                hash_end = 9 + hash_len in
            if hash_len \<noteq> expected_hash_len then None
            else if hash_end \<noteq> length bytes then None
            else Some \<lparr>mt_root = \<lparr>hash_algorithm = alg, hash_bytes = drop 9 bytes\<rparr>, mt_nodes = [],
              mt_content_hashes = [], mt_file_paths = [], mt_file_count = file_count,
              mt_algorithm = alg\<rparr>)"

end
