(* ===== verification/Merkle_Properties.thy ===== *)
theory Merkle_Properties
  imports Merkle "HOL-Library.Multiset"
begin

text \<open>
  What the Merkle tree guarantees: its shape, that a proof leads from a leaf to the root, that the tree
  depends on the identities of the files and not on their order, that the root binds those identities as
  long as the hash does not collide on what is hashed, and that storage round-trips.
\<close>

section \<open>Identities and order\<close>

abbreviation norm_path :: "file_hash_result \<Rightarrow> normalized_path" where
  "norm_path f \<equiv> normalize_relative_path (relative_path f)"

text \<open>What a leaf commits to.\<close>

definition identity :: "file_hash_result \<Rightarrow> normalized_path \<times> 64 word \<times> hash" where
  "identity f = (norm_path f, fh_size f, fh_hash f)"

definition identity_key ::
  "normalized_path \<times> 64 word \<times> hash \<Rightarrow> str \<times> byte \<times> 64 word \<times> byte \<times> byte list" where
  "identity_key = (\<lambda>(p, n, h). (np_value p, namespace_tag (np_namespace p), n,
     algorithm_tag (hash_algorithm h), hash_bytes h))"

definition identity_leaf ::
  "hash_crates \<Rightarrow> algorithm \<Rightarrow> normalized_path \<times> 64 word \<times> hash \<Rightarrow> hash" where
  "identity_leaf hc alg = (\<lambda>(p, n, h). hash_leaf hc p \<lparr>relative_path = [], fh_hash = h, fh_size = n\<rparr> alg)"

lemma algorithm_tag_inject: "algorithm_tag a = algorithm_tag b \<longleftrightarrow> a = b"
  by (cases a; cases b) simp_all

lemma namespace_tag_inject: "namespace_tag a = namespace_tag b \<longleftrightarrow> a = b"
  by (cases a; cases b) simp_all

lemma identity_key_inj: "inj identity_key"
  by (auto simp: inj_def identity_key_def algorithm_tag_inject namespace_tag_inject
      intro!: normalized_path.equality hash.equality)

lemma map_sort_key: "map g (sort_key (k \<circ> g) xs) = sort_key k (map g xs)"
proof (induction xs)
  case (Cons x xs)
  have "map g (insort_key (k \<circ> g) x ys) = insort_key k (g x) (map g ys)" for ys
    by (induction ys) auto
  with Cons show ?case by (simp add: comp_def)
qed simp

lemma sort_key_inj_mset:
  assumes "inj k" and "mset xs = mset ys"
  shows "sort_key k xs = sort_key k ys"
proof -
  have "map k (sort_key k xs) = sort (map k xs)" "map k (sort_key k ys) = sort (map k ys)"
    using map_sort_key [of k "\<lambda>x. x"] by (simp_all add: comp_def)
  moreover have "sort (map k xs) = sort (map k ys)"
    using assms(2) by (simp add: sorted_list_of_multiset_mset [symmetric])
  ultimately have "map k (sort_key k xs) = map k (sort_key k ys)" by simp
  then show ?thesis using assms(1) by (simp add: inj_map_eq_map)
qed

definition sorted_identities :: "file_hash_result list \<Rightarrow> (normalized_path \<times> 64 word \<times> hash) list" where
  "sorted_identities files = sort_key identity_key (map identity files)"

lemma mset_sorted_identities [simp]: "mset (sorted_identities files) = mset (map identity files)"
  by (simp add: sorted_identities_def)

lemma length_sorted_identities [simp]: "length (sorted_identities files) = length files"
  by (simp add: sorted_identities_def)

lemma sorted_entries_identities:
  "map (\<lambda>(i, p). (p, fh_size (files ! i), fh_hash (files ! i))) (sorted_entries files)
     = sorted_identities files"
proof -
  let ?g = "\<lambda>(i, p). (p, fh_size (files ! i), fh_hash (files ! i))"
  let ?es = "map (\<lambda>(i, f). (i, norm_path f)) (enumerate 0 files)"
  have "(\<lambda>(i, p). entry_key (files ! i) p) = identity_key \<circ> ?g"
    by (auto simp: entry_key_def identity_key_def)
  moreover have "map ?g ?es = map identity files"
    by (rule nth_equalityI) (auto simp: identity_def nth_enumerate_eq)
  ultimately show ?thesis
    unfolding sorted_entries_def sorted_identities_def by (simp only: map_sort_key)
qed

lemma hash_leaf_identity:
  "hash_leaf hc p f alg = identity_leaf hc alg (p, fh_size f, fh_hash f)"
  by (simp add: identity_leaf_def hash_leaf_def encode_leaf_def)

text \<open>The tree is a function of the sorted identities.\<close>

definition merkle_leaves :: "hash_crates \<Rightarrow> algorithm \<Rightarrow> file_hash_result list \<Rightarrow> hash list" where
  "merkle_leaves hc alg files = map (identity_leaf hc alg) (sorted_identities files)"

lemma entries_via_identities:
  "map (\<lambda>(i, p). np_value p) (sorted_entries files) = map (np_value \<circ> fst) (sorted_identities files)"
  "map (\<lambda>(i, p). fh_hash (files ! i)) (sorted_entries files) = map (snd \<circ> snd) (sorted_identities files)"
  "map (entry_leaf hc files alg) (sorted_entries files) = merkle_leaves hc alg files"
  unfolding merkle_leaves_def sorted_entries_identities [symmetric]
  by (auto simp: hash_leaf_identity entry_leaf_def)

lemma length_merkle_leaves [simp]: "length (merkle_leaves hc alg files) = length files"
  by (simp add: merkle_leaves_def)

lemma build_levels_not_Nil [simp]: "build_levels hc xs alg \<noteq> []"
  by (subst build_levels.simps) simp

lemma build_next_level_Nil_iff [simp]: "build_next_level hc xs alg = [] \<longleftrightarrow> xs = []"
  by (cases "(hc, xs, alg)" rule: build_next_level.cases) auto

lemma build_levels_nonempty: "xs \<noteq> [] \<Longrightarrow> l \<in> set (build_levels hc xs alg) \<Longrightarrow> l \<noteq> []"
proof (induction hc xs alg rule: build_levels.induct)
  case (1 hc level alg)
  from "1.prems"(2) have "l = level \<or> 1 < length level \<and> l \<in> set (build_levels hc (build_next_level hc level alg) alg)"
    by (subst (asm) build_levels.simps) (auto split: if_splits)
  then show ?case using 1 by auto
qed

lemma from_file_hashes_identities:
  assumes "files \<noteq> []"
  shows "from_file_hashes hc files alg =
    \<lparr>mt_root = hd (last (build_levels hc (merkle_leaves hc alg files) alg)),
     mt_nodes = build_levels hc (merkle_leaves hc alg files) alg,
     mt_content_hashes = map (snd \<circ> snd) (sorted_identities files),
     mt_file_paths = map (np_value \<circ> fst) (sorted_identities files),
     mt_file_count = length files, mt_algorithm = alg\<rparr>"
proof -
  have "merkle_leaves hc alg files \<noteq> []"
    using assms length_merkle_leaves [of hc alg files] by (metis length_0_conv)
  then have "last (build_levels hc (merkle_leaves hc alg files) alg) \<noteq> []"
    using build_levels_nonempty last_in_set [OF build_levels_not_Nil] by blast
  then obtain h hs where "last (build_levels hc (merkle_leaves hc alg files) alg) = h # hs"
    by (meson neq_Nil_conv)
  moreover have "length (sorted_entries files) = length files" by (simp add: sorted_entries_def)
  ultimately show ?thesis
    using assms by (simp add: from_file_hashes_def entries_via_identities Let_def)
qed

text \<open>Only the leaves depend on the spelling of a path or on what else a record carries.\<close>

lemma from_file_hashes_cong:
  assumes "mset (map identity fs) = mset (map identity gs)"
  shows "from_file_hashes hc fs alg = from_file_hashes hc gs alg"
proof (cases "fs = []")
  case True
  then have "gs = []" using assms by simp
  with True show ?thesis by simp
next
  case False
  have "length fs = length gs" using arg_cong [OF assms, of size] by simp
  then have "gs \<noteq> []" using False by auto
  moreover have "sorted_identities fs = sorted_identities gs"
    unfolding sorted_identities_def using identity_key_inj assms by (rule sort_key_inj_mset)
  ultimately show ?thesis
    using False \<open>length fs = length gs\<close> by (simp add: from_file_hashes_identities merkle_leaves_def)
qed

section \<open>Levels and proofs\<close>

lemma build_levels_single: "length xs \<le> 1 \<Longrightarrow> build_levels hc xs alg = [xs]"
  by (subst build_levels.simps) simp

lemma build_levels_more:
  "1 < length xs \<Longrightarrow> build_levels hc xs alg = xs # build_levels hc (build_next_level hc xs alg) alg"
  by (subst build_levels.simps) simp

lemma build_next_level_nth:
  "k < (length xs + 1) div 2 \<Longrightarrow> build_next_level hc xs alg ! k =
     combine_hashes hc (xs ! (2 * k)) (if 2 * k + 1 < length xs then xs ! (2 * k + 1) else xs ! (2 * k)) alg"
proof (induction hc xs alg arbitrary: k rule: build_next_level.induct)
  case (3 hc x y zs alg)
  then show ?case by (cases k) auto
qed auto

text \<open>Replaying a proof: at each level the hash is the left or the right one of its pair.\<close>

fun climb :: "hash_crates \<Rightarrow> algorithm \<Rightarrow> hash \<Rightarrow> nat \<Rightarrow> hash list \<Rightarrow> hash" where
  "climb hc alg h index [] = h"
| "climb hc alg h index (s # ss) =
     climb hc alg (if even index then combine_hashes hc h s alg else combine_hashes hc s h alg) (index div 2) ss"

lemma climb_step:
  assumes "i < length level"
  shows "climb hc alg (level ! i) i (proof_siblings (level # levels) i) =
    climb hc alg (build_next_level hc level alg ! (i div 2)) (i div 2) (proof_siblings levels (i div 2))"
proof -
  have k: "i div 2 < (length level + 1) div 2" using assms by simp
  show ?thesis
  proof (cases "even i")
    case True
    then have "2 * (i div 2) = i" by simp
    then show ?thesis using assms True by (simp add: build_next_level_nth [OF k] even_iff_mod_2_eq_zero)
  next
    case False
    then have "2 * (i div 2) = i - 1" "0 < i" using odd_two_times_div_two_nat odd_pos by auto
    then show ?thesis using assms False
      by (simp add: build_next_level_nth [OF k] even_iff_mod_2_eq_zero Let_def)
  qed
qed

lemma climb_levels:
  "i < length level \<Longrightarrow>
   climb hc alg (level ! i) i (proof_siblings (butlast (build_levels hc level alg)) i)
     = hd (last (build_levels hc level alg))
   \<and> length (proof_siblings (butlast (build_levels hc level alg)) i) = length (build_levels hc level alg) - 1"
proof (induction hc level alg arbitrary: i rule: build_levels.induct)
  case (1 hc level alg)
  show ?case
  proof (cases "1 < length level")
    case True
    then have next_i: "i div 2 < length (build_next_level hc level alg)" using 1 by simp
    have "length (build_levels hc level alg) = Suc (length (build_levels hc (build_next_level hc level alg) alg))"
      by (simp add: build_levels_more [OF True])
    moreover have "i mod 2 \<noteq> 0 \<Longrightarrow> i - 1 < length level" using "1.prems" by linarith
    ultimately show ?thesis
      using "1.IH" [OF True next_i] climb_step [OF "1.prems", of hc alg] "1.prems"
      by (simp add: build_levels_more [OF True] Let_def)
  next
    case False
    then have "level = [level ! 0]" "i = 0" using "1.prems" by (cases level, auto)+
    then show ?thesis using False by (simp add: build_levels_single) (metis list.sel(1))
  qed
qed

section \<open>Shape\<close>

definition hash_ok :: "algorithm \<Rightarrow> hash \<Rightarrow> bool" where
  "hash_ok alg h \<longleftrightarrow> hash_algorithm h = alg \<and> length (hash_bytes h) = output_size alg"

lemma hash_encoded_ok: "digest_length_ok hc \<Longrightarrow> hash_ok alg (hash_encoded hc e alg)"
  by (cases alg) (simp_all add: hash_ok_def hash_encoded_def digest_length_ok_def)

lemma build_next_level_ok: "digest_length_ok hc \<Longrightarrow> list_all (hash_ok alg) (build_next_level hc xs alg)"
  by (induction hc xs alg rule: build_next_level.induct) (auto simp: combine_hashes_def hash_encoded_ok)

lemma merkle_leaves_ok: "digest_length_ok hc \<Longrightarrow> list_all (hash_ok alg) (merkle_leaves hc alg files)"
  by (auto simp: merkle_leaves_def identity_leaf_def hash_leaf_def hash_encoded_ok list_all_iff
      split: prod.splits)

fun halving :: "nat \<Rightarrow> nat list \<Rightarrow> bool" where
  "halving n [] \<longleftrightarrow> False"
| "halving n [m] \<longleftrightarrow> m = n \<and> n = 1"
| "halving n (m # k # ms) \<longleftrightarrow> m = n \<and> 1 < n \<and> halving ((n + 1) div 2) (k # ms)"

lemma build_levels_shape:
  "xs \<noteq> [] \<Longrightarrow> halving (length xs) (map length (build_levels hc xs alg))"
proof (induction hc xs alg rule: build_levels.induct)
  case (1 hc level alg)
  show ?case
  proof (cases "1 < length level")
    case True
    obtain k ms where ks: "map length (build_levels hc (build_next_level hc level alg) alg) = k # ms"
      by (metis build_levels_not_Nil list.exhaust map_is_Nil_conv)
    then show ?thesis using True 1 by (simp add: build_levels_more [OF True])
  next
    case False
    then show ?thesis using 1 by (cases level) (auto simp: build_levels_single)
  qed
qed

lemma build_levels_ok:
  "digest_length_ok hc \<Longrightarrow> list_all (hash_ok alg) xs \<Longrightarrow> list_all (list_all (hash_ok alg)) (build_levels hc xs alg)"
proof (induction hc xs alg rule: build_levels.induct)
  case (1 hc level alg)
  then show ?case
    by (cases "1 < length level") (simp_all add: build_levels_more build_levels_single build_next_level_ok)
qed

text \<open>Levels that halve are as many as the binary logarithm of the first, rounded up, and one.\<close>

lemma halving_depth:
  "halving n ms \<Longrightarrow> n \<le> 2 ^ (length ms - 1) \<and> (1 < n \<longrightarrow> 2 ^ (length ms - 2) < n) \<and> last ms = 1"
proof (induction n ms rule: halving.induct)
  case (3 n m k ms)
  then have IH: "(n + 1) div 2 \<le> 2 ^ length ms" "1 < (n + 1) div 2 \<Longrightarrow> 2 ^ (length ms - 1) < (n + 1) div 2"
    "last (k # ms) = 1" and n: "1 < n" by auto
  have "n \<le> 2 * 2 ^ length ms" using IH(1) by linarith
  moreover have "2 ^ length ms < n"
  proof (cases "1 < (n + 1) div 2")
    case True
    have "halving ((n + 1) div 2) (k # ms)" using "3.prems" by simp
    then have "ms \<noteq> []" using True by auto
    then have "(2::nat) ^ length ms = 2 * 2 ^ (length ms - 1)" by (cases ms) auto
    then show ?thesis using IH(2) [OF True] by linarith
  next
    case False
    then have "n = 2" using n by linarith
    moreover have "halving ((n + 1) div 2) (k # ms)" using "3.prems" by simp
    ultimately have "ms = []" by (cases ms) auto
    then show ?thesis using n by simp
  qed
  ultimately show ?case using IH(3) by simp
qed auto

section \<open>Binding\<close>

text \<open>The encodings that building a tree hands to the hash function.\<close>

fun node_encodings :: "hash list \<Rightarrow> algorithm \<Rightarrow> byte list list" where
  "node_encodings [] alg = []"
| "node_encodings [x] alg = [encode_node x x alg]"
| "node_encodings (x # y # zs) alg = encode_node x y alg # node_encodings zs alg"

definition leaf_encoding :: "algorithm \<Rightarrow> file_hash_result \<Rightarrow> byte list" where
  "leaf_encoding alg f = encode_leaf (norm_path f) f alg"

definition hash_inputs :: "hash_crates \<Rightarrow> file_hash_result list \<Rightarrow> algorithm \<Rightarrow> byte list list" where
  "hash_inputs hc files alg = map (leaf_encoding alg) files
     @ concat (map (\<lambda>level. node_encodings level alg) (butlast (mt_nodes (from_file_hashes hc files alg))))"

definition fits :: "file_hash_result \<Rightarrow> bool" where
  "fits f \<longleftrightarrow> list_all is_scalar (relative_path f) \<and> str_len (np_value (norm_path f)) < 2 ^ 64
     \<and> length (hash_bytes (fh_hash f)) < 2 ^ 64"

lemma build_next_level_encodings:
  "build_next_level hc xs alg = map (\<lambda>e. hash_encoded hc e alg) (node_encodings xs alg)"
  by (induction hc xs alg rule: build_next_level.induct) (auto simp: combine_hashes_def)

lemma append_prefixed: "append_length_prefixed e f = e @ length_prefixed f"
  by (simp add: append_length_prefixed_def length_prefixed_def)

lemma hash_ok_short: "hash_ok alg h \<Longrightarrow> length (hash_bytes h) < 2 ^ 64"
  by (cases alg) (simp_all add: hash_ok_def)

lemma encode_node_inject:
  assumes "hash_ok alg l" "hash_ok alg r" "hash_ok alg l'" "hash_ok alg r'"
    and "encode_node l r alg = encode_node l' r' alg"
  shows "l = l' \<and> r = r'"
proof -
  have "length_prefixed (hash_bytes l) @ algorithm_tag (hash_algorithm r) # length_prefixed (hash_bytes r)
      = length_prefixed (hash_bytes l') @ algorithm_tag (hash_algorithm r') # length_prefixed (hash_bytes r')"
    using assms(5) by (simp add: encode_node_def append_prefixed)
  then have "hash_bytes l = hash_bytes l'" and "length_prefixed (hash_bytes r) @ [] = length_prefixed (hash_bytes r') @ []"
    using length_prefixed_inject [OF hash_ok_short hash_ok_short, OF assms(1,3)] by auto
  moreover from this(2) have "hash_bytes r = hash_bytes r'"
    using length_prefixed_inject [OF hash_ok_short hash_ok_short, OF assms(2,4)] by blast
  ultimately show ?thesis using assms(1-4) by (auto simp: hash_ok_def intro!: hash.equality)
qed

lemma node_encodings_inject:
  "length xs = length ys \<Longrightarrow> list_all (hash_ok alg) xs \<Longrightarrow> list_all (hash_ok alg) ys \<Longrightarrow>
   node_encodings xs alg = node_encodings ys alg \<Longrightarrow> xs = ys"
proof (induction xs alg arbitrary: ys rule: node_encodings.induct)
  case (2 x alg)
  then show ?case by (cases ys) (auto dest: encode_node_inject)
next
  case (3 x y zs alg)
  then obtain x' y' zs' where "ys = x' # y' # zs'" by (auto simp: length_Suc_conv Suc_length_conv)
  with 3 show ?case by (auto dest: encode_node_inject)
qed simp

lemma levels_bind:
  assumes "digest_length_ok hc"
  shows "xs \<noteq> [] \<Longrightarrow> length xs = length ys \<Longrightarrow> list_all (hash_ok alg) xs \<Longrightarrow> list_all (hash_ok alg) ys \<Longrightarrow>
    inj_on (\<lambda>e. hash_encoded hc e alg)
      (\<Union>level \<in> set (butlast (build_levels hc xs alg)) \<union> set (butlast (build_levels hc ys alg)).
         set (node_encodings level alg)) \<Longrightarrow>
    hd (last (build_levels hc xs alg)) = hd (last (build_levels hc ys alg)) \<Longrightarrow> xs = ys"
  using assms
proof (induction hc xs alg arbitrary: ys rule: build_levels.induct)
  case (1 hc xs alg)
  show ?case
  proof (cases "1 < length xs")
    case False
    then obtain x y where "xs = [x]" "ys = [y]"
      using "1.prems"(1,2) by (cases xs; cases ys) auto
    then show ?thesis using "1.prems"(6) by (simp add: build_levels_single)
  next
    case True
    let ?h = "\<lambda>e. hash_encoded hc e alg"
    note more = build_levels_more [OF True, of hc alg] build_levels_more [OF True [unfolded "1.prems"(2)], of hc alg]
    have nexts: "build_next_level hc xs alg = build_next_level hc ys alg"
    proof (rule "1.IH" [OF True])
      show "inj_on ?h (\<Union>level \<in> set (butlast (build_levels hc (build_next_level hc xs alg) alg))
          \<union> set (butlast (build_levels hc (build_next_level hc ys alg) alg)). set (node_encodings level alg))"
        using "1.prems"(5) by (rule inj_on_subset) (auto simp: more)
    qed (use "1.prems" more in \<open>simp_all add: build_next_level_ok\<close>)
    have "inj_on ?h (set (node_encodings xs alg) \<union> set (node_encodings ys alg))"
      using "1.prems"(5) by (rule inj_on_subset) (auto simp: more)
    then have "node_encodings xs alg = node_encodings ys alg"
      using nexts unfolding build_next_level_encodings by (rule map_inj_on [rotated])
    then show ?thesis using "1.prems" by (blast intro: node_encodings_inject)
  qed
qed

text \<open>Normalising invents no character but the separator and the dot, so the text stays valid.\<close>

lemma split_on_subset: "w \<in> set (split_on P s) \<Longrightarrow> set w \<subseteq> set s"
proof (induction s arbitrary: w)
  case (Cons c s)
  then show ?case
    by (cases "split_on P s") (fastforce split: if_splits)+
qed simp

lemma set_join_on_subset: "(\<And>w. w \<in> set ws \<Longrightarrow> set w \<subseteq> A) \<Longrightarrow> d \<in> A \<Longrightarrow> set (join_on d ws) \<subseteq> A"
  using set_join_on [of d ws] by blast

lemma push_components_subset: "set (foldl push_component stack ws) \<subseteq> set stack \<union> set ws"
proof (induction ws arbitrary: stack)
  case (Cons w ws)
  have "set (push_component stack w) \<subseteq> insert w (set stack)"
    by (auto split: list.splits if_splits)
  with Cons [of "push_component stack w"] show ?case by auto
qed simp

lemma set_normalize_components: "set p \<subseteq> A \<Longrightarrow> slash \<in> A \<Longrightarrow> set (normalize_components p) \<subseteq> A"
  unfolding normalize_components_def
  by (rule set_join_on_subset) (use push_components_subset [of "[]"] split_on_subset in fastforce)+

lemma set_normalize_unc: "set p \<subseteq> A \<Longrightarrow> slash \<in> A \<Longrightarrow> set (normalize_unc_path p) \<subseteq> A"
proof -
  assume p: "set p \<subseteq> A" and A: "slash \<in> A"
  define cs where "cs = filter (\<lambda>c. c \<noteq> [] \<and> c \<noteq> [dot]) (split_on (\<lambda>c. c = slash) p)"
  have cs: "\<And>w. w \<in> set cs \<Longrightarrow> set w \<subseteq> A" using p split_on_subset unfolding cs_def by fastforce
  have "set (join_on slash (take n cs)) \<subseteq> A" "set (join_on slash (drop n cs)) \<subseteq> A" for n
    using cs A by (intro set_join_on_subset; meson in_set_takeD in_set_dropD)+
  moreover from this(2) have "set (normalize_components (join_on slash (drop n cs))) \<subseteq> A" for n
    using A by (rule set_normalize_components)
  ultimately show ?thesis
    using A by (simp add: normalize_unc_path_def Let_def flip: cs_def)
qed

lemma set_normalize_relative_path:
  "set (np_value (normalize_relative_path p)) \<subseteq> insert slash (insert dot (set p))"
proof -
  let ?A = "insert slash (insert dot (set p))"
  have f: "set (fwd p) \<subseteq> ?A" by (auto simp: replace_char_def)
  have d: "set (dropWhile Q (fwd p)) \<subseteq> ?A" "set (take n (fwd p)) \<subseteq> ?A" "set (dropWhile Q (drop n (fwd p))) \<subseteq> ?A"
    for Q n using f by (auto dest: set_dropWhileD in_set_takeD in_set_dropD)
  have s: "slash \<in> ?A" by simp
  note c = set_normalize_components [OF f s] set_normalize_components [OF d(1) s]
    set_normalize_components [OF d(3) s] set_normalize_unc [OF d(1) s] d(2)
  show ?thesis
    unfolding normalize_relative_path_def Let_def trim_start_by_def using c by (auto dest!: subsetD [OF c(1)])
qed

lemma as_bytes_inject:
  "list_all is_scalar a \<Longrightarrow> list_all is_scalar b \<Longrightarrow> as_bytes a = as_bytes b \<Longrightarrow> a = b"
proof -
  assume a: "list_all is_scalar a" and b: "list_all is_scalar b" and eq: "as_bytes a = as_bytes b"
  have "from_utf8 (as_bytes a) = Some a" "from_utf8 (as_bytes b) = Some b"
    using a b by (blast intro: from_utf8_as_bytes [unfolded list_all_iff [symmetric]])+
  then show "a = b" using eq by (metis option.inject)
qed

lemma fits_scalar: "fits f \<Longrightarrow> list_all is_scalar (np_value (norm_path f))"
  using set_normalize_relative_path [of "relative_path f"]
  by (fastforce simp: fits_def list_all_iff is_scalar_def)

lemma unat_le_bytes_inject: "le_bytes 8 (unat x) = le_bytes 8 (unat y) \<Longrightarrow> x = (y :: 64 word)"
  using le_bytes_inject [of "unat x" 8 "unat y"] unsigned_less [of x, where 'a = nat]
    unsigned_less [of y, where 'a = nat] by (simp add: word_unat_eq_iff)

lemma leaf_encoding_inject:
  assumes "fits f" "fits g" "leaf_encoding alg f = leaf_encoding alg g"
  shows "identity f = identity g"
proof -
  let ?rest = "\<lambda>f. le_bytes 8 (unat (fh_size f))
    @ algorithm_tag (hash_algorithm (fh_hash f)) # length_prefixed (hash_bytes (fh_hash f))"
  have ns: "np_namespace (norm_path f) = np_namespace (norm_path g)"
    and "length_prefixed (as_bytes (np_value (norm_path f))) @ ?rest f
      = length_prefixed (as_bytes (np_value (norm_path g))) @ ?rest g"
    using assms(3) by (auto simp: leaf_encoding_def encode_leaf_def append_prefixed namespace_tag_inject)
  then have val: "as_bytes (np_value (norm_path f)) = as_bytes (np_value (norm_path g))" and "?rest f = ?rest g"
    using length_prefixed_inject [of "as_bytes (np_value (norm_path f))" "as_bytes (np_value (norm_path g))"]
      assms(1,2) by (auto simp: fits_def length_as_bytes simp del: append_eq_append_conv)
  then have sz: "fh_size f = fh_size g" and al: "hash_algorithm (fh_hash f) = hash_algorithm (fh_hash g)"
    and "length_prefixed (hash_bytes (fh_hash f)) @ [] = length_prefixed (hash_bytes (fh_hash g)) @ []"
    by (auto simp: algorithm_tag_inject dest: unat_le_bytes_inject)
  moreover from this(3) have "hash_bytes (fh_hash f) = hash_bytes (fh_hash g)"
    using length_prefixed_inject assms(1,2) by (simp add: fits_def)
  moreover have "np_value (norm_path f) = np_value (norm_path g)"
    using as_bytes_inject [OF fits_scalar fits_scalar val] assms(1,2) by blast
  ultimately show ?thesis using ns
    by (auto simp: identity_def intro!: normalized_path.equality hash.equality)
qed

section \<open>Assembling the parts\<close>

lemma sorted_paths: "sorted (map (np_value \<circ> fst) (sorted_identities files))"
proof -
  have "sorted (map identity_key (sorted_identities files))" by (simp add: sorted_identities_def)
  then have "sorted (map fst (map identity_key (sorted_identities files)))"
    by (rule sorted_map_mono) (auto simp: mono_on_def less_eq_prod_def)
  moreover have "map fst (map identity_key (sorted_identities files)) = map (np_value \<circ> fst) (sorted_identities files)"
    by (auto simp: identity_key_def)
  ultimately show ?thesis by (simp only:)
qed

lemma nth_identity:
  assumes "i < length files"
  obtains f where "f \<in> set files" "sorted_identities files ! i = identity f"
proof -
  have "sorted_identities files ! i \<in> set (sorted_identities files)" using assms by simp
  then have "sorted_identities files ! i \<in> set (map identity files)"
    by (metis mset_sorted_identities set_mset_mset)
  then show ?thesis using that by auto
qed

lemma merkle_leaves_nth:
  assumes "i < length files" "sorted_identities files ! i = identity f"
  shows "merkle_leaves hc alg files ! i = hash_leaf hc (norm_path f) f alg"
  using assms by (simp add: merkle_leaves_def identity_def hash_leaf_identity)

lemma merkle_leaves_encodings:
  "\<exists>gs. map identity gs = sorted_identities files \<and> set gs \<subseteq> set files
     \<and> merkle_leaves hc alg files = map (\<lambda>g. hash_encoded hc (leaf_encoding alg g) alg) gs"
proof -
  have "\<forall>x \<in> set (sorted_identities files). \<exists>f \<in> set files. x = identity f"
    by (metis in_set_conv_nth length_sorted_identities nth_identity)
  then obtain g where g: "\<And>x. x \<in> set (sorted_identities files) \<Longrightarrow> g x \<in> set files \<and> x = identity (g x)"
    by metis
  let ?gs = "map g (sorted_identities files)"
  have "map identity ?gs = sorted_identities files" by (simp add: map_idI g [THEN conjunct2, symmetric])
  moreover have "merkle_leaves hc alg files = map (\<lambda>g. hash_encoded hc (leaf_encoding alg g) alg) ?gs"
  proof -
    have "identity_leaf hc alg x = hash_encoded hc (leaf_encoding alg (g x)) alg"
      if "x \<in> set (sorted_identities files)" for x
      using g [OF that] hash_leaf_identity [of hc "norm_path (g x)" "g x" alg]
      by (simp add: identity_def leaf_encoding_def hash_leaf_def)
    then show ?thesis by (simp add: merkle_leaves_def)
  qed
  ultimately show ?thesis using g by (intro exI [of _ ?gs]) auto
qed

lemma algorithm_of_byte_tag [simp]: "algorithm_of_byte (algorithm_tag alg) = Some alg"
  by (cases alg) (simp_all add: algorithm_of_byte_def)

lemma algorithm_of_byte_eq: "algorithm_of_byte b = Some alg \<Longrightarrow> algorithm_tag alg = b"
  by (auto simp: algorithm_of_byte_def split: if_splits)

lemma same_leaves:
  "map (leaf_encoding alg) fs = map (leaf_encoding alg) gs \<Longrightarrow> list_all fits fs \<Longrightarrow> list_all fits gs \<Longrightarrow>
   map identity fs = map identity gs"
proof (induction fs arbitrary: gs)
  case (Cons f fs)
  then obtain g gs' where "gs = g # gs'" by (cases gs) auto
  with Cons show ?case by (auto intro: leaf_encoding_inject)
qed simp

text \<open>The part of a tree that is stored.\<close>

definition root_only :: "merkle_tree \<Rightarrow> merkle_tree" where
  "root_only t = t\<lparr>mt_nodes := [], mt_content_hashes := [], mt_file_paths := []\<rparr>"

lemma from_bytes_to_bytes:
  assumes "mt_file_count t < 2 ^ 32" "hash_algorithm (mt_root t) = mt_algorithm t"
    and "length (hash_bytes (mt_root t)) = (if mt_file_count t = 0 then 0 else output_size (mt_algorithm t))"
  shows "from_bytes (to_bytes t) = Some (root_only t)"
proof -
  have "length (hash_bytes (mt_root t)) < 256 ^ 4"
    using assms(3) by (cases "mt_algorithm t") (auto split: if_splits)
  then have "le_value (le_bytes 4 (length (hash_bytes (mt_root t)))) = length (hash_bytes (mt_root t))"
    "le_value (le_bytes 4 (mt_file_count t)) = mt_file_count t"
    using assms(1) by (simp_all add: le_value_le_bytes)
  then show ?thesis
    using assms(2,3) unfolding from_bytes_def to_bytes_def root_only_def
    by (auto simp: Let_def nth_append intro!: merkle_tree.equality hash.equality)
qed

lemma to_bytes_from_bytes:
  assumes "from_bytes bs = Some t"
  shows "to_bytes t = bs \<and> root_only t = t"
proof -
  obtain alg where alg: "algorithm_of_byte (bs ! 0) = Some alg" and len: "9 \<le> length bs"
    and t: "t = \<lparr>mt_root = \<lparr>hash_algorithm = alg, hash_bytes = drop 9 bs\<rparr>, mt_nodes = [],
      mt_content_hashes = [], mt_file_paths = [], mt_file_count = le_value (take 4 (drop 1 bs)), mt_algorithm = alg\<rparr>"
    and hl: "9 + le_value (take 4 (drop 5 bs)) = length bs"
    using assms by (auto simp: from_bytes_def Let_def split: if_splits option.splits)
  have "length (drop 9 bs) = le_value (take 4 (drop 5 bs))" using hl by simp
  moreover have "le_bytes 4 (le_value (take 4 (drop k bs))) = take 4 (drop k bs)" if "k \<le> 5" for k
    using le_bytes_le_value [of "take 4 (drop k bs)"] len that by simp
  ultimately have "to_bytes t = bs ! 0 # take 4 (drop 1 bs) @ take 4 (drop 5 bs) @ drop 9 bs"
    using algorithm_of_byte_eq [OF alg] by (simp add: to_bytes_def t)
  also have "\<dots> = bs"
  proof -
    have "drop 1 bs = take 4 (drop 1 bs) @ drop 5 bs" "drop 5 bs = take 4 (drop 5 bs) @ drop 9 bs"
      using append_take_drop_id [of 4 "drop 1 bs"] append_take_drop_id [of 4 "drop 5 bs"] by (simp_all add: drop_drop)
    moreover have "bs = bs ! 0 # drop 1 bs" using len by (cases bs) auto
    ultimately show ?thesis by metis
  qed
  finally show ?thesis by (simp add: t root_only_def)
qed

lemma tree_of_files:
  assumes "files \<noteq> []"
  shows "mt_root (from_file_hashes hc files alg) = hd (last (build_levels hc (merkle_leaves hc alg files) alg))"
    "mt_nodes (from_file_hashes hc files alg) = build_levels hc (merkle_leaves hc alg files) alg"
    "mt_content_hashes (from_file_hashes hc files alg) = map (snd \<circ> snd) (sorted_identities files)"
    "mt_file_paths (from_file_hashes hc files alg) = map (np_value \<circ> fst) (sorted_identities files)"
    "mt_file_count (from_file_hashes hc files alg) = length files"
    "mt_algorithm (from_file_hashes hc files alg) = alg"
  by (simp_all add: from_file_hashes_identities [OF assms])

lemma merkle_leaves_Nil [simp]: "merkle_leaves hc alg files = [] \<longleftrightarrow> files = []"
  by (metis length_0_conv length_merkle_leaves)

lemma merkle_root_ok:
  assumes "digest_length_ok hc"
  shows "hash_algorithm (mt_root (from_file_hashes hc files alg)) = alg
    \<and> length (hash_bytes (mt_root (from_file_hashes hc files alg))) = (if files = [] then 0 else output_size alg)"
proof (cases "files = []")
  case True
  then show ?thesis by (simp add: from_file_hashes_def merkle_empty_def)
next
  case False
  let ?ls = "build_levels hc (merkle_leaves hc alg files) alg"
  have "list_all (hash_ok alg) (last ?ls)"
    using build_levels_ok [OF assms merkle_leaves_ok [OF assms]] last_in_set [OF build_levels_not_Nil]
    by (metis list_all_iff)
  moreover have "last ?ls \<noteq> []"
    using build_levels_nonempty [OF _ last_in_set [OF build_levels_not_Nil]] False by (metis merkle_leaves_Nil)
  ultimately have "hash_ok alg (hd (last ?ls))" by (simp add: list_all_iff)
  then show ?thesis using False by (simp add: tree_of_files hash_ok_def)
qed

section \<open>Properties\<close>

definition sample_digest :: "byte list \<Rightarrow> byte list" where
  "sample_digest e = take 16 (rev e @ replicate 16 0) @ take 16 (drop 38 e @ replicate 16 0)"

definition sample_crates :: hash_crates where
  "sample_crates = \<lparr>crc32_of = (\<lambda>_. 0), xxh3_64_of = (\<lambda>_. 0), sha256_of = sample_digest\<rparr>"

lemma sample_crates_ok: "digest_length_ok sample_crates"
  by (auto simp: digest_length_ok_def sample_crates_def sample_digest_def min_def)

definition sample_file :: "string \<Rightarrow> byte \<Rightarrow> file_hash_result" where
  "sample_file p b = \<lparr>relative_path = lit p,
     fh_hash = \<lparr>hash_algorithm = Sha256, hash_bytes = [b, 0, 0, 0]\<rparr>, fh_size = 5\<rparr>"

definition sample_files :: "file_hash_result list" where
  "sample_files = [sample_file ''b/x'' 2, sample_file ''a'' 1, sample_file ''c'' 3]"

text \<open>A proof for a file leads from the file to the root: it has one hash for every level below
  the root, and combining the commitment to that file's normalised path, size and content hash with
  them, as the position says from the left or the right, gives the root. The position is the one under
  which the tree lists the file's path and content hash.\<close>

theorem merkle_proof_reaches_root:
  assumes "i < length files"
  shows "\<exists>f \<in> set files. \<exists>path_hashes.
    get_proof (from_file_hashes hc files alg) i = Some path_hashes
    \<and> length path_hashes = depth (from_file_hashes hc files alg) - 1
    \<and> get_file_hash (from_file_hashes hc files alg) i = Some (fh_hash f)
    \<and> mt_file_paths (from_file_hashes hc files alg) ! i = np_value (normalize_relative_path (relative_path f))
    \<and> climb hc alg (hash_leaf hc (normalize_relative_path (relative_path f)) f alg) i path_hashes
      = mt_root (from_file_hashes hc files alg)"
proof -
  have files: "files \<noteq> []" using assms by auto
  obtain f where f: "f \<in> set files" "sorted_identities files ! i = identity f"
    using nth_identity [OF assms] .
  let ?ls = "build_levels hc (merkle_leaves hc alg files) alg"
  let ?p = "proof_siblings (butlast ?ls) i"
  have "get_proof (from_file_hashes hc files alg) i = Some ?p"
    using assms by (simp add: get_proof_def tree_of_files [OF files] butlast_conv_take)
  moreover have "climb hc alg (hash_leaf hc (norm_path f) f alg) i ?p = mt_root (from_file_hashes hc files alg)"
    "length ?p = depth (from_file_hashes hc files alg) - 1"
    using climb_levels [of i "merkle_leaves hc alg files" hc alg] assms merkle_leaves_nth [OF assms f(2), of hc alg]
    by (simp_all add: tree_of_files [OF files] depth_def)
  moreover have "get_file_hash (from_file_hashes hc files alg) i = Some (fh_hash f)"
    "mt_file_paths (from_file_hashes hc files alg) ! i = np_value (norm_path f)"
    using assms f(2) by (simp_all add: get_file_hash_def tree_of_files [OF files] identity_def)
  ultimately show ?thesis using f(1) by blast
qed

theorem merkle_proof_reaches_root_witness:
  "\<exists>f \<in> set sample_files. \<exists>path_hashes.
    get_proof (from_file_hashes sample_crates sample_files Sha256) 2 = Some path_hashes
    \<and> length path_hashes = depth (from_file_hashes sample_crates sample_files Sha256) - 1
    \<and> get_file_hash (from_file_hashes sample_crates sample_files Sha256) 2 = Some (fh_hash f)
    \<and> mt_file_paths (from_file_hashes sample_crates sample_files Sha256) ! 2
      = np_value (normalize_relative_path (relative_path f))
    \<and> climb sample_crates Sha256 (hash_leaf sample_crates (normalize_relative_path (relative_path f)) f Sha256) 2 path_hashes
      = mt_root (from_file_hashes sample_crates sample_files Sha256)"
  by (rule merkle_proof_reaches_root) (simp add: sample_files_def)

text \<open>C22. The root binds the files. When two lists of as many files give the same root and the hash
  does not collide on the encodings that were hashed for the two trees, the lists agree, up to order, on
  normalised path, namespace, size and content hash. Texts and hashes are as long as memory allows.\<close>

theorem merkle_root_binds:
  assumes "digest_length_ok hc" and "length fs = length gs"
    and "list_all fits fs" and "list_all fits gs"
    and "inj_on (\<lambda>e. hash_encoded hc e alg) (set (hash_inputs hc fs alg) \<union> set (hash_inputs hc gs alg))"
    and "mt_root (from_file_hashes hc fs alg) = mt_root (from_file_hashes hc gs alg)"
  shows "mset (map identity fs) = mset (map identity gs)"
proof (cases "fs = []")
  case True
  then show ?thesis using assms(2) by simp
next
  case False
  then have nonempty: "fs \<noteq> []" "gs \<noteq> []" using assms(2) by auto
  let ?h = "\<lambda>e. hash_encoded hc e alg"
  have "merkle_leaves hc alg fs = merkle_leaves hc alg gs"
  proof (rule levels_bind [OF assms(1)])
    show "inj_on ?h (\<Union>level \<in> set (butlast (build_levels hc (merkle_leaves hc alg fs) alg))
        \<union> set (butlast (build_levels hc (merkle_leaves hc alg gs) alg)). set (node_encodings level alg))"
      using assms(5) by (rule inj_on_subset) (auto simp: hash_inputs_def tree_of_files nonempty)
  qed (use assms nonempty in \<open>simp_all add: merkle_leaves_ok tree_of_files\<close>)
  moreover obtain fs' gs' where fs': "map identity fs' = sorted_identities fs" "set fs' \<subseteq> set fs"
      "merkle_leaves hc alg fs = map ?h (map (leaf_encoding alg) fs')"
    and gs': "map identity gs' = sorted_identities gs" "set gs' \<subseteq> set gs"
      "merkle_leaves hc alg gs = map ?h (map (leaf_encoding alg) gs')"
    using merkle_leaves_encodings [of fs hc alg] merkle_leaves_encodings [of gs hc alg] by (auto simp: comp_def)
  moreover have "inj_on ?h (set (map (leaf_encoding alg) fs') \<union> set (map (leaf_encoding alg) gs'))"
    using assms(5) by (rule inj_on_subset) (use fs'(2) gs'(2) in \<open>auto simp: hash_inputs_def\<close>)
  ultimately have "map (leaf_encoding alg) fs' = map (leaf_encoding alg) gs'"
    by (metis map_inj_on)
  moreover have "list_all fits fs'" "list_all fits gs'"
    using assms(3,4) fs'(2) gs'(2) by (auto simp: list_all_iff)
  ultimately have "map identity fs' = map identity gs'"
    by (intro same_leaves)
  then show ?thesis by (metis fs'(1) gs'(1) mset_sorted_identities)
qed

definition respelled_files :: "file_hash_result list" where
  "respelled_files = [sample_file ''./c'' 3, sample_file ''b//y/../x'' 2, sample_file ''a'' 1]"

definition small :: "file_hash_result \<Rightarrow> bool" where
  "small f \<longleftrightarrow> list_all is_scalar (relative_path f) \<and> str_len (np_value (norm_path f)) < 40
     \<and> length (hash_bytes (fh_hash f)) < 40"

lemma small_fits: "small f \<Longrightarrow> fits f"
  by (simp add: small_def fits_def)

lemma inj_on_distinct: "distinct (map h (remdups xs)) \<Longrightarrow> inj_on h (set xs)"
  by (simp add: distinct_map)

theorem merkle_root_binds_witness:
  "mset (map identity sample_files) = mset (map identity respelled_files)"
proof (rule merkle_root_binds [OF sample_crates_ok])
  have "distinct (map (\<lambda>e. hash_encoded sample_crates e Sha256)
      (remdups (hash_inputs sample_crates sample_files Sha256 @ hash_inputs sample_crates respelled_files Sha256)))"
    by code_simp
  then show "inj_on (\<lambda>e. hash_encoded sample_crates e Sha256)
      (set (hash_inputs sample_crates sample_files Sha256) \<union> set (hash_inputs sample_crates respelled_files Sha256))"
    by (metis inj_on_distinct set_append)
  have "list_all small sample_files" "list_all small respelled_files" by code_simp+
  then show "list_all fits sample_files" "list_all fits respelled_files"
    using small_fits by (auto simp: list_all_iff)
  show "mt_root (from_file_hashes sample_crates sample_files Sha256)
      = mt_root (from_file_hashes sample_crates respelled_files Sha256)" by code_simp
qed (simp add: sample_files_def respelled_files_def)

text \<open>The whole tree is a function of the identities of the files: neither their order nor the
  spelling of their paths matters.\<close>

theorem merkle_tree_order_independent:
  assumes "mset (map identity fs) = mset (map identity gs)"
  shows "from_file_hashes hc fs alg = from_file_hashes hc gs alg"
  using assms by (rule from_file_hashes_cong)

theorem merkle_tree_order_independent_witness:
  "sample_files \<noteq> respelled_files
   \<and> from_file_hashes sample_crates sample_files Sha256 = from_file_hashes sample_crates respelled_files Sha256"
proof
  show "sample_files \<noteq> respelled_files" by code_simp
  have "map identity sample_files = [identity (sample_files ! 0), identity (sample_files ! 1), identity (sample_files ! 2)]"
    "map identity respelled_files = [identity (sample_files ! 2), identity (sample_files ! 0), identity (sample_files ! 1)]"
    by code_simp+
  then have "mset (map identity sample_files) = mset (map identity respelled_files)" by simp
  then show "from_file_hashes sample_crates sample_files Sha256 = from_file_hashes sample_crates respelled_files Sha256"
    by (rule merkle_tree_order_independent)
qed



text \<open>Storing and loading: a stored tree whose file count fits 32 bits loads as the same root, count and
  algorithm, and loading accepts exactly the bytes that storing the loaded tree would write.\<close>

theorem merkle_storage_round_trip:
  assumes "digest_length_ok hc" and "length files < 2 ^ 32"
  shows "from_bytes (to_bytes (from_file_hashes hc files alg)) = Some (root_only (from_file_hashes hc files alg))
    \<and> (from_bytes bs = None \<or> to_bytes (the (from_bytes bs)) = bs)"
proof
  have count: "mt_file_count (from_file_hashes hc files alg) = length files"
    "mt_algorithm (from_file_hashes hc files alg) = alg"
    by (cases "files = []"; simp add: tree_of_files from_file_hashes_def [of _ "[]"] merkle_empty_def)+
  show "from_bytes (to_bytes (from_file_hashes hc files alg)) = Some (root_only (from_file_hashes hc files alg))"
    by (rule from_bytes_to_bytes) (use assms(2) merkle_root_ok [OF assms(1), of files alg] count in simp_all)
  show "from_bytes bs = None \<or> to_bytes (the (from_bytes bs)) = bs"
    using to_bytes_from_bytes by (cases "from_bytes bs") auto
qed

theorem merkle_storage_round_trip_witness:
  "from_bytes (to_bytes (from_file_hashes sample_crates sample_files Sha256))
     = Some (root_only (from_file_hashes sample_crates sample_files Sha256))
   \<and> to_bytes (the (from_bytes [2, 0, 0, 0, 0, 0, 0, 0, 0])) = [2, 0, 0, 0, 0, 0, 0, 0, 0]"
proof -
  have "length sample_files < 2 ^ 32" by (simp add: sample_files_def)
  moreover have "from_bytes [2, 0, 0, 0, 0, 0, 0, 0, 0] \<noteq> None" by code_simp
  ultimately show ?thesis
    using merkle_storage_round_trip [OF sample_crates_ok, of sample_files Sha256 "[2, 0, 0, 0, 0, 0, 0, 0, 0]"]
    by (simp only: simp_thms)
qed

text \<open>The root alone does not fix the number of files: whatever the hash, with an odd number of files
  the one that sorts last can be listed once more.\<close>

lemma build_next_level_repeat:
  "odd (length xs) \<Longrightarrow> build_next_level hc (xs @ [last xs]) alg = build_next_level hc xs alg"
  by (induction hc xs alg rule: build_next_level.induct) (auto simp: odd_pos)

lemma sorted_identities_repeat:
  assumes "files \<noteq> []" and "identity f = last (sorted_identities files)"
  shows "sorted_identities (f # files) = sorted_identities files @ [last (sorted_identities files)]"
proof -
  let ?s = "sorted_identities files"
  have "?s \<noteq> []" using assms(1) by (metis length_0_conv length_sorted_identities)
  from append_butlast_last_id [OF this, THEN arg_cong, of "map identity_key"]
  have "map identity_key ?s = map identity_key (butlast ?s) @ [identity_key (last ?s)]" by simp
  moreover have "sorted (map identity_key ?s)" by (simp add: sorted_identities_def)
  ultimately have "sorted (map identity_key (butlast ?s) @ [identity_key (last ?s)])" by simp
  then have "sorted ((map identity_key (butlast ?s) @ [identity_key (last ?s)]) @ [identity_key (last ?s)])"
    unfolding sorted_append by auto
  then have "sorted (map identity_key (?s @ [last ?s]))"
    using \<open>map identity_key ?s = _\<close> by simp
  then have "sort_key identity_key (?s @ [last ?s]) = ?s @ [last ?s]" by (rule sort_key_id_if_sorted)
  moreover have "mset (map identity (f # files)) = mset (?s @ [last ?s])"
    using assms(2) by simp
  from sort_key_inj_mset [OF identity_key_inj this]
  have "sorted_identities (f # files) = sort_key identity_key (?s @ [last ?s])"
    by (simp only: sorted_identities_def)
  ultimately show ?thesis by simp
qed

theorem last_file_twice_same_root:
  assumes "odd (length files)" and "1 < length files"
  shows "\<exists>f \<in> set files. mt_root (from_file_hashes hc (f # files) alg) = mt_root (from_file_hashes hc files alg)"
proof -
  have files: "files \<noteq> []" using assms(2) by auto
  then obtain f where f: "f \<in> set files" "last (sorted_identities files) = identity f"
    using nth_identity [of "length files - 1" files] by (metis diff_less last_conv_nth length_0_conv
        length_greater_0_conv length_sorted_identities less_one)
  have leaves: "merkle_leaves hc alg (f # files) = merkle_leaves hc alg files @ [last (merkle_leaves hc alg files)]"
  proof -
    have "sorted_identities files \<noteq> []" using files by (metis length_0_conv length_sorted_identities)
    from last_map [OF this, of "identity_leaf hc alg"] sorted_identities_repeat [OF files f(2) [symmetric]]
    show ?thesis unfolding merkle_leaves_def by simp
  qed
  have "last (build_levels hc (merkle_leaves hc alg (f # files)) alg) = last (build_levels hc (merkle_leaves hc alg files) alg)"
    using assms build_next_level_repeat [of "merkle_leaves hc alg files" hc alg] build_levels_more [of _ hc alg]
    unfolding leaves by (metis append_self_conv2 last_ConsR build_levels_not_Nil length_append
        length_merkle_leaves not_add_less1 trans_less_add1)
  then have "mt_root (from_file_hashes hc (f # files) alg) = mt_root (from_file_hashes hc files alg)"
    using tree_of_files(1) [of "f # files"] tree_of_files(1) [OF files] by simp
  then show ?thesis using f(1) by blast
qed

end
