(* ===== verification/Rar_Headers.thy ===== *)
theory Rar_Headers
  imports Bytes
begin

unbundle bit_operations_syntax

text \<open>
  \<^verbatim>\<open>crates/archive-import/src/worker/rar_headers.rs\<close>: the reader of RAR 4 and RAR 5 headers that
  attests the names, sizes and kinds of the entries before the native decoder is used.

  The archive is a list of bytes. The CRC-32 function and the path validation of the unboxer crate are
  fields of \<open>rar_env\<close>, and so is which reads of the file fail. Positions and lengths are natural numbers
  and the overflow checks of the source are written out against 64 bits; header fields are words.
\<close>

section \<open>Errors and reads\<close>

datatype import_error =
    Unavailable | ResourceLimit | WorkerFailed | Unsupported | Encrypted | SourceChanged
  | Corrupt | Limit | Cancelled | TimedOut | Io

record rar_env =
  rar_crc32 :: "byte list \<Rightarrow> 32 word"
  rar_valid_path :: "str \<Rightarrow> bool"      \<comment> \<open>\<^verbatim>\<open>unboxer::validate_entry_path\<close> accepts\<close>
  rar_fault :: "nat \<Rightarrow> bool"           \<comment> \<open>reading at this position fails\<close>

record rar_limits =
  max_entries :: "64 word"
  max_index_bytes :: "64 word"

record header =
  hd_name :: str
  hd_size :: "64 word"
  hd_packed :: "64 word"
  hd_host :: "32 word"
  hd_attributes :: "32 word"
  hd_directory :: bool

definition read_exact :: "rar_env \<Rightarrow> byte list \<Rightarrow> nat \<Rightarrow> nat \<Rightarrow> import_error + byte list" where
  "read_exact env bytes pos n =
     (if n = 0 then Inr []
      else if rar_fault env pos \<or> length bytes < pos + n then Inl Io
      else Inr (take n (drop pos bytes)))"

text \<open>What does not fit 64 bits, and what wrapping at 64 bits leaves.\<close>

definition over64 :: "nat \<Rightarrow> bool" where
  "over64 n \<longleftrightarrow> 2 ^ 64 \<le> int n"

definition wrap64 :: "nat \<Rightarrow> nat" where
  "wrap64 n = nat (int n mod 2 ^ 64)"

lemma over64_iff: "over64 n \<longleftrightarrow> 2 ^ 64 \<le> n"
  unfolding over64_def by (metis of_nat_le_iff of_nat_numeral of_nat_power)

lemma wrap64_eq: "wrap64 n = n mod 2 ^ 64"
  unfolding wrap64_def by (simp add: nat_mod_distrib)

definition u16_at :: "byte list \<Rightarrow> nat \<Rightarrow> import_error + 16 word" where
  "u16_at b i = (if i + 2 \<le> length b then Inr (of_nat (le_value (take 2 (drop i b)))) else Inl Corrupt)"

definition u32_at :: "byte list \<Rightarrow> nat \<Rightarrow> import_error + 32 word" where
  "u32_at b i = (if i + 4 \<le> length b then Inr (of_nat (le_value (take 4 (drop i b)))) else Inl Corrupt)"

text \<open>\<^verbatim>\<open>var\<close>: seven bits a byte, least significant first, ten bytes at most. The cursor comes back
  with the value.\<close>

fun var_loop :: "byte list \<Rightarrow> nat list \<Rightarrow> 64 word \<Rightarrow> nat \<Rightarrow> import_error + 64 word \<times> nat" where
  "var_loop b [] val cursor = Inl Corrupt"
| "var_loop b (shift # shifts) val cursor =
     (if cursor < length b then
        let byte = b ! cursor in
        if shift = 63 \<and> byte > 1 then Inl Corrupt
        else
          let val' = val OR push_bit shift (ucast (byte AND 127)) in
          if byte AND 128 = 0 then Inr (val', cursor + 1)
          else var_loop b shifts val' (cursor + 1)
      else Inl Corrupt)"

definition var :: "byte list \<Rightarrow> nat \<Rightarrow> import_error + 64 word \<times> nat" where
  "var b cursor = var_loop b [0, 7, 14, 21, 28, 35, 42, 49, 56, 63] 0 cursor"

section \<open>Names\<close>

definition check_name :: "rar_env \<Rightarrow> str \<Rightarrow> import_error + str" where
  "check_name env name = (if rar_valid_path env name then Inr name else Inl Unsupported)"

definition original_name :: "rar_env \<Rightarrow> byte list \<Rightarrow> bool \<Rightarrow> import_error + str" where
  "original_name env bytes ascii =
     (if length bytes > 4096 \<or> 0 \<in> set bytes \<or> (ascii \<and> \<not> list_all (\<lambda>b. b < 128) bytes)
      then Inl Unsupported
      else res_bind (ok_or (from_utf8 bytes) Unsupported) (\<lambda>text.
        check_name env (if ascii then fwd text else text)))"

fun from_utf16 :: "16 word list \<Rightarrow> str option" where
  "from_utf16 [] = Some []"
| "from_utf16 (u # us) =
     (if u < 0xD800 \<or> 0xE000 \<le> u then map_option ((#) (uint u)) (from_utf16 us)
      else if 0xDC00 \<le> u then None
      else case us of
        [] \<Rightarrow> None
      | v # vs \<Rightarrow>
          if 0xDC00 \<le> v \<and> v < 0xE000
          then map_option ((#) (0x10000 + (uint u - 0xD800) * 0x400 + (uint v - 0xDC00))) (from_utf16 vs)
          else None)"

text \<open>A run of the single-byte name, with or without a correction.\<close>

fun copy_run ::
  "byte list \<Rightarrow> byte option \<Rightarrow> 16 word \<Rightarrow> nat \<Rightarrow> 16 word list \<Rightarrow> import_error + 16 word list" where
  "copy_run single correction high 0 units = Inr units"
| "copy_run single correction high (Suc n) units =
     (if length units < length single then
        let byte = single ! length units in
        case correction of
          Some c \<Rightarrow> copy_run single correction high n (units @ [ucast (byte + c) OR high])
        | None \<Rightarrow>
            if byte < 128 then copy_run single correction high n (units @ [ucast byte])
            else Inl Unsupported
      else Inl Unsupported)"

definition byte_at :: "byte list \<Rightarrow> nat \<Rightarrow> import_error + byte" where
  "byte_at encoded at = (if at < length encoded then Inr (encoded ! at) else Inl Unsupported)"

text \<open>One code of the encoded name: the units and the position after it.\<close>

definition decode_code ::
  "byte list \<Rightarrow> byte list \<Rightarrow> 16 word \<Rightarrow> byte \<Rightarrow> 16 word list \<Rightarrow> nat
     \<Rightarrow> import_error + 16 word list \<times> nat" where
  "decode_code single encoded high flags units pos =
     (let code = drop_bit 6 flags in
      if code = 0 then
        res_bind (byte_at encoded pos) (\<lambda>b. Inr (units @ [ucast b], pos + 1))
      else if code = 1 then
        res_bind (byte_at encoded pos) (\<lambda>b. Inr (units @ [ucast b OR high], pos + 1))
      else if code = 2 then
        res_bind (byte_at encoded pos) (\<lambda>b0. res_bind (byte_at encoded (pos + 1)) (\<lambda>b1.
          Inr (units @ [of_nat (le_value [b0, b1])], pos + 2)))
      else
        res_bind (byte_at encoded pos) (\<lambda>len.
          if len AND 0x80 \<noteq> 0 then
            res_bind (byte_at encoded (pos + 1)) (\<lambda>c.
            res_bind (copy_run single (Some c) high (unat (len AND 0x7f) + 2) units) (\<lambda>units'.
              Inr (units', pos + 2)))
          else
            res_bind (copy_run single None high (unat (len AND 0x7f) + 2) units) (\<lambda>units'.
              Inr (units', pos + 1))))"

lemma decode_code_advances: "decode_code single encoded high flags units pos = Inr (us, p) \<Longrightarrow> pos < p"
  by (auto simp: decode_code_def Let_def res_bind_eq_Inr split: if_splits)

text \<open>The flag byte is read when its bits are used up.\<close>

definition refill_flags :: "byte list \<Rightarrow> byte \<Rightarrow> nat \<Rightarrow> nat \<Rightarrow> import_error + byte \<times> nat \<times> nat" where
  "refill_flags encoded flags flag_bits pos =
     (if flag_bits = 0 then res_bind (byte_at encoded pos) (\<lambda>f. Inr (f, 8, pos + 1))
      else Inr (flags, flag_bits, pos))"

lemma refill_flags_advances: "refill_flags encoded flags bits pos = Inr (f, b, p) \<Longrightarrow> pos \<le> p"
  by (auto simp: refill_flags_def res_bind_eq_Inr split: if_splits)

function decode_units ::
  "byte list \<Rightarrow> byte list \<Rightarrow> 16 word \<Rightarrow> 16 word list \<Rightarrow> nat \<Rightarrow> byte \<Rightarrow> nat \<Rightarrow> import_error + 16 word list" where
  "decode_units single encoded high units pos flags flag_bits =
     (if pos < length encoded then
        if length units > 4096 then Inl Unsupported
        else case refill_flags encoded flags flag_bits pos of
          Inl e \<Rightarrow> Inl e
        | Inr (flags', bits', pos') \<Rightarrow>
            (case decode_code single encoded high flags' units pos' of
               Inl e \<Rightarrow> Inl e
             | Inr (units', pos'') \<Rightarrow>
                 decode_units single encoded high units' pos'' (push_bit 2 flags') (bits' - 2))
      else Inr units)"
  by pat_completeness auto
termination
  by (relation "measure (\<lambda>(single, encoded, high, units, pos, flags, bits). length encoded - pos)")
     (auto dest!: refill_flags_advances decode_code_advances)

declare decode_units.simps [simp del]

definition unicode_name :: "rar_env \<Rightarrow> byte list \<Rightarrow> import_error + str" where
  "unicode_name env field =
     (if length field > 4096 then Inl Unsupported
      else if 0 \<notin> set field then Inl Unsupported
      else
        let single = takeWhile (\<lambda>b. b \<noteq> 0) field; encoded = drop (length single + 1) field in
        case encoded of
          [] \<Rightarrow> Inl Unsupported
        | h # _ \<Rightarrow>
            res_bind (decode_units single encoded (push_bit 8 (ucast h)) [] 1 0 0) (\<lambda>units.
            res_bind (ok_or (from_utf16 units) Unsupported) (\<lambda>text.
              check_name env (fwd text))))"

section \<open>Fixed-shape records\<close>

definition time_length :: "16 word \<Rightarrow> nat \<Rightarrow> nat" where
  "time_length flags time =
     (let mode = drop_bit ((3 - time) * 4) flags in
      if mode AND 8 = 0 then 0 else (if time \<noteq> 0 then 4 else 0) + unat (mode AND 3))"

definition extended_time_length :: "byte list \<Rightarrow> import_error + nat" where
  "extended_time_length bytes =
     res_bind (u16_at bytes 0) (\<lambda>flags.
       Inr (2 + sum_list (map (time_length flags) [0, 1, 2, 3])))"

lemma var_loop_advances: "var_loop b ss v c = Inr (x, c') \<Longrightarrow> c < c' \<and> c' \<le> length b"
  by (induction b ss v c rule: var_loop.induct) (fastforce simp: Let_def split: if_splits)+

lemma var_advances: "var b c = Inr (x, c') \<Longrightarrow> c < c' \<and> c' \<le> length b"
  unfolding var_def by (rule var_loop_advances)

text \<open>One extra record: its type and where the next one starts.\<close>

definition extra_record :: "byte list \<Rightarrow> nat \<Rightarrow> import_error + 64 word \<times> nat" where
  "extra_record area cursor =
     res_bind (var area cursor) (\<lambda>(size, cursor).
       let end_pos = cursor + unat size in
       if over64 end_pos then Inl Corrupt
       else if length area < end_pos then Inl Corrupt
       else res_bind (var (take (unat size) (drop cursor area)) 0) (\<lambda>(typ, _). Inr (typ, end_pos)))"

lemma extra_record_advances: "extra_record area c = Inr (t, c') \<Longrightarrow> c < c'"
  by (auto simp: extra_record_def res_bind_eq_Inr Let_def split: if_splits dest!: var_advances)

function extra_types_from :: "byte list \<Rightarrow> nat \<Rightarrow> 64 word list \<Rightarrow> import_error + 64 word list" where
  "extra_types_from area cursor types =
     (if cursor < length area then
        case extra_record area cursor of
          Inl e \<Rightarrow> Inl e
        | Inr (typ, end_pos) \<Rightarrow> extra_types_from area end_pos (types @ [typ])
      else Inr types)"
  by pat_completeness auto
termination
  by (relation "measure (\<lambda>(area, cursor, types). length area - cursor)") (auto dest!: extra_record_advances)

declare extra_types_from.simps [simp del]

definition extra_record_types :: "byte list \<Rightarrow> import_error + 64 word list" where
  "extra_record_types area = extra_types_from area 0 []"

definition join_high :: "32 word \<Rightarrow> 32 word \<Rightarrow> 64 word" where
  "join_high low high = ucast low OR push_bit 32 (ucast high)"

definition rar4_packed_size :: "byte list \<Rightarrow> 16 word \<Rightarrow> import_error + 64 word" where
  "rar4_packed_size bytes flags =
     res_bind (u32_at bytes 7) (\<lambda>low.
       if flags AND 0x100 \<noteq> 0 then res_bind (u32_at bytes 32) (\<lambda>high. Inr (join_high low high))
       else Inr (ucast low))"

section \<open>Blocks\<close>

record attest_state =
  at_offset :: nat
  at_headers :: "header list"
  at_total :: nat
  at_main :: bool
  at_ended :: bool

text \<open>The checked additions that move the offset past a block and its data.\<close>

definition advance :: "nat \<Rightarrow> nat \<Rightarrow> 64 word \<Rightarrow> attest_state \<Rightarrow> import_error + attest_state" where
  "advance offset len packed st =
     (if over64 (offset + len) \<or> over64 (offset + len + unat packed) then Inl Corrupt
      else Inr (st\<lparr>at_offset := offset + len + unat packed\<rparr>))"

definition rar4_host :: "byte \<Rightarrow> import_error + 32 word" where
  "rar4_host raw = (if raw = 0 \<or> raw = 2 then Inr 2 else if raw = 3 then Inr 3 else Inl Unsupported)"

definition rar4_file :: "rar_env \<Rightarrow> byte list \<Rightarrow> 16 word \<Rightarrow> 64 word \<Rightarrow> import_error + header" where
  "rar4_file env bytes flags packed =
     res_bind (u32_at bytes 11) (\<lambda>low.
     res_bind (u16_at bytes 26) (\<lambda>name_len.
     res_bind (if flags AND 0x100 \<noteq> 0
               then res_bind (u32_at bytes 36) (\<lambda>high. Inr (join_high low high, 40))
               else Inr (ucast low, 32)) (\<lambda>(unpacked, start).
     let name_end = start + unat name_len in
     if length bytes < name_end then Inl Unsupported
     else
       res_bind (if flags AND 0x1000 \<noteq> 0 then extended_time_length (drop name_end bytes) else Inr 0) (\<lambda>trailing.
       if name_end + trailing \<noteq> length bytes then Inl Unsupported
       else
         res_bind (rar4_host (bytes ! 15)) (\<lambda>host.
         if bytes ! 24 < 20 then Inl Unsupported
         else
           res_bind (u32_at bytes 28) (\<lambda>attributes.
           let field = take (unat name_len) (drop start bytes) in
           res_bind (if flags AND 0x0200 \<noteq> 0 then unicode_name env field
                     else original_name env field True) (\<lambda>name.
             Inr \<lparr>hd_name = name, hd_size = unpacked, hd_packed = packed, hd_host = host,
               hd_attributes = attributes, hd_directory = (flags AND 0xe0 = 0xe0)\<rparr>)))))))"

text \<open>The match on the block type: the new state and the packed size of what follows the block.\<close>

definition rar4_body ::
  "rar_env \<Rightarrow> byte list \<Rightarrow> 16 word \<Rightarrow> attest_state \<Rightarrow> import_error + attest_state \<times> 64 word" where
  "rar4_body env bytes flags st =
     (let kind = bytes ! 2 in
      if kind = 0x73 then
        if flags AND 0x0080 \<noteq> 0 then Inl Encrypted
        else if at_main st \<or> at_headers st \<noteq> [] \<or> flags AND NOT (0x0004 OR 0x0008 OR 0x0040) \<noteq> 0
          \<or> length bytes \<noteq> 13 then Inl Unsupported
        else Inr (st\<lparr>at_main := True\<rparr>, 0)
      else if kind = 0x7a then
        if flags AND 0x0004 \<noteq> 0 then Inl Encrypted
        else if \<not> at_main st \<or> flags AND 0x8000 = 0 \<or> length bytes < 32 then Inl Unsupported
        else res_bind (rar4_packed_size bytes flags) (\<lambda>packed. Inr (st, packed))
      else if kind = 0x74 then
        if flags AND 0x0004 \<noteq> 0 then Inl Encrypted
        else if \<not> at_main st
          \<or> flags AND NOT (0x8000 OR 0x0100 OR 0x0010 OR 0x00e0 OR 0x1000 OR 0x0200) \<noteq> 0
          \<or> flags AND 0x8000 = 0 \<or> length bytes < 32 then Inl Unsupported
        else
          res_bind (rar4_packed_size bytes flags) (\<lambda>packed.
          res_bind (rar4_file env bytes flags packed) (\<lambda>h.
            Inr (st\<lparr>at_headers := at_headers st @ [h]\<rparr>, packed)))
      else if kind = 0x7b then
        let data_crc = (if flags AND 0x0002 \<noteq> 0 then 4 else 0) in
        if \<not> at_main st \<or> flags AND NOT (0x4000 OR 0x0002) \<noteq> 0 \<or> length bytes \<noteq> 7 + data_crc
        then Inl Unsupported
        else Inr (st\<lparr>at_ended := True\<rparr>, 0)
      else Inl Unsupported)"

definition rar4_block ::
  "rar_env \<Rightarrow> byte list \<Rightarrow> rar_limits \<Rightarrow> attest_state \<Rightarrow> import_error + attest_state" where
  "rar4_block env archive limits st =
     (let offset = at_offset st in
      res_bind (read_exact env archive offset 7) (\<lambda>prefix_bytes.
      res_bind (u16_at prefix_bytes 5) (\<lambda>len16.
      let len = unat len16; total = wrap64 (at_total st + len) in
      if len < 7 then Inl Corrupt
      else if total > unat (max_index_bytes limits) then Inl Limit
      else
        res_bind (read_exact env archive (offset + 7) (len - 7)) (\<lambda>rest.
        let bytes = prefix_bytes @ rest in
        res_bind (u16_at bytes 0) (\<lambda>crc.
        if ucast (rar_crc32 env (drop 2 bytes)) \<noteq> crc then Inl Corrupt
        else
          res_bind (u16_at bytes 3) (\<lambda>flags.
          res_bind (rar4_body env bytes flags (st\<lparr>at_total := total\<rparr>)) (\<lambda>(st', packed).
            advance offset len packed st'))))))) "

fun read_length :: "rar_env \<Rightarrow> byte list \<Rightarrow> nat \<Rightarrow> nat \<Rightarrow> import_error + byte list" where
  "read_length env archive pos 0 = Inr []"
| "read_length env archive pos (Suc n) =
     res_bind (read_exact env archive pos 1) (\<lambda>bs.
       if (bs ! 0) AND 128 = 0 then Inr bs
       else res_bind (read_length env archive (pos + 1) n) (\<lambda>more. Inr (bs @ more)))"

text \<open>The records an archive header and a file or service header may carry.\<close>

fun check_main_records :: "64 word list \<Rightarrow> import_error + unit" where
  "check_main_records [] = Inr ()"
| "check_main_records (r # rs) = (if r = 1 \<or> r = 2 then check_main_records rs else Inl Unsupported)"

fun check_file_records :: "64 word \<Rightarrow> 64 word list \<Rightarrow> import_error + unit" where
  "check_file_records kind [] = Inr ()"
| "check_file_records kind (r # rs) =
     (if r = 1 then Inl Encrypted
      else if kind = 3 then check_file_records kind rs
      else if r = 2 \<or> r = 3 \<or> r = 6 then check_file_records kind rs
      else Inl Unsupported)"

definition skip_u32 :: "bool \<Rightarrow> byte list \<Rightarrow> nat \<Rightarrow> import_error + nat" where
  "skip_u32 present bytes cursor =
     (if present then res_bind (u32_at bytes cursor) (\<lambda>_. Inr (cursor + 4)) else Inr cursor)"

text \<open>A file or service header: the header if there is one, and the cursor.\<close>

definition rar5_file ::
  "rar_env \<Rightarrow> byte list \<Rightarrow> 64 word \<Rightarrow> 64 word \<Rightarrow> byte list \<Rightarrow> nat
     \<Rightarrow> import_error + header list \<times> nat" where
  "rar5_file env bytes kind packed extra_area cursor =
     res_bind (var bytes cursor) (\<lambda>(file_flags, cursor).
     if file_flags AND NOT 7 \<noteq> 0 then Inl Unsupported
     else
       res_bind (var bytes cursor) (\<lambda>(unpacked, cursor).
       res_bind (var bytes cursor) (\<lambda>(attributes, cursor).
       if attributes > 0xFFFFFFFF then Inl Unsupported
       else
         res_bind (skip_u32 (file_flags AND 2 \<noteq> 0) bytes cursor) (\<lambda>cursor.
         res_bind (skip_u32 (file_flags AND 4 \<noteq> 0) bytes cursor) (\<lambda>cursor.
         res_bind (var bytes cursor) (\<lambda>(_, cursor).
         res_bind (var bytes cursor) (\<lambda>(host, cursor).
         if host > 1 then Inl Unsupported
         else
           res_bind (var bytes cursor) (\<lambda>(name_len, cursor).
           let end_pos = cursor + unat name_len in
           if over64 end_pos then Inl Limit
           else if length bytes < end_pos then Inl Corrupt
           else
             let name_bytes = take (unat name_len) (drop cursor bytes) in
             res_bind (extra_record_types extra_area) (\<lambda>records.
             res_bind (check_file_records kind records) (\<lambda>_.
             if kind = 2 then
               res_bind (original_name env name_bytes False) (\<lambda>name.
                 Inr ([\<lparr>hd_name = name, hd_size = unpacked, hd_packed = packed,
                   hd_host = (if host = 0 then 2 else 3), hd_attributes = ucast attributes,
                   hd_directory = (file_flags AND 1 \<noteq> 0)\<rparr>], end_pos))
             else Inr ([], end_pos)))))))))))"

definition rar5_body ::
  "rar_env \<Rightarrow> byte list \<Rightarrow> 64 word \<Rightarrow> 64 word \<Rightarrow> 64 word \<Rightarrow> byte list \<Rightarrow> nat \<Rightarrow> attest_state
     \<Rightarrow> import_error + attest_state \<times> nat" where
  "rar5_body env bytes kind flags packed extra_area cursor st =
     (if kind = 1 then
        res_bind (var bytes cursor) (\<lambda>(archive_flags, cursor).
        if at_main st \<or> flags AND 2 \<noteq> 0 \<or> archive_flags AND NOT (4 OR 8 OR 16) \<noteq> 0 then Inl Unsupported
        else
          res_bind (extra_record_types extra_area) (\<lambda>records.
          res_bind (check_main_records records) (\<lambda>_. Inr (st\<lparr>at_main := True\<rparr>, cursor))))
      else if kind = 2 \<or> kind = 3 then
        if \<not> at_main st then Inl Corrupt
        else
          res_bind (rar5_file env bytes kind packed extra_area cursor) (\<lambda>(hs, cursor).
            Inr (st\<lparr>at_headers := at_headers st @ hs\<rparr>, cursor))
      else if kind = 4 then Inl Encrypted
      else if kind = 5 then
        if \<not> at_main st \<or> flags AND 3 \<noteq> 0 then Inl Unsupported
        else
          res_bind (var bytes cursor) (\<lambda>(x, cursor).
            if x \<noteq> 0 then Inl Unsupported else Inr (st\<lparr>at_ended := True\<rparr>, cursor))
      else Inl Unsupported)"

definition optional_var :: "bool \<Rightarrow> byte list \<Rightarrow> nat \<Rightarrow> import_error + 64 word \<times> nat" where
  "optional_var present bytes cursor = (if present then var bytes cursor else Inr (0, cursor))"

definition rar5_header ::
  "rar_env \<Rightarrow> byte list \<Rightarrow> attest_state \<Rightarrow> import_error + attest_state \<times> 64 word" where
  "rar5_header env bytes st =
     res_bind (var bytes 0) (\<lambda>(kind, cursor).
     res_bind (var bytes cursor) (\<lambda>(flags, cursor).
     if flags AND NOT 7 \<noteq> 0 then Inl Unsupported
     else
       res_bind (optional_var (flags AND 1 \<noteq> 0) bytes cursor) (\<lambda>(extra, cursor).
       res_bind (optional_var (flags AND 2 \<noteq> 0) bytes cursor) (\<lambda>(packed, cursor).
       if length bytes < unat extra \<or> length bytes - unat extra < cursor then Inl Corrupt
       else
         let body_end = length bytes - unat extra in
         res_bind (rar5_body env bytes kind flags packed (drop body_end bytes) cursor st) (\<lambda>(st', cursor).
         if cursor \<noteq> body_end then Inl Unsupported else Inr (st', packed))))))"

definition rar5_block ::
  "rar_env \<Rightarrow> byte list \<Rightarrow> rar_limits \<Rightarrow> attest_state \<Rightarrow> import_error + attest_state" where
  "rar5_block env archive limits st =
     (let offset = at_offset st in
      res_bind (read_exact env archive offset 4) (\<lambda>crc.
      res_bind (read_length env archive (offset + 4) 10) (\<lambda>encoded.
      res_bind (var encoded 0) (\<lambda>(len64, cursor).
      let len = unat len64; total = at_total st + (len + length encoded + 4) in
      if cursor \<noteq> length encoded \<or> len64 > 0x100000 then Inl Limit
      else if over64 total \<or> total > unat (max_index_bytes limits) then Inl Limit
      else
        res_bind (read_exact env archive (offset + 4 + length encoded) len) (\<lambda>bytes.
        if rar_crc32 env (encoded @ bytes) \<noteq> of_nat (le_value crc) then Inl Corrupt
        else
          res_bind (rar5_header env bytes (st\<lparr>at_total := total\<rparr>)) (\<lambda>(st', packed).
            advance offset (4 + length encoded + len) packed st'))))))"

text \<open>The tests at the end of the loop body.\<close>

definition check_block ::
  "byte list \<Rightarrow> rar_limits \<Rightarrow> attest_state \<Rightarrow> import_error + attest_state" where
  "check_block archive limits st =
     (if length (at_headers st) > unat (max_entries limits) then Inl Limit
      else if at_offset st > length archive \<or> (at_ended st \<and> at_offset st \<noteq> length archive) then Inl Corrupt
      else Inr st)"

definition attest_block ::
  "rar_env \<Rightarrow> byte list \<Rightarrow> rar_limits \<Rightarrow> bool \<Rightarrow> attest_state \<Rightarrow> import_error + attest_state" where
  "attest_block env archive limits rar4 st =
     res_bind (if rar4 then rar4_block env archive limits st else rar5_block env archive limits st)
       (check_block archive limits)"

section \<open>The loop\<close>

lemma advance_Inr:
  "advance offset len packed st = Inr st' \<Longrightarrow>
     offset + len + unat packed < 2 ^ 64 \<and> st' = st\<lparr>at_offset := offset + len + unat packed\<rparr>"
  by (auto simp: advance_def over64_iff split: if_splits)

lemma rar4_block_advances: "rar4_block env archive limits st = Inr st' \<Longrightarrow> at_offset st < at_offset st'"
  by (auto simp: rar4_block_def Let_def res_bind_eq_Inr split: if_splits dest!: advance_Inr)

lemma rar5_block_advances: "rar5_block env archive limits st = Inr st' \<Longrightarrow> at_offset st < at_offset st'"
  by (auto simp: rar5_block_def Let_def res_bind_eq_Inr split: if_splits dest!: advance_Inr)

lemma attest_block_advances:
  "attest_block env archive limits rar4 st = Inr st' \<Longrightarrow> at_offset st < at_offset st'"
  by (auto simp: attest_block_def check_block_def res_bind_eq_Inr split: if_splits
      dest!: rar4_block_advances rar5_block_advances)

function attest_loop ::
  "rar_env \<Rightarrow> byte list \<Rightarrow> rar_limits \<Rightarrow> bool \<Rightarrow> attest_state \<Rightarrow> import_error + attest_state" where
  "attest_loop env archive limits rar4 st =
     (if at_offset st < length archive then
        case attest_block env archive limits rar4 st of
          Inl e \<Rightarrow> Inl e
        | Inr st' \<Rightarrow> if at_ended st' then Inr st' else attest_loop env archive limits rar4 st'
      else Inr st)"
  by pat_completeness auto
termination
  by (relation "measure (\<lambda>(env, archive, limits, rar4, st). length archive - at_offset st)")
     (auto dest: attest_block_advances intro!: diff_less_mono2)

declare attest_loop.simps [simp del]

definition RAR5_SIGNATURE :: "byte list" where
  "RAR5_SIGNATURE = [0x52, 0x61, 0x72, 0x21, 0x1a, 0x07, 0x01, 0x00]"

definition RAR4_SIGNATURE :: "byte list" where
  "RAR4_SIGNATURE = [0x52, 0x61, 0x72, 0x21, 0x1a, 0x07, 0x00]"

definition attest_start :: "nat \<Rightarrow> attest_state" where
  "attest_start offset = \<lparr>at_offset = offset, at_headers = [], at_total = 0, at_main = False, at_ended = False\<rparr>"

definition is_rar4 :: "byte list \<Rightarrow> import_error + bool" where
  "is_rar4 signature =
     (if signature = RAR5_SIGNATURE then Inr False
      else if take 7 signature = RAR4_SIGNATURE then Inr True
      else Inl Unsupported)"

definition attest :: "rar_env \<Rightarrow> byte list \<Rightarrow> rar_limits \<Rightarrow> import_error + header list" where
  "attest env archive limits =
     res_bind (read_exact env archive 0 8) (\<lambda>signature.
     res_bind (is_rar4 signature) (\<lambda>rar4.
     res_bind (attest_loop env archive limits rar4 (attest_start (if rar4 then 7 else 8))) (\<lambda>st.
       if at_ended st then Inr (at_headers st) else Inl Corrupt)))"

end
