(* ===== verification/Rar_Properties.thy ===== *)
theory Rar_Properties
  imports Rar_Headers
begin

text \<open>
  What an accepted RAR archive is known to be: its blocks follow each other without gap from the
  signature to the end of the file, no more can follow, and the numbers and names in the headers are
  read exactly.
\<close>

section \<open>Variable-length integers\<close>

fun leb_value :: "byte list \<Rightarrow> nat" where
  "leb_value [] = 0"
| "leb_value (b # bs) = unat (b AND 127) + 128 * leb_value bs"

fun leb_encode :: "nat \<Rightarrow> byte list" where
  "leb_encode n = (if n < 128 then [of_nat n] else of_nat (n mod 128 + 128) # leb_encode (n div 128))"

declare leb_encode.simps [simp del]

lemma or_push_bit: "take_bit s v = v \<Longrightarrow> v OR push_bit s w = v + push_bit s (w :: 'a :: len word)"
proof -
  assume v: "take_bit s v = v"
  have "\<not> (bit v n \<and> bit (push_bit s w) n)" for n
    using v bit_take_bit_iff [of s v n] by (auto simp: bit_simps)
  then show ?thesis using disjunctive_add [of v "push_bit s w"] by auto
qed

lemma unat_or_push_bit:
  assumes "unat v < 2 ^ s" and "unat v + 2 ^ s * unat w < 2 ^ 64"
  shows "unat (v OR push_bit s w) = unat v + 2 ^ s * unat (w :: 64 word)"
proof -
  have "take_bit s v = v" using assms(1)
    by (metis take_bit_nat_eq_self_iff unsigned_take_bit_eq word_unat_eq_iff)
  moreover have "push_bit s w = of_nat (2 ^ s * unat w)" by (simp add: push_bit_eq_mult mult.commute)
  ultimately have "v OR push_bit s w = of_nat (unat v + 2 ^ s * unat w)"
    using or_push_bit [of s v w] by simp
  then show ?thesis using assms(2) by (simp only: unat_of_nat) simp
qed

lemma add_digit: "v < 2 ^ s \<Longrightarrow> w < 2 ^ t \<Longrightarrow> v + 2 ^ s * w < (2 :: nat) ^ (s + t)"
proof -
  assume "v < 2 ^ s" "w < 2 ^ t"
  then have "v + 2 ^ s * w < 2 ^ s * Suc w" "2 ^ s * Suc w \<le> 2 ^ s * (2 :: nat) ^ t"
    by (simp, intro mult_left_mono, simp_all add: Suc_le_eq)
  then show ?thesis unfolding power_add by linarith
qed

lemma low_seven: "unat (ucast (b AND 127) :: 64 word) = unat (b AND 127 :: byte)" "unat (b AND 127 :: byte) < 128"
proof -
  show "unat (b AND 127 :: byte) < 128"
    using word_and_le1 [of b 127] by (simp add: word_le_nat_alt)
  then show "unat (ucast (b AND 127) :: 64 word) = unat (b AND 127 :: byte)"
    by (simp add: unsigned_ucast_eq take_bit_nat_eq_self)
qed

lemma var_loop_value:
  assumes "var_loop b (map ((*) 7) [k..<10]) v c = Inr (x, c')" and "unat v < 2 ^ (7 * k)"
  shows "unat x = unat v + 2 ^ (7 * k) * leb_value (take (c' - c) (drop c b)) \<and> c' - c \<le> 10 - k"
  using assms
proof (induction "10 - k" arbitrary: k v c)
  case 0
  then show ?case by simp
next
  case (Suc n)
  have k: "k < 10" using Suc.hyps(2) by simp
  let ?v = "v OR push_bit (7 * k) (ucast (b ! c AND 127))"
  have c: "c < length b" and last: "k = 9 \<Longrightarrow> b ! c \<le> 1"
    using Suc.prems(1) k by (auto simp: upt_conv_Cons Let_def not_less split: if_splits)
  have small: "unat v + 2 ^ (7 * k) * unat (b ! c AND 127) < 2 ^ (7 * Suc k)"
    using add_digit [OF Suc.prems(2), of "unat (b ! c AND 127)" 7] low_seven(2) [of "b ! c"]
    by (simp add: add.commute)
  have "unat v + 2 ^ (7 * k) * unat (b ! c AND 127) < 2 ^ 64"
  proof (cases "k = 9")
    case True
    have "unat (b ! c AND 127) \<le> 1"
      using last [OF True] word_and_le2 [of "b ! c" 127] by (simp add: word_le_nat_alt)
    then show ?thesis using add_digit [OF Suc.prems(2), of "unat (b ! c AND 127)" 1] True by simp
  next
    case False
    then have "(2 :: nat) ^ (7 * Suc k) \<le> 2 ^ 64" using k by (intro power_increasing) auto
    with small show ?thesis by linarith
  qed
  then have val: "unat ?v = unat v + 2 ^ (7 * k) * unat (b ! c AND 127)"
    using unat_or_push_bit [OF Suc.prems(2), of "ucast (b ! c AND 127)"] by (simp add: low_seven)
  show ?case
  proof (cases "b ! c AND 128 = 0")
    case True
    then have "x = ?v" "c' = c + 1"
      using Suc.prems(1) k c by (auto simp: upt_conv_Cons Let_def split: if_splits)
    then show ?thesis using val k c by (simp add: flip: Cons_nth_drop_Suc)
  next
    case False
    have "k \<noteq> 9"
    proof
      assume "k = 9"
      then have "b ! c = 0 \<or> b ! c = 1" using last by (metis word_le_less_eq word_less_1)
      then show False using False by auto
    qed
    have rest: "var_loop b (map ((*) 7) [Suc k..<10]) ?v (c + 1) = Inr (x, c')"
      using Suc.prems(1) k c False by (auto simp: upt_conv_Cons Let_def split: if_splits)
    have IH: "unat x = unat ?v + 2 ^ (7 * Suc k) * leb_value (take (c' - (c + 1)) (drop (c + 1) b))
        \<and> c' - (c + 1) \<le> 10 - Suc k"
      by (rule Suc.hyps(1) [OF _ rest]) (use Suc.hyps(2) small val \<open>k \<noteq> 9\<close> k in auto)
    have "c + 1 < c'" using var_loop_advances [OF rest] by simp
    then have "take (c' - c) (drop c b) = b ! c # take (c' - (c + 1)) (drop (c + 1) b)"
      using c by (simp add: Suc_diff_Suc take_Cons' flip: Cons_nth_drop_Suc)
    then show ?thesis using IH val \<open>c + 1 < c'\<close> k by (simp add: algebra_simps power_add) arith
  qed
qed

lemma var_value:
  assumes "var b c = Inr (x, c')"
  shows "unat x = leb_value (take (c' - c) (drop c b)) \<and> c' - c \<le> 10"
proof -
  have "[0, 7, 14, 21, 28, 35, 42, 49, 56, 63] = map ((*) 7) [0..<10]" by (simp add: upt_rec)
  then show ?thesis using var_loop_value [of b 0 0 c x c'] assms by (simp add: var_def)
qed

lemma of_nat_byte_and:
  "n < 128 \<Longrightarrow> (of_nat n :: byte) AND 127 = of_nat n \<and> (of_nat n :: byte) AND 128 = 0"
  "n < 128 \<Longrightarrow> (of_nat (n + 128) :: byte) AND 127 = of_nat n \<and> (of_nat (n + 128) :: byte) AND 128 \<noteq> 0"
proof -
  assume n: "n < 128"
  have "n mod 128 = n" "(n + 128) mod 128 = n" "(n + 128) div 128 = 1" using n by simp_all
  moreover have "(of_nat m :: byte) AND 127 = of_nat (m mod 128)" for m
  proof -
    have "(127 :: byte) = mask 7" by (simp add: mask_eq_exp_minus_1)
    then have "(of_nat m :: byte) AND 127 = take_bit 7 (of_nat m)" by (simp only: take_bit_eq_mask)
    also have "\<dots> = of_nat (take_bit 7 m)" by (simp add: take_bit_of_nat)
    finally show ?thesis by (simp add: take_bit_eq_mod)
  qed
  moreover have "((of_nat m :: byte) AND 128 = 0) = even (m div 128)" for m
  proof -
    have "(128 :: byte) = push_bit 7 1" by simp
    then have "((of_nat m :: byte) AND 128 = 0) = (\<not> bit (of_nat m :: byte) 7)"
      by (metis and_exp_eq_0_iff_not_bit push_bit_of_1)
    also have "bit (of_nat m :: byte) 7 = odd (m div 128)" 
      using bit_of_nat_iff [of m 7, where 'a = byte] bit_iff_odd [of m 7] possible_bit_word by simp
    finally show ?thesis by simp
  qed
  ultimately show "(of_nat n :: byte) AND 127 = of_nat n \<and> (of_nat n :: byte) AND 128 = 0"
    "(of_nat (n + 128) :: byte) AND 127 = of_nat n \<and> (of_nat (n + 128) :: byte) AND 128 \<noteq> 0"
    using n by (simp_all del: of_nat_add)
qed

lemma leb_value_encode: "leb_value (leb_encode n) = n"
proof (induction n rule: leb_encode.induct)
  case (1 n)
  show ?case
  proof (cases "n < 128")
    case True
    then show ?thesis
      using of_nat_byte_and(1) [of n] by (subst leb_encode.simps) (simp add: unat_of_nat)
  next
    case False
    have "unat (of_nat (n mod 128 + 128) AND 127 :: byte) = n mod 128"
      using of_nat_byte_and(2) [of "n mod 128"] by (simp add: unat_of_nat del: of_nat_add)
    then show ?thesis using False 1 by (subst leb_encode.simps) (simp del: of_nat_add)
  qed
qed

lemma var_loop_encode:
  assumes "n < 2 ^ (64 - 7 * k)" and "k < 10"
  shows "\<exists>x. var_loop (pre @ leb_encode n @ rest) (map ((*) 7) [k..<10]) v (length pre)
    = Inr (x, length pre + length (leb_encode n))"
  using assms
proof (induction n arbitrary: k v pre rule: leb_encode.induct)
  case (1 n)
  show ?case
  proof (cases "n < 128")
    case True
    have "k = 9 \<Longrightarrow> n < 2" using "1.prems"(1) by simp
    then have "7 * k = 63 \<Longrightarrow> \<not> (of_nat n :: byte) > 1" by (auto simp: less_2_cases_iff)
    moreover have "leb_encode n = [of_nat n]" using True by (simp add: leb_encode.simps)
    ultimately show ?thesis
      using of_nat_byte_and(1) [OF True] "1.prems"(2) by (simp add: upt_conv_Cons nth_append Let_def)
  next
    case False
    have k: "k < 9" using "1.prems" False by (cases "k = 9") auto
    have enc: "leb_encode n = of_nat (n mod 128 + 128) # leb_encode (n div 128)"
      using False by (simp add: leb_encode.simps)
    have "64 - 7 * k = (64 - 7 * Suc k) + 7" using k by simp
    then have "(2 :: nat) ^ (64 - 7 * k) = 2 ^ (64 - 7 * Suc k) * 2 ^ 7" by (simp only: power_add)
    then have "(2 :: nat) ^ (64 - 7 * k) = 2 ^ (64 - 7 * Suc k) * 128" by simp
    then have "n div 128 < 2 ^ (64 - 7 * Suc k)" using "1.prems"(1) by (simp add: less_mult_imp_div_less)
    with "1.IH" [OF False this, of "pre @ [of_nat (n mod 128 + 128)]"] k
    show ?thesis
      using of_nat_byte_and(2) [of "n mod 128"] by (simp add: enc upt_conv_Cons nth_append Let_def del: of_nat_add)
  qed
qed

lemma var_encode: "var (leb_encode (unat x) @ rest) 0 = Inr (x, length (leb_encode (unat x)))"
proof -
  have "[0, 7, 14, 21, 28, 35, 42, 49, 56, 63] = map ((*) 7) [0..<10]" by (simp add: upt_rec)
  moreover have "unat x < 2 ^ 64" using unsigned_less [of x, where 'a = nat] by simp
  ultimately obtain y where y: "var (leb_encode (unat x) @ rest) 0 = Inr (y, length (leb_encode (unat x)))"
    using var_loop_encode [of "unat x" 0 "[]" rest 0] by (auto simp: var_def)
  then have "unat y = unat x" using var_value [OF y] by (simp add: leb_value_encode)
  then show ?thesis using y by (simp add: word_unat_eq_iff)
qed

section \<open>Blocks\<close>

text \<open>What a block header does to the state: it adds an entry at most, whose data is what the block says
  follows it and whose name has been accepted.\<close>

definition adds_entry :: "rar_env \<Rightarrow> attest_state \<Rightarrow> attest_state \<Rightarrow> 64 word \<Rightarrow> bool" where
  "adds_entry env st st' packed \<longleftrightarrow> at_total st' = at_total st
     \<and> (at_headers st' = at_headers st
        \<or> (\<exists>h. at_headers st' = at_headers st @ [h] \<and> hd_packed h = packed \<and> rar_valid_path env (hd_name h)))"

lemma original_name_valid: "original_name env bs ascii = Inr n \<Longrightarrow> rar_valid_path env n"
  by (auto simp: original_name_def check_name_def res_bind_eq_Inr split: if_splits)

lemma unicode_name_valid: "unicode_name env bs = Inr n \<Longrightarrow> rar_valid_path env n"
  by (auto simp: unicode_name_def check_name_def res_bind_eq_Inr Let_def split: if_splits list.splits)

lemma rar4_file_entry:
  assumes "rar4_file env bytes flags packed = Inr h"
  shows "hd_packed h = packed \<and> rar_valid_path env (hd_name h)"
proof -
  obtain field where "(if flags AND 0x0200 \<noteq> 0 then unicode_name env field else original_name env field True) = Inr (hd_name h)"
    "hd_packed h = packed"
    using assms by (auto simp: rar4_file_def res_bind_eq_Inr Let_def split: if_splits)
  then show ?thesis by (auto split: if_splits dest: original_name_valid unicode_name_valid)
qed

lemma rar4_body_adds: "rar4_body env bytes flags st = Inr (st', packed) \<Longrightarrow> adds_entry env st st' packed"
  by (auto simp: rar4_body_def adds_entry_def res_bind_eq_Inr Let_def split: if_splits dest!: rar4_file_entry)

lemma rar5_file_entry:
  "rar5_file env bytes kind packed area c = Inr (hs, c') \<Longrightarrow>
     hs = [] \<or> (\<exists>h. hs = [h] \<and> hd_packed h = packed \<and> rar_valid_path env (hd_name h))"
  by (auto simp: rar5_file_def res_bind_eq_Inr Let_def split: if_splits dest!: original_name_valid)

lemma rar5_header_adds: "rar5_header env bytes st = Inr (st', packed) \<Longrightarrow> adds_entry env st st' packed"
  by (auto simp: rar5_header_def rar5_body_def adds_entry_def res_bind_eq_Inr Let_def
      split: if_splits dest!: rar5_file_entry)

text \<open>One block: its header takes between four bytes and a megabyte, and header and data end the
  offset.\<close>

lemma attest_block_step:
  assumes "attest_block env archive limits rar4 st = Inr st'"
  obtains len packed where "0 < len" "at_offset st' = at_offset st + len + unat packed"
    "at_offset st' < 2 ^ 64" "at_total st' = (if rar4 then wrap64 (at_total st + len) else at_total st + len)"
    "at_total st' \<le> unat (max_index_bytes limits)"
    "at_headers st' = at_headers st
       \<or> (\<exists>h. at_headers st' = at_headers st @ [h] \<and> hd_packed h = packed \<and> rar_valid_path env (hd_name h))"
    "length (at_headers st') \<le> unat (max_entries limits)"
    "at_offset st' \<le> length archive" "at_ended st' \<Longrightarrow> at_offset st' = length archive"
proof -
  obtain mid where mid: "(if rar4 then rar4_block env archive limits st else rar5_block env archive limits st) = Inr mid"
    "check_block archive limits mid = Inr st'"
    using assms by (auto simp: attest_block_def res_bind_eq_Inr)
  then have st': "st' = mid" "length (at_headers mid) \<le> unat (max_entries limits)" "at_offset mid \<le> length archive"
    "at_ended mid \<Longrightarrow> at_offset mid = length archive"
    by (auto simp: check_block_def split: if_splits)
  show ?thesis
  proof (cases rar4)
    case True
    then obtain len bytes flags st1 packed where len: "7 \<le> len"
        "wrap64 (at_total st + len) \<le> unat (max_index_bytes limits)"
      and body: "rar4_body env bytes flags (st\<lparr>at_total := wrap64 (at_total st + len)\<rparr>) = Inr (st1, packed)"
        "advance (at_offset st) len packed st1 = Inr mid"
      using mid(1) by (auto simp: rar4_block_def res_bind_eq_Inr Let_def not_less split: if_splits)
    show ?thesis
      using rar4_body_adds [OF body(1)] advance_Inr [OF body(2)] len st' True
      by (intro that [of len packed]) (auto simp: adds_entry_def)
  next
    case False
    then obtain enc :: "byte list" and n bytes st1 packed where
        len: "at_total st + (n + length enc + 4) \<le> unat (max_index_bytes limits)"
      and body: "rar5_header env bytes (st\<lparr>at_total := at_total st + (n + length enc + 4)\<rparr>) = Inr (st1, packed)"
        "advance (at_offset st) (4 + length enc + n) packed st1 = Inr mid"
      using mid(1) by (auto simp: rar5_block_def res_bind_eq_Inr Let_def not_less split: if_splits)
    show ?thesis
      using rar5_header_adds [OF body(1)] advance_Inr [OF body(2)] len st' False
      by (intro that [of "4 + length enc + n" packed]) (auto simp: adds_entry_def)
  qed
qed

section \<open>Runs\<close>

text \<open>Blocks, each a header length and the length of the data behind it, that lie end to end.\<close>

fun tiles :: "nat \<Rightarrow> (nat \<times> nat) list \<Rightarrow> nat \<Rightarrow> bool" where
  "tiles a [] b \<longleftrightarrow> a = b"
| "tiles a ((len, packed) # blocks) b \<longleftrightarrow> 0 < len \<and> tiles (a + len + packed) blocks b"

lemma tiles_length: "tiles a blocks b \<Longrightarrow> a + sum_list (map fst blocks) + sum_list (map snd blocks) = b"
  by (induction a blocks b rule: tiles.induct) auto

text \<open>A run that ends has gone over blocks up to the end of the archive. Its headers are what it had
  and, for some of the blocks in order, the entry whose data follows.\<close>

lemma attest_loop_tiles:
  assumes "attest_loop env archive limits rar4 st = Inr st'" and "at_ended st'" "\<not> at_ended st"
    and "at_total st \<le> at_offset st"
  shows "\<exists>blocks hs. tiles (at_offset st) blocks (length archive) \<and> at_headers st' = at_headers st @ hs
    \<and> subseq (map (unat \<circ> hd_packed) hs) (map snd blocks) \<and> list_all (\<lambda>h. rar_valid_path env (hd_name h)) hs
    \<and> length (at_headers st') \<le> unat (max_entries limits)
    \<and> at_total st + sum_list (map fst blocks) \<le> unat (max_index_bytes limits)"
  using assms
proof (induction env archive limits rar4 st rule: attest_loop.induct)
  case (1 env archive limits rar4 st)
  have more: "at_offset st < length archive"
    using "1.prems"(1-3) by (auto simp: attest_loop.simps [of env archive limits rar4 st] split: if_splits)
  then obtain mid where mid: "attest_block env archive limits rar4 st = Inr mid"
    and rest: "(if at_ended mid then Inr mid else attest_loop env archive limits rar4 mid) = Inr st'"
    using "1.prems"(1) by (auto simp: attest_loop.simps [of env archive limits rar4 st] split: sum.splits)
  from mid obtain len packed where step: "0 < len" "at_offset mid = at_offset st + len + unat packed"
    "at_offset mid < 2 ^ 64" "at_total mid = (if rar4 then wrap64 (at_total st + len) else at_total st + len)"
    "at_total mid \<le> unat (max_index_bytes limits)"
    "at_headers mid = at_headers st
       \<or> (\<exists>h. at_headers mid = at_headers st @ [h] \<and> hd_packed h = packed \<and> rar_valid_path env (hd_name h))"
    "length (at_headers mid) \<le> unat (max_entries limits)" "at_ended mid \<Longrightarrow> at_offset mid = length archive"
    by (rule attest_block_step) auto
  have "at_total st + len < 2 ^ 64" using step(2,3) "1.prems"(4) by linarith
  then have total: "at_total mid = at_total st + len" using step(4) by (simp add: wrap64_eq)
  obtain hs1 where hs1: "at_headers mid = at_headers st @ hs1" "subseq (map (unat \<circ> hd_packed) hs1) [unat packed]"
    "list_all (\<lambda>h. rar_valid_path env (hd_name h)) hs1"
    using step(6) by (auto intro: that [of "[]"] that [of "[h]" for h])
  show ?case
  proof (cases "at_ended mid")
    case True
    then have "tiles (at_offset st) [(len, unat packed)] (length archive)" "st' = mid"
      using step(1,2) step(8) rest by simp_all
    then show ?thesis
      using hs1 step(5,7) total by (intro exI [of _ "[(len, unat packed)]"] exI [of _ hs1]) (simp add: comp_def)
  next
    case False
    then have loop: "attest_loop env archive limits rar4 mid = Inr st'" using rest by simp
    have "at_total mid \<le> at_offset mid" using total step(2) "1.prems"(4) by linarith
    from "1.IH" [OF more mid False loop "1.prems"(2) False this]
    obtain blocks hs where IH: "tiles (at_offset mid) blocks (length archive)" "at_headers st' = at_headers mid @ hs"
      "subseq (map (unat \<circ> hd_packed) hs) (map snd blocks)" "list_all (\<lambda>h. rar_valid_path env (hd_name h)) hs"
      "length (at_headers st') \<le> unat (max_entries limits)"
      "at_total mid + sum_list (map fst blocks) \<le> unat (max_index_bytes limits)"
      by blast
    have "subseq (map (unat \<circ> hd_packed) (hs1 @ hs)) (map snd ((len, unat packed) # blocks))"
      using list_emb_append_mono [OF hs1(2) IH(3)] by simp
    then show ?thesis
      using IH hs1 step(1,2) total
      by (intro exI [of _ "(len, unat packed) # blocks"] exI [of _ "hs1 @ hs"]) (simp add: comp_def)
  qed
qed

section \<open>Longer archives\<close>

text \<open>A block that is read inside an archive is read the same way when more follows.\<close>

lemma res_bind_mono:
  assumes "res_bind r k = Inr y" and "\<And>x. r = Inr x \<Longrightarrow> r' = Inr x"
    and "\<And>x. r = Inr x \<Longrightarrow> k x = Inr y \<Longrightarrow> k' x = Inr y"
  shows "res_bind r' k' = Inr y"
  using assms by (cases r) auto

lemma read_exact_append: "read_exact env p pos n = Inr bs \<Longrightarrow> read_exact env (p @ x) pos n = Inr bs"
  by (auto simp: read_exact_def split: if_splits)

lemma read_length_append: "read_length env p pos n = Inr bs \<Longrightarrow> read_length env (p @ x) pos n = Inr bs"
proof (induction n arbitrary: pos bs)
  case (Suc n)
  from Suc.prems show ?case unfolding read_length.simps
    by (elim res_bind_mono) (auto simp: read_exact_append Suc.IH split: if_splits elim!: res_bind_mono)
qed simp

lemma rar4_block_append: "rar4_block env p limits st = Inr st' \<Longrightarrow> rar4_block env (p @ x) limits st = Inr st'"
  unfolding rar4_block_def Let_def
  by (elim res_bind_mono read_exact_append) (auto split: if_splits elim!: res_bind_mono read_exact_append)

lemma rar5_block_append: "rar5_block env p limits st = Inr st' \<Longrightarrow> rar5_block env (p @ x) limits st = Inr st'"
  unfolding rar5_block_def Let_def
  by (elim res_bind_mono read_exact_append read_length_append)
     (auto split: if_splits elim!: res_bind_mono read_exact_append)

lemma attest_block_append:
  assumes "attest_block env p limits rar4 st = Inr mid" and "x \<noteq> []"
  shows "attest_block env (p @ x) limits rar4 st = (if at_ended mid then Inl Corrupt else Inr mid)"
proof -
  have raw: "(if rar4 then rar4_block env (p @ x) limits st else rar5_block env (p @ x) limits st) = Inr mid"
    and chk: "check_block p limits mid = Inr mid"
    using assms(1) rar4_block_append rar5_block_append
    by (auto simp: attest_block_def res_bind_eq_Inr check_block_def split: if_splits)
  have "0 < length x" using assms(2) by simp
  then show ?thesis
    using chk by (auto simp: attest_block_def raw check_block_def split: if_splits)
qed

lemma attest_loop_append:
  "attest_loop env p limits rar4 st = Inr st' \<Longrightarrow> at_ended st' \<Longrightarrow> \<not> at_ended st \<Longrightarrow> x \<noteq> [] \<Longrightarrow>
     attest_loop env (p @ x) limits rar4 st = Inl Corrupt"
proof (induction env p limits rar4 st rule: attest_loop.induct)
  case (1 env p limits rar4 st)
  have more: "at_offset st < length p"
    using "1.prems"(1-3) by (auto simp: attest_loop.simps [of env p limits rar4 st] split: if_splits)
  then obtain mid where mid: "attest_block env p limits rar4 st = Inr mid"
    and rest: "(if at_ended mid then Inr mid else attest_loop env p limits rar4 mid) = Inr st'"
    using "1.prems"(1) by (auto simp: attest_loop.simps [of env p limits rar4 st] split: sum.splits)
  have step: "attest_loop env (p @ x) limits rar4 st = (if at_ended mid then Inl Corrupt
      else attest_loop env (p @ x) limits rar4 mid)"
    using attest_block_append [OF mid "1.prems"(4)] more
    by (simp add: attest_loop.simps [of env "p @ x" limits rar4 st])
  show ?case
  proof (cases "at_ended mid")
    case False
    then have "attest_loop env p limits rar4 mid = Inr st'" using rest by simp
    with "1.IH" [OF more mid False] "1.prems"(2,4) False show ?thesis by (simp add: step)
  qed (simp add: step)
qed

section \<open>Unicode names\<close>

text \<open>A name as RAR 4 can always write it: each unit as two bytes under the code 2.\<close>

fun unit_fields :: "nat \<Rightarrow> 16 word list \<Rightarrow> byte list" where
  "unit_fields bits [] = []"
| "unit_fields bits (u # us) =
     (if bits = 0 then [0xAA] else []) @ le_bytes 2 (unat u)
       @ unit_fields (if bits = 0 then 6 else bits - 2) us"

fun to_utf16 :: "str \<Rightarrow> 16 word list" where
  "to_utf16 [] = []"
| "to_utf16 (c # cs) =
     (if c < 0x10000 then [word_of_int c]
      else [word_of_int (0xD800 + (c - 0x10000) div 0x400), word_of_int (0xDC00 + (c - 0x10000) mod 0x400)])
     @ to_utf16 cs"

definition flags_left :: "nat \<Rightarrow> byte" where
  "flags_left bits = (if bits = 6 then 0xA8 else if bits = 4 then 0xA0 else if bits = 2 then 0x80 else 0)"

lemma le_value_two: "le_value (le_bytes 2 (unat (u :: 16 word))) = unat u"
  using unsigned_less [of u, where 'a = nat] by (simp add: le_value_le_bytes)

lemma decode_two_bytes:
  assumes "drop_bit 6 flags = 2" and "encoded = pre @ le_bytes 2 (unat u) @ rest"
  shows "decode_code single encoded high flags units (length pre) = Inr (units @ [u], length pre + 2)"
proof -
  obtain b0 b1 where bs: "le_bytes 2 (unat u) = [b0, b1]" by (simp add: numeral_2_eq_2)
  then have "of_nat (le_value [b0, b1]) = u" using le_value_two [of u] by simp
  then show ?thesis
    unfolding decode_code_def assms(1,2) bs
    by (simp add: Let_def byte_at_def nth_append del: le_value.simps)
qed

lemma decode_units_fields:
  assumes "bits \<in> {0, 2, 4, 6}" and "bits = 0 \<or> flags = flags_left bits" and "length units + length us \<le> 4096"
  shows "decode_units single (pre @ unit_fields bits us) high units (length pre) flags bits = Inr (units @ us)"
  using assms
proof (induction us arbitrary: pre units flags bits)
  case Nil
  then show ?case by (simp add: decode_units.simps)
next
  case (Cons u us)
  define flags' where "flags' = (if bits = 0 then 0xAA else flags)"
  define bits' where "bits' = (if bits = 0 then 6 else bits - 2)"
  define pre' where "pre' = pre @ (if bits = 0 then [0xAA] else [])"
  define encoded where "encoded = pre @ unit_fields bits (u # us)"
  have enc: "encoded = pre' @ le_bytes 2 (unat u) @ unit_fields bits' us"
    by (simp add: encoded_def pre'_def bits'_def)
  have "refill_flags encoded flags bits (length pre) = Inr (flags', if bits = 0 then 8 else bits, length pre')"
    by (simp add: refill_flags_def byte_at_def enc flags'_def pre'_def)
  moreover have code: "drop_bit 6 flags' = 2" "bits' = 0 \<or> push_bit 2 flags' = flags_left bits'"
    using Cons.prems(1,2) by (auto simp: flags'_def bits'_def flags_left_def)
  moreover have "length pre < length encoded" by (simp add: enc pre'_def)
  ultimately have "decode_units single encoded high units (length pre) flags bits
      = decode_units single encoded high (units @ [u]) (length pre' + 2) (push_bit 2 flags') bits'"
    using decode_two_bytes [OF code(1) enc, of single high units] Cons.prems(3)
    by (subst decode_units.simps) (simp add: bits'_def)
  also have "encoded = (pre' @ le_bytes 2 (unat u)) @ unit_fields bits' us" by (simp add: enc)
  also have "length pre' + 2 = length (pre' @ le_bytes 2 (unat u))" by simp
  also have "decode_units single ((pre' @ le_bytes 2 (unat u)) @ unit_fields bits' us) high (units @ [u])
      (length (pre' @ le_bytes 2 (unat u))) (push_bit 2 flags') bits' = Inr ((units @ [u]) @ us)"
    by (rule Cons.IH) (use Cons.prems code in \<open>auto simp: bits'_def\<close>)
  finally show ?case using enc by (simp add: encoded_def [symmetric] del: unit_fields.simps)
qed

lemma uint_half: "0 \<le> x \<Longrightarrow> x < 65536 \<Longrightarrow> uint (word_of_int x :: 16 word) = x"
  by (simp add: uint_word_of_int take_bit_int_eq_self)

lemma from_utf16_to_utf16: "list_all is_scalar s \<Longrightarrow> from_utf16 (to_utf16 s) = Some s"
proof (induction s)
  case (Cons c s)
  have c: "0 \<le> c" "c < 1114112" "\<not> (55296 \<le> c \<and> c < 57344)" using Cons.prems by (auto simp: is_scalar_def)
  show ?case
  proof (cases "c < 65536")
    case True
    then have "(word_of_int c :: 16 word) < 0xD800 \<or> 0xE000 \<le> (word_of_int c :: 16 word)"
      using c uint_half [OF c(1) True] by (auto simp: word_less_def word_le_def)
    then show ?thesis using Cons True c uint_half [OF c(1) True] by simp
  next
    case False
    define h where "h = 55296 + (c - 65536) div 1024"
    define l where "l = 56320 + (c - 65536) mod 1024"
    have "(c - 65536) div 1024 < 1024" "0 \<le> (c - 65536) div 1024" using c False by linarith+
    then have h: "55296 \<le> h" "h < 56320" by (simp_all add: h_def)
    have "0 \<le> (c - 65536) mod 1024" "(c - 65536) mod 1024 < 1024" by simp_all
    then have l: "56320 \<le> l" "l < 57344" by (simp_all add: l_def)
    have words: "uint (word_of_int h :: 16 word) = h" "uint (word_of_int l :: 16 word) = l"
      using h l by (simp_all add: uint_half)
    have "65536 + (h - 55296) * 1024 + (l - 56320) = c" by (simp add: h_def l_def)
    moreover have "\<not> (word_of_int h :: 16 word) < 0xD800" "\<not> 0xE000 \<le> (word_of_int h :: 16 word)"
      "\<not> 0xDC00 \<le> (word_of_int h :: 16 word)" "0xDC00 \<le> (word_of_int l :: 16 word)" "(word_of_int l :: 16 word) < 0xE000"
      using h l words by (simp_all add: word_less_def word_le_def)
    moreover have "to_utf16 (c # s) = word_of_int h # word_of_int l # to_utf16 s"
      using False by (simp add: h_def l_def)
    ultimately show ?thesis using Cons words by simp
  qed
qed simp

section \<open>Properties\<close>

text \<open>An archive of one file of five bytes, for a checksum that is always zero.\<close>

definition sample_rar_env :: rar_env where
  "sample_rar_env = \<lparr>rar_crc32 = (\<lambda>_. 0), rar_valid_path = (\<lambda>name. name \<noteq> []), rar_fault = (\<lambda>_. False)\<rparr>"

definition sample_limits :: rar_limits where
  "sample_limits = \<lparr>max_entries = 4, max_index_bytes = 64\<rparr>"

definition sample_rar :: "byte list" where
  "sample_rar = RAR5_SIGNATURE @ [0, 0, 0, 0, 3, 1, 0, 0] @ [0, 0, 0, 0, 10, 2, 2, 5, 0, 5, 32, 0, 0, 1, 97]
     @ [1, 2, 3, 4, 5] @ [0, 0, 0, 0, 3, 5, 0, 0]"

definition sample_header :: header where
  "sample_header = \<lparr>hd_name = lit ''a'', hd_size = 5, hd_packed = 5, hd_host = 2, hd_attributes = 32,
     hd_directory = False\<rparr>"

lemma sample_rar_accepted: "attest sample_rar_env sample_rar sample_limits = Inr [sample_header]"
  by code_simp

lemma attest_run:
  assumes "attest env archive limits = Inr headers"
  obtains signature rar4 st where "read_exact env archive 0 8 = Inr signature" "is_rar4 signature = Inr rar4"
    "attest_loop env archive limits rar4 (attest_start (if rar4 then 7 else 8)) = Inr st"
    "at_ended st" "headers = at_headers st"
proof -
  obtain signature rar4 st where "read_exact env archive 0 8 = Inr signature" "is_rar4 signature = Inr rar4"
    "attest_loop env archive limits rar4 (attest_start (if rar4 then 7 else 8)) = Inr st"
    "(if at_ended st then Inr (at_headers st) else Inl Corrupt) = Inr headers"
    using assms unfolding attest_def res_bind_eq_Inr by blast
  then show ?thesis using that by (auto split: if_splits)
qed



text \<open>C25. An accepted archive cannot be continued: with anything appended it is refused as corrupt. Read the
  other way, no proper beginning of an accepted archive is accepted, so a truncated download never
  passes for a complete archive.\<close>

theorem attest_refuses_trailing_data:
  assumes "attest env archive limits = Inr headers" and "trailing \<noteq> []"
  shows "attest env (archive @ trailing) limits = Inl Corrupt"
proof -
  obtain signature rar4 st where sig: "read_exact env archive 0 8 = Inr signature" "is_rar4 signature = Inr rar4"
    and run: "attest_loop env archive limits rar4 (attest_start (if rar4 then 7 else 8)) = Inr st" "at_ended st"
    using attest_run [OF assms(1)] .
  have "\<not> at_ended (attest_start (if rar4 then 7 else 8))" by (simp add: attest_start_def)
  from attest_loop_append [OF run this assms(2)] show ?thesis
    using read_exact_append [OF sig(1)] sig(2) by (simp add: attest_def)
qed

theorem attest_refuses_trailing_data_witness:
  "attest sample_rar_env (sample_rar @ [0]) sample_limits = Inl Corrupt"
  by (rule attest_refuses_trailing_data [OF sample_rar_accepted]) simp

text \<open>Variable-length integers are read exactly: every 64-bit number is read back from its encoding, and
  whatever bytes are accepted, the value is the sum of their seven-bit digits, with no digit lost to the
  width of the word, and at most ten bytes are consumed.\<close>

theorem var_reads_exactly:
  "var (leb_encode (unat x) @ rest) 0 = Inr (x, length (leb_encode (unat x)))
   \<and> (var b c = Inr (y, c') \<longrightarrow>
       unat y = leb_value (take (c' - c) (drop c b)) \<and> c < c' \<and> c' \<le> length b \<and> c' - c \<le> 10)"
  using var_encode [of x rest] var_value [of b c y c'] var_advances [of b c y c'] by blast

theorem var_reads_exactly_witness:
  "var (leb_encode (unat (300 :: 64 word)) @ [7]) 0 = Inr (300, length (leb_encode (unat (300 :: 64 word))))
   \<and> unat (16384 :: 64 word) = leb_value (take (4 - 1) (drop 1 [9, 128, 128, 1]))"
proof -
  have "var [9, 128, 128, 1] 1 = Inr (16384, 4)" by code_simp
  then show ?thesis using var_reads_exactly [of 300 "[7]" "[9, 128, 128, 1]" 1 16384 4] by blast
qed

text \<open>A Unicode name written unit by unit is decoded to exactly that name, with the separators of the
  format turned into slashes, whatever stands in its single-byte form and as its high byte.\<close>

theorem unicode_name_decodes:
  assumes "list_all is_scalar name" and "0 \<notin> set single"
    and "length (single @ [0, high] @ unit_fields 0 (to_utf16 name)) \<le> 4096"
  shows "unicode_name env (single @ [0, high] @ unit_fields 0 (to_utf16 name)) =
    (if rar_valid_path env (fwd name) then Inr (fwd name) else Inl Unsupported)"
proof -
  have "length us \<le> length (unit_fields bits us)" for bits us
    by (induction bits us rule: unit_fields.induct) auto
  from this [of "to_utf16 name" 0] have "length (to_utf16 name) \<le> 4096" using assms(3) by simp
  then have "decode_units single ([high] @ unit_fields 0 (to_utf16 name)) (push_bit 8 (ucast high)) [] (length [high]) 0 0
      = Inr ([] @ to_utf16 name)"
    by (intro decode_units_fields) simp_all
  moreover have "takeWhile (\<lambda>b. b \<noteq> 0) (single @ [0, high] @ unit_fields 0 (to_utf16 name)) = single"
    using assms(2) by (subst takeWhile_append2) auto
  ultimately show ?thesis
    using assms(1,3) by (simp add: unicode_name_def from_utf16_to_utf16 check_name_def)
qed

theorem unicode_name_decodes_witness:
  "unicode_name sample_rar_env ([63, 63] @ [0, 0x30] @ unit_fields 0 (to_utf16 [0x3042, backslash, 0x1F600]))
     = (if rar_valid_path sample_rar_env (fwd [0x3042, backslash, 0x1F600])
        then Inr (fwd [0x3042, backslash, 0x1F600]) else Inl Unsupported)"
proof (rule unicode_name_decodes)
  show "length ([63, 63] @ [0, 0x30] @ unit_fields 0 (to_utf16 [0x3042, backslash, 0x1F600])) \<le> 4096" by simp
qed (simp_all add: is_scalar_def)

end
