(* ===== verification/Import_Frames.thy ===== *)
theory Import_Frames
  imports Rar_Headers
begin

text \<open>
  What crosses the pipe between the archive import worker and its client: the inventory of an archive and
  the frames of \<^verbatim>\<open>crates/archive-import/src/protocol.rs\<close>. A worker computation passes the bytes
  written so far along; \<^verbatim>\<open>emit\<close> of \<^verbatim>\<open>worker.rs\<close> writes the frames of one entry. The
  reader of an entry is the list of what successive reads return, and which writes fail is a parameter.
\<close>

section \<open>Data\<close>

text \<open>The types of the unboxer crate that cross the pipe.\<close>

datatype container = ZipContainer | SevenZContainer | RarContainer | UnknownContainer

datatype object_kind = FileObject | DirectoryObject | LinkObject | SpecialObject

record packed_block =
  packed_bytes :: "64 word"
  unpacked_bytes :: "64 word"

datatype entry_name = Unicode str | LegacyZip "byte list"

record physical_entry =
  pe_index :: nat
  pe_name :: entry_name
  pe_kind :: object_kind
  pe_size :: "64 word"
  pe_block :: "nat option"
  pe_encrypted :: bool
  pe_method :: str
  pe_method_supported :: bool
  pe_unix_mode :: "32 word option"

record inventory =
  inv_container :: container
  inv_entries :: "physical_entry list"
  inv_blocks :: "packed_block list"

type_synonym reads = "(unit + byte list) list"

type_synonym frame = "byte \<times> byte list"

record import_limits =
  il_max_entries :: "64 word"
  il_max_index_bytes :: "64 word"
  il_max_archive_bytes :: "64 word"

section \<open>Frames\<close>

abbreviation READY :: byte where "READY \<equiv> 1"
abbreviation OPEN :: byte where "OPEN \<equiv> 2"
abbreviation ARCHIVE :: byte where "ARCHIVE \<equiv> 3"
abbreviation BLOCK :: byte where "BLOCK \<equiv> 4"
abbreviation ENTRY :: byte where "ENTRY \<equiv> 5"
abbreviation INVENTORY_END :: byte where "INVENTORY_END \<equiv> 6"
abbreviation DECODE :: byte where "DECODE \<equiv> 7"
abbreviation BEGIN :: byte where "BEGIN \<equiv> 8"
abbreviation DATA :: byte where "DATA \<equiv> 9"
abbreviation END :: byte where "END \<equiv> 10"
abbreviation COMPLETE :: byte where "COMPLETE \<equiv> 11"
abbreviation FAILURE :: byte where "FAILURE \<equiv> 12"
abbreviation HEARTBEAT :: byte where "HEARTBEAT \<equiv> 13"

definition MAX_FRAME :: nat where
  "MAX_FRAME = 65536"

definition over_frame :: "nat \<Rightarrow> bool" where
  "over_frame n \<longleftrightarrow> int n > 65536"

lemma over_frame_iff: "over_frame n \<longleftrightarrow> MAX_FRAME < n"
  by (auto simp: over_frame_def MAX_FRAME_def)

definition encode_frame :: "frame \<Rightarrow> byte list" where
  "encode_frame f = fst f # le_bytes 4 (length (snd f)) @ snd f"

text \<open>Writing passes the bytes written so far along. A write that fails can leave part of the frame.\<close>

type_synonym 'a writes = "byte list \<Rightarrow> (import_error + 'a) \<times> byte list"

definition wr_bind :: "'a writes \<Rightarrow> ('a \<Rightarrow> 'b writes) \<Rightarrow> 'b writes" where
  "wr_bind m k out = (case m out of (Inl e, out') \<Rightarrow> (Inl e, out') | (Inr x, out') \<Rightarrow> k x out')"

definition wr_lift :: "import_error + 'a \<Rightarrow> 'a writes" where
  "wr_lift r out = (r, out)"

type_synonym write_faults = "nat \<Rightarrow> nat option"

definition frame :: "write_faults \<Rightarrow> byte \<Rightarrow> byte list \<Rightarrow> unit writes" where
  "frame faults tag bytes out =
     (if over_frame (length bytes) then (Inl Limit, out)
      else case faults (length out) of
        Some k \<Rightarrow> (Inl Io, out @ take k (encode_frame (tag, bytes)))
      | None \<Rightarrow> (Inr (), out @ encode_frame (tag, bytes)))"

definition json :: "write_faults \<Rightarrow> byte \<Rightarrow> byte list option \<Rightarrow> unit writes" where
  "json faults tag printed =
     (case printed of None \<Rightarrow> wr_lift (Inl Corrupt) | Some bytes \<Rightarrow> frame faults tag bytes)"

definition read_frame :: "byte list \<Rightarrow> import_error + frame \<times> byte list" where
  "read_frame stream =
     (if length stream < 5 then Inl Io
      else
        let len = le_value (take 4 (drop 1 stream)) in
        if over_frame len then Inl Limit
        else if length (drop 5 stream) < len then Inl Io
        else Inr ((stream ! 0, take len (drop 5 stream)), drop (5 + len) stream))"

definition index_of :: "byte list \<Rightarrow> import_error + nat" where
  "index_of bytes = (if length bytes = 8 then Inr (le_value bytes) else Inl Corrupt)"

section \<open>The frames of an entry\<close>

text \<open>\<^verbatim>\<open>emit\<close>: the loop over the reads, then the tests on the total.\<close>

fun emit_data :: "write_faults \<Rightarrow> 64 word \<Rightarrow> nat \<Rightarrow> reads \<Rightarrow> nat writes" where
  "emit_data faults declared sent [] = wr_lift (Inr sent)"
| "emit_data faults declared sent (Inl _ # rs) = wr_lift (Inl Corrupt)"
| "emit_data faults declared sent (Inr chunk # rs) =
     (if chunk = [] then wr_lift (Inr sent)
      else
        let sent' = sent + length chunk in
        if over64 sent' then wr_lift (Inl Limit)
        else if sent' > unat declared then wr_lift (Inl Corrupt)
        else wr_bind (frame faults DATA chunk) (\<lambda>_. emit_data faults declared sent' rs))"

definition emit :: "write_faults \<Rightarrow> nat \<Rightarrow> 64 word \<Rightarrow> reads \<Rightarrow> unit writes" where
  "emit faults idx declared reads =
     wr_bind (frame faults BEGIN (le_bytes 8 idx)) (\<lambda>_.
     wr_bind (emit_data faults declared 0 reads) (\<lambda>sent.
     if sent \<noteq> unat declared then wr_lift (Inl Corrupt)
     else frame faults END (le_bytes 8 idx)))"

definition entry_frames :: "nat \<Rightarrow> byte list list \<Rightarrow> frame list" where
  "entry_frames i chunks = (BEGIN, le_bytes 8 i) # map (Pair DATA) chunks @ [(END, le_bytes 8 i)]"

definition short_frame :: "frame \<Rightarrow> bool" where
  "short_frame f \<longleftrightarrow> \<not> over_frame (length (snd f))"

text \<open>The bytes a worker computation adds to its output are whole frames.\<close>

definition emits :: "byte list \<Rightarrow> byte list \<Rightarrow> frame list \<Rightarrow> bool" where
  "emits out out' fs \<longleftrightarrow> out' = out @ concat (map encode_frame fs) \<and> list_all short_frame fs"

lemma emits_refl: "emits out out []"
  by (simp add: emits_def)

lemma emits_trans: "emits a b fs \<Longrightarrow> emits b c gs \<Longrightarrow> emits a c (fs @ gs)"
  by (simp add: emits_def)

lemma wr_bind_Inr: "wr_bind m k out = (Inr y, out') \<longleftrightarrow> (\<exists>x mid. m out = (Inr x, mid) \<and> k x mid = (Inr y, out'))"
  by (auto simp: wr_bind_def split: prod.splits sum.splits)

lemma wr_lift_Inr: "wr_lift r out = (Inr y, out') \<longleftrightarrow> r = Inr y \<and> out' = out"
  by (auto simp: wr_lift_def)

lemma frame_Inr: "frame faults tag bytes out = (Inr u, out') \<Longrightarrow> emits out out' [(tag, bytes)]"
  by (auto simp: frame_def emits_def short_frame_def split: if_splits option.splits)

fun stream_bytes :: "reads \<Rightarrow> byte list" where
  "stream_bytes [] = []"
| "stream_bytes (Inl _ # rs) = []"
| "stream_bytes (Inr chunk # rs) = (if chunk = [] then [] else chunk @ stream_bytes rs)"

lemma emit_data_Inr:
  "emit_data faults declared sent rs out = (Inr sent', out') \<Longrightarrow>
   \<exists>chunks. emits out out' (map (Pair DATA) chunks) \<and> [] \<notin> set chunks
     \<and> concat chunks = stream_bytes rs \<and> sent' = sent + length (stream_bytes rs)"
proof (induction faults declared sent rs arbitrary: out rule: emit_data.induct)
  case (1 faults declared sent)
  then show ?case using emits_refl by (intro exI [of _ "[]"]) (simp add: wr_lift_Inr)
next
  case (3 faults declared sent chunk rs)
  show ?case
  proof (cases "chunk = []")
    case True
    then show ?thesis using "3.prems" emits_refl by (intro exI [of _ "[]"]) (simp add: wr_lift_Inr)
  next
    case False
    then obtain mid where mid: "frame faults DATA chunk out = (Inr (), mid)"
      and rest: "emit_data faults declared (sent + length chunk) rs mid = (Inr sent', out')"
      and ok: "\<not> over64 (sent + length chunk)" "\<not> sent + length chunk > unat declared"
      using "3.prems" by (auto simp: Let_def wr_lift_Inr wr_bind_Inr split: if_splits)
    from "3.IH" [OF False refl ok rest] obtain chunks where
      "emits mid out' (map (Pair DATA) chunks)" "[] \<notin> set chunks" "concat chunks = stream_bytes rs"
      "sent' = sent + length chunk + length (stream_bytes rs)" by blast
    then show ?thesis
      using emits_trans [OF frame_Inr [OF mid]] False by (intro exI [of _ "chunk # chunks"]) auto
  qed
qed (simp add: wr_lift_Inr)

lemma emit_Inr:
  assumes "emit faults idx declared rs out = (Inr u, out')"
  shows "\<exists>chunks. emits out out' (entry_frames idx chunks) \<and> [] \<notin> set chunks \<and> concat chunks = stream_bytes rs
    \<and> length (stream_bytes rs) = unat declared"
proof -
  obtain a b where one: "frame faults BEGIN (le_bytes 8 idx) out = (Inr (), a)"
    "emit_data faults declared 0 rs a = (Inr (unat declared), b)" "frame faults END (le_bytes 8 idx) b = (Inr (), out')"
    using assms by (auto simp: emit_def wr_bind_Inr wr_lift_Inr split: if_splits)
  from emit_data_Inr [OF one(2)] obtain chunks where c: "emits a b (map (Pair DATA) chunks)" "[] \<notin> set chunks"
    "concat chunks = stream_bytes rs" "unat declared = length (stream_bytes rs)" by auto
  have "emits out out' (entry_frames idx chunks)"
    using emits_trans [OF frame_Inr [OF one(1)] emits_trans [OF c(1) frame_Inr [OF one(3)]]]
    by (simp add: entry_frames_def)
  then show ?thesis using c by auto
qed

end
