(* ===== verification/Import_Source.thy ===== *)
theory Import_Source
  imports Import_Frames
begin

text \<open>
  \<^verbatim>\<open>crates/archive-import/src/worker/source.rs\<close> as it is built on Unix: the archive that is read, its
  length and modification time, and its digest. Nobody can be kept from writing to the file, so what each
  look at it finds is a parameter: stage 0 is the opening, stage \<open>j\<close> the \<open>j\<close>-th verification; each
  stage takes the metadata twice and reads the file once from the start. A seek that fails shows as a read
  that fails.
\<close>

record file_meta =
  fm_is_file :: bool
  fm_len :: "64 word"
  fm_modified :: "nat option"     \<comment> \<open>None: the time cannot be read\<close>

record source_env =
  so_open :: bool
  so_first_meta :: "nat \<Rightarrow> file_meta option"
  so_pass :: "nat \<Rightarrow> reads"
  so_second_meta :: "nat \<Rightarrow> file_meta option"
  so_magic :: "unit + byte list"
  so_sha256 :: "byte list \<Rightarrow> byte list"

record source =
  src_digest :: "byte list"
  src_length :: "64 word"
  src_modified :: nat

definition check_metadata :: "source \<Rightarrow> file_meta option \<Rightarrow> import_error + unit" where
  "check_metadata src look =
     (case look of
        None \<Rightarrow> Inl Io
      | Some m \<Rightarrow>
          if fm_len m \<noteq> src_length src then Inl SourceChanged
          else case fm_modified m of
            None \<Rightarrow> Inl Io
          | Some t \<Rightarrow> if t \<noteq> src_modified src then Inl SourceChanged else Inr ())"

text \<open>The read loop of \<^verbatim>\<open>hash\<close>: the bytes given to the digest, when they are as many as the length.\<close>

fun hash_reads :: "64 word \<Rightarrow> byte list \<Rightarrow> reads \<Rightarrow> import_error + byte list" where
  "hash_reads len seen [] = Inr seen"
| "hash_reads len seen (Inl _ # rs) = Inl Io"
| "hash_reads len seen (Inr chunk # rs) =
     (if chunk = [] then Inr seen
      else if length seen + length chunk > unat len then Inl SourceChanged
      else hash_reads len (seen @ chunk) rs)"

definition source_hash :: "source_env \<Rightarrow> 64 word \<Rightarrow> nat \<Rightarrow> import_error + byte list" where
  "source_hash env len stage =
     res_bind (hash_reads len [] (so_pass env stage)) (\<lambda>bytes.
       if length bytes \<noteq> unat len then Inl SourceChanged else Inr (so_sha256 env bytes))"

definition source_open :: "source_env \<Rightarrow> 64 word \<Rightarrow> import_error + source" where
  "source_open env limit =
     (if \<not> so_open env then Inl Io
      else case so_first_meta env 0 of
        None \<Rightarrow> Inl Io
      | Some m \<Rightarrow>
          if \<not> fm_is_file m then Inl Unsupported
          else if fm_len m > limit then Inl Limit
          else case fm_modified m of
            None \<Rightarrow> Inl Io
          | Some t \<Rightarrow>
              res_bind (source_hash env (fm_len m) 0) (\<lambda>digest.
                let src = \<lparr>src_digest = digest, src_length = fm_len m, src_modified = t\<rparr> in
                res_bind (check_metadata src (so_second_meta env 0)) (\<lambda>_. Inr src)))"

definition source_magic :: "source_env \<Rightarrow> import_error + byte list" where
  "source_magic env = (case so_magic env of Inl _ \<Rightarrow> Inl Io | Inr bytes \<Rightarrow> Inr (take 8 bytes))"

definition source_verify :: "source_env \<Rightarrow> source \<Rightarrow> nat \<Rightarrow> import_error + unit" where
  "source_verify env src stage =
     res_bind (check_metadata src (so_first_meta env stage)) (\<lambda>_.
     res_bind (source_hash env (src_length src) stage) (\<lambda>digest.
       if digest \<noteq> src_digest src then Inl SourceChanged
       else check_metadata src (so_second_meta env stage)))"

section \<open>What a verification shows\<close>

lemma hash_reads_Inr:
  "hash_reads len seen rs = Inr bytes \<longleftrightarrow>
     Inl () \<notin> set (takeWhile (\<lambda>r. r \<noteq> Inr []) rs) \<and> bytes = seen @ stream_bytes rs
     \<and> (stream_bytes rs = [] \<or> length bytes \<le> unat len)"
proof (induction len seen rs rule: hash_reads.induct)
  case (3 len seen chunk rs)
  then show ?case
    by (cases "stream_bytes rs = []") auto
qed auto

lemma source_hash_Inr:
  "source_hash env len stage = Inr digest \<Longrightarrow>
     digest = so_sha256 env (stream_bytes (so_pass env stage)) \<and> length (stream_bytes (so_pass env stage)) = unat len"
  by (auto simp: source_hash_def hash_reads_Inr res_simps split: if_splits)

lemma source_open_Inr:
  assumes "source_open env limit = Inr src"
  shows "src_digest src = so_sha256 env (stream_bytes (so_pass env 0))"
    and "length (stream_bytes (so_pass env 0)) = unat (src_length src)" and "src_length src \<le> limit"
  using assms
  by (auto simp: source_open_def Let_def res_simps not_less dest: source_hash_Inr split: if_splits option.splits)

lemma source_verify_Inr:
  assumes "source_verify env src stage = Inr u"
  shows "src_digest src = so_sha256 env (stream_bytes (so_pass env stage))"
    and "length (stream_bytes (so_pass env stage)) = unat (src_length src)"
  using assms by (auto simp: source_verify_def res_simps dest: source_hash_Inr split: if_splits)

end
