(* ===== verification/Import_Backends.thy ===== *)
theory Import_Backends
  imports Import_Source
begin

unbundle bit_operations_syntax

text \<open>
  The three backends of the archive import worker: \<^verbatim>\<open>zip.rs\<close>, \<^verbatim>\<open>sevenz.rs\<close> and
  \<^verbatim>\<open>rar.rs\<close> under \<^verbatim>\<open>crates/archive-import/src/worker\<close>. Each lists an archive as an
  inventory and then decodes it as frames.

  The libraries that parse and decompress are parameters, by what they return: the headers and streams of
  the unboxer crate's ZIP reader, the metadata and block decoder of sevenz-rust2, and the steps of the
  UnRAR library, whose flags and codes appear as booleans and constructors; UnRAR calls back only while an
  entry is processed and stops at the first refusal.
\<close>

section \<open>Shared\<close>

text \<open>The errors of the unboxer crate, as far as they are told apart.\<close>

datatype unboxer_error =
    TooManyEntries | TooLarge | ArchiveTooLarge | RatioExceeded | DeclaredSizeExceeded | IndexTooLarge
  | OtherError

definition limit_or :: "unboxer_error \<Rightarrow> import_error \<Rightarrow> import_error" where
  "limit_or e fallback = (if e = OtherError then fallback else Limit)"

text \<open>The file type in a Unix mode.\<close>

definition link_mode :: "32 word \<Rightarrow> bool" where
  "link_mode m \<longleftrightarrow> m AND 0xF000 = 0xA000"

definition special_mode :: "32 word \<Rightarrow> bool" where
  "special_mode m \<longleftrightarrow> m AND 0xF000 \<notin> {0, 0x4000, 0x8000}"

definition is_some_and :: "'a option \<Rightarrow> ('a \<Rightarrow> bool) \<Rightarrow> bool" where
  "is_some_and x p = (case x of None \<Rightarrow> False | Some y \<Rightarrow> p y)"

definition empty_inventory :: "container \<Rightarrow> inventory" where
  "empty_inventory kind = \<lparr>inv_container = kind, inv_entries = [], inv_blocks = []\<rparr>"

section \<open>ZIP\<close>

record zip_header =
  zh_raw_name :: "byte list"
  zh_is_link :: bool
  zh_is_dir :: bool
  zh_unix_mode :: "32 word option"
  zh_compressed_size :: "64 word"
  zh_size :: "64 word"
  zh_encrypted :: bool
  zh_method :: str
  zh_method_supported :: bool

record zip_reader =
  zr_headers :: "zip_header option list"
  zr_entry :: "nat \<Rightarrow> reads option"

record zip_archive =
  za_reader :: zip_reader
  za_inventory :: inventory

definition zip_kind :: "zip_header \<Rightarrow> object_kind" where
  "zip_kind h =
     (if zh_is_link h then LinkObject
      else if is_some_and (zh_unix_mode h) special_mode then SpecialObject
      else if zh_is_dir h then DirectoryObject
      else FileObject)"

definition zip_entry :: "nat \<Rightarrow> nat \<Rightarrow> zip_header \<Rightarrow> physical_entry" where
  "zip_entry index blocks h =
     \<lparr>pe_index = index, pe_name = LegacyZip (zh_raw_name h), pe_kind = zip_kind h, pe_size = zh_size h,
      pe_block = (if zh_is_dir h then None else Some blocks), pe_encrypted = zh_encrypted h,
      pe_method = lit ''ZIP:'' @ zh_method h, pe_method_supported = zh_method_supported h,
      pe_unix_mode = zh_unix_mode h\<rparr>"

fun zip_list :: "nat \<Rightarrow> zip_header option list \<Rightarrow> inventory \<Rightarrow> import_error + inventory" where
  "zip_list index [] listing = Inr listing"
| "zip_list index (None # hs) listing = Inl Corrupt"
| "zip_list index (Some h # hs) listing =
     zip_list (Suc index) hs
       (listing\<lparr>inv_entries := inv_entries listing @ [zip_entry index (length (inv_blocks listing)) h],
          inv_blocks := inv_blocks listing @
            (if zh_is_dir h then [] else [\<lparr>packed_bytes = zh_compressed_size h, unpacked_bytes = zh_size h\<rparr>])\<rparr>)"

definition zip_open :: "unboxer_error + zip_reader \<Rightarrow> import_error + zip_archive" where
  "zip_open opened =
     (case opened of
        Inl e \<Rightarrow> Inl (limit_or e Corrupt)
      | Inr reader \<Rightarrow>
          res_bind (zip_list 0 (zr_headers reader) (empty_inventory ZipContainer)) (\<lambda>listing.
            Inr \<lparr>za_reader = reader, za_inventory = listing\<rparr>))"

fun zip_emit :: "write_faults \<Rightarrow> zip_reader \<Rightarrow> physical_entry list \<Rightarrow> unit writes" where
  "zip_emit faults reader [] = wr_lift (Inr ())"
| "zip_emit faults reader (e # es) =
     (case zr_entry reader (pe_index e) of
        None \<Rightarrow> wr_lift (Inl Corrupt)
      | Some stream \<Rightarrow>
          wr_bind (emit faults (pe_index e) (pe_size e) stream) (\<lambda>_. zip_emit faults reader es))"

definition zip_decode :: "write_faults \<Rightarrow> zip_archive \<Rightarrow> unit writes" where
  "zip_decode faults a = zip_emit faults (za_reader a) (inv_entries (za_inventory a))"

section \<open>7z\<close>

record sevenz_file =
  sf_name :: str
  sf_has_stream :: bool
  sf_is_directory :: bool
  sf_is_anti_item :: bool
  sf_windows_attributes :: "32 word option"    \<comment> \<open>None when there are none\<close>
  sf_size :: "64 word"

record sevenz_block =
  sb_coders :: "byte list list"     \<comment> \<open>the method id of each coder\<close>
  sb_unpack_size :: "64 word"

record sevenz_metadata =
  sm_files :: "sevenz_file list"
  sm_blocks :: "sevenz_block list"
  sm_pack_sizes :: "64 word list"
  sm_first_packs :: "nat list"
  sm_file_block :: "nat option list"
  sm_first_files :: "nat list"

record sevenz_env =
  se_entry_count :: "sevenz_metadata \<Rightarrow> nat \<Rightarrow> nat"
  se_block_entries :: "sevenz_metadata \<Rightarrow> nat \<Rightarrow> (64 word \<times> reads) list \<times> bool"
    \<comment> \<open>what the decoder of a block hands out, and whether it ends with an error\<close>
  se_method_name :: "byte list \<Rightarrow> str option"
  se_aes_id :: "byte list"

record sevenz_archive =
  sa_metadata :: sevenz_metadata
  sa_physical :: "nat list"
  sa_inventory :: inventory

definition supported_method :: "byte list \<Rightarrow> bool" where
  "supported_method c \<longleftrightarrow> c \<in> {[0], [0x21], [3], [3, 1, 1], [3, 3, 1, 3], [3, 3, 1, 0x1B], [3, 3, 2, 5], [3, 3, 4, 1],
     [3, 3, 5, 1], [3, 3, 7, 1], [3, 3, 8, 5], [3, 2], [0xA], [0xB], [4, 2, 2], [3, 4, 1], [4, 1, 8]}"

fun checked_sum :: "nat \<Rightarrow> 64 word list \<Rightarrow> nat option" where
  "checked_sum n [] = Some n"
| "checked_sum n (x # xs) = (if over64 (n + unat x) then None else checked_sum (n + unat x) xs)"

definition slice :: "nat \<Rightarrow> nat \<Rightarrow> 'a list \<Rightarrow> 'a list option" where
  "slice start stop xs = (if start \<le> stop \<and> stop \<le> length xs then Some (take (stop - start) (drop start xs)) else None)"

definition nth_or :: "'a list \<Rightarrow> nat \<Rightarrow> 'a \<Rightarrow> 'a" where
  "nth_or xs i d = (if i < length xs then xs ! i else d)"

definition sevenz_packed :: "sevenz_metadata \<Rightarrow> nat \<Rightarrow> import_error + packed_block" where
  "sevenz_packed m index =
     res_bind (ok_or (slice (sm_first_packs m ! index)
         (nth_or (sm_first_packs m) (Suc index) (length (sm_pack_sizes m))) (sm_pack_sizes m)) Corrupt) (\<lambda>sizes.
     res_bind (ok_or (checked_sum 0 sizes) Corrupt) (\<lambda>packed.
       Inr \<lparr>packed_bytes = of_nat packed, unpacked_bytes = sb_unpack_size (sm_blocks m ! index)\<rparr>))"

definition sevenz_mode :: "sevenz_file \<Rightarrow> 32 word option" where
  "sevenz_mode f = (case sf_windows_attributes f of
      None \<Rightarrow> None
    | Some a \<Rightarrow> let m = drop_bit 16 a in if m \<noteq> 0 then Some m else None)"

definition sevenz_kind :: "sevenz_file \<Rightarrow> object_kind" where
  "sevenz_kind f =
     (if sf_is_anti_item f then SpecialObject
      else if is_some_and (sf_windows_attributes f) (\<lambda>a. a AND 0x400 \<noteq> 0) \<or> is_some_and (sevenz_mode f) link_mode
        then LinkObject
      else if is_some_and (sevenz_mode f) special_mode then SpecialObject
      else if sf_is_directory f then DirectoryObject
      else FileObject)"

definition coder_name :: "sevenz_env \<Rightarrow> byte list \<Rightarrow> str" where
  "coder_name env c = (case se_method_name env c of Some n \<Rightarrow> n | None \<Rightarrow> lit ''unknown'')"

definition sevenz_entry :: "sevenz_env \<Rightarrow> sevenz_metadata \<Rightarrow> nat \<Rightarrow> import_error + physical_entry" where
  "sevenz_entry env m index =
     (let f = sm_files m ! index; block = (if sf_has_stream f then sm_file_block m ! index else None) in
      res_bind (case block of
          None \<Rightarrow> Inr []
        | Some b \<Rightarrow> if b < length (sm_blocks m) then Inr (sb_coders (sm_blocks m ! b)) else Inl Corrupt) (\<lambda>coders.
        Inr \<lparr>pe_index = index, pe_name = Unicode (sf_name f), pe_kind = sevenz_kind f, pe_size = sf_size f,
          pe_block = block, pe_encrypted = list_ex (\<lambda>c. c = se_aes_id env) coders,
          pe_method = join_on 43 (map (coder_name env) coders),
          pe_method_supported = list_all supported_method coders, pe_unix_mode = sevenz_mode f\<rparr>))"

text \<open>The loop that keeps the files with data: the first such file of each block, the indices of the files
  kept and the files.\<close>

record compaction =
  cp_starts :: "nat option list"
  cp_physical :: "nat list"
  cp_files :: "sevenz_file list"
  cp_previous :: "nat option"

definition compact_file :: "sevenz_metadata \<Rightarrow> nat \<Rightarrow> compaction \<Rightarrow> import_error + compaction" where
  "compact_file m index cp =
     (if \<not> sf_has_stream (sm_files m ! index) then Inr cp
      else
        res_bind (ok_or (sm_file_block m ! index) Corrupt) (\<lambda>block.
          if is_some_and (cp_previous cp) (\<lambda>prior. block < prior) then Inl Corrupt
          else if \<not> block < length (cp_starts cp) then Inl Corrupt
          else Inr \<lparr>
            cp_starts = (if cp_starts cp ! block = None then (cp_starts cp)[block := Some (length (cp_files cp))] else cp_starts cp),
            cp_physical = cp_physical cp @ [index], cp_files = cp_files cp @ [sm_files m ! index],
            cp_previous = Some block\<rparr>))"

definition collect_some :: "'a option list \<Rightarrow> 'a list option" where
  "collect_some xs = (if list_all (\<lambda>x. x \<noteq> None) xs then Some (map the xs) else None)"

definition block_range :: "sevenz_metadata \<Rightarrow> nat \<Rightarrow> nat \<times> nat" where
  "block_range m block = (sm_first_files m ! block, nth_or (sm_first_files m) (Suc block) (length (sm_files m)))"

definition check_count :: "sevenz_env \<Rightarrow> sevenz_metadata \<Rightarrow> nat \<Rightarrow> import_error + unit" where
  "check_count env m block =
     (case block_range m block of (start, stop) \<Rightarrow>
        if stop - start \<noteq> se_entry_count env m block then Inl Corrupt else Inr ())"

definition sevenz_open :: "sevenz_env \<Rightarrow> import_limits \<Rightarrow> sevenz_metadata option \<Rightarrow> import_error + sevenz_archive" where
  "sevenz_open env limits parsed =
     res_bind (ok_or parsed Corrupt) (\<lambda>m.
     if length (sm_files m) > unat (il_max_entries limits) then Inl Limit
     else if length (sm_blocks m) > length (sm_files m) then Inl Corrupt
     else if length (sm_first_packs m) \<noteq> length (sm_blocks m) \<or> length (sm_file_block m) \<noteq> length (sm_files m)
       then Inl Corrupt
     else
       res_bind (map_res (sevenz_packed m) [0..<length (sm_blocks m)]) (\<lambda>blocks.
       res_bind (map_res (sevenz_entry env m) [0..<length (sm_files m)]) (\<lambda>entries.
       res_bind (fold_res (compact_file m) [0..<length (sm_files m)]
           \<lparr>cp_starts = replicate (length (sm_blocks m)) None, cp_physical = [], cp_files = [], cp_previous = None\<rparr>) (\<lambda>cp.
       res_bind (ok_or (collect_some (cp_starts cp)) Corrupt) (\<lambda>starts.
         let m' = m\<lparr>sm_files := cp_files cp, sm_first_files := starts,
                sm_file_block := map (\<lambda>i. pe_block (entries ! i)) (cp_physical cp)\<rparr> in
         res_bind (map_res (check_count env m') [0..<length (sm_blocks m')]) (\<lambda>_.
           Inr \<lparr>sa_metadata = m', sa_physical = cp_physical cp,
             sa_inventory = \<lparr>inv_container = SevenZContainer, inv_entries = entries, inv_blocks = blocks\<rparr>\<rparr>))))))"

text \<open>Decoding. The closure that the block decoder calls with each of its entries; \<open>seen\<close> comes back.\<close>

fun sevenz_entries ::
  "write_faults \<Rightarrow> sevenz_archive \<Rightarrow> nat \<Rightarrow> bool list \<Rightarrow> (64 word \<times> reads) list \<Rightarrow> bool list writes" where
  "sevenz_entries faults a pos seen [] = wr_lift (Inr seen)"
| "sevenz_entries faults a pos seen ((declared, stream) # es) =
     (if \<not> pos < length (sa_physical a) then wr_lift (Inl Corrupt)
      else
        let index = sa_physical a ! pos in
        if index \<ge> length seen \<or> seen ! index then wr_lift (Inl Corrupt)
        else wr_bind (emit faults index declared stream) (\<lambda>_. sevenz_entries faults a (Suc pos) (seen[index := True]) es))"

fun sevenz_blocks ::
  "sevenz_env \<Rightarrow> write_faults \<Rightarrow> sevenz_archive \<Rightarrow> nat list \<Rightarrow> bool list \<Rightarrow> bool list writes" where
  "sevenz_blocks env faults a [] seen = wr_lift (Inr seen)"
| "sevenz_blocks env faults a (block # blocks) seen =
     (if \<not> block < length (sm_first_files (sa_metadata a)) then wr_lift (Inl Corrupt)
      else case se_block_entries env (sa_metadata a) block of (es, bad) \<Rightarrow>
        wr_bind (sevenz_entries faults a (sm_first_files (sa_metadata a) ! block) seen es) (\<lambda>seen'.
          if bad then wr_lift (Inl Corrupt) else sevenz_blocks env faults a blocks seen'))"

text \<open>Then the entries without data.\<close>

fun sevenz_empties :: "write_faults \<Rightarrow> nat \<Rightarrow> physical_entry list \<Rightarrow> bool list \<Rightarrow> bool list writes" where
  "sevenz_empties faults index [] seen = wr_lift (Inr seen)"
| "sevenz_empties faults index (e # es) seen =
     (if \<not> seen ! index \<and> pe_block e = None
      then wr_bind (emit faults index (pe_size e) []) (\<lambda>_. sevenz_empties faults (Suc index) es (seen[index := True]))
      else sevenz_empties faults (Suc index) es seen)"

definition sevenz_decode :: "sevenz_env \<Rightarrow> write_faults \<Rightarrow> sevenz_archive \<Rightarrow> unit writes" where
  "sevenz_decode env faults a =
     (let entries = inv_entries (sa_inventory a) in
      wr_bind (sevenz_blocks env faults a [0..<length (sm_blocks (sa_metadata a))] (replicate (length entries) False)) (\<lambda>seen.
      wr_bind (sevenz_empties faults 0 entries seen) (\<lambda>seen.
        if list_ex Not seen then wr_lift (Inl Corrupt) else wr_lift (Inr ()))))"

section \<open>RAR\<close>

datatype rar_code =
    ERAR_SUCCESS | ERAR_END_ARCHIVE | ERAR_MISSING_PASSWORD | ERAR_BAD_PASSWORD | ERAR_NO_MEMORY | ERAR_OTHER

definition map_error :: "rar_code \<Rightarrow> import_error" where
  "map_error code =
     (if code = ERAR_MISSING_PASSWORD \<or> code = ERAR_BAD_PASSWORD then Encrypted
      else if code = ERAR_NO_MEMORY then Limit
      else Corrupt)"

text \<open>The messages of the callback. Data comes as bytes, or with a null pointer or a negative count.\<close>

datatype rar_message = UCM_PROCESSDATA "byte list option" | UCM_NEEDPASSWORD | UCM_NEEDPASSWORDW | UCM_OTHER

record native_header =
  nh_filename_w :: "32 word list"
  nh_split_before :: bool
  nh_split_after :: bool
  nh_encrypted :: bool
  nh_solid :: bool
  nh_directory :: bool
  nh_host_os :: "32 word"
  nh_file_attr :: "32 word"
  nh_redir_type :: "32 word"
  nh_unp_ver :: "32 word"
  nh_method :: "32 word"
  nh_unp_size_high :: "32 word"
  nh_unp_size :: "32 word"
  nh_pack_size_high :: "32 word"
  nh_pack_size :: "32 word"

text \<open>One handle: how it opened, and the \<open>k\<close>-th header with what processing it does.\<close>

record rar_step =
  rs_code :: rar_code
  rs_header :: native_header
  rs_messages :: "rar_message list"
  rs_process :: rar_code

record rar_native =
  rn_null :: bool
  rn_open_result :: rar_code
  rn_volume :: bool
  rn_encrypted_headers :: bool
  rn_step :: "nat \<Rightarrow> rar_step"

record rar_archive =
  ra_headers :: "header list"
  ra_inventory :: inventory

definition native_open :: "rar_native \<Rightarrow> import_error + (nat \<Rightarrow> rar_step)" where
  "native_open n =
     (if rn_null n \<or> rn_open_result n \<noteq> ERAR_SUCCESS then Inl (map_error (rn_open_result n))
      else if rn_volume n \<or> rn_encrypted_headers n then Inl Unsupported
      else Inr (rn_step n))"

definition read_native_header :: "rar_step \<Rightarrow> import_error + native_header option" where
  "read_native_header st =
     (case rs_code st of
        ERAR_SUCCESS \<Rightarrow> Inr (Some (rs_header st))
      | ERAR_END_ARCHIVE \<Rightarrow> Inr None
      | code \<Rightarrow> Inl (map_error code))"

definition process_result :: "rar_code \<Rightarrow> import_error + unit" where
  "process_result code = (if code = ERAR_SUCCESS then Inr () else Inl (map_error code))"

definition join_words :: "32 word \<Rightarrow> 32 word \<Rightarrow> 64 word" where
  "join_words high low = push_bit 32 (ucast high) OR ucast low"

definition attest_native :: "native_header \<Rightarrow> header \<Rightarrow> import_error + unit" where
  "attest_native h original =
     (let name_w = takeWhile (\<lambda>c. c \<noteq> 0) (nh_filename_w h); chars = map uint name_w in
      if length name_w = length (nh_filename_w h) \<or> length name_w \<ge> 1023 \<or> \<not> list_all is_scalar chars then Inl Unsupported
      else if chars \<noteq> hd_name original
          \<or> join_words (nh_unp_size_high h) (nh_unp_size h) \<noteq> hd_size original
          \<or> join_words (nh_pack_size_high h) (nh_pack_size h) \<noteq> hd_packed original
          \<or> nh_host_os h \<noteq> hd_host original \<or> nh_file_attr h \<noteq> hd_attributes original
          \<or> nh_directory h \<noteq> hd_directory original then Inl Unsupported
      else Inr ())"

definition rar_mode :: "native_header \<Rightarrow> 32 word option" where
  "rar_mode h = (if nh_host_os h = 3 then Some (nh_file_attr h) else None)"

definition rar_kind :: "native_header \<Rightarrow> object_kind" where
  "rar_kind h =
     (if nh_redir_type h \<noteq> 0 \<or> nh_host_os h = 2 \<and> nh_file_attr h AND 0x400 \<noteq> 0 \<or> is_some_and (rar_mode h) link_mode
        then LinkObject
      else if is_some_and (rar_mode h) special_mode then SpecialObject
      else if nh_directory h then DirectoryObject
      else FileObject)"

definition checked_add :: "64 word \<Rightarrow> 64 word \<Rightarrow> 64 word option" where
  "checked_add a b = (if over64 (unat a + unat b) then None else Some (a + b))"

text \<open>The block of an entry: the last one when the entry is solid, a new one otherwise, grown by the entry.\<close>

definition rar_block :: "native_header \<Rightarrow> header \<Rightarrow> packed_block list \<Rightarrow> import_error + nat option \<times> packed_block list" where
  "rar_block h original blocks =
     (if rar_kind h = DirectoryObject then Inr (None, blocks)
      else
        let blocks' = (if nh_solid h then blocks else blocks @ [\<lparr>packed_bytes = 0, unpacked_bytes = 0\<rparr>]) in
        if blocks' = [] then Inl Corrupt
        else
          let block = length blocks' - 1 in
          res_bind (ok_or (checked_add (packed_bytes (blocks' ! block)) (hd_packed original)) Corrupt) (\<lambda>packed.
          res_bind (ok_or (checked_add (unpacked_bytes (blocks' ! block)) (hd_size original)) Corrupt) (\<lambda>unpacked.
            Inr (Some block, blocks'[block := \<lparr>packed_bytes = packed, unpacked_bytes = unpacked\<rparr>]))))"

definition rar_entry :: "nat \<Rightarrow> native_header \<Rightarrow> header \<Rightarrow> nat option \<Rightarrow> physical_entry" where
  "rar_entry index h original block =
     \<lparr>pe_index = index, pe_name = Unicode (hd_name original), pe_kind = rar_kind h, pe_size = hd_size original,
      pe_block = block, pe_encrypted = False,
      pe_method = lit ''RAR:'' @ nat_digits (unat (nh_unp_ver h)) @ lit '':'' @ nat_digits (unat (nh_method h)),
      pe_method_supported = (nh_unp_ver h \<le> 70 \<and> 0x30 \<le> nh_method h \<and> nh_method h \<le> 0x35), pe_unix_mode = rar_mode h\<rparr>"

text \<open>The listing loop, by recursion on the headers that are left; \<open>k\<close> of them are behind.\<close>

fun rar_list :: "(nat \<Rightarrow> rar_step) \<Rightarrow> nat \<Rightarrow> header list \<Rightarrow> inventory \<Rightarrow> import_error + inventory" where
  "rar_list steps k [] listing =
     res_bind (read_native_header (steps k)) (\<lambda>h. if h = None then Inr listing else Inl Corrupt)"
| "rar_list steps k (original # hs) listing =
     res_bind (read_native_header (steps k)) (\<lambda>found.
       case found of
         None \<Rightarrow> Inl Corrupt
       | Some h \<Rightarrow>
           res_bind (attest_native h original) (\<lambda>_.
           if nh_split_before h \<or> nh_split_after h \<or> nh_encrypted h then Inl Unsupported
           else
             res_bind (rar_block h original (inv_blocks listing)) (\<lambda>(block, blocks).
             res_bind (process_result (rs_process (steps k))) (\<lambda>_.
               rar_list steps (Suc k) hs
                 (listing\<lparr>inv_entries := inv_entries listing @ [rar_entry k h original block], inv_blocks := blocks\<rparr>)))))"

definition rar_open ::
  "rar_env \<Rightarrow> byte list \<Rightarrow> rar_native \<Rightarrow> import_error + unit \<Rightarrow> import_limits \<Rightarrow> import_error + rar_archive" where
  "rar_open env archive native verified limits =
     res_bind (attest env archive \<lparr>max_entries = il_max_entries limits, max_index_bytes = il_max_index_bytes limits\<rparr>) (\<lambda>headers.
     res_bind (native_open native) (\<lambda>steps.
     res_bind (rar_list steps 0 headers (empty_inventory RarContainer)) (\<lambda>listing.
     res_bind verified (\<lambda>_. Inr \<lparr>ra_headers = headers, ra_inventory = listing\<rparr>))))"

text \<open>The callback while an entry is processed: frames of at most \<open>MAX_FRAME\<close> bytes. The number of bytes
  written so far comes back.\<close>

function chunks :: "nat \<Rightarrow> 'a list \<Rightarrow> 'a list list" where
  "chunks n xs = (if xs = [] \<or> n = 0 then [] else take n xs # chunks n (drop n xs))"
  by pat_completeness auto
termination
  by (relation "measure (length \<circ> snd)") auto

declare chunks.simps [simp del]

fun write_chunks :: "write_faults \<Rightarrow> byte list list \<Rightarrow> unit writes" where
  "write_chunks faults [] = wr_lift (Inr ())"
| "write_chunks faults (c # cs) = wr_bind (frame faults DATA c) (\<lambda>_. write_chunks faults cs)"

fun callback :: "write_faults \<Rightarrow> 64 word \<Rightarrow> nat \<Rightarrow> rar_message \<Rightarrow> nat writes" where
  "callback faults declared written UCM_NEEDPASSWORD = wr_lift (Inl Encrypted)"
| "callback faults declared written UCM_NEEDPASSWORDW = wr_lift (Inl Encrypted)"
| "callback faults declared written UCM_OTHER = wr_lift (Inl Unsupported)"
| "callback faults declared written (UCM_PROCESSDATA None) = wr_lift (Inl Corrupt)"
| "callback faults declared written (UCM_PROCESSDATA (Some bytes)) =
     (let written' = written + length bytes in
      if over64 written' then wr_lift (Inl Limit)
      else if written' > unat declared then wr_lift (Inl Corrupt)
      else wr_bind (write_chunks faults (chunks MAX_FRAME bytes)) (\<lambda>_. wr_lift (Inr written')))"

fun run_callbacks :: "write_faults \<Rightarrow> 64 word \<Rightarrow> nat \<Rightarrow> rar_message list \<Rightarrow> nat writes" where
  "run_callbacks faults declared written [] = wr_lift (Inr written)"
| "run_callbacks faults declared written (m # ms) =
     wr_bind (callback faults declared written m) (\<lambda>written'. run_callbacks faults declared written' ms)"

fun rar_emit :: "write_faults \<Rightarrow> (nat \<Rightarrow> rar_step) \<Rightarrow> nat \<Rightarrow> header list \<Rightarrow> unit writes" where
  "rar_emit faults steps k [] =
     wr_lift (res_bind (read_native_header (steps k)) (\<lambda>h. if h = None then Inr () else Inl Corrupt))"
| "rar_emit faults steps k (original # hs) =
     wr_bind (wr_lift (read_native_header (steps k))) (\<lambda>found.
       case found of
         None \<Rightarrow> wr_lift (Inl Corrupt)
       | Some h \<Rightarrow>
           wr_bind (wr_lift (attest_native h original)) (\<lambda>_.
           wr_bind (frame faults BEGIN (le_bytes 8 k)) (\<lambda>_.
           wr_bind (run_callbacks faults (hd_size original) 0 (rs_messages (steps k))) (\<lambda>written.
           wr_bind (wr_lift (process_result (rs_process (steps k)))) (\<lambda>_.
             if written \<noteq> unat (hd_size original) then wr_lift (Inl Corrupt)
             else wr_bind (frame faults END (le_bytes 8 k)) (\<lambda>_. rar_emit faults steps (Suc k) hs))))))"

definition rar_decode :: "write_faults \<Rightarrow> rar_native \<Rightarrow> rar_archive \<Rightarrow> unit writes" where
  "rar_decode faults native a =
     wr_bind (wr_lift (native_open native)) (\<lambda>steps. rar_emit faults steps 0 (ra_headers a))"

end
