(* ===== verification/Import_Protocol.thy ===== *)
theory Import_Protocol
  imports Import_Backends
begin

text \<open>
  The archive import worker and its client: \<^verbatim>\<open>run\<close> and \<^verbatim>\<open>send_inventory\<close> of
  \<^verbatim>\<open>crates/archive-import/src/worker.rs\<close> over the source and the three backends, and the session of
  \<^verbatim>\<open>client.rs\<close>. The worker writes frames to a pipe; the client reads them and hands out entries and
  their contents.

  JSON is serde's: printing and parsing are fields of the environments. Which writes fail, and when the
  client is interrupted (cancelled, or stopped by the watchdog), is a parameter too, so the clock does not
  appear.
\<close>

section \<open>The worker\<close>

record worker_env =
  we_write_fault :: write_faults
  we_parse_request :: "byte list \<Rightarrow> import_limits option"
  we_source :: source_env
  we_clone :: bool                                              \<comment> \<open>the handle can be duplicated\<close>
  we_zip :: "import_limits \<Rightarrow> unboxer_error + zip_reader"
  we_sevenz :: sevenz_env
  we_sevenz_parsed :: "sevenz_metadata option"
  we_rar :: rar_env
  we_rar_bytes :: "byte list"
  we_rar_listed :: rar_native
  we_rar_extracted :: rar_native
  we_inspect :: "inventory \<Rightarrow> import_limits \<Rightarrow> unboxer_error option"
  we_print_container :: "container \<Rightarrow> byte list option"
  we_print_block :: "packed_block \<Rightarrow> byte list option"
  we_print_entry :: "physical_entry \<Rightarrow> byte list option"
  we_print_error :: "import_error \<Rightarrow> byte list option"

datatype backend = ZipBackend zip_archive | SevenZBackend sevenz_archive | RarBackend rar_archive

fun backend_inventory :: "backend \<Rightarrow> inventory" where
  "backend_inventory (ZipBackend a) = za_inventory a"
| "backend_inventory (SevenZBackend a) = sa_inventory a"
| "backend_inventory (RarBackend a) = ra_inventory a"

fun backend_decode :: "worker_env \<Rightarrow> write_faults \<Rightarrow> backend \<Rightarrow> unit writes" where
  "backend_decode env faults (ZipBackend a) = zip_decode faults a"
| "backend_decode env faults (SevenZBackend a) = sevenz_decode (we_sevenz env) faults a"
| "backend_decode env faults (RarBackend a) = rar_decode faults (we_rar_extracted env) a"

text \<open>The two loops of \<^verbatim>\<open>send_inventory\<close> over one kind of item. The running total comes back.\<close>

fun send_items ::
  "write_faults \<Rightarrow> byte \<Rightarrow> ('i \<Rightarrow> byte list option) \<Rightarrow> import_limits \<Rightarrow> nat \<Rightarrow> 'i list \<Rightarrow> nat writes" where
  "send_items faults tag print limits bytes [] = wr_lift (Inr bytes)"
| "send_items faults tag print limits bytes (x # xs) =
     (case print x of
        None \<Rightarrow> wr_lift (Inl Corrupt)
      | Some payload \<Rightarrow>
          let bytes' = wrap64 (bytes + length payload) in
          if bytes' > unat (il_max_index_bytes limits) then wr_lift (Inl Limit)
          else wr_bind (frame faults tag payload) (\<lambda>_. send_items faults tag print limits bytes' xs))"

definition send_inventory :: "worker_env \<Rightarrow> inventory \<Rightarrow> import_limits \<Rightarrow> unit writes" where
  "send_inventory env listing limits =
     (if length (inv_entries listing) > unat (il_max_entries limits)
         \<or> length (inv_blocks listing) > length (inv_entries listing) then wr_lift (Inl Limit)
      else
        let faults = we_write_fault env in
        wr_bind (json faults ARCHIVE (we_print_container env (inv_container listing))) (\<lambda>_.
        wr_bind (send_items faults BLOCK (we_print_block env) limits 0 (inv_blocks listing)) (\<lambda>bytes.
        wr_bind (send_items faults ENTRY (we_print_entry env) limits bytes (inv_entries listing)) (\<lambda>_.
          frame faults INVENTORY_END (le_bytes 8 (length (inv_entries listing)))))))"

definition hello :: "byte list" where
  "hello = as_bytes (lit ''arclain-import-v1'')"

text \<open>The backend is chosen by the first bytes of the source.\<close>

definition starts :: "byte list \<Rightarrow> byte list \<Rightarrow> bool" where
  "starts magic p \<longleftrightarrow> take (length p) magic = p"

definition open_backend :: "worker_env \<Rightarrow> byte list \<Rightarrow> source \<Rightarrow> import_limits \<Rightarrow> import_error + backend" where
  "open_backend env magic src limits =
     (if starts magic [0x50, 0x4B, 0x03, 0x04] \<or> starts magic [0x50, 0x4B, 0x05, 0x06] then
        if we_clone env then res_bind (zip_open (we_zip env limits)) (\<lambda>a. Inr (ZipBackend a)) else Inl Io
      else if starts magic [0x37, 0x7A, 0xBC, 0xAF, 0x27, 0x1C] then
        if we_clone env then res_bind (sevenz_open (we_sevenz env) limits (we_sevenz_parsed env)) (\<lambda>a. Inr (SevenZBackend a))
        else Inl Io
      else if starts magic [0x52, 0x61, 0x72, 0x21, 0x1A, 0x07] then
        res_bind (rar_open (we_rar env) (we_rar_bytes env) (we_rar_listed env) (source_verify (we_source env) src 1) limits)
          (\<lambda>a. Inr (RarBackend a))
      else Inl Unsupported)"

text \<open>The verification at the end is the second of a RAR archive and the first of the others.\<close>

fun last_stage :: "backend \<Rightarrow> nat" where
  "last_stage (RarBackend a) = 2"
| "last_stage _ = 1"

definition validation_limits :: "import_limits \<Rightarrow> import_limits" where
  "validation_limits limits = limits\<lparr>il_max_index_bytes := 0x20000000\<rparr>"

definition inspected :: "worker_env \<Rightarrow> inventory \<Rightarrow> import_limits \<Rightarrow> import_error + unit" where
  "inspected env listing limits =
     (case we_inspect env listing limits of None \<Rightarrow> Inr () | Some e \<Rightarrow> Inl (limit_or e Unsupported))"

definition run :: "worker_env \<Rightarrow> byte list \<Rightarrow> unit writes" where
  "run env input =
     (let faults = we_write_fault env in
      wr_bind (frame faults READY hello) (\<lambda>_.
      wr_bind (wr_lift (read_frame input)) (\<lambda>((tag, data), input).
      if tag \<noteq> OPEN then wr_lift (Inl Corrupt)
      else
        case we_parse_request env data of
          None \<Rightarrow> wr_lift (Inl Corrupt)
        | Some limits \<Rightarrow>
            if il_max_entries limits > 200000 \<or> il_max_index_bytes limits > 0x4000000 then wr_lift (Inl Limit)
            else
              wr_bind (wr_lift (source_open (we_source env) (il_max_archive_bytes limits))) (\<lambda>src.
              wr_bind (wr_lift (source_magic (we_source env))) (\<lambda>magic.
              wr_bind (wr_lift (open_backend env magic src limits)) (\<lambda>archive.
              wr_bind (send_inventory env (backend_inventory archive) limits) (\<lambda>_.
              wr_bind (wr_lift (read_frame input)) (\<lambda>((tag, data), _).
              if tag \<noteq> DECODE \<or> data \<noteq> [] then wr_lift (Inl Corrupt)
              else
                wr_bind (wr_lift (inspected env (backend_inventory archive) (validation_limits limits))) (\<lambda>_.
                wr_bind (backend_decode env faults archive) (\<lambda>_.
                wr_bind (wr_lift (source_verify (we_source env) src (last_stage archive))) (\<lambda>_.
                  frame faults COMPLETE [])))))))))))"

text \<open>The end of \<^verbatim>\<open>main\<close>: a failure is reported as a frame; the exit code comes back.\<close>

definition worker_main :: "worker_env \<Rightarrow> byte list \<Rightarrow> nat \<times> byte list" where
  "worker_main env input =
     (case run env input [] of
        (Inr _, out) \<Rightarrow> (0, out)
      | (Inl e, out) \<Rightarrow> (1, snd (json (we_write_fault env) FAILURE (we_print_error env e) out)))"

section \<open>The client\<close>

text \<open>The reader thread: frames until the first error, without the empty heartbeats.\<close>

lemma read_frame_shorter: "read_frame s = Inr (f, rest) \<Longrightarrow> length rest < length s"
  by (auto simp: read_frame_def Let_def split: if_splits)

function reader_frames :: "byte list \<Rightarrow> (import_error + frame) list" where
  "reader_frames stream =
     (case read_frame stream of
        Inl e \<Rightarrow> [Inl e]
      | Inr (f, rest) \<Rightarrow> if f = (HEARTBEAT, []) then reader_frames rest else Inr f # reader_frames rest)"
  by pat_completeness auto
termination
  by (relation "measure length") (auto dest: read_frame_shorter)

declare reader_frames.simps [simp del]

record client_env =
  ce_interrupt :: "nat \<Rightarrow> import_error option"   \<comment> \<open>what the n-th look at the flags finds\<close>
  ce_parse_error :: "byte list \<Rightarrow> import_error option"
  ce_parse_container :: "byte list \<Rightarrow> container option"
  ce_parse_block :: "byte list \<Rightarrow> packed_block option"
  ce_parse_entry :: "byte list \<Rightarrow> physical_entry option"
  ce_send_open :: "import_error option"
  ce_send_decode :: "import_error option"
  ce_exit :: "import_error + bool"      \<comment> \<open>interrupted while waiting, or the exit status\<close>

record client_session =
  cs_rx :: "(import_error + frame) list"
  cs_looks :: nat
  cs_inventory :: inventory
  cs_started :: bool
  cs_finished :: bool
  cs_active :: "nat option"
  cs_last_error :: "import_error option"

type_synonym 'a session = "client_session \<Rightarrow> (import_error + 'a) \<times> client_session"

definition se_bind :: "'a session \<Rightarrow> ('a \<Rightarrow> 'b session) \<Rightarrow> 'b session" where
  "se_bind m k s = (case m s of (Inl e, s') \<Rightarrow> (Inl e, s') | (Inr x, s') \<Rightarrow> k x s')"

definition se_lift :: "import_error + 'a \<Rightarrow> 'a session" where
  "se_lift r s = (r, s)"

text \<open>\<^verbatim>\<open>interrupted\<close>: one look at the flags.\<close>

definition interrupted :: "client_env \<Rightarrow> client_session \<Rightarrow> import_error option \<times> client_session" where
  "interrupted env s = (ce_interrupt env (cs_looks s), s\<lparr>cs_looks := Suc (cs_looks s)\<rparr>)"

definition fail_interrupted :: "client_env \<Rightarrow> import_error \<Rightarrow> 'a session" where
  "fail_interrupted env e s =
     (case interrupted env s of (Some i, s') \<Rightarrow> (Inl i, s') | (None, s') \<Rightarrow> (Inl e, s'))"

definition receive_inner :: "client_env \<Rightarrow> frame session" where
  "receive_inner env s =
     (case interrupted env s of
        (Some e, s') \<Rightarrow> (Inl e, s')
      | (None, s') \<Rightarrow>
          (case cs_rx s' of
             [] \<Rightarrow> fail_interrupted env WorkerFailed s'
           | Inl e # rest \<Rightarrow>
               fail_interrupted env (if e = Io then WorkerFailed else e) (s'\<lparr>cs_rx := rest\<rparr>)
           | Inr f # rest \<Rightarrow>
               if fst f = FAILURE
               then (Inl (case ce_parse_error env (snd f) of Some e \<Rightarrow> e | None \<Rightarrow> Corrupt), s'\<lparr>cs_rx := rest\<rparr>)
               else (Inr f, s'\<lparr>cs_rx := rest\<rparr>)))"

definition receive :: "client_env \<Rightarrow> frame session" where
  "receive env s =
     (case receive_inner env s of
        (Inl e, s') \<Rightarrow> (Inl e, s'\<lparr>cs_last_error := Some e\<rparr>)
      | (Inr f, s') \<Rightarrow> (Inr f, s'))"

text \<open>One frame of the inventory: whether it was the last, and the bytes of metadata so far.\<close>

definition take_inventory ::
  "client_env \<Rightarrow> import_limits \<Rightarrow> nat \<Rightarrow> frame \<Rightarrow> (bool \<times> nat) session" where
  "take_inventory env limits metadata f s =
     (let metadata' = metadata + length (snd f); listing = cs_inventory s in
      if over64 metadata' \<or> metadata' > unat (il_max_index_bytes limits) then (Inl Limit, s)
      else if fst f = BLOCK then
        if inv_entries listing \<noteq> [] \<or> length (inv_blocks listing) \<ge> unat (il_max_entries limits) then (Inl Limit, s)
        else case ce_parse_block env (snd f) of
          None \<Rightarrow> (Inl Corrupt, s)
        | Some b \<Rightarrow> (Inr (False, metadata'), s\<lparr>cs_inventory := listing\<lparr>inv_blocks := inv_blocks listing @ [b]\<rparr>\<rparr>)
      else if fst f = ENTRY then
        if length (inv_entries listing) \<ge> unat (il_max_entries limits) then (Inl Limit, s)
        else case ce_parse_entry env (snd f) of
          None \<Rightarrow> (Inl Corrupt, s)
        | Some e \<Rightarrow> (Inr (False, metadata'), s\<lparr>cs_inventory := listing\<lparr>inv_entries := inv_entries listing @ [e]\<rparr>\<rparr>)
      else if fst f = INVENTORY_END then
        case index_of (snd f) of
          Inl e \<Rightarrow> (Inl e, s)
        | Inr n \<Rightarrow> if n \<noteq> length (inv_entries listing) then (Inl Corrupt, s) else (Inr (True, metadata'), s)
      else (Inl Corrupt, s))"

lemma receive_shorter: "receive env s = (Inr f, s') \<Longrightarrow> length (cs_rx s') < length (cs_rx s)"
  by (auto simp: receive_def receive_inner_def interrupted_def fail_interrupted_def
      split: list.splits sum.splits option.splits if_splits prod.splits)

lemma take_inventory_rx: "take_inventory env limits m f s = (r, s') \<Longrightarrow> cs_rx s' = cs_rx s"
  by (auto simp: take_inventory_def Let_def split: if_splits option.splits sum.splits)

function receive_inventory :: "client_env \<Rightarrow> import_limits \<Rightarrow> nat \<Rightarrow> unit session" where
  "receive_inventory env limits metadata s =
     (case receive env s of
        (Inl e, s1) \<Rightarrow> (Inl e, s1)
      | (Inr f, s1) \<Rightarrow>
          (case take_inventory env limits metadata f s1 of
             (Inl e, s2) \<Rightarrow> (Inl e, s2)
           | (Inr (True, _), s2) \<Rightarrow> (Inr (), s2)
           | (Inr (False, metadata'), s2) \<Rightarrow> receive_inventory env limits metadata' s2))"
  by pat_completeness auto
termination
  by (relation "measure (\<lambda>(env, limits, m, s). length (cs_rx s))")
     (auto dest!: receive_shorter [OF sym] take_inventory_rx [OF sym])

declare receive_inventory.simps [simp del]

definition new_session :: "(import_error + frame) list \<Rightarrow> client_session" where
  "new_session rx = \<lparr>cs_rx = rx, cs_looks = 0,
     cs_inventory = \<lparr>inv_container = UnknownContainer, inv_entries = [], inv_blocks = []\<rparr>,
     cs_started = False, cs_finished = False, cs_active = None, cs_last_error = None\<rparr>"

definition indices_in_order :: "physical_entry list \<Rightarrow> bool" where
  "indices_in_order es = list_all (\<lambda>(i, e). i = pe_index e) (enumerate 0 es)"

definition client_open :: "client_env \<Rightarrow> import_limits \<Rightarrow> unit session" where
  "client_open env limits =
     se_bind (receive env) (\<lambda>f.
     if f \<noteq> (READY, hello) then se_lift (Inl Corrupt)
     else
       se_bind (se_lift (case ce_send_open env of Some e \<Rightarrow> Inl e | None \<Rightarrow> Inr ())) (\<lambda>_.
       se_bind (receive env) (\<lambda>f.
       if fst f \<noteq> ARCHIVE then se_lift (Inl Corrupt)
       else
         se_bind (se_lift (ok_or (ce_parse_container env (snd f)) Corrupt)) (\<lambda>c.
         se_bind (\<lambda>s. (Inr (), s\<lparr>cs_inventory := (cs_inventory s)\<lparr>inv_container := c\<rparr>\<rparr>)) (\<lambda>_.
         se_bind (receive_inventory env limits 0) (\<lambda>_ s.
           if indices_in_order (inv_entries (cs_inventory s)) then (Inr (), s) else (Inl Corrupt, s)))))))"

text \<open>\<^verbatim>\<open>next\<close>. The wait for the worker's exit ends with the exit or an interruption.\<close>

definition finish :: "client_env \<Rightarrow> nat option session" where
  "finish env s =
     (case ce_exit env of
        Inl e \<Rightarrow> (Inl e, s)
      | Inr False \<Rightarrow> fail_interrupted env WorkerFailed s
      | Inr True \<Rightarrow> (Inr None, s\<lparr>cs_finished := True\<rparr>))"

definition start_decode :: "client_env \<Rightarrow> unit session" where
  "start_decode env s =
     (if cs_started s then (Inr (), s)
      else case ce_send_decode env of
        Some e \<Rightarrow> (Inl e, s)
      | None \<Rightarrow> (Inr (), s\<lparr>cs_started := True\<rparr>))"

definition take_begin :: "frame \<Rightarrow> nat option session" where
  "take_begin f s =
     (if fst f \<noteq> BEGIN then (Inl Corrupt, s)
      else case index_of (snd f) of
        Inl e \<Rightarrow> (Inl e, s)
      | Inr i \<Rightarrow>
          if i \<ge> length (inv_entries (cs_inventory s)) then (Inl Corrupt, s)
          else (Inr (Some i), s\<lparr>cs_active := Some i\<rparr>))"

definition next_index :: "client_env \<Rightarrow> nat option session" where
  "next_index env s =
     (case interrupted env s of
        (Some e, s') \<Rightarrow> (Inl e, s')
      | (None, s') \<Rightarrow>
          if cs_active s' \<noteq> None then (Inl Corrupt, s')
          else if cs_finished s' then (Inr None, s')
          else
            se_bind (start_decode env) (\<lambda>_.
            se_bind (receive env) (\<lambda>f.
              if fst f = COMPLETE then
                if snd f \<noteq> [] then se_lift (Inl Corrupt) else finish env
              else take_begin f)) s')"

definition next_entry :: "client_env \<Rightarrow> nat option session" where
  "next_entry env s =
     (case next_index env s of
        (Inl e, s') \<Rightarrow> (Inl e, s'\<lparr>cs_last_error := Some e\<rparr>)
      | (Inr i, s') \<Rightarrow> (Inr i, s'))"

record contents =
  co_pending :: "byte list"
  co_offset :: nat
  co_ended :: bool

definition fresh_contents :: contents where
  "fresh_contents = \<lparr>co_pending = [], co_offset = 0, co_ended = False\<rparr>"

text \<open>Handing out what is pending into a buffer of the given length.\<close>

definition hand_out :: "nat \<Rightarrow> contents \<Rightarrow> byte list \<times> contents" where
  "hand_out n c =
     (let k = min n (length (co_pending c) - co_offset c) in
      (take k (drop (co_offset c) (co_pending c)), c\<lparr>co_offset := co_offset c + k\<rparr>))"

definition read_contents :: "client_env \<Rightarrow> nat \<Rightarrow> contents \<Rightarrow> (byte list \<times> contents) session" where
  "read_contents env n c s =
     (if n = 0 \<or> co_ended c then (Inr ([], c), s)
      else if co_offset c = length (co_pending c) then
        se_bind (receive env) (\<lambda>f s.
          if fst f = END then
            (case index_of (snd f) of
               Inl e \<Rightarrow> (Inl e, s)
             | Inr i \<Rightarrow>
                 if cs_active s \<noteq> Some i then (Inl Corrupt, s)
                 else (Inr ([], c\<lparr>co_ended := True\<rparr>), s\<lparr>cs_active := None\<rparr>))
          else if fst f \<noteq> DATA \<or> snd f = [] then (Inl Corrupt, s)
          else (Inr (hand_out n (c\<lparr>co_pending := snd f, co_offset := 0\<rparr>)), s)) s
      else (Inr (hand_out n c), s))"

text \<open>\<^verbatim>\<open>Read for Contents\<close>.\<close>

definition read_entry :: "client_env \<Rightarrow> nat \<Rightarrow> contents \<Rightarrow> (byte list \<times> contents) session" where
  "read_entry env n c s =
     (case read_contents env n c s of
        (Inl e, s') \<Rightarrow> (Inl e, s'\<lparr>cs_last_error := Some e\<rparr>)
      | (Inr x, s') \<Rightarrow> (Inr x, s'))"

end
