(* ===== verification/Backend_Properties.thy ===== *)
theory Backend_Properties
  imports Import_Backends "HOL-Library.Multiset"
begin

text \<open>
  What every backend of the import worker promises, stated as the locale \<open>archive_backend\<close> and proved for
  the ZIP, 7z and RAR backends: an inventory whose entries are numbered in order and whose blocks exist, and
  a decoding that, when it succeeds, has written every entry of the inventory exactly once, as long as the
  inventory says.
\<close>

section \<open>The contract\<close>

definition block_in :: "nat \<Rightarrow> physical_entry \<Rightarrow> bool" where
  "block_in n e \<longleftrightarrow> (case pe_block e of None \<Rightarrow> True | Some b \<Rightarrow> b < n)"

definition inventory_ok :: "inventory \<Rightarrow> bool" where
  "inventory_ok listing \<longleftrightarrow>
     map pe_index (inv_entries listing) = [0..<length (inv_entries listing)]
     \<and> length (inv_blocks listing) \<le> length (inv_entries listing)
     \<and> list_all (block_in (length (inv_blocks listing))) (inv_entries listing)"

text \<open>The frames written are those of the given entries, in order, with the data cut into frames somehow.\<close>

definition entries_written :: "(nat \<times> byte list) list \<Rightarrow> byte list \<Rightarrow> byte list \<Rightarrow> bool" where
  "entries_written held out out' \<longleftrightarrow>
     (\<exists>css. map concat css = map snd held \<and> list_all (\<lambda>cs. [] \<notin> set cs) css
        \<and> emits out out' (concat (map2 entry_frames (map fst held) css)))"

definition sizes_right :: "inventory \<Rightarrow> (nat \<times> byte list) list \<Rightarrow> bool" where
  "sizes_right listing held \<longleftrightarrow>
     list_all (\<lambda>(i, bytes). length bytes = unat (pe_size (inv_entries listing ! i))) held"

locale archive_backend =
  fixes opened :: "'a \<Rightarrow> bool" and listing :: "'a \<Rightarrow> inventory"
    and decode :: "write_faults \<Rightarrow> 'a \<Rightarrow> unit writes" and held :: "'a \<Rightarrow> (nat \<times> byte list) list"
  assumes opened_listing: "opened a \<Longrightarrow> inventory_ok (listing a)"
    and decode_writes: "opened a \<Longrightarrow> decode faults a out = (Inr u, out') \<Longrightarrow> entries_written (held a) out out'"
    and decode_covers: "opened a \<Longrightarrow> decode faults a out = (Inr u, out') \<Longrightarrow>
      distinct (map fst (held a)) \<and> set (map fst (held a)) = {..<length (inv_entries (listing a))}"
    and decode_sizes: "opened a \<Longrightarrow> decode faults a out = (Inr u, out') \<Longrightarrow> sizes_right (listing a) (held a)"
begin

lemma covers_mset:
  assumes "opened a" "decode faults a out = (Inr u, out')"
  shows "mset (map fst (held a)) = mset [0..<length (inv_entries (listing a))]"
  using decode_covers [OF assms] by (subst set_eq_iff_mset_eq_distinct [symmetric]) (auto simp: atLeast0LessThan)

lemma covers_length:
  assumes "opened a" "decode faults a out = (Inr u, out')"
  shows "length (held a) = length (inv_entries (listing a))"
  using arg_cong [OF covers_mset [OF assms], of size] by simp

text \<open>A decoding either writes the entries or is an error; the bytes of an entry are never fewer.\<close>

lemma decoded_entry:
  assumes "opened a" "decode faults a out = (Inr u, out')" "i < length (inv_entries (listing a))"
  shows "\<exists>bytes. (i, bytes) \<in> set (held a) \<and> length bytes = unat (pe_size (inv_entries (listing a) ! i))"
proof -
  have "i \<in> fst ` set (held a)" using decode_covers [OF assms(1,2)] assms(3) by simp
  then obtain bytes where "(i, bytes) \<in> set (held a)" by auto
  then show ?thesis using decode_sizes [OF assms(1,2)] by (auto simp: sizes_right_def list_all_iff)
qed

end

lemma entries_written_Nil: "entries_written [] out out"
  by (simp add: entries_written_def emits_refl)

lemma entries_written_append:
  assumes "entries_written hs a b" "entries_written gs b c"
  shows "entries_written (hs @ gs) a c"
proof -
  obtain cs ds where cs: "map concat cs = map snd hs" "list_all (\<lambda>cs. [] \<notin> set cs) cs"
      "emits a b (concat (map2 entry_frames (map fst hs) cs))"
    and ds: "map concat ds = map snd gs" "list_all (\<lambda>cs. [] \<notin> set cs) ds"
      "emits b c (concat (map2 entry_frames (map fst gs) ds))"
    using assms unfolding entries_written_def by blast
  have "length cs = length hs" using map_eq_imp_length_eq [OF cs(1)] .
  then show ?thesis
    unfolding entries_written_def using cs ds emits_trans [OF cs(3) ds(3)] by (intro exI [of _ "cs @ ds"]) simp
qed

lemma emit_written:
  assumes "emit faults i declared rs out = (Inr u, out')"
  shows "entries_written [(i, stream_bytes rs)] out out'" and "length (stream_bytes rs) = unat declared"
proof -
  obtain cs where "emits out out' (entry_frames i cs)" "[] \<notin> set cs" "concat cs = stream_bytes rs"
    and len: "length (stream_bytes rs) = unat declared"
    using emit_Inr [OF assms] by blast
  then show "entries_written [(i, stream_bytes rs)] out out'"
    unfolding entries_written_def by (intro exI [of _ "[cs]"]) simp
  show "length (stream_bytes rs) = unat declared" by (rule len)
qed

lemmas entries_written_Cons = entries_written_append [of "[e]" for e, simplified]

section \<open>ZIP\<close>

definition zip_held :: "zip_archive \<Rightarrow> (nat \<times> byte list) list" where
  "zip_held a = map (\<lambda>e. (pe_index e, stream_bytes (the (zr_entry (za_reader a) (pe_index e))))) (inv_entries (za_inventory a))"

definition zip_opened :: "zip_archive \<Rightarrow> bool" where
  "zip_opened a \<longleftrightarrow> (\<exists>opened. zip_open opened = Inr a)"

lemma list_all_block_mono: "list_all (block_in n) es \<Longrightarrow> n \<le> m \<Longrightarrow> list_all (block_in m) es"
  by (auto simp: list_all_iff block_in_def split: option.splits)

lemma inventory_ok_extend:
  assumes "inventory_ok l" "pe_index e = length (inv_entries l)"
    and "length (inv_blocks l) \<le> length bs" "length bs \<le> Suc (length (inv_blocks l))"
    and "block_in (length bs) e"
  shows "inventory_ok (l\<lparr>inv_entries := inv_entries l @ [e], inv_blocks := bs\<rparr>)"
  using assms list_all_block_mono [OF _ assms(3)] by (simp add: inventory_ok_def)

lemma empty_inventory_ok: "inventory_ok (empty_inventory kind)"
  by (simp add: inventory_ok_def empty_inventory_def)

lemma zip_list_ok:
  "zip_list k hs l = Inr l' \<Longrightarrow> inventory_ok l \<Longrightarrow> k = length (inv_entries l) \<Longrightarrow> inventory_ok l'"
proof (induction k hs l rule: zip_list.induct)
  case (3 k h hs l)
  show ?case
    by (rule "3.IH", use "3.prems"(1) in simp, rule inventory_ok_extend)
      (use "3.prems" in \<open>auto simp: zip_entry_def block_in_def\<close>)
qed auto

lemma zip_emit_written:
  "zip_emit faults r es out = (Inr u, out') \<Longrightarrow>
   entries_written (map (\<lambda>e. (pe_index e, stream_bytes (the (zr_entry r (pe_index e))))) es) out out'
   \<and> list_all (\<lambda>e. length (stream_bytes (the (zr_entry r (pe_index e)))) = unat (pe_size e)) es"
proof (induction es arbitrary: out)
  case Nil
  then show ?case by (simp add: wr_lift_Inr entries_written_Nil)
next
  case (Cons e es)
  then obtain stream mid where one: "zr_entry r (pe_index e) = Some stream"
    "emit faults (pe_index e) (pe_size e) stream out = (Inr (), mid)" "zip_emit faults r es mid = (Inr u, out')"
    by (auto simp: wr_bind_Inr wr_lift_Inr split: option.splits)
  then show ?case using Cons.IH [OF one(3)] emit_written [OF one(2)] by (auto intro: entries_written_Cons)
qed

lemma inventory_ok_index: "inventory_ok l \<Longrightarrow> i < length (inv_entries l) \<Longrightarrow> pe_index (inv_entries l ! i) = i"
  unfolding inventory_ok_def by (metis (no_types) add_0 length_map nth_map nth_upt)

interpretation zip_backend: archive_backend zip_opened za_inventory zip_decode zip_held
proof
  fix a assume "zip_opened a"
  then obtain src where "zip_open src = Inr a" by (auto simp: zip_opened_def)
  then obtain r l where "a = \<lparr>za_reader = r, za_inventory = l\<rparr>" "zip_list 0 (zr_headers r) (empty_inventory ZipContainer) = Inr l"
    by (cases src) (auto simp: zip_open_def res_simps)
  then show ok: "inventory_ok (za_inventory a)"
    using zip_list_ok [OF _ empty_inventory_ok] by (auto simp: empty_inventory_def)
  fix faults out u out' assume "zip_decode faults a out = (Inr u, out')"
  from zip_emit_written [OF this [unfolded zip_decode_def]]
  show "entries_written (zip_held a) out out'" "sizes_right (za_inventory a) (zip_held a)"
    using ok by (auto simp: zip_held_def sizes_right_def list_all_length inventory_ok_index)
  show "distinct (map fst (zip_held a)) \<and> set (map fst (zip_held a)) = {..<length (inv_entries (za_inventory a))}"
  proof -
    have "map fst (zip_held a) = map pe_index (inv_entries (za_inventory a))" by (simp add: zip_held_def)
    then show ?thesis using ok unfolding inventory_ok_def by (simp only:) (auto simp: atLeast0LessThan)
  qed
qed

section \<open>7z\<close>

definition marks :: "nat \<Rightarrow> nat set \<Rightarrow> bool list" where
  "marks n S = map (\<lambda>i. i \<in> S) [0..<n]"

lemma marks_simps [simp]:
  "length (marks n S) = n" "i < n \<Longrightarrow> marks n S ! i \<longleftrightarrow> i \<in> S"
  "i < n \<Longrightarrow> (marks n S)[i := True] = marks n (insert i S)" "marks n {} = replicate n False"
  by (auto simp: marks_def list_eq_iff_nth_eq nth_list_update)

lemma marks_all: "\<not> list_ex Not (marks n S) \<longleftrightarrow> {..<n} \<subseteq> S"
  by (auto simp: marks_def list_ex_iff)

definition block_held :: "sevenz_env \<Rightarrow> sevenz_archive \<Rightarrow> nat \<Rightarrow> (nat \<times> byte list) list" where
  "block_held env a b =
     (let es = fst (se_block_entries env (sa_metadata a) b) in
      zip (take (length es) (drop (sm_first_files (sa_metadata a) ! b) (sa_physical a))) (map (stream_bytes \<circ> snd) es))"

definition blocks_held :: "sevenz_env \<Rightarrow> sevenz_archive \<Rightarrow> (nat \<times> byte list) list" where
  "blocks_held env a = concat (map (block_held env a) [0..<length (sm_blocks (sa_metadata a))])"

definition empties :: "physical_entry list \<Rightarrow> nat set \<Rightarrow> nat \<Rightarrow> nat list" where
  "empties es S k = filter (\<lambda>i. i \<notin> S \<and> pe_block (es ! i) = None) [k..<length es]"

definition sevenz_held :: "sevenz_env \<Rightarrow> sevenz_archive \<Rightarrow> (nat \<times> byte list) list" where
  "sevenz_held env a = blocks_held env a
     @ map (\<lambda>i. (i, [])) (empties (inv_entries (sa_inventory a)) (set (map fst (blocks_held env a))) 0)"

lemma take_drop_nth: "i < length xs \<Longrightarrow> take (Suc k) (drop i xs) = xs ! i # take k (drop (Suc i) xs)"
  by (simp add: Cons_nth_drop_Suc [symmetric])

lemma sevenz_entries_written:
  "sevenz_entries faults a pos (marks n S) es out = (Inr seen, out') \<Longrightarrow>
   length (take (length es) (drop pos (sa_physical a))) = length es
   \<and> distinct (take (length es) (drop pos (sa_physical a)))
   \<and> set (take (length es) (drop pos (sa_physical a))) \<subseteq> {..<n} - S
   \<and> seen = marks n (S \<union> set (take (length es) (drop pos (sa_physical a))))
   \<and> entries_written (zip (take (length es) (drop pos (sa_physical a))) (map (stream_bytes \<circ> snd) es)) out out'
   \<and> list_all (\<lambda>e. length (stream_bytes (snd e)) = unat (fst e)) es"
proof (induction es arbitrary: pos S out)
  case Nil
  then show ?case by (simp add: wr_lift_Inr entries_written_Nil)
next
  case (Cons e es)
  obtain declared stream where e: "e = (declared, stream)" by (cases e)
  let ?i = "sa_physical a ! pos"
  from Cons.prems obtain mid where one: "pos < length (sa_physical a)" "?i < n" "?i \<notin> S"
    "emit faults ?i declared stream out = (Inr (), mid)"
    "sevenz_entries faults a (Suc pos) (marks n (insert ?i S)) es mid = (Inr seen, out')"
    by (auto simp: e Let_def wr_bind_Inr wr_lift_Inr not_le split: if_splits)
  from Cons.IH [OF one(5)] emit_written [OF one(4)] one(1-3) show ?case
    by (auto simp: e take_drop_nth intro: entries_written_Cons)
qed

lemma sevenz_blocks_written:
  "sevenz_blocks env faults a bs (marks n S) out = (Inr seen, out') \<Longrightarrow>
   distinct (map fst (concat (map (block_held env a) bs)))
   \<and> set (map fst (concat (map (block_held env a) bs))) \<subseteq> {..<n} - S
   \<and> seen = marks n (S \<union> set (map fst (concat (map (block_held env a) bs))))
   \<and> entries_written (concat (map (block_held env a) bs)) out out'
   \<and> list_all (\<lambda>b. list_all (\<lambda>e. length (stream_bytes (snd e)) = unat (fst e)) (fst (se_block_entries env (sa_metadata a) b))) bs"
proof (induction bs arbitrary: S out)
  case Nil
  then show ?case by (simp add: wr_lift_Inr entries_written_Nil)
next
  case (Cons b bs)
  let ?es = "fst (se_block_entries env (sa_metadata a) b)"
  let ?is = "take (length ?es) (drop (sm_first_files (sa_metadata a) ! b) (sa_physical a))"
  from Cons.prems obtain seen' mid where one:
    "sevenz_entries faults a (sm_first_files (sa_metadata a) ! b) (marks n S) ?es out = (Inr seen', mid)"
    "sevenz_blocks env faults a bs seen' mid = (Inr seen, out')"
    by (auto simp: wr_bind_Inr wr_lift_Inr split: if_splits prod.splits)
  note first = sevenz_entries_written [OF one(1)]
  have fsts: "map fst (block_held env a b) = ?is" using first by (simp add: block_held_def Let_def)
  from one(2) first have "sevenz_blocks env faults a bs (marks n (S \<union> set ?is)) mid = (Inr seen, out')" by simp
  from Cons.IH [OF this] first fsts show ?case
    by (auto simp: Un_assoc block_held_def Let_def intro: entries_written_append)
qed

lemma sevenz_empties_written:
  "sevenz_empties faults k (drop k es) (marks n S) out = (Inr seen, out') \<Longrightarrow> length es \<le> n \<Longrightarrow>
   seen = marks n (S \<union> set (empties es S k)) \<and> entries_written (map (\<lambda>i. (i, [])) (empties es S k)) out out'
   \<and> list_all (\<lambda>i. pe_size (es ! i) = 0) (empties es S k)"
proof (induction "length es - k" arbitrary: k S out)
  case 0
  then show ?case by (simp add: empties_def wr_lift_Inr entries_written_Nil)
next
  case (Suc m)
  then have k: "k < length es" "drop k es = es ! k # drop (Suc k) es" by (simp_all add: Cons_nth_drop_Suc)
  have m: "m = length es - Suc k" using Suc.hyps(2) by simp
  have later: "empties es (insert k S) (Suc k) = empties es S (Suc k)" by (auto simp: empties_def intro: filter_cong)
  show ?case
  proof (cases "k \<notin> S \<and> pe_block (es ! k) = None")
    case True
    then have emp: "empties es S k = k # empties es S (Suc k)" using k(1) by (simp add: empties_def upt_conv_Cons)
    from True obtain mid where one: "emit faults k (pe_size (es ! k)) [] out = (Inr (), mid)"
      "sevenz_empties faults (Suc k) (drop (Suc k) es) (marks n (insert k S)) mid = (Inr seen, out')"
      using Suc.prems k by (auto simp: wr_bind_Inr)
    from Suc.hyps(1) [OF m one(2) Suc.prems(2)] emit_written [OF one(1)] show ?thesis
      by (auto simp: emp later unat_eq_0 intro: entries_written_Cons)
  next
    case False
    then have emp: "empties es S k = empties es S (Suc k)" using k(1) by (auto simp: empties_def upt_conv_Cons)
    have "sevenz_empties faults (Suc k) (drop (Suc k) es) (marks n S) out = (Inr seen, out')"
      using Suc.prems k False by auto
    from Suc.hyps(1) [OF m this Suc.prems(2)] show ?thesis by (simp add: emp)
  qed
qed

text \<open>What the block decoder is relied on for: it hands out the files of its block in order.\<close>

definition decoder_in_order :: "sevenz_env \<Rightarrow> bool" where
  "decoder_in_order env \<longleftrightarrow> (\<forall>m b k. k < length (fst (se_block_entries env m b)) \<longrightarrow>
     sm_first_files m ! b + k < length (sm_files m) \<longrightarrow>
     fst (fst (se_block_entries env m b) ! k) = sf_size (sm_files m ! (sm_first_files m ! b + k)))"

lemma compact_file_invariant:
  assumes "fold_res (compact_file m) [0..<length (sm_files m)] cp = Inr cp'"
    and "cp_files cp = map ((!) (sm_files m)) (cp_physical cp)" "set (cp_physical cp) \<subseteq> {..<length (sm_files m)}"
  shows "cp_files cp' = map ((!) (sm_files m)) (cp_physical cp') \<and> set (cp_physical cp') \<subseteq> {..<length (sm_files m)}"
  by (rule fold_res_invariant [OF assms(1)])
    (use assms(2,3) in \<open>auto simp: compact_file_def res_simps split: if_splits\<close>)

lemma sevenz_entry_Inr:
  "sevenz_entry env m i = Inr e \<Longrightarrow> pe_index e = i \<and> pe_size e = sf_size (sm_files m ! i) \<and> block_in (length (sm_blocks m)) e"
  by (auto simp: sevenz_entry_def Let_def res_simps block_in_def split: option.splits if_splits)

lemma sevenz_open_Inr:
  assumes "sevenz_open env limits parsed = Inr a"
  shows "inventory_ok (sa_inventory a)"
    and "\<exists>files. length files = length (inv_entries (sa_inventory a))
      \<and> sm_files (sa_metadata a) = map ((!) files) (sa_physical a)
      \<and> set (sa_physical a) \<subseteq> {..<length files}
      \<and> (\<forall>i < length files. pe_size (inv_entries (sa_inventory a) ! i) = sf_size (files ! i))"
proof -
  obtain m blocks entries cp starts where one: "length (sm_blocks m) \<le> length (sm_files m)"
    "map_res (sevenz_packed m) [0..<length (sm_blocks m)] = Inr blocks"
    "map_res (sevenz_entry env m) [0..<length (sm_files m)] = Inr entries"
    "fold_res (compact_file m) [0..<length (sm_files m)]
      \<lparr>cp_starts = replicate (length (sm_blocks m)) None, cp_physical = [], cp_files = [], cp_previous = None\<rparr> = Inr cp"
    and a: "a = \<lparr>sa_metadata = m\<lparr>sm_files := cp_files cp, sm_first_files := starts,
        sm_file_block := map (\<lambda>i. pe_block (entries ! i)) (cp_physical cp)\<rparr>, sa_physical = cp_physical cp,
      sa_inventory = \<lparr>inv_container = SevenZContainer, inv_entries = entries, inv_blocks = blocks\<rparr>\<rparr>"
    using assms by (auto simp: sevenz_open_def Let_def res_simps not_less split: if_splits)
  have lens: "length blocks = length (sm_blocks m)" "length entries = length (sm_files m)"
    using one(2,3) by (auto simp: map_res_Inr_iff dest: list_all2_lengthD)
  have each: "pe_index (entries ! i) = i \<and> pe_size (entries ! i) = sf_size (sm_files m ! i)
      \<and> block_in (length (sm_blocks m)) (entries ! i)" if "i < length entries" for i
    by (rule sevenz_entry_Inr [of env m])
      (use one(3) that lens in \<open>auto simp: map_res_Inr_iff list_all2_conv_all_nth\<close>)
  have "map pe_index entries = [0..<length entries]" by (rule nth_equalityI) (use each in simp_all)
  moreover have "list_all (block_in (length blocks)) entries" unfolding list_all_length lens(1) using each by blast
  ultimately show "inventory_ok (sa_inventory a)"
    unfolding inventory_ok_def a using lens one(1) by simp
  show "\<exists>files. length files = length (inv_entries (sa_inventory a))
      \<and> sm_files (sa_metadata a) = map ((!) files) (sa_physical a)
      \<and> set (sa_physical a) \<subseteq> {..<length files}
      \<and> (\<forall>i < length files. pe_size (inv_entries (sa_inventory a) ! i) = sf_size (files ! i))"
    using compact_file_invariant [OF one(4)] each lens by (intro exI [of _ "sm_files m"]) (simp add: a)
qed

definition sevenz_opened :: "sevenz_env \<Rightarrow> sevenz_archive \<Rightarrow> bool" where
  "sevenz_opened env a \<longleftrightarrow> decoder_in_order env \<and> (\<exists>limits parsed. sevenz_open env limits parsed = Inr a)"

lemma sevenz_decode_Inr:
  assumes "sevenz_decode env faults a out = (Inr u, out')"
  shows "entries_written (sevenz_held env a) out out'"
    and "distinct (map fst (sevenz_held env a))"
    and "set (map fst (sevenz_held env a)) = {..<length (inv_entries (sa_inventory a))}"
    and "list_all (\<lambda>b. list_all (\<lambda>e. length (stream_bytes (snd e)) = unat (fst e)) (fst (se_block_entries env (sa_metadata a) b)))
      [0..<length (sm_blocks (sa_metadata a))]"
    and "list_all (\<lambda>i. pe_size (inv_entries (sa_inventory a) ! i) = 0)
      (empties (inv_entries (sa_inventory a)) (set (map fst (blocks_held env a))) 0)"
proof -
  let ?es = "inv_entries (sa_inventory a)" and ?B = "blocks_held env a"
  let ?n = "length ?es" and ?S = "set (map fst (blocks_held env a))"
  obtain seen mid seen' where one:
    "sevenz_blocks env faults a [0..<length (sm_blocks (sa_metadata a))] (marks ?n {}) out = (Inr seen, mid)"
    "sevenz_empties faults 0 ?es seen mid = (Inr seen', out')" "\<not> list_ex Not seen'"
    using assms by (auto simp: sevenz_decode_def Let_def wr_bind_Inr wr_lift_Inr split: if_splits)
  note blocks = sevenz_blocks_written [OF one(1), folded blocks_held_def]
  have "sevenz_empties faults 0 (drop 0 ?es) (marks ?n ?S) mid = (Inr seen', out')" using one(2) blocks by simp
  note rest = sevenz_empties_written [OF this order.refl]
  show "entries_written (sevenz_held env a) out out'"
    unfolding sevenz_held_def using blocks rest by (blast intro: entries_written_append)
  have fsts: "map fst (sevenz_held env a) = map fst ?B @ empties ?es ?S 0"
    by (simp add: sevenz_held_def comp_def)
  show "distinct (map fst (sevenz_held env a))" unfolding fsts using blocks by (auto simp: empties_def)
  have "{..<?n} \<subseteq> ?S \<union> set (empties ?es ?S 0)" using one(3) rest marks_all by metis
  then show "set (map fst (sevenz_held env a)) = {..<?n}"
    unfolding fsts using blocks by (auto simp: empties_def)
  show "list_all (\<lambda>b. list_all (\<lambda>e. length (stream_bytes (snd e)) = unat (fst e)) (fst (se_block_entries env (sa_metadata a) b)))
      [0..<length (sm_blocks (sa_metadata a))]"
    using blocks by blast
  show "list_all (\<lambda>i. pe_size (?es ! i) = 0) (empties ?es ?S 0)" using rest by blast
qed

lemma sevenz_sizes:
  assumes "sevenz_opened env a" "sevenz_decode env faults a out = (Inr u, out')"
  shows "sizes_right (sa_inventory a) (sevenz_held env a)"
proof -
  let ?es = "inv_entries (sa_inventory a)" and ?m = "sa_metadata a"
  obtain files where files: "sm_files ?m = map ((!) files) (sa_physical a)" "set (sa_physical a) \<subseteq> {..<length files}"
    "\<forall>i < length files. pe_size (?es ! i) = sf_size (files ! i)"
    using assms(1) sevenz_open_Inr(2) by (fastforce simp: sevenz_opened_def)
  note run = sevenz_decode_Inr [OF assms(2)]
  have "length bytes = unat (pe_size (?es ! i))" if mem: "(i, bytes) \<in> set (block_held env a b)" "b < length (sm_blocks ?m)" for i bytes b
  proof -
    let ?ds = "fst (se_block_entries env ?m b)" and ?start = "sm_first_files ?m ! b"
    obtain k where k: "k < length ?ds" "?start + k < length (sa_physical a)" "i = sa_physical a ! (?start + k)"
      "bytes = stream_bytes (snd (?ds ! k))"
      using mem(1) by (auto simp: block_held_def Let_def in_set_zip)
    have "fst (?ds ! k) = sf_size (sm_files ?m ! (?start + k))"
      using assms(1) k(1,2) files(1) by (simp add: sevenz_opened_def decoder_in_order_def)
    also have "\<dots> = sf_size (files ! i)" using files(1) k(2,3) by simp
    also have "\<dots> = pe_size (?es ! i)" using files(2,3) k(2,3) by (metis lessThan_iff nth_mem subsetD)
    finally have "fst (?ds ! k) = pe_size (?es ! i)" .
    moreover have "length bytes = unat (fst (?ds ! k))" using run(4) mem(2) k(1,4) by (auto simp: list_all_length)
    ultimately show ?thesis by simp
  qed
  then show ?thesis
    using run(5) by (auto simp: sizes_right_def sevenz_held_def blocks_held_def list_all_iff)
qed

interpretation sevenz_backend: archive_backend "sevenz_opened env" sa_inventory "sevenz_decode env" "sevenz_held env" for env
proof
  fix a assume opened: "sevenz_opened env a"
  then show "inventory_ok (sa_inventory a)" using sevenz_open_Inr(1) by (auto simp: sevenz_opened_def)
  fix faults out u out' assume run: "sevenz_decode env faults a out = (Inr u, out')"
  show "entries_written (sevenz_held env a) out out'"
    "distinct (map fst (sevenz_held env a)) \<and> set (map fst (sevenz_held env a)) = {..<length (inv_entries (sa_inventory a))}"
    using sevenz_decode_Inr [OF run] by blast+
  show "sizes_right (sa_inventory a) (sevenz_held env a)" by (rule sevenz_sizes [OF opened run])
qed

text \<open>The files of a block are a range: the subtraction that counts them never wraps.\<close>

definition starts_ok :: "compaction \<Rightarrow> bool" where
  "starts_ok cp \<longleftrightarrow>
     (\<forall>b s. b < length (cp_starts cp) \<longrightarrow> cp_starts cp ! b = Some s \<longrightarrow>
        s < length (cp_files cp) \<and> (\<exists>p. cp_previous cp = Some p \<and> b \<le> p))
     \<and> (\<forall>b c s t. b < c \<longrightarrow> c < length (cp_starts cp) \<longrightarrow> cp_starts cp ! b = Some s \<longrightarrow> cp_starts cp ! c = Some t \<longrightarrow> s < t)
     \<and> (\<forall>p. cp_previous cp = Some p \<longrightarrow> cp_starts cp ! p \<noteq> None)"

lemma compact_file_starts:
  assumes "compact_file m i cp = Inr cp'" "starts_ok cp"
  shows "starts_ok cp' \<and> length (cp_starts cp') = length (cp_starts cp)"
proof (cases "sf_has_stream (sm_files m ! i)")
  case False
  then show ?thesis using assms by (simp add: compact_file_def)
next
  case True
  then obtain block where b: "block < length (cp_starts cp)" "\<And>p. cp_previous cp = Some p \<Longrightarrow> p \<le> block"
    "cp' = \<lparr>cp_starts = (if cp_starts cp ! block = None then (cp_starts cp)[block := Some (length (cp_files cp))] else cp_starts cp),
        cp_physical = cp_physical cp @ [i], cp_files = cp_files cp @ [sm_files m ! i], cp_previous = Some block\<rparr>"
    using assms(1) by (auto simp: compact_file_def res_simps is_some_and_def not_less split: if_splits option.splits)
  show ?thesis
  proof (cases "cp_starts cp ! block")
    case None
    have below: "c < block" "t < length (cp_files cp)" if c: "c < length (cp_starts cp)" "cp_starts cp ! c = Some t" for c t
    proof -
      obtain p where "cp_previous cp = Some p" "c \<le> p" and t: "t < length (cp_files cp)"
        using assms(2) c unfolding starts_ok_def by blast
      then have "c \<le> block" using b(2) le_trans by blast
      moreover have "c \<noteq> block" using c(2) None by auto
      ultimately show "c < block" "t < length (cp_files cp)" using t by simp_all
    qed
    have old: "s < t" if "x < y" "y < length (cp_starts cp)" "cp_starts cp ! x = Some s" "cp_starts cp ! y = Some t" for x y s t
      using assms(2) that unfolding starts_ok_def by blast
    have cp': "cp' = \<lparr>cp_starts = (cp_starts cp)[block := Some (length (cp_files cp))],
        cp_physical = cp_physical cp @ [i], cp_files = cp_files cp @ [sm_files m ! i], cp_previous = Some block\<rparr>"
      using b(3) None by simp
    have "t < Suc (length (cp_files cp)) \<and> c \<le> block"
      if "c < length (cp_starts cp)" "(cp_starts cp)[block := Some (length (cp_files cp))] ! c = Some t" for c t
      using that below [of c t] b(1) by (cases "c = block") auto
    moreover have "s < t" if "x < y" "y < length (cp_starts cp)"
      "(cp_starts cp)[block := Some (length (cp_files cp))] ! x = Some s"
      "(cp_starts cp)[block := Some (length (cp_files cp))] ! y = Some t" for x y s t
      using that below [of x s] below [of y t] old [of x y s t] b(1) by (cases "x = block"; cases "y = block") auto
    moreover have "(cp_starts cp)[block := Some (length (cp_files cp))] ! block \<noteq> None" using b(1) by simp
    ultimately show ?thesis
      unfolding starts_ok_def cp' compaction.simps length_list_update length_append_singleton by blast
  next
    case (Some s)
    then have cp': "cp' = \<lparr>cp_starts = cp_starts cp, cp_physical = cp_physical cp @ [i],
        cp_files = cp_files cp @ [sm_files m ! i], cp_previous = Some block\<rparr>"
      using b(3) by simp
    have "t < Suc (length (cp_files cp)) \<and> c \<le> block" if "c < length (cp_starts cp)" "cp_starts cp ! c = Some t" for c t
      using assms(2) that b(2) unfolding starts_ok_def by (metis le_trans less_SucI)
    moreover have "cp_starts cp ! block \<noteq> None" using Some by simp
    ultimately show ?thesis
      using assms(2) unfolding starts_ok_def cp' compaction.simps length_append_singleton by blast
  qed
qed

lemma block_range_ordered:
  assumes "sevenz_open env limits parsed = Inr a" "b < length (sm_blocks (sa_metadata a))"
  shows "fst (block_range (sa_metadata a) b) < snd (block_range (sa_metadata a) b)"
proof -
  obtain m cp starts where one: "fold_res (compact_file m) [0..<length (sm_files m)]
      \<lparr>cp_starts = replicate (length (sm_blocks m)) None, cp_physical = [], cp_files = [], cp_previous = None\<rparr> = Inr cp"
    "collect_some (cp_starts cp) = Some starts" "sm_blocks (sa_metadata a) = sm_blocks m"
    and a: "sm_files (sa_metadata a) = cp_files cp" "sm_first_files (sa_metadata a) = starts"
    using assms(1) by (auto simp: sevenz_open_def Let_def res_simps not_less split: if_splits)
  have "starts_ok cp \<and> length (cp_starts cp) = length (sm_blocks m)"
  proof (rule fold_res_invariant [OF one(1)])
    show "starts_ok cp' \<and> length (cp_starts cp') = length (sm_blocks m)"
      if "starts_ok cp \<and> length (cp_starts cp) = length (sm_blocks m)" "compact_file m i cp = Inr cp'" for i cp cp'
      using compact_file_starts [OF that(2)] that(1) by simp
  qed (simp add: starts_ok_def)
  then have ok: "starts_ok cp" and len: "length (cp_starts cp) = length (sm_blocks m)" by simp_all
  have starts: "length starts = length (sm_blocks m)" "\<And>i. i < length (sm_blocks m) \<Longrightarrow> cp_starts cp ! i = Some (starts ! i)"
    using one(2) len by (auto simp: collect_some_def list_all_length split: if_splits)
  have b: "b < length (sm_blocks m)" using assms(2) one(3) by simp
  have "starts ! b < length (cp_files cp)" using ok len starts(2) [OF b] b unfolding starts_ok_def by metis
  moreover have "starts ! b < starts ! Suc b" if "Suc b < length (sm_blocks m)"
    using ok len starts(2) [OF b] starts(2) [OF that] that unfolding starts_ok_def by (metis lessI)
  ultimately show ?thesis by (simp add: block_range_def nth_or_def a starts(1))
qed

section \<open>RAR\<close>

fun message_bytes :: "rar_message \<Rightarrow> byte list" where
  "message_bytes (UCM_PROCESSDATA (Some bytes)) = bytes"
| "message_bytes _ = []"

definition step_bytes :: "rar_step \<Rightarrow> byte list" where
  "step_bytes st = concat (map message_bytes (rs_messages st))"

definition rar_held :: "rar_native \<Rightarrow> rar_archive \<Rightarrow> (nat \<times> byte list) list" where
  "rar_held native a = map (\<lambda>k. (k, step_bytes (rn_step native k))) [0..<length (ra_headers a)]"

definition rar_opened :: "rar_archive \<Rightarrow> bool" where
  "rar_opened a \<longleftrightarrow> (\<exists>env archive listed verified limits. rar_open env archive listed verified limits = Inr a)"

lemma chunks_concat: "0 < n \<Longrightarrow> concat (chunks n xs) = xs \<and> [] \<notin> set (chunks n xs)"
  by (induction n xs rule: chunks.induct) (auto simp: chunks.simps [of _ "_ :: 'a list"])

lemma write_chunks_Inr: "write_chunks faults cs out = (Inr u, out') \<Longrightarrow> emits out out' (map (Pair DATA) cs)"
proof (induction cs arbitrary: out)
  case Nil
  then show ?case by (simp add: wr_lift_Inr emits_refl)
next
  case (Cons c cs)
  then obtain mid where "frame faults DATA c out = (Inr (), mid)" "write_chunks faults cs mid = (Inr u, out')"
    by (auto simp: wr_bind_Inr)
  then show ?case using Cons.IH emits_trans [OF frame_Inr] by fastforce
qed

lemma callback_Inr:
  assumes "callback faults declared written m out = (Inr written', out')"
  shows "\<exists>cs. emits out out' (map (Pair DATA) cs) \<and> [] \<notin> set cs \<and> concat cs = message_bytes m
    \<and> written' = written + length (message_bytes m)"
proof -
  obtain bytes where m: "m = UCM_PROCESSDATA (Some bytes)" "written' = written + length bytes"
    "write_chunks faults (chunks MAX_FRAME bytes) out = (Inr (), out')"
    using assms by (cases "(faults, declared, written, m)" rule: callback.cases)
      (auto simp: Let_def wr_bind_Inr wr_lift_Inr split: if_splits)
  then show ?thesis
    using write_chunks_Inr [OF m(3)] chunks_concat [of MAX_FRAME bytes] by (auto simp: MAX_FRAME_def)
qed

lemma run_callbacks_Inr:
  "run_callbacks faults declared written ms out = (Inr written', out') \<Longrightarrow>
   \<exists>cs. emits out out' (map (Pair DATA) cs) \<and> [] \<notin> set cs \<and> concat cs = concat (map message_bytes ms)
     \<and> written' = written + length (concat (map message_bytes ms))"
proof (induction ms arbitrary: written out)
  case Nil
  then show ?case using emits_refl by (intro exI [of _ "[]"]) (simp add: wr_lift_Inr)
next
  case (Cons m ms)
  then obtain w mid where one: "callback faults declared written m out = (Inr w, mid)"
    "run_callbacks faults declared w ms mid = (Inr written', out')" by (auto simp: wr_bind_Inr)
  obtain cs where cs: "emits out mid (map (Pair DATA) cs)" "[] \<notin> set cs" "concat cs = message_bytes m"
    "w = written + length (message_bytes m)" using callback_Inr [OF one(1)] by blast
  obtain ds where ds: "emits mid out' (map (Pair DATA) ds)" "[] \<notin> set ds" "concat ds = concat (map message_bytes ms)"
    "written' = w + length (concat (map message_bytes ms))" using Cons.IH [OF one(2)] by blast
  show ?case using cs ds emits_trans [OF cs(1) ds(1)] by (intro exI [of _ "cs @ ds"]) simp
qed

lemma rar_emit_written:
  "rar_emit faults steps k hs out = (Inr u, out') \<Longrightarrow>
   entries_written (map (\<lambda>i. (i, step_bytes (steps i))) [k..<k + length hs]) out out'
   \<and> (\<forall>i < length hs. length (step_bytes (steps (k + i))) = unat (hd_size (hs ! i)))"
proof (induction hs arbitrary: k out)
  case Nil
  then show ?case by (auto simp: wr_lift_Inr entries_written_Nil)
next
  case (Cons h hs)
  obtain a b c where one: "frame faults BEGIN (le_bytes 8 k) out = (Inr (), a)"
    "run_callbacks faults (hd_size h) 0 (rs_messages (steps k)) a = (Inr (unat (hd_size h)), b)"
    "frame faults END (le_bytes 8 k) b = (Inr (), c)" "rar_emit faults steps (Suc k) hs c = (Inr u, out')"
    using Cons.prems by (auto simp: wr_bind_Inr wr_lift_Inr split: option.splits if_splits)
  obtain cs where cs: "emits a b (map (Pair DATA) cs)" "[] \<notin> set cs" "concat cs = step_bytes (steps k)"
    "unat (hd_size h) = length (step_bytes (steps k))"
    using run_callbacks_Inr [OF one(2)] by (auto simp: step_bytes_def)
  have "emits out c (entry_frames k cs)"
    using emits_trans [OF frame_Inr [OF one(1)] emits_trans [OF cs(1) frame_Inr [OF one(3)]]] by (simp add: entry_frames_def)
  then have "entries_written [(k, step_bytes (steps k))] out c"
    unfolding entries_written_def using cs(2,3) by (intro exI [of _ "[cs]"]) simp
  moreover have "[k..<k + length (h # hs)] = k # [Suc k..<Suc k + length hs]" by (simp add: upt_conv_Cons del: upt_Suc)
  ultimately show ?case
    using Cons.IH [OF one(4)] cs(4) entries_written_Cons
    by (auto simp: less_Suc_eq_0_disj simp del: upt_Suc)
qed

lemma rar_block_Inr:
  "rar_block h original blocks = Inr (b, blocks') \<Longrightarrow>
   length blocks \<le> length blocks' \<and> length blocks' \<le> Suc (length blocks)
   \<and> (case b of None \<Rightarrow> True | Some i \<Rightarrow> i < length blocks')"
  by (auto simp: rar_block_def Let_def res_simps split: if_splits)

lemma rar_list_Inr:
  "rar_list steps k hs l = Inr l' \<Longrightarrow> inventory_ok l \<Longrightarrow> k = length (inv_entries l) \<Longrightarrow>
   inventory_ok l' \<and> map pe_size (inv_entries l') = map pe_size (inv_entries l) @ map hd_size hs"
proof (induction hs arbitrary: k l)
  case Nil
  then show ?case by (auto simp: res_simps split: if_splits)
next
  case (Cons h hs)
  then obtain nh b blocks where one: "rar_block nh h (inv_blocks l) = Inr (b, blocks)"
    "rar_list steps (Suc k) hs (l\<lparr>inv_entries := inv_entries l @ [rar_entry k nh h b], inv_blocks := blocks\<rparr>) = Inr l'"
    by (auto simp: res_simps split: option.splits if_splits)
  have "inventory_ok (l\<lparr>inv_entries := inv_entries l @ [rar_entry k nh h b], inv_blocks := blocks\<rparr>)"
    by (rule inventory_ok_extend) (use Cons.prems rar_block_Inr [OF one(1)] in \<open>simp_all add: rar_entry_def block_in_def\<close>)
  from Cons.IH [OF one(2) this] Cons.prems(3) show ?case by (simp add: rar_entry_def)
qed

lemma rar_opened_Inr:
  assumes "rar_opened a"
  shows "inventory_ok (ra_inventory a)" "map pe_size (inv_entries (ra_inventory a)) = map hd_size (ra_headers a)"
proof -
  obtain steps where "rar_list steps 0 (ra_headers a) (empty_inventory RarContainer) = Inr (ra_inventory a)"
    using assms by (auto simp: rar_opened_def rar_open_def res_simps)
  from rar_list_Inr [OF this empty_inventory_ok]
  show "inventory_ok (ra_inventory a)" "map pe_size (inv_entries (ra_inventory a)) = map hd_size (ra_headers a)"
    by (simp_all add: empty_inventory_def)
qed

interpretation rar_backend: archive_backend rar_opened ra_inventory "\<lambda>faults. rar_decode faults native" "rar_held native" for native
proof
  fix a assume opened: "rar_opened a"
  note ok = rar_opened_Inr [OF opened]
  show "inventory_ok (ra_inventory a)" by (rule ok(1))
  have len: "length (ra_headers a) = length (inv_entries (ra_inventory a))" using map_eq_imp_length_eq [OF ok(2)] by simp
  fix faults out u out' assume "rar_decode faults native a out = (Inr u, out')"
  then have "rar_emit faults (rn_step native) 0 (ra_headers a) out = (Inr u, out')"
    by (auto simp: rar_decode_def native_open_def wr_bind_Inr wr_lift_Inr split: if_splits)
  note run = rar_emit_written [OF this]
  then show "entries_written (rar_held native a) out out'" by (simp add: rar_held_def)
  show "distinct (map fst (rar_held native a)) \<and> set (map fst (rar_held native a)) = {..<length (inv_entries (ra_inventory a))}"
    using len by (auto simp: rar_held_def comp_def)
  have "hd_size (ra_headers a ! i) = pe_size (inv_entries (ra_inventory a) ! i)" if "i < length (ra_headers a)" for i
    using arg_cong [OF ok(2), of "\<lambda>xs. xs ! i"] that len by simp
  then show "sizes_right (ra_inventory a) (rar_held native a)"
    using run by (auto simp: sizes_right_def rar_held_def list_all_iff)
qed

end
