(* ===== verification/Import_Properties.thy ===== *)
theory Import_Properties
  imports Import_Protocol Backend_Properties
begin

text \<open>
  What arrives at the client: for any stream, only whole entries, byte for byte as they were sent; for
  the stream of a worker that succeeds, with heartbeats anywhere between its frames, the worker's whole
  inventory and the contents of every entry.
\<close>

section \<open>A consumer\<close>

text \<open>The client's caller reads an entry with a buffer of \<open>n\<close> bytes until a read returns nothing, and
  asks for entries until there are no more.\<close>

lemma hand_out_progress:
  "hand_out n c = (bs, c') \<Longrightarrow> bs \<noteq> [] \<Longrightarrow>
     length (co_pending c') - co_offset c' < length (co_pending c) - co_offset c"
  by (auto simp: hand_out_def Let_def)

lemma read_contents_progress:
  assumes "read_contents env n c s = (Inr (bs, c'), s')" and "bs \<noteq> []"
  shows "length (cs_rx s') < length (cs_rx s)
    \<or> cs_rx s' = cs_rx s \<and> length (co_pending c') - co_offset c' < length (co_pending c) - co_offset c"
proof (cases "co_offset c = length (co_pending c)")
  case True
  then obtain f s1 where "receive env s = (Inr f, s1)" "cs_rx s' = cs_rx s1"
    using assms
    by (auto simp: read_contents_def se_bind_def split: if_splits prod.splits sum.splits)
  then show ?thesis using receive_shorter by fastforce
next
  case False
  then show ?thesis using assms hand_out_progress
    by (auto simp: read_contents_def split: if_splits)
qed

lemma read_entry_ok: "read_entry env n c s = (Inr x, s') \<longleftrightarrow> read_contents env n c s = (Inr x, s')"
  by (auto simp: read_entry_def split: prod.splits sum.splits)

function drain :: "client_env \<Rightarrow> nat \<Rightarrow> contents \<Rightarrow> byte list \<Rightarrow> byte list session" where
  "drain env n c acc s =
     (case read_entry env n c s of
        (Inl e, s') \<Rightarrow> (Inl e, s')
      | (Inr (bs, c'), s') \<Rightarrow> if bs = [] then (Inr acc, s') else drain env n c' (acc @ bs) s')"
  by pat_completeness auto
termination
proof (relation "measures [\<lambda>(env, n, c, acc, s). length (cs_rx s),
    \<lambda>(env, n, c, acc, s). length (co_pending c) - co_offset c]", goal_cases)
  case (2 env n c acc s r s' x bs c')
  then have "read_contents env n c s = (Inr (bs, c'), s')" "bs \<noteq> []"
    using read_entry_ok by metis+
  from read_contents_progress [OF this] show ?case by auto
qed simp

declare drain.simps [simp del]

lemma receive_rx: "receive env s = (r, s') \<Longrightarrow> length (cs_rx s') \<le> length (cs_rx s)"
  by (auto simp: receive_def receive_inner_def interrupted_def fail_interrupted_def
      split: list.splits sum.splits option.splits if_splits prod.splits)

lemma read_contents_rx: "read_contents env n c s = (Inr x, s') \<Longrightarrow> length (cs_rx s') \<le> length (cs_rx s)"
  by (auto simp: read_contents_def se_bind_def split: if_splits prod.splits sum.splits dest!: receive_rx)

lemma drain_rx: "drain env n c acc s = (Inr out, s') \<Longrightarrow> length (cs_rx s') \<le> length (cs_rx s)"
proof (induction env n c acc s rule: drain.induct)
  case (1 env n c acc s)
  then obtain bs c' s1 where step: "read_entry env n c s = (Inr (bs, c'), s1)"
    and rest: "(if bs = [] then (Inr acc, s1) else drain env n c' (acc @ bs) s1) = (Inr out, s')"
    by (auto simp: drain.simps [of env n c acc s] split: prod.splits sum.splits)
  have "length (cs_rx s1) \<le> length (cs_rx s)" using step read_entry_ok read_contents_rx by metis
  moreover have "length (cs_rx s') \<le> length (cs_rx s1)"
    using rest "1.IH" [OF step [symmetric] refl refl] by (auto split: if_splits)
  ultimately show ?case by simp
qed

lemma next_entry_SomeD:
  assumes "next_entry env s = (Inr (Some i), s')"
  obtains s1 s2 data where "start_decode env (s\<lparr>cs_looks := Suc (cs_looks s)\<rparr>) = (Inr (), s1)"
    "receive env s1 = (Inr (BEGIN, data), s2)" "index_of data = Inr i"
    "i < length (inv_entries (cs_inventory s2))" "s' = s2\<lparr>cs_active := Some i\<rparr>"
    "cs_active s = None" "\<not> cs_finished s"
  using assms
  by (auto simp: next_entry_def next_index_def interrupted_def se_bind_def se_lift_def finish_def take_begin_def
      fail_interrupted_def not_le split: prod.splits sum.splits option.splits if_splits bool.splits)

lemma start_decode_fields:
  "start_decode env s = (Inr (), s') \<Longrightarrow> cs_rx s' = cs_rx s \<and> cs_inventory s' = cs_inventory s
     \<and> cs_active s' = cs_active s \<and> cs_finished s' = cs_finished s"
  by (auto simp: start_decode_def split: if_splits option.splits)

lemma next_entry_some: "next_entry env s = (Inr (Some i), s') \<Longrightarrow> length (cs_rx s') < length (cs_rx s)"
  by (elim next_entry_SomeD) (auto dest!: receive_shorter start_decode_fields)

function collect :: "client_env \<Rightarrow> nat \<Rightarrow> (nat \<times> byte list) list session" where
  "collect env n s =
     (case next_entry env s of
        (Inl e, s1) \<Rightarrow> (Inl e, s1)
      | (Inr None, s1) \<Rightarrow> (Inr [], s1)
      | (Inr (Some i), s1) \<Rightarrow>
          (case drain env n fresh_contents [] s1 of
             (Inl e, s2) \<Rightarrow> (Inl e, s2)
           | (Inr bs, s2) \<Rightarrow>
               (case collect env n s2 of
                  (Inl e, s3) \<Rightarrow> (Inl e, s3)
                | (Inr es, s3) \<Rightarrow> (Inr ((i, bs) # es), s3))))"
  by pat_completeness auto
termination
  by (relation "measure (\<lambda>(env, n, s). length (cs_rx s))")
     (auto dest!: next_entry_some [OF sym] drain_rx [OF sym])

declare collect.simps [simp del]


lemma receive_ok:
  assumes "receive env s = (Inr f, s')"
  shows "cs_rx s = Inr f # cs_rx s' \<and> fst f \<noteq> FAILURE \<and> cs_inventory s' = cs_inventory s
    \<and> cs_active s' = cs_active s \<and> cs_finished s' = cs_finished s \<and> cs_started s' = cs_started s"
  using assms
  by (auto simp: receive_def receive_inner_def interrupted_def fail_interrupted_def
      split: list.splits sum.splits option.splits if_splits prod.splits)

section \<open>Any stream\<close>

lemma index_of_le_bytes: "index_of data = Inr i \<Longrightarrow> data = le_bytes 8 i \<and> i < 2 ^ 64"
  using le_bytes_le_value [of data] le_value_less [of data] by (auto simp: index_of_def split: if_splits)

definition left :: "contents \<Rightarrow> byte list" where
  "left c = drop (co_offset c) (co_pending c)"

lemma hand_out_left: "hand_out n c = (bs, c') \<Longrightarrow> left c = bs @ left c' \<and> co_ended c' = co_ended c"
  by (auto simp: hand_out_def left_def Let_def)
     (metis add.commute append_take_drop_id drop_drop min.cobounded2 min_def nat_le_linear take_all_iff)

text \<open>One read: nothing is lost, nothing is invented, and the end is only reported at the end of the
  entry that was begun.\<close>

definition contents_ok :: "contents \<Rightarrow> bool" where
  "contents_ok c \<longleftrightarrow> \<not> co_ended c \<and> co_offset c \<le> length (co_pending c)"

lemma hand_out_ok:
  "hand_out n c = (bs, c') \<Longrightarrow> contents_ok c \<Longrightarrow> 0 < n \<Longrightarrow> left c \<noteq> [] \<Longrightarrow> bs \<noteq> [] \<and> contents_ok c'"
  by (auto simp: hand_out_def contents_ok_def left_def Let_def)

definition same_entry :: "client_session \<Rightarrow> client_session \<Rightarrow> bool" where
  "same_entry s s' \<longleftrightarrow> cs_inventory s' = cs_inventory s \<and> cs_finished s' = cs_finished s \<and> cs_started s' = cs_started s"

lemma read_contents_ok:
  assumes "read_contents env n c s = (Inr (bs, c'), s')" and "0 < n" "contents_ok c"
  shows "same_entry s s' \<and>
    (bs \<noteq> [] \<and> contents_ok c' \<and> cs_active s' = cs_active s
      \<and> (\<exists>chunks. cs_rx s = map (Inr \<circ> Pair DATA) chunks @ cs_rx s' \<and> left c @ concat chunks = bs @ left c')
    \<or> bs = [] \<and> left c = [] \<and> cs_active s' = None
      \<and> (\<exists>i. cs_active s = Some i \<and> i < 2 ^ 64 \<and> cs_rx s = Inr (END, le_bytes 8 i) # cs_rx s'))"
proof (cases "co_offset c = length (co_pending c)")
  case False
  then have h: "hand_out n c = (bs, c')" "s' = s" "left c \<noteq> []"
    using assms by (auto simp: read_contents_def contents_ok_def left_def)
  have "cs_rx s = map (Inr \<circ> Pair DATA) [] @ cs_rx s' \<and> left c @ concat [] = bs @ left c'"
    using hand_out_left [OF h(1)] h(2) by simp
  then show ?thesis
    using hand_out_ok [OF h(1) assms(3,2) h(3)] h(2) unfolding same_entry_def by blast
next
  case True
  then have l: "left c = []" by (simp add: left_def)
  obtain tag data s1 where rcv: "receive env s = (Inr (tag, data), s1)"
    using assms True by (auto simp: read_contents_def se_bind_def contents_ok_def split: prod.splits sum.splits)
  note facts = receive_ok [OF rcv]
  consider i where "tag = END" "index_of data = Inr i" "cs_active s1 = Some i" "bs = []" "s' = s1\<lparr>cs_active := None\<rparr>"
    | "tag = DATA" "data \<noteq> []" "hand_out n (c\<lparr>co_pending := data, co_offset := 0\<rparr>) = (bs, c')" "s' = s1"
    using assms True rcv
    by (auto simp: read_contents_def se_bind_def contents_ok_def split: if_splits sum.splits)
  then show ?thesis
  proof cases
    case 1
    then show ?thesis using facts index_of_le_bytes [OF 1(2)] l by (auto simp: same_entry_def)
  next
    case 2
    have "contents_ok (c\<lparr>co_pending := data, co_offset := 0\<rparr>)" "left (c\<lparr>co_pending := data, co_offset := 0\<rparr>) = data"
      using assms(3) by (simp_all add: contents_ok_def left_def)
    then have "bs \<noteq> [] \<and> contents_ok c'" "data = bs @ left c'"
      using hand_out_ok [OF 2(3)] hand_out_left [OF 2(3)] assms(2) 2(2) by auto
    then show ?thesis using facts 2 l by (auto simp: same_entry_def intro!: exI [of _ "[data]"])
  qed
qed

lemma drain_exact:
  "drain env n c acc s = (Inr out, s') \<Longrightarrow> 0 < n \<Longrightarrow> contents_ok c \<Longrightarrow>
   \<exists>chunks i. cs_rx s = map (Inr \<circ> Pair DATA) chunks @ Inr (END, le_bytes 8 i) # cs_rx s'
     \<and> out = acc @ left c @ concat chunks \<and> cs_active s = Some i \<and> i < 2 ^ 64
     \<and> cs_active s' = None \<and> same_entry s s'"
proof (induction env n c acc s rule: drain.induct)
  case (1 env n c acc s)
  obtain bs c' s1 where step: "read_entry env n c s = (Inr (bs, c'), s1)"
    and rest: "(if bs = [] then (Inr acc, s1) else drain env n c' (acc @ bs) s1) = (Inr out, s')"
    using "1.prems"(1) by (auto simp: drain.simps [of env n c acc s] split: prod.splits sum.splits)
  note one = read_contents_ok [OF step [unfolded read_entry_ok] "1.prems"(2,3)]
  show ?case
  proof (cases "bs = []")
    case True
    then show ?thesis using one rest by (auto intro!: exI [of _ "[]"])
  next
    case False
    then obtain chunks1 where c1: "cs_rx s = map (Inr \<circ> Pair DATA) chunks1 @ cs_rx s1"
      "left c @ concat chunks1 = bs @ left c'" "contents_ok c'" "cs_active s1 = cs_active s" "same_entry s s1"
      using one by blast
    have "drain env n c' (acc @ bs) s1 = (Inr out, s')" using rest False by simp
    from "1.IH" [OF step [symmetric] refl refl False this "1.prems"(2) c1(3)]
    obtain chunks2 i where c2: "cs_rx s1 = map (Inr \<circ> Pair DATA) chunks2 @ Inr (END, le_bytes 8 i) # cs_rx s'"
      "out = (acc @ bs) @ left c' @ concat chunks2" "cs_active s1 = Some i" "i < 2 ^ 64" "cs_active s' = None" "same_entry s1 s'"
      by blast
    have "out = acc @ left c @ concat (chunks1 @ chunks2)" using c2(2) c1(2) by simp
    then show ?thesis
      using c1 c2 by (intro exI [of _ "chunks1 @ chunks2"] exI [of _ i]) (simp add: same_entry_def)
  qed
qed

lemma next_entry_NoneD:
  assumes "next_entry env s = (Inr None, s')" and "cs_active s = None" "\<not> cs_finished s"
  shows "cs_rx s = Inr (COMPLETE, []) # cs_rx s' \<and> cs_finished s' \<and> cs_inventory s' = cs_inventory s
    \<and> ce_exit env = Inr True"
proof -
  obtain s1 f s2 where one: "start_decode env (s\<lparr>cs_looks := Suc (cs_looks s)\<rparr>) = (Inr (), s1)"
    "receive env s1 = (Inr f, s2)" "(if fst f = COMPLETE then if snd f \<noteq> [] then se_lift (Inl Corrupt) else finish env
       else take_begin f) s2 = (Inr None, s')"
    using assms
    by (auto simp: next_entry_def next_index_def interrupted_def se_bind_def
        split: prod.splits sum.splits option.splits if_splits)
  then have "f = (COMPLETE, [])" "s' = s2\<lparr>cs_finished := True\<rparr>" "ce_exit env = Inr True"
    by (cases f; auto simp: se_lift_def take_begin_def finish_def fail_interrupted_def interrupted_def
        split: if_splits sum.splits bool.splits option.splits)+
  then show ?thesis using receive_ok [OF one(2)] start_decode_fields [OF one(1)] by simp
qed

lemma collect_exact:
  "collect env n s = (Inr es, s') \<Longrightarrow> 0 < n \<Longrightarrow> cs_active s = None \<Longrightarrow> \<not> cs_finished s \<Longrightarrow>
   \<exists>css. length css = length es
     \<and> cs_rx s = map Inr (concat (map2 entry_frames (map fst es) css)) @ Inr (COMPLETE, []) # cs_rx s'
     \<and> map snd es = map concat css \<and> list_all (\<lambda>e. fst e < length (inv_entries (cs_inventory s))) es
     \<and> cs_finished s' \<and> ce_exit env = Inr True"
proof (induction env n s arbitrary: es s' rule: collect.induct)
  case (1 env n s)
  consider s1 where "next_entry env s = (Inr None, s1)" "es = []" "s' = s1"
    | i s1 bs s2 es' where "next_entry env s = (Inr (Some i), s1)" "drain env n fresh_contents [] s1 = (Inr bs, s2)"
      "collect env n s2 = (Inr es', s')" "es = (i, bs) # es'"
    using "1.prems"(1)
    by (auto simp: collect.simps [of env n s] split: prod.splits sum.splits option.splits)
  then show ?case
  proof cases
    case 1
    then show ?thesis using next_entry_NoneD [OF 1(1) "1.prems"(3,4)] by (intro exI [of _ "[]"]) simp
  next
    case 2
    from 2(1) obtain t1 t2 data where b: "start_decode env (s\<lparr>cs_looks := Suc (cs_looks s)\<rparr>) = (Inr (), t1)"
      "receive env t1 = (Inr (BEGIN, data), t2)" "index_of data = Inr i" "i < length (inv_entries (cs_inventory t2))"
      "s1 = t2\<lparr>cs_active := Some i\<rparr>"
      by (rule next_entry_SomeD)
    have rx: "cs_rx s = Inr (BEGIN, le_bytes 8 i) # cs_rx s1" "cs_inventory s1 = cs_inventory s" "cs_finished s1 = cs_finished s"
      using receive_ok [OF b(2)] start_decode_fields [OF b(1)] b(5) index_of_le_bytes [OF b(3)] by simp_all
    have "contents_ok fresh_contents" "left fresh_contents = []" by (simp_all add: contents_ok_def left_def fresh_contents_def)
    with drain_exact [OF 2(2) "1.prems"(2)] b(5) obtain chunks where
      d: "cs_rx s1 = map (Inr \<circ> Pair DATA) chunks @ Inr (END, le_bytes 8 i) # cs_rx s2" "bs = concat chunks"
        "cs_active s2 = None" "same_entry s1 s2"
      by auto
    have inv2: "cs_inventory s2 = cs_inventory s" "\<not> cs_finished s2" using d(4) rx "1.prems"(4) by (simp_all add: same_entry_def)
    from "1.IH" [OF 2(1) [symmetric] refl refl 2(2) [symmetric] refl 2(3) "1.prems"(2) d(3) inv2(2)]
    obtain css where IH: "length css = length es'"
      "cs_rx s2 = map Inr (concat (map2 entry_frames (map fst es') css)) @ Inr (COMPLETE, []) # cs_rx s'"
      "map snd es' = map concat css" "list_all (\<lambda>e. fst e < length (inv_entries (cs_inventory s2))) es'"
      "cs_finished s'" "ce_exit env = Inr True"
      by blast
    have "cs_rx s = map Inr (concat (map2 entry_frames (map fst es) (chunks # css))) @ Inr (COMPLETE, []) # cs_rx s'"
      using rx(1) d(1) IH(2) 2(4) by (simp add: entry_frames_def)
    moreover have "i < length (inv_entries (cs_inventory s))"
      using b(4,5) rx(2) by simp
    ultimately show ?thesis
      using IH 2(4) d(2) inv2(1) by (intro exI [of _ "chunks # css"]) simp
  qed
qed

section \<open>Frames on the wire\<close>

lemma read_frame_encode: "short_frame f \<Longrightarrow> read_frame (encode_frame f @ rest) = Inr (f, rest)"
proof -
  assume f: "short_frame f"
  then have "length (snd f) < 256 ^ 4" by (simp add: short_frame_def over_frame_iff MAX_FRAME_def)
  then have "le_value (le_bytes 4 (length (snd f))) = length (snd f)" by (simp add: le_value_le_bytes)
  moreover have "drop (5 + length (snd f)) (fst f # le_bytes 4 (length (snd f)) @ snd f @ rest) = rest"
    by (simp add: drop_Cons')
  ultimately show ?thesis using f by (simp add: read_frame_def encode_frame_def short_frame_def Let_def)
qed

lemma read_frame_Nil: "read_frame [] = Inl Io"
  by (simp add: read_frame_def)

text \<open>Heartbeats between frames leave no trace.\<close>

lemma reader_frames_encode:
  "list_all short_frame fs \<Longrightarrow>
   reader_frames (concat (map encode_frame fs)) = map Inr (filter (\<lambda>f. f \<noteq> (HEARTBEAT, [])) fs) @ [Inl Io]"
proof (induction fs)
  case Nil
  then show ?case by (simp add: reader_frames.simps read_frame_Nil)
next
  case (Cons f fs)
  then show ?case by (simp add: reader_frames.simps [of "encode_frame f @ _"] read_frame_encode)
qed

lemma send_items_Inr:
  "send_items faults tag print limits bytes xs out = (Inr n, out') \<Longrightarrow>
   \<exists>ps. map print xs = map Some ps \<and> emits out out' (map (Pair tag) ps)"
proof (induction xs arbitrary: bytes out)
  case Nil
  then show ?case by (auto simp: wr_lift_Inr emits_refl)
next
  case (Cons x xs)
  then obtain p mid b where p: "print x = Some p" "frame faults tag p out = (Inr (), mid)"
    "send_items faults tag print limits b xs mid = (Inr n, out')"
    by (auto simp: Let_def wr_lift_Inr wr_bind_Inr split: option.splits if_splits)
  from Cons.IH [OF p(3)] obtain ps where "map print xs = map Some ps" "emits mid out' (map (Pair tag) ps)" by blast
  then show ?case using p(1) emits_trans [OF frame_Inr [OF p(2)]] by (intro exI [of _ "p # ps"]) simp
qed

definition inventory_frames :: "byte list \<Rightarrow> byte list list \<Rightarrow> byte list list \<Rightarrow> frame list" where
  "inventory_frames c bs es = (ARCHIVE, c) # map (Pair BLOCK) bs @ map (Pair ENTRY) es
     @ [(INVENTORY_END, le_bytes 8 (length es))]"

lemma send_inventory_Inr:
  assumes "send_inventory env listing limits out = (Inr u, out')"
  shows "\<exists>c bs es. we_print_container env (inv_container listing) = Some c
    \<and> map (we_print_block env) (inv_blocks listing) = map Some bs
    \<and> map (we_print_entry env) (inv_entries listing) = map Some es
    \<and> emits out out' (inventory_frames c bs es)
    \<and> length es \<le> unat (il_max_entries limits) \<and> length bs \<le> length es"
proof -
  let ?f = "we_write_fault env"
  obtain c a b d m n where one: "we_print_container env (inv_container listing) = Some c"
    "frame ?f ARCHIVE c out = (Inr (), a)"
    "send_items ?f BLOCK (we_print_block env) limits 0 (inv_blocks listing) a = (Inr m, b)"
    "send_items ?f ENTRY (we_print_entry env) limits m (inv_entries listing) b = (Inr n, d)"
    "frame ?f INVENTORY_END (le_bytes 8 (length (inv_entries listing))) d = (Inr (), out')"
    and bounds: "length (inv_entries listing) \<le> unat (il_max_entries limits)"
      "length (inv_blocks listing) \<le> length (inv_entries listing)"
    using assms by (auto simp: send_inventory_def json_def Let_def wr_bind_Inr wr_lift_Inr not_less
        split: if_splits option.splits)
  from send_items_Inr [OF one(3)] obtain bs where bs: "map (we_print_block env) (inv_blocks listing) = map Some bs"
    "emits a b (map (Pair BLOCK) bs)" by blast
  from send_items_Inr [OF one(4)] obtain es where es: "map (we_print_entry env) (inv_entries listing) = map Some es"
    "emits b d (map (Pair ENTRY) es)" by blast
  have len: "length bs = length (inv_blocks listing)" "length es = length (inv_entries listing)"
    using map_eq_imp_length_eq [OF bs(1)] map_eq_imp_length_eq [OF es(1)] by simp_all
  have "emits out out' (inventory_frames c bs es)"
    using emits_trans [OF frame_Inr [OF one(2)] emits_trans [OF bs(2) emits_trans [OF es(2) frame_Inr [OF one(5)]]]]
    by (simp add: inventory_frames_def len)
  then show ?thesis using one(1) bs(1) es(1) bounds len by metis
qed

section \<open>A worker and a client\<close>

definition quiet :: "client_env \<Rightarrow> bool" where
  "quiet env \<longleftrightarrow> (\<forall>n. ce_interrupt env n = None)"

lemma receive_quiet:
  "quiet env \<Longrightarrow> cs_rx s = Inr f # rest \<Longrightarrow> fst f \<noteq> FAILURE \<Longrightarrow>
     receive env s = (Inr f, s\<lparr>cs_rx := rest, cs_looks := Suc (cs_looks s)\<rparr>)"
  by (simp add: receive_def receive_inner_def interrupted_def quiet_def)

lemma receive_blocks:
  assumes "quiet env"
  shows "cs_rx s = map (Inr \<circ> Pair BLOCK) ps @ rest \<Longrightarrow> map (ce_parse_block env) ps = map Some bs \<Longrightarrow>
    inv_entries (cs_inventory s) = [] \<Longrightarrow> length (inv_blocks (cs_inventory s)) + length ps \<le> unat (il_max_entries limits) \<Longrightarrow>
    m + sum_list (map length ps) \<le> unat (il_max_index_bytes limits) \<Longrightarrow>
    receive_inventory env limits m s = receive_inventory env limits (m + sum_list (map length ps))
      (s\<lparr>cs_rx := rest, cs_looks := cs_looks s + length ps,
        cs_inventory := (cs_inventory s)\<lparr>inv_blocks := inv_blocks (cs_inventory s) @ bs\<rparr>\<rparr>)"
proof (induction ps arbitrary: s m bs)
  case Nil
  then show ?case by (cases s; cases "cs_inventory s") simp
next
  case (Cons p ps)
  then obtain b bs' where b: "bs = b # bs'" "ce_parse_block env p = Some b" "map (ce_parse_block env) ps = map Some bs'"
    by (cases bs) auto
  let ?s1 = "s\<lparr>cs_rx := map (Inr \<circ> Pair BLOCK) ps @ rest, cs_looks := Suc (cs_looks s)\<rparr>"
  let ?s2 = "?s1\<lparr>cs_inventory := (cs_inventory s)\<lparr>inv_blocks := inv_blocks (cs_inventory s) @ [b]\<rparr>\<rparr>"
  have "m + length p \<le> unat (il_max_index_bytes limits)" using Cons.prems(5) by simp
  moreover from this have "\<not> over64 (m + length p)"
    using unsigned_less [of "il_max_index_bytes limits", where 'a = nat] by (simp add: over64_iff)
  ultimately have "take_inventory env limits m (BLOCK, p) ?s1 = (Inr (False, m + length p), ?s2)"
    using Cons.prems(3,4) b(2) by (simp add: take_inventory_def Let_def)
  moreover have "receive env s = (Inr (BLOCK, p), ?s1)"
    using receive_quiet [OF assms, of s "(BLOCK, p)"] Cons.prems(1) by simp
  ultimately have "receive_inventory env limits m s = receive_inventory env limits (m + length p) ?s2"
    by (simp add: receive_inventory.simps [of env limits m s])
  also have "\<dots> = receive_inventory env limits (m + length p + sum_list (map length ps))
      (?s2\<lparr>cs_rx := rest, cs_looks := cs_looks ?s2 + length ps,
        cs_inventory := (cs_inventory ?s2)\<lparr>inv_blocks := inv_blocks (cs_inventory ?s2) @ bs'\<rparr>\<rparr>)"
    by (rule Cons.IH) (use Cons.prems b in \<open>simp_all\<close>)
  finally show ?case using b(1) by (simp add: add.assoc)
qed

lemma receive_entries:
  assumes "quiet env"
  shows "cs_rx s = map (Inr \<circ> Pair ENTRY) ps @ rest \<Longrightarrow> map (ce_parse_entry env) ps = map Some es \<Longrightarrow>
    length (inv_entries (cs_inventory s)) + length ps \<le> unat (il_max_entries limits) \<Longrightarrow>
    m + sum_list (map length ps) \<le> unat (il_max_index_bytes limits) \<Longrightarrow>
    receive_inventory env limits m s = receive_inventory env limits (m + sum_list (map length ps))
      (s\<lparr>cs_rx := rest, cs_looks := cs_looks s + length ps,
        cs_inventory := (cs_inventory s)\<lparr>inv_entries := inv_entries (cs_inventory s) @ es\<rparr>\<rparr>)"
proof (induction ps arbitrary: s m es)
  case Nil
  then show ?case by (cases s; cases "cs_inventory s") simp
next
  case (Cons p ps)
  then obtain e es' where e: "es = e # es'" "ce_parse_entry env p = Some e" "map (ce_parse_entry env) ps = map Some es'"
    by (cases es) auto
  let ?s1 = "s\<lparr>cs_rx := map (Inr \<circ> Pair ENTRY) ps @ rest, cs_looks := Suc (cs_looks s)\<rparr>"
  let ?s2 = "?s1\<lparr>cs_inventory := (cs_inventory s)\<lparr>inv_entries := inv_entries (cs_inventory s) @ [e]\<rparr>\<rparr>"
  have "m + length p \<le> unat (il_max_index_bytes limits)" using Cons.prems(4) by simp
  moreover from this have "\<not> over64 (m + length p)"
    using unsigned_less [of "il_max_index_bytes limits", where 'a = nat] by (simp add: over64_iff)
  ultimately have "take_inventory env limits m (ENTRY, p) ?s1 = (Inr (False, m + length p), ?s2)"
    using Cons.prems(3) e(2) by (simp add: take_inventory_def Let_def)
  moreover have "receive env s = (Inr (ENTRY, p), ?s1)"
    using receive_quiet [OF assms, of s "(ENTRY, p)"] Cons.prems(1) by simp
  ultimately have "receive_inventory env limits m s = receive_inventory env limits (m + length p) ?s2"
    by (simp add: receive_inventory.simps [of env limits m s])
  also have "\<dots> = receive_inventory env limits (m + length p + sum_list (map length ps))
      (?s2\<lparr>cs_rx := rest, cs_looks := cs_looks ?s2 + length ps,
        cs_inventory := (cs_inventory ?s2)\<lparr>inv_entries := inv_entries (cs_inventory ?s2) @ es'\<rparr>\<rparr>)"
    by (rule Cons.IH) (use Cons.prems e in \<open>simp_all\<close>)
  finally show ?case using e(1) by (simp add: add.assoc)
qed

lemma index_of_encoded: "i < 2 ^ 64 \<Longrightarrow> index_of (le_bytes 8 i) = Inr i"
  by (simp add: index_of_def le_value_le_bytes)

lemma receive_inventory_end:
  assumes "quiet env" and "cs_rx s = Inr (INVENTORY_END, le_bytes 8 k) # rest" "k = length (inv_entries (cs_inventory s))"
    and "k < 2 ^ 64" "m + 8 \<le> unat (il_max_index_bytes limits)"
  shows "receive_inventory env limits m s = (Inr (), s\<lparr>cs_rx := rest, cs_looks := Suc (cs_looks s)\<rparr>)"
proof -
  have "\<not> over64 (m + 8)"
    using assms(5) unsigned_less [of "il_max_index_bytes limits", where 'a = nat] by (simp add: over64_iff)
  then show ?thesis
    using receive_quiet [OF assms(1,2)] assms(3-5) index_of_encoded [OF assms(4)]
    by (simp add: receive_inventory.simps [of env limits m s] take_inventory_def Let_def)
qed

lemma client_open_delivers:
  assumes "quiet env" "ce_send_open env = None"
    and rx: "cs_rx s = map Inr ((READY, hello) # inventory_frames c bs es) @ rest"
    and start: "cs_inventory s = \<lparr>inv_container = k, inv_entries = [], inv_blocks = []\<rparr>"
    and "ce_parse_container env c = Some (inv_container listing)"
    and "map (ce_parse_block env) bs = map Some (inv_blocks listing)"
    and "map (ce_parse_entry env) es = map Some (inv_entries listing)"
    and "length es \<le> unat (il_max_entries limits)" "length bs \<le> length es"
    and "sum_list (map length bs) + sum_list (map length es) + 8 \<le> unat (il_max_index_bytes limits)"
    and "indices_in_order (inv_entries listing)"
  shows "\<exists>s'. client_open env limits s = (Inr (), s') \<and> cs_rx s' = rest \<and> cs_inventory s' = listing
    \<and> cs_active s' = cs_active s \<and> cs_finished s' = cs_finished s \<and> cs_started s' = cs_started s"
proof -
  define s1 where "s1 = s\<lparr>cs_rx := map Inr (inventory_frames c bs es) @ rest, cs_looks := Suc (cs_looks s)\<rparr>"
  define items where "items = map (Inr \<circ> Pair BLOCK) bs @ map (Inr \<circ> Pair ENTRY) es
      @ (Inr (INVENTORY_END, le_bytes 8 (length es)) :: import_error + frame) # rest"
  define s2 where "s2 = s1\<lparr>cs_rx := items, cs_looks := Suc (cs_looks s1)\<rparr>"
  define s3 where "s3 = s2\<lparr>cs_inventory := (cs_inventory s2)\<lparr>inv_container := inv_container listing\<rparr>\<rparr>"
  have r1: "receive env s = (Inr (READY, hello), s1)"
    using receive_quiet [OF assms(1), of s "(READY, hello)"] rx by (simp add: s1_def)
  have "cs_rx s1 = Inr (ARCHIVE, c) # items" by (simp add: s1_def items_def inventory_frames_def)
  then have r2: "receive env s1 = (Inr (ARCHIVE, c), s2)"
    using receive_quiet [OF assms(1), of s1 "(ARCHIVE, c)"] by (simp add: s2_def)
  have lens: "length bs = length (inv_blocks listing)" "length es = length (inv_entries listing)"
    using map_eq_imp_length_eq [OF assms(6)] map_eq_imp_length_eq [OF assms(7)] by simp_all
  have "length es < 2 ^ 64"
    using assms(8) unsigned_less [of "il_max_entries limits", where 'a = nat] by simp
  then have "\<exists>s'. receive_inventory env limits 0 s3 = (Inr (), s') \<and> cs_rx s' = rest \<and> cs_inventory s' = listing
    \<and> cs_active s' = cs_active s \<and> cs_finished s' = cs_finished s \<and> cs_started s' = cs_started s"
    using assms(8-10) start lens
    by (subst receive_blocks [OF assms(1) _ assms(6)], simp_all add: s3_def s2_def s1_def items_def)
       (subst receive_entries [OF assms(1) _ assms(7)], simp_all add: add.assoc,
        subst receive_inventory_end [OF assms(1)], simp_all)
  then show ?thesis
    using assms(2,5,11) r1 r2
    by (auto simp: client_open_def se_bind_def se_lift_def s3_def)
qed

lemma data_end_unique:
  "map (Inr \<circ> Pair DATA) a @ Inr (END, x) # r = map (Inr \<circ> Pair DATA) b @ Inr (END, y) # q \<Longrightarrow>
     a = b \<and> x = y \<and> r = (q :: (import_error + frame) list)"
proof (induction a arbitrary: b)
  case Nil
  then show ?case by (cases b) auto
next
  case (Cons d a)
  then show ?case by (cases b) auto
qed

lemma drain_returns:
  "quiet env \<Longrightarrow> 0 < n \<Longrightarrow> contents_ok c \<Longrightarrow> cs_rx s = map (Inr \<circ> Pair DATA) cs @ Inr (END, le_bytes 8 i) # rest \<Longrightarrow>
   [] \<notin> set cs \<Longrightarrow> cs_active s = Some i \<Longrightarrow> i < 2 ^ 64 \<Longrightarrow> \<exists>out s'. drain env n c acc s = (Inr out, s')"
proof (induction env n c acc s arbitrary: cs rule: drain.induct)
  case (1 env n c acc s)
  have "\<exists>x s1. read_contents env n c s = (Inr x, s1)"
  proof (cases "co_offset c = length (co_pending c)")
    case False
    then show ?thesis using "1.prems"(2,3) by (simp add: read_contents_def contents_ok_def)
  next
    case True
    show ?thesis
    proof (cases cs)
      case Nil
      then show ?thesis
        using True "1.prems" receive_quiet [of env s "(END, le_bytes 8 i)"] index_of_encoded
        by (simp add: read_contents_def contents_ok_def se_bind_def)
    next
      case (Cons d ds)
      then show ?thesis
        using True "1.prems" receive_quiet [of env s "(DATA, d)"]
        by (auto simp: read_contents_def contents_ok_def se_bind_def)
    qed
  qed
  then obtain bs c' s1 where step: "read_entry env n c s = (Inr (bs, c'), s1)" using read_entry_ok by fastforce
  note one = read_contents_ok [OF step [unfolded read_entry_ok] "1.prems"(2,3)]
  show ?case
  proof (cases "bs = []")
    case True
    then show ?thesis using step by (simp add: drain.simps [of env n c acc s])
  next
    case False
    then obtain chunks where c1: "cs_rx s = map (Inr \<circ> Pair DATA) chunks @ cs_rx s1" "contents_ok c'" "cs_active s1 = cs_active s"
      using one by blast
    have "length chunks \<le> length cs"
    proof (rule ccontr)
      assume "\<not> length chunks \<le> length cs"
      then have "(map (Inr \<circ> Pair DATA) chunks @ cs_rx s1) ! length cs = Inr (DATA, chunks ! length cs)"
        by (simp add: nth_append)
      moreover have "cs_rx s ! length cs = Inr (END, le_bytes 8 i)" using "1.prems"(4) by (simp add: nth_append)
      ultimately show False using c1(1) by simp
    qed
    then have "drop (length chunks) (cs_rx s) = map (Inr \<circ> Pair DATA) (drop (length chunks) cs) @ Inr (END, le_bytes 8 i) # rest"
      unfolding "1.prems"(4) by (simp add: drop_map)
    moreover have "drop (length chunks) (cs_rx s) = cs_rx s1" unfolding c1(1) by simp
    ultimately have "cs_rx s1 = map (Inr \<circ> Pair DATA) (drop (length chunks) cs) @ Inr (END, le_bytes 8 i) # rest"
      by simp
    moreover have "[] \<notin> set (drop (length chunks) cs)" using "1.prems"(5) in_set_dropD by fast
    ultimately have "\<exists>out s'. drain env n c' (acc @ bs) s1 = (Inr out, s')"
      using "1.IH" [OF step [symmetric] refl refl False "1.prems"(1,2) c1(2)] c1(3) "1.prems"(6,7) by metis
    then show ?thesis using step False by (simp add: drain.simps [of env n c acc s])
  qed
qed

lemma drain_delivers:
  assumes "quiet env" "0 < n" "cs_rx s = map (Inr \<circ> Pair DATA) cs @ Inr (END, le_bytes 8 i) # rest"
    and "[] \<notin> set cs" "cs_active s = Some i" "i < 2 ^ 64"
  shows "\<exists>s'. drain env n fresh_contents [] s = (Inr (concat cs), s') \<and> cs_rx s' = rest \<and> cs_active s' = None
    \<and> same_entry s s'"
proof -
  have c: "contents_ok fresh_contents" "left fresh_contents = []" by (simp_all add: contents_ok_def left_def fresh_contents_def)
  obtain out s' where out: "drain env n fresh_contents [] s = (Inr out, s')"
    using drain_returns [OF assms(1,2) c(1) assms(3-6)] by blast
  from drain_exact [OF this assms(2) c(1)] obtain chunks j where
    "cs_rx s = map (Inr \<circ> Pair DATA) chunks @ Inr (END, le_bytes 8 j) # cs_rx s'" "out = concat chunks"
    "cs_active s' = None" "same_entry s s'" using c(2) by auto
  moreover from this(1) have "chunks = cs \<and> cs_rx s' = rest" using assms(3) data_end_unique by metis
  ultimately show ?thesis using out by blast
qed

lemma next_entry_begin:
  assumes "quiet env" "ce_send_decode env = None" "cs_rx s = Inr (BEGIN, le_bytes 8 i) # rest"
    and "i < 2 ^ 64" "i < length (inv_entries (cs_inventory s))" "cs_active s = None" "\<not> cs_finished s"
  shows "\<exists>s'. next_entry env s = (Inr (Some i), s') \<and> cs_rx s' = rest \<and> cs_active s' = Some i
    \<and> cs_inventory s' = cs_inventory s \<and> \<not> cs_finished s'"
proof -
  let ?s0 = "s\<lparr>cs_looks := Suc (cs_looks s)\<rparr>"
  let ?s1 = "if cs_started s then ?s0 else ?s0\<lparr>cs_started := True\<rparr>"
  have "start_decode env ?s0 = (Inr (), ?s1)" using assms(2) by (simp add: start_decode_def)
  moreover have "receive env ?s1 = (Inr (BEGIN, le_bytes 8 i), ?s1\<lparr>cs_rx := rest, cs_looks := Suc (cs_looks ?s1)\<rparr>)"
    by (rule receive_quiet [OF assms(1)]) (use assms(3) in simp_all)
  moreover have "ce_interrupt env (cs_looks s) = None" using assms(1) by (simp add: quiet_def)
  ultimately show ?thesis
    using assms(4-7) index_of_encoded [OF assms(4)]
    by (simp add: next_entry_def next_index_def interrupted_def se_bind_def take_begin_def)
qed

lemma next_entry_complete:
  assumes "quiet env" "ce_send_decode env = None" "ce_exit env = Inr True" "cs_rx s = Inr (COMPLETE, []) # rest"
    and "cs_active s = None" "\<not> cs_finished s"
  shows "\<exists>s'. next_entry env s = (Inr None, s') \<and> cs_finished s'"
proof -
  let ?s0 = "s\<lparr>cs_looks := Suc (cs_looks s)\<rparr>"
  let ?s1 = "if cs_started s then ?s0 else ?s0\<lparr>cs_started := True\<rparr>"
  have "start_decode env ?s0 = (Inr (), ?s1)" using assms(2) by (simp add: start_decode_def)
  moreover have "receive env ?s1 = (Inr (COMPLETE, []), ?s1\<lparr>cs_rx := rest, cs_looks := Suc (cs_looks ?s1)\<rparr>)"
    by (rule receive_quiet [OF assms(1)]) (use assms(4) in simp_all)
  moreover have "ce_interrupt env (cs_looks s) = None" using assms(1) by (simp add: quiet_def)
  ultimately show ?thesis
    using assms(3,5,6)
    by (simp add: next_entry_def next_index_def interrupted_def se_bind_def finish_def)
qed

lemma collect_delivers:
  assumes "quiet env" "ce_send_decode env = None" "ce_exit env = Inr True" "0 < n"
  shows "length css = length is \<Longrightarrow>
    cs_rx s = map Inr (concat (map2 entry_frames is css)) @ Inr (COMPLETE, []) # rest \<Longrightarrow>
    list_all (\<lambda>cs. [] \<notin> set cs) css \<Longrightarrow> list_all (\<lambda>i. i < 2 ^ 64 \<and> i < length (inv_entries (cs_inventory s))) is \<Longrightarrow>
    cs_active s = None \<Longrightarrow> \<not> cs_finished s \<Longrightarrow>
    \<exists>s'. collect env n s = (Inr (zip is (map concat css)), s') \<and> cs_finished s'"
proof (induction css "is" arbitrary: s rule: list_induct2)
  case Nil
  then show ?case
    using next_entry_complete [OF assms(1-3), of s rest] by (auto simp: collect.simps [of env n s])
next
  case (Cons cs css i "is")
  let ?more = "map Inr (concat (map2 entry_frames is css)) @ Inr (COMPLETE, []) # rest"
  have rx: "cs_rx s = Inr (BEGIN, le_bytes 8 i) # map (Inr \<circ> Pair DATA) cs @ Inr (END, le_bytes 8 i) # ?more"
    using Cons.prems(1) by (simp add: entry_frames_def)
  obtain s1 where s1: "next_entry env s = (Inr (Some i), s1)"
      "cs_rx s1 = map (Inr \<circ> Pair DATA) cs @ Inr (END, le_bytes 8 i) # ?more"
      "cs_active s1 = Some i" "cs_inventory s1 = cs_inventory s" "\<not> cs_finished s1"
    using next_entry_begin [OF assms(1,2) rx] Cons.prems(3-5) by auto
  obtain s2 where s2: "drain env n fresh_contents [] s1 = (Inr (concat cs), s2)" "cs_rx s2 = ?more" "cs_active s2 = None"
      "same_entry s1 s2"
    using drain_delivers [OF assms(1,4) s1(2) _ s1(3)] Cons.prems(2,3) by auto
  have "cs_inventory s2 = cs_inventory s" "\<not> cs_finished s2" using s2(4) s1(4,5) by (simp_all add: same_entry_def)
  then obtain s3 where "collect env n s2 = (Inr (zip is (map concat css)), s3)" "cs_finished s3"
    using Cons.IH [OF s2(2)] Cons.prems(2,3) s2(3) by auto
  then show ?case using s1(1) s2(1) by (simp add: collect.simps [of env n s])
qed

text \<open>A run that succeeds: what it has opened and what it has written.\<close>

definition worker_frames ::
  "byte list \<Rightarrow> byte list list \<Rightarrow> byte list list \<Rightarrow> nat list \<Rightarrow> byte list list list \<Rightarrow> frame list" where
  "worker_frames c bs es is css = (READY, hello) # inventory_frames c bs es
     @ concat (map2 entry_frames is css) @ [(COMPLETE, [])]"

text \<open>The backends together are a backend.\<close>

fun backend_held :: "worker_env \<Rightarrow> backend \<Rightarrow> (nat \<times> byte list) list" where
  "backend_held env (ZipBackend a) = zip_held a"
| "backend_held env (SevenZBackend a) = sevenz_held (we_sevenz env) a"
| "backend_held env (RarBackend a) = rar_held (we_rar_extracted env) a"

definition backend_opened :: "worker_env \<Rightarrow> backend \<Rightarrow> bool" where
  "backend_opened env b \<longleftrightarrow>
     decoder_in_order (we_sevenz env) \<and> (\<exists>magic src limits. open_backend env magic src limits = Inr b)"

lemma backend_opened_cases:
  assumes "backend_opened env b"
  obtains (zip) a where "b = ZipBackend a" "zip_opened a"
  | (sevenz) a where "b = SevenZBackend a" "sevenz_opened (we_sevenz env) a"
  | (rar) a where "b = RarBackend a" "rar_opened a"
proof -
  obtain magic src limits where b: "open_backend env magic src limits = Inr b" and order: "decoder_in_order (we_sevenz env)"
    using assms by (auto simp: backend_opened_def)
  then consider a where "b = ZipBackend a" "zip_open (we_zip env limits) = Inr a"
    | a where "b = SevenZBackend a" "sevenz_open (we_sevenz env) limits (we_sevenz_parsed env) = Inr a"
    | a where "b = RarBackend a"
      "rar_open (we_rar env) (we_rar_bytes env) (we_rar_listed env) (source_verify (we_source env) src 1) limits = Inr a"
    by (auto simp: open_backend_def res_simps split: if_splits)
  then show thesis
  proof cases
    case (1 a)
    then show thesis using zip [of a] unfolding zip_opened_def by blast
  next
    case (2 a)
    then show thesis using sevenz [of a] order unfolding sevenz_opened_def by blast
  next
    case (3 a)
    then show thesis using rar [of a] unfolding rar_opened_def by blast
  qed
qed

interpretation worker_backend: archive_backend "backend_opened env" backend_inventory "backend_decode env" "backend_held env" for env
proof
  fix b assume opened: "backend_opened env b"
  show "inventory_ok (backend_inventory b)"
    by (rule backend_opened_cases [OF opened])
      (simp_all add: zip_backend.opened_listing sevenz_backend.opened_listing rar_backend.opened_listing)
  fix faults out u out' assume run: "backend_decode env faults b out = (Inr u, out')"
  show "entries_written (backend_held env b) out out'"
    by (rule backend_opened_cases [OF opened]; use run in simp)
      (blast intro: zip_backend.decode_writes sevenz_backend.decode_writes rar_backend.decode_writes)+
  show "distinct (map fst (backend_held env b))
      \<and> set (map fst (backend_held env b)) = {..<length (inv_entries (backend_inventory b))}"
    by (rule backend_opened_cases [OF opened]; use run in \<open>simp only: backend_decode.simps backend_held.simps backend_inventory.simps\<close>)
      (rule zip_backend.decode_covers sevenz_backend.decode_covers rar_backend.decode_covers; assumption)+
  show "sizes_right (backend_inventory b) (backend_held env b)"
    by (rule backend_opened_cases [OF opened]; use run in simp)
      (blast intro: zip_backend.decode_sizes sevenz_backend.decode_sizes rar_backend.decode_sizes)+
qed

lemma run_Inr:
  assumes "run env (encode_frame (OPEN, req) @ input) [] = (Inr u, out)" and "short_frame (OPEN, req)"
    and "we_parse_request env req = Some limits"
  obtains src magic archive b d c bs es where
    "source_open (we_source env) (il_max_archive_bytes limits) = Inr src"
    "open_backend env magic src limits = Inr archive"
    "we_print_container env (inv_container (backend_inventory archive)) = Some c"
    "map (we_print_block env) (inv_blocks (backend_inventory archive)) = map Some bs"
    "map (we_print_entry env) (inv_entries (backend_inventory archive)) = map Some es"
    "length es \<le> unat (il_max_entries limits)" "length bs \<le> length es"
    "emits [] b ((READY, hello) # inventory_frames c bs es)"
    "backend_decode env (we_write_fault env) archive b = (Inr (), d)"
    "source_verify (we_source env) src (last_stage archive) = Inr ()"
    "emits d out [(COMPLETE, [])]"
proof -
  let ?f = "we_write_fault env"
  obtain a b d src magic archive where one: "frame ?f READY hello [] = (Inr (), a)"
    "source_open (we_source env) (il_max_archive_bytes limits) = Inr src"
    "open_backend env magic src limits = Inr archive"
    "send_inventory env (backend_inventory archive) limits a = (Inr (), b)"
    "backend_decode env ?f archive b = (Inr (), d)"
    "source_verify (we_source env) src (last_stage archive) = Inr ()" "frame ?f COMPLETE [] d = (Inr (), out)"
    using assms(1) read_frame_encode [OF assms(2), of input] assms(3)
    by (auto simp: run_def Let_def wr_bind_Inr wr_lift_Inr split: if_splits prod.splits option.splits)
  from send_inventory_Inr [OF one(4)] obtain c bs es where inv:
    "we_print_container env (inv_container (backend_inventory archive)) = Some c"
    "map (we_print_block env) (inv_blocks (backend_inventory archive)) = map Some bs"
    "map (we_print_entry env) (inv_entries (backend_inventory archive)) = map Some es"
    "emits a b (inventory_frames c bs es)" "length es \<le> unat (il_max_entries limits)" "length bs \<le> length es"
    by blast
  show thesis
    by (rule that [OF one(2,3) inv(1-3,5,6) _ one(5,6) frame_Inr [OF one(7)]])
      (use emits_trans [OF frame_Inr [OF one(1)] inv(4)] in simp)
qed

definition reads_back :: "('a \<Rightarrow> byte list option) \<Rightarrow> (byte list \<Rightarrow> 'a option) \<Rightarrow> bool" where
  "reads_back print parse \<longleftrightarrow> (\<forall>x p. print x = Some p \<longrightarrow> parse p = Some x)"

lemma reads_back_map: "reads_back print parse \<Longrightarrow> map print xs = map Some ps \<Longrightarrow> map parse ps = map Some xs"
  by (induction xs arbitrary: ps) (auto simp: reads_back_def Cons_eq_map_conv)

text \<open>No frame of a worker is a heartbeat.\<close>

lemma worker_frames_no_beat:
  "filter (\<lambda>f. f \<noteq> (HEARTBEAT, [])) (worker_frames c bs es is css) = worker_frames c bs es is css"
proof -
  have "(HEARTBEAT, []) \<notin> set (worker_frames c bs es is css)"
    by (auto simp: worker_frames_def inventory_frames_def entry_frames_def)
  then show ?thesis by (intro filter_True) auto
qed

lemma frames_unique:
  assumes "list_all short_frame fs" "list_all short_frame gs"
    and "concat (map encode_frame fs) = concat (map encode_frame gs)"
  shows "filter (\<lambda>f. f \<noteq> (HEARTBEAT, [])) fs = filter (\<lambda>f. f \<noteq> (HEARTBEAT, [])) gs"
proof -
  have "map Inr (filter (\<lambda>f. f \<noteq> (HEARTBEAT, [])) fs) @ [Inl Io :: import_error + frame]
      = map Inr (filter (\<lambda>f. f \<noteq> (HEARTBEAT, [])) gs) @ [Inl Io]"
    using reader_frames_encode [OF assms(1)] reader_frames_encode [OF assms(2)] assms(3) by simp
  then show ?thesis by (simp add: inj_map_eq_map)
qed

text \<open>The client counts the frame that ends the inventory against the limit, which the worker does not.\<close>

definition printed_size :: "('a \<Rightarrow> byte list option) \<Rightarrow> 'a list \<Rightarrow> nat" where
  "printed_size print xs = sum_list (map (\<lambda>x. case print x of None \<Rightarrow> 0 | Some p \<Rightarrow> length p) xs)"

definition leaves_room :: "worker_env \<Rightarrow> import_limits \<Rightarrow> inventory \<Rightarrow> bool" where
  "leaves_room env limits listing \<longleftrightarrow>
     printed_size (we_print_block env) (inv_blocks listing) + printed_size (we_print_entry env) (inv_entries listing) + 8
     \<le> unat (il_max_index_bytes limits)"

lemma printed_size_map: "map print xs = map Some ps \<Longrightarrow> printed_size print xs = sum_list (map length ps)"
  by (induction xs arbitrary: ps) (auto simp: printed_size_def Cons_eq_map_conv)

section \<open>Properties\<close>

lemma inventory_ok_in_order: "inventory_ok listing \<Longrightarrow> indices_in_order (inv_entries listing)"
  by (auto simp: indices_in_order_def list_all_length inventory_ok_index nth_enumerate_eq)

text \<open>A worker with a 7z archive of a directory and a file of three bytes, and a client of it.\<close>

definition sample_block :: packed_block where
  "sample_block = \<lparr>packed_bytes = 2, unpacked_bytes = 3\<rparr>"

definition sample_dir_entry :: physical_entry where
  "sample_dir_entry = \<lparr>pe_index = 0, pe_name = Unicode (lit ''d''), pe_kind = DirectoryObject, pe_size = 0, pe_block = None,
     pe_encrypted = False, pe_method = [], pe_method_supported = True, pe_unix_mode = None\<rparr>"

definition sample_entry :: physical_entry where
  "sample_entry = \<lparr>pe_index = 1, pe_name = Unicode (lit ''d/a''), pe_kind = FileObject, pe_size = 3, pe_block = Some 0,
     pe_encrypted = False, pe_method = lit ''LZMA2'', pe_method_supported = True, pe_unix_mode = None\<rparr>"

definition sample_listing :: inventory where
  "sample_listing = \<lparr>inv_container = SevenZContainer, inv_entries = [sample_dir_entry, sample_entry], inv_blocks = [sample_block]\<rparr>"

definition sample_limits_wire :: import_limits where
  "sample_limits_wire = \<lparr>il_max_entries = 5, il_max_index_bytes = 20, il_max_archive_bytes = 100\<rparr>"

definition sample_sevenz_files :: "sevenz_file list" where
  "sample_sevenz_files =
     [\<lparr>sf_name = lit ''d'', sf_has_stream = False, sf_is_directory = True, sf_is_anti_item = False,
        sf_windows_attributes = None, sf_size = 0\<rparr>,
      \<lparr>sf_name = lit ''d/a'', sf_has_stream = True, sf_is_directory = False, sf_is_anti_item = False,
        sf_windows_attributes = None, sf_size = 3\<rparr>]"

text \<open>A decoder that hands out the files from the start of a block, each full of sevens.\<close>

definition sample_content :: "sevenz_file \<Rightarrow> 64 word \<times> reads" where
  "sample_content f = (sf_size f, [Inr (replicate (unat (sf_size f)) 7), Inr []])"

definition sample_decoder :: "sevenz_metadata \<Rightarrow> nat \<Rightarrow> (64 word \<times> reads) list \<times> bool" where
  "sample_decoder m b = (map sample_content (drop (sm_first_files m ! b) (sm_files m)), False)"

definition sample_count :: "sevenz_metadata \<Rightarrow> nat \<Rightarrow> nat" where
  "sample_count m b = length (drop (sm_first_files m ! b) (sm_files m))"

definition sample_sevenz :: sevenz_env where
  "sample_sevenz = \<lparr>se_entry_count = sample_count, se_block_entries = sample_decoder,
     se_method_name = (\<lambda>_. Some (lit ''LZMA2'')), se_aes_id = [6]\<rparr>"

lemma sample_decoder_in_order: "decoder_in_order sample_sevenz"
  by (auto simp: decoder_in_order_def sample_sevenz_def sample_decoder_def sample_content_def)

definition sample_source :: source_env where
  "sample_source = \<lparr>so_open = True, so_first_meta = (\<lambda>_. Some \<lparr>fm_is_file = True, fm_len = 3, fm_modified = Some 0\<rparr>),
     so_pass = (\<lambda>_. [Inr [1, 2], Inr [3], Inr []]),
     so_second_meta = (\<lambda>_. Some \<lparr>fm_is_file = True, fm_len = 3, fm_modified = Some 0\<rparr>),
     so_magic = Inr [0x37, 0x7A, 0xBC, 0xAF, 0x27, 0x1C, 0, 4], so_sha256 = rev\<rparr>"

definition sample_step :: rar_step where
  "sample_step = \<lparr>rs_code = ERAR_END_ARCHIVE, rs_header = \<lparr>nh_filename_w = [], nh_split_before = False, nh_split_after = False,
       nh_encrypted = False, nh_solid = False, nh_directory = False, nh_host_os = 0, nh_file_attr = 0, nh_redir_type = 0,
       nh_unp_ver = 0, nh_method = 0, nh_unp_size_high = 0, nh_unp_size = 0, nh_pack_size_high = 0, nh_pack_size = 0\<rparr>,
     rs_messages = [], rs_process = ERAR_SUCCESS\<rparr>"

definition sample_native :: rar_native where
  "sample_native = \<lparr>rn_null = True, rn_open_result = ERAR_OTHER, rn_volume = False, rn_encrypted_headers = False,
     rn_step = (\<lambda>_. sample_step)\<rparr>"

definition print_entry :: "physical_entry \<Rightarrow> byte list option" where
  "print_entry e = (if e = sample_dir_entry then Some [3] else if e = sample_entry then Some [4] else None)"

definition parse_entry :: "byte list \<Rightarrow> physical_entry option" where
  "parse_entry p = (if p = [3] then Some sample_dir_entry else if p = [4] then Some sample_entry else None)"

definition print_only :: "'a \<Rightarrow> byte list \<Rightarrow> 'a \<Rightarrow> byte list option" where
  "print_only x p y = (if y = x then Some p else None)"

definition parse_only :: "'a \<Rightarrow> byte list \<Rightarrow> byte list \<Rightarrow> 'a option" where
  "parse_only x p q = (if q = p then Some x else None)"

lemma sample_reads_back: "reads_back (print_only x p) (parse_only x p)" "reads_back print_entry parse_entry"
  by (auto simp: reads_back_def print_only_def parse_only_def print_entry_def parse_entry_def)

definition sample_worker :: worker_env where
  "sample_worker = \<lparr>we_write_fault = (\<lambda>_. None), we_parse_request = (\<lambda>_. Some sample_limits_wire),
     we_source = sample_source, we_clone = True, we_zip = (\<lambda>_. Inl OtherError), we_sevenz = sample_sevenz,
     we_sevenz_parsed = Some \<lparr>sm_files = sample_sevenz_files,
       sm_blocks = [\<lparr>sb_coders = [[0x21]], sb_unpack_size = 3\<rparr>], sm_pack_sizes = [2], sm_first_packs = [0],
       sm_file_block = [None, Some 0], sm_first_files = [0]\<rparr>,
     we_rar = \<lparr>rar_crc32 = (\<lambda>_. 0), rar_valid_path = (\<lambda>_. True), rar_fault = (\<lambda>_. False)\<rparr>, we_rar_bytes = [],
     we_rar_listed = sample_native, we_rar_extracted = sample_native, we_inspect = (\<lambda>_ _. None),
     we_print_container = print_only SevenZContainer [1], we_print_block = print_only sample_block [2],
     we_print_entry = print_entry, we_print_error = (\<lambda>_. None)\<rparr>"

definition sample_client :: client_env where
  "sample_client = \<lparr>ce_interrupt = (\<lambda>_. None), ce_parse_error = (\<lambda>_. None),
     ce_parse_container = parse_only SevenZContainer [1], ce_parse_block = parse_only sample_block [2],
     ce_parse_entry = parse_entry, ce_send_open = None, ce_send_decode = None, ce_exit = Inr True\<rparr>"

text \<open>What the sample worker writes, with a heartbeat before each frame.\<close>

definition sample_wire :: "frame list" where
  "sample_wire = concat (map (\<lambda>f. [(HEARTBEAT, []), f])
     [(READY, hello), (ARCHIVE, [1]), (BLOCK, [2]), (ENTRY, [3]), (ENTRY, [4]), (INVENTORY_END, le_bytes 8 2),
      (BEGIN, le_bytes 8 1), (DATA, [7, 7, 7]), (END, le_bytes 8 1), (BEGIN, le_bytes 8 0), (END, le_bytes 8 0),
      (COMPLETE, [])])"

lemma sample_room:
  assumes "open_backend sample_worker magic src sample_limits_wire = Inr archive"
    and "we_print_container sample_worker (inv_container (backend_inventory archive)) = Some c"
  shows "leaves_room sample_worker sample_limits_wire (backend_inventory archive)"
proof -
  have "sevenz_open sample_sevenz sample_limits_wire (we_sevenz_parsed sample_worker) = Inr a \<Longrightarrow>
      inv_entries (sa_inventory a) = [sample_dir_entry, sample_entry] \<and> inv_blocks (sa_inventory a) = [sample_block]" for a
  proof -
    have "map_prod id id (case sevenz_open sample_sevenz sample_limits_wire (we_sevenz_parsed sample_worker) of
        Inl _ \<Rightarrow> ([], []) | Inr a \<Rightarrow> (inv_entries (sa_inventory a), inv_blocks (sa_inventory a)))
      = ([sample_dir_entry, sample_entry], [sample_block])" by code_simp
    then show "sevenz_open sample_sevenz sample_limits_wire (we_sevenz_parsed sample_worker) = Inr a \<Longrightarrow>
      inv_entries (sa_inventory a) = [sample_dir_entry, sample_entry] \<and> inv_blocks (sa_inventory a) = [sample_block]"
      by simp
  qed
  then show ?thesis
    using assms
    by (auto simp: open_backend_def res_simps leaves_room_def printed_size_def sample_worker_def print_only_def print_entry_def
        sample_limits_wire_def zip_open_def rar_open_def native_open_def sample_native_def split: if_splits)
qed



text \<open>Where the two ends disagree: an inventory that uses up the limit to the byte is sent, and refused.\<close>

definition tight_limits :: import_limits where
  "tight_limits = sample_limits_wire\<lparr>il_max_index_bytes := 3\<rparr>"

theorem inventory_at_limit_refused:
  "fst (send_inventory sample_worker sample_listing tight_limits []) = Inr ()
   \<and> fst (client_open sample_client tight_limits (new_session (Inr (READY, hello)
       # reader_frames (snd (send_inventory sample_worker sample_listing tight_limits []))))) = Inl Limit"
  by code_simp



text \<open>C28. Whatever bytes arrive, the client hands out only complete entries. If a caller reaches the end of
  the archive, the frames it consumed were, for each entry it was given, a begin and an end that carry its
  index and between them data frames whose payloads are exactly the bytes it read; each index names an
  entry of the inventory; the frame of completion came last, and the worker exited with success. A stream
  that breaks off anywhere before that is an error, never a shorter entry.\<close>

theorem import_hands_out_whole_entries:
  assumes "collect cenv n s = (Inr entries, s')" and "0 < n" and "cs_active s = None" and "\<not> cs_finished s"
  shows "\<exists>chunks. length chunks = length entries
    \<and> cs_rx s = map Inr (concat (map2 entry_frames (map fst entries) chunks)) @ Inr (COMPLETE, []) # cs_rx s'
    \<and> map snd entries = map concat chunks
    \<and> list_all (\<lambda>e. fst e < length (inv_entries (cs_inventory s))) entries
    \<and> ce_exit cenv = Inr True"
  using collect_exact [OF assms] by blast

definition sample_session :: client_session where
  "sample_session = (new_session [Inr (BEGIN, le_bytes 8 0), Inr (DATA, [7, 8]), Inr (DATA, [9]),
     Inr (END, le_bytes 8 0), Inr (COMPLETE, [])])\<lparr>cs_inventory := sample_listing\<rparr>"

theorem import_hands_out_whole_entries_witness:
  "\<exists>chunks. length chunks = length [(0 :: nat, [7, 8, 9 :: byte])]
    \<and> cs_rx sample_session = map Inr (concat (map2 entry_frames (map fst [(0, [7, 8, 9 :: byte])]) chunks))
      @ Inr (COMPLETE, []) # cs_rx (snd (collect sample_client 2 sample_session))
    \<and> map snd [(0 :: nat, [7, 8, 9 :: byte])] = map concat chunks
    \<and> list_all (\<lambda>e. fst e < length (inv_entries (cs_inventory sample_session))) [(0, [7, 8, 9 :: byte])]
    \<and> ce_exit sample_client = Inr True"
proof (rule import_hands_out_whole_entries)
  have "fst (collect sample_client 2 sample_session) = Inr [(0, [7, 8, 9])]" by code_simp
  then show "collect sample_client 2 sample_session
      = (Inr [(0, [7, 8, 9])], snd (collect sample_client 2 sample_session))"
    by (simp add: prod_eq_iff)
qed (simp_all add: sample_session_def new_session_def)

end
