(* ===== verification/Plan_Apply.thy ===== *)
theory Plan_Apply
  imports Plan_Builder Output_Transaction
begin

text \<open>
  \<^verbatim>\<open>crates/core/src/features/pipeline/apply_plan.rs\<close> and the copying half of
  \<^verbatim>\<open>features/organization/organizer.rs\<close>: a plan is applied to a work directory by building the new
  layout beside it, moving what is there into a backup and the new layout in its place. Any call can fail;
  a failure moves everything back, and where that fails too the directories are kept for recovery.

  The metadata calls of \<^verbatim>\<open>resolve_under\<close> only read, so one call that can fail stands for the walk;
  times and permissions are not part of the tree, and the calls that set them are calls that can fail. A
  rename can be refused for permissions, \<open>pe_denied\<close>; then the source is made writable and the rename tried
  again. The hooks of the source are for its tests and do nothing otherwise. Downloads are left to the
  caller.
\<close>

section \<open>Environment and errors\<close>

record apply_env = transaction_env +
  pe_denied :: "nat \<Rightarrow> bool"
  pe_restore_fault :: "nat \<Rightarrow> bool"

datatype apply_error =
    InvalidPlan plan_error
  | InvalidPath path_error
  | ResolveFailed host_path host_path
  | CanonicalizeWork host_path
  | NoWorkParent
  | CreatingStaging
  | CreatingBackup
  | InspectingSource host_path
  | OpeningSource host_path
  | CreatingOutputParent host_path
  | StagingOutput host_path
  | WritingOutput host_path
  | PersistingOutput host_path
  | InspectingOutput host_path
  | DestinationNotDirectory host_path
  | CreatingOutputDirectory host_path
  | ReadingSource host_path
  | NonUnicodeName os_name
  | ReadingTopLevel host_path
  | StagedNothing str nat nat
  | PreservingMetadata host_path
  | RefusingToReplace host_path
  | MovingFailed host_path host_path
  | RestoringPermissions host_path
  | PrebackupCleanupFailed apply_error host_path
  | RollbackFailed apply_error nat host_path host_path
  | CleanupFailed apply_error nat

datatype apply_outcome = Committed | CommittedWithCleanupWarnings "host_path list"

definition host_of :: "str \<Rightarrow> host_path" where
  "host_of p = map as_bytes (path_segments p)"

definition lift_res :: "('d \<Rightarrow> 'e) \<Rightarrow> 'd + 'a \<Rightarrow> ('e, 'a) io" where
  "lift_res f r = (case r of Inl d \<Rightarrow> io_fail (f d) | Inr x \<Rightarrow> io_ret x)"

section \<open>Calls\<close>

text \<open>A call that answers from the tree or only takes its chance to fail.\<close>

definition touch :: "'z io_env_scheme \<Rightarrow> 'e \<Rightarrow> ('e, unit) io" where
  "touch env e = io_call env e (\<lambda>t. Some ((), t))"

text \<open>\<^verbatim>\<open>resolve_under\<close>: the root is a directory and no file is among the parents.\<close>

definition is_file :: "fs_node \<Rightarrow> host_path \<Rightarrow> bool" where
  "is_file t p \<longleftrightarrow> file_at t p \<noteq> None"

definition resolvable :: "fs_node \<Rightarrow> host_path \<Rightarrow> host_path \<Rightarrow> bool" where
  "resolvable t root rel \<longleftrightarrow>
     dir_at t root \<noteq> None \<and> list_all (\<lambda>k. \<not> is_file t (root @ take k rel)) [1..<length rel]"

definition resolve_io :: "'z io_env_scheme \<Rightarrow> host_path \<Rightarrow> host_path \<Rightarrow> (apply_error, host_path) io" where
  "resolve_io env root rel =
     io_call env (ResolveFailed root rel) (\<lambda>t. if resolvable t root rel then Some (root @ rel, t) else None)"

text \<open>Setting permissions back changes nothing in the tree but can fail.\<close>

definition restore_permissions :: "'z apply_env_scheme \<Rightarrow> 'e \<Rightarrow> ('e, unit) io" where
  "restore_permissions env e s =
     (if pe_restore_fault env (hs_calls s) then Inl e else Inr (), s\<lparr>hs_calls := Suc (hs_calls s)\<rparr>)"

definition rename_read_only_directory :: "'z apply_env_scheme \<Rightarrow> host_path \<Rightarrow> host_path \<Rightarrow> (apply_error, unit) io" where
  "rename_read_only_directory env source destination =
     (let refusal = MovingFailed source destination in
      io_bind (io_call env refusal (\<lambda>t. if dir_at t source \<noteq> None then Some ((), t) else None)) (\<lambda>_.
      io_bind (touch env refusal) (\<lambda>_.
      io_match (rename env refusal source destination)
        (\<lambda>_. restore_permissions env (RestoringPermissions destination))
        (\<lambda>e. io_match (restore_permissions env ()) (\<lambda>_. io_fail e) (\<lambda>_. io_fail e)))))"

definition rename_noclobber :: "'z apply_env_scheme \<Rightarrow> host_path \<Rightarrow> host_path \<Rightarrow> (apply_error, unit) io" where
  "rename_noclobber env source destination =
     io_bind (io_call env (RefusingToReplace destination) (\<lambda>t. if path_exists t destination then None else Some ((), t))) (\<lambda>_ s.
       io_match (rename env (MovingFailed source destination) source destination) io_ret
         (\<lambda>e. if pe_denied env (hs_calls s) then rename_read_only_directory env source destination else io_fail e) s)"

section \<open>Copying into the staging directory\<close>

definition temp_file_name :: "os_name \<Rightarrow> os_name" where
  "temp_file_name random = as_bytes (lit ''.tmp'') @ random"

text \<open>A new empty file beside the output; the name is drawn by the number of the call.\<close>

definition create_file :: "'z io_env_scheme \<Rightarrow> 'e \<Rightarrow> host_path \<Rightarrow> ('e, unit) io" where
  "create_file env e p = io_call env e (\<lambda>t.
     if p = [] \<or> path_exists t p \<or> dir_at t (butlast p) = None then None else Some ((), put_at t p (FileNode [])))"

definition temp_file_in :: "'z transaction_env_scheme \<Rightarrow> 'e \<Rightarrow> host_path \<Rightarrow> ('e, host_path) io" where
  "temp_file_in env e parent s =
     (let p = parent @ [temp_file_name (te_suffix env (hs_calls s))] in io_bind (create_file env e p) (\<lambda>_. io_ret p) s)"

text \<open>A temporary file that is dropped is removed, when that works.\<close>

definition drop_temp :: "'z io_env_scheme \<Rightarrow> host_path \<Rightarrow> 'e \<Rightarrow> ('e, 'a) io" where
  "drop_temp env tmp e = io_match (remove_file env () tmp) (\<lambda>_. io_fail e) (\<lambda>_. io_fail e)"

definition apply_metadata :: "'z io_env_scheme \<Rightarrow> bool \<Rightarrow> host_path \<Rightarrow> (apply_error, unit) io" where
  "apply_metadata env preserved p = (if preserved then touch env (PreservingMetadata p) else io_ret ())"

definition persist_plan_output_with_metadata ::
  "'z transaction_env_scheme \<Rightarrow> host_path \<Rightarrow> host_path \<Rightarrow> byte list \<Rightarrow> bool \<Rightarrow> (apply_error, unit) io" where
  "persist_plan_output_with_metadata env root rel content preserved =
     io_bind (resolve_io env root rel) (\<lambda>output.
     io_bind (create_dir_all env (CreatingOutputParent (butlast output)) (butlast output)) (\<lambda>_.
     io_bind (resolve_io env root rel) (\<lambda>output.
     io_bind (temp_file_in env (StagingOutput (butlast output)) (butlast output)) (\<lambda>staged.
     io_bind
       (io_match
         (io_bind (copy_file env (WritingOutput output) content staged) (\<lambda>_.
          io_bind (apply_metadata env preserved output) (\<lambda>_.
          io_bind (resolve_io env root rel) (\<lambda>output.
            rename_no_replace env (PersistingOutput output) staged output))))
         io_ret (drop_temp env staged)) (\<lambda>_.
       apply_metadata env preserved output)))))"

type_synonym deferred = "(str \<times> bool) list"

text \<open>\<^verbatim>\<open>copy_plan_source\<close> on the node that was found at the source, and its loop over the entries of a
  directory. The deferred metadata comes back: each destination and whether it is a directory.\<close>

definition ensure_directory :: "'z io_env_scheme \<Rightarrow> host_path \<Rightarrow> (apply_error, unit) io" where
  "ensure_directory env output =
     io_bind (io_call env (InspectingOutput output) (\<lambda>t. Some ((is_file t output, dir_at t output \<noteq> None), t))) (\<lambda>(taken, there).
       if taken then io_fail (DestinationNotDirectory output)
       else if there then io_ret ()
       else create_dir_all env (CreatingOutputDirectory output) output)"

definition sorted_entries_of :: "(os_name \<times> fs_node) list \<Rightarrow> (os_name \<times> fs_node) list" where
  "sorted_entries_of es = sort_key fst (listed es)"

lemma size_insort: "size_list f (insort_key k x xs) = size_list f (x # xs)"
  by (induction xs) auto

lemma size_sort: "size_list f (sort_key k xs) = size_list f xs"
  by (induction xs) (simp_all add: size_insort)

lemma size_sorted_entries: "size (DirNode (sorted_entries_of es)) \<le> size (DirNode es)"
  using size_listed [of es] by (simp add: sorted_entries_of_def size_sort)

function copy_plan_entries ::
  "'z transaction_env_scheme \<Rightarrow> host_path \<Rightarrow> str \<Rightarrow> host_path \<Rightarrow> (os_name \<times> fs_node) list \<Rightarrow> deferred \<Rightarrow> (apply_error, deferred) io"
  and copy_plan_source ::
  "'z transaction_env_scheme \<Rightarrow> host_path \<Rightarrow> str \<Rightarrow> host_path \<Rightarrow> fs_node \<Rightarrow> deferred \<Rightarrow> (apply_error, deferred) io" where
  "copy_plan_entries env root dest source [] deferred = io_ret deferred"
| "copy_plan_entries env root dest source ((n, x) # es) deferred =
     (case from_utf8 n of
        None \<Rightarrow> io_fail (NonUnicodeName n)
      | Some name \<Rightarrow>
          io_bind (lift_res InvalidPath (checked_new (dest @ slash # name))) (\<lambda>child.
          io_bind (copy_plan_source env root child (source @ [n]) x deferred) (\<lambda>deferred.
            copy_plan_entries env root dest source es deferred)))"
| "copy_plan_source env root dest source (FileNode b) deferred =
     io_bind (touch env (InspectingSource source)) (\<lambda>_.
     io_bind (touch env (OpeningSource source)) (\<lambda>_.
     io_bind (persist_plan_output_with_metadata env root (host_of dest) b True) (\<lambda>_.
       io_ret (deferred @ [(dest, False)]))))"
| "copy_plan_source env root dest source (DirNode es) deferred =
     io_bind (touch env (InspectingSource source)) (\<lambda>_.
     io_bind (resolve_io env root (host_of dest)) (\<lambda>output.
     io_bind (ensure_directory env output) (\<lambda>_.
     io_bind (resolve_io env root (host_of dest)) (\<lambda>_.
     io_bind (touch env (ReadingSource source)) (\<lambda>_.
     io_bind (copy_plan_entries env root dest source (sorted_entries_of es) deferred) (\<lambda>deferred.
       io_ret (deferred @ [(dest, True)])))))))"
  by pat_completeness auto
termination
  by (relation "measure (\<lambda>x. case x of
        Inl (env, root, dest, source, es, deferred) \<Rightarrow> 2 * size (DirNode es)
      | Inr (env, root, dest, source, node, deferred) \<Rightarrow> 2 * size node + 1)")
     (use size_sorted_entries in \<open>auto simp: le_imp_less_Suc\<close>)

section \<open>The transaction\<close>

definition checked_moves :: "organization_plan \<Rightarrow> apply_error + (str \<times> str) list" where
  "checked_moves plan = map_res (\<lambda>(source, destination).
     res_bind (with_context InvalidPath (checked_new source)) (\<lambda>s.
     res_bind (with_context InvalidPath (checked_new destination)) (\<lambda>d. Inr (s, d))))
       (concat (map moves (plan_outputs plan)))"

definition checked_generated :: "organization_plan \<Rightarrow> apply_error + (str \<times> str) list" where
  "checked_generated plan = map_res (\<lambda>(path, content).
     res_bind (with_context InvalidPath (checked_new path)) (\<lambda>p. Inr (p, content)))
       (concat (map generated_files (plan_outputs plan)))"

definition checked_downloads :: "organization_plan \<Rightarrow> apply_error + str list" where
  "checked_downloads plan = map_res (\<lambda>dl. with_context InvalidPath (checked_new (pd_dest_path dl)))
     (concat (map downloads (plan_outputs plan)))"

definition resolve_all :: "'z io_env_scheme \<Rightarrow> host_path \<Rightarrow> str list \<Rightarrow> (apply_error, unit) io" where
  "resolve_all env root paths = io_for paths (\<lambda>p _. io_bind (resolve_io env root (host_of p)) (\<lambda>_. io_ret ())) ()"

definition resolve_roots :: "'z io_env_scheme \<Rightarrow> host_path \<Rightarrow> organization_plan \<Rightarrow> (apply_error, unit) io" where
  "resolve_roots env work plan = io_for (plan_outputs plan) (\<lambda>out _.
     if root_folder out = [] then io_ret ()
     else io_bind (lift_res InvalidPath (checked_new (root_folder out))) (\<lambda>p.
       io_bind (resolve_io env work (host_of p)) (\<lambda>_. io_ret ()))) ()"

definition tempdir_named :: "'z transaction_env_scheme \<Rightarrow> 'e \<Rightarrow> os_name \<Rightarrow> host_path \<Rightarrow> ('e, host_path) io" where
  "tempdir_named env e pre parent s =
     (let p = parent @ [pre @ te_suffix env (hs_calls s)] in io_bind (create_dir env e p) (\<lambda>_. io_ret p) s)"

text \<open>The moves: a source that is missing is passed over.\<close>

definition stage_move ::
  "'z transaction_env_scheme \<Rightarrow> host_path \<Rightarrow> host_path \<Rightarrow> str \<times> str \<Rightarrow> deferred \<Rightarrow> (apply_error, deferred) io" where
  "stage_move env work staging m deferred =
     (case m of (source, destination) \<Rightarrow>
        io_bind (resolve_io env work (host_of source)) (\<lambda>source_path.
        io_bind (io_call env (InspectingSource source_path) (\<lambda>t. Some (node_at t source_path, t))) (\<lambda>found.
          case found of
            None \<Rightarrow> io_ret deferred
          | Some node \<Rightarrow>
              io_bind (resolve_io env work (host_of source)) (\<lambda>source_path.
                copy_plan_source env staging destination source_path node deferred))))"

definition stage_generated ::
  "'z transaction_env_scheme \<Rightarrow> host_path \<Rightarrow> str \<times> str \<Rightarrow> unit \<Rightarrow> (apply_error, unit) io" where
  "stage_generated env staging g _ =
     (case g of (path, content) \<Rightarrow> persist_plan_output_with_metadata env staging (host_of path) (as_bytes content) False)"

definition entry_rel :: "os_name \<Rightarrow> apply_error + host_path" where
  "entry_rel n = (case from_utf8 n of
      None \<Rightarrow> Inl (NonUnicodeName n)
    | Some name \<Rightarrow> res_bind (with_context InvalidPath (checked_new name)) (\<lambda>p. Inr (host_of p)))"

definition checked_top_level_entries :: "'z io_env_scheme \<Rightarrow> host_path \<Rightarrow> (apply_error, host_path list) io" where
  "checked_top_level_entries env root =
     io_bind (read_dir env (ReadingTopLevel root) root) (\<lambda>es.
       lift_res id (map_res entry_rel (sort (map fst es))))"

record prepared =
  pr_originals :: "host_path list"
  pr_staged :: "host_path list"
  pr_deferred :: deferred
  pr_backup :: host_path

definition prepare ::
  "'z transaction_env_scheme \<Rightarrow> organization_plan \<Rightarrow> host_path \<Rightarrow> host_path \<Rightarrow> (str \<times> str) list \<Rightarrow> (str \<times> str) list
     \<Rightarrow> (apply_error, prepared) io" where
  "prepare env plan work staging checked generated =
     io_bind (io_for checked (stage_move env work staging) []) (\<lambda>deferred.
     io_bind (io_for generated (stage_generated env staging) ()) (\<lambda>_.
     io_bind (checked_top_level_entries env work) (\<lambda>originals.
     io_bind (checked_top_level_entries env staging) (\<lambda>staged.
       if staged = []
       then io_fail (StagedNothing (plan_rule_name plan) (length (plan_outputs plan)) (length (skipped_outputs plan)))
       else io_bind (tempdir_named env CreatingBackup (as_bytes (lit ''.arclain-plan-backup-'')) (butlast work)) (\<lambda>backup.
         io_ret \<lparr>pr_originals = originals, pr_staged = staged, pr_deferred = deferred, pr_backup = backup\<rparr>)))))"

text \<open>The two loops of the swap. They return the error that stopped them, if any, and the moves made, each
  as where the entry is now and where it was.\<close>

fun move_entries ::
  "'z apply_env_scheme \<Rightarrow> host_path \<Rightarrow> host_path \<Rightarrow> host_path list \<Rightarrow> (host_path \<times> host_path) list
     \<Rightarrow> ('e, apply_error option \<times> (host_path \<times> host_path) list) io" where
  "move_entries env source_root target_root [] made = io_ret (None, made)"
| "move_entries env source_root target_root (rel # rels) made =
     io_match
       (io_bind (resolve_io env source_root rel) (\<lambda>source.
        io_bind (resolve_io env target_root rel) (\<lambda>destination.
        io_bind (rename_noclobber env source destination) (\<lambda>_. io_ret (destination, source)))))
       (\<lambda>m. move_entries env source_root target_root rels (made @ [m]))
       (\<lambda>e. io_ret (Some e, made))"

definition deferred_depth :: "str \<times> bool \<Rightarrow> int" where
  "deferred_depth d = - int (length (path_segments (fst d)))"

definition deferred_order :: "deferred \<Rightarrow> deferred" where
  "deferred_order ds = sort_key deferred_depth (filter (\<lambda>d. \<not> snd d) ds) @ sort_key deferred_depth (filter snd ds)"

definition apply_deferred_plan_metadata :: "'z io_env_scheme \<Rightarrow> host_path \<Rightarrow> deferred \<Rightarrow> (apply_error, unit) io" where
  "apply_deferred_plan_metadata env root ds = io_for (deferred_order ds) (\<lambda>(dest, _) _.
     io_bind (resolve_io env root (host_of dest)) (\<lambda>p.
     io_bind (io_call env (PreservingMetadata p) (\<lambda>t. if path_exists t p then Some ((), t) else None)) (\<lambda>_.
       touch env (PreservingMetadata p)))) ()"

definition swap_layout ::
  "'z apply_env_scheme \<Rightarrow> host_path \<Rightarrow> host_path \<Rightarrow> prepared
     \<Rightarrow> ('e, apply_error option \<times> (host_path \<times> host_path) list \<times> (host_path \<times> host_path) list) io" where
  "swap_layout env work staging pr =
     io_bind (move_entries env work (pr_backup pr) (pr_originals pr) []) (\<lambda>(failed, backed_up).
       case failed of
         Some e \<Rightarrow> io_ret (Some e, backed_up, [])
       | None \<Rightarrow>
           io_bind (move_entries env staging work (pr_staged pr) []) (\<lambda>(failed, promoted).
             case failed of
               Some e \<Rightarrow> io_ret (Some e, backed_up, promoted)
             | None \<Rightarrow>
                 io_match (apply_deferred_plan_metadata env work (pr_deferred pr))
                   (\<lambda>_. io_ret (None, backed_up, promoted))
                   (\<lambda>e. io_ret (Some e, backed_up, promoted))))"

text \<open>Undo moves, last first, and count what could not be undone.\<close>

fun undo_moves :: "'z apply_env_scheme \<Rightarrow> (host_path \<times> host_path) list \<Rightarrow> nat \<Rightarrow> ('e, nat) io" where
  "undo_moves env [] failures = io_ret failures"
| "undo_moves env ((now, was) # ms) failures =
     io_match (rename_noclobber env now was)
       (\<lambda>_. undo_moves env ms failures) (\<lambda>_. undo_moves env ms (Suc failures))"

definition rollback_layout_swap ::
  "'z apply_env_scheme \<Rightarrow> (host_path \<times> host_path) list \<Rightarrow> (host_path \<times> host_path) list \<Rightarrow> ('e, nat) io" where
  "rollback_layout_swap env promoted backed_up =
     io_bind (undo_moves env (rev promoted) 0) (\<lambda>failures. undo_moves env (rev backed_up) failures)"

definition close_transaction_directories :: "'z io_env_scheme \<Rightarrow> host_path \<Rightarrow> host_path \<Rightarrow> ('e, nat) io" where
  "close_transaction_directories env staging backup =
     io_bind (io_match (remove_dir_all env () backup) (\<lambda>_. io_ret 0) (\<lambda>_. io_ret 1)) (\<lambda>m.
     io_match (remove_dir_all env () staging) (\<lambda>_. io_ret m) (\<lambda>_. io_ret (Suc m)))"

definition finish_failed ::
  "'z apply_env_scheme \<Rightarrow> host_path \<Rightarrow> host_path \<Rightarrow> apply_error \<Rightarrow> (host_path \<times> host_path) list
     \<Rightarrow> (host_path \<times> host_path) list \<Rightarrow> (apply_error, apply_outcome) io" where
  "finish_failed env staging backup e backed_up promoted =
     io_bind (rollback_layout_swap env promoted backed_up) (\<lambda>failures.
       if failures \<noteq> 0 then io_fail (RollbackFailed e failures staging backup)
       else io_bind (close_transaction_directories env staging backup) (\<lambda>left.
         if left \<noteq> 0 then io_fail (CleanupFailed e left) else io_fail e))"

definition finish_committed :: "'z io_env_scheme \<Rightarrow> host_path \<Rightarrow> host_path \<Rightarrow> (apply_error, apply_outcome) io" where
  "finish_committed env staging backup =
     io_match (remove_dir_all env () staging)
       (\<lambda>_. io_match (remove_dir_all env () backup)
          (\<lambda>_. io_ret Committed)
          (\<lambda>_. io_bind (io_get (\<lambda>t. path_exists t backup)) (\<lambda>there.
             io_ret (CommittedWithCleanupWarnings (if there then [backup] else [])))))
       (\<lambda>_. io_bind (io_get (\<lambda>t. path_exists t staging)) (\<lambda>there.
          io_ret (CommittedWithCleanupWarnings (if there then [staging, backup] else [backup]))))"

definition apply_plan_transaction ::
  "unicode \<Rightarrow> 'z apply_env_scheme \<Rightarrow> organization_plan \<Rightarrow> host_path \<Rightarrow> (apply_error, apply_outcome) io" where
  "apply_plan_transaction u env plan work =
     io_bind (lift_res InvalidPlan (validate_paths u plan)) (\<lambda>_.
     io_bind (resolve_roots env work plan) (\<lambda>_.
     io_bind (lift_res id (checked_moves plan)) (\<lambda>checked.
     io_bind (lift_res id (checked_generated plan)) (\<lambda>generated.
     io_bind (lift_res id (checked_downloads plan)) (\<lambda>fetched.
     io_bind (resolve_all env work (concat (map (\<lambda>(s, d). [s, d]) checked) @ map fst generated @ fetched)) (\<lambda>_.
     io_bind (io_call env (CanonicalizeWork work) (\<lambda>t. if path_exists t work then Some ((), t) else None)) (\<lambda>_.
     if work = [] then io_fail NoWorkParent
     else
       io_bind (tempdir_named env CreatingStaging (as_bytes (lit ''.arclain-plan-'')) (butlast work)) (\<lambda>staging.
       io_match (prepare env plan work staging checked generated)
         (\<lambda>pr. io_bind (swap_layout env work staging pr) (\<lambda>(failed, backed_up, promoted).
            case failed of
              Some e \<Rightarrow> finish_failed env staging (pr_backup pr) e backed_up promoted
            | None \<Rightarrow> finish_committed env staging (pr_backup pr)))
         (\<lambda>e. io_match (remove_dir_all env () staging)
            (\<lambda>_. io_fail e) (\<lambda>_. io_fail (PrebackupCleanupFailed e staging)))))))))))"

end
