(* ===== verification/Apply_Properties.thy ===== *)
theory Apply_Properties
  imports Plan_Apply File_Frame
begin

text \<open>
  What applying a plan guarantees. Whichever calls fail, an error leaves every file where it was, or says
  that moving back failed and where the files are. The one exception, permissions that cannot be set back after a
  move, is shown at the end.
\<close>

section \<open>Postconditions that see the error\<close>

definition io_spec ::
  "(fs_node \<Rightarrow> bool) \<Rightarrow> ('e, 'a) io \<Rightarrow> ('a \<Rightarrow> fs_node \<Rightarrow> bool) \<Rightarrow> ('e \<Rightarrow> fs_node \<Rightarrow> bool) \<Rightarrow> bool" where
  "io_spec P m Q E \<longleftrightarrow> (\<forall>s. P (hs_tree s) \<longrightarrow>
     (\<forall>x s'. m s = (Inr x, s') \<longrightarrow> Q x (hs_tree s')) \<and> (\<forall>e s'. m s = (Inl e, s') \<longrightarrow> E e (hs_tree s')))"

lemma io_spec_ok: "io_ok P m Q E \<Longrightarrow> io_spec P m Q (\<lambda>_. E)"
  by (simp add: io_spec_def io_ok_def)

lemma io_spec_bind:
  assumes "io_spec P m R E" "\<And>x. io_spec (R x) (f x) Q E"
  shows "io_spec P (io_bind m f) Q E"
  using assms unfolding io_spec_def io_bind_def by (auto split: prod.splits sum.splits; blast)

lemma io_spec_match:
  assumes "io_spec P m R D" "\<And>x. io_spec (R x) (f x) Q E" "\<And>e. io_spec (D e) (g e) Q E"
  shows "io_spec P (io_match m f g) Q E"
  using assms unfolding io_spec_def io_match_def by (auto split: prod.splits sum.splits; blast)

lemma io_spec_weaken:
  assumes "io_spec P' m Q' E'" "\<And>t. P t \<Longrightarrow> P' t" "\<And>x t. Q' x t \<Longrightarrow> Q x t" "\<And>e t. E' e t \<Longrightarrow> E e t"
  shows "io_spec P m Q E"
  using assms unfolding io_spec_def by meson

lemma io_spec_fail: "(\<And>t. P t \<Longrightarrow> E e t) \<Longrightarrow> io_spec P (io_fail e) Q E"
  by (simp add: io_spec_def io_fail_def)

lemma io_spec_ret: "(\<And>t. P t \<Longrightarrow> Q x t) \<Longrightarrow> io_spec P (io_ret x) Q E"
  by (simp add: io_spec_def io_ret_def)

text \<open>A computation that is chosen by the state it starts in.\<close>

lemma io_ok_at_state: "(\<And>s. io_ok P (m s) Q E) \<Longrightarrow> io_ok P (\<lambda>s. m s s) Q E"
  unfolding io_ok_def by blast

section \<open>Where files are after a move\<close>

lemma file_at_del_below: "p \<noteq> [] \<Longrightarrow> prefix p q \<Longrightarrow> file_at (del_at t p) q = None"
  using node_at_del_same [of p t] by (auto simp: file_at_def prefix_def node_at_append)

definition moved :: "fs_node \<Rightarrow> host_path \<Rightarrow> host_path \<Rightarrow> fs_node \<Rightarrow> bool" where
  "moved t a b t' \<longleftrightarrow> \<not> path_exists t b \<and> rename_tree t a b = Some t'"

lemma moved_absent: "moved t a b t' \<Longrightarrow> file_at t (b @ q) = None"
  by (auto simp: moved_def path_exists_def file_at_def node_at_append)

lemma moved_files:
  assumes "moved t a b t'"
  shows "file_at t' (b @ q) = file_at t (a @ q)"
    and "\<not> prefix b r \<Longrightarrow> prefix a r \<Longrightarrow> file_at t' r = None"
    and "\<not> prefix b r \<Longrightarrow> \<not> prefix a r \<Longrightarrow> file_at t' r = file_at t r"
proof -
  obtain n where n: "node_at t a = Some n" "\<not> prefix a b" "b \<noteq> []" "dir_at t (butlast b) \<noteq> None"
    "node_at t b = None" "t' = put_at (del_at t a) b n"
    using assms by (auto simp: moved_def path_exists_def rename_tree_def split: option.splits if_splits)
  have "a \<noteq> []" using n(2) by auto
  have "\<not> prefix a (butlast b)" using n(2) prefixeq_butlast prefix_order.trans by blast
  then have "dir_at (del_at t a) (butlast b) \<noteq> None"
    using n(4) dir_at_del_above [of "butlast b" a t] dir_at_parallel(2) [of a "butlast b" t]
    by (cases "prefix (butlast b) a") (auto simp: prefix_order.less_le)
  from node_at_put_below [OF n(3) this] show "file_at t' (b @ q) = file_at t (a @ q)"
    using n(1) by (simp add: n(6) file_at_def node_at_append)
  show "\<not> prefix b r \<Longrightarrow> prefix a r \<Longrightarrow> file_at t' r = None"
    using file_at_del_below [OF \<open>a \<noteq> []\<close>] by (simp add: n(6) file_at_put_other)
  show "\<not> prefix b r \<Longrightarrow> \<not> prefix a r \<Longrightarrow> file_at t' r = file_at t r"
    by (simp add: n(6) file_at_put_other file_at_del_other)
qed

lemma io_ok_restore_permissions:
  "(\<And>n. \<not> pe_restore_fault env n) \<Longrightarrow> io_ok P (restore_permissions env e) (\<lambda>_. P) (\<lambda>_. False)"
  by (simp add: io_ok_def restore_permissions_def)

lemma io_ok_rename_moved:
  assumes "\<And>t t'. P t \<Longrightarrow> \<not> path_exists t b \<Longrightarrow> moved t a b t' \<Longrightarrow> Q t'" "\<And>t. P t \<Longrightarrow> E t"
  shows "io_ok (\<lambda>t. P t \<and> \<not> path_exists t b) (rename env e a b) (\<lambda>_. Q) (\<lambda>t. P t \<and> \<not> path_exists t b)"
  unfolding rename_def by (rule io_ok_call) (use assms in \<open>auto simp: moved_def\<close>)

lemma io_ok_rename_noclobber:
  assumes restore: "\<And>n. \<not> pe_restore_fault env n"
    and "\<And>t t'. P t \<Longrightarrow> moved t a b t' \<Longrightarrow> Q t'"
  shows "io_ok P (rename_noclobber env a b) (\<lambda>_. Q) P"
proof -
  let ?P = "\<lambda>t. P t \<and> \<not> path_exists t b"
  have rename: "io_ok ?P (rename env e a b) (\<lambda>_. Q) ?P" for e :: apply_error
    by (rule io_ok_rename_moved [where E = P]) (use assms(2) in auto)
  have retry: "io_ok ?P (rename_read_only_directory env a b) (\<lambda>_. Q) P"
    unfolding rename_read_only_directory_def Let_def
  proof (rule io_ok_bind, rule io_ok_call [where Q = "\<lambda>_. ?P"])
    fix x :: unit
    show "io_ok ?P (io_bind (touch env (MovingFailed a b)) (\<lambda>_. io_match (rename env (MovingFailed a b) a b)
        (\<lambda>_. restore_permissions env (RestoringPermissions b))
        (\<lambda>e. io_match (restore_permissions env ()) (\<lambda>_. io_fail e) (\<lambda>_. io_fail e)))) (\<lambda>_. Q) P"
      unfolding touch_def
    proof (rule io_ok_bind, rule io_ok_call [where Q = "\<lambda>_. ?P"])
      fix y :: unit
      show "io_ok ?P (io_match (rename env (MovingFailed a b) a b)
        (\<lambda>_. restore_permissions env (RestoringPermissions b))
        (\<lambda>e. io_match (restore_permissions env ()) (\<lambda>_. io_fail e) (\<lambda>_. io_fail e))) (\<lambda>_. Q) P"
      proof (rule io_ok_match [OF rename])
        show "io_ok Q (restore_permissions env (RestoringPermissions b)) (\<lambda>_. Q) P"
          by (rule io_ok_weaken [OF io_ok_restore_permissions [OF restore]]) auto
        show "io_ok ?P (io_match (restore_permissions env ()) (\<lambda>_. io_fail e) (\<lambda>_. io_fail e)) (\<lambda>_. Q) P" for e
          by (rule io_ok_match [OF io_ok_restore_permissions [OF restore]]) (auto intro: io_ok_fail)
      qed
    qed auto
  qed (auto split: if_splits)
  have "io_ok ?P (io_match (rename env (MovingFailed a b) a b) io_ret
      (\<lambda>e. if pe_denied env (hs_calls s) then rename_read_only_directory env a b else io_fail e)) (\<lambda>_. Q) P" for s :: host_state
    by (rule io_ok_match [OF rename]) (auto intro: io_ok_ret io_ok_fail io_ok_weaken [OF retry])
  from io_ok_at_state [where m = "\<lambda>s. io_match (rename env (MovingFailed a b) a b) io_ret
      (\<lambda>e. if pe_denied env (hs_calls s) then rename_read_only_directory env a b else io_fail e)", OF this]
  show ?thesis
    unfolding rename_noclobber_def by (intro io_ok_bind [OF io_ok_call [where Q = "\<lambda>_. ?P"]]) (auto split: if_splits)
qed

section \<open>The swap\<close>

definition beside :: "host_path \<Rightarrow> host_path \<Rightarrow> bool" where
  "beside p q \<longleftrightarrow> \<not> prefix p q \<and> \<not> prefix q p"

lemma beside_below: "beside p q \<Longrightarrow> \<not> prefix (p @ x) (q @ y)"
  unfolding beside_def using prefix_same_cases [of p "q @ y" q] by (auto dest: append_prefixD)

lemma beside_sym: "beside p q \<Longrightarrow> beside q p"
  by (auto simp: beside_def)

text \<open>Where the files of the work directory are during a swap: those at or below an entry that was moved are
  in the backup, the others in the work directory and not at or below an entry that was put there.\<close>

definition placed ::
  "(host_path \<rightharpoonup> byte list) \<Rightarrow> host_path \<Rightarrow> host_path \<Rightarrow> host_path list \<Rightarrow> host_path list \<Rightarrow> fs_node \<Rightarrow> bool" where
  "placed F work backup L P t \<longleftrightarrow> (\<forall>q b. F q = Some b \<longrightarrow>
     ((\<exists>rel \<in> set L. prefix rel q) \<and> file_at t (backup @ q) = Some b)
     \<or> ((\<forall>rel \<in> set P. \<not> prefix rel q) \<and> file_at t (work @ q) = Some b))"

lemma placed_backup:
  assumes "placed F work backup L [] t" "moved t (work @ rel) (backup @ rel) t'" "beside work backup"
  shows "placed F work backup (L @ [rel]) [] t'"
  unfolding placed_def
proof (intro allI impI)
  fix q b assume "F q = Some b"
  then consider (saved) r where "r \<in> set L" "prefix r q" "file_at t (backup @ q) = Some b" | (here) "file_at t (work @ q) = Some b"
    using assms(1) unfolding placed_def by blast
  then show "((\<exists>r \<in> set (L @ [rel]). prefix r q) \<and> file_at t' (backup @ q) = Some b)
     \<or> ((\<forall>r \<in> set []. \<not> prefix r q) \<and> file_at t' (work @ q) = Some b)"
  proof cases
    case saved
    have "\<not> prefix rel q" using saved(3) moved_absent [OF assms(2)] by (auto simp: prefix_def)
    then show ?thesis using saved moved_files(3) [OF assms(2), of "backup @ q"] beside_below [OF assms(3)] by auto
  next
    case here
    show ?thesis
    proof (cases "prefix rel q")
      case True
      then obtain x where "q = rel @ x" by (auto simp: prefix_def)
      then show ?thesis using here moved_files(1) [OF assms(2), of x] by auto
    next
      case False
      then show ?thesis
        using here moved_files(3) [OF assms(2), of "work @ q"] beside_below [OF beside_sym [OF assms(3)]] by auto
    qed
  qed
qed

lemma placed_promote:
  assumes "placed F work backup L P t" "moved t (staging @ rel) (work @ rel) t'"
    and "beside work backup" "beside staging backup" "beside staging work"
  shows "placed F work backup L (P @ [rel]) t'"
  unfolding placed_def
proof (intro allI impI)
  fix q b assume "F q = Some b"
  then consider (saved) r where "r \<in> set L" "prefix r q" "file_at t (backup @ q) = Some b"
    | (here) "\<forall>r \<in> set P. \<not> prefix r q" "file_at t (work @ q) = Some b"
    using assms(1) unfolding placed_def by blast
  then show "((\<exists>r \<in> set L. prefix r q) \<and> file_at t' (backup @ q) = Some b)
     \<or> ((\<forall>r \<in> set (P @ [rel]). \<not> prefix r q) \<and> file_at t' (work @ q) = Some b)"
  proof cases
    case saved
    then show ?thesis
      using moved_files(3) [OF assms(2), of "backup @ q"] beside_below [OF assms(3)] beside_below [OF assms(4)] by auto
  next
    case here
    have "\<not> prefix rel q" using here(2) moved_absent [OF assms(2)] by (auto simp: prefix_def)
    then show ?thesis using here moved_files(3) [OF assms(2), of "work @ q"] beside_below [OF assms(5)] by auto
  qed
qed

lemma placed_revert:
  assumes "placed F work backup L P t" "rel \<in> set P" "moved t (work @ rel) (staging @ rel) t'"
    and "beside work backup" "beside staging backup" "beside staging work"
  shows "placed F work backup L P t'"
  unfolding placed_def
proof (intro allI impI)
  fix q b assume "F q = Some b"
  then consider (saved) r where "r \<in> set L" "prefix r q" "file_at t (backup @ q) = Some b"
    | (here) "\<forall>r \<in> set P. \<not> prefix r q" "file_at t (work @ q) = Some b"
    using assms(1) unfolding placed_def by blast
  then show "((\<exists>r \<in> set L. prefix r q) \<and> file_at t' (backup @ q) = Some b)
     \<or> ((\<forall>r \<in> set P. \<not> prefix r q) \<and> file_at t' (work @ q) = Some b)"
  proof cases
    case saved
    then show ?thesis
      using moved_files(3) [OF assms(3), of "backup @ q"] beside_below [OF assms(4)] beside_below [OF assms(5)] by auto
  next
    case here
    then show ?thesis
      using assms(2) moved_files(3) [OF assms(3), of "work @ q"] beside_below [OF assms(6)] by auto
  qed
qed

lemma placed_restore:
  assumes "placed F work backup (A @ rel # B) [] t" "moved t (backup @ rel) (work @ rel) t'" "beside work backup"
  shows "placed F work backup (A @ B) [] t'"
  unfolding placed_def
proof (intro allI impI)
  fix q b assume "F q = Some b"
  then consider (saved) r where "r \<in> set (A @ rel # B)" "prefix r q" "file_at t (backup @ q) = Some b"
    | (here) "file_at t (work @ q) = Some b"
    using assms(1) unfolding placed_def by blast
  then show "((\<exists>r \<in> set (A @ B). prefix r q) \<and> file_at t' (backup @ q) = Some b)
     \<or> ((\<forall>r \<in> set []. \<not> prefix r q) \<and> file_at t' (work @ q) = Some b)"
  proof cases
    case saved
    show ?thesis
    proof (cases "prefix rel q")
      case True
      then obtain x where "q = rel @ x" by (auto simp: prefix_def)
      then show ?thesis using saved(3) moved_files(1) [OF assms(2), of x] by auto
    next
      case False
      then have "r \<in> set (A @ B)" using saved(1,2) by auto
      moreover have "file_at t' (backup @ q) = Some b"
        using saved(3) False moved_files(3) [OF assms(2), of "backup @ q"] beside_below [OF assms(3)] by auto
      ultimately show ?thesis using saved(2) by blast
    qed
  next
    case here
    have "\<not> prefix rel q" using here moved_absent [OF assms(2)] by (auto simp: prefix_def)
    then show ?thesis
      using here moved_files(3) [OF assms(2), of "work @ q"] beside_below [OF beside_sym [OF assms(3)]] by auto
  qed
qed

text \<open>The files outside stay.\<close>

lemma keeps_moved: "keeps K t \<Longrightarrow> clear_of K a \<Longrightarrow> clear_of K b \<Longrightarrow> moved t a b t' \<Longrightarrow> keeps K t'"
  by (auto simp: moved_def dest: keeps_rename)

lemma clear_of_append: "clear_of K p \<Longrightarrow> clear_of K (p @ q)"
  by (rule clear_of_below) auto

lemma io_ok_resolve: "io_ok P (resolve_io env root rel) (\<lambda>p t. P t \<and> p = root @ rel) P"
  unfolding resolve_io_def by (rule io_ok_call) (auto split: if_splits)

definition pairs :: "host_path \<Rightarrow> host_path \<Rightarrow> host_path list \<Rightarrow> (host_path \<times> host_path) list" where
  "pairs a b rels = map (\<lambda>rel. (a @ rel, b @ rel)) rels"

lemma pairs_none: "[] = pairs a b []"
  by (simp add: pairs_def)

lemma io_ok_move_entries:
  assumes restore: "\<And>n. \<not> pe_restore_fault env n"
    and step: "\<And>L rel t t'. I L t \<Longrightarrow> moved t (a @ rel) (b @ rel) t' \<Longrightarrow> I (L @ [rel]) t'"
  shows "io_ok (I L) (move_entries env a b rels (pairs b a L) :: ('e, _) io)
    (\<lambda>(failed, made) t. \<exists>L'. made = pairs b a L' \<and> I L' t \<and> (failed = None \<longrightarrow> L' = L @ rels)) (\<lambda>_. False)"
proof (induction rels arbitrary: L)
  case Nil
  then show ?case by (auto intro: io_ok_ret)
next
  case (Cons rel rels)
  let ?Q = "\<lambda>(failed, made) t. \<exists>L'. made = pairs b a L' \<and> I L' t \<and> (failed = None \<longrightarrow> L' = L @ rel # rels)"
  have one: "io_ok (I L) (io_bind (resolve_io env a rel) (\<lambda>source. io_bind (resolve_io env b rel) (\<lambda>destination.
      io_bind (rename_noclobber env source destination) (\<lambda>_. io_ret (destination, source)))))
    (\<lambda>m t. I (L @ [rel]) t \<and> m = (b @ rel, a @ rel)) (I L)"
  proof (rule io_ok_bind [OF io_ok_resolve], rule io_ok_bind)
    fix source
    show "io_ok (\<lambda>t. I L t \<and> source = a @ rel) (resolve_io env b rel) (\<lambda>p t. (I L t \<and> source = a @ rel) \<and> p = b @ rel) (I L)"
      by (rule io_ok_weaken [OF io_ok_resolve [where P = "\<lambda>t. I L t \<and> source = a @ rel"]]) auto
    fix destination
    show "io_ok (\<lambda>t. (I L t \<and> source = a @ rel) \<and> destination = b @ rel)
        (io_bind (rename_noclobber env source destination) (\<lambda>_. io_ret (destination, source)))
        (\<lambda>m t. I (L @ [rel]) t \<and> m = (b @ rel, a @ rel)) (I L)"
    proof (cases "source = a @ rel \<and> destination = b @ rel")
      case True
      have "io_ok (I L) (rename_noclobber env (a @ rel) (b @ rel)) (\<lambda>_. I (L @ [rel])) (I L)"
        by (rule io_ok_rename_noclobber [OF restore]) (rule step)
      then show ?thesis using True by (auto intro!: io_ok_bind io_ok_ret)
    qed (auto intro: io_ok_false)
  qed
  show ?case
    unfolding move_entries.simps
  proof (rule io_ok_match [OF one])
    fix m
    show "io_ok (\<lambda>t. I (L @ [rel]) t \<and> m = (b @ rel, a @ rel)) (move_entries env a b rels (pairs b a L @ [m]) :: ('e, _) io) ?Q (\<lambda>_. False)"
    proof (cases "m = (b @ rel, a @ rel)")
      case True
      then have "pairs b a L @ [m] = pairs b a (L @ [rel])" by (simp add: pairs_def)
      then show ?thesis using Cons.IH [of "L @ [rel]"] True by (auto elim: io_ok_weaken)
    qed (auto intro: io_ok_false)
    show "io_ok (I L) (io_ret (Some e, pairs b a L) :: ('e, _) io) ?Q (\<lambda>_. False)" for e by (rule io_ok_ret) auto
  qed
qed

lemma io_ok_move_all:
  assumes "\<And>n. \<not> pe_restore_fault env n"
    and "\<And>L rel t t'. I L t \<Longrightarrow> moved t (a @ rel) (b @ rel) t' \<Longrightarrow> I (L @ [rel]) t'"
  shows "io_ok (I []) (move_entries env a b rels [] :: ('e, _) io)
    (\<lambda>(failed, made). \<lambda>t. \<exists>L. made = pairs b a L \<and> I L t) (\<lambda>_. False)"
  by (rule io_ok_weaken [OF io_ok_move_entries [where L = "[]" and I = I, OF assms, unfolded pairs_def list.map(1)]])
    (auto simp: pairs_def)

text \<open>Undoing moves: what was undone goes from the list, what was not stays and is counted.\<close>

lemma io_ok_undo_moves:
  assumes restore: "\<And>n. \<not> pe_restore_fault env n"
    and step: "\<And>A rel B t t'. I (A @ rel # B) t \<Longrightarrow> moved t (b @ rel) (a @ rel) t' \<Longrightarrow> I (A @ B) t'"
  shows "io_ok (I (A @ B)) (undo_moves env (rev (pairs b a A)) (n + length B))
    (\<lambda>k t. \<exists>C. I C t \<and> k = n + length C) (\<lambda>_. False)"
proof (induction A arbitrary: B rule: rev_induct)
  case Nil
  then show ?case by (auto simp: pairs_def intro: io_ok_ret)
next
  case (snoc rel A)
  have "rev (pairs b a (A @ [rel])) = (b @ rel, a @ rel) # rev (pairs b a A)" by (simp add: pairs_def)
  moreover have "io_ok (I (A @ rel # B)) (rename_noclobber env (b @ rel) (a @ rel)) (\<lambda>_. I (A @ B)) (I (A @ rel # B))"
    by (rule io_ok_rename_noclobber [OF restore]) (rule step)
  ultimately show ?case
    using snoc.IH [of B] snoc.IH [of "rel # B"] by (auto intro!: io_ok_match)
qed

section \<open>Staging keeps every file and the directories\<close>

definition holding :: "(host_path \<Rightarrow> byte list option) \<Rightarrow> host_path set \<Rightarrow> fs_node \<Rightarrow> bool" where
  "holding F D t \<longleftrightarrow> keeps F t \<and> (\<forall>d \<in> D. dir_at t d \<noteq> None)"

definition free :: "(host_path \<Rightarrow> byte list option) \<Rightarrow> host_path set \<Rightarrow> host_path \<Rightarrow> bool" where
  "free F D p \<longleftrightarrow> clear_of F p \<and> (\<forall>d \<in> D. \<not> prefix p d)"

definition keeping :: "(host_path \<Rightarrow> byte list option) \<Rightarrow> host_path set \<Rightarrow> ('e, 'a) io \<Rightarrow> bool" where
  "keeping F D m \<longleftrightarrow> io_ok (holding F D) m (\<lambda>_. holding F D) (holding F D)"

lemma holding_absent: "holding F D t \<Longrightarrow> \<not> path_exists t p \<Longrightarrow> free F D p"
  unfolding holding_def free_def path_exists_def
  by (auto simp: dir_at_def prefix_def node_at_append dest: keeps_absent split: option.splits)

lemma holding_put: "holding F D t \<Longrightarrow> free F D p \<Longrightarrow> holding F D (put_at t p x)"
  unfolding holding_def free_def
  by (metis dir_at_parallel(1) dir_at_put_above keeps_put prefix_order.less_le)

lemma holding_del: "holding F D t \<Longrightarrow> free F D p \<Longrightarrow> holding F D (del_at t p)"
  unfolding holding_def free_def
  by (metis dir_at_parallel(2) dir_at_del_above keeps_del prefix_order.less_le)

lemma holding_rename: "holding F D t \<Longrightarrow> free F D a \<Longrightarrow> free F D b \<Longrightarrow> rename_tree t a b = Some t' \<Longrightarrow> holding F D t'"
  by (auto simp: rename_tree_def intro: holding_put holding_del split: option.splits if_splits)

lemma dir_at_mkdirs_stays: "mkdirs t p = Some t' \<Longrightarrow> dir_at t d \<noteq> None \<Longrightarrow> dir_at t' d \<noteq> None"
proof (induction t p arbitrary: t' d rule: mkdirs.induct)
  case (3 es c cs)
  then show ?case by (cases d) (auto split: option.splits if_splits)
qed auto

lemma keeping_pure: "io_pure m \<Longrightarrow> keeping F D m"
  unfolding keeping_def by (rule io_pure_ok)

lemma keeping_bind: "keeping F D m \<Longrightarrow> (\<And>x. keeping F D (f x)) \<Longrightarrow> keeping F D (io_bind m f)"
  unfolding keeping_def by (rule io_ok_bind)

lemma keeping_match:
  "keeping F D m \<Longrightarrow> (\<And>x. keeping F D (f x)) \<Longrightarrow> (\<And>e. keeping F D (g e)) \<Longrightarrow> keeping F D (io_match m f g)"
  unfolding keeping_def by (rule io_ok_match)

lemma keeping_for: "(\<And>x acc. keeping F D (body x acc)) \<Longrightarrow> keeping F D (io_for xs body acc)"
  unfolding keeping_def by (rule io_ok_for)

lemma pure_call [simp]:
  "io_pure (touch env e)" "io_pure (resolve_io env root rel)" "io_pure (apply_metadata env preserved p)"
  "io_pure (lift_res f r)"
  by (auto simp: io_pure_def touch_def resolve_io_def apply_metadata_def lift_res_def io_call_def Let_def io_ret_def io_fail_def
      split: option.splits sum.splits)

lemma pure_answer [simp]: "io_pure (io_call env e (\<lambda>t. Some (f t, t)))"
  "io_pure (io_call env e (\<lambda>t. if c t then Some (f t, t) else None))"
  by (auto simp: io_pure_def io_call_def Let_def split: option.splits)

lemma keeping_create_dir_all: "keeping F D (create_dir_all env e p)"
  unfolding keeping_def create_dir_all_def
proof (rule io_ok_call)
  fix t x t'
  assume "holding F D t" "map_option (\<lambda>t'. ((), t')) (mkdirs t p) = Some (x, t')"
  then have "keeps F t" "mkdirs t p = Some t'" "\<forall>d \<in> D. dir_at t d \<noteq> None" by (auto simp: holding_def)
  then show "holding F D t'" using dir_at_mkdirs_stays by (auto simp: holding_def keeps_def file_at_mkdirs)
qed

lemma keeping_dir: "keeping F D (create_dir env e p)"
  unfolding keeping_def create_dir_def
  by (rule io_ok_call) (auto intro: holding_put holding_absent split: if_splits)

lemma keeping_file: "keeping F D (create_file env e p)"
  unfolding keeping_def create_file_def
  by (rule io_ok_call) (auto intro: holding_put holding_absent split: if_splits)

lemma keeping_copy: "free F D p \<Longrightarrow> keeping F D (copy_file env e b p)"
  by (auto simp: keeping_def io_ok_def copy_file_def Let_def intro: holding_put split: if_splits)

lemma keeping_rename: "free F D a \<Longrightarrow> keeping F D (rename_no_replace env e a b)"
  unfolding keeping_def rename_no_replace_def
  by (rule io_ok_call) (auto intro: holding_rename holding_absent split: if_splits)

lemma keeping_drop: "free F D p \<Longrightarrow> keeping F D (drop_temp env p e)"
  unfolding drop_temp_def
  by (rule keeping_match)
    (auto simp: keeping_def remove_file_def intro!: io_ok_call intro: holding_del keeping_pure [unfolded keeping_def] split: option.splits)

lemma keeping_remove_dir_all:
  "free F D p \<Longrightarrow> p \<noteq> [] \<Longrightarrow> keeping F D (remove_dir_all env e p)"
  by (auto simp: keeping_def io_ok_def remove_dir_all_def Let_def intro: holding_put holding_del
      split: option.splits fs_node.splits if_splits)

lemma io_ok_temp_file:
  "io_ok (holding F D) (temp_file_in env e parent) (\<lambda>p t. holding F D t \<and> (\<exists>n. p = parent @ [n])) (holding F D)"
proof -
  have one: "io_ok (holding F D) (io_bind (create_file env e p) (\<lambda>_. io_ret p)) (\<lambda>p' t. holding F D t \<and> p' = p) (holding F D)" for p
    by (rule io_ok_bind [OF keeping_file [unfolded keeping_def]]) (auto intro: io_ok_ret)
  show ?thesis
    unfolding temp_file_in_def Let_def
    by (rule io_ok_at_state [where m = "\<lambda>s. io_bind (create_file env e (parent @ [temp_file_name (te_suffix env (hs_calls s))]))
      (\<lambda>_. io_ret (parent @ [temp_file_name (te_suffix env (hs_calls s))]))"], rule io_ok_weaken [OF one]) auto
qed

lemma host_of_not_Nil [simp]: "host_of p \<noteq> []"
  by (simp add: host_of_def)

lemma io_ok_conj': "(c \<Longrightarrow> io_ok P m Q E) \<Longrightarrow> io_ok (\<lambda>t. c \<and> P t) m Q E"
  unfolding io_ok_def by blast

lemma io_ok_Ex: "(\<And>x. io_ok (P x) m Q E) \<Longrightarrow> io_ok (\<lambda>t. \<exists>x. P x t) m Q E"
  unfolding io_ok_def by blast

lemma io_ok_conj: "(c \<Longrightarrow> io_ok P m Q E) \<Longrightarrow> io_ok (\<lambda>t. P t \<and> c) m Q E"
  unfolding io_ok_def by blast

lemma keeping_resolve: "keeping F D (f (root @ rel)) \<Longrightarrow> keeping F D (io_bind (resolve_io env root rel) f)"
  unfolding keeping_def by (rule io_ok_bind [OF io_ok_resolve]) (auto intro: io_ok_conj)

lemma keeping_temp:
  "(\<And>n. keeping F D (f (parent @ [n]))) \<Longrightarrow> keeping F D (io_bind (temp_file_in env e parent) f)"
  unfolding keeping_def by (rule io_ok_bind [OF io_ok_temp_file], rule io_ok_conj) auto

text \<open>A root below which nothing has to stay.\<close>

definition open_root :: "(host_path \<Rightarrow> byte list option) \<Rightarrow> host_path set \<Rightarrow> host_path \<Rightarrow> bool" where
  "open_root F D root \<longleftrightarrow> clear_of F root \<and> (\<forall>d \<in> D. d = root \<or> beside d root)"

lemma open_root_below: "open_root F D root \<Longrightarrow> rel \<noteq> [] \<Longrightarrow> free F D (root @ rel)"
  unfolding open_root_def free_def
  by (auto simp: clear_of_append beside_def dest: append_prefixD)

lemma keeping_persist:
  assumes "open_root F D root" "rel \<noteq> []"
  shows "keeping F D (persist_plan_output_with_metadata env root rel content preserved)"
  unfolding persist_plan_output_with_metadata_def
proof (intro keeping_resolve keeping_temp keeping_bind)
  show "keeping F D (create_dir_all env (CreatingOutputParent (butlast (root @ rel))) (butlast (root @ rel)))"
    by (rule keeping_create_dir_all)
  fix n
  have "free F D (butlast (root @ rel) @ [n])"
    using assms open_root_below [of F D root] by (simp add: butlast_append)
  then show "keeping F D (io_match (io_bind (copy_file env (WritingOutput (root @ rel)) content (butlast (root @ rel) @ [n])) (\<lambda>_.
      io_bind (apply_metadata env preserved (root @ rel)) (\<lambda>_. io_bind (resolve_io env root rel) (\<lambda>p.
        rename_no_replace env (PersistingOutput p) (butlast (root @ rel) @ [n]) p)))) io_ret (drop_temp env (butlast (root @ rel) @ [n])))"
    by (intro keeping_bind keeping_match keeping_copy keeping_drop keeping_rename keeping_pure) simp_all
  show "keeping F D (apply_metadata env preserved (root @ rel))" by (simp add: keeping_pure)
qed

lemma keeping_ensure: "keeping F D (ensure_directory env p)"
  unfolding ensure_directory_def
  by (rule keeping_bind) (auto intro: keeping_pure keeping_create_dir_all split: prod.splits)

lemma keeping_sources:
  "open_root F D root \<Longrightarrow> keeping F D (copy_plan_entries env root dest source es deferred)"
  "open_root F D root \<Longrightarrow> keeping F D (copy_plan_source env root dest source node deferred)"
proof (induction env root dest source es deferred and env root dest source node deferred rule: copy_plan_entries_copy_plan_source.induct)
  case (2 env root dest source n x es deferred)
  show ?case
  proof (cases "from_utf8 n")
    case None
    then show ?thesis by (simp add: keeping_pure)
  next
    case (Some name)
    then show ?thesis using 2 by (simp, intro keeping_bind) (simp_all add: keeping_pure)
  qed
next
  case (3 env root dest source b deferred)
  then show ?case unfolding copy_plan_source.simps by (intro keeping_bind keeping_persist) (auto intro: keeping_pure)
next
  case (4 env root dest source es deferred)
  then show ?case unfolding copy_plan_source.simps by (intro keeping_bind keeping_ensure) (auto intro: keeping_pure)
qed (simp add: keeping_pure)

lemma keeping_stage:
  assumes "open_root F D staging"
  shows "keeping F D (stage_move env work staging m deferred)" "keeping F D (stage_generated env staging g u)"
proof -
  show "keeping F D (stage_move env work staging m deferred)"
  proof (cases m)
    case (Pair a b)
    have "keeping F D (case found of None \<Rightarrow> io_ret deferred
        | Some node \<Rightarrow> io_bind (resolve_io env work (host_of a)) (\<lambda>p. copy_plan_source env staging b p node deferred))" for found
      by (cases found) (auto intro: keeping_pure keeping_resolve keeping_sources assms)
    then show ?thesis unfolding stage_move_def Pair prod.case by (intro keeping_resolve keeping_bind) (auto intro: keeping_pure)
  qed
  show "keeping F D (stage_generated env staging g u)"
    unfolding stage_generated_def by (cases g) (auto intro: keeping_persist assms)
qed

lemma pure_top_level [simp]: "io_pure (checked_top_level_entries env root)"
  by (simp add: checked_top_level_entries_def)

lemma pure_before [simp]: "io_pure (resolve_all env root ps)" "io_pure (resolve_roots env root plan)"
  "io_pure (apply_deferred_plan_metadata env root ds)"
  by (auto simp: resolve_all_def resolve_roots_def apply_deferred_plan_metadata_def split: prod.splits intro!: io_pure_for)

text \<open>A new directory beside the ones that have to stay.\<close>

lemma beside_siblings: "p = parent @ [n] \<Longrightarrow> q = parent @ [m] \<Longrightarrow> p \<noteq> q \<Longrightarrow> beside p q"
  by (auto simp: beside_def)

lemma io_ok_tempdir_named:
  "io_ok (holding F D) (tempdir_named env e pre parent)
    (\<lambda>p t. holding F (insert p D) t \<and> ((\<exists>n. p = parent @ [n]) \<and> free F D p)) (holding F D)"
proof -
  have one: "io_ok (holding F D) (io_bind (create_dir env e (parent @ [n])) (\<lambda>_. io_ret (parent @ [n])))
      (\<lambda>p t. holding F (insert p D) t \<and> ((\<exists>n. p = parent @ [n]) \<and> free F D p)) (holding F D)" for n
  proof (rule io_ok_bind [where R = "\<lambda>_ t. holding F (insert (parent @ [n]) D) t \<and> free F D (parent @ [n])"])
    show "io_ok (holding F D) (create_dir env e (parent @ [n]))
        (\<lambda>_ t. holding F (insert (parent @ [n]) D) t \<and> free F D (parent @ [n])) (holding F D)"
      unfolding create_dir_def
    proof (rule io_ok_call)
      fix t x t'
      assume h: "holding F D t" and "(if parent @ [n] = [] \<or> path_exists t (parent @ [n]) \<or> dir_at t (butlast (parent @ [n])) = None
          then None else Some ((), put_at t (parent @ [n]) (DirNode []))) = Some (x, t')"
      then have t': "\<not> path_exists t (parent @ [n])" "dir_at t parent \<noteq> None" "t' = put_at t (parent @ [n]) (DirNode [])"
        by (auto split: if_splits)
      then have "dir_at t' (parent @ [n]) \<noteq> None" using node_at_put_same [of "parent @ [n]" t] by (simp add: dir_at_def)
      then show "holding F (insert (parent @ [n]) D) t' \<and> free F D (parent @ [n])"
        using holding_put [OF h holding_absent [OF h t'(1)]] holding_absent [OF h t'(1)] t'(3) by (auto simp: holding_def)
    qed
  qed (auto intro: io_ok_ret)
  show ?thesis
    unfolding tempdir_named_def Let_def
    by (rule io_ok_at_state [where m = "\<lambda>s. io_bind (create_dir env e (parent @ [pre @ te_suffix env (hs_calls s)]))
      (\<lambda>_. io_ret (parent @ [pre @ te_suffix env (hs_calls s)]))"], rule one)
qed

lemma io_ok_prepare:
  assumes "open_root F D staging"
  shows "io_ok (holding F D) (prepare env plan work staging checked generated)
    (\<lambda>pr t. holding F (insert (pr_backup pr) D) t \<and> ((\<exists>n. pr_backup pr = butlast work @ [n]) \<and> free F D (pr_backup pr)))
    (holding F D)"
  unfolding prepare_def
proof (rule io_ok_bind [where R = "\<lambda>_. holding F D"], goal_cases)
  case 1
  show ?case unfolding keeping_def [symmetric] by (intro keeping_for keeping_stage assms)
next
  case (2 deferred)
  show ?case
  proof (rule io_ok_bind [where R = "\<lambda>_. holding F D"], goal_cases)
    case 1
    show ?case unfolding keeping_def [symmetric] by (intro keeping_for keeping_stage assms)
  next
    case (2 u)
    show ?case
    proof (rule io_ok_bind [OF io_pure_ok], simp, rule io_ok_bind [OF io_pure_ok], simp, rule io_ok_if)
      fix originals staged
      show "io_ok (holding F D)
          (io_bind (tempdir_named env CreatingBackup (as_bytes (lit ''.arclain-plan-backup-'')) (butlast work)) (\<lambda>backup.
             io_ret \<lparr>pr_originals = originals, pr_staged = staged, pr_deferred = deferred, pr_backup = backup\<rparr>))
          (\<lambda>pr t. holding F (insert (pr_backup pr) D) t \<and> ((\<exists>n. pr_backup pr = butlast work @ [n]) \<and> free F D (pr_backup pr)))
          (holding F D)"
        by (rule io_ok_bind [OF io_ok_tempdir_named]) (auto intro: io_ok_ret)
    qed (auto intro: io_ok_fail)
  qed
qed

section \<open>The swap as a whole\<close>

lemma io_ok_bind_pair:
  assumes "io_ok P m (\<lambda>(a, b). R a b) E" "\<And>a b. io_ok (R a b) (f a b) Q E"
  shows "io_ok P (io_bind m (\<lambda>(a, b). f a b)) Q E"
  by (rule io_ok_bind [OF assms(1)]) (use assms(2) in auto)

text \<open>The files of the work directory, and the files outside it.\<close>

definition inside :: "(host_path \<Rightarrow> byte list option) \<Rightarrow> host_path \<Rightarrow> host_path \<Rightarrow> byte list option" where
  "inside F work q = F (work @ q)"

definition outside :: "(host_path \<Rightarrow> byte list option) \<Rightarrow> host_path \<Rightarrow> host_path \<Rightarrow> byte list option" where
  "outside F work q = (if prefix work q then None else F q)"

definition swapping ::
  "(host_path \<Rightarrow> byte list option) \<Rightarrow> host_path \<Rightarrow> host_path \<Rightarrow> host_path list \<Rightarrow> host_path list \<Rightarrow> fs_node \<Rightarrow> bool" where
  "swapping F work backup L P t \<longleftrightarrow> placed (inside F work) work backup L P t \<and> keeps (outside F work) t"

lemma swapping_start: "swapping F work backup [] [] t \<longleftrightarrow> keeps F t"
  unfolding swapping_def placed_def keeps_def inside_def outside_def by (auto simp: prefix_def) metis

lemma swapping_none: "swapping F work backup [] [] = keeps F"
  by (rule ext) (rule swapping_start)

text \<open>Three directories beside each other, two of them new.\<close>

definition three :: "(host_path \<Rightarrow> byte list option) \<Rightarrow> host_path \<Rightarrow> host_path \<Rightarrow> host_path \<Rightarrow> bool" where
  "three F work staging backup \<longleftrightarrow> beside work backup \<and> beside staging backup \<and> beside staging work
     \<and> clear_of F staging \<and> clear_of F backup \<and> staging \<noteq> [] \<and> backup \<noteq> []"

lemma three_new:
  assumes "work \<noteq> []" "staging = butlast work @ [n]" "free F {work} staging" "backup = butlast work @ [m]" "free F {staging, work} backup"
  shows "three F work staging backup"
proof -
  have work: "work = butlast work @ [last work]" using assms(1) by simp
  have "staging \<noteq> work" "backup \<noteq> work" "backup \<noteq> staging" using assms(3,5) by (auto simp: free_def)
  then have "beside staging work" "beside backup work" "beside backup staging"
    using beside_siblings work assms(2,4) by metis+
  then show ?thesis using assms by (auto simp: three_def free_def beside_def)
qed

lemma outside_clear:
  "clear_of (outside F work) (work @ q)" "clear_of F p \<Longrightarrow> clear_of (outside F work) (p @ q)"
  by (auto simp: clear_of_def outside_def prefix_def)

lemma io_ok_swap_layout:
  assumes restore: "\<And>n. \<not> pe_restore_fault env n" and "three F work staging (pr_backup pr)"
  shows "io_ok (keeps F) (swap_layout env work staging pr :: ('e, _) io) (\<lambda>(failed, backed_up, promoted) t. \<exists>L P.
      backed_up = pairs (pr_backup pr) work L \<and> promoted = pairs work staging P \<and> swapping F work (pr_backup pr) L P t)
    (\<lambda>_. False)"
proof -
  let ?b = "pr_backup pr"
  let ?Q = "\<lambda>(failed, backed_up, promoted) t. \<exists>L P.
      backed_up = pairs ?b work L \<and> promoted = pairs work staging P \<and> swapping F work ?b L P t"
  have first: "io_ok (keeps F) (move_entries env work ?b rels [] :: ('e, _) io)
      (\<lambda>(failed, made) t. \<exists>L. made = pairs ?b work L \<and> swapping F work ?b L [] t) (\<lambda>_. False)" for rels
    unfolding swapping_none [symmetric, where work = work and backup = ?b]
    by (rule io_ok_move_all [where I = "\<lambda>L. swapping F work ?b L []", OF restore])
      (use assms(2) in \<open>auto simp: swapping_def three_def intro: placed_backup keeps_moved outside_clear\<close>)
  have front: "io_ok (swapping F work ?b L []) (move_entries env staging work rels [] :: ('e, _) io)
      (\<lambda>(failed, made) t. \<exists>P. made = pairs work staging P \<and> swapping F work ?b L P t) (\<lambda>_. False)" for rels L
    by (rule io_ok_move_all [where I = "swapping F work ?b L", OF restore])
      (use assms(2) in \<open>auto simp: swapping_def three_def intro: placed_promote keeps_moved outside_clear\<close>)
  have meta: "io_ok (swapping F work ?b L P) (io_match (apply_deferred_plan_metadata env work (pr_deferred pr))
      (\<lambda>_. io_ret (None, pairs ?b work L, pairs work staging P)) (\<lambda>e. io_ret (Some e, pairs ?b work L, pairs work staging P)) :: ('e, _) io)
      ?Q (\<lambda>_. False)" for L P
    by (rule io_ok_match [OF io_pure_ok]) (auto intro: io_ok_ret)
  have second: "io_ok (swapping F work ?b L []) (io_bind (move_entries env staging work (pr_staged pr) []) (\<lambda>(failed, promoted).
      case failed of Some e \<Rightarrow> io_ret (Some e, pairs ?b work L, promoted)
      | None \<Rightarrow> io_match (apply_deferred_plan_metadata env work (pr_deferred pr))
          (\<lambda>_. io_ret (None, pairs ?b work L, promoted)) (\<lambda>e. io_ret (Some e, pairs ?b work L, promoted))) :: ('e, _) io)
      ?Q (\<lambda>_. False)" for L
    by (rule io_ok_bind_pair [OF front], rule io_ok_Ex, rule io_ok_conj', split option.split, intro conjI impI allI; hypsubst)
      (rule meta, rule io_ok_ret, blast)
  show ?thesis
    unfolding swap_layout_def
    by (rule io_ok_bind_pair [OF first], rule io_ok_Ex, rule io_ok_conj', split option.split, intro conjI impI allI; hypsubst)
      (rule second, rule io_ok_ret, use pairs_none in fastforce)
qed

text \<open>After a failure: everything is back, or the error says that it is not and where the files are.\<close>

definition recoverable :: "(host_path \<Rightarrow> byte list option) \<Rightarrow> host_path \<Rightarrow> host_path \<Rightarrow> fs_node \<Rightarrow> bool" where
  "recoverable F work backup t \<longleftrightarrow> keeps (outside F work) t
     \<and> (\<forall>q b. F (work @ q) = Some b \<longrightarrow> file_at t (work @ q) = Some b \<or> file_at t (backup @ q) = Some b)"

lemma swapping_recoverable: "swapping F work backup L P t \<Longrightarrow> recoverable F work backup t"
  unfolding swapping_def recoverable_def placed_def inside_def by blast

lemma io_ok_rollback:
  assumes restore: "\<And>n. \<not> pe_restore_fault env n" and "three F work staging backup"
  shows "io_ok (swapping F work backup L P) (rollback_layout_swap env (pairs work staging P) (pairs backup work L) :: ('e, _) io)
    (\<lambda>k t. recoverable F work backup t \<and> (k = 0 \<longrightarrow> keeps F t)) (\<lambda>_. False)"
  unfolding rollback_layout_swap_def
proof (rule io_ok_bind [where R = "\<lambda>_. swapping F work backup L []"])
  have weaker: "swapping F work backup L P t \<Longrightarrow> swapping F work backup L [] t" for t
    unfolding swapping_def placed_def by auto
  have "io_ok (\<lambda>t. swapping F work backup L P t \<and> set (P @ []) \<subseteq> set P) (undo_moves env (rev (pairs work staging P)) (0 + length ([] :: host_path list)) :: ('e, _) io)
    (\<lambda>k t. \<exists>C. (swapping F work backup L P t \<and> set C \<subseteq> set P) \<and> k = 0 + length C) (\<lambda>_. False)"
    by (rule io_ok_undo_moves [where I = "\<lambda>C t. swapping F work backup L P t \<and> set C \<subseteq> set P", OF restore])
      (use assms(2) in \<open>auto simp: swapping_def three_def intro: placed_revert keeps_moved outside_clear\<close>)
  then show "io_ok (swapping F work backup L P) (undo_moves env (rev (pairs work staging P)) 0 :: ('e, _) io)
      (\<lambda>_. swapping F work backup L []) (\<lambda>_. False)"
    unfolding list.size(3) add_0_right by (rule io_ok_weaken) (auto intro: weaker)
  fix k
  have "io_ok (swapping F work backup (L @ []) []) (undo_moves env (rev (pairs backup work L)) (k + length ([] :: host_path list)) :: ('e, _) io)
    (\<lambda>m t. \<exists>C. swapping F work backup C [] t \<and> m = k + length C) (\<lambda>_. False)"
    by (rule io_ok_undo_moves [where I = "\<lambda>C. swapping F work backup C []", OF restore])
      (use assms(2) in \<open>auto simp: swapping_def three_def intro: placed_restore keeps_moved outside_clear\<close>)
  then show "io_ok (swapping F work backup L []) (undo_moves env (rev (pairs backup work L)) k :: ('e, _) io)
      (\<lambda>m t. recoverable F work backup t \<and> (m = 0 \<longrightarrow> keeps F t)) (\<lambda>_. False)"
    unfolding list.size(3) add_0_right by (rule io_ok_weaken) (auto simp: swapping_start dest: swapping_recoverable)
qed

lemma io_ok_close_directories:
  "three F work staging backup \<Longrightarrow>
   io_ok (keeps F) (close_transaction_directories env staging backup :: ('e, _) io) (\<lambda>_. keeps F) (keeps F)"
proof -
  assume "three F work staging backup"
  then have clear: "clear_of F staging" "clear_of F backup" by (simp_all add: three_def)
  have "io_ok (keeps F) (io_match (remove_dir_all env () p) (\<lambda>_. io_ret a) (\<lambda>_. io_ret b) :: ('e, _) io) (\<lambda>_. keeps F) (keeps F)"
    if "clear_of F p" for p and a b :: nat
    by (rule io_ok_match [OF io_ok_remove_dir_all [OF that]]) (auto intro: io_ok_ret)
  from io_ok_bind [OF this [OF clear(2)] this [OF clear(1)]] show ?thesis unfolding close_transaction_directories_def .
qed

lemma io_spec_finish_failed:
  assumes restore: "\<And>n. \<not> pe_restore_fault env n" and "three F work staging backup"
  shows "io_spec (swapping F work backup L P) (finish_failed env staging backup e (pairs backup work L) (pairs work staging P))
    (\<lambda>_ _. False)
    (\<lambda>e' t. keeps F t \<or> (\<exists>n. e' = RollbackFailed e n staging backup) \<and> recoverable F work backup t)"
  unfolding finish_failed_def
proof (rule io_spec_bind)
  show "io_spec (swapping F work backup L P) (rollback_layout_swap env (pairs work staging P) (pairs backup work L))
      (\<lambda>k t. recoverable F work backup t \<and> (k = 0 \<longrightarrow> keeps F t))
      (\<lambda>e' t. keeps F t \<or> (\<exists>n. e' = RollbackFailed e n staging backup) \<and> recoverable F work backup t)"
    by (rule io_spec_weaken [OF io_spec_ok [OF io_ok_rollback [OF assms]]]) auto
  fix k :: nat
  have "io_spec (\<lambda>t. recoverable F work backup t \<and> (k = 0 \<longrightarrow> keeps F t)) (io_bind (close_transaction_directories env staging backup)
      (\<lambda>left. if left \<noteq> 0 then io_fail (CleanupFailed e left) else io_fail e)) (\<lambda>_ _. False)
      (\<lambda>e' t. keeps F t \<or> (\<exists>n. e' = RollbackFailed e n staging backup) \<and> recoverable F work backup t)" if "k = 0"
    by (rule io_spec_bind [where R = "\<lambda>_. keeps F"], rule io_spec_weaken [OF io_spec_ok [OF io_ok_close_directories [OF assms(2)]]])
      (use that in \<open>auto intro: io_spec_fail\<close>)
  then show "io_spec (\<lambda>t. recoverable F work backup t \<and> (k = 0 \<longrightarrow> keeps F t))
      (if k \<noteq> 0 then io_fail (RollbackFailed e k staging backup)
       else io_bind (close_transaction_directories env staging backup)
         (\<lambda>left. if left \<noteq> 0 then io_fail (CleanupFailed e left) else io_fail e)) (\<lambda>_ _. False)
      (\<lambda>e' t. keeps F t \<or> (\<exists>n. e' = RollbackFailed e n staging backup) \<and> recoverable F work backup t)"
    by (auto intro: io_spec_fail)
qed

lemma finish_committed_Inr: "io_spec P (finish_committed env staging backup) (\<lambda>_ _. True) (\<lambda>_ _. False)"
  by (auto simp: io_spec_def finish_committed_def io_match_def io_bind_def io_get_def io_ret_def split: prod.splits sum.splits)

lemma io_spec_pure: "io_pure m \<Longrightarrow> (\<And>e t. P t \<Longrightarrow> E e t) \<Longrightarrow> io_spec P m (\<lambda>_. P) E"
  by (rule io_spec_weaken [OF io_spec_ok [OF io_pure_ok [where P = P]]]) auto

lemma io_spec_conj: "(c \<Longrightarrow> io_spec P m Q E) \<Longrightarrow> io_spec (\<lambda>t. P t \<and> c) m Q E"
  unfolding io_spec_def by blast

lemma io_spec_Ex: "(\<And>x. io_spec (P x) m Q E) \<Longrightarrow> io_spec (\<lambda>t. \<exists>x. P x t) m Q E"
  unfolding io_spec_def by blast

definition settled_error :: "(host_path \<Rightarrow> byte list option) \<Rightarrow> host_path \<Rightarrow> apply_error \<Rightarrow> fs_node \<Rightarrow> bool" where
  "settled_error F work e t \<longleftrightarrow> keeps F t
     \<or> (\<exists>e' n staging backup. e = RollbackFailed e' n staging backup \<and> recoverable F work backup t)"

lemma holding_settled: "holding F D t \<Longrightarrow> settled_error F work e t"
  by (simp add: holding_def settled_error_def)

text \<open>From the staging directory on.\<close>

lemma io_spec_staged:
  assumes restore: "\<And>n. \<not> pe_restore_fault env n" and "work \<noteq> []" and staging: "staging = butlast work @ [n]" "free F {work} staging"
  shows "io_spec (holding F {staging, work}) (io_match (prepare env plan work staging checked generated)
      (\<lambda>pr. io_bind (swap_layout env work staging pr) (\<lambda>(failed, backed_up, promoted).
         case failed of Some e \<Rightarrow> finish_failed env staging (pr_backup pr) e backed_up promoted
         | None \<Rightarrow> finish_committed env staging (pr_backup pr)))
      (\<lambda>e. io_match (remove_dir_all env () staging) (\<lambda>_. io_fail e) (\<lambda>_. io_fail (PrebackupCleanupFailed e staging))))
    (\<lambda>_ _. True) (settled_error F work)"
proof -
  have work: "work = butlast work @ [last work]" using assms(2) by simp
  have "beside staging work" using beside_siblings [OF staging(1) work] staging(2) by (auto simp: free_def)
  then have root: "open_root F {staging, work} staging"
    using staging(2) by (auto simp: open_root_def free_def beside_def)
  show ?thesis
  proof (rule io_spec_match [OF io_spec_ok [OF io_ok_prepare [OF root]]])
    fix pr :: prepared
    let ?b = "pr_backup pr"
    show "io_spec (\<lambda>t. holding F (insert ?b {staging, work}) t \<and> ((\<exists>n. ?b = butlast work @ [n]) \<and> free F {staging, work} ?b))
      (io_bind (swap_layout env work staging pr) (\<lambda>(failed, backed_up, promoted).
         case failed of Some e \<Rightarrow> finish_failed env staging ?b e backed_up promoted
         | None \<Rightarrow> finish_committed env staging ?b)) (\<lambda>_ _. True) (settled_error F work)"
    proof (rule io_spec_conj)
      assume backup: "(\<exists>n. ?b = butlast work @ [n]) \<and> free F {staging, work} ?b"
      then have three: "three F work staging ?b" using three_new [OF assms(2) staging] by blast
      have final: "io_spec (\<lambda>t. \<exists>L P. backed_up = pairs ?b work L \<and> promoted = pairs work staging P \<and> swapping F work ?b L P t)
          (case failed of Some e \<Rightarrow> finish_failed env staging ?b e backed_up promoted | None \<Rightarrow> finish_committed env staging ?b)
          (\<lambda>_ _. True) (settled_error F work)" for failed backed_up promoted
      proof (cases failed)
        case None
        then show ?thesis
          unfolding None option.case by (intro io_spec_weaken [OF finish_committed_Inr [where P = "\<lambda>_. True"]]) auto
      next
        case (Some e)
        have "io_spec (swapping F work ?b L P) (finish_failed env staging ?b e (pairs ?b work L) (pairs work staging P))
            (\<lambda>_ _. True) (settled_error F work)" for L P
          by (rule io_spec_weaken [OF io_spec_finish_failed [OF restore three]]) (auto simp: settled_error_def)
        then show ?thesis using Some unfolding io_spec_def by fastforce
      qed
      have swap: "io_spec (holding F (insert ?b {staging, work})) (swap_layout env work staging pr)
          (\<lambda>(failed, backed_up, promoted) t. \<exists>L P. backed_up = pairs ?b work L \<and> promoted = pairs work staging P
            \<and> swapping F work ?b L P t) (settled_error F work)"
        by (rule io_spec_weaken [OF io_spec_ok [OF io_ok_swap_layout [OF restore three]]]) (auto simp: holding_def)
      show "io_spec (holding F (insert ?b {staging, work})) (io_bind (swap_layout env work staging pr) (\<lambda>(failed, backed_up, promoted).
         case failed of Some e \<Rightarrow> finish_failed env staging ?b e backed_up promoted
         | None \<Rightarrow> finish_committed env staging ?b)) (\<lambda>_ _. True) (settled_error F work)"
        by (rule io_spec_bind [OF swap]) (use final in auto)
    qed
  next
    fix e
    have "clear_of F staging" using staging(2) by (simp add: free_def)
    then have "io_spec (holding F {staging, work}) (remove_dir_all env () staging) (\<lambda>_. keeps F) (\<lambda>_. keeps F)"
      by (intro io_spec_weaken [OF io_spec_ok [OF io_ok_remove_dir_all]]) (auto simp: holding_def)
    then show "io_spec (holding F {staging, work}) (io_match (remove_dir_all env () staging) (\<lambda>_. io_fail e)
        (\<lambda>_. io_fail (PrebackupCleanupFailed e staging))) (\<lambda>_ _. True) (settled_error F work)"
      by (rule io_spec_match) (auto simp: settled_error_def intro: io_spec_fail)
  qed
qed

lemma io_spec_apply:
  assumes restore: "\<And>n. \<not> pe_restore_fault env n"
  shows "io_spec (holding F {work}) (apply_plan_transaction u env plan work) (\<lambda>_ _. True) (settled_error F work)"
  unfolding apply_plan_transaction_def
proof (intro io_spec_bind [OF io_spec_pure], goal_cases)
  case (15 a b c d e f g)
  show ?case
  proof (cases "work = []")
    case True
    then show ?thesis by (auto intro: io_spec_fail holding_settled)
  next
    case False
    let ?rest = "\<lambda>staging. io_match (prepare env plan work staging c d)
      (\<lambda>pr. io_bind (swap_layout env work staging pr) (\<lambda>(failed, backed_up, promoted).
         case failed of Some e \<Rightarrow> finish_failed env staging (pr_backup pr) e backed_up promoted
         | None \<Rightarrow> finish_committed env staging (pr_backup pr)))
      (\<lambda>e. io_match (remove_dir_all env () staging) (\<lambda>_. io_fail e) (\<lambda>_. io_fail (PrebackupCleanupFailed e staging)))"
    have "io_spec (holding F {work}) (io_bind (tempdir_named env CreatingStaging (as_bytes (lit ''.arclain-plan-'')) (butlast work)) ?rest)
        (\<lambda>_ _. True) (settled_error F work)"
    proof (rule io_spec_bind, rule io_spec_weaken [OF io_spec_ok [OF io_ok_tempdir_named]], assumption, assumption)
      show "io_spec (\<lambda>t. holding F {staging, work} t \<and> ((\<exists>n. staging = butlast work @ [n]) \<and> free F {work} staging)) (?rest staging)
          (\<lambda>_ _. True) (settled_error F work)" for staging
        by (rule io_spec_conj) (use io_spec_staged [OF restore False] in blast)
    qed (rule holding_settled)
    then show ?thesis using False by simp
  qed
qed (auto intro: holding_settled)

section \<open>What applying a plan guarantees\<close>

lemma apply_settled:
  assumes "apply_plan_transaction u env plan work s = (Inl e, s')" "dir_at (hs_tree s) work \<noteq> None"
    "\<And>n. \<not> pe_restore_fault env n"
  shows "settled_error (file_at (hs_tree s)) work e (hs_tree s')"
proof -
  have "holding (file_at (hs_tree s)) {work} (hs_tree s)" using assms(2) by (simp add: holding_def keeps_def)
  then show ?thesis using io_spec_apply [OF assms(3), of "file_at (hs_tree s)" work u plan] assms(1) by (simp add: io_spec_def)
qed


definition sample_work :: host_path where
  "sample_work = [as_bytes (lit ''w'')]"

definition sample_source :: host_path where
  "sample_source = sample_work @ [as_bytes (lit ''d''), as_bytes (lit ''a'')]"

definition sample_apply_env :: "(nat \<Rightarrow> bool) \<Rightarrow> (nat \<Rightarrow> bool) \<Rightarrow> apply_env" where
  "sample_apply_env fault restore = \<lparr>io_fault = fault, io_residue = (\<lambda>_ n. n), te_suffix = (\<lambda>n. [120]),
     pe_denied = (\<lambda>n. True), pe_restore_fault = restore\<rparr>"

definition sample_apply_plan :: organization_plan where
  "sample_apply_plan = \<lparr>plan_rule_name = [], plan_outputs = [\<lparr>root_folder = lit ''R'', root_folder_template = [],
     moves = [(lit ''d/a'', lit ''R/a'')], generated_files = [], downloads = [], resolved_variables = (\<lambda>_. None),
     reasoning = []\<rparr>], skipped_outputs = []\<rparr>"

definition sample_apply_state :: host_state where
  "sample_apply_state = \<lparr>hs_tree = DirNode [(as_bytes (lit ''w''),
     DirNode [(as_bytes (lit ''d''), DirNode [(as_bytes (lit ''a''), FileNode [1])])])], hs_calls = 0\<rparr>"

definition sample_apply :: "(nat \<Rightarrow> bool) \<Rightarrow> (nat \<Rightarrow> bool) \<Rightarrow> (apply_error + apply_outcome) \<times> host_state" where
  "sample_apply fault restore =
     apply_plan_transaction ascii_tables (sample_apply_env fault restore) sample_apply_plan sample_work sample_apply_state"

text \<open>Every call fails once the old layout has been moved away.\<close>

definition sample_failed_apply :: "(apply_error + apply_outcome) \<times> host_state" where
  "sample_failed_apply = sample_apply (\<lambda>n. 26 \<le> n) (\<lambda>_. False)"

definition sample_failure :: apply_error where
  "sample_failure = (case fst sample_failed_apply of Inl e \<Rightarrow> e | Inr _ \<Rightarrow> NoWorkParent)"

lemma sample_failed: "fst sample_failed_apply = Inl sample_failure"
  "file_at (hs_tree sample_apply_state) sample_source = Some [1]"
  "file_at (hs_tree (snd sample_failed_apply)) sample_source = None"
  "dir_at (hs_tree sample_apply_state) sample_work \<noteq> None"
  by code_simp+


text \<open>A directory that was moved after it was made writable, and whose permissions cannot be set back, counts as
  not moved: it is missing from the list of what to undo, nothing fails in the rollback, and the backup
  directory is deleted with the directory in it.\<close>

lemma restore_failure_loses_entry:
  "fst (sample_apply (\<lambda>n. n = 25) (\<lambda>n. n = 29)) = Inl (RestoringPermissions
      [as_bytes (lit ''.arclain-plan-backup-x''), as_bytes (lit ''d'')])"
  "hs_tree (snd (sample_apply (\<lambda>n. n = 25) (\<lambda>n. n = 29))) = DirNode [(as_bytes (lit ''w''), DirNode [])]"
  by code_simp+

end
