(* ===== verification/Apply_Layout.thy ===== *)
theory Apply_Layout
  imports Apply_Properties
begin

text \<open>
  What a plan that was applied leaves in the work directory: the files of the planned sources at their
  destinations and the generated files, and no others.
\<close>

section \<open>The planned files\<close>

lemma entry_smaller: "(n, x) \<in> set (sorted_entries_of es) \<Longrightarrow> size x < size (DirNode es)"
  by (auto simp: sorted_entries_of_def listed_def dest!: size_list_estimation' [where x = "(n, x)" and f = "size_prod (\<lambda>_. 0) size" and y = "size x"]
      intro: le_imp_less_Suc)

function copied :: "str \<Rightarrow> fs_node \<Rightarrow> (host_path \<times> byte list) list" where
  "copied dest (FileNode b) = [(host_of dest, b)]"
| "copied dest (DirNode es) = concat (map (\<lambda>(n, x). case from_utf8 n of
       None \<Rightarrow> []
     | Some name \<Rightarrow> copied (fwd (dest @ slash # name)) x) (sorted_entries_of es))"
  by pat_completeness auto
termination
  by (relation "measure (size \<circ> snd)") (auto dest: entry_smaller)

definition planned_files :: "fs_node \<Rightarrow> host_path \<Rightarrow> organization_plan \<Rightarrow> (host_path \<times> byte list) list" where
  "planned_files t work plan =
     (case (checked_moves plan, checked_generated plan) of
        (Inr checked, Inr generated) \<Rightarrow>
          concat (map (\<lambda>(source, destination). case node_at t (work @ host_of source) of
              None \<Rightarrow> []
            | Some node \<Rightarrow> copied destination node) checked)
          @ map (\<lambda>(path, content). (host_of path, as_bytes content)) generated
      | _ \<Rightarrow> [])"

section \<open>Building the new layout\<close>

text \<open>The staging directory has exactly the given files, and the work directory is as it was.\<close>

definition built :: "host_path \<Rightarrow> host_path \<Rightarrow> fs_node \<Rightarrow> (host_path \<times> byte list) list \<Rightarrow> fs_node \<Rightarrow> bool" where
  "built work staging W G t \<longleftrightarrow> node_at t work = Some W \<and> (\<forall>r. file_at t (staging @ r) = map_of G r)"

lemma built_mkdirs:
  assumes "built work staging W G t" "mkdirs t (staging @ p) = Some t'" "beside work staging"
  shows "built work staging W G t'"
proof -
  have "\<not> prefix work (staging @ p)" using beside_below [OF assms(3), of "[]" p] by simp
  then show ?thesis
    using assms(1,2) node_at_mkdirs_other [OF assms(2)] by (simp add: built_def file_at_mkdirs)
qed

lemma file_below_absent: "\<not> path_exists t p \<Longrightarrow> file_at t (p @ x) = None"
  by (auto simp: path_exists_def file_at_def node_at_append)

lemma file_below_file: "node_at t p = Some (FileNode b) \<Longrightarrow> x \<noteq> [] \<Longrightarrow> file_at t (p @ x) = None"
  by (cases x) (auto simp: file_at_def node_at_append)

lemma file_at_put_file:
  assumes "p \<noteq> []" "dir_at t (butlast p) \<noteq> None"
  shows "file_at (put_at t p (FileNode b)) q = (if q = p then Some b else if prefix p q then None else file_at t q)"
proof (cases "prefix p q")
  case True
  then obtain x where q: "q = p @ x" by (auto simp: prefix_def)
  have "file_at (put_at t p (FileNode b)) q = file_at (FileNode b) x"
    unfolding q file_at_def node_at_put_below [OF assms] ..
  then show ?thesis by (cases x) (simp_all add: q)
qed (auto simp: file_at_put_other)

text \<open>Like \<open>built\<close>, with a temporary file beside.\<close>

definition half_built ::
  "host_path \<Rightarrow> host_path \<Rightarrow> fs_node \<Rightarrow> (host_path \<times> byte list) list \<Rightarrow> host_path \<Rightarrow> byte list \<Rightarrow> fs_node \<Rightarrow> bool" where
  "half_built work staging W G tmp b t \<longleftrightarrow> node_at t work = Some W \<and> map_of G tmp = None
     \<and> node_at t (staging @ tmp) = Some (FileNode b)
     \<and> (\<forall>r. file_at t (staging @ r) = (if r = tmp then Some b else map_of G r))"

lemma half_built_create:
  assumes "built work staging W G t" "\<not> path_exists t (staging @ tmp)" "dir_at t (butlast (staging @ tmp)) \<noteq> None"
    and "tmp \<noteq> []" "beside work staging"
  shows "half_built work staging W G tmp [] (put_at t (staging @ tmp) (FileNode []))"
proof -
  have absent: "file_at t (staging @ tmp @ x) = None" for x
    using file_below_absent [OF assms(2)] by simp
  have "node_at (put_at t (staging @ tmp) (FileNode [])) work = node_at t work"
    using beside_below [OF assms(5), of "[]" tmp] beside_below [OF beside_sym [OF assms(5)], of tmp "[]"]
    by (intro node_at_put_parallel) simp_all
  moreover have "node_at (put_at t (staging @ tmp) (FileNode [])) (staging @ tmp) = Some (FileNode [])"
    using assms(3,4) by (intro node_at_put_same) simp_all
  moreover have "file_at (put_at t (staging @ tmp) (FileNode [])) (staging @ r) = (if r = tmp then Some [] else map_of G r)" for r
    using assms(1,3,4) absent [of "drop (length tmp) r"]
    by (auto simp: file_at_put_file built_def prefix_def)
  moreover have "map_of G tmp = None" using assms(1) absent [of "[]"] by (simp add: built_def)
  ultimately show ?thesis using assms(1) by (simp add: half_built_def built_def)
qed

lemma half_built_write:
  assumes "half_built work staging W G tmp c t" "dir_at t (butlast (staging @ tmp)) \<noteq> None" "tmp \<noteq> []" "beside work staging"
  shows "half_built work staging W G tmp b (put_at t (staging @ tmp) (FileNode b))"
proof -
  have "map_of G (tmp @ x) = None" if "x \<noteq> []" for x
  proof -
    have "file_at t ((staging @ tmp) @ x) = None" by (rule file_below_file) (use assms(1) that in \<open>auto simp: half_built_def\<close>)
    then show ?thesis using assms(1) that unfolding half_built_def by (metis append.assoc append_self_conv)
  qed
  then have "file_at (put_at t (staging @ tmp) (FileNode b)) (staging @ r) = (if r = tmp then Some b else map_of G r)" for r
    using assms(1,2,3) by (auto simp: file_at_put_file half_built_def prefix_def) metis
  moreover have "node_at (put_at t (staging @ tmp) (FileNode b)) work = node_at t work"
    using beside_below [OF assms(4), of "[]" tmp] beside_below [OF beside_sym [OF assms(4)], of tmp "[]"]
    by (intro node_at_put_parallel) simp_all
  moreover have "node_at (put_at t (staging @ tmp) (FileNode b)) (staging @ tmp) = Some (FileNode b)"
    using assms(2,3) by (intro node_at_put_same) simp_all
  ultimately show ?thesis using assms(1) by (simp add: half_built_def)
qed

lemma moved_node: "moved t a b t' \<Longrightarrow> beside w a \<Longrightarrow> beside w b \<Longrightarrow> node_at t' w = node_at t w"
  by (auto simp: moved_def rename_tree_def beside_def node_at_put_parallel node_at_del_parallel split: option.splits if_splits)

lemma beside_append: "beside p q \<Longrightarrow> beside p (q @ x)"
  using beside_below [of p q "[]" x] beside_below [of q p x "[]"] beside_sym [of p q] by (simp add: beside_def)

lemma half_built_persist:
  assumes "half_built work staging W G tmp b t" "moved t (staging @ tmp) (staging @ rel) t'" "beside work staging"
  shows "built work staging W (G @ [(rel, b)]) t'"
proof -
  have files: "file_at t (staging @ r) = (if r = tmp then Some b else map_of G r)" for r
    using assms(1) by (simp add: half_built_def)
  have none: "file_at t (staging @ rel @ x) = None" for x using moved_absent [OF assms(2)] by simp
  have "rel \<noteq> tmp" using none [of "[]"] files [of tmp] by auto
  have fresh: "map_of G (rel @ x) = None" for x
    using none [of x] files [of "rel @ x"] by (simp split: if_splits)
  have below: "file_at t (staging @ tmp @ x) = None \<and> map_of G (tmp @ x) = None" if "x \<noteq> []" for x
    using file_below_file [of t "staging @ tmp" b x] assms(1) that files [of "tmp @ x"] by (simp add: half_built_def)
  have "file_at t' (staging @ r) = map_of (G @ [(rel, b)]) r" for r
  proof (cases "prefix rel r")
    case True
    then obtain x where r: "r = rel @ x" by (auto simp: prefix_def)
    have "file_at t' (staging @ r) = file_at t (staging @ tmp @ x)" using moved_files(1) [OF assms(2), of x] by (simp add: r)
    then show ?thesis using fresh [of x] below [of x] files [of tmp] by (cases "x = []") (auto simp: r map_add_def split: option.splits)
  next
    case False
    then have rel: "r \<noteq> rel" by auto
    show ?thesis
    proof (cases "prefix tmp r")
      case True
      then obtain x where r: "r = tmp @ x" by (auto simp: prefix_def)
      have "map_of G r = None" using below [of x] assms(1) by (cases "x = []") (auto simp: r half_built_def)
      then show ?thesis using moved_files(2) [OF assms(2), of "staging @ r"] False True rel by (auto simp: map_add_def)
    next
      case no: False
      then have "r \<noteq> tmp" by auto
      then show ?thesis
        using moved_files(3) [OF assms(2), of "staging @ r"] False no files [of r] rel by (auto simp: map_add_def split: option.splits)
    qed
  qed
  moreover have "node_at t' work = Some W"
    using moved_node [OF assms(2)] assms(1) beside_append [OF assms(3)] by (simp add: half_built_def)
  ultimately show ?thesis by (simp add: built_def)
qed


section \<open>What a successful run gives\<close>

definition gives :: "(fs_node \<Rightarrow> bool) \<Rightarrow> ('e, 'a) io \<Rightarrow> ('a \<Rightarrow> fs_node \<Rightarrow> bool) \<Rightarrow> bool" where
  "gives P m Q \<longleftrightarrow> io_ok P m Q (\<lambda>_. True)"

lemma gives_ok: "io_ok P m Q E \<Longrightarrow> gives P m Q"
  unfolding gives_def io_ok_def by blast

lemma gives_pure: "io_pure m \<Longrightarrow> gives P m (\<lambda>_. P)"
  by (rule gives_ok [OF io_pure_ok])

lemma gives_fail [simp]: "gives P (io_fail e) Q"
  by (simp add: gives_def io_ok_fail)

lemma gives_ret: "(\<And>t. P t \<Longrightarrow> Q x t) \<Longrightarrow> gives P (io_ret x) Q"
  by (simp add: gives_def io_ok_ret)

lemma gives_bind: "gives P m R \<Longrightarrow> (\<And>x. gives (R x) (f x) Q) \<Longrightarrow> gives P (io_bind m f) Q"
  unfolding gives_def by (rule io_ok_bind)

lemma gives_match:
  "gives P m R \<Longrightarrow> (\<And>x. gives (R x) (f x) Q) \<Longrightarrow> (\<And>e. gives (\<lambda>_. True) (g e) Q) \<Longrightarrow> gives P (io_match m f g) Q"
  unfolding gives_def by (rule io_ok_match)

lemma gives_call: "(\<And>t x t'. P t \<Longrightarrow> f t = Some (x, t') \<Longrightarrow> Q x t') \<Longrightarrow> gives P (io_call env e f) Q"
  unfolding gives_def by (rule io_ok_call) auto

lemma gives_weaken: "gives P' m Q' \<Longrightarrow> (\<And>t. P t \<Longrightarrow> P' t) \<Longrightarrow> (\<And>x t. Q' x t \<Longrightarrow> Q x t) \<Longrightarrow> gives P m Q"
  unfolding gives_def io_ok_def by blast

lemma gives_conj: "(c \<Longrightarrow> gives P m Q) \<Longrightarrow> gives (\<lambda>t. P t \<and> c) m Q"
  unfolding gives_def by (rule io_ok_conj)

lemma gives_Ex: "(\<And>x. gives (P x) m Q) \<Longrightarrow> gives (\<lambda>t. \<exists>x. P x t) m Q"
  unfolding gives_def by (rule io_ok_Ex)

lemma gives_both: "gives P m Q \<Longrightarrow> gives P' m Q' \<Longrightarrow> gives (\<lambda>t. P t \<and> P' t) m (\<lambda>x t. Q x t \<and> Q' x t)"
  unfolding gives_def io_ok_def by blast

lemma gives_at_state: "(\<And>s. gives P (m s) Q) \<Longrightarrow> gives P (\<lambda>s. m s s) Q"
  unfolding gives_def by (rule io_ok_at_state)

lemma gives_resolve: "gives P (f (root @ rel)) Q \<Longrightarrow> gives P (io_bind (resolve_io env root rel) f) Q"
  by (rule gives_bind [OF gives_ok [OF io_ok_resolve]]) (auto intro: gives_conj)

lemma gives_pure_bind: "io_pure m \<Longrightarrow> (\<And>x. gives P (f x) Q) \<Longrightarrow> gives P (io_bind m f) Q"
  by (rule gives_bind [OF gives_pure])

lemma gives_lift: "(\<And>x. r = Inr x \<Longrightarrow> gives P (f x) Q) \<Longrightarrow> gives P (io_bind (lift_res g r) f) Q"
  by (cases r) (auto simp: lift_res_def gives_def io_ok_def io_bind_def io_fail_def io_ret_def)

lemma gives_drop_temp [simp]: "gives P (drop_temp env p e) Q"
  by (auto simp: gives_def io_ok_def drop_temp_def io_match_def io_fail_def split: prod.splits sum.splits)

section \<open>Copying\<close>

lemma gives_persist:
  assumes "beside work staging" "rel \<noteq> []"
  shows "gives (built work staging W G) (persist_plan_output_with_metadata env staging rel b preserved)
    (\<lambda>_. built work staging W (G @ [(rel, b)]))"
proof -
  let ?B = "built work staging W G" and ?B' = "built work staging W (G @ [(rel, b)])"
  let ?body = "\<lambda>out tmp. io_match (io_bind (copy_file env (WritingOutput out) b tmp) (\<lambda>_. io_bind (apply_metadata env preserved out)
        (\<lambda>_. io_bind (resolve_io env staging rel) (\<lambda>out. rename_no_replace env (PersistingOutput out) tmp out))))
        io_ret (drop_temp env tmp)"
  have last_part: "gives (half_built work staging W G tmp []) (?body out (staging @ tmp)) (\<lambda>_. ?B')" if "tmp \<noteq> []" for tmp out
  proof (rule gives_match [where R = "\<lambda>_. ?B'"])
    have "gives (half_built work staging W G tmp []) (copy_file env (WritingOutput out) b (staging @ tmp))
        (\<lambda>_. half_built work staging W G tmp b)"
      unfolding gives_def io_ok_def copy_file_def Let_def using half_built_write [OF _ _ that assms(1)] by (auto split: if_splits)
    moreover have "gives (half_built work staging W G tmp b)
        (rename_no_replace env (PersistingOutput (staging @ rel)) (staging @ tmp) (staging @ rel)) (\<lambda>_. ?B')"
      unfolding rename_no_replace_def
      by (rule gives_call) (use half_built_persist [OF _ _ assms(1)] in \<open>auto simp: moved_def split: if_splits\<close>)
    ultimately show "gives (half_built work staging W G tmp []) (io_bind (copy_file env (WritingOutput out) b (staging @ tmp)) (\<lambda>_.
        io_bind (apply_metadata env preserved out) (\<lambda>_. io_bind (resolve_io env staging rel) (\<lambda>out.
          rename_no_replace env (PersistingOutput out) (staging @ tmp) out)))) (\<lambda>_. ?B')"
      by (intro gives_bind [where R = "\<lambda>_. half_built work staging W G tmp b"] gives_pure_bind gives_resolve) simp_all
  qed (auto intro: gives_ret)
  have made: "gives ?B (temp_file_in env e (staging @ p)) (\<lambda>f t. \<exists>n. half_built work staging W G (p @ [n]) [] t \<and> f = staging @ p @ [n])"
    for p and e :: apply_error
  proof -
    have "gives ?B (io_bind (create_file env e ((staging @ p) @ [n])) (\<lambda>_. io_ret ((staging @ p) @ [n])))
        (\<lambda>f t. \<exists>n. half_built work staging W G (p @ [n]) [] t \<and> f = staging @ p @ [n])" for n
      unfolding create_file_def
      by (rule gives_bind [where R = "\<lambda>_. half_built work staging W G (p @ [n]) []"], rule gives_call)
        (use half_built_create [OF _ _ _ _ assms(1), of W G _ "p @ [n]"] in \<open>auto intro: gives_ret simp: butlast_append split: if_splits\<close>)
    then show ?thesis
      unfolding temp_file_in_def Let_def
      by (intro gives_at_state [where m = "\<lambda>s. io_bind (create_file env e ((staging @ p) @ [temp_file_name (te_suffix env (hs_calls s))]))
        (\<lambda>_. io_ret ((staging @ p) @ [temp_file_name (te_suffix env (hs_calls s))]))"])
  qed
  have dirs: "gives ?B (create_dir_all env e (staging @ p)) (\<lambda>_. ?B)" for p and e :: apply_error
    unfolding create_dir_all_def by (rule gives_call) (use built_mkdirs [OF _ _ assms(1)] in auto)
  have "gives (\<lambda>t. \<exists>n. half_built work staging W G (p @ [n]) [] t \<and> f = staging @ p @ [n]) (?body out f) (\<lambda>_. ?B')" for p f out
  proof -
    have "gives (\<lambda>t. half_built work staging W G (p @ [n]) [] t \<and> f = staging @ p @ [n]) (?body out f) (\<lambda>_. ?B')" for n
      by (rule gives_conj) (use last_part [of "p @ [n]"] in simp)
    then show ?thesis by (rule gives_Ex)
  qed
  note tail = gives_bind [OF this gives_pure]
  have "butlast (staging @ rel) = staging @ butlast rel" using assms(2) by (simp add: butlast_append)
  then show ?thesis
    unfolding persist_plan_output_with_metadata_def
    by (intro gives_resolve) (simp, rule gives_bind [OF dirs], intro gives_resolve, simp, rule gives_bind [OF made], rule tail, simp)
qed

text \<open>The files one entry of a directory contributes.\<close>

definition copied_entry :: "str \<Rightarrow> os_name \<times> fs_node \<Rightarrow> (host_path \<times> byte list) list" where
  "copied_entry dest e = (case e of (n, x) \<Rightarrow> case from_utf8 n of None \<Rightarrow> [] | Some name \<Rightarrow> copied (fwd (dest @ slash # name)) x)"

lemma copied_dir: "copied dest (DirNode es) = concat (map (copied_entry dest) (sorted_entries_of es))"
proof -
  have "copied_entry dest = (\<lambda>(n, x). case from_utf8 n of None \<Rightarrow> [] | Some name \<Rightarrow> copied (fwd (dest @ slash # name)) x)"
    by (rule ext) (simp add: copied_entry_def)
  then show ?thesis by simp
qed

lemma gives_ensure: "beside work staging \<Longrightarrow> gives (built work staging W G) (ensure_directory env (staging @ p)) (\<lambda>_. built work staging W G)"
proof -
  assume "beside work staging"
  then have "gives (built work staging W G) (create_dir_all env e (staging @ p)) (\<lambda>_. built work staging W G)" for e :: apply_error
    unfolding create_dir_all_def by (intro gives_call) (auto intro: built_mkdirs)
  then have "gives (built work staging W G) (case x of (taken, there) \<Rightarrow> if taken then io_fail (DestinationNotDirectory (staging @ p))
      else if there then io_ret () else create_dir_all env (CreatingOutputDirectory (staging @ p)) (staging @ p))
      (\<lambda>_. built work staging W G)" for x
    by (cases x) (simp add: gives_ret)
  then show ?thesis
    unfolding ensure_directory_def by (intro gives_bind [OF gives_call [where Q = "\<lambda>_. built work staging W G"]]) auto
qed

lemma gives_sources:
  fixes env :: "'z transaction_env_scheme"
  assumes "beside work staging"
  shows "gives (built work staging W G) (copy_plan_entries env staging dest src es deferred)
      (\<lambda>_. built work staging W (G @ concat (map (copied_entry dest) es)))"
    and "gives (built work staging W G) (copy_plan_source env staging dest src node deferred)
      (\<lambda>_. built work staging W (G @ copied dest node))"
  using assms
proof (induction env staging dest src es deferred and env staging dest src node deferred
    arbitrary: G and G rule: copy_plan_entries_copy_plan_source.induct)
  case (1 env root dest source deferred)
  then show ?case by (auto intro: gives_ret)
next
  case (2 env root dest source n x es deferred)
  show ?case
  proof (cases "from_utf8 n")
    case None
    then show ?thesis by simp
  next
    case (Some name)
    have "gives (built work root W G) (io_bind (copy_plan_source env root child (source @ [n]) x deferred) (\<lambda>deferred.
        copy_plan_entries env root dest source es deferred))
      (\<lambda>_. built work root W (G @ concat (map (copied_entry dest) ((n, x) # es))))"
      if "checked_new (dest @ slash # name) = Inr child" for child
    proof -
      have "copied child x = copied_entry dest (n, x)" using that by (simp add: checked_new_Inr_iff copied_entry_def Some)
      then have "gives (built work root W G) (copy_plan_source env root child (source @ [n]) x deferred)
          (\<lambda>_. built work root W (G @ copied_entry dest (n, x)))"
        using 2(1) [OF Some 2(3), of G child] by simp
      from gives_bind [OF this 2(2) [OF Some 2(3)]] show ?thesis by simp
    qed
    then show ?thesis by (auto simp: Some intro: gives_lift)
  qed
next
  case (3 env root dest source b deferred)
  show ?case
    unfolding copy_plan_source.simps copied.simps
    by (intro gives_pure_bind gives_bind [OF gives_persist [OF 3 host_of_not_Nil]]) (auto intro: gives_ret)
next
  case (4 env root dest source es deferred)
  show ?case
    unfolding copy_plan_source.simps copied_dir
    by (intro gives_pure_bind gives_resolve gives_bind [OF gives_ensure [OF 4(2)]] gives_bind [OF 4(1) [OF 4(2)]]) (auto intro: gives_ret)
qed

section \<open>The new layout\<close>

lemma gives_for_built:
  assumes "\<And>x acc G. gives (B G) (body x acc) (\<lambda>_. B (G @ f x))"
  shows "gives (B G) (io_for xs body acc) (\<lambda>_. B (G @ concat (map f xs)))"
proof (induction xs arbitrary: acc G)
  case Nil
  then show ?case by (auto intro: gives_ret)
next
  case (Cons x xs)
  show ?case using gives_bind [OF assms Cons.IH] by simp
qed

definition move_files :: "fs_node \<Rightarrow> str \<times> str \<Rightarrow> (host_path \<times> byte list) list" where
  "move_files W m = (case m of (source, destination) \<Rightarrow>
     case node_at W (host_of source) of None \<Rightarrow> [] | Some node \<Rightarrow> copied destination node)"

definition generated_entry :: "str \<times> str \<Rightarrow> host_path \<times> byte list" where
  "generated_entry g = (host_of (fst g), as_bytes (snd g))"

lemma planned_files_alt:
  assumes "checked_moves plan = Inr checked" "checked_generated plan = Inr generated" "node_at t work = Some W"
  shows "planned_files t work plan = concat (map (move_files W) checked) @ map generated_entry generated"
proof -
  have "node_at t (work @ p) = node_at W p" for p using assms(3) by (simp add: node_at_append)
  then have "(\<lambda>(source, destination). case node_at t (work @ host_of source) of None \<Rightarrow> [] | Some node \<Rightarrow> copied destination node) = move_files W"
    by (intro ext) (simp add: move_files_def)
  moreover have "(\<lambda>(path, content). (host_of path, as_bytes content)) = generated_entry"
    by (intro ext) (simp add: generated_entry_def case_prod_beta)
  ultimately show ?thesis by (simp add: planned_files_def assms)
qed

lemma gives_stage_move:
  assumes "beside work staging"
  shows "gives (built work staging W G) (stage_move env work staging m deferred) (\<lambda>_. built work staging W (G @ move_files W m))"
proof (cases m)
  case (Pair a b)
  let ?body = "\<lambda>found. case found of None \<Rightarrow> io_ret deferred
    | Some node \<Rightarrow> io_bind (resolve_io env work (host_of a)) (\<lambda>p. copy_plan_source env staging b p node deferred)"
  have "gives (built work staging W G) (?body (node_at W (host_of a))) (\<lambda>_. built work staging W (G @ move_files W m))"
  proof (cases "node_at W (host_of a)")
    case None
    then show ?thesis by (auto simp: Pair move_files_def intro: gives_ret)
  next
    case (Some node)
    have files: "move_files W m = copied b node" by (simp add: Pair move_files_def Some)
    show ?thesis unfolding Some option.case files by (intro gives_resolve gives_sources assms)
  qed
  then have body: "gives (\<lambda>t. built work staging W G t \<and> found = node_at W (host_of a)) (?body found)
      (\<lambda>_. built work staging W (G @ move_files W m))" for found
    by (intro gives_conj) simp
  have "gives (built work staging W G) (io_call env e (\<lambda>t. Some (node_at t (work @ host_of a), t)))
      (\<lambda>found t. built work staging W G t \<and> found = node_at W (host_of a))" for e :: apply_error
    by (rule gives_call) (auto simp: built_def node_at_append)
  from gives_bind [OF this body] show ?thesis
    unfolding stage_move_def Pair prod.case by (intro gives_resolve)
qed

lemma gives_stage_generated:
  assumes "beside work staging"
  shows "gives (built work staging W G) (stage_generated env staging g u) (\<lambda>_. built work staging W (G @ [generated_entry g]))"
  using gives_persist [OF assms, of "host_of (fst g)" W G env "as_bytes (snd g)" False]
  by (cases g) (simp add: stage_generated_def generated_entry_def)

text \<open>What a listing of a directory is.\<close>

definition listed_as :: "fs_node \<Rightarrow> host_path list \<Rightarrow> bool" where
  "listed_as n rels \<longleftrightarrow> (\<exists>es. n = DirNode es \<and> map_res entry_rel (sort (map fst (listed es))) = Inr rels)"

lemma gives_top_level:
  "gives P (checked_top_level_entries env root) (\<lambda>rels t. P t \<and> (\<exists>n. node_at t root = Some n \<and> listed_as n rels))"
proof -
  let ?Q = "\<lambda>rels t. P t \<and> (\<exists>n. node_at t root = Some n \<and> listed_as n rels)"
  let ?names = "\<lambda>es. map_res entry_rel (sort (map fst es))"
  have "gives P (read_dir env (ReadingTopLevel root) root)
      (\<lambda>es t. P t \<and> (\<exists>es'. node_at t root = Some (DirNode es') \<and> es = listed es'))"
    unfolding read_dir_def by (rule gives_call) (auto simp: dir_at_def split: option.splits fs_node.splits)
  moreover have "gives (\<lambda>t. P t \<and> (\<exists>es'. node_at t root = Some (DirNode es') \<and> es = listed es')) (lift_res id (?names es)) ?Q" for es
  proof (cases "?names es")
    case (Inr rels)
    then show ?thesis by (auto simp: lift_res_def listed_as_def intro!: gives_ret)
  qed (simp add: lift_res_def)
  ultimately show ?thesis unfolding checked_top_level_entries_def by (rule gives_bind)
qed

text \<open>After the preparation the staging directory holds the planned files, and nothing else has changed.\<close>

definition prepared_layout :: "host_path \<Rightarrow> host_path \<Rightarrow> fs_node \<Rightarrow> (host_path \<times> byte list) list \<Rightarrow> prepared \<Rightarrow> fs_node \<Rightarrow> bool" where
  "prepared_layout work staging W G pr t \<longleftrightarrow> built work staging W G t \<and> listed_as W (pr_originals pr)
     \<and> (\<exists>S. node_at t staging = Some S \<and> listed_as S (pr_staged pr))"

lemma gives_tempdir:
  assumes "\<And>t m. P t \<Longrightarrow> \<not> path_exists t (parent @ [m]) \<Longrightarrow> dir_at t parent \<noteq> None \<Longrightarrow>
      Q (parent @ [m]) (put_at t (parent @ [m]) (DirNode []))"
  shows "gives P (tempdir_named env e pre parent) Q"
proof -
  have one: "gives P (io_bind (create_dir env e (parent @ [m])) (\<lambda>_. io_ret (parent @ [m]))) Q" for m
    unfolding create_dir_def
    by (rule gives_bind [where R = "\<lambda>_. Q (parent @ [m])"], rule gives_call) (use assms in \<open>auto intro: gives_ret split: if_splits\<close>)
  show ?thesis
    unfolding tempdir_named_def Let_def
    by (rule gives_at_state [where m = "\<lambda>s. io_bind (create_dir env e (parent @ [pre @ te_suffix env (hs_calls s)]))
      (\<lambda>_. io_ret (parent @ [pre @ te_suffix env (hs_calls s)]))"], rule one)
qed

text \<open>A new directory beside one that is there leaves it alone.\<close>

lemma new_sibling:
  assumes "node_at t p = Some x" "p = parent @ [n]" "\<not> path_exists t (parent @ [m])"
  shows "node_at (put_at t (parent @ [m]) (DirNode [])) p = Some x" "beside (parent @ [m]) p"
proof -
  have "parent @ [m] \<noteq> p" using assms(1,3) by (auto simp: path_exists_def)
  then show beside: "beside (parent @ [m]) p" using beside_siblings [OF refl assms(2)] by simp
  show "node_at (put_at t (parent @ [m]) (DirNode [])) p = Some x"
    using beside assms(1) by (simp add: beside_def node_at_put_parallel)
qed

lemma gives_backup:
  assumes "staging = butlast work @ [n]" "work \<noteq> []"
  shows "gives (\<lambda>t. built work staging W G t \<and> node_at t staging = Some S) (tempdir_named env e pre (butlast work))
    (\<lambda>_ t. built work staging W G t \<and> node_at t staging = Some S)"
proof (rule gives_tempdir)
  fix t m
  let ?t = "put_at t (butlast work @ [m]) (DirNode [])"
  assume t: "built work staging W G t \<and> node_at t staging = Some S" and absent: "\<not> path_exists t (butlast work @ [m])"
  have work: "work = butlast work @ [last work]" using assms(2) by simp
  have same: "node_at ?t work = Some W" "node_at ?t staging = Some S"
    using new_sibling(1) [OF _ work absent, of W] new_sibling(1) [OF _ assms(1) absent, of S] t by (simp_all add: built_def)
  then have "file_at ?t (staging @ r) = file_at t (staging @ r)" for r
    using t by (simp add: file_at_def node_at_append)
  then show "built work staging W G ?t \<and> node_at ?t staging = Some S" using t same by (simp add: built_def)
qed

lemma gives_staging:
  assumes "work \<noteq> []"
  shows "gives (\<lambda>t. node_at t work = Some W) (tempdir_named env e pre (butlast work)) (\<lambda>p. built work p W [])"
proof (rule gives_tempdir)
  fix t m
  let ?p = "butlast work @ [m]"
  let ?t = "put_at t ?p (DirNode [])"
  assume t: "node_at t work = Some W" and absent: "\<not> path_exists t ?p" and parent: "dir_at t (butlast work) \<noteq> None"
  have work: "work = butlast work @ [last work]" using assms by simp
  have "node_at ?t ?p = Some (DirNode [])" using parent by (intro node_at_put_same) simp_all
  then have "file_at ?t (?p @ r) = None" for r by (cases r) (simp_all add: file_at_def node_at_append del: append_assoc)
  then show "built work ?p W [] ?t" using new_sibling(1) [OF t work absent] by (simp add: built_def)
qed

lemma gives_prepare:
  assumes "beside work staging" "staging = butlast work @ [n]" "work \<noteq> []"
  shows "gives (built work staging W []) (prepare env plan work staging checked generated)
    (prepared_layout work staging W (concat (map (move_files W) checked) @ map generated_entry generated))"
proof -
  let ?M = "concat (map (move_files W) checked)" and ?B = "built work staging W"
  let ?G = "?M @ map generated_entry generated"
  have moves: "gives (?B []) (io_for checked (stage_move env work staging) []) (\<lambda>_. ?B ?M)"
    using gives_for_built [where B = ?B and f = "move_files W" and G = "[]", OF gives_stage_move [OF assms(1)]] by simp
  have docs: "gives (?B ?M) (io_for generated (stage_generated env staging) ()) (\<lambda>_. ?B ?G)"
    using gives_for_built [where B = ?B and f = "\<lambda>g. [generated_entry g]" and G = ?M, OF gives_stage_generated [OF assms(1)]]
    by (simp add: concat_map_singleton)
  have tail: "gives (\<lambda>t. (?B ?G t \<and> (\<exists>n. node_at t work = Some n \<and> listed_as n originals)) \<and> (\<exists>S. node_at t staging = Some S \<and> listed_as S staged))
      (io_bind (tempdir_named env CreatingBackup pre (butlast work)) (\<lambda>backup.
         io_ret \<lparr>pr_originals = originals, pr_staged = staged, pr_deferred = deferred, pr_backup = backup\<rparr>))
      (prepared_layout work staging W ?G)" for originals staged deferred pre
  proof -
    have "gives (\<lambda>t. (?B ?G t \<and> node_at t staging = Some S) \<and> (listed_as S staged \<and> listed_as W originals))
        (io_bind (tempdir_named env CreatingBackup pre (butlast work)) (\<lambda>backup.
           io_ret \<lparr>pr_originals = originals, pr_staged = staged, pr_deferred = deferred, pr_backup = backup\<rparr>))
        (prepared_layout work staging W ?G)" for S
      by (rule gives_conj, rule gives_bind [OF gives_backup [OF assms(2,3)]]) (auto simp: prepared_layout_def intro: gives_ret)
    from gives_Ex [OF this] show ?thesis by (rule gives_weaken) (auto simp: built_def)
  qed
  show ?thesis
    unfolding prepare_def
    by (rule gives_bind [OF moves], rule gives_bind [OF docs], rule gives_bind [OF gives_top_level], rule gives_bind [OF gives_top_level])
      (split if_split, intro conjI impI gives_fail tail)
qed

section \<open>The exchange\<close>

lemma rename_noclobber_moved:
  "rename_noclobber env a b s = (Inr x, s') \<Longrightarrow> moved (hs_tree s) a b (hs_tree s')"
  by (auto simp: rename_noclobber_def rename_read_only_directory_def restore_permissions_def touch_def rename_def io_bind_def io_match_def
      io_call_def io_ret_def io_fail_def moved_def Let_def split: prod.splits sum.splits if_splits option.splits)

lemma gives_move_entries:
  assumes step: "\<And>L rel t t'. I L t \<Longrightarrow> moved t (a @ rel) (b @ rel) t' \<Longrightarrow> I (L @ [rel]) t'"
  shows "gives (I L) (move_entries env a b rels made :: ('e, _) io) (\<lambda>(failed, _) t. failed = None \<longrightarrow> I (L @ rels) t)"
proof (induction rels arbitrary: L made)
  case Nil
  then show ?case by (auto intro: gives_ret)
next
  case (Cons rel rels)
  have move: "gives (I L) (rename_noclobber env (a @ rel) (b @ rel)) (\<lambda>_. I (L @ [rel]))"
    unfolding gives_def io_ok_def using step rename_noclobber_moved by blast
  show ?case
    unfolding move_entries.simps
  proof (rule gives_match)
    show "gives (I L) (io_bind (resolve_io env a rel) (\<lambda>source. io_bind (resolve_io env b rel) (\<lambda>destination.
        io_bind (rename_noclobber env source destination) (\<lambda>_. io_ret (destination, source))))) (\<lambda>_. I (L @ [rel]))"
      by (intro gives_resolve gives_bind [OF move] gives_ret)
    fix m
    show "gives (I (L @ [rel])) (move_entries env a b rels (made @ [m]) :: ('e, _) io) (\<lambda>(failed, _) t. failed = None \<longrightarrow> I (L @ rel # rels) t)"
      using Cons.IH [of "L @ [rel]" "made @ [m]"] by simp
  qed (auto intro: gives_ret)
qed

definition below_any :: "host_path list \<Rightarrow> host_path \<Rightarrow> bool" where
  "below_any L q \<longleftrightarrow> (\<exists>rel \<in> set L. prefix rel q)"

lemma below_any_snoc: "below_any (L @ [rel]) q \<longleftrightarrow> below_any L q \<or> prefix rel q"
  by (auto simp: below_any_def)

lemma below_any_Nil [simp]: "\<not> below_any [] q"
  by (simp add: below_any_def)

text \<open>While the old layout is moved away, and while the new one is moved in.\<close>

definition vacating :: "host_path \<Rightarrow> host_path \<Rightarrow> fs_node \<Rightarrow> (host_path \<times> byte list) list \<Rightarrow> host_path list \<Rightarrow> fs_node \<Rightarrow> bool" where
  "vacating work staging W G L t \<longleftrightarrow> (\<forall>q. file_at t (work @ q) = (if below_any L q then None else file_at W q))
     \<and> (\<forall>q. file_at t (staging @ q) = map_of G q)"

definition filling :: "host_path \<Rightarrow> host_path \<Rightarrow> (host_path \<times> byte list) list \<Rightarrow> host_path list \<Rightarrow> fs_node \<Rightarrow> bool" where
  "filling work staging G P t \<longleftrightarrow> (\<forall>q. file_at t (work @ q) = (if below_any P q then map_of G q else None))
     \<and> (\<forall>q. file_at t (staging @ q) = (if below_any P q then None else map_of G q))"

lemma vacating_step:
  assumes "vacating work staging W G L t" "moved t (work @ rel) (backup @ rel) t'" "three F work staging backup"
  shows "vacating work staging W G (L @ [rel]) t'"
proof -
  have off: "\<not> prefix (backup @ rel) (work @ q)" "\<not> prefix (backup @ rel) (staging @ q)" "\<not> prefix (work @ rel) (staging @ q)" for q
    using assms(3) beside_below beside_sym unfolding three_def by blast+
  have "file_at t' (work @ q) = (if prefix rel q then None else file_at t (work @ q))" for q
    using moved_files(2,3) [OF assms(2) off(1)] by simp
  moreover have "file_at t' (staging @ q) = file_at t (staging @ q)" for q
    using moved_files(3) [OF assms(2) off(2) off(3)] .
  ultimately show ?thesis using assms(1) by (simp add: vacating_def below_any_snoc)
qed

lemma filling_step:
  assumes "filling work staging G P t" "moved t (staging @ rel) (work @ rel) t'" "three F work staging backup"
  shows "filling work staging G (P @ [rel]) t'"
proof -
  have off: "\<not> prefix (work @ rel) (staging @ q)" "\<not> prefix (staging @ rel) (work @ q)" for q
    using assms(3) beside_below beside_sym unfolding three_def by blast+
  have work: "file_at t (work @ q) = (if below_any P q then map_of G q else None)"
    and staging: "file_at t (staging @ q) = (if below_any P q then None else map_of G q)" for q
    using assms(1) by (simp_all add: filling_def)
  have "file_at t' (work @ q) = (if below_any P q \<or> prefix rel q then map_of G q else None)" for q
  proof (cases "prefix rel q")
    case True
    then obtain x where q: "q = rel @ x" by (auto simp: prefix_def)
    have "file_at t' (work @ q) = file_at t (staging @ q)" using moved_files(1) [OF assms(2), of x] by (simp add: q)
    moreover have "file_at t (work @ q) = None" using moved_absent [OF assms(2), of x] by (simp add: q)
    ultimately show ?thesis using work [of q] staging [of q] True by (simp split: if_splits)
  next
    case False
    then have "file_at t' (work @ q) = file_at t (work @ q)" using moved_files(3) [OF assms(2) _ off(2)] by simp
    then show ?thesis using work [of q] False by simp
  qed
  moreover have "file_at t' (staging @ q) = (if below_any P q \<or> prefix rel q then None else map_of G q)" for q
    using moved_files(2,3) [OF assms(2) off(1), of q] staging [of q] by (cases "prefix rel q") auto
  ultimately show ?thesis by (simp add: filling_def below_any_snoc)
qed

text \<open>A listing covers every file below names that are one component each.\<close>

definition plain_name :: "os_name \<Rightarrow> bool" where
  "plain_name n \<longleftrightarrow> normal_name n \<and> 47 \<notin> set n \<and> 92 \<notin> set n"

lemma byte_in_as_bytes: "0 \<le> c \<Longrightarrow> c < 128 \<Longrightarrow> c \<in> set s \<Longrightarrow> mk_byte c \<in> set (as_bytes s)"
  by (auto simp: as_bytes_def utf8_char_def)

lemma entry_rel_plain: "entry_rel n = Inr r \<Longrightarrow> plain_name n \<Longrightarrow> r = [n]"
proof -
  assume "entry_rel n = Inr r" "plain_name n"
  then obtain name p where name: "from_utf8 n = Some name" "checked_new name = Inr p" "r = host_of p"
    by (auto simp: entry_rel_def res_bind_eq_Inr with_context_def split: option.splits sum.splits)
  have n: "as_bytes name = n" using name(1) by (rule as_bytes_from_utf8)
  have none: "slash \<notin> set name" "backslash \<notin> set name"
    using byte_in_as_bytes [of slash name] byte_in_as_bytes [of backslash name] \<open>plain_name n\<close>
    by (auto simp: n plain_name_def mk_byte_def)
  have "path_segments name = [name]" using none(1) by (intro split_on_no_sep) auto
  moreover have "p = name" using name(2) none(2) by (simp add: checked_new_Inr_iff replace_char_id)
  ultimately show ?thesis using name(3) n by (simp add: host_of_def)
qed

lemma listed_covers:
  assumes "listed_as N rels" "node_at N (n # q) \<noteq> None" "plain_name n"
  shows "below_any rels (n # q)"
proof -
  obtain es where es: "N = DirNode es" "map_res entry_rel (sort (map fst (listed es))) = Inr rels"
    using assms(1) by (auto simp: listed_as_def)
  have "n \<in> fst ` set es" using assms(2) by (auto simp: es split: option.splits dest!: map_of_SomeD intro!: image_eqI)
  then have "n \<in> set (sort (map fst (listed es)))" using assms(3) by (auto simp: listed_def plain_name_def image_iff)
  then obtain r where "r \<in> set rels" "entry_rel n = Inr r"
    using es(2) unfolding map_res_Inr_iff list_all2_conv_all_nth in_set_conv_nth by metis
  then have "[n] \<in> set rels" using entry_rel_plain [OF _ assms(3)] by metis
  then show ?thesis unfolding below_any_def by (intro bexI [of _ "[n]"]) simp_all
qed

section \<open>The names of the plan\<close>

text \<open>A string of the source is a sequence of Unicode scalar values.\<close>

definition plan_text_valid :: "organization_plan \<Rightarrow> bool" where
  "plan_text_valid plan \<longleftrightarrow> list_all (\<lambda>out. list_all (\<lambda>m. list_all is_scalar (snd m)) (moves out)
     \<and> list_all (\<lambda>g. list_all is_scalar (fst g)) (generated_files out)) (plan_outputs plan)"

lemma set_split_on: "w \<in> set (split_on P s) \<Longrightarrow> set w \<subseteq> set s"
proof (induction s arbitrary: w)
  case (Cons c s)
  have "set x \<subseteq> set s" if "x \<in> set (split_on P s)" for x using Cons.IH that .
  then show ?case using Cons.prems by (fastforce split: if_splits list.splits)
qed simp

lemma utf8_char_ascii: "is_scalar c \<Longrightarrow> b \<in> set (utf8_char c) \<Longrightarrow> uint b < 128 \<Longrightarrow> c = uint b"
proof -
  assume c: "is_scalar c" and b: "b \<in> set (utf8_char c)" "uint b < 128"
  have cont: "\<not> uint (mk_byte (128 + x mod 64)) < 128" for x
    using cont_byte(1) [of x] by (auto simp: is_cont_def)
  have "0 \<le> c" "c < 1114112" using c by (simp_all add: is_scalar_def)
  then show "c = uint b"
    using b cont by (auto simp: utf8_char_def split: if_splits)
qed

lemma plain_segment:
  assumes "list_all is_scalar raw" "checked_new raw = Inr p"
  shows "plain_name (hd (host_of p))"
proof -
  let ?w = "hd (path_segments p)"
  have w: "?w \<in> set (path_segments p)" by simp
  then have portable: "portable_component ?w" using assms(2) by (simp add: checked_new_Inr_iff)
  have p: "p = fwd raw" using assms(2) by (simp add: checked_new_Inr_iff)
  then have "list_all is_scalar p" using assms(1) by (auto simp: list_all_iff replace_char_def is_scalar_def)
  then have scalar: "list_all is_scalar ?w" using set_split_on [OF w] by (auto simp: list_all_iff)
  have none: "slash \<notin> set ?w" "backslash \<notin> set ?w"
    using split_on_segments [OF w] set_split_on [OF w] fwd_no_backslash [of raw] p by blast+
  have "uint b \<in> set ?w" if "b \<in> set (as_bytes ?w)" "uint b < 128" for b
    using that scalar utf8_char_ascii by (fastforce simp: as_bytes_def list_all_iff)
  from this [of 47] this [of 92] none have bytes: "47 \<notin> set (as_bytes ?w)" "92 \<notin> set (as_bytes ?w)" by auto
  have "as_bytes ?w \<noteq> as_bytes x" if "?w \<noteq> x" "list_all is_scalar x" for x
    using from_utf8_as_bytes [of ?w] from_utf8_as_bytes [of x] scalar that by (auto simp: list_all_iff)
  from this [of "[]"] this [of "[dot]"] this [of "[dot, dot]"] portable_not_dots [OF portable]
  have "normal_name (as_bytes ?w)" by (simp add: normal_name_def is_scalar_def as_bytes_def)
  moreover have "hd (host_of p) = as_bytes ?w" by (simp add: host_of_def hd_map)
  ultimately show ?thesis using bytes by (simp add: plain_name_def)
qed

lemma copied_head:
  "backslash \<notin> set dest \<Longrightarrow> (q, b) \<in> set (copied dest node) \<Longrightarrow> q \<noteq> [] \<and> hd q = hd (host_of dest)"
proof (induction dest node rule: copied.induct)
  case (1 dest c)
  then show ?case by simp
next
  case (2 dest es)
  then obtain n x where nx: "(n, x) \<in> set (sorted_entries_of es)" "(q, b) \<in> set (copied_entry dest (n, x))"
    unfolding copied_dir by auto
  then obtain name where name: "from_utf8 n = Some name" by (cases "from_utf8 n") (auto simp: copied_entry_def)
  with nx have q: "(q, b) \<in> set (copied (fwd (dest @ slash # name)) x)" by (simp add: copied_entry_def)
  have "fwd (dest @ slash # name) = dest @ slash # fwd name"
    using 2(2) by (simp add: replace_char_def) (metis replace_char_def replace_char_id)
  then have "hd (host_of (fwd (dest @ slash # name))) = hd (host_of dest)"
    by (simp add: host_of_def split_on_append)
  then show ?case using 2(1) [OF nx(1) refl name _ q] by simp
qed

lemma map_res_origin: "map_res f xs = Inr ys \<Longrightarrow> y \<in> set ys \<Longrightarrow> \<exists>x \<in> set xs. f x = Inr y"
  unfolding map_res_Inr_iff by (induction xs ys rule: list_all2_induct) auto

lemma with_context_Inr [simp]: "with_context f r = Inr x \<longleftrightarrow> r = Inr x"
  by (cases r) (simp_all add: with_context_def)

lemma planned_plain:
  assumes "plan_text_valid plan" "checked_moves plan = Inr checked" "checked_generated plan = Inr generated"
    and "(q, b) \<in> set (concat (map (move_files W) checked) @ map generated_entry generated)"
  shows "\<exists>n r. q = n # r \<and> plain_name n"
proof -
  have "\<exists>raw p. list_all is_scalar raw \<and> checked_new raw = Inr p \<and> q \<noteq> [] \<and> hd q = hd (host_of p)"
  proof (cases "(q, b) \<in> set (concat (map (move_files W) checked))")
    case True
    then obtain s d node where m: "(s, d) \<in> set checked" "(q, b) \<in> set (copied d node)"
      by (auto simp: move_files_def split: option.splits)
    then obtain m where "m \<in> set (concat (map moves (plan_outputs plan)))" "checked_new (snd m) = Inr d"
      using map_res_origin [OF assms(2) [unfolded checked_moves_def] m(1)]
      by (auto simp: res_bind_eq_Inr) blast
    moreover from this have "list_all is_scalar (snd m)" using assms(1) by (auto simp: plan_text_valid_def list_all_iff)
    ultimately show ?thesis using copied_head [OF checked_new_no_backslash m(2)] by blast
  next
    case False
    then obtain g where g: "g \<in> set generated" "q = host_of (fst g)" using assms(4) by (auto simp: generated_entry_def)
    then obtain g' where "g' \<in> set (concat (map generated_files (plan_outputs plan)))" "checked_new (fst g') = Inr (fst g)"
      using map_res_origin [OF assms(3) [unfolded checked_generated_def] g(1)]
      by (auto simp: res_bind_eq_Inr) blast
    moreover from this have "list_all is_scalar (fst g')" using assms(1) by (auto simp: plan_text_valid_def list_all_iff)
    ultimately show ?thesis using g(2) host_of_not_Nil by blast
  qed
  then show ?thesis using plain_segment by (metis list.collapse)
qed

section \<open>Applying a plan\<close>

text \<open>The files of the work directory are those of \<open>G\<close>, and the files outside it are kept.\<close>

definition layout_is :: "(host_path \<Rightarrow> byte list option) \<Rightarrow> host_path \<Rightarrow> (host_path \<times> byte list) list \<Rightarrow> fs_node \<Rightarrow> bool" where
  "layout_is K work G t \<longleftrightarrow> keeps K t \<and> (\<forall>q. file_at t (work @ q) = map_of G q)"

lemma io_ok_remove_beside:
  assumes "clear_of K p" "beside p work"
  shows "io_ok (layout_is K work G) (remove_dir_all env e p) (\<lambda>_. layout_is K work G) (layout_is K work G)"
proof -
  have "\<not> prefix p (work @ q)" for q using beside_below [OF assms(2), of "[]" q] by simp
  then have "io_ok (\<lambda>t. \<forall>q. file_at t (work @ q) = map_of G q) (remove_dir_all env e p)
      (\<lambda>_ t. \<forall>q. file_at t (work @ q) = map_of G q) (\<lambda>t. \<forall>q. file_at t (work @ q) = map_of G q)"
    by (auto simp: io_ok_def remove_dir_all_def Let_def file_at_put_other file_at_del_other split: option.splits fs_node.splits if_splits)
  then show ?thesis using io_ok_remove_dir_all [OF assms(1), of env e] unfolding layout_is_def io_ok_def by blast
qed

lemma gives_committed:
  assumes "three F work staging backup"
  shows "gives (layout_is (outside F work) work G) (finish_committed env staging backup) (\<lambda>_. layout_is (outside F work) work G)"
proof -
  let ?Q = "layout_is (outside F work) work G"
  have clear: "clear_of (outside F work) staging" "clear_of (outside F work) backup"
    using assms outside_clear(2) [of F staging work "[]"] outside_clear(2) [of F backup work "[]"] by (simp_all add: three_def)
  have beside: "beside staging work" "beside backup work" using assms beside_sym by (simp_all add: three_def)
  have remove: "io_ok ?Q (remove_dir_all env () p) (\<lambda>_. ?Q) ?Q" if "p = staging \<or> p = backup" for p
    by (rule io_ok_remove_beside) (use clear beside that in auto)
  have read: "io_ok ?Q (io_bind (io_get f) (\<lambda>x. io_ret (g x)) :: (apply_error, apply_outcome) io) (\<lambda>_. ?Q) ?Q" for f :: "fs_node \<Rightarrow> bool" and g
    by (simp add: io_ok_def io_bind_def io_get_def io_ret_def)
  show ?thesis
    unfolding finish_committed_def
    by (rule gives_ok, rule io_ok_match [OF remove], simp, rule io_ok_match [OF remove], simp) (rule io_ok_ret, assumption, rule read, rule read)
qed

lemma gives_failed [simp]: "gives P (finish_failed env staging backup e b p) Q"
  by (auto simp: gives_def io_ok_def finish_failed_def io_bind_def io_fail_def split: prod.splits sum.splits if_splits)

lemma gives_swap:
  fixes W :: fs_node
  assumes "three F work staging (pr_backup pr)" "\<And>n q. node_at W (n # q) \<noteq> None \<Longrightarrow> plain_name n"
    and "\<And>q b. map_of G q = Some b \<Longrightarrow> \<exists>n r. q = n # r \<and> plain_name n"
  shows "gives (\<lambda>t. prepared_layout work staging W G pr t \<and> keeps (outside F work) t) (swap_layout env work staging pr :: ('e, _) io)
    (\<lambda>(failed, _, _) t. failed = None \<longrightarrow> layout_is (outside F work) work G t)"
proof -
  let ?K = "outside F work" and ?b = "pr_backup pr"
  let ?V = "\<lambda>L t. vacating work staging W G L t \<and> keeps ?K t" and ?F = "\<lambda>P t. filling work staging G P t \<and> keeps ?K t"
  have clear: "clear_of ?K (staging @ r)" "clear_of ?K (?b @ r)" "clear_of ?K (work @ r)" for r
    using assms(1) outside_clear by (auto simp: three_def)
  have away: "gives (?V []) (move_entries env work ?b (pr_originals pr) [] :: ('e, _) io) (\<lambda>(failed, _) t. failed = None \<longrightarrow> ?V ([] @ pr_originals pr) t)"
    by (rule gives_move_entries [where I = ?V]) (use vacating_step [OF _ _ assms(1)] keeps_moved clear in blast)
  have front: "gives (?F []) (move_entries env staging work (pr_staged pr) [] :: ('e, _) io) (\<lambda>(failed, _) t. failed = None \<longrightarrow> ?F ([] @ pr_staged pr) t)"
    by (rule gives_move_entries [where I = ?F]) (use filling_step [OF _ _ assms(1)] keeps_moved clear in blast)
  let ?cover = "(\<forall>q. file_at W q \<noteq> None \<longrightarrow> below_any (pr_originals pr) q) \<and> (\<forall>q. map_of G q \<noteq> None \<longrightarrow> below_any (pr_staged pr) q)"
  have "gives (?V []) (swap_layout env work staging pr :: ('e, _) io) (\<lambda>(failed, _, _) t. failed = None \<longrightarrow> layout_is ?K work G t)"
    if cover: ?cover
  proof -
    have empty: "?V (pr_originals pr) t \<Longrightarrow> ?F [] t" for t using cover by (fastforce simp: vacating_def filling_def)
    have full: "layout_is ?K work G t" if t: "?F (pr_staged pr) t" for t
    proof -
      have "file_at t (work @ q) = map_of G q" for q
        using t cover by (cases "map_of G q") (auto simp: filling_def)
      then show ?thesis using t by (simp add: layout_is_def)
    qed
    have meta: "gives (?F (pr_staged pr)) (io_match (apply_deferred_plan_metadata env work (pr_deferred pr))
        (\<lambda>_. io_ret (None, b, p)) (\<lambda>e. io_ret (Some e, b, p)) :: ('e, _) io)
        (\<lambda>(failed, _, _) t. failed = None \<longrightarrow> layout_is ?K work G t)" for b p :: "(host_path \<times> host_path) list"
      by (rule gives_match [OF gives_pure]) (auto intro: gives_ret full)
    have second: "gives (?F []) (io_bind (move_entries env staging work (pr_staged pr) []) (\<lambda>(failed, promoted).
        case failed of Some e \<Rightarrow> io_ret (Some e, b, promoted)
        | None \<Rightarrow> io_match (apply_deferred_plan_metadata env work (pr_deferred pr))
            (\<lambda>_. io_ret (None, b, promoted)) (\<lambda>e. io_ret (Some e, b, promoted))) :: ('e, _) io)
        (\<lambda>(failed, _, _) t. failed = None \<longrightarrow> layout_is ?K work G t)" for b :: "(host_path \<times> host_path) list"
      by (rule gives_bind [OF front]) (use meta in \<open>auto split: option.split intro: gives_ret\<close>)
    show ?thesis
      unfolding swap_layout_def
      by (rule gives_bind [OF away]) (use gives_weaken [OF second empty] in \<open>auto split: option.split intro: gives_ret\<close>)
  qed
  then have "gives (\<lambda>t. ?V [] t \<and> ?cover) (swap_layout env work staging pr :: ('e, _) io) (\<lambda>(failed, _, _) t. failed = None \<longrightarrow> layout_is ?K work G t)"
    by (rule gives_conj)
  then show ?thesis
  proof (rule gives_weaken)
    fix t
    assume t: "prepared_layout work staging W G pr t \<and> keeps ?K t"
    then obtain S where S: "node_at t staging = Some S" "listed_as S (pr_staged pr)" and W: "listed_as W (pr_originals pr)"
      and b: "built work staging W G t" by (auto simp: prepared_layout_def)
    have "below_any (pr_originals pr) q" if "file_at W q \<noteq> None" for q
    proof (cases q)
      case Nil
      then show ?thesis using that W by (auto simp: listed_as_def)
    next
      case (Cons n r)
      then have "node_at W (n # r) \<noteq> None" using that by (auto simp: file_at_def split: option.splits)
      then show ?thesis using listed_covers [OF W] assms(2) Cons by blast
    qed
    moreover have "below_any (pr_staged pr) q" if g: "map_of G q = Some c" for q c
    proof -
      obtain n r where q: "q = n # r" "plain_name n" using assms(3) [OF g] by blast
      have "file_at t (staging @ q) = Some c" using b g by (simp add: built_def)
      then have "node_at S q \<noteq> None" using S(1) by (auto simp: file_at_def node_at_append split: option.splits)
      then show ?thesis using listed_covers [OF S(2)] q by blast
    qed
    moreover have "file_at t (work @ q) = file_at W q" for q using b by (simp add: built_def file_at_def node_at_append)
    ultimately show "?V [] t \<and> ?cover" using t b by (auto simp: vacating_def built_def)
  qed
qed

lemma gives_staged:
  assumes "work \<noteq> []" "staging = butlast work @ [n]" "free F {work} staging"
    and names: "\<And>n q. node_at W (n # q) \<noteq> None \<Longrightarrow> plain_name n"
    and plan: "plan_text_valid plan" "checked_moves plan = Inr checked" "checked_generated plan = Inr generated"
  shows "gives (\<lambda>t. holding F {staging, work} t \<and> built work staging W [] t) (io_match (prepare env plan work staging checked generated)
      (\<lambda>pr. io_bind (swap_layout env work staging pr) (\<lambda>(failed, backed_up, promoted).
         case failed of Some e \<Rightarrow> finish_failed env staging (pr_backup pr) e backed_up promoted
         | None \<Rightarrow> finish_committed env staging (pr_backup pr)))
      (\<lambda>e. io_match (remove_dir_all env () staging) (\<lambda>_. io_fail e) (\<lambda>_. io_fail (PrebackupCleanupFailed e staging))))
    (\<lambda>_. layout_is (outside F work) work (concat (map (move_files W) checked) @ map generated_entry generated))"
proof -
  let ?G = "concat (map (move_files W) checked) @ map generated_entry generated"
  have work: "work = butlast work @ [last work]" using assms(1) by simp
  have "beside staging work" using beside_siblings [OF assms(2) work] assms(3) by (auto simp: free_def)
  then have root: "open_root F {staging, work} staging" and beside: "beside work staging"
    using assms(3) by (auto simp: open_root_def free_def beside_def)
  show ?thesis
  proof (rule gives_match [OF gives_both [OF gives_ok [OF io_ok_prepare [OF root]] gives_prepare [OF beside assms(2,1)]]])
    fix pr :: prepared
    let ?b = "pr_backup pr"
    let ?fresh = "\<exists>n. ?b = butlast work @ [n] \<and> free F {staging, work} ?b"
    have "gives (\<lambda>t. (prepared_layout work staging W ?G pr t \<and> keeps (outside F work) t) \<and> ?fresh)
        (io_bind (swap_layout env work staging pr) (\<lambda>(failed, backed_up, promoted).
          case failed of Some e \<Rightarrow> finish_failed env staging ?b e backed_up promoted | None \<Rightarrow> finish_committed env staging ?b))
        (\<lambda>_. layout_is (outside F work) work ?G)"
    proof (rule gives_conj)
      assume ?fresh
      then have three: "three F work staging ?b" using three_new [OF assms(1-3)] by blast
      have heads: "\<exists>n r. q = n # r \<and> plain_name n" if "map_of ?G q = Some b" for q b
        by (rule planned_plain [OF plan map_of_SomeD [OF that]])
      show "gives (\<lambda>t. prepared_layout work staging W ?G pr t \<and> keeps (outside F work) t)
        (io_bind (swap_layout env work staging pr) (\<lambda>(failed, backed_up, promoted).
          case failed of Some e \<Rightarrow> finish_failed env staging ?b e backed_up promoted | None \<Rightarrow> finish_committed env staging ?b))
        (\<lambda>_. layout_is (outside F work) work ?G)"
        by (rule gives_bind [OF gives_swap [OF three names heads]])
          (use gives_committed [OF three] in \<open>auto split: option.split\<close>)
    qed
    then show "gives (\<lambda>t. (holding F (insert ?b {staging, work}) t \<and> (\<exists>n. ?b = butlast work @ [n]) \<and> free F {staging, work} ?b)
          \<and> prepared_layout work staging W ?G pr t)
        (io_bind (swap_layout env work staging pr) (\<lambda>(failed, backed_up, promoted).
          case failed of Some e \<Rightarrow> finish_failed env staging ?b e backed_up promoted | None \<Rightarrow> finish_committed env staging ?b))
        (\<lambda>_. layout_is (outside F work) work ?G)"
      by (rule gives_weaken) (auto simp: holding_def keeps_def outside_def)
  next
    fix e
    show "gives (\<lambda>_. True) (io_match (remove_dir_all env () staging) (\<lambda>_. io_fail e) (\<lambda>_. io_fail (PrebackupCleanupFailed e staging)))
        (\<lambda>_. layout_is (outside F work) work ?G)"
      by (auto simp: gives_def io_ok_def io_match_def io_fail_def split: prod.splits sum.splits)
  qed
qed

lemma gives_apply:
  assumes "plan_text_valid plan" "\<And>n q. node_at W (n # q) \<noteq> None \<Longrightarrow> plain_name n" "node_at t work = Some W"
  shows "gives (\<lambda>t'. holding F {work} t' \<and> t' = t) (apply_plan_transaction u env plan work)
    (\<lambda>_. layout_is (outside F work) work (planned_files t work plan))"
proof -
  let ?rest = "\<lambda>checked generated staging. io_match (prepare env plan work staging checked generated)
      (\<lambda>pr. io_bind (swap_layout env work staging pr) (\<lambda>(failed, backed_up, promoted).
         case failed of Some e \<Rightarrow> finish_failed env staging (pr_backup pr) e backed_up promoted
         | None \<Rightarrow> finish_committed env staging (pr_backup pr)))
      (\<lambda>e. io_match (remove_dir_all env () staging) (\<lambda>_. io_fail e) (\<lambda>_. io_fail (PrebackupCleanupFailed e staging)))"
  let ?goal = "\<lambda>_. layout_is (outside F work) work (planned_files t work plan)"
  have tail: "gives (\<lambda>t'. holding F {work} t' \<and> t' = t) (if work = [] then io_fail NoWorkParent
      else io_bind (tempdir_named env CreatingStaging pre (butlast work)) (?rest checked generated)) ?goal"
    if plan: "checked_moves plan = Inr checked" "checked_generated plan = Inr generated" for checked generated pre
  proof (cases "work = []")
    case False
    note files = planned_files_alt [OF plan assms(3)]
    have "gives (\<lambda>t. (holding F {staging, work} t \<and> (\<exists>n. staging = butlast work @ [n]) \<and> free F {work} staging) \<and> built work staging W [] t)
        (?rest checked generated staging) ?goal" for staging
    proof (rule gives_weaken [where P' = "\<lambda>t. \<exists>n. (holding F {staging, work} t \<and> built work staging W [] t) \<and> (staging = butlast work @ [n] \<and> free F {work} staging)"])
      show "gives (\<lambda>t. \<exists>n. (holding F {staging, work} t \<and> built work staging W [] t) \<and> (staging = butlast work @ [n] \<and> free F {work} staging))
          (?rest checked generated staging) ?goal"
        unfolding files by (rule gives_Ex, rule gives_conj, rule gives_staged [OF False]) (use assms(1,2) plan in blast)+
    qed auto
    from gives_bind [OF gives_both [OF gives_ok [OF io_ok_tempdir_named] gives_staging [OF False]] this]
    have "gives (\<lambda>t. holding F {work} t \<and> node_at t work = Some W)
        (io_bind (tempdir_named env CreatingStaging pre (butlast work)) (?rest checked generated)) ?goal" .
    then show ?thesis unfolding if_not_P [OF False] by (rule gives_weaken) (simp_all add: assms(3))
  qed simp
  show ?thesis
    unfolding apply_plan_transaction_def
    by (rule gives_lift, rule gives_pure_bind, simp, rule gives_lift, rule gives_lift, rule gives_lift, rule gives_pure_bind, simp,
      rule gives_pure_bind, simp, rule tail)
qed

text \<open>C5. A plan that was applied leaves exactly the planned files in the work directory: for every place below
  it there is a file precisely when the plan puts one there, by a move (a directory is moved with everything in
  it) or as a generated file, and it has that content; every file outside the work directory is kept. Nothing of
  the old layout remains, and this holds whichever calls failed on the way and were retried or passed over. The
  names at the top of the work directory have no separator in them.\<close>

theorem applied_plan_is_the_layout:
  assumes "apply_plan_transaction u env plan work s = (Inr outcome, s')"
    and "node_at (hs_tree s) work = Some (DirNode es)" "list_all (\<lambda>e. plain_name (fst e)) es" "plan_text_valid plan"
  shows "(\<forall>q. file_at (hs_tree s') (work @ q) = map_of (planned_files (hs_tree s) work plan) q)
    \<and> (\<forall>p b. \<not> prefix work p \<longrightarrow> file_at (hs_tree s) p = Some b \<longrightarrow> file_at (hs_tree s') p = Some b)"
proof -
  let ?F = "file_at (hs_tree s)"
  have names: "plain_name n" if "node_at (DirNode es) (n # q) \<noteq> None" for n q
    using that assms(3) by (auto simp: list_all_iff split: option.splits dest!: map_of_SomeD)
  have run: "gives (\<lambda>t'. holding ?F {work} t' \<and> t' = hs_tree s) (apply_plan_transaction u env plan work)
      (\<lambda>_. layout_is (outside ?F work) work (planned_files (hs_tree s) work plan))"
    by (rule gives_apply [OF assms(4) _ assms(2)]) (rule names)
  have "holding ?F {work} (hs_tree s)" using assms(2) by (simp add: holding_def keeps_def dir_at_def)
  then have "layout_is (outside ?F work) work (planned_files (hs_tree s) work plan) (hs_tree s')"
    using run assms(1) unfolding gives_def io_ok_def by blast
  then show ?thesis unfolding layout_is_def keeps_def outside_def by (auto split: if_splits)
qed

definition sample_applied :: "(apply_error + apply_outcome) \<times> host_state" where
  "sample_applied = sample_apply (\<lambda>n. n = 25) (\<lambda>_. False)"

lemma sample_applied_facts: "fst sample_applied = Inr Committed"
  "node_at (hs_tree sample_apply_state) sample_work = Some (DirNode [(as_bytes (lit ''d''), DirNode [(as_bytes (lit ''a''), FileNode [1])])])"
  "list_all (\<lambda>e. plain_name (fst e)) [(as_bytes (lit ''d''), DirNode [(as_bytes (lit ''a''), FileNode [1])])]"
  "plan_text_valid sample_apply_plan"
  "map_of (planned_files (hs_tree sample_apply_state) sample_work sample_apply_plan) [as_bytes (lit ''R''), as_bytes (lit ''a'')] = Some [1]"
  "map_of (planned_files (hs_tree sample_apply_state) sample_work sample_apply_plan) [as_bytes (lit ''d''), as_bytes (lit ''a'')] = None"
  by code_simp+

theorem applied_plan_is_the_layout_witness:
  "file_at (hs_tree (snd sample_applied)) (sample_work @ [as_bytes (lit ''R''), as_bytes (lit ''a'')]) = Some [1]
   \<and> file_at (hs_tree (snd sample_applied)) (sample_work @ [as_bytes (lit ''d''), as_bytes (lit ''a'')]) = None"
proof -
  have run: "apply_plan_transaction ascii_tables (sample_apply_env (\<lambda>n. n = 25) (\<lambda>_. False)) sample_apply_plan sample_work
      sample_apply_state = (Inr Committed, snd sample_applied)"
    using sample_applied_facts(1) by (metis sample_apply_def sample_applied_def prod.collapse)
  from applied_plan_is_the_layout [OF run sample_applied_facts(2-4)] show ?thesis
    using sample_applied_facts(5,6) by simp
qed

end
