(* ===== verification/Ip_Address.thy ===== *)
theory Ip_Address
  imports Prelude
begin

text \<open>
  The part of \<^verbatim>\<open>std::net\<close> the network crate uses: addresses, how they are printed and which
  strings are addresses; and \<^verbatim>\<open>is_public_address\<close> of
  \<^verbatim>\<open>crates/network/src/features/request/plugin_policy.rs\<close>. The parser reads a string from the left
  and returns the rest, as the one of the standard library does. The last section compares the rule for public
  addresses with the list of blocks it stands for.
\<close>

section \<open>Addresses\<close>

type_synonym u8 = "8 word"
type_synonym u16 = "16 word"

datatype ip_addr = V4 u8 u8 u8 u8 | V6 u16 u16 u16 u16 u16 u16 u16 u16

fun segments :: "ip_addr \<Rightarrow> u16 list" where
  "segments (V6 a b c d e f g h) = [a, b, c, d, e, f, g, h]"
| "segments (V4 _ _ _ _) = []"

fun is_ipv4 :: "ip_addr \<Rightarrow> bool" where
  "is_ipv4 (V4 _ _ _ _) = True"
| "is_ipv4 (V6 _ _ _ _ _ _ _ _) = False"

definition high_byte :: "u16 \<Rightarrow> u8" where
  "high_byte w = word_of_nat (unat w div 256)"

definition low_byte :: "u16 \<Rightarrow> u8" where
  "low_byte w = word_of_nat (unat w mod 256)"

fun to_ipv4_mapped :: "ip_addr \<Rightarrow> ip_addr option" where
  "to_ipv4_mapped (V6 a b c d e f g h) =
     (if a = 0 \<and> b = 0 \<and> c = 0 \<and> d = 0 \<and> e = 0 \<and> f = 65535
      then Some (V4 (high_byte g) (low_byte g) (high_byte h) (low_byte h)) else None)"
| "to_ipv4_mapped (V4 _ _ _ _) = None"

section \<open>Printing\<close>

definition hex_digit :: "nat \<Rightarrow> uchar" where
  "hex_digit n = (if n < 10 then 48 + int n else 87 + int n)"

fun hex_digits :: "nat \<Rightarrow> str" where
  "hex_digits n = (if n < 16 then [hex_digit n] else hex_digits (n div 16) @ [hex_digit (n mod 16)])"

declare hex_digits.simps [simp del]

text \<open>The longest run of zero segments, the first of those; a run is its start and its length.\<close>

fun longest_zeros :: "u16 list \<Rightarrow> nat \<Rightarrow> nat \<times> nat \<Rightarrow> nat \<times> nat \<Rightarrow> nat \<times> nat" where
  "longest_zeros [] i current longest = longest"
| "longest_zeros (s # ss) i current longest =
     (if s = 0 then
        let current = (if snd current = 0 then (i, 1) else (fst current, Suc (snd current))) in
        longest_zeros ss (Suc i) current (if snd longest < snd current then current else longest)
      else longest_zeros ss (Suc i) (0, 0) longest)"

definition print_segments :: "u16 list \<Rightarrow> str" where
  "print_segments ss = join_on colon (map (\<lambda>s. hex_digits (unat s)) ss)"

definition print_v6 :: "u16 list \<Rightarrow> str" where
  "print_v6 ss =
     (case longest_zeros ss 0 (0, 0) (0, 0) of (start, len) \<Rightarrow>
        if len > 1 then print_segments (take start ss) @ [colon, colon] @ print_segments (drop (start + len) ss)
        else print_segments ss)"

fun print_v4 :: "ip_addr \<Rightarrow> str" where
  "print_v4 (V4 a b c d) = join_on dot (map (\<lambda>x. nat_digits (unat x)) [a, b, c, d])"
| "print_v4 (V6 _ _ _ _ _ _ _ _) = []"

fun ip_to_string :: "ip_addr \<Rightarrow> str" where
  "ip_to_string (V4 a b c d) = print_v4 (V4 a b c d)"
| "ip_to_string (V6 a b c d e f g h) =
     (case to_ipv4_mapped (V6 a b c d e f g h) of
        Some v4 \<Rightarrow> lit ''::ffff:'' @ print_v4 v4
      | None \<Rightarrow> print_v6 [a, b, c, d, e, f, g, h])"

section \<open>Parsing\<close>

type_synonym 'a reader = "str \<Rightarrow> ('a \<times> str) option"

definition digit_value :: "int \<Rightarrow> uchar \<Rightarrow> int option" where
  "digit_value radix c =
     (let v = (if 48 \<le> c \<and> c \<le> 57 then c - 48
               else if 97 \<le> c \<and> c \<le> 122 then c - 87
               else if 65 \<le> c \<and> c \<le> 90 then c - 55 else radix)
      in if v < radix then Some v else None)"

text \<open>Digits are read as long as there are any; more than \<open>most\<close>, a value past \<open>limit\<close> or no digit at
  all is refused.\<close>

fun read_digits :: "int \<Rightarrow> nat \<Rightarrow> int \<Rightarrow> nat \<Rightarrow> int \<Rightarrow> str \<Rightarrow> (nat \<times> int \<times> str) option" where
  "read_digits radix most limit count acc [] = Some (count, acc, [])"
| "read_digits radix most limit count acc (c # cs) =
     (case digit_value radix c of
        None \<Rightarrow> Some (count, acc, c # cs)
      | Some v \<Rightarrow>
          if acc * radix + v > limit \<or> Suc count > most then None
          else read_digits radix most limit (Suc count) (acc * radix + v) cs)"

definition read_number :: "int \<Rightarrow> nat \<Rightarrow> bool \<Rightarrow> int \<Rightarrow> int reader" where
  "read_number radix most zero_prefix limit s =
     (case read_digits radix most limit 0 0 s of
        None \<Rightarrow> None
      | Some (count, v, rest) \<Rightarrow>
          if count = 0 \<or> (\<not> zero_prefix \<and> hd s = 48 \<and> count > 1) then None else Some (v, rest))"

definition read_given_char :: "uchar \<Rightarrow> str \<Rightarrow> str option" where
  "read_given_char c s = (case s of x # xs \<Rightarrow> if x = c then Some xs else None | [] \<Rightarrow> None)"

definition read_separator :: "uchar \<Rightarrow> nat \<Rightarrow> 'a reader \<Rightarrow> 'a reader" where
  "read_separator c index f s =
     (if index > 0 then (case read_given_char c s of None \<Rightarrow> None | Some rest \<Rightarrow> f rest) else f s)"

fun read_octets :: "nat \<Rightarrow> nat \<Rightarrow> u8 list reader" where
  "read_octets index 0 s = Some ([], s)"
| "read_octets index (Suc n) s =
     (case read_separator dot index (read_number 10 3 False 255) s of
        None \<Rightarrow> None
      | Some (v, rest) \<Rightarrow> map_option (\<lambda>(vs, r). (word_of_int v # vs, r)) (read_octets (Suc index) n rest))"

definition read_ipv4_addr :: "u8 list reader" where
  "read_ipv4_addr = read_octets 0 4"

text \<open>\<^verbatim>\<open>read_groups\<close>: up to so many groups, the last two of which can be an IPv4 address. It returns
  what was read, and whether it ended in one.\<close>

fun read_groups :: "nat \<Rightarrow> nat \<Rightarrow> str \<Rightarrow> u16 list \<times> bool \<times> str" where
  "read_groups index 0 s = ([], False, s)"
| "read_groups index (Suc left) s =
     (case (if left > 0 then read_separator colon index read_ipv4_addr s else None) of
        Some (vs, rest) \<Rightarrow>
          ([word_of_int (uint (vs ! 0) * 256 + uint (vs ! 1)), word_of_int (uint (vs ! 2) * 256 + uint (vs ! 3))], True, rest)
      | None \<Rightarrow>
          (case read_separator colon index (read_number 16 4 True 65535) s of
             None \<Rightarrow> ([], False, s)
           | Some (v, rest) \<Rightarrow>
               (case read_groups (Suc index) left rest of (vs, v4, r) \<Rightarrow> (word_of_int v # vs, v4, r))))"

definition read_ipv6_addr :: "u16 list reader" where
  "read_ipv6_addr s =
     (case read_groups 0 8 s of (head, v4, rest) \<Rightarrow>
        if length head = 8 then Some (head, rest)
        else if v4 then None
        else (case Option.bind (read_given_char colon rest) (read_given_char colon) of
            None \<Rightarrow> None
          | Some rest \<Rightarrow>
              (case read_groups 0 (8 - (length head + 1)) rest of (tail, _, rest) \<Rightarrow>
                 Some (head @ replicate (8 - length head - length tail) 0 @ tail, rest))))"

definition parse_ip_addr :: "str \<Rightarrow> ip_addr option" where
  "parse_ip_addr s =
     (case (case read_ipv4_addr s of
              Some (vs, rest) \<Rightarrow> Some (V4 (vs ! 0) (vs ! 1) (vs ! 2) (vs ! 3), rest)
            | None \<Rightarrow> map_option (\<lambda>(g, rest).
                (V6 (g ! 0) (g ! 1) (g ! 2) (g ! 3) (g ! 4) (g ! 5) (g ! 6) (g ! 7), rest)) (read_ipv6_addr s)) of
        Some (a, []) \<Rightarrow> Some a
      | _ \<Rightarrow> None)"

section \<open>Public addresses\<close>

definition between :: "int \<Rightarrow> int \<Rightarrow> int \<Rightarrow> bool" where
  "between lo hi x \<longleftrightarrow> lo \<le> x \<and> x \<le> hi"

definition is_public_ipv4 :: "u8 \<Rightarrow> u8 \<Rightarrow> u8 \<Rightarrow> bool" where
  "is_public_ipv4 first second third =
     (let a = uint first; b = uint second; c = uint third in
      if a = 0 \<or> a = 10 \<or> a = 127 \<or> between 224 255 a then False
      else if a = 100 \<and> between 64 127 b then False
      else if a = 169 \<and> b = 254 then False
      else if a = 172 \<and> between 16 31 b then False
      else if a = 192 \<and> b = 0 \<and> c = 0 then False
      else if a = 192 \<and> b = 0 \<and> c = 2 then False
      else if a = 192 \<and> b = 31 \<and> c = 196 then False
      else if a = 192 \<and> b = 52 \<and> c = 193 then False
      else if a = 192 \<and> b = 88 \<and> c = 99 then False
      else if a = 192 \<and> b = 168 then False
      else if a = 192 \<and> b = 175 \<and> c = 48 then False
      else if a = 198 \<and> (b = 18 \<or> b = 19) then False
      else if a = 198 \<and> b = 51 \<and> c = 100 then False
      else if a = 203 \<and> b = 0 \<and> c = 113 then False
      else True)"

definition is_public_ipv6 :: "u16 \<Rightarrow> u16 \<Rightarrow> u16 \<Rightarrow> bool" where
  "is_public_ipv6 s0 s1 s2 =
     (let a = uint s0; b = uint s1; c = uint s2 in
      if \<not> between 0x2000 0x3fff a then False
      else if a = 0x2001 \<and> b \<le> 0x01ff then False
      else if a = 0x2001 \<and> between 0x0020 0x002f b then False
      else if a = 0x2001 \<and> b = 0x0db8 then False
      else if a = 0x2002 then False
      else if a = 0x3fff \<and> b \<le> 0x0fff then False
      else if a = 0x2620 \<and> b = 0x004f \<and> c = 0x8000 then False
      else True)"

fun is_public_address :: "ip_addr \<Rightarrow> bool" where
  "is_public_address (V4 a b c d) = is_public_ipv4 a b c"
| "is_public_address (V6 a b c d e f g h) =
     (if to_ipv4_mapped (V6 a b c d e f g h) \<noteq> None then False else is_public_ipv6 a b c)"


section \<open>The blocks\<close>

text \<open>Addresses as numbers, and blocks in the notation \<^verbatim>\<open>base/length\<close>. Of an IPv6 address the first 48
  bits are enough.\<close>

definition quad :: "nat \<Rightarrow> nat \<Rightarrow> nat \<Rightarrow> nat \<Rightarrow> nat" where
  "quad a b c d = ((a * 256 + b) * 256 + c) * 256 + d"

definition triple :: "nat \<Rightarrow> nat \<Rightarrow> nat \<Rightarrow> nat" where
  "triple a b c = (a * 65536 + b) * 65536 + c"

definition in_block :: "nat \<Rightarrow> nat \<Rightarrow> nat \<times> nat \<Rightarrow> bool" where
  "in_block bits v blk \<longleftrightarrow> v div 2 ^ (bits - snd blk) = fst blk div 2 ^ (bits - snd blk)"

definition special_v4 :: "(nat \<times> nat) list" where
  "special_v4 = [(quad 0 0 0 0, 8), (quad 10 0 0 0, 8), (quad 127 0 0 0, 8), (quad 224 0 0 0, 4), (quad 240 0 0 0, 4),
     (quad 100 64 0 0, 10), (quad 169 254 0 0, 16), (quad 172 16 0 0, 12), (quad 192 0 0 0, 24), (quad 192 0 2 0, 24),
     (quad 192 31 196 0, 24), (quad 192 52 193 0, 24), (quad 192 88 99 0, 24), (quad 192 168 0 0, 16),
     (quad 192 175 48 0, 24), (quad 198 18 0 0, 15), (quad 198 51 100 0, 24), (quad 203 0 113 0, 24)]"

definition global_v6 :: "nat \<times> nat" where
  "global_v6 = (triple 0x2000 0 0, 3)"

definition special_v6 :: "(nat \<times> nat) list" where
  "special_v6 = [(triple 0x2001 0 0, 23), (triple 0x2001 0x20 0, 28), (triple 0x2001 0xdb8 0, 32), (triple 0x2002 0 0, 16),
     (triple 0x3fff 0 0, 20), (triple 0x2620 0x4f 0x8000, 48)]"

fun special_address :: "ip_addr \<Rightarrow> bool" where
  "special_address (V4 a b c d) = list_ex (in_block 32 (quad (unat a) (unat b) (unat c) (unat d))) special_v4"
| "special_address (V6 a b c d e f g h) =
     (\<not> in_block 48 (triple (unat a) (unat b) (unat c)) global_v6
      \<or> list_ex (in_block 48 (triple (unat a) (unat b) (unat c))) special_v6)"

lemma pair_eq: "b < m \<Longrightarrow> y < m \<Longrightarrow> a * m + b = x * m + y \<longleftrightarrow> a = x \<and> b = y" for a b x y m :: nat
proof -
  assume "b < m" "y < m"
  then have "(a * m + b) div m = a" "(a * m + b) mod m = b" "(x * m + y) div m = x" "(x * m + y) mod m = y" by simp_all
  then show ?thesis by metis
qed

lemma pair_div: "b < k * m \<Longrightarrow> 0 < m \<Longrightarrow> (a * (k * m) + b) div m = a * k + b div m" for a b k m :: nat
  by (simp add: mult.assoc [symmetric])

lemma quad_div:
  assumes "b < 256" "c < 256" "d < 256"
  shows "quad a b c d div 256 = (a * 256 + b) * 256 + c" "quad a b c d div 65536 = a * 256 + b" "quad a b c d div 16777216 = a"
    "quad a b c d div 4194304 = a * 4 + b div 64" "quad a b c d div 1048576 = a * 16 + b div 16"
    "quad a b c d div 131072 = a * 128 + b div 2" "quad a b c d div 268435456 = a div 16"
proof -
  show one: "quad a b c d div 256 = (a * 256 + b) * 256 + c" using assms by (simp add: quad_def)
  show two: "quad a b c d div 65536 = a * 256 + b"
    using assms div_mult2_eq [of "quad a b c d" 256 256] by (simp add: one)
  show three: "quad a b c d div 16777216 = a"
    using assms div_mult2_eq [of "quad a b c d" 65536 256] by (simp add: two)
  show "quad a b c d div 4194304 = a * 4 + b div 64"
    using assms div_mult2_eq [of "quad a b c d" 65536 64] pair_div [of b 4 64 a] by (simp add: two)
  show "quad a b c d div 1048576 = a * 16 + b div 16"
    using assms div_mult2_eq [of "quad a b c d" 65536 16] pair_div [of b 16 16 a] by (simp add: two)
  show "quad a b c d div 131072 = a * 128 + b div 2"
    using assms div_mult2_eq [of "quad a b c d" 65536 2] pair_div [of b 128 2 a] by (simp add: two)
  show "quad a b c d div 268435456 = a div 16"
    using assms div_mult2_eq [of "quad a b c d" 16777216 16] by (simp add: three)
qed

lemma in_run: "x div m = q \<longleftrightarrow> q * m \<le> x \<and> x < q * m + m" if "0 < m" for x q m :: nat
  using that by (auto simp: div_nat_eqI dividend_less_times_div algebra_simps)

lemma block_v4:
  assumes "a < 256" "b < 256" "c < 256" "d < 256"
  shows "list_ex (in_block 32 (quad a b c d)) special_v4 \<longleftrightarrow>
    a = 0 \<or> a = 10 \<or> a = 127 \<or> 224 \<le> a \<and> a \<le> 255 \<or> a = 100 \<and> 64 \<le> b \<and> b \<le> 127 \<or> a = 169 \<and> b = 254 \<or> a = 172 \<and> 16 \<le> b \<and> b \<le> 31
    \<or> a = 192 \<and> b = 0 \<and> c = 0 \<or> a = 192 \<and> b = 0 \<and> c = 2 \<or> a = 192 \<and> b = 31 \<and> c = 196 \<or> a = 192 \<and> b = 52 \<and> c = 193
    \<or> a = 192 \<and> b = 88 \<and> c = 99 \<or> a = 192 \<and> b = 168 \<or> a = 192 \<and> b = 175 \<and> c = 48 \<or> a = 198 \<and> (b = 18 \<or> b = 19)
    \<or> a = 198 \<and> b = 51 \<and> c = 100 \<or> a = 203 \<and> b = 0 \<and> c = 113"
proof -
  let ?v = "quad a b c d"
  note d = quad_div [OF assms(2-4), of a]
  have eight: "in_block 32 ?v (quad x 0 0 0, 8) \<longleftrightarrow> a = x" for x
    by (simp add: in_block_def d quad_div)
  have four: "in_block 32 ?v (quad 224 0 0 0, 4) \<or> in_block 32 ?v (quad 240 0 0 0, 4) \<longleftrightarrow> 224 \<le> a \<and> a \<le> 255"
    using assms(1) by (auto simp: in_block_def d quad_div in_run)
  have sixteen: "in_block 32 ?v (quad x y 0 0, 16) \<longleftrightarrow> a = x \<and> b = y" if "y < 256" for x y
    using that assms by (simp add: in_block_def d quad_div pair_eq)
  have twentyfour: "in_block 32 ?v (quad x y z 0, 24) \<longleftrightarrow> a = x \<and> b = y \<and> c = z" if "y < 256" "z < 256" for x y z
    using that assms pair_eq [of c 256 z "a * 256 + b" "x * 256 + y"] by (simp add: in_block_def d quad_div pair_eq add_mult_distrib)
  have ten: "in_block 32 ?v (quad 100 64 0 0, 10) \<longleftrightarrow> a = 100 \<and> 64 \<le> b \<and> b \<le> 127"
    using assms pair_eq [of "b div 64" 4 1 a 100] by (auto simp: in_block_def d quad_div in_run)
  have twelve: "in_block 32 ?v (quad 172 16 0 0, 12) \<longleftrightarrow> a = 172 \<and> 16 \<le> b \<and> b \<le> 31"
    using assms pair_eq [of "b div 16" 16 1 a 172] by (auto simp: in_block_def d quad_div in_run)
  have fifteen: "in_block 32 ?v (quad 198 18 0 0, 15) \<longleftrightarrow> a = 198 \<and> (b = 18 \<or> b = 19)"
    using assms pair_eq [of "b div 2" 128 9 a 198] by (auto simp: in_block_def d quad_div in_run)
  show ?thesis
    by (simp add: special_v4_def eight sixteen twentyfour ten twelve fifteen four [symmetric] disj_ac)
qed

lemma triple_div:
  assumes "b < 65536" "c < 65536"
  shows "triple a b c div 65536 = a * 65536 + b" "triple a b c div 4294967296 = a" "triple a b c div 35184372088832 = a div 8192"
    "triple a b c div 33554432 = a * 128 + b div 512" "triple a b c div 1048576 = a * 4096 + b div 16"
    "triple a b c div 268435456 = a * 16 + b div 4096"
proof -
  show one: "triple a b c div 65536 = a * 65536 + b" using assms by (simp add: triple_def)
  show two: "triple a b c div 4294967296 = a"
    using assms div_mult2_eq [of "triple a b c" 65536 65536] by (simp add: one)
  show "triple a b c div 35184372088832 = a div 8192"
    using assms div_mult2_eq [of "triple a b c" 4294967296 8192] by (simp add: two)
  show "triple a b c div 33554432 = a * 128 + b div 512"
    using assms div_mult2_eq [of "triple a b c" 65536 512] pair_div [of b 128 512 a] by (simp add: one)
  show "triple a b c div 1048576 = a * 4096 + b div 16"
    using assms div_mult2_eq [of "triple a b c" 65536 16] pair_div [of b 4096 16 a] by (simp add: one)
  show "triple a b c div 268435456 = a * 16 + b div 4096"
    using assms div_mult2_eq [of "triple a b c" 65536 4096] pair_div [of b 16 4096 a] by (simp add: one)
qed

lemma block_v6:
  assumes "a < 65536" "b < 65536" "c < 65536"
  shows "\<not> in_block 48 (triple a b c) global_v6 \<or> list_ex (in_block 48 (triple a b c)) special_v6 \<longleftrightarrow>
    \<not> (0x2000 \<le> a \<and> a \<le> 0x3fff) \<or> a = 0x2001 \<and> b \<le> 0x01ff \<or> a = 0x2001 \<and> 0x0020 \<le> b \<and> b \<le> 0x002f \<or> a = 0x2001 \<and> b = 0x0db8
    \<or> a = 0x2002 \<or> a = 0x3fff \<and> b \<le> 0x0fff \<or> a = 0x2620 \<and> b = 0x004f \<and> c = 0x8000"
proof -
  let ?v = "triple a b c"
  note d = triple_div [OF assms(2,3), of a]
  have global: "in_block 48 ?v global_v6 \<longleftrightarrow> 0x2000 \<le> a \<and> a \<le> 0x3fff"
    using assms(1) by (auto simp: in_block_def global_v6_def d triple_div in_run)
  have b1: "in_block 48 ?v (triple 0x2001 0 0, 23) \<longleftrightarrow> a = 0x2001 \<and> b \<le> 0x01ff"
    using assms pair_eq [of "b div 512" 128 0 a "0x2001"] by (auto simp: in_block_def d triple_div in_run)
  have b2: "in_block 48 ?v (triple 0x2001 0x20 0, 28) \<longleftrightarrow> a = 0x2001 \<and> 0x0020 \<le> b \<and> b \<le> 0x002f"
    using assms pair_eq [of "b div 16" 4096 2 a "0x2001"] by (auto simp: in_block_def d triple_div in_run)
  have b3: "in_block 48 ?v (triple 0x2001 0xdb8 0, 32) \<longleftrightarrow> a = 0x2001 \<and> b = 0x0db8"
    using assms pair_eq [of b 65536 "0xdb8" a "0x2001"] by (simp add: in_block_def d triple_div)
  have b4: "in_block 48 ?v (triple 0x2002 0 0, 16) \<longleftrightarrow> a = 0x2002"
    by (simp add: in_block_def d triple_div)
  have b5: "in_block 48 ?v (triple 0x3fff 0 0, 20) \<longleftrightarrow> a = 0x3fff \<and> b \<le> 0x0fff"
    using assms pair_eq [of "b div 4096" 16 0 a "0x3fff"] by (auto simp: in_block_def d triple_div in_run)
  have b6: "in_block 48 ?v (triple 0x2620 0x4f 0x8000, 48) \<longleftrightarrow> a = 0x2620 \<and> b = 0x004f \<and> c = 0x8000"
    using assms pair_eq [of c 65536 "0x8000" "a * 65536 + b" "0x2620 * 65536 + 0x4f"] pair_eq [of b 65536 "0x4f" a "0x2620"]
    by (simp add: in_block_def triple_def)
  show ?thesis by (simp add: special_v6_def global b1 b2 b3 b4 b5 b6)
qed


lemma word_values: "\<exists>n. unat w = n \<and> uint w = int n \<and> n < 2 ^ LENGTH('a)" for w :: "'a::len word"
  using unsigned_less [of w, where 'a = nat] by simp

lemma public_address_iff_special: "is_public_address x \<longleftrightarrow> \<not> special_address x"
proof (cases x)
  case (V4 x y z w)
  obtain a b c d where v: "unat x = a" "uint x = int a" "unat y = b" "uint y = int b" "unat z = c" "uint z = int c" "unat w = d"
    and bounds: "a < 256" "b < 256" "c < 256" "d < 256"
    using word_values [of x] word_values [of y] word_values [of z] word_values [of w] by auto
  show ?thesis
    unfolding V4 is_public_address.simps special_address.simps is_public_ipv4_def Let_def v block_v4 [OF bounds] between_def
    by simp blast
next
  case (V6 x y z d e f g h)
  obtain a b c where v: "unat x = a" "uint x = int a" "unat y = b" "uint y = int b" "unat z = c" "uint z = int c"
    and bounds: "a < 65536" "b < 65536" "c < 65536"
    using word_values [of x] word_values [of y] word_values [of z] by auto
  have "to_ipv4_mapped (V6 x y z d e f g h) \<noteq> None \<Longrightarrow> \<not> is_public_ipv6 x y z"
    by (auto simp: is_public_ipv6_def between_def split: if_splits)
  then have eq: "is_public_address (V6 x y z d e f g h) \<longleftrightarrow> is_public_ipv6 x y z" by auto
  show ?thesis
    unfolding V6 eq special_address.simps is_public_ipv6_def Let_def v block_v6 [OF bounds] between_def by simp blast
qed

text \<open>C29. The rule for public addresses is exactly the absence of the address from the blocks it was written
  for: an IPv4 address is public when it is in none of the eighteen special-purpose blocks, an IPv6 address when it
  is in the block of global unicast addresses and in none of the six blocks taken out of it. An IPv4 address mapped
  into IPv6 is therefore never public.\<close>

theorem public_address_iff_in_no_special_block: "is_public_address a \<longleftrightarrow> \<not> special_address a"
  by (rule public_address_iff_special)

text \<open>The text of an IPv6 address in a URL, with its brackets, is not the text of an address.\<close>

lemma bracket_not_an_address: "parse_ip_addr (91 # s) = None"
proof -
  have number: "read_number radix most z m (91 # s) = None" if "radix = 10 \<or> radix = 16" for radix most z m
    using that by (auto simp: read_number_def digit_value_def)
  have octets: "read_octets 0 (Suc 3) (91 # s) = None"
    unfolding read_octets.simps(2) by (simp add: read_separator_def number)
  have groups: "read_groups 0 (Suc 7) (91 # s) = ([], False, 91 # s)"
    unfolding read_groups.simps(2) using octets by (simp add: read_separator_def number read_ipv4_addr_def)
  from octets groups show ?thesis
    by (simp add: parse_ip_addr_def read_ipv4_addr_def read_ipv6_addr_def read_given_char_def)
qed

end
