(* ===== verification/Domain_Security.thy ===== *)
theory Domain_Security
  imports Ip_Address
begin

text \<open>
  \<^verbatim>\<open>crates/network/src/features/security\<close>: the domain a URL belongs to and the warnings about it. The
  URL crate is a parameter: \<open>url\<close> is what it says about a string it accepts, and \<open>url_lib\<close> holds the two
  functions that make one.
\<close>

section \<open>URLs\<close>

datatype url_host = HostDomain str | HostIp ip_addr

record url =
  u_text :: str                   \<comment> \<open>\<^verbatim>\<open>as_str\<close>\<close>
  u_scheme :: str
  u_host :: "url_host option"     \<comment> \<open>\<^verbatim>\<open>host\<close>\<close>
  u_host_str :: "str option"      \<comment> \<open>\<^verbatim>\<open>host_str\<close>, an IPv6 address in brackets\<close>
  u_username :: str
  u_password :: "str option"
  u_fragment :: "str option"
  u_port :: "u16 option"          \<comment> \<open>\<^verbatim>\<open>port_or_known_default\<close>\<close>
  u_origin :: str                 \<comment> \<open>\<^verbatim>\<open>origin\<close>\<close>

record url_lib =
  url_parse :: "str \<Rightarrow> url option"
  url_join :: "url \<Rightarrow> str \<Rightarrow> url option"

section \<open>Types\<close>

datatype domain_warning =
    HomographDetected uchar nat uchar
  | SuspiciousSubdomain str str
  | UnusualTld str
  | IpAddressWarning str
  | LocalhostOrPrivate
  | SuspiciousEncoding
  | ExcessiveSubdomains nat
  | SuspiciousKeywords "str list"

record domain_info =
  full_url :: str
  effective_domain :: str
  di_host :: str
  tld :: str
  di_warnings :: "domain_warning list"

fun is_critical :: "domain_warning \<Rightarrow> bool" where
  "is_critical (HomographDetected _ _ _) = True"
| "is_critical LocalhostOrPrivate = True"
| "is_critical (IpAddressWarning _) = True"
| "is_critical _ = False"

definition has_warnings :: "domain_info \<Rightarrow> bool" where
  "has_warnings i \<longleftrightarrow> di_warnings i \<noteq> []"

definition has_critical_warnings :: "domain_info \<Rightarrow> bool" where
  "has_critical_warnings i \<longleftrightarrow> list_ex is_critical (di_warnings i)"

section \<open>The domain\<close>

definition is_ip_address :: "str \<Rightarrow> bool" where
  "is_ip_address h \<longleftrightarrow> parse_ip_addr h \<noteq> None"

definition private_prefixes :: "str list" where
  "private_prefixes = [lit ''127.'', lit ''10.'', lit ''192.168.'', lit ''172.16.'', lit ''172.17.'', lit ''172.18.'',
     lit ''172.19.'', lit ''172.2'', lit ''172.30.'', lit ''172.31.'']"

definition is_localhost_or_private :: "str \<Rightarrow> bool" where
  "is_localhost_or_private h \<longleftrightarrow> h = lit ''localhost'' \<or> list_ex (starts_with h) private_prefixes"

definition multi_part_tlds :: "str list" where
  "multi_part_tlds = [lit ''co.jp'', lit ''ne.jp'', lit ''or.jp'', lit ''ac.jp'', lit ''go.jp'', lit ''com.au'',
     lit ''net.au'', lit ''org.au'', lit ''co.uk'', lit ''org.uk'', lit ''co.nz'', lit ''com.br'', lit ''co.kr'', lit ''or.kr'']"

text \<open>The last labels of a name; \<open>last_labels n\<close> of fewer labels is all of them.\<close>

definition last_labels :: "nat \<Rightarrow> str list \<Rightarrow> str list" where
  "last_labels n parts = drop (length parts - n) parts"

definition extract_effective_domain :: "str list \<Rightarrow> str \<times> str" where
  "extract_effective_domain parts =
     (let dotted = (\<lambda>n. join_on dot (last_labels n parts)) in
      if parts = [] then ([], [])
      else if length parts \<ge> 3 \<and> dotted 2 \<in> set multi_part_tlds then (dotted 2, dotted 3)
      else if length parts \<ge> 2 then (dotted 1, dotted 2)
      else (hd parts, hd parts))"

definition impersonation_targets :: "str list" where
  "impersonation_targets = [lit ''google'', lit ''microsoft'', lit ''apple'', lit ''amazon'', lit ''paypal'', lit ''facebook'',
     lit ''twitter'', lit ''instagram'', lit ''netflix'', lit ''bank'', lit ''secure'', lit ''login'', lit ''verify'',
     lit ''account'', lit ''update'']"

definition labels :: "str \<Rightarrow> str list" where
  "labels s = split_on (\<lambda>c. c = dot) s"

definition check_suspicious_subdomain :: "unicode \<Rightarrow> str list \<Rightarrow> str \<Rightarrow> domain_warning option" where
  "check_suspicious_subdomain u parts effective =
     (let subdomains = take (length parts - length (labels effective)) parts in
      case concat (map (\<lambda>sub. map (Pair sub) (filter (contains_str (str_lower u sub)) impersonation_targets)) subdomains) of
        (sub, target) # _ \<Rightarrow> Some (SuspiciousSubdomain sub target)
      | [] \<Rightarrow> None)"

datatype url_error = InvalidUrlText | UrlHasNoHost

definition option_list :: "'a option \<Rightarrow> 'a list" where
  "option_list x = (case x of None \<Rightarrow> [] | Some y \<Rightarrow> [y])"

definition parse_url :: "url_lib \<Rightarrow> unicode \<Rightarrow> str \<Rightarrow> url_error + domain_info" where
  "parse_url lib u s =
     res_bind (ok_or (url_parse lib s) InvalidUrlText) (\<lambda>url.
     res_bind (ok_or (u_host_str url) UrlHasNoHost) (\<lambda>raw.
       let host = str_lower u raw in
       if is_ip_address host
       then Inr \<lparr>full_url = s, effective_domain = host, di_host = host, tld = [], di_warnings = [IpAddressWarning host]\<rparr>
       else
         let parts = labels host;
             local = (if is_localhost_or_private host then [LocalhostOrPrivate] else []) in
         case extract_effective_domain parts of (t, effective) \<Rightarrow>
           let count = length parts - length (labels effective) in
           Inr \<lparr>full_url = s, effective_domain = effective, di_host = host, tld = t,
                di_warnings = local @ (if count > 3 then [ExcessiveSubdomains count] else [])
                  @ option_list (check_suspicious_subdomain u parts effective)\<rparr>))"

section \<open>Lookalikes\<close>

text \<open>The code points of \<^verbatim>\<open>get_lookalike\<close> and the letters they are taken for.\<close>

definition lookalikes :: "(uchar \<times> uchar) list" where
  "lookalikes = [
     (0x430, 97), (0x435, 101), (0x43E, 111), (0x440, 112), (0x441, 99), (0x443, 121), (0x445, 120),
     (0x410, 65), (0x412, 66), (0x415, 69), (0x41A, 75), (0x41C, 77), (0x41D, 72), (0x41E, 79), (0x420, 80), (0x421, 67),
     (0x422, 84), (0x423, 89), (0x425, 88), (0x456, 105), (0x458, 106),
     (0x3B1, 97), (0x3BF, 111), (0x3B5, 101), (0x391, 65), (0x392, 66), (0x395, 69), (0x397, 72), (0x399, 73), (0x39A, 75),
     (0x39C, 77), (0x39D, 78), (0x39F, 79), (0x3A1, 80), (0x3A4, 84), (0x3A5, 89), (0x3A7, 88), (0x396, 90),
     (0x131, 105), (0x261, 103), (0x251, 97), (0xDF, 66), (0x2113, 108), (0xFF4F, 111), (0xFF41, 97)]"

definition get_lookalike :: "uchar \<Rightarrow> uchar option" where
  "get_lookalike c = map_of lookalikes c"

definition detect_homographs :: "str \<Rightarrow> domain_warning list" where
  "detect_homographs domain = concat (map (\<lambda>(i, c).
     case get_lookalike c of None \<Rightarrow> [] | Some l \<Rightarrow> [HomographDetected c i l]) (enumerate 0 domain))"

section \<open>Patterns\<close>

definition suspicious_words :: "str list" where
  "suspicious_words = [lit ''secure-'', lit ''-secure'', lit ''login-'', lit ''-login'', lit ''signin-'', lit ''-signin'',
     lit ''verify-'', lit ''-verify'', lit ''update-'', lit ''-update'', lit ''confirm-'', lit ''-confirm'', lit ''account-'',
     lit ''-account'', lit ''banking'', lit ''wallet'', lit ''crypto'']"

definition check_suspicious_keywords :: "unicode \<Rightarrow> str \<Rightarrow> str list" where
  "check_suspicious_keywords u domain = filter (contains_str (str_lower u domain)) suspicious_words"

definition has_suspicious_encoding :: "str \<Rightarrow> bool" where
  "has_suspicious_encoding s \<longleftrightarrow> list_ex (contains_str s) [lit ''%2F%2F'', lit ''%40'', lit ''%3A%2F'', lit ''%00'']"

definition suspicious_tlds :: "str list" where
  "suspicious_tlds = [lit ''tk'', lit ''ml'', lit ''ga'', lit ''cf'', lit ''gq'', lit ''xyz'', lit ''top'', lit ''wang'', lit ''win'',
     lit ''bid'', lit ''click'', lit ''link'', lit ''download'', lit ''stream'', lit ''racing'']"

definition check_unusual_tld :: "unicode \<Rightarrow> str \<Rightarrow> domain_warning option" where
  "check_unusual_tld u domain =
     (let t = last (labels domain) in if str_lower u t \<in> set suspicious_tlds then Some (UnusualTld t) else None)"

definition check_patterns :: "unicode \<Rightarrow> str \<Rightarrow> str \<Rightarrow> domain_warning list" where
  "check_patterns u s domain =
     (let keywords = check_suspicious_keywords u domain in
      (if keywords \<noteq> [] then [SuspiciousKeywords keywords] else [])
      @ (if has_suspicious_encoding s then [SuspiciousEncoding] else [])
      @ option_list (check_unusual_tld u domain))"

definition analyze_url :: "url_lib \<Rightarrow> unicode \<Rightarrow> str \<Rightarrow> url_error + domain_info" where
  "analyze_url lib u s =
     res_bind (parse_url lib u s) (\<lambda>info.
       Inr (info\<lparr>di_warnings := di_warnings info @ detect_homographs (di_host info)
              @ check_patterns u s (effective_domain info)\<rparr>))"

section \<open>Addresses in brackets\<close>

text \<open>The host of a URL with an IPv6 address is written in brackets, which the test for an address does not read: such a
  URL is never reported as one with an address.\<close>

lemma check_suspicious_not_ip: "check_suspicious_subdomain u parts e \<noteq> Some (IpAddressWarning ip)"
  by (auto simp: check_suspicious_subdomain_def Let_def split: list.splits prod.splits)

lemma ipv6_host_not_reported:
  assumes "url_parse lib text = Some url" "u_host_str url = Some raw" "str_lower u raw = 91 # s" "parse_url lib u text = Inr info"
  shows "IpAddressWarning ip \<notin> set (di_warnings info)"
proof -
  have "\<not> is_ip_address (91 # s)" by (simp add: is_ip_address_def bracket_not_an_address)
  then show ?thesis
    using assms check_suspicious_not_ip
    by (auto simp: parse_url_def Let_def option_list_def split: prod.splits option.splits if_splits)
qed

end
