(* ===== verification/Plugin_Policy.thy ===== *)
theory Plugin_Policy
  imports Domain_Security
begin

text \<open>
  \<^verbatim>\<open>crates/network/src/features/request/plugin_policy.rs\<close> and the errors of
  \<^verbatim>\<open>crates/network/src/shared/types.rs\<close>: which URLs, headers and addresses a request of a plugin may have.
  A message that is only text is a constructor of its own, what it interpolates its argument.
\<close>

section \<open>Types\<close>

datatype http_method = Get | Post | Put | Delete

datatype request_fault =
    RoutingUnavailable | RoutingIdentityInvalid | ProxyNotConfigured | ProxyInvalid | ClientNotBuilt | TransportFailed
  | BodyReadFailed | BodyAllocationFailed | StatusNotSuccess u16

datatype url_fault =
    UrlNotParsed | SchemeNotHttp | NoHost | HasCredentials | HasFragment | RedirectNotParsed | LocationNotText | NoPort
  | AnalysisFailed url_error

datatype http_error =
    PluginNetworkNotConfigured str
  | PluginNetworkDisabled str
  | DomainNotWhitelisted str
  | DomainNeedsApproval str
  | RateLimited str
  | InvalidUrl url_fault
  | DnsResolutionFailed str
  | UnsafeResolvedAddress ip_addr
  | RedirectLimitExceeded
  | PinnedResolutionUnavailable
  | SecurityWarning str
  | RequestFailed request_fault
  | ResponseTooLarge nat
  | Timeout
  | Cancelled

type_synonym headers = "(str \<times> str) list"

record http_request =
  rq_url :: str
  rq_method :: http_method
  rq_headers :: headers
  rq_body :: "8 word list option"

record plugin_network_policy =
  network_enabled :: bool
  requests_per_minute :: "32 word"

definition MAX_PLUGIN_REDIRECTS :: nat where
  "MAX_PLUGIN_REDIRECTS = 5"

section \<open>Checks\<close>

definition url_accepted :: "url \<Rightarrow> url_fault + unit" where
  "url_accepted url =
     (if u_scheme url \<noteq> lit ''http'' \<and> u_scheme url \<noteq> lit ''https'' then Inl SchemeNotHttp
      else if u_host_str url = None then Inl NoHost
      else if u_username url \<noteq> [] \<or> u_password url \<noteq> None then Inl HasCredentials
      else if u_fragment url \<noteq> None then Inl HasFragment
      else Inr ())"

definition validate_plugin_url :: "url_lib \<Rightarrow> str \<Rightarrow> http_error + url" where
  "validate_plugin_url lib value =
     (case url_parse lib value of
        None \<Rightarrow> Inl (InvalidUrl UrlNotParsed)
      | Some url \<Rightarrow> (case url_accepted url of Inl e \<Rightarrow> Inl (InvalidUrl e) | Inr _ \<Rightarrow> Inr url))"

definition validate_redirect_target :: "url_lib \<Rightarrow> url \<Rightarrow> str \<Rightarrow> http_error + url" where
  "validate_redirect_target lib current location =
     (case url_join lib current location of
        None \<Rightarrow> Inl (InvalidUrl RedirectNotParsed)
      | Some target \<Rightarrow> validate_plugin_url lib (u_text target))"

definition forbidden_headers :: "str list" where
  "forbidden_headers = [lit ''host'', lit ''proxy-authorization'', lit ''content-length'', lit ''connection'',
     lit ''proxy-connection'', lit ''keep-alive'', lit ''transfer-encoding'', lit ''upgrade'', lit ''te'', lit ''trailer'',
     lit ''forwarded'']"

definition routing_header :: "str \<Rightarrow> bool" where
  "routing_header name \<longleftrightarrow> list_ex (eq_ignore_ascii_case name) forbidden_headers
     \<or> eq_ignore_ascii_case (take 12 name) (lit ''x-forwarded-'')"

definition validate_plugin_headers :: "headers \<Rightarrow> http_error + unit" where
  "validate_plugin_headers hs =
     (case filter routing_header (map fst hs) of [] \<Rightarrow> Inr () | name # _ \<Rightarrow> Inl (SecurityWarning name))"

definition validate_resolved_addresses :: "ip_addr list \<Rightarrow> http_error + unit" where
  "validate_resolved_addresses addresses =
     (if addresses = [] then Inl (DnsResolutionFailed (lit ''<unknown>''))
      else case filter (\<lambda>a. \<not> is_public_address a) addresses of
        [] \<Rightarrow> Inr () | a # _ \<Rightarrow> Inl (UnsafeResolvedAddress a))"

section \<open>What passes\<close>

definition plain_http_url :: "url \<Rightarrow> bool" where
  "plain_http_url url \<longleftrightarrow> u_scheme url \<in> {lit ''http'', lit ''https''} \<and> u_host_str url \<noteq> None \<and> u_username url = []
     \<and> u_password url = None \<and> u_fragment url = None"

lemma url_accepted_iff: "url_accepted url = Inr () \<longleftrightarrow> plain_http_url url"
  by (auto simp: url_accepted_def plain_http_url_def)

lemma validate_plugin_url_Inr:
  "validate_plugin_url lib s = Inr url \<longleftrightarrow> url_parse lib s = Some url \<and> plain_http_url url"
  by (auto simp: validate_plugin_url_def url_accepted_iff [symmetric] split: option.splits sum.splits)

lemma validate_headers_Inr: "validate_plugin_headers hs = Inr () \<longleftrightarrow> (\<forall>h \<in> set hs. \<not> routing_header (fst h))"
proof -
  have "filter routing_header (map fst hs) = [] \<longleftrightarrow> (\<forall>h \<in> set hs. \<not> routing_header (fst h))" by (simp add: filter_empty_conv)
  then show ?thesis by (auto simp: validate_plugin_headers_def split: list.splits)
qed

lemma validate_addresses_Inr:
  "validate_resolved_addresses as = Inr () \<longleftrightarrow> as \<noteq> [] \<and> (\<forall>a \<in> set as. is_public_address a)"
proof -
  have "filter (\<lambda>a. \<not> is_public_address a) as = [] \<longleftrightarrow> (\<forall>a \<in> set as. is_public_address a)" by (simp add: filter_empty_conv)
  then show ?thesis by (auto simp: validate_resolved_addresses_def split: list.splits)
qed

end
