(* ===== verification/Domain_Whitelist.thy ===== *)
theory Domain_Whitelist
  imports Prelude "HOL-Library.AList"
begin

text \<open>
  \<^verbatim>\<open>crates/network/src/features/whitelist\<close>: which domains a plugin may ask for. Three layers, each a hash
  map from plugins to sets of domains: what the user approved, what the loaded manifest grants and what waits for an
  answer. A hash map is an association list, a hash set a list; their order is not relied on.

  The specification is a function of the history: a domain is allowed when the last word of the user on it was an
  approval, or the manifest that was loaded last names it.
\<close>

section \<open>Layers\<close>

type_synonym domain_layer = "(str \<times> str list) list"

definition domains_of :: "domain_layer \<Rightarrow> str \<Rightarrow> str list" where
  "domains_of m p = (case map_of m p of None \<Rightarrow> [] | Some ds \<Rightarrow> ds)"

text \<open>\<^verbatim>\<open>entry(p).or_default().insert(d)\<close>, and \<^verbatim>\<open>remove(d)\<close> or \<^verbatim>\<open>retain\<close> under
  \<^verbatim>\<open>if let Some(..) = get_mut(p)\<close>.\<close>

definition layer_insert :: "str \<Rightarrow> str \<Rightarrow> domain_layer \<Rightarrow> domain_layer" where
  "layer_insert p d m = AList.update p (List.insert d (domains_of m p)) m"

definition layer_retain :: "str \<Rightarrow> (str \<Rightarrow> bool) \<Rightarrow> domain_layer \<Rightarrow> domain_layer" where
  "layer_retain p keep m = (case map_of m p of None \<Rightarrow> m | Some ds \<Rightarrow> AList.update p (filter keep ds) m)"

section \<open>The whitelist\<close>

record whitelist_entry =
  we_plugin_id :: str
  we_domain :: str
  we_approved :: bool

datatype access_check = AccessAllowed | NeedsApproval | NotWhitelisted

record domain_whitelist =
  wl_approved :: domain_layer
  wl_manifest :: domain_layer
  wl_pending :: domain_layer

definition new_whitelist :: domain_whitelist where
  "new_whitelist = \<lparr>wl_approved = [], wl_manifest = [], wl_pending = []\<rparr>"

definition normalize_domain :: "unicode \<Rightarrow> str \<Rightarrow> str" where
  "normalize_domain u d = trim (str_lower u d)"

definition from_entries :: "whitelist_entry list \<Rightarrow> domain_whitelist" where
  "from_entries es =
     (let add = (\<lambda>b. fold (\<lambda>e m. if we_approved e = b then layer_insert (we_plugin_id e) (we_domain e) m else m) es []) in
      \<lparr>wl_approved = add True, wl_manifest = [], wl_pending = add False\<rparr>)"

definition check_domain :: "unicode \<Rightarrow> domain_whitelist \<Rightarrow> str \<Rightarrow> str \<Rightarrow> access_check" where
  "check_domain u w p d =
     (let n = normalize_domain u d in
      if n \<in> set (domains_of (wl_approved w) p) then AccessAllowed
      else if n \<in> set (domains_of (wl_manifest w) p) then AccessAllowed
      else if n \<in> set (domains_of (wl_pending w) p) then NeedsApproval
      else NotWhitelisted)"

definition is_allowed :: "unicode \<Rightarrow> domain_whitelist \<Rightarrow> str \<Rightarrow> str \<Rightarrow> bool" where
  "is_allowed u w p d \<longleftrightarrow> check_domain u w p d = AccessAllowed"

definition add_pending :: "unicode \<Rightarrow> str \<Rightarrow> str \<Rightarrow> domain_whitelist \<Rightarrow> domain_whitelist" where
  "add_pending u p d w = w\<lparr>wl_pending := layer_insert p (normalize_domain u d) (wl_pending w)\<rparr>"

definition approve :: "unicode \<Rightarrow> str \<Rightarrow> str \<Rightarrow> domain_whitelist \<Rightarrow> domain_whitelist" where
  "approve u p d w =
     (let n = normalize_domain u d in
      w\<lparr>wl_pending := layer_retain p (\<lambda>x. x \<noteq> n) (wl_pending w), wl_approved := layer_insert p n (wl_approved w)\<rparr>)"

definition revoke :: "unicode \<Rightarrow> str \<Rightarrow> str \<Rightarrow> domain_whitelist \<Rightarrow> domain_whitelist" where
  "revoke u p d w =
     (let n = normalize_domain u d in w\<lparr>wl_approved := layer_retain p (\<lambda>x. x \<noteq> n) (wl_approved w)\<rparr>)"

definition replace_manifest_domains :: "unicode \<Rightarrow> str \<Rightarrow> str list \<Rightarrow> domain_whitelist \<Rightarrow> domain_whitelist" where
  "replace_manifest_domains u p ds w =
     (let ns = map (normalize_domain u) ds in
      w\<lparr>wl_pending := layer_retain p (\<lambda>x. x \<notin> set ns) (wl_pending w),
        wl_manifest := (if ns = [] then AList.delete p (wl_manifest w) else AList.update p ns (wl_manifest w))\<rparr>)"

definition clear_manifest_domains :: "str \<Rightarrow> domain_whitelist \<Rightarrow> domain_whitelist" where
  "clear_manifest_domains p w = w\<lparr>wl_manifest := AList.delete p (wl_manifest w)\<rparr>"

definition layer_entries :: "bool \<Rightarrow> domain_layer \<Rightarrow> whitelist_entry list" where
  "layer_entries b m = concat (map (\<lambda>(p, ds). map (\<lambda>d. \<lparr>we_plugin_id = p, we_domain = d, we_approved = b\<rparr>) ds) m)"

definition get_pending :: "domain_whitelist \<Rightarrow> whitelist_entry list" where
  "get_pending w = layer_entries False (wl_pending w)"

definition get_approved :: "domain_whitelist \<Rightarrow> whitelist_entry list" where
  "get_approved w = layer_entries True (wl_approved w)"

definition get_all_entries :: "domain_whitelist \<Rightarrow> whitelist_entry list" where
  "get_all_entries w =
     (let approved = get_approved w in
      approved @ filter (\<lambda>e. e \<notin> set approved) (layer_entries True (wl_manifest w)) @ get_pending w)"

section \<open>Histories\<close>

datatype whitelist_op =
    AddPending str str | Approve str str | Revoke str str | ReplaceManifest str "str list" | ClearManifest str

fun whitelist_step :: "unicode \<Rightarrow> whitelist_op \<Rightarrow> domain_whitelist \<Rightarrow> domain_whitelist" where
  "whitelist_step u (AddPending p d) w = add_pending u p d w"
| "whitelist_step u (Approve p d) w = approve u p d w"
| "whitelist_step u (Revoke p d) w = revoke u p d w"
| "whitelist_step u (ReplaceManifest p ds) w = replace_manifest_domains u p ds w"
| "whitelist_step u (ClearManifest p) w = clear_manifest_domains p w"

definition whitelist_run :: "unicode \<Rightarrow> whitelist_op list \<Rightarrow> domain_whitelist" where
  "whitelist_run u ops = fold (whitelist_step u) ops new_whitelist"

text \<open>What a history, newest first, says about a plugin and a normalized domain.\<close>

fun user_granted :: "unicode \<Rightarrow> whitelist_op list \<Rightarrow> str \<Rightarrow> str \<Rightarrow> bool" where
  "user_granted u [] p n = False"
| "user_granted u (Approve q d # ops) p n = (q = p \<and> normalize_domain u d = n \<or> user_granted u ops p n)"
| "user_granted u (Revoke q d # ops) p n = (\<not> (q = p \<and> normalize_domain u d = n) \<and> user_granted u ops p n)"
| "user_granted u (_ # ops) p n = user_granted u ops p n"

fun manifest_granted :: "unicode \<Rightarrow> whitelist_op list \<Rightarrow> str \<Rightarrow> str \<Rightarrow> bool" where
  "manifest_granted u [] p n = False"
| "manifest_granted u (ReplaceManifest q ds # ops) p n =
     (if q = p then n \<in> normalize_domain u ` set ds else manifest_granted u ops p n)"
| "manifest_granted u (ClearManifest q # ops) p n = (q \<noteq> p \<and> manifest_granted u ops p n)"
| "manifest_granted u (_ # ops) p n = manifest_granted u ops p n"

fun waiting :: "unicode \<Rightarrow> whitelist_op list \<Rightarrow> str \<Rightarrow> str \<Rightarrow> bool" where
  "waiting u [] p n = False"
| "waiting u (AddPending q d # ops) p n = (q = p \<and> normalize_domain u d = n \<or> waiting u ops p n)"
| "waiting u (Approve q d # ops) p n = (\<not> (q = p \<and> normalize_domain u d = n) \<and> waiting u ops p n)"
| "waiting u (ReplaceManifest q ds # ops) p n = (\<not> (q = p \<and> n \<in> normalize_domain u ` set ds) \<and> waiting u ops p n)"
| "waiting u (_ # ops) p n = waiting u ops p n"

section \<open>The layers follow the history\<close>

lemma domains_of_insert: "set (domains_of (layer_insert q d m) p) = set (domains_of m p) \<union> (if q = p then {d} else {})"
  by (cases "map_of m p") (auto simp: domains_of_def layer_insert_def update_conv')

lemma domains_of_retain: "set (domains_of (layer_retain q keep m) p) = {d \<in> set (domains_of m p). q = p \<longrightarrow> keep d}"
  by (auto simp: domains_of_def layer_retain_def update_conv' split: option.splits)

lemma domains_of_update: "domains_of (AList.update q ds m) p = (if q = p then ds else domains_of m p)"
  by (simp add: domains_of_def update_conv')

lemma domains_of_delete: "domains_of (AList.delete q m) p = (if q = p then [] else domains_of m p)"
  by (simp add: domains_of_def delete_conv')

lemmas layer_simps = domains_of_insert domains_of_retain domains_of_update domains_of_delete

lemma whitelist_run_snoc: "whitelist_run u (ops @ [op]) = whitelist_step u op (whitelist_run u ops)"
  by (simp add: whitelist_run_def)

lemma layers_follow_history:
  "n \<in> set (domains_of (wl_approved (whitelist_run u ops)) p) \<longleftrightarrow> user_granted u (rev ops) p n"
  "n \<in> set (domains_of (wl_manifest (whitelist_run u ops)) p) \<longleftrightarrow> manifest_granted u (rev ops) p n"
  "n \<in> set (domains_of (wl_pending (whitelist_run u ops)) p) \<longleftrightarrow> waiting u (rev ops) p n"
proof (induction ops rule: rev_induct)
  case Nil
  { case 1 show ?case by (simp add: whitelist_run_def new_whitelist_def domains_of_def)
  next case 2 show ?case by (simp add: whitelist_run_def new_whitelist_def domains_of_def)
  next case 3 show ?case by (simp add: whitelist_run_def new_whitelist_def domains_of_def) }
next
  case (snoc op ops)
  { case 1 show ?case using snoc(1)
      by (cases op) (auto simp: whitelist_run_snoc layer_simps add_pending_def approve_def revoke_def
          replace_manifest_domains_def clear_manifest_domains_def Let_def)
  next case 2 show ?case using snoc(2)
      by (cases op) (auto simp: whitelist_run_snoc layer_simps add_pending_def approve_def revoke_def
          replace_manifest_domains_def clear_manifest_domains_def Let_def)
  next case 3 show ?case using snoc(3)
      by (cases op) (auto simp: whitelist_run_snoc layer_simps add_pending_def approve_def revoke_def
          replace_manifest_domains_def clear_manifest_domains_def Let_def) }
qed

text \<open>C30. What the whitelist answers is a function of its history: a plugin may ask for a domain exactly when the
  last approval or revocation of it, in any spelling, was an approval, or the manifest loaded last for that plugin
  names it; it needs approval when it was requested and neither approved nor granted since; and otherwise it is not
  on the list. In particular a manifest never takes an approval away, a revocation never takes a grant of the
  manifest away, and operations on one plugin do not matter to another.\<close>

theorem whitelist_answers_by_history:
  "check_domain u (whitelist_run u ops) p d =
     (let n = normalize_domain u d in
      if user_granted u (rev ops) p n \<or> manifest_granted u (rev ops) p n then AccessAllowed
      else if waiting u (rev ops) p n then NeedsApproval else NotWhitelisted)"
  by (simp add: check_domain_def Let_def layers_follow_history)

section \<open>Persistence\<close>

text \<open>Spellings that only differ in case or outer white space are not told apart, but entries that are loaded are
  taken as they are: an approval stored with a capital letter is never found.\<close>

lemma loaded_entry_not_normalized:
  "check_domain ascii_tables (from_entries [\<lparr>we_plugin_id = lit ''p'', we_domain = lit ''Dlsite.com'', we_approved = True\<rparr>])
     (lit ''p'') (lit ''Dlsite.com'') = NotWhitelisted"
  by code_simp

end
