(* ===== verification/Plugin_Request.thy ===== *)
theory Plugin_Request
  imports Plugin_Policy Domain_Whitelist Rate_Limiter
begin

text \<open>
  The checked requests of \<^verbatim>\<open>crates/network/src/features/request/client.rs\<close>: what is asked before a plugin
  reaches the network, and the loop that follows redirects.

  The context is shared. Whenever the request takes one of its locks, other threads may have changed it since: what
  they did before the n-th access is the function \<open>ne_others\<close>, a parameter, and so every theorem holds for all of
  them. The resolver, the transport, the clock and the routing crate are parameters too. What is sent is kept as a
  list, and so are the contexts the request saw.
\<close>

section \<open>The context\<close>

record proxy_config =
  px_enabled :: bool
  px_address :: str
  px_username :: "str option"
  px_password :: "str option"

record routed_client =
  rc_proxy :: "proxy_config option"
  rc_plugin_routing_available :: bool

text \<open>A routing snapshot is what the routing crate answers.\<close>

record routing_snapshot =
  sn_direct :: routed_client
  sn_client_for :: "str \<Rightarrow> routed_client option"

record plugin_context =
  pc_routing :: routing_snapshot
  pc_policies :: "str \<rightharpoonup> plugin_network_policy"
  pc_limiter :: rate_limiter
  pc_whitelist :: domain_whitelist

record sent_request =
  sr_url :: url
  sr_addresses :: "ip_addr list"
  sr_proxy :: "proxy_config option"
  sr_method :: http_method
  sr_headers :: headers
  sr_dlsite :: bool
  sr_body :: "8 word list option"

text \<open>An answer: the names of its headers are in lower case, a value is there when it is text, and its body arrives in
  chunks until it ends or the transport fails.\<close>

datatype body_event = Chunk "u8 list" | ChunkFailed

record http_answer =
  an_url :: str
  an_status :: u16
  an_headers :: "(str \<times> str option) list"
  an_content_length :: "nat option"
  an_body :: "body_event list"

record net_env =
  ne_urls :: url_lib
  ne_tables :: unicode
  ne_workload :: "str \<Rightarrow> bool"
  ne_proxy_ok :: "proxy_config \<Rightarrow> bool"
  ne_build_ok :: "nat \<Rightarrow> bool"
  ne_resolve :: "nat \<Rightarrow> str \<Rightarrow> u16 \<Rightarrow> ip_addr list option"
  ne_send :: "nat \<Rightarrow> sent_request \<Rightarrow> bool + http_answer"  \<comment> \<open>an error says whether it was the timeout\<close>
  ne_now :: "nat \<Rightarrow> instant"
  ne_others :: "nat \<Rightarrow> plugin_context \<Rightarrow> plugin_context"

record request_world =
  rw_context :: plugin_context
  rw_step :: nat
  rw_seen :: "plugin_context list"
  rw_sent :: "sent_request list"

type_synonym 'a net = "(request_world, http_error, 'a) st"

text \<open>One access to the context, at a clock reading.\<close>

definition access :: "net_env \<Rightarrow> (instant \<Rightarrow> plugin_context \<Rightarrow> (http_error + 'a) \<times> plugin_context) \<Rightarrow> 'a net" where
  "access env f w =
     (let c = ne_others env (rw_step w) (rw_context w) in
      case f (ne_now env (rw_step w)) c of (r, c') \<Rightarrow>
        (r, w\<lparr>rw_context := c', rw_step := Suc (rw_step w), rw_seen := rw_seen w @ [c]\<rparr>))"

section \<open>Policies and routes\<close>

definition enabled_policy :: "plugin_context \<Rightarrow> str \<Rightarrow> http_error + plugin_network_policy" where
  "enabled_policy c plugin_id =
     (case pc_policies c plugin_id of
        None \<Rightarrow> Inl (PluginNetworkNotConfigured plugin_id)
      | Some policy \<Rightarrow> if \<not> network_enabled policy then Inl (PluginNetworkDisabled plugin_id) else Inr policy)"

definition registered_policy :: "plugin_context \<Rightarrow> str \<Rightarrow> http_error + plugin_network_policy" where
  "registered_policy c plugin_id =
     (if \<not> rc_plugin_routing_available (sn_direct (pc_routing c)) then Inl (RequestFailed RoutingUnavailable)
      else enabled_policy c plugin_id)"

definition selected_plugin_route :: "net_env \<Rightarrow> plugin_context \<Rightarrow> str \<Rightarrow> http_error + routed_client" where
  "selected_plugin_route env c plugin_id =
     (if \<not> ne_workload env plugin_id then Inl (RequestFailed RoutingIdentityInvalid)
      else case sn_client_for (pc_routing c) plugin_id of
        None \<Rightarrow> Inl (RequestFailed ProxyNotConfigured)
      | Some route \<Rightarrow>
          if \<not> rc_plugin_routing_available route then Inl (RequestFailed RoutingUnavailable) else Inr route)"

text \<open>\<^verbatim>\<open>try_acquire_plugin_host_service\<close>.\<close>

definition try_acquire_plugin_host_service :: "net_env \<Rightarrow> str \<Rightarrow> str \<Rightarrow> unit net" where
  "try_acquire_plugin_host_service env plugin_id service_scope =
     st_bind (access env (\<lambda>_ c. (enabled_policy c plugin_id, c))) (\<lambda>policy.
       access env (\<lambda>now c.
         let scope = lit ''host-service:'' @ service_scope in
         case try_acquire_with_limit (plugin_id @ 0 # scope) (requests_per_minute policy) now (pc_limiter c) of
           (ok, l) \<Rightarrow> (if ok then Inr () else Inl (RateLimited scope), c\<lparr>pc_limiter := l\<rparr>)))"

section \<open>One target\<close>

record authorized_target =
  at_url :: url
  at_proxy :: "proxy_config option"
  at_resolved :: "ip_addr list"

fun host_text :: "url_host \<Rightarrow> str" where
  "host_text (HostDomain d) = to_ascii_lowercase d"
| "host_text (HostIp a) = ip_to_string a"

definition resolve_host :: "net_env \<Rightarrow> str \<Rightarrow> u16 \<Rightarrow> ip_addr list net" where
  "resolve_host env host port w =
     ((case ne_resolve env (rw_step w) host port of None \<Rightarrow> Inl (DnsResolutionFailed host) | Some as \<Rightarrow> Inr as),
      w\<lparr>rw_step := Suc (rw_step w)\<rparr>)"

definition rate_domain_of :: "net_env \<Rightarrow> url \<Rightarrow> url_host \<Rightarrow> http_error + str" where
  "rate_domain_of env url host =
     (case host of
        HostDomain _ \<Rightarrow>
          (case analyze_url (ne_urls env) (ne_tables env) (u_text url) of
             Inl e \<Rightarrow> Inl (InvalidUrl (AnalysisFailed e)) | Inr info \<Rightarrow> Inr (effective_domain info))
      | HostIp _ \<Rightarrow> Inr (host_text host))"

text \<open>The whitelist is asked, and a domain that is not on it is added to those that wait.\<close>

definition check_access :: "net_env \<Rightarrow> str \<Rightarrow> str \<Rightarrow> unit net" where
  "check_access env plugin_id host =
     st_bind (access env (\<lambda>_ c. (Inr (check_domain (ne_tables env) (pc_whitelist c) plugin_id host), c))) (\<lambda>answer.
       case answer of
         AccessAllowed \<Rightarrow> st_ret ()
       | NeedsApproval \<Rightarrow> st_lift (Inl (DomainNeedsApproval host))
       | NotWhitelisted \<Rightarrow>
           access env (\<lambda>_ c. (Inl (DomainNotWhitelisted host),
             c\<lparr>pc_whitelist := add_pending (ne_tables env) plugin_id host (pc_whitelist c)\<rparr>)))"

definition acquire_budget :: "net_env \<Rightarrow> str \<Rightarrow> plugin_network_policy \<Rightarrow> str \<Rightarrow> unit net" where
  "acquire_budget env plugin_id policy rate_domain =
     access env (\<lambda>now c.
       case try_acquire_with_limit (plugin_id @ 0 # rate_domain) (requests_per_minute policy) now (pc_limiter c) of
         (ok, l) \<Rightarrow> (if ok then Inr () else Inl (RateLimited rate_domain), c\<lparr>pc_limiter := l\<rparr>))"

definition authorize_target :: "net_env \<Rightarrow> str \<Rightarrow> url \<Rightarrow> authorized_target net" where
  "authorize_target env plugin_id url =
     st_bind (access env (\<lambda>_ c. (registered_policy c plugin_id, c))) (\<lambda>policy.
     st_bind (st_lift (validate_plugin_url (ne_urls env) (u_text url))) (\<lambda>url.
     st_bind (st_lift (ok_or (u_port url) (InvalidUrl NoPort))) (\<lambda>port.
     st_bind (st_lift (ok_or (u_host url) (InvalidUrl NoHost))) (\<lambda>host.
     st_bind (case host of
         HostDomain d \<Rightarrow> resolve_host env (to_ascii_lowercase d) port
       | HostIp a \<Rightarrow> st_ret [a]) (\<lambda>resolved.
     st_bind (st_lift (validate_resolved_addresses resolved)) (\<lambda>_.
     st_bind (st_lift (rate_domain_of env url host)) (\<lambda>rate_domain.
     st_bind (check_access env plugin_id (host_text host)) (\<lambda>_.
     st_bind (acquire_budget env plugin_id policy rate_domain) (\<lambda>_.
     st_bind (access env (\<lambda>_ c. (selected_plugin_route env c plugin_id, c))) (\<lambda>route.
       st_ret \<lparr>at_url = url, at_proxy = rc_proxy route, at_resolved = resolved\<rparr>))))))))))"

text \<open>The addresses the client is pinned to: with a proxy only those the transport can name.\<close>

definition build_pinned_client :: "net_env \<Rightarrow> authorized_target \<Rightarrow> ip_addr list net" where
  "build_pinned_client env target w =
     (let pinned = (case at_proxy target of None \<Rightarrow> at_resolved target | Some _ \<Rightarrow> filter is_ipv4 (at_resolved target)) in
      (if u_host (at_url target) = None then Inl (InvalidUrl NoHost)
       else if at_proxy target \<noteq> None \<and> pinned = [] then Inl PinnedResolutionUnavailable
       else if \<not> (case at_proxy target of None \<Rightarrow> True | Some p \<Rightarrow> ne_proxy_ok env p) then Inl (RequestFailed ProxyInvalid)
       else if \<not> ne_build_ok env (rw_step w) then Inl (RequestFailed ClientNotBuilt)
       else Inr pinned, w))"

section \<open>DLsite\<close>

definition is_dlsite_host :: "str \<Rightarrow> bool" where
  "is_dlsite_host host \<longleftrightarrow> list_ex (\<lambda>apex. host = apex
     \<or> (case strip_suffix host apex of None \<Rightarrow> False | Some pre \<Rightarrow> ends_with pre [dot])) [lit ''dlsite.com'', lit ''dlsite.jp'']"

definition is_dlsite_url :: "url_lib \<Rightarrow> str \<Rightarrow> bool" where
  "is_dlsite_url lib s =
     (case url_parse lib s of
        None \<Rightarrow> False
      | Some url \<Rightarrow> (case u_host_str url of None \<Rightarrow> False | Some host \<Rightarrow> is_dlsite_host host))"

text \<open>\<^verbatim>\<open>str::find\<close>: what is before the first occurrence and what is after it.\<close>

fun find_str :: "str \<Rightarrow> str \<Rightarrow> (str \<times> str) option" where
  "find_str p [] = (if p = [] then Some ([], []) else None)"
| "find_str p (c # cs) =
     (if starts_with (c # cs) p then Some ([], drop (length p) (c # cs))
      else map_option (\<lambda>(a, b). (c # a, b)) (find_str p cs))"

definition replace_first :: "str \<Rightarrow> str \<Rightarrow> str \<Rightarrow> str" where
  "replace_first old new s = (case find_str old s of None \<Rightarrow> s | Some (a, b) \<Rightarrow> a @ new @ b)"

text \<open>The folder of one prefix, when it has more digits than the product and is a number.\<close>

definition fixed_folder :: "str \<Rightarrow> str \<Rightarrow> (str \<times> str) option" where
  "fixed_folder pre s =
     (case find_str (slash # pre) s of
        None \<Rightarrow> None
      | Some (_, rest) \<Rightarrow>
          (case split_once slash rest of
             None \<Rightarrow> None
           | Some (folder_digits, after_folder) \<Rightarrow>
               (case find_str pre after_folder of
                  None \<Rightarrow> None
                | Some (_, tail) \<Rightarrow>
                    let product_digits = takeWhile is_ascii_digit tail in
                    if str_len folder_digits > str_len product_digits \<and> list_all is_ascii_digit folder_digits
                       \<and> int (digits_value folder_digits) < U64_END
                    then let new = pad_digits (length product_digits) (digits_value folder_digits) in
                      if new \<noteq> folder_digits then Some (pre @ folder_digits, pre @ new) else None
                    else None)))"

fun fix_prefixes :: "str list \<Rightarrow> str \<Rightarrow> str" where
  "fix_prefixes [] s = s"
| "fix_prefixes (pre # pres) s =
     (case fixed_folder pre s of Some (old, new) \<Rightarrow> replace_first old new s | None \<Rightarrow> fix_prefixes pres s)"

definition fix_dlsite_cdn_folder :: "url_lib \<Rightarrow> str \<Rightarrow> str" where
  "fix_dlsite_cdn_folder lib s =
     (if (case url_parse lib s of None \<Rightarrow> False | Some url \<Rightarrow> u_host_str url = Some (lit ''img.dlsite.jp''))
      then fix_prefixes [lit ''RJ'', lit ''VJ'', lit ''BJ'', lit ''RE''] s else s)"

section \<open>The loop\<close>

definition drop_headers :: "str list \<Rightarrow> headers \<Rightarrow> headers" where
  "drop_headers names hs = filter (\<lambda>h. \<not> list_ex (eq_ignore_ascii_case (fst h)) names) hs"

definition credential_headers :: "str list" where
  "credential_headers = [lit ''authorization'', lit ''cookie'']"

definition body_headers :: "str list" where
  "body_headers = [lit ''content-length'', lit ''content-type'', lit ''transfer-encoding'']"

definition send_request :: "net_env \<Rightarrow> sent_request \<Rightarrow> http_answer net" where
  "send_request env r w =
     ((case ne_send env (rw_step w) r of
         Inl timed_out \<Rightarrow> Inl (if timed_out then Timeout else RequestFailed TransportFailed)
       | Inr answer \<Rightarrow> Inr answer),
      w\<lparr>rw_step := Suc (rw_step w), rw_sent := rw_sent w @ [r]\<rparr>)"

text \<open>One turn of the loop ends it with an answer or an error, or yields the next request.\<close>

datatype turn = Answered http_answer | Redirected url http_method headers "8 word list option"

definition redirect_status :: "u16 \<Rightarrow> bool" where
  "redirect_status s \<longleftrightarrow> s = 301 \<or> s = 302 \<or> s = 303 \<or> s = 307 \<or> s = 308"

text \<open>What becomes of a request on its way to the next URL.\<close>

definition redirected :: "url \<Rightarrow> u16 \<Rightarrow> http_method \<Rightarrow> headers \<Rightarrow> 8 word list option \<Rightarrow> url \<Rightarrow> turn" where
  "redirected current status method hs body next_url =
     (let hs = (if u_origin current \<noteq> u_origin next_url then drop_headers credential_headers hs else hs) in
      if status = 303 \<or> (status = 301 \<or> status = 302) \<and> method = Post
      then Redirected next_url Get (drop_headers body_headers hs) None
      else Redirected next_url method hs body)"

definition take_answer :: "net_env \<Rightarrow> url \<Rightarrow> http_method \<Rightarrow> headers \<Rightarrow> 8 word list option \<Rightarrow> nat \<Rightarrow> http_answer \<Rightarrow> http_error + turn" where
  "take_answer env current method hs body followed answer =
     (if \<not> redirect_status (an_status answer) then Inr (Answered answer)
      else case map_of (an_headers answer) (lit ''location'') of
        None \<Rightarrow> Inr (Answered answer)
      | Some location \<Rightarrow>
          if followed \<ge> MAX_PLUGIN_REDIRECTS then Inl RedirectLimitExceeded
          else res_bind (ok_or location (InvalidUrl LocationNotText)) (\<lambda>location.
            res_bind (validate_redirect_target (ne_urls env) current location) (\<lambda>next_url.
              Inr (redirected current (an_status answer) method hs body next_url))))"

definition request_turn :: "net_env \<Rightarrow> str \<Rightarrow> url \<Rightarrow> http_method \<Rightarrow> headers \<Rightarrow> 8 word list option \<Rightarrow> nat \<Rightarrow> turn net" where
  "request_turn env plugin_id url method hs body followed =
     st_bind (authorize_target env plugin_id url) (\<lambda>target.
     st_bind (build_pinned_client env target) (\<lambda>pinned.
     st_bind (send_request env \<lparr>sr_url = at_url target, sr_addresses = pinned, sr_proxy = at_proxy target, sr_method = method,
         sr_headers = hs, sr_dlsite = is_dlsite_url (ne_urls env) (u_text (at_url target)), sr_body = body\<rparr>) (\<lambda>answer.
       st_lift (take_answer env (at_url target) method hs body followed answer))))"

lemma redirected_before_limit:
  "request_turn env p url method hs body followed w = (Inr (Redirected u m h b), w') \<Longrightarrow> followed < MAX_PLUGIN_REDIRECTS"
  by (auto simp: request_turn_def st_bind_def st_lift_def take_answer_def res_simps split: prod.splits sum.splits if_splits option.splits)

function follow :: "net_env \<Rightarrow> str \<Rightarrow> url \<Rightarrow> http_method \<Rightarrow> headers \<Rightarrow> 8 word list option \<Rightarrow> nat \<Rightarrow> http_answer net" where
  "follow env plugin_id url method hs body followed w =
     (case request_turn env plugin_id url method hs body followed w of
        (Inl e, w') \<Rightarrow> (Inl e, w')
      | (Inr (Answered answer), w') \<Rightarrow> (Inr answer, w')
      | (Inr (Redirected url' method' hs' body'), w') \<Rightarrow> follow env plugin_id url' method' hs' body' (Suc followed) w')"
  by pat_completeness auto
termination
proof (relation "measure (\<lambda>(env, plugin_id, url, method, hs, body, followed, w). MAX_PLUGIN_REDIRECTS - followed)")
qed (auto dest: redirected_before_limit [OF sym] intro: diff_less_mono2)

declare follow.simps [simp del]

definition execute :: "net_env \<Rightarrow> str \<Rightarrow> http_request \<Rightarrow> http_answer net" where
  "execute env plugin_id request =
     st_bind (st_lift (validate_plugin_headers (rq_headers request))) (\<lambda>_.
     st_bind (st_lift (validate_plugin_url (ne_urls env) (fix_dlsite_cdn_folder (ne_urls env) (rq_url request)))) (\<lambda>url.
       follow env plugin_id url (rq_method request) (rq_headers request) (rq_body request) 0))"

section \<open>Evaluation\<close>

text \<open>For evaluation the operations are written with their states, so that no continuation is rewritten before the
  value it waits for is there.\<close>

lemmas net_steps = st_bind_def st_lift_def st_ret_def access_def Let_def

lemmas net_code [code] =
  check_access_def [THEN fun_cong, unfolded net_steps]
  acquire_budget_def [THEN fun_cong, unfolded net_steps]
  authorize_target_def [THEN fun_cong, unfolded net_steps]
  request_turn_def [THEN fun_cong, unfolded net_steps]
  execute_def [THEN fun_cong, unfolded net_steps]

end
