(* ===== verification/Network_Properties.thy ===== *)
theory Network_Properties
  imports Plugin_Request
begin

text \<open>
  What a plugin can make the application send. Whatever the other threads do to the shared context, whatever the
  resolver and the servers answer and however often they redirect, a request leaves only for public addresses of a
  host the whitelist allowed, within the budget, without headers that steer the transport, and without the plugin's
  credentials once the origin has changed.
\<close>

section \<open>Runs\<close>

text \<open>Computations that send nothing.\<close>

definition quiet :: "'a net \<Rightarrow> bool" where
  "quiet m \<longleftrightarrow> (\<forall>w. rw_sent (snd (m w)) = rw_sent w \<and> set (rw_seen w) \<subseteq> set (rw_seen (snd (m w))))"

lemma quiet_simps [simp]: "quiet (st_ret x)" "quiet (st_lift r)" "quiet (access env f)" "quiet (resolve_host env h p)"
  "quiet (build_pinned_client env t)"
  by (auto simp: quiet_def st_ret_def st_lift_def access_def resolve_host_def build_pinned_client_def Let_def split: prod.splits)

lemma quiet_bind [simp]: "quiet m \<Longrightarrow> (\<And>x. quiet (f x)) \<Longrightarrow> quiet (st_bind m f)"
  unfolding quiet_def st_bind_def by (auto split: prod.splits sum.splits) (metis snd_conv subset_eq)+

lemma quiet_check [simp]: "quiet (check_access env p h)"
  unfolding check_access_def by (rule quiet_bind) (auto split: access_check.splits)

lemma quiet_authorize [simp]: "quiet (authorize_target env p url)"
  unfolding authorize_target_def acquire_budget_def
  by (intro quiet_bind quiet_simps quiet_check) (auto split: url_host.splits)

lemma quietD: "quiet m \<Longrightarrow> m w = (r, w') \<Longrightarrow> rw_sent w' = rw_sent w \<and> set (rw_seen w) \<subseteq> set (rw_seen w')"
  unfolding quiet_def by (metis snd_conv)

section \<open>An authorized target\<close>

definition host_allowed :: "net_env \<Rightarrow> str \<Rightarrow> plugin_context set \<Rightarrow> url \<Rightarrow> bool" where
  "host_allowed env plugin_id seen url \<longleftrightarrow>
     (\<exists>h. u_host url = Some h \<and> (\<exists>c \<in> seen. check_domain (ne_tables env) (pc_whitelist c) plugin_id (host_text h) = AccessAllowed))"

definition within_budget :: "net_env \<Rightarrow> str \<Rightarrow> plugin_context set \<Rightarrow> url \<Rightarrow> bool" where
  "within_budget env plugin_id seen url \<longleftrightarrow>
     (\<exists>h policy scope now. u_host url = Some h \<and> rate_domain_of env url h = Inr scope
        \<and> (\<exists>c \<in> seen. registered_policy c plugin_id = Inr policy)
        \<and> (\<exists>c \<in> seen. fst (try_acquire_with_limit (plugin_id @ 0 # scope) (requests_per_minute policy) now (pc_limiter c))))"

lemma access_seen: "access env f w = (Inr x, w') \<Longrightarrow> \<exists>c \<in> set (rw_seen w'). fst (f (ne_now env (rw_step w)) c) = Inr x"
  by (auto simp: access_def Let_def split: prod.splits)

lemma check_access_allowed:
  assumes "check_access env p h w = (Inr x, w')"
  shows "\<exists>c \<in> set (rw_seen w'). check_domain (ne_tables env) (pc_whitelist c) p h = AccessAllowed"
proof -
  obtain answer w1 where "access env (\<lambda>_ c. (Inr (check_domain (ne_tables env) (pc_whitelist c) p h), c)) w = (Inr answer, w1)"
    and rest: "(case answer of AccessAllowed \<Rightarrow> st_ret () | NeedsApproval \<Rightarrow> st_lift (Inl (DomainNeedsApproval h))
      | NotWhitelisted \<Rightarrow> access env (\<lambda>_ c. (Inl (DomainNotWhitelisted h),
          c\<lparr>pc_whitelist := add_pending (ne_tables env) p h (pc_whitelist c)\<rparr>))) w1 = (Inr x, w')"
    using assms unfolding check_access_def st_bind_Inr by blast
  moreover from rest have "answer = AccessAllowed" "w' = w1"
    by (auto simp: st_ret_eq st_lift_eq access_def Let_def split: access_check.splits)
  ultimately show ?thesis using access_seen by fastforce
qed

lemma acquire_granted:
  assumes "acquire_budget env p policy d w = (Inr x, w')"
  shows "\<exists>now. \<exists>c \<in> set (rw_seen w'). fst (try_acquire_with_limit (p @ 0 # d) (requests_per_minute policy) now (pc_limiter c))"
proof -
  obtain c where c: "c \<in> set (rw_seen w')" "fst (case try_acquire_with_limit (p @ 0 # d) (requests_per_minute policy)
      (ne_now env (rw_step w)) (pc_limiter c) of (ok, l) \<Rightarrow> (if ok then Inr () else Inl (RateLimited d), c\<lparr>pc_limiter := l\<rparr>)) = Inr x"
    using access_seen [OF assms [unfolded acquire_budget_def]] by blast
  have "fst (try_acquire_with_limit (p @ 0 # d) (requests_per_minute policy) (ne_now env (rw_step w)) (pc_limiter c))"
    using c(2) by (auto split: prod.splits if_splits)
  then show ?thesis using c(1) by blast
qed

lemma authorized:
  assumes "authorize_target env p url w = (Inr target, w')"
  shows "url_parse (ne_urls env) (u_text url) = Some (at_url target)" "plain_http_url (at_url target)"
    "at_resolved target \<noteq> [] \<and> (\<forall>a \<in> set (at_resolved target). is_public_address a)"
    "host_allowed env p (set (rw_seen w')) (at_url target)" "within_budget env p (set (rw_seen w')) (at_url target)"
proof -
  obtain policy w1 url' port host resolved w2 d w3 w4 route where
    one: "access env (\<lambda>_ c. (registered_policy c p, c)) w = (Inr policy, w1)"
    and valid: "validate_plugin_url (ne_urls env) (u_text url) = Inr url'"
    and host: "u_host url' = Some host"
    and resolve: "(case host of HostDomain d \<Rightarrow> resolve_host env (to_ascii_lowercase d) port | HostIp a \<Rightarrow> st_ret [a]) w1 = (Inr resolved, w2)"
    and addresses: "validate_resolved_addresses resolved = Inr ()"
    and domain: "rate_domain_of env url' host = Inr d"
    and check: "check_access env p (host_text host) w2 = (Inr (), w3)"
    and budget: "acquire_budget env p policy d w3 = (Inr (), w4)"
    and route: "access env (\<lambda>_ c. (selected_plugin_route env c p, c)) w4 = (Inr route, w')"
    and target: "target = \<lparr>at_url = url', at_proxy = rc_proxy route, at_resolved = resolved\<rparr>"
    using assms unfolding authorize_target_def st_bind_Inr st_lift_eq st_ret_eq ok_or_eq_Inr by auto
  have quiet: "quiet (case host of HostDomain d \<Rightarrow> resolve_host env (to_ascii_lowercase d) port | HostIp a \<Rightarrow> st_ret [a])"
    by (simp split: url_host.split)
  have grow: "set (rw_seen w1) \<subseteq> set (rw_seen w2)" "set (rw_seen w2) \<subseteq> set (rw_seen w3)"
    "set (rw_seen w3) \<subseteq> set (rw_seen w4)" "set (rw_seen w4) \<subseteq> set (rw_seen w')"
    using quietD [OF quiet resolve] quietD [OF quiet_check check] quietD [OF quiet_simps(3) budget [unfolded acquire_budget_def]]
      quietD [OF quiet_simps(3) route] by auto
  show "url_parse (ne_urls env) (u_text url) = Some (at_url target)" "plain_http_url (at_url target)"
    using valid by (simp_all add: validate_plugin_url_Inr target)
  show "at_resolved target \<noteq> [] \<and> (\<forall>a \<in> set (at_resolved target). is_public_address a)"
    using addresses by (simp add: validate_addresses_Inr target)
  show "host_allowed env p (set (rw_seen w')) (at_url target)"
    using check_access_allowed [OF check] grow host by (auto simp: host_allowed_def target)
  show "within_budget env p (set (rw_seen w')) (at_url target)"
  proof -
    obtain c where c: "c \<in> set (rw_seen w1)" "registered_policy c p = Inr policy" using access_seen [OF one] by auto
    then show ?thesis
      using acquire_granted [OF budget] grow host domain unfolding within_budget_def target by auto blast
  qed
qed

lemma pinned:
  assumes "build_pinned_client env target w = (Inr as, w')" "at_resolved target \<noteq> []"
  shows "as \<noteq> [] \<and> set as \<subseteq> set (at_resolved target)"
  using assms by (auto simp: build_pinned_client_def Let_def split: if_splits option.splits)

section \<open>The loop\<close>

text \<open>What the documentation of the URL crate promises: the text of a URL is read back as that URL.\<close>

definition urls_read_back :: "url_lib \<Rightarrow> bool" where
  "urls_read_back lib \<longleftrightarrow> (\<forall>s url. url_parse lib s = Some url \<longrightarrow> url_parse lib (u_text url) = Some url)"

definition carries_credentials :: "headers \<Rightarrow> bool" where
  "carries_credentials hs \<longleftrightarrow> list_ex (\<lambda>h. list_ex (eq_ignore_ascii_case (fst h)) credential_headers) hs"

definition sent_properly :: "net_env \<Rightarrow> str \<Rightarrow> headers \<Rightarrow> str \<Rightarrow> plugin_context set \<Rightarrow> sent_request \<Rightarrow> bool" where
  "sent_properly env plugin_id hs origin seen r \<longleftrightarrow>
     plain_http_url (sr_url r) \<and> sr_addresses r \<noteq> [] \<and> (\<forall>a \<in> set (sr_addresses r). is_public_address a)
     \<and> host_allowed env plugin_id seen (sr_url r) \<and> within_budget env plugin_id seen (sr_url r)
     \<and> set (sr_headers r) \<subseteq> set hs \<and> (\<forall>h \<in> set (sr_headers r). \<not> routing_header (fst h))
     \<and> (u_origin (sr_url r) \<noteq> origin \<longrightarrow> \<not> carries_credentials (sr_headers r))
     \<and> (sr_dlsite r \<longrightarrow> (\<exists>h. u_host_str (sr_url r) = Some h \<and> is_dlsite_host h))"

lemma within_budget_mono: "within_budget env p seen url \<Longrightarrow> seen \<subseteq> seen' \<Longrightarrow> within_budget env p seen' url"
  unfolding within_budget_def by blast

lemma host_allowed_mono: "host_allowed env p seen url \<Longrightarrow> seen \<subseteq> seen' \<Longrightarrow> host_allowed env p seen' url"
  unfolding host_allowed_def by blast

lemma sent_properly_mono: "sent_properly env p hs g seen r \<Longrightarrow> seen \<subseteq> seen' \<Longrightarrow> sent_properly env p hs g seen' r"
  unfolding sent_properly_def using within_budget_mono host_allowed_mono by blast

lemma drop_headers_sub: "set (drop_headers names hs) \<subseteq> set hs"
  by (auto simp: drop_headers_def)

lemma drop_credentials: "\<not> carries_credentials (drop_headers credential_headers hs)"
  by (auto simp: carries_credentials_def drop_headers_def list_ex_iff)

lemma carries_sub: "carries_credentials (drop_headers names hs) \<Longrightarrow> carries_credentials hs"
  by (auto simp: carries_credentials_def drop_headers_def list_ex_iff) force

lemma carries_if:
  "carries_credentials (if b then drop_headers names hs else hs) \<Longrightarrow> carries_credentials hs"
  "carries_credentials (if u \<noteq> v then drop_headers credential_headers hs else hs) \<Longrightarrow> v = u"
  using drop_credentials carries_sub by (auto split: if_splits)

text \<open>What a run of the loop may add to what was sent.\<close>

definition adds_properly :: "net_env \<Rightarrow> str \<Rightarrow> headers \<Rightarrow> str \<Rightarrow> nat \<Rightarrow> request_world \<Rightarrow> request_world \<Rightarrow> bool" where
  "adds_properly env p hs origin n w w' \<longleftrightarrow>
     (\<exists>new. rw_sent w' = rw_sent w @ new \<and> length new \<le> n \<and> (\<forall>r \<in> set new. sent_properly env p hs origin (set (rw_seen w')) r))
     \<and> set (rw_seen w) \<subseteq> set (rw_seen w')"

lemma adds_nothing: "rw_sent w' = rw_sent w \<Longrightarrow> set (rw_seen w) \<subseteq> set (rw_seen w') \<Longrightarrow> adds_properly env p hs g n w w'"
  by (simp add: adds_properly_def)

lemma adds_one:
  assumes "rw_sent w' = rw_sent w @ [r]" "sent_properly env p hs g (set (rw_seen w')) r" "set (rw_seen w) \<subseteq> set (rw_seen w')"
  shows "adds_properly env p hs g (Suc n) w w'"
  using assms by (auto simp: adds_properly_def)

lemma adds_then:
  assumes "rw_sent w1 = rw_sent w @ [r]" "sent_properly env p hs g (set (rw_seen w1)) r" "set (rw_seen w) \<subseteq> set (rw_seen w1)"
    and "adds_properly env p hs g n w1 w'"
  shows "adds_properly env p hs g (Suc n) w w'"
proof -
  obtain new where new: "rw_sent w' = rw_sent w1 @ new" "length new \<le> n" "\<forall>r \<in> set new. sent_properly env p hs g (set (rw_seen w')) r"
    and grow: "set (rw_seen w1) \<subseteq> set (rw_seen w')"
    using assms(4) by (auto simp: adds_properly_def)
  have "rw_sent w' = rw_sent w @ (r # new)" "length (r # new) \<le> Suc n" using assms(1) new by simp_all
  moreover have "\<forall>x \<in> set (r # new). sent_properly env p hs g (set (rw_seen w')) x"
    using sent_properly_mono [OF assms(2) grow] new(3) by simp
  ultimately show ?thesis using assms(3) grow unfolding adds_properly_def by blast
qed

lemma hop_sent_properly:
  assumes auth: "authorize_target env p url w = (Inr target, w1)" and pin: "build_pinned_client env target w1 = (Inr as, w2)"
    and lib: "url_parse (ne_urls env) (u_text url) = Some url"
    and hs: "set hs \<subseteq> set H" "\<forall>h \<in> set H. \<not> routing_header (fst h)" "carries_credentials hs \<longrightarrow> u_origin url = origin"
  shows "at_url target = url"
    and "sent_properly env p H origin (set (rw_seen w2)) \<lparr>sr_url = at_url target, sr_addresses = as, sr_proxy = at_proxy target,
      sr_method = meth, sr_headers = hs, sr_dlsite = is_dlsite_url (ne_urls env) (u_text (at_url target)), sr_body = body\<rparr>"
    and "rw_sent w2 = rw_sent w" "set (rw_seen w) \<subseteq> set (rw_seen w2)"
proof -
  note a = authorized [OF auth]
  show url: "at_url target = url" using a(1) lib by simp
  have w2: "w2 = w1" using pin by (simp add: build_pinned_client_def Let_def)
  have "as \<noteq> [] \<and> set as \<subseteq> set (at_resolved target)" using pinned [OF pin] a(3) by blast
  then have "as \<noteq> []" "\<forall>x \<in> set as. is_public_address x" using a(3) by auto
  moreover have "is_dlsite_url (ne_urls env) (u_text url) \<longrightarrow> (\<exists>h. u_host_str url = Some h \<and> is_dlsite_host h)"
    by (simp add: is_dlsite_url_def lib split: option.splits)
  ultimately show "sent_properly env p H origin (set (rw_seen w2)) \<lparr>sr_url = at_url target, sr_addresses = as, sr_proxy = at_proxy target,
      sr_method = meth, sr_headers = hs, sr_dlsite = is_dlsite_url (ne_urls env) (u_text (at_url target)), sr_body = body\<rparr>"
    using a(2,4,5) hs by (auto simp: sent_properly_def w2 url)
  show "rw_sent w2 = rw_sent w" "set (rw_seen w) \<subseteq> set (rw_seen w2)"
    using quietD [OF quiet_authorize auth] by (simp_all add: w2)
qed

text \<open>A redirect is followed to a validated target, with fewer headers.\<close>

lemma redirected_headers:
  assumes "redirected url status meth hs body nx = Redirected nx' m hs' b"
  shows "nx' = nx" "set hs' \<subseteq> set hs" "carries_credentials hs' \<longrightarrow> carries_credentials hs \<and> u_origin nx = u_origin url"
proof -
  let ?hs = "if u_origin url \<noteq> u_origin nx then drop_headers credential_headers hs else hs"
  have hs': "hs' = ?hs \<or> hs' = drop_headers body_headers ?hs" and nx: "nx' = nx"
    using assms by (auto simp: redirected_def Let_def split: if_splits)
  show "nx' = nx" by (rule nx)
  show "set hs' \<subseteq> set hs" using hs' by (auto simp: drop_headers_def split: if_splits)
  have "carries_credentials hs' \<Longrightarrow> carries_credentials ?hs" using hs' carries_sub by blast
  then show "carries_credentials hs' \<longrightarrow> carries_credentials hs \<and> u_origin nx = u_origin url"
    using carries_if(1) [of "u_origin url \<noteq> u_origin nx" credential_headers hs] carries_if(2) [of "u_origin url" "u_origin nx" hs]
    by simp
qed

lemma answer_redirects:
  assumes "take_answer env url meth hs body followed answer = Inr (Redirected nx m hs' b)"
  shows "followed < MAX_PLUGIN_REDIRECTS" "\<exists>s. url_parse (ne_urls env) s = Some nx" "set hs' \<subseteq> set hs"
    "carries_credentials hs' \<longrightarrow> carries_credentials hs \<and> u_origin nx = u_origin url"
proof -
  obtain location nx' where more: "followed < MAX_PLUGIN_REDIRECTS"
    and target: "validate_redirect_target (ne_urls env) url location = Inr nx'"
    and step: "redirected url (an_status answer) meth hs body nx' = Redirected nx m hs' b"
    using assms by (auto simp: take_answer_def res_simps split: if_splits option.splits sum.splits)
  note headers = redirected_headers [OF step]
  show "followed < MAX_PLUGIN_REDIRECTS" by (rule more)
  show "\<exists>s. url_parse (ne_urls env) s = Some nx"
    using target headers(1) by (auto simp: validate_redirect_target_def validate_plugin_url_Inr split: option.splits)
  show "set hs' \<subseteq> set hs" "carries_credentials hs' \<longrightarrow> carries_credentials hs \<and> u_origin nx = u_origin url"
    using headers by simp_all
qed

lemma request_turn_cases:
  assumes run: "request_turn env p url meth hs body followed w = (res, w')"
    and lib: "url_parse (ne_urls env) (u_text url) = Some url"
    and hs: "set hs \<subseteq> set H" "\<forall>h \<in> set H. \<not> routing_header (fst h)" "carries_credentials hs \<longrightarrow> u_origin url = origin"
  obtains (unsent) e where "res = Inl e" "rw_sent w' = rw_sent w" "set (rw_seen w) \<subseteq> set (rw_seen w')"
  | (sent) r where "rw_sent w' = rw_sent w @ [r]" "sent_properly env p H origin (set (rw_seen w')) r"
      "set (rw_seen w) \<subseteq> set (rw_seen w')"
      "\<forall>t. res = Inr t \<longrightarrow> (\<exists>answer. take_answer env url meth hs body followed answer = Inr t)"
proof -
  obtain r1 w1 where auth: "authorize_target env p url w = (r1, w1)" by fastforce
  note q1 = quietD [OF quiet_authorize auth]
  show ?thesis
  proof (cases r1)
    case (Inl e)
    then show ?thesis using unsent [of e] q1 run auth by (simp add: request_turn_def st_bind_def)
  next
    case r1: (Inr target)
    obtain r2 w2 where pin: "build_pinned_client env target w1 = (r2, w2)" by fastforce
    note q2 = quietD [OF quiet_simps(5) pin]
    show ?thesis
    proof (cases r2)
      case (Inl e)
      then have "res = Inl e" "w' = w2" using run auth pin r1 by (simp_all add: request_turn_def st_bind_def)
      then show ?thesis using unsent [of e] q1 q2 by auto
    next
      case r2: (Inr as)
      let ?r = "\<lparr>sr_url = at_url target, sr_addresses = as, sr_proxy = at_proxy target, sr_method = meth, sr_headers = hs,
        sr_dlsite = is_dlsite_url (ne_urls env) (u_text (at_url target)), sr_body = body\<rparr>"
      note hop = hop_sent_properly [OF auth [unfolded r1] pin [unfolded r2] lib hs]
      obtain r3 w3 where send: "send_request env ?r w2 = (r3, w3)" by fastforce
      have w3: "rw_sent w3 = rw_sent w @ [?r]" "rw_seen w3 = rw_seen w2" using send hop(3) by (auto simp: send_request_def)
      have "w' = w3" "res = (case r3 of Inl e \<Rightarrow> Inl e | Inr answer \<Rightarrow> take_answer env url meth hs body followed answer)"
        using run auth pin send r1 r2 hop(1)
        by (simp_all add: request_turn_def st_bind_def st_lift_def split: sum.splits)
      then show ?thesis using hop(2,4) w3 by (intro sent [of ?r]) (auto split: sum.splits)
    qed
  qed
qed

lemma follow_adds_properly:
  assumes lib: "urls_read_back (ne_urls env)" and H: "\<forall>h \<in> set H. \<not> routing_header (fst h)"
  shows "follow env p url meth hs body followed w = (res, w') \<Longrightarrow> url_parse (ne_urls env) (u_text url) = Some url \<Longrightarrow>
    set hs \<subseteq> set H \<Longrightarrow> (carries_credentials hs \<longrightarrow> u_origin url = origin) \<Longrightarrow>
    adds_properly env p H origin (Suc (MAX_PLUGIN_REDIRECTS - followed)) w w'"
proof (induction "MAX_PLUGIN_REDIRECTS - followed" arbitrary: url meth hs body followed w rule: less_induct)
  case less
  obtain r1 w1 where step: "request_turn env p url meth hs body followed w = (r1, w1)" by fastforce
  from step less.prems(2,3) H less.prems(4) show ?case
  proof (cases rule: request_turn_cases)
    case (unsent e)
    then show ?thesis using less.prems(1) step by (auto simp: follow.simps [of env p url] intro: adds_nothing)
  next
    case (sent r)
    show ?thesis
    proof (cases "\<exists>nx m hs' b. r1 = Inr (Redirected nx m hs' b)")
      case False
      then have "w1 = w'" using less.prems(1) step by (auto simp: follow.simps [of env p url] split: sum.splits turn.splits)
      then show ?thesis using adds_one [OF sent(1,2,3)] by simp
    next
      case True
      then obtain nx m hs' b where r1: "r1 = Inr (Redirected nx m hs' b)" by blast
      then have run: "follow env p nx m hs' b (Suc followed) w1 = (res, w')"
        using less.prems(1) step by (simp add: follow.simps [of env p url])
      obtain answer where "take_answer env url meth hs body followed answer = Inr (Redirected nx m hs' b)"
        using sent(4) r1 by blast
      note red = answer_redirects [OF this]
      have "adds_properly env p H origin (Suc (MAX_PLUGIN_REDIRECTS - Suc followed)) w1 w'"
        by (rule less.hyps [OF _ run]) (use red lib less.prems in \<open>auto simp: urls_read_back_def\<close>)
      moreover have "Suc (MAX_PLUGIN_REDIRECTS - Suc followed) = MAX_PLUGIN_REDIRECTS - followed" using red(1) by simp
      ultimately show ?thesis using adds_then [OF sent(1,2,3)] by simp
    qed
  qed
qed


text \<open>A run with a redirect to another origin.\<close>

definition sample_url :: "string \<Rightarrow> string \<Rightarrow> url" where
  "sample_url scheme host = \<lparr>u_text = lit (scheme @ ''://'' @ host), u_scheme = lit scheme, u_host = Some (HostDomain (lit host)),
     u_host_str = Some (lit host), u_username = [], u_password = None, u_fragment = None, u_port = Some 443,
     u_origin = lit (scheme @ ''://'' @ host)\<rparr>"

definition sample_urls :: url_lib where
  "sample_urls = \<lparr>url_parse = (\<lambda>s. if s = lit ''https://a.com'' then Some (sample_url ''https'' ''a.com'')
       else if s = lit ''https://b.com'' then Some (sample_url ''https'' ''b.com'') else None),
     url_join = (\<lambda>_ s. if s = lit ''https://b.com'' then Some (sample_url ''https'' ''b.com'') else None)\<rparr>"

definition sample_client :: routed_client where
  "sample_client = \<lparr>rc_proxy = None, rc_plugin_routing_available = True\<rparr>"

definition sample_net_env :: net_env where
  "sample_net_env = \<lparr>ne_urls = sample_urls, ne_tables = ascii_tables, ne_workload = (\<lambda>_. True), ne_proxy_ok = (\<lambda>_. True),
     ne_build_ok = (\<lambda>_. True), ne_resolve = (\<lambda>_ _ _. Some [V4 93 184 216 34]),
     ne_send = (\<lambda>_ r. Inr (if u_host_str (sr_url r) = Some (lit ''a.com'')
       then \<lparr>an_url = [], an_status = 302, an_headers = [(lit ''location'', Some (lit ''https://b.com''))],
         an_content_length = None, an_body = []\<rparr>
       else \<lparr>an_url = [], an_status = 200, an_headers = [], an_content_length = None, an_body = []\<rparr>)),
     ne_now = (\<lambda>_. 0), ne_others = (\<lambda>_ c. c)\<rparr>"

definition sample_net_context :: plugin_context where
  "sample_net_context = \<lparr>pc_routing = \<lparr>sn_direct = sample_client, sn_client_for = (\<lambda>_. Some sample_client)\<rparr>,
     pc_policies = (\<lambda>_. Some \<lparr>network_enabled = True, requests_per_minute = 9\<rparr>), pc_limiter = new_limiter 0 9,
     pc_whitelist = whitelist_run ascii_tables [ReplaceManifest (lit ''p'') [lit ''a.com'', lit ''b.com'']]\<rparr>"

definition sample_world :: request_world where
  "sample_world = \<lparr>rw_context = sample_net_context, rw_step = 0, rw_seen = [], rw_sent = []\<rparr>"

definition sample_http_request :: http_request where
  "sample_http_request = \<lparr>rq_url = lit ''https://a.com'', rq_method = Get, rq_headers = [(lit ''Cookie'', lit ''x'')], rq_body = None\<rparr>"

definition sample_execution :: "(http_error + http_answer) \<times> request_world" where
  "sample_execution = execute sample_net_env (lit ''p'') sample_http_request sample_world"

lemma sample_urls_read_back: "urls_read_back sample_urls"
proof -
  have "u_text (sample_url ''https'' ''a.com'') = lit ''https://a.com''" "u_text (sample_url ''https'' ''b.com'') = lit ''https://b.com''"
    by (simp_all add: sample_url_def)
  then show ?thesis by (auto simp: urls_read_back_def sample_urls_def)
qed

lemma sample_execution_sent:
  "map (\<lambda>r. (u_host_str (sr_url r), sr_headers r)) (rw_sent (snd sample_execution)) =
     [(Some (lit ''a.com''), [(lit ''Cookie'', lit ''x'')]), (Some (lit ''b.com''), [])]"
  by code_simp


section \<open>Hosts of DLsite\<close>

text \<open>The hosts that get the browser headers and cookies kept for DLsite are its two domains and the names below
  them: the domain comes at the end of the name, after a dot.\<close>

lemma dlsite_hosts:
  "is_dlsite_host host \<longleftrightarrow>
     (\<exists>apex \<in> {lit ''dlsite.com'', lit ''dlsite.jp''}. host = apex \<or> (\<exists>sub. host = sub @ dot # apex))"
proof -
  have "(case strip_suffix host apex of None \<Rightarrow> False | Some pre \<Rightarrow> ends_with pre [dot]) \<longleftrightarrow> (\<exists>sub. host = sub @ dot # apex)" for apex
    by (auto simp: strip_suffix_def ends_with_iff split: if_splits)
  then show ?thesis by (simp add: is_dlsite_host_def)
qed

end
