(* ===== verification/Response_Body.thy ===== *)
theory Response_Body
  imports Plugin_Request "HOL-Library.Sublist"
begin

text \<open>
  How \<^verbatim>\<open>crates/network/src/features/request/client.rs\<close> reads the body of an answer: into memory, up to a limit,
  or into a writer, resuming at a byte.

  A chunk is shorter than a vector can be, so lengths are natural numbers and every checked sum keeps its test. The
  allocator and the writer are parameters: the first answers with the capacity it gives, the second may fail after some
  of the bytes.
\<close>

section \<open>Content ranges\<close>

record content_range =
  cr_start :: nat
  cr_end :: nat
  cr_total :: nat

abbreviation dash :: uchar where
  "dash \<equiv> 45"

definition parse_decimal :: "str \<Rightarrow> nat option" where
  "parse_decimal s = (if s = [] \<or> \<not> list_all is_ascii_digit s then None else parse_u64 s)"

definition range_of :: "nat \<Rightarrow> nat \<Rightarrow> nat \<Rightarrow> content_range option" where
  "range_of first fin tot =
     (if fin \<ge> first \<and> tot > fin then Some \<lparr>cr_start = first, cr_end = fin, cr_total = tot\<rparr> else None)"

definition parse_content_range :: "str \<Rightarrow> content_range option" where
  "parse_content_range header =
     Option.bind (strip_prefix header (lit ''bytes '')) (\<lambda>value.
     Option.bind (split_once slash value) (\<lambda>(bounds, tot).
     Option.bind (split_once dash bounds) (\<lambda>(first, fin).
     Option.bind (parse_decimal first) (\<lambda>first.
     Option.bind (parse_decimal fin) (\<lambda>fin.
     Option.bind (parse_decimal tot) (\<lambda>tot. range_of first fin tot))))))"

definition declared_length :: "content_range \<Rightarrow> nat" where
  "declared_length r = cr_end r - cr_start r + 1"

section \<open>Buffered bodies\<close>

record buffer =
  bf_body :: "u8 list"
  bf_capacity :: nat
  bf_asked :: "nat list"  \<comment> \<open>the capacities asked for\<close>

text \<open>The allocator answers with a capacity, or not at all.\<close>

definition reserve_buffered_response_capacity :: "(nat \<Rightarrow> nat option) \<Rightarrow> nat \<Rightarrow> nat \<Rightarrow> buffer \<Rightarrow> (http_error + unit) \<times> buffer" where
  "reserve_buffered_response_capacity alloc required_length limit b =
     (if required_length \<le> bf_capacity b then (Inr (), b)
      else
        let doubled = min (nat (min (2 * int (bf_capacity b)) (U64_END - 1))) limit;
            target = max doubled required_length;
            b = b\<lparr>bf_asked := bf_asked b @ [target]\<rparr>
        in case alloc target of
          None \<Rightarrow> (Inl (RequestFailed BodyAllocationFailed), b)
        | Some c \<Rightarrow> (Inr (), b\<lparr>bf_capacity := c\<rparr>))"

fun read_chunks :: "(nat \<Rightarrow> nat option) \<Rightarrow> nat \<Rightarrow> body_event list \<Rightarrow> buffer \<Rightarrow> (http_error + unit) \<times> buffer" where
  "read_chunks alloc limit [] b = (Inr (), b)"
| "read_chunks alloc limit (ChunkFailed # es) b = (Inl (RequestFailed BodyReadFailed), b)"
| "read_chunks alloc limit (Chunk c # es) b =
     (let next_length = length (bf_body b) + length c in
      if int next_length \<ge> U64_END then (Inl (ResponseTooLarge limit), b)
      else if next_length > limit then (Inl (ResponseTooLarge limit), b)
      else case reserve_buffered_response_capacity alloc next_length limit b of
        (Inl e, b) \<Rightarrow> (Inl e, b)
      | (Inr _, b) \<Rightarrow> read_chunks alloc limit es (b\<lparr>bf_body := bf_body b @ c\<rparr>))"

definition read_buffered_response_with_limit :: "(nat \<Rightarrow> nat option) \<Rightarrow> http_answer \<Rightarrow> nat \<Rightarrow> (http_error + u8 list) \<times> nat list" where
  "read_buffered_response_with_limit alloc response limit =
     (if (case an_content_length response of None \<Rightarrow> False | Some n \<Rightarrow> n > limit) then (Inl (ResponseTooLarge limit), [])
      else case read_chunks alloc limit (an_body response) \<lparr>bf_body = [], bf_capacity = 0, bf_asked = []\<rparr> of
        (Inl e, b) \<Rightarrow> (Inl e, bf_asked b)
      | (Inr _, b) \<Rightarrow> (Inr (bf_body b), bf_asked b))"

record http_response =
  hr_status_code :: u16
  hr_headers :: headers
  hr_body :: "u8 list"
  hr_content_type :: "str option"

text \<open>The headers that are text. When a name comes twice the map keeps its last value.\<close>

definition text_headers :: "http_answer \<Rightarrow> headers" where
  "text_headers response = fold (\<lambda>(k, v) hs. AList.update k v hs)
     (List.map_filter (\<lambda>(k, v). map_option (Pair k) v) (an_headers response)) []"

definition buffered_response_with_limit :: "(nat \<Rightarrow> nat option) \<Rightarrow> http_answer \<Rightarrow> nat \<Rightarrow> http_error + http_response" where
  "buffered_response_with_limit alloc response limit =
     (let hs = text_headers response in
      res_bind (fst (read_buffered_response_with_limit alloc response limit)) (\<lambda>body.
        Inr \<lparr>hr_status_code = an_status response, hr_headers = hs, hr_body = body,
          hr_content_type = map_of hs (lit ''content-type'')\<rparr>))"

definition MAX_PLUGIN_BUFFERED_RESPONSE_BYTES :: nat where
  "MAX_PLUGIN_BUFFERED_RESPONSE_BYTES = 50 * 1024 * 1024"

section \<open>Streamed bodies\<close>

text \<open>\<^verbatim>\<open>write_all\<close> fails after some of the bytes, or writes them all.\<close>

record sink_env =
  se_write :: "nat \<Rightarrow> nat option"
  se_flush :: "nat \<Rightarrow> bool"

record sink =
  sk_bytes :: "u8 list"
  sk_step :: nat

definition write_all :: "sink_env \<Rightarrow> u8 list \<Rightarrow> sink \<Rightarrow> bool \<times> sink" where
  "write_all env bs s =
     (case se_write env (sk_step s) of
        None \<Rightarrow> (True, s\<lparr>sk_bytes := sk_bytes s @ bs, sk_step := Suc (sk_step s)\<rparr>)
      | Some n \<Rightarrow> (False, s\<lparr>sk_bytes := sk_bytes s @ take n bs, sk_step := Suc (sk_step s)\<rparr>))"

datatype stream_error =
    StreamStatus u16
  | UnsupportedStatus u16
  | RangeNotRequested
  | RangeMissing
  | RangeNotText
  | RangeInvalid str
  | RangeStart nat nat
  | LengthInvalid
  | LengthMismatch nat nat
  | MetadataRefused str
  | ChunkNotRead
  | CountOverflowed
  | LengthExceeded
  | BodyExceeds nat nat
  | WriterFailed
  | FlushFailed
  | BodyShort nat nat

record streaming_response_metadata =
  md_validated_url :: str
  md_was_partial :: bool
  md_etag :: "str option"
  md_last_modified :: "str option"
  md_range_start :: "nat option"
  md_total_size :: "nat option"
  md_expected_body_length :: "nat option"

record streaming_download =
  sd_bytes_written :: nat
  sd_was_partial :: bool
  sd_etag :: "str option"
  sd_last_modified :: "str option"
  sd_total_size :: "nat option"

definition is_success :: "u16 \<Rightarrow> bool" where
  "is_success s \<longleftrightarrow> 200 \<le> s \<and> s < 300"

text \<open>A header as text: \<^verbatim>\<open>get\<close>, then \<^verbatim>\<open>to_str\<close>.\<close>

definition header_text :: "http_answer \<Rightarrow> string \<Rightarrow> str option" where
  "header_text response name = (case map_of (an_headers response) (lit name) of None \<Rightarrow> None | Some v \<Rightarrow> v)"

text \<open>The range of a partial answer, checked against the request and the declared length.\<close>

definition partial_range :: "http_answer \<Rightarrow> nat option \<Rightarrow> stream_error + content_range" where
  "partial_range response requested_start =
     res_bind (ok_or requested_start RangeNotRequested) (\<lambda>first.
     res_bind (ok_or (map_of (an_headers response) (lit ''content-range'')) RangeMissing) (\<lambda>value.
     res_bind (ok_or value RangeNotText) (\<lambda>header.
     res_bind (ok_or (parse_content_range header) (RangeInvalid header)) (\<lambda>rg.
       if cr_start rg \<noteq> first then Inl (RangeStart (cr_start rg) first)
       else case map_of (an_headers response) (lit ''content-length'') of
         None \<Rightarrow> Inr rg
       | Some value \<Rightarrow>
           res_bind (ok_or (Option.bind value parse_u64) LengthInvalid) (\<lambda>content_length.
             if content_length \<noteq> declared_length rg then Inl (LengthMismatch content_length (declared_length rg))
             else Inr rg)))))"

definition stream_range :: "http_answer \<Rightarrow> nat option \<Rightarrow> stream_error + content_range option" where
  "stream_range response requested_start =
     (let s = an_status response in
      if \<not> is_success s then Inl (StreamStatus s)
      else if s = 200 then Inr None
      else if s = 206 then res_bind (partial_range response requested_start) (\<lambda>r. Inr (Some r))
      else Inl (UnsupportedStatus s))"

definition stream_metadata :: "http_answer \<Rightarrow> content_range option \<Rightarrow> streaming_response_metadata" where
  "stream_metadata response rg =
     (let total_size = (case rg of Some r \<Rightarrow> Some (cr_total r)
            | None \<Rightarrow> Option.bind (header_text response ''content-length'') parse_u64)
      in \<lparr>md_validated_url = an_url response, md_was_partial = (an_status response = 206),
          md_etag = header_text response ''etag'', md_last_modified = header_text response ''last-modified'',
          md_range_start = map_option cr_start rg, md_total_size = total_size,
          md_expected_body_length = (case rg of Some r \<Rightarrow> Some (declared_length r) | None \<Rightarrow> total_size)\<rparr>)"

fun write_chunks_to :: "sink_env \<Rightarrow> nat option \<Rightarrow> nat \<Rightarrow> body_event list \<Rightarrow> sink \<Rightarrow> (stream_error + nat) \<times> sink" where
  "write_chunks_to env declared written [] s = (Inr written, s)"
| "write_chunks_to env declared written (ChunkFailed # es) s = (Inl ChunkNotRead, s)"
| "write_chunks_to env declared written (Chunk c # es) s =
     (if int (written + length c) \<ge> U64_END then (Inl CountOverflowed, s)
      else if (case declared of None \<Rightarrow> False | Some d \<Rightarrow> written > d) then (Inl LengthExceeded, s)
      else if (case declared of None \<Rightarrow> False | Some d \<Rightarrow> length c > d - written) then
        let remaining = (case declared of None \<Rightarrow> 0 | Some d \<Rightarrow> d - written) in
        if remaining > 0 then
          case write_all env (take remaining c) s of
            (ok, s) \<Rightarrow> (Inl (if ok then BodyExceeds (length c) remaining else WriterFailed), s)
        else (Inl (BodyExceeds (length c) remaining), s)
      else case write_all env c s of
        (ok, s) \<Rightarrow> if \<not> ok then (Inl WriterFailed, s) else write_chunks_to env declared (written + length c) es s)"

definition write_streaming_response ::
    "sink_env \<Rightarrow> http_answer \<Rightarrow> nat option \<Rightarrow> (streaming_response_metadata \<Rightarrow> str + unit) \<Rightarrow> sink
      \<Rightarrow> (stream_error + streaming_download) \<times> sink" where
  "write_streaming_response env response requested_start on_metadata s =
     (case stream_range response requested_start of
        Inl e \<Rightarrow> (Inl e, s)
      | Inr rg \<Rightarrow>
          let metadata = stream_metadata response rg in
          case on_metadata metadata of
            Inl e \<Rightarrow> (Inl (MetadataRefused e), s)
          | Inr _ \<Rightarrow>
              (case write_chunks_to env (map_option declared_length rg) 0 (an_body response) s of
                 (Inl e, s) \<Rightarrow> (Inl e, s)
               | (Inr written, s) \<Rightarrow>
                   if \<not> se_flush env (sk_step s) then (Inl FlushFailed, s)
                   else case rg of
                     Some r \<Rightarrow>
                       if written \<noteq> declared_length r then (Inl (BodyShort written (declared_length r)), s)
                       else (Inr \<lparr>sd_bytes_written = written, sd_was_partial = md_was_partial metadata, sd_etag = md_etag metadata,
                         sd_last_modified = md_last_modified metadata, sd_total_size = md_total_size metadata\<rparr>, s)
                   | None \<Rightarrow>
                       (Inr \<lparr>sd_bytes_written = written, sd_was_partial = md_was_partial metadata, sd_etag = md_etag metadata,
                         sd_last_modified = md_last_modified metadata, sd_total_size = md_total_size metadata\<rparr>, s)))"

section \<open>Requests of a plugin\<close>

definition get_request :: "str \<Rightarrow> http_request" where
  "get_request url = \<lparr>rq_url = url, rq_method = Get, rq_headers = [], rq_body = None\<rparr>"

definition blocking_get_for_plugin_with_limit ::
    "net_env \<Rightarrow> (nat \<Rightarrow> nat option) \<Rightarrow> str \<Rightarrow> str \<Rightarrow> nat \<Rightarrow> u8 list net" where
  "blocking_get_for_plugin_with_limit env alloc plugin_id url limit =
     st_bind (execute env plugin_id (get_request url)) (\<lambda>response.
       if \<not> is_success (an_status response) then st_lift (Inl (RequestFailed (StatusNotSuccess (an_status response))))
       else st_lift (fst (read_buffered_response_with_limit alloc response limit)))"

definition blocking_get_response_for_plugin_with_limit ::
    "net_env \<Rightarrow> (nat \<Rightarrow> nat option) \<Rightarrow> str \<Rightarrow> str \<Rightarrow> nat \<Rightarrow> http_response net" where
  "blocking_get_response_for_plugin_with_limit env alloc plugin_id url limit =
     st_bind (execute env plugin_id (get_request url)) (\<lambda>response.
       st_lift (buffered_response_with_limit alloc response limit))"

definition streaming_request :: "str \<Rightarrow> nat option \<Rightarrow> str option \<Rightarrow> http_request" where
  "streaming_request url start_byte if_match =
     (get_request url)\<lparr>rq_headers :=
       (case start_byte of None \<Rightarrow> [] | Some n \<Rightarrow> [(lit ''Range'', lit ''bytes='' @ nat_digits n @ [dash])])
       @ (case if_match of None \<Rightarrow> [] | Some etag \<Rightarrow> [(lit ''If-Match'', etag)])\<rparr>"

definition blocking_get_streaming_for_plugin_with_metadata ::
    "net_env \<Rightarrow> sink_env \<Rightarrow> str \<Rightarrow> str \<Rightarrow> nat option \<Rightarrow> str option \<Rightarrow> (streaming_response_metadata \<Rightarrow> str + unit)
      \<Rightarrow> request_world \<times> sink \<Rightarrow> ((http_error + stream_error) + streaming_download) \<times> request_world \<times> sink" where
  "blocking_get_streaming_for_plugin_with_metadata env senv plugin_id url start_byte if_match on_metadata = (\<lambda>(w, s).
     case execute env plugin_id (streaming_request url start_byte if_match) w of
       (Inl e, w) \<Rightarrow> (Inl (Inl e), w, s)
     | (Inr response, w) \<Rightarrow>
         (case write_streaming_response senv response start_byte on_metadata s of
            (Inl e, s) \<Rightarrow> (Inl (Inr e), w, s) | (Inr d, s) \<Rightarrow> (Inr d, w, s)))"

section \<open>What a body holds\<close>

fun body_bytes :: "body_event list \<Rightarrow> u8 list" where
  "body_bytes [] = []"
| "body_bytes (Chunk c # es) = c @ body_bytes es"
| "body_bytes (ChunkFailed # es) = []"

definition body_ends :: "body_event list \<Rightarrow> bool" where
  "body_ends es \<longleftrightarrow> ChunkFailed \<notin> set es"

lemma body_ends_simps [simp]: "body_ends []" "body_ends (Chunk c # es) \<longleftrightarrow> body_ends es" "\<not> body_ends (ChunkFailed # es)"
  by (auto simp: body_ends_def)

section \<open>In memory\<close>

lemma reserve_within_limit:
  assumes "reserve_buffered_response_capacity alloc n limit b = (r, b')" "n \<le> limit" "\<forall>x \<in> set (bf_asked b). x \<le> limit"
  shows "bf_body b' = bf_body b" "\<forall>x \<in> set (bf_asked b'). x \<le> limit"
    "(\<forall>x \<le> limit. alloc x \<noteq> None) \<Longrightarrow> r = Inr ()"
proof -
  let ?t = "max (min (nat (min (2 * int (bf_capacity b)) (U64_END - 1))) limit) n"
  have t: "?t \<le> limit" using assms(2) by simp
  show "bf_body b' = bf_body b" "\<forall>x \<in> set (bf_asked b'). x \<le> limit"
    using assms t unfolding reserve_buffered_response_capacity_def Let_def by (auto split: if_splits option.splits)
  assume "\<forall>x \<le> limit. alloc x \<noteq> None"
  then have "alloc ?t \<noteq> None" using t by blast
  then show "r = Inr ()" using assms(1) unfolding reserve_buffered_response_capacity_def Let_def
    by (auto split: if_splits option.splits)
qed

lemma read_chunks_within_limit:
  assumes "read_chunks alloc limit es b = (r, b')" "length (bf_body b) \<le> limit" "\<forall>x \<in> set (bf_asked b). x \<le> limit"
  shows "\<forall>x \<in> set (bf_asked b'). x \<le> limit"
    and "r = Inr () \<Longrightarrow> body_ends es \<and> bf_body b' = bf_body b @ body_bytes es \<and> length (bf_body b') \<le> limit"
    and "body_ends es \<Longrightarrow> length (bf_body b @ body_bytes es) \<le> limit \<Longrightarrow> int limit < U64_END \<Longrightarrow>
      (\<forall>x \<le> limit. alloc x \<noteq> None) \<Longrightarrow> r = Inr ()"
proof -
  have "(\<forall>x \<in> set (bf_asked b'). x \<le> limit)
    \<and> (r = Inr () \<longrightarrow> body_ends es \<and> bf_body b' = bf_body b @ body_bytes es \<and> length (bf_body b') \<le> limit)
    \<and> (body_ends es \<and> length (bf_body b @ body_bytes es) \<le> limit \<and> int limit < U64_END \<and> (\<forall>x \<le> limit. alloc x \<noteq> None) \<longrightarrow> r = Inr ())"
    using assms
  proof (induction es arbitrary: b)
    case (Cons e es)
    show ?case
    proof (cases e)
      case ChunkFailed
      then show ?thesis using Cons.prems by auto
    next
      case (Chunk c)
      let ?n = "length (bf_body b) + length c"
      show ?thesis
      proof (cases "int ?n \<ge> U64_END \<or> ?n > limit")
        case True
        then show ?thesis using Cons.prems Chunk by (auto simp: Let_def split: if_splits)
      next
        case fits: False
        obtain r1 b1 where res: "reserve_buffered_response_capacity alloc ?n limit b = (r1, b1)" by fastforce
        have n: "?n \<le> limit" using fits by simp
        note kept = reserve_within_limit [OF res n Cons.prems(3)]
        show ?thesis
        proof (cases r1)
          case (Inl x)
          then show ?thesis using Cons.prems Chunk fits res kept by (auto simp: Let_def)
        next
          case (Inr x)
          then have run: "read_chunks alloc limit es (b1\<lparr>bf_body := bf_body b1 @ c\<rparr>) = (r, b')"
            using Cons.prems(1) Chunk fits res by (simp add: Let_def)
          then show ?thesis using Cons.IH [OF run] n kept Chunk by auto
        qed
      qed
    qed
  qed simp
  then show "\<forall>x \<in> set (bf_asked b'). x \<le> limit"
    and "r = Inr () \<Longrightarrow> body_ends es \<and> bf_body b' = bf_body b @ body_bytes es \<and> length (bf_body b') \<le> limit"
    and "body_ends es \<Longrightarrow> length (bf_body b @ body_bytes es) \<le> limit \<Longrightarrow> int limit < U64_END \<Longrightarrow>
      (\<forall>x \<le> limit. alloc x \<noteq> None) \<Longrightarrow> r = Inr ()" by blast+
qed

text \<open>A body is read into memory only up to the limit: no more memory than the limit is ever asked for, a body that is
  returned is the whole body and no longer than the limit, and a body that arrives completely, declares no more than
  the limit and fits into it is returned whenever the allocator gives what it is asked for.\<close>

theorem buffered_body_within_limit:
  assumes "read_buffered_response_with_limit alloc response limit = (res, asked)" "int limit < U64_END"
  shows "(\<forall>n \<in> set asked. n \<le> limit)
    \<and> (\<forall>body. res = Inr body \<longrightarrow> body_ends (an_body response) \<and> body = body_bytes (an_body response) \<and> length body \<le> limit)
    \<and> (body_ends (an_body response) \<and> length (body_bytes (an_body response)) \<le> limit
        \<and> (\<forall>n. an_content_length response = Some n \<longrightarrow> n \<le> limit) \<and> (\<forall>n \<le> limit. alloc n \<noteq> None)
       \<longrightarrow> res = Inr (body_bytes (an_body response)))"
proof (cases "\<exists>n. an_content_length response = Some n \<and> n > limit")
  case True
  then show ?thesis using assms(1) by (auto simp: read_buffered_response_with_limit_def)
next
  case False
  let ?b = "\<lparr>bf_body = [], bf_capacity = 0, bf_asked = []\<rparr>"
  obtain r b where run: "read_chunks alloc limit (an_body response) ?b = (r, b)" by fastforce
  have "read_buffered_response_with_limit alloc response limit
      = (case r of Inl e \<Rightarrow> (Inl e, bf_asked b) | Inr _ \<Rightarrow> (Inr (bf_body b), bf_asked b))"
    using False run by (auto simp: read_buffered_response_with_limit_def split: option.splits)
  then have res: "asked = bf_asked b" "res = (case r of Inl e \<Rightarrow> Inl e | Inr _ \<Rightarrow> Inr (bf_body b))"
    using assms(1) by (auto split: sum.splits)
  note read = read_chunks_within_limit [OF run, simplified]
  show ?thesis
  proof (intro conjI impI allI)
    show "\<forall>n \<in> set asked. n \<le> limit" using read(1) by (simp add: res)
    show "body_ends (an_body response)" "body = body_bytes (an_body response)" "length body \<le> limit" if "res = Inr body" for body
      using that read(2) by (auto simp: res split: sum.splits)
    assume "body_ends (an_body response) \<and> length (body_bytes (an_body response)) \<le> limit
        \<and> (\<forall>n. an_content_length response = Some n \<longrightarrow> n \<le> limit) \<and> (\<forall>n \<le> limit. alloc n \<noteq> None)"
    then have "r = Inr ()" using read(3) assms(2) by auto
    then show "res = Inr (body_bytes (an_body response))" using read(2) by (simp add: res)
  qed
qed

definition sample_answer :: http_answer where
  "sample_answer = \<lparr>an_url = lit ''https://a.com'', an_status = 206,
     an_headers = [(lit ''content-range'', Some (lit ''bytes 2-6/7'')), (lit ''content-length'', Some (lit ''5''))],
     an_content_length = Some 5, an_body = [Chunk [1, 2], Chunk [3, 4, 5]]\<rparr>"

theorem buffered_body_within_limit_witness:
  "read_buffered_response_with_limit Some sample_answer 5 = (Inr [1, 2, 3, 4, 5], [2, 5]) \<and> list_all (\<lambda>n. n \<le> 5) [2, 5 :: nat]"
proof -
  have run: "read_buffered_response_with_limit Some sample_answer 5 = (Inr [1, 2, 3, 4, 5], [2, 5])" by code_simp
  have "int 5 < U64_END" by (simp add: U64_END_def)
  then show ?thesis using buffered_body_within_limit [OF run] run by (simp add: list_all_iff)
qed

section \<open>Into a writer\<close>

lemma write_all_prefix: "write_all env bs s = (ok, s') \<Longrightarrow> \<exists>new. sk_bytes s' = sk_bytes s @ new \<and> prefix new bs \<and> (ok \<longrightarrow> new = bs)"
  by (auto simp: write_all_def take_is_prefix split: option.splits)

lemma write_chunks_to_prefix:
  assumes "write_chunks_to env declared written es s = (r, s')" "\<forall>d. declared = Some d \<longrightarrow> written \<le> d"
  shows "\<exists>new. sk_bytes s' = sk_bytes s @ new \<and> prefix new (body_bytes es) \<and> (\<forall>d. declared = Some d \<longrightarrow> written + length new \<le> d)
    \<and> (\<forall>n. r = Inr n \<longrightarrow> body_ends es \<and> new = body_bytes es \<and> n = written + length new)"
  using assms
proof (induction es arbitrary: written s)
  case (Cons e es)
  show ?case
  proof (cases e)
    case ChunkFailed
    then show ?thesis using Cons.prems by auto
  next
    case (Chunk c)
    let ?over = "case declared of None \<Rightarrow> False | Some d \<Rightarrow> length c > d - written"
    consider (stop) x where "r = Inl x" "s' = s"
      | (cut) d x ok where "declared = Some d" "r = Inl x" "write_all env (take (d - written) c) s = (ok, s')"
      | (failed) x where "\<not> ?over" "r = Inl x" "write_all env c s = (False, s')"
      | (more) s1 where "\<not> ?over" "write_all env c s = (True, s1)" "write_chunks_to env declared (written + length c) es s1 = (r, s')"
      using Cons.prems(1) Chunk by (auto simp: Let_def split: if_splits option.splits prod.splits)
    then show ?thesis
    proof cases
      case stop
      then show ?thesis using Cons.prems(2) by auto
    next
      case cut
      obtain new where new: "sk_bytes s' = sk_bytes s @ new" "prefix new (take (d - written) c)" using write_all_prefix [OF cut(3)] by blast
      then have "prefix new (body_bytes (e # es))" "length new \<le> d - written"
        using Chunk prefix_order.trans [OF new(2) take_is_prefix] prefix_length_le [OF new(2)] by auto
      then show ?thesis using new(1) cut Cons.prems(2) by auto
    next
      case failed
      obtain new where new: "sk_bytes s' = sk_bytes s @ new" "prefix new c" using write_all_prefix [OF failed(3)] by blast
      then have "prefix new (body_bytes (e # es))" "\<forall>d. declared = Some d \<longrightarrow> written + length new \<le> d"
        using Chunk failed(1) Cons.prems(2) prefix_length_le [OF new(2)] by auto
      then show ?thesis using new(1) failed(2) by blast
    next
      case more
      have s1: "sk_bytes s1 = sk_bytes s @ c" using write_all_prefix [OF more(2)] by auto
      obtain new where "sk_bytes s' = sk_bytes s1 @ new" "prefix new (body_bytes es)"
          "\<forall>d. declared = Some d \<longrightarrow> written + length c + length new \<le> d"
          "\<forall>n. r = Inr n \<longrightarrow> body_ends es \<and> new = body_bytes es \<and> n = written + length c + length new"
        using Cons.IH [OF more(3)] more(1) Cons.prems(2) by (fastforce split: option.splits)
      then show ?thesis using Chunk s1 by (intro exI [of _ "c @ new"]) auto
    qed
  qed
qed auto

text \<open>What the header of an accepted range says.\<close>

lemma digits_no_mark: "parse_decimal s = Some n \<Longrightarrow> dash \<notin> set s \<and> slash \<notin> set s"
  by (auto simp: parse_decimal_def list_all_iff is_ascii_digit_def split: if_splits)

lemma parse_content_range_iff:
  "parse_content_range header = Some r \<longleftrightarrow>
     (\<exists>a b c. header = lit ''bytes '' @ a @ dash # b @ slash # c \<and> parse_decimal a = Some (cr_start r)
        \<and> parse_decimal b = Some (cr_end r) \<and> parse_decimal c = Some (cr_total r)
        \<and> cr_start r \<le> cr_end r \<and> cr_end r < cr_total r)" (is "_ = ?form")
proof
  assume "parse_content_range header = Some r"
  then obtain a b c bounds where "header = lit ''bytes '' @ bounds @ slash # c" "bounds = a @ dash # b"
    and "parse_decimal a = Some (cr_start r)" "parse_decimal b = Some (cr_end r)" "parse_decimal c = Some (cr_total r)"
      "cr_start r \<le> cr_end r" "cr_end r < cr_total r"
    by (auto simp: parse_content_range_def strip_prefix_eq_Some split_once_eq_Some range_of_def bind_eq_Some_conv simp del: lit_Cons split: if_splits)
  then show ?form by auto
next
  assume ?form
  then obtain a b c where h: "header = lit ''bytes '' @ a @ dash # b @ slash # c"
    and a: "parse_decimal a = Some (cr_start r)" and b: "parse_decimal b = Some (cr_end r)"
    and c: "parse_decimal c = Some (cr_total r)" and ord: "cr_start r \<le> cr_end r" "cr_end r < cr_total r" by blast
  have 1: "strip_prefix header (lit ''bytes '') = Some (a @ dash # b @ slash # c)" by (simp add: strip_prefix_eq_Some h)
  have 2: "split_once slash (a @ dash # b @ slash # c) = Some (a @ dash # b, c)"
    using digits_no_mark [OF a] digits_no_mark [OF b] by (simp add: split_once_eq_Some)
  have 3: "split_once dash (a @ dash # b) = Some (a, b)" using digits_no_mark [OF a] by (simp add: split_once_eq_Some)
  show "parse_content_range header = Some r"
    using ord by (simp add: parse_content_range_def 1 2 3 a b c range_of_def del: lit_Cons)
qed

lemma parse_decimal_bound: "parse_decimal s = Some n \<Longrightarrow> int n < U64_END"
  by (auto simp: parse_decimal_def parse_u64_def Let_def split: if_splits list.splits)

lemma stream_range_partial:
  assumes "stream_range response requested = Inr rg"
  shows "(an_status response = 206 \<and> (\<exists>r h. rg = Some r \<and> requested = Some (cr_start r)
      \<and> map_of (an_headers response) (lit ''content-range'') = Some (Some h) \<and> parse_content_range h = Some r))
    \<or> (an_status response = 200 \<and> rg = None)"
  using assms by (auto simp: stream_range_def partial_range_def Let_def res_simps split: if_splits option.splits)

text \<open>C31. What a download that resumes puts into its file. Only a beginning of the body is written, and only after the headers
  were accepted and the caller agreed to what they say. A partial answer starts at the byte that was asked for, never
  writes past the range its header declares, and so never past the end of the resource. When the download succeeds the
  body arrived completely and all of it is written, and a partial one filled the declared range exactly.\<close>

theorem streaming_writes_declared_range:
  assumes "write_streaming_response env response requested on_metadata s = (res, s')"
  shows "\<exists>new. sk_bytes s' = sk_bytes s @ new \<and> prefix new (body_bytes (an_body response))
    \<and> (new \<noteq> [] \<longrightarrow> (\<exists>rg. stream_range response requested = Inr rg \<and> on_metadata (stream_metadata response rg) = Inr ()))
    \<and> (new \<noteq> [] \<and> an_status response \<noteq> 200 \<longrightarrow> (\<exists>h r. map_of (an_headers response) (lit ''content-range'') = Some (Some h)
         \<and> parse_content_range h = Some r \<and> requested = Some (cr_start r)
         \<and> length new \<le> declared_length r \<and> cr_start r + length new \<le> cr_total r))
    \<and> (\<forall>d. res = Inr d \<longrightarrow> body_ends (an_body response) \<and> new = body_bytes (an_body response) \<and> sd_bytes_written d = length new
         \<and> (sd_was_partial d \<longrightarrow> (\<exists>h r. map_of (an_headers response) (lit ''content-range'') = Some (Some h)
              \<and> parse_content_range h = Some r \<and> length new = declared_length r \<and> sd_total_size d = Some (cr_total r))))"
proof (cases "\<exists>rg. stream_range response requested = Inr rg \<and> on_metadata (stream_metadata response rg) = Inr ()")
  case False
  then have "s' = s \<and> (\<exists>e. res = Inl e)"
    using assms by (auto simp: write_streaming_response_def Let_def split: sum.splits)
  then show ?thesis by auto
next
  case True
  then obtain rg where rg: "stream_range response requested = Inr rg" and agreed: "on_metadata (stream_metadata response rg) = Inr ()" by blast
  obtain r1 s1 where run: "write_chunks_to env (map_option declared_length rg) 0 (an_body response) s = (r1, s1)" by fastforce
  obtain new where new: "sk_bytes s1 = sk_bytes s @ new" "prefix new (body_bytes (an_body response))"
      "\<forall>d. map_option declared_length rg = Some d \<longrightarrow> length new \<le> d"
      "\<forall>n. r1 = Inr n \<longrightarrow> body_ends (an_body response) \<and> new = body_bytes (an_body response) \<and> n = length new"
    using write_chunks_to_prefix [OF run] by auto
  have partial: "md_was_partial (stream_metadata response rg) = (an_status response = 206)" by (simp add: stream_metadata_def Let_def)
  have s': "s' = s1" and res: "\<forall>d. res = Inr d \<longrightarrow> r1 = Inr (sd_bytes_written d) \<and> sd_was_partial d = (an_status response = 206)
      \<and> sd_total_size d = md_total_size (stream_metadata response rg) \<and> (\<forall>r. rg = Some r \<longrightarrow> sd_bytes_written d = declared_length r)"
    using assms partial by (auto simp: write_streaming_response_def Let_def rg agreed run split: sum.splits if_splits option.splits)
  note kind = stream_range_partial [OF rg]
  have stays: "cr_start r + n \<le> cr_total r" if "parse_content_range h = Some r" "n \<le> declared_length r" for h r n
    using that by (auto simp: parse_content_range_iff declared_length_def)
  show ?thesis
  proof (intro exI [of _ new] conjI impI allI)
    show "sk_bytes s' = sk_bytes s @ new" "prefix new (body_bytes (an_body response))" using new s' by simp_all
    show "\<exists>rg. stream_range response requested = Inr rg \<and> on_metadata (stream_metadata response rg) = Inr ()" using rg agreed by blast
    show "\<exists>h r. map_of (an_headers response) (lit ''content-range'') = Some (Some h)
         \<and> parse_content_range h = Some r \<and> requested = Some (cr_start r)
         \<and> length new \<le> declared_length r \<and> cr_start r + length new \<le> cr_total r" if "new \<noteq> [] \<and> an_status response \<noteq> 200"
      using kind that new(3) stays by auto
    fix d assume d: "res = Inr d"
    show "body_ends (an_body response)" "new = body_bytes (an_body response)" "sd_bytes_written d = length new"
      using res d new(4) by auto
    show "\<exists>h r. map_of (an_headers response) (lit ''content-range'') = Some (Some h)
              \<and> parse_content_range h = Some r \<and> length new = declared_length r \<and> sd_total_size d = Some (cr_total r)" if "sd_was_partial d"
      using kind that res d new(4) by (auto simp: stream_metadata_def Let_def)
  qed
qed

definition sample_sink :: sink where
  "sample_sink = \<lparr>sk_bytes = [8, 9], sk_step = 0\<rparr>"

definition sample_stream :: "(stream_error + streaming_download) \<times> sink" where
  "sample_stream = write_streaming_response \<lparr>se_write = (\<lambda>_. None), se_flush = (\<lambda>_. True)\<rparr> sample_answer (Some 2)
     (\<lambda>m. if md_expected_body_length m = Some 5 then Inr () else Inl (lit ''length'')) sample_sink"

theorem streaming_writes_declared_range_witness:
  "sample_stream = (Inr \<lparr>sd_bytes_written = 5, sd_was_partial = True, sd_etag = None, sd_last_modified = None, sd_total_size = Some 7\<rparr>,
     \<lparr>sk_bytes = [8, 9, 1, 2, 3, 4, 5], sk_step = 2\<rparr>)
   \<and> body_ends (an_body sample_answer)"
proof -
  have run: "sample_stream = (Inr \<lparr>sd_bytes_written = 5, sd_was_partial = True, sd_etag = None, sd_last_modified = None, sd_total_size = Some 7\<rparr>,
     \<lparr>sk_bytes = [8, 9, 1, 2, 3, 4, 5], sk_step = 2\<rparr>)" by code_simp
  show ?thesis using streaming_writes_declared_range [OF run [unfolded sample_stream_def]] run by auto
qed

end
