(* ===== verification/Request_Tracking.thy ===== *)
theory Request_Tracking
  imports Response_Body
begin

text \<open>
  The requests that run in the background of \<^verbatim>\<open>crates/network/src/features/request/client.rs\<close>: a map from
  identifiers to completions, which the tasks of the requests share with it. A completion outlives its entry, as the
  task holds it, so completions and entries are kept apart. An identifier contains a counter and is new when it is
  given out.
\<close>

section \<open>Statuses\<close>

datatype request_status = Pending | InProgress | Ready http_response | Failed http_error | StatusCancelled

fun is_pending :: "request_status \<Rightarrow> bool" where
  "is_pending Pending = True"
| "is_pending InProgress = True"
| "is_pending _ = False"

fun is_complete :: "request_status \<Rightarrow> bool" where
  "is_complete (Ready _) = True"
| "is_complete (Failed _) = True"
| "is_complete StatusCancelled = True"
| "is_complete _ = False"

text \<open>\<^verbatim>\<open>RequestCompletion::set\<close>: the first status that is complete stays.\<close>

definition completion_set :: "request_status \<Rightarrow> request_status \<Rightarrow> request_status" where
  "completion_set status current = (if is_complete current then current else status)"

definition response_to_status :: "(nat \<Rightarrow> nat option) \<Rightarrow> http_answer \<Rightarrow> request_status" where
  "response_to_status alloc response =
     (let hs = text_headers response in
      case fst (read_buffered_response_with_limit alloc response MAX_PLUGIN_BUFFERED_RESPONSE_BYTES) of
        Inr body \<Rightarrow> Ready \<lparr>hr_status_code = an_status response, hr_headers = hs, hr_body = body,
          hr_content_type = map_of hs (lit ''content-type'')\<rparr>
      | Inl e \<Rightarrow> Failed e)"

section \<open>The map\<close>

record tracker =
  tk_completions :: "str \<rightharpoonup> request_status"
  tk_pending :: "str list"

definition new_tracker :: tracker where
  "new_tracker = \<lparr>tk_completions = Map.empty, tk_pending = []\<rparr>"

definition start_entry :: "str \<Rightarrow> tracker \<Rightarrow> tracker" where
  "start_entry rid t = t\<lparr>tk_completions := (tk_completions t)(rid \<mapsto> Pending), tk_pending := List.insert rid (tk_pending t)\<rparr>"

definition set_completion :: "str \<Rightarrow> request_status \<Rightarrow> tracker \<Rightarrow> tracker" where
  "set_completion rid status t =
     t\<lparr>tk_completions := (tk_completions t)(rid := map_option (completion_set status) (tk_completions t rid))\<rparr>"

text \<open>\<^verbatim>\<open>AsyncHttpClient::status\<close>.\<close>

definition entry :: "tracker \<Rightarrow> str \<Rightarrow> request_status option" where
  "entry t rid = (if rid \<in> set (tk_pending t) then tk_completions t rid else None)"

definition remove_entry :: "str \<Rightarrow> tracker \<Rightarrow> tracker" where
  "remove_entry rid t = t\<lparr>tk_pending := removeAll rid (tk_pending t)\<rparr>"

definition take_response :: "str \<Rightarrow> tracker \<Rightarrow> request_status option \<times> tracker" where
  "take_response rid t =
     (case entry t rid of
        Some status \<Rightarrow> if is_complete status then (Some status, remove_entry rid t) else (None, t)
      | None \<Rightarrow> (None, t))"

definition cancel_request :: "str \<Rightarrow> tracker \<Rightarrow> tracker" where
  "cancel_request rid t = remove_entry rid (if entry t rid \<noteq> None then set_completion rid StatusCancelled t else t)"

definition pending_count :: "tracker \<Rightarrow> nat" where
  "pending_count t =
     length (filter (\<lambda>rid. case tk_completions t rid of None \<Rightarrow> False | Some s \<Rightarrow> is_pending s) (tk_pending t))"

definition pending_total :: "tracker \<Rightarrow> nat" where
  "pending_total t = length (tk_pending t)"

section \<open>Requests of plugins\<close>

definition request_for_plugin :: "net_env \<Rightarrow> str \<Rightarrow> http_request \<Rightarrow> str \<Rightarrow> plugin_context \<times> tracker \<Rightarrow> (http_error + str) \<times> tracker" where
  "request_for_plugin env plugin_id request rid = (\<lambda>(c, t).
     case res_bind (registered_policy c plugin_id) (\<lambda>_.
       res_bind (validate_plugin_url (ne_urls env) (rq_url request)) (\<lambda>_. validate_plugin_headers (rq_headers request))) of
       Inl e \<Rightarrow> (Inl e, t)
     | Inr _ \<Rightarrow> (Inr rid, start_entry rid t))"

text \<open>The last thing the task of a request does with its completion.\<close>

definition plugin_task_status :: "net_env \<Rightarrow> (nat \<Rightarrow> nat option) \<Rightarrow> str \<Rightarrow> http_request \<Rightarrow> request_world \<Rightarrow> request_status \<times> request_world" where
  "plugin_task_status env alloc plugin_id request w =
     (case execute env plugin_id request w of
        (Inr response, w) \<Rightarrow> (response_to_status alloc response, w) | (Inl e, w) \<Rightarrow> (Failed e, w))"

section \<open>Histories\<close>

text \<open>What clients and tasks do, in the order in which the locks are taken.\<close>

datatype tracker_event = StartRequest str | TaskSet str request_status | TakeResponse str | CancelRequest str

fun tracker_step :: "tracker_event \<Rightarrow> tracker \<Rightarrow> tracker" where
  "tracker_step (StartRequest rid) t = start_entry rid t"
| "tracker_step (TaskSet rid s) t = set_completion rid s t"
| "tracker_step (TakeResponse rid) t = snd (take_response rid t)"
| "tracker_step (CancelRequest rid) t = cancel_request rid t"

definition tracker_run :: "tracker_event list \<Rightarrow> tracker \<Rightarrow> tracker" where
  "tracker_run es t = fold tracker_step es t"

fun taken :: "str \<Rightarrow> tracker_event list \<Rightarrow> tracker \<Rightarrow> request_status list" where
  "taken rid [] t = []"
| "taken rid (e # es) t =
     (case e of
        TakeResponse i \<Rightarrow> (case fst (take_response i t) of Some s \<Rightarrow> if i = rid then [s] else [] | None \<Rightarrow> [])
      | _ \<Rightarrow> []) @ taken rid es (tracker_step e t)"

text \<open>What a client should be given of one request, from what happened to it: the first complete status its task set,
  once, unless the request was cancelled before.\<close>

fun expected :: "str \<Rightarrow> request_status option \<Rightarrow> tracker_event list \<Rightarrow> request_status list" where
  "expected rid final [] = []"
| "expected rid final (StartRequest i # es) = expected rid final es"
| "expected rid final (TaskSet i s # es) =
     (if i = rid \<and> final = None \<and> is_complete s then expected rid (Some s) es else expected rid final es)"
| "expected rid final (TakeResponse i # es) =
     (if i = rid then (case final of Some s \<Rightarrow> [s] | None \<Rightarrow> expected rid final es) else expected rid final es)"
| "expected rid final (CancelRequest i # es) = (if i = rid then [] else expected rid final es)"

fun about :: "tracker_event \<Rightarrow> str" where
  "about (StartRequest i) = i"
| "about (TaskSet i _) = i"
| "about (TakeResponse i) = i"
| "about (CancelRequest i) = i"

lemma tracker_other [simp]:
  "about e \<noteq> rid \<Longrightarrow> tk_completions (tracker_step e t) rid = tk_completions t rid"
  "about e \<noteq> rid \<Longrightarrow> rid \<in> set (tk_pending (tracker_step e t)) \<longleftrightarrow> rid \<in> set (tk_pending t)"
  by (cases e; auto simp: start_entry_def set_completion_def take_response_def cancel_request_def remove_entry_def split: option.splits)+

lemma entry_other: "about e \<noteq> rid \<Longrightarrow> entry (tracker_step e t) rid = entry t rid"
  by (simp add: entry_def)

lemma taken_other: "about e \<noteq> rid \<Longrightarrow> taken rid (e # es) t = taken rid es (tracker_step e t)"
  by (cases e) (auto split: option.splits)

lemma taken_append: "taken rid (es @ fs) t = taken rid es t @ taken rid fs (tracker_run es t)"
  by (induction es arbitrary: t) (auto simp: tracker_run_def)

lemma run_Cons [simp]: "tracker_run (e # es) t = tracker_run es (tracker_step e t)"
  by (simp add: tracker_run_def)

text \<open>Once its entry is gone nothing more is given out.\<close>

lemma taken_gone:
  assumes "rid \<notin> set (tk_pending t)" "StartRequest rid \<notin> set es"
  shows "taken rid es t = []" "rid \<notin> set (tk_pending (tracker_run es t))"
proof -
  have "taken rid es t = [] \<and> rid \<notin> set (tk_pending (tracker_run es t))" using assms
  proof (induction es arbitrary: t)
    case (Cons e es)
    have gone: "rid \<notin> set (tk_pending (tracker_step e t))"
      using Cons.prems by (cases e) (auto simp: start_entry_def set_completion_def take_response_def cancel_request_def remove_entry_def split: option.splits)
    have "fst (take_response rid t) = None" using Cons.prems by (simp add: take_response_def entry_def)
    then have "taken rid (e # es) t = taken rid es (tracker_step e t)" by (cases e) (auto split: option.splits)
    then show ?case using Cons.IH [OF gone] Cons.prems by simp
  qed (simp add: tracker_run_def)
  then show "taken rid es t = []" "rid \<notin> set (tk_pending (tracker_run es t))" by auto
qed

definition waits :: "str \<Rightarrow> request_status option \<Rightarrow> tracker \<Rightarrow> bool" where
  "waits rid final t \<longleftrightarrow> rid \<in> set (tk_pending t)
     \<and> (\<exists>s. tk_completions t rid = Some s \<and> (case final of Some f \<Rightarrow> s = f \<and> is_complete f | None \<Rightarrow> \<not> is_complete s))"

lemma taken_expected:
  assumes "waits rid final t" "StartRequest rid \<notin> set es"
  shows "taken rid es t = expected rid final es
    \<and> (rid \<in> set (tk_pending (tracker_run es t)) \<longleftrightarrow> expected rid final es = [] \<and> CancelRequest rid \<notin> set es)"
  using assms
proof (induction es arbitrary: final t)
  case Nil
  then show ?case by (simp add: waits_def tracker_run_def)
next
  case (Cons e es)
  note IH = Cons.IH [of _ "tracker_step e t"] and gone = taken_gone [of rid "tracker_step e t" es]
  obtain s where s: "rid \<in> set (tk_pending t)" "tk_completions t rid = Some s" using Cons.prems by (auto simp: waits_def)
  show ?case
  proof (cases "about e = rid")
    case False
    then have "waits rid final (tracker_step e t)" using Cons.prems by (simp add: waits_def)
    moreover have "expected rid final (e # es) = expected rid final es" "CancelRequest rid \<noteq> e" using False by (cases e; auto)+
    ultimately show ?thesis using IH [of final] Cons.prems False by (simp add: taken_other del: taken.simps)
  next
    case True
    show ?thesis
    proof (cases e)
      case (StartRequest i)
      then show ?thesis using Cons.prems True by simp
    next
      case (TaskSet i x)
      let ?final = "if final = None \<and> is_complete x then Some x else final"
      have "waits rid ?final (tracker_step e t)"
        using Cons.prems True TaskSet by (auto simp: waits_def set_completion_def completion_set_def split: option.splits)
      then show ?thesis using IH [of ?final] Cons.prems True TaskSet by (auto split: if_splits)
    next
      case (TakeResponse i)
      show ?thesis
      proof (cases final)
        case None
        then have "take_response rid t = (None, t)" using Cons.prems s by (auto simp: waits_def take_response_def entry_def)
        then show ?thesis using Cons.IH [of final t] Cons.prems True TakeResponse None by simp
      next
        case (Some f)
        then have "take_response rid t = (Some f, remove_entry rid t)" using Cons.prems s by (auto simp: waits_def take_response_def entry_def)
        then show ?thesis using gone Cons.prems True TakeResponse Some by (simp add: remove_entry_def)
      qed
    next
      case (CancelRequest i)
      have "rid \<notin> set (tk_pending (cancel_request rid t))" by (simp add: cancel_request_def remove_entry_def)
      then show ?thesis using gone Cons.prems True CancelRequest by simp
    qed
  qed
qed

text \<open>C32. However the steps of clients and tasks are interleaved, a client is given the result of a request at most once: the
  first complete status the task of that request set, which later ones do not replace, and nothing when the request was
  cancelled before. Its entry is kept exactly until then, so a request that was taken or cancelled leaves nothing
  behind.\<close>

theorem response_taken_once:
  assumes "\<forall>e \<in> set before. about e \<noteq> rid" "StartRequest rid \<notin> set after"
  shows "taken rid (before @ StartRequest rid # after) new_tracker = expected rid None after
    \<and> length (expected rid None after) \<le> 1
    \<and> (rid \<in> set (tk_pending (tracker_run (before @ StartRequest rid # after) new_tracker))
        \<longleftrightarrow> expected rid None after = [] \<and> CancelRequest rid \<notin> set after)"
proof -
  let ?t = "tracker_run before new_tracker"
  have none: "taken rid before t = []" if "\<forall>e \<in> set before. about e \<noteq> rid" for before t
    using that by (induction before arbitrary: t) (simp_all add: taken_other del: taken.simps(2))
  have "waits rid None (start_entry rid ?t)" by (simp add: waits_def start_entry_def)
  note rest = taken_expected [OF this assms(2)]
  have run: "tracker_run (before @ StartRequest rid # after) new_tracker = tracker_run after (start_entry rid ?t)"
    by (simp add: tracker_run_def)
  have "length (expected rid final es) \<le> 1" for final es
    by (induction rid final es rule: expected.induct) (auto split: option.splits)
  then show ?thesis using rest none [OF assms(1)] unfolding run by (simp add: taken_append)
qed

definition sample_events :: "tracker_event list" where
  "sample_events = [TaskSet (lit ''1'') InProgress, StartRequest (lit ''2''), TakeResponse (lit ''1''), TaskSet (lit ''1'') (Failed Timeout),
     TaskSet (lit ''1'') StatusCancelled, CancelRequest (lit ''2''), TakeResponse (lit ''1''), TakeResponse (lit ''1'')]"

theorem response_taken_once_witness:
  "taken (lit ''1'') ([] @ StartRequest (lit ''1'') # sample_events) new_tracker = [Failed Timeout]
   \<and> lit ''1'' \<notin> set (tk_pending (tracker_run ([] @ StartRequest (lit ''1'') # sample_events) new_tracker))"
proof -
  have "StartRequest (lit ''1'') \<notin> set sample_events" "expected (lit ''1'') None sample_events = [Failed Timeout]"
    by (simp_all add: sample_events_def)
  then show ?thesis using response_taken_once [of "[]" "lit ''1''" sample_events] by simp
qed

end
