(* ===== verification/Cache_Quota.thy ===== *)
theory Cache_Quota
  imports Prelude Utf8
begin

text \<open>
  \<^verbatim>\<open>crates/data/src/features/content_cache/quota.rs\<close>: the keys of the content cache, the reservations of running
  downloads, and the admission of commits with the eviction of what was used longest ago.

  Every operation holds the quota lock of the cache, so it is one step on the state: the rows of the index with the
  one used longest ago first, the blobs of the store by path, the files of the partial directory, and the commits that
  were admitted and have not ended. The index and the file system may refuse any call; which ones they refuse is the
  parameter \<open>qe_fails\<close>. The digest crate, the size of a record as JSON and the probe for free space are parameters.
  Numbers of bytes are natural numbers, every sum saturates as in the code.
\<close>

section \<open>Keys\<close>

datatype cache_owner = HostOwner | PluginOwner str

definition SCOPED_KEY_PREFIX :: str where
  "SCOPED_KEY_PREFIX = 1 # lit ''arclain-cache:v1:''"

fun scoped_key :: "cache_owner \<Rightarrow> str \<Rightarrow> str" where
  "scoped_key HostOwner key = SCOPED_KEY_PREFIX @ lit ''h:0::'' @ key"
| "scoped_key (PluginOwner p) key =
     SCOPED_KEY_PREFIX @ lit ''p:'' @ nat_digits (str_len p) @ colon # p @ colon # key"

text \<open>A string cut after a number of bytes, when no character is cut in two.\<close>

fun split_bytes :: "nat \<Rightarrow> str \<Rightarrow> (str \<times> str) option" where
  "split_bytes n [] = (if n = 0 then Some ([], []) else None)"
| "split_bytes n (c # cs) =
     (if n = 0 then Some ([], c # cs)
      else if utf8_width c \<le> n then map_option (\<lambda>(a, b). (c # a, b)) (split_bytes (n - utf8_width c) cs) else None)"

definition parse_scoped_key :: "str \<Rightarrow> (cache_owner \<times> str) option" where
  "parse_scoped_key key =
     Option.bind (strip_prefix key SCOPED_KEY_PREFIX) (\<lambda>encoded.
       case strip_prefix encoded (lit ''h:0::'') of
         Some raw \<Rightarrow> Some (HostOwner, raw)
       | None \<Rightarrow>
           Option.bind (strip_prefix encoded (lit ''p:'')) (\<lambda>encoded.
           Option.bind (split_once colon encoded) (\<lambda>(digits, owner_and_key).
           Option.bind (parse_u64 digits) (\<lambda>owner_len.
             case split_bytes owner_len owner_and_key of
               Some (owner, c # raw) \<Rightarrow> if c = colon then Some (PluginOwner owner, raw) else None
             | _ \<Rightarrow> None))))"

definition from_scoped_key :: "str \<Rightarrow> cache_owner option" where
  "from_scoped_key key = map_option fst (parse_scoped_key key)"

definition entry_owner :: "str \<Rightarrow> cache_owner" where
  "entry_owner key = (case parse_scoped_key key of Some (owner, _) \<Rightarrow> owner | None \<Rightarrow> HostOwner)"

section \<open>State\<close>

record cache_limits =
  max_object_bytes :: nat
  max_owner_partial_bytes :: nat
  max_owner_partial_objects :: nat
  max_owner_committed_bytes :: nat
  max_owner_committed_objects :: nat
  max_global_bytes :: nat
  max_global_partial_objects :: nat
  max_global_committed_objects :: nat
  max_queued_writes :: nat
  max_queued_bytes :: nat
  reservation_chunk_bytes :: nat
  min_free_space_bytes :: nat
  partial_ttl :: nat

definition default_limits :: cache_limits where
  "default_limits = \<lparr>max_object_bytes = 4 * 1024 * 1024 * 1024, max_owner_partial_bytes = 8 * 1024 * 1024 * 1024,
     max_owner_partial_objects = 64, max_owner_committed_bytes = 16 * 1024 * 1024 * 1024, max_owner_committed_objects = 20000,
     max_global_bytes = 64 * 1024 * 1024 * 1024, max_global_partial_objects = 256, max_global_committed_objects = 100000,
     max_queued_writes = 32, max_queued_bytes = 256 * 1024 * 1024, reservation_chunk_bytes = 1024 * 1024,
     min_free_space_bytes = 2 * 1024 * 1024 * 1024, partial_ttl = 24 * 60 * 60\<rparr>"

record cache_entry =
  ce_key :: str
  ce_hash :: str
  ce_size :: "int option"

record reservation_record =
  rr_owner :: cache_owner
  rr_scoped_key :: str
  rr_reserved_bytes :: nat
  rr_updated_at :: nat

text \<open>A file of the partial directory: its length, when it was changed, and the reservation it holds when it reads as
  one.\<close>

record partial_file =
  pf_len :: nat
  pf_modified :: nat
  pf_record :: "reservation_record option"

record pending_commit =
  pn_owner :: cache_owner
  pn_scoped_key :: str
  pn_bytes :: nat
  pn_objects :: nat

record quota_world =
  qw_index :: "cache_entry list"
  qw_blobs :: "(str \<times> byte list) list"
  qw_partial :: "(str \<times> partial_file) list"
  qw_pending :: "(nat \<times> pending_commit) list"
  qw_next_id :: nat
  qw_step :: nat

record quota_env =
  qe_fails :: "nat \<Rightarrow> bool"
  qe_path :: "str \<Rightarrow> str option"  \<comment> \<open>the path of the blob with this content hash\<close>
  qe_json_len :: "reservation_record \<Rightarrow> nat"
  qe_free :: "nat \<Rightarrow> nat option"
  qe_complete :: bool

datatype quota_error =
    ObjectTooLarge nat nat
  | OwnerPartialObjects
  | GlobalPartialObjects
  | OwnerPartialBytes nat nat
  | CapacityQuota
  | CapacityFreeSpace
  | OwnerCommitted
  | GlobalCommitted
  | ProbeFailed
  | StoreFailed

type_synonym 'a quota = "(quota_world, quota_error, 'a) st"

text \<open>A call to the file system or the index that may be refused, and then changes nothing.\<close>

definition attempt :: "quota_env \<Rightarrow> (quota_world \<Rightarrow> quota_world) \<Rightarrow> unit quota" where
  "attempt env f w =
     (let w' = w\<lparr>qw_step := Suc (qw_step w)\<rparr> in
      if qe_fails env (qw_step w) then (Inl StoreFailed, w') else (Inr (), f w'))"

section \<open>Blobs\<close>

definition physical_blob_size :: "quota_env \<Rightarrow> (str \<times> byte list) list \<Rightarrow> cache_entry \<Rightarrow> nat" where
  "physical_blob_size env blobs e =
     (case Option.bind (qe_path env (ce_hash e)) (map_of blobs) of
        Some bs \<Rightarrow> length bs
      | None \<Rightarrow> (case ce_size e of Some n \<Rightarrow> if n \<ge> 0 then nat n else 0 | None \<Rightarrow> 0))"

definition remove_physical_blob :: "quota_env \<Rightarrow> str \<Rightarrow> unit quota" where
  "remove_physical_blob env hash =
     (case qe_path env hash of
        None \<Rightarrow> st_ret ()
      | Some p \<Rightarrow> attempt env (\<lambda>w. w\<lparr>qw_blobs := AList.delete p (qw_blobs w)\<rparr>))"

definition index_delete :: "quota_env \<Rightarrow> str \<Rightarrow> unit quota" where
  "index_delete env key = attempt env (\<lambda>w. w\<lparr>qw_index := filter (\<lambda>e. ce_key e \<noteq> key) (qw_index w)\<rparr>)"

fun delete_keys :: "quota_env \<Rightarrow> str list \<Rightarrow> unit quota" where
  "delete_keys env [] w = st_ret () w"
| "delete_keys env (k # ks) w = st_bind (index_delete env k) (\<lambda>_. delete_keys env ks) w"

text \<open>The index answers that a hash is used when its view is not complete.\<close>

definition has_content_hash :: "quota_env \<Rightarrow> str \<Rightarrow> bool quota" where
  "has_content_hash env hash =
     st_bind (attempt env (\<lambda>w. w)) (\<lambda>_ w.
       (Inr (if qe_complete env then list_ex (\<lambda>e. ce_hash e = hash) (qw_index w) else True), w))"

definition discard_blob_if_unreferenced :: "quota_env \<Rightarrow> str \<Rightarrow> unit quota" where
  "discard_blob_if_unreferenced env hash =
     st_bind (has_content_hash env hash) (\<lambda>used. if used then st_ret () else remove_physical_blob env hash)"

text \<open>The rows are loaded in pages until one is short.\<close>

definition INDEX_PAGE_SIZE :: nat where
  "INDEX_PAGE_SIZE = 1024"

function load_pages :: "'a list \<Rightarrow> 'a list \<Rightarrow> 'a list" where
  "load_pages rows acc =
     (let page = take INDEX_PAGE_SIZE (drop (length acc) rows) in
      if length page < INDEX_PAGE_SIZE then acc @ page else load_pages rows (acc @ page))"
  by pat_completeness auto
termination
  by (relation "measure (\<lambda>(rows, acc). length rows - length acc)") (auto simp: INDEX_PAGE_SIZE_def Let_def)

declare load_pages.simps [simp del]

definition load_entries_lru :: "quota_env \<Rightarrow> cache_entry list quota" where
  "load_entries_lru env = st_bind (attempt env (\<lambda>w. w)) (\<lambda>_ w. (Inr (load_pages (qw_index w) []), w))"

section \<open>Groups of rows with one blob\<close>

record physical_blob =
  pb_hash :: str
  pb_size :: nat
  pb_position :: nat
  pb_keys :: "str list"

fun add_to_group :: "nat \<Rightarrow> cache_entry \<Rightarrow> nat \<Rightarrow> physical_blob list \<Rightarrow> physical_blob list" where
  "add_to_group pos e sz [] = [\<lparr>pb_hash = ce_hash e, pb_size = sz, pb_position = pos, pb_keys = [ce_key e]\<rparr>]"
| "add_to_group pos e sz (g # gs) =
     (if pb_hash g = ce_hash e
      then g\<lparr>pb_position := pos, pb_size := max (pb_size g) sz, pb_keys := pb_keys g @ [ce_key e]\<rparr> # gs
      else g # add_to_group pos e sz gs)"

text \<open>Only some rows are counted; their positions are those in the index.\<close>

definition collect_groups :: "(cache_entry \<Rightarrow> bool) \<Rightarrow> (cache_entry \<Rightarrow> nat) \<Rightarrow> cache_entry list \<Rightarrow> physical_blob list" where
  "collect_groups counted sz rows =
     fold (\<lambda>(pos, e) gs. if counted e then add_to_group pos e (sz e) gs else gs) (List.enumerate 0 rows) []"

definition groups_lru :: "(cache_entry \<Rightarrow> bool) \<Rightarrow> (cache_entry \<Rightarrow> nat) \<Rightarrow> cache_entry list \<Rightarrow> physical_blob list" where
  "groups_lru counted sz rows = sort_key pb_position (collect_groups counted sz rows)"

definition physical_groups_lru :: "quota_env \<Rightarrow> (str \<times> byte list) list \<Rightarrow> cache_entry list \<Rightarrow> physical_blob list" where
  "physical_groups_lru env blobs rows = groups_lru (\<lambda>_. True) (physical_blob_size env blobs) rows"

definition sat_sum :: "nat list \<Rightarrow> nat" where
  "sat_sum ns = foldl sat_add 0 ns"

text \<open>Groups are evicted until what is left fits; the blob goes when no row of anybody names it.\<close>

fun evict_until :: "quota_env \<Rightarrow> (nat \<Rightarrow> nat \<Rightarrow> bool) \<Rightarrow> physical_blob list \<Rightarrow> nat \<Rightarrow> nat \<Rightarrow> (nat \<times> nat) quota" where
  "evict_until env fits [] bytes objects w = st_ret (bytes, objects) w"
| "evict_until env fits (g # gs) bytes objects w =
     st_bind (delete_keys env (pb_keys g)) (\<lambda>_.
     st_bind (discard_blob_if_unreferenced env (pb_hash g)) (\<lambda>_.
       let bytes = bytes - pb_size g; objects = objects - length (pb_keys g) in
       if fits bytes objects then st_ret (bytes, objects) else evict_until env fits gs bytes objects)) w"

definition make_room :: "quota_env \<Rightarrow> (nat \<Rightarrow> nat \<Rightarrow> bool) \<Rightarrow> quota_error \<Rightarrow> physical_blob list \<Rightarrow> nat \<Rightarrow> nat \<Rightarrow> unit quota" where
  "make_room env fits refusal gs bytes objects =
     (if fits bytes objects then st_ret ()
      else st_bind (evict_until env fits gs bytes objects) (\<lambda>(bytes, objects).
        if fits bytes objects then st_ret () else st_lift (Inl refusal)))"

section \<open>Commits\<close>

definition count_new :: "str \<Rightarrow> cache_entry list \<Rightarrow> nat" where
  "count_new key rows = (if list_ex (\<lambda>e. ce_key e = key) rows then 0 else 1)"

definition fits_under :: "nat \<Rightarrow> nat \<Rightarrow> nat \<Rightarrow> nat \<Rightarrow> nat \<Rightarrow> nat \<Rightarrow> nat \<Rightarrow> nat \<Rightarrow> bool" where
  "fits_under max_bytes max_objects pending_bytes pending_objects incoming_bytes incoming_objects bytes objects \<longleftrightarrow>
     sat_add (sat_add bytes pending_bytes) incoming_bytes \<le> max_bytes
     \<and> sat_add (sat_add objects pending_objects) incoming_objects \<le> max_objects"

definition owner_counted :: "cache_owner \<Rightarrow> str \<Rightarrow> cache_entry \<Rightarrow> bool" where
  "owner_counted owner key e \<longleftrightarrow> ce_key e \<noteq> key \<and> entry_owner (ce_key e) = owner"

definition ensure_owner_committed_capacity ::
    "quota_env \<Rightarrow> cache_limits \<Rightarrow> cache_owner \<Rightarrow> str \<Rightarrow> nat \<Rightarrow> pending_commit list \<Rightarrow> nat quota" where
  "ensure_owner_committed_capacity env limits owner key incoming pending =
     st_bind (load_entries_lru env) (\<lambda>rows w.
       let others = filter (\<lambda>c. pn_owner c = owner \<and> pn_scoped_key c \<noteq> key) pending;
           gs = groups_lru (owner_counted owner key) (physical_blob_size env (qw_blobs w)) rows;
           new = count_new key rows
       in st_bind (make_room env
            (fits_under (max_owner_committed_bytes limits) (max_owner_committed_objects limits)
               (sat_sum (map pn_bytes others)) (sat_sum (map pn_objects others)) incoming new)
            OwnerCommitted gs (sat_sum (map pb_size gs)) (sat_sum (map (\<lambda>g. length (pb_keys g)) gs)))
          (\<lambda>_. st_ret new) w)"

definition ensure_global_committed_capacity ::
    "quota_env \<Rightarrow> cache_limits \<Rightarrow> str \<Rightarrow> nat \<Rightarrow> pending_commit list \<Rightarrow> unit quota" where
  "ensure_global_committed_capacity env limits key incoming pending =
     st_bind (load_entries_lru env) (\<lambda>rows w.
       let others = filter (\<lambda>c. pn_scoped_key c \<noteq> key) pending;
           gs = groups_lru (\<lambda>e. ce_key e \<noteq> key) (physical_blob_size env (qw_blobs w)) rows
       in make_room env
            (fits_under (max_global_bytes limits) (max_global_committed_objects limits)
               (sat_sum (map pn_bytes others)) (sat_sum (map pn_objects others)) incoming (count_new key rows))
            GlobalCommitted gs (sat_sum (map pb_size gs)) (length (filter (\<lambda>e. ce_key e \<noteq> key) rows)) w)"

definition register_commit :: "pending_commit \<Rightarrow> nat quota" where
  "register_commit c w =
     (Inr (qw_next_id w), w\<lparr>qw_next_id := nat ((int (qw_next_id w) + 1) mod U64_END),
        qw_pending := AList.update (qw_next_id w) c (qw_pending w)\<rparr>)"

definition prepare_commit :: "quota_env \<Rightarrow> cache_limits \<Rightarrow> cache_owner \<Rightarrow> str \<Rightarrow> nat \<Rightarrow> nat quota" where
  "prepare_commit env limits owner key incoming =
     st_bind (attempt env (\<lambda>w. w)) (\<lambda>_ w.
       let pending = map snd (qw_pending w) in
       if incoming > max_object_bytes limits then (Inl (ObjectTooLarge incoming (max_object_bytes limits)), w)
       else if incoming > max_owner_committed_bytes limits then (Inl OwnerCommitted, w)
       else st_bind (ensure_owner_committed_capacity env limits owner key incoming pending) (\<lambda>new.
         st_bind (ensure_global_committed_capacity env limits key incoming pending) (\<lambda>_.
           register_commit \<lparr>pn_owner = owner, pn_scoped_key = key, pn_bytes = incoming, pn_objects = new\<rparr>)) w)"

text \<open>The end of an admission, when it is dropped.\<close>

definition drop_admission :: "nat \<Rightarrow> quota_world \<Rightarrow> quota_world" where
  "drop_admission n w = w\<lparr>qw_pending := AList.delete n (qw_pending w)\<rparr>"

section \<open>The partial directory\<close>

definition MAX_RESERVATION_RECORD_BYTES :: nat where
  "MAX_RESERVATION_RECORD_BYTES = 16 * 1024"

definition MAX_RESERVATION_KEY_BYTES :: nat where
  "MAX_RESERVATION_KEY_BYTES = 4 * 1024"

definition MAX_OWNER_ID_BYTES :: nat where
  "MAX_OWNER_ID_BYTES = 512"

text \<open>\<^verbatim>\<open>Path::extension\<close> and \<^verbatim>\<open>Path::with_extension\<close> on a file name.\<close>

definition split_name :: "str \<Rightarrow> str \<times> str option" where
  "split_name name =
     (case rsplit_once dot name of
        Some (stem, ext) \<Rightarrow> if stem = [] then (name, None) else (stem, Some ext)
      | None \<Rightarrow> (name, None))"

definition name_extension :: "str \<Rightarrow> str option" where
  "name_extension name = snd (split_name name)"

definition with_name_extension :: "str \<Rightarrow> string \<Rightarrow> str" where
  "with_name_extension name ext = fst (split_name name) @ dot # lit ext"

definition is_atomic_temp :: "str \<Rightarrow> bool" where
  "is_atomic_temp name \<longleftrightarrow> starts_with name [dot] \<and> contains_str name (lit ''.tmp-'')"

text \<open>A missing file counts as removed.\<close>

definition remove_partial :: "quota_env \<Rightarrow> str \<Rightarrow> unit quota" where
  "remove_partial env name w =
     (if map_of (qw_partial w) name = None then (Inr (), w)
      else attempt env (\<lambda>w. w\<lparr>qw_partial := AList.delete name (qw_partial w)\<rparr>) w)"

definition discard_sidecar_group :: "quota_env \<Rightarrow> str \<Rightarrow> unit quota" where
  "discard_sidecar_group env name =
     st_bind (remove_partial env (with_name_extension name ''reservation'')) (\<lambda>_.
     st_bind (remove_partial env (with_name_extension name ''partial'')) (\<lambda>_.
       remove_partial env (with_name_extension name ''meta'')))"

definition valid_reservation_record :: "cache_limits \<Rightarrow> reservation_record \<Rightarrow> nat \<Rightarrow> bool" where
  "valid_reservation_record limits r now \<longleftrightarrow>
     str_len (rr_scoped_key r) \<le> MAX_RESERVATION_KEY_BYTES
     \<and> rr_reserved_bytes r \<le> max_object_bytes limits
     \<and> rr_updated_at r \<le> sat_add now (partial_ttl limits)
     \<and> (case rr_owner r of PluginOwner p \<Rightarrow> str_len p \<le> MAX_OWNER_ID_BYTES | HostOwner \<Rightarrow> True)
     \<and> map_option fst (parse_scoped_key (rr_scoped_key r)) = Some (rr_owner r)"

text \<open>The record of a file, when it is small enough, reads as one, is valid and has not expired.\<close>

definition live_record :: "cache_limits \<Rightarrow> nat \<Rightarrow> partial_file \<Rightarrow> reservation_record option" where
  "live_record limits now f =
     (if pf_len f > MAX_RESERVATION_RECORD_BYTES then None
      else case pf_record f of
        None \<Rightarrow> None
      | Some r \<Rightarrow> if valid_reservation_record limits r now \<and> now - rr_updated_at r \<le> partial_ttl limits then Some r else None)"

definition read_record :: "quota_env \<Rightarrow> cache_limits \<Rightarrow> nat \<Rightarrow> partial_file \<Rightarrow> reservation_record option quota" where
  "read_record env limits now f w =
     (Inr (if qe_fails env (qw_step w) then None else live_record limits now f), w\<lparr>qw_step := Suc (qw_step w)\<rparr>)"

fun scan_files :: "quota_env \<Rightarrow> cache_limits \<Rightarrow> nat \<Rightarrow> (str \<times> partial_file) list \<Rightarrow> (str \<times> reservation_record) list
    \<Rightarrow> (str \<times> reservation_record) list quota" where
  "scan_files env limits now [] acc w = st_ret acc w"
| "scan_files env limits now ((name, f) # fs) acc w =
     (if is_atomic_temp name then
        if now - pf_modified f > partial_ttl limits
        then st_bind (remove_partial env name) (\<lambda>_. scan_files env limits now fs acc) w
        else scan_files env limits now fs acc w
      else if name_extension name \<noteq> Some (lit ''reservation'') then scan_files env limits now fs acc w
      else st_bind (read_record env limits now f) (\<lambda>record.
        case record of
          None \<Rightarrow> st_bind (discard_sidecar_group env name) (\<lambda>_. scan_files env limits now fs acc)
        | Some r \<Rightarrow> scan_files env limits now fs (acc @ [(name, r)])) w)"

text \<open>Data without a reservation is kept only while it is fresh.\<close>

fun scan_orphans :: "quota_env \<Rightarrow> cache_limits \<Rightarrow> nat \<Rightarrow> (str \<times> partial_file) list \<Rightarrow> unit quota" where
  "scan_orphans env limits now [] w = st_ret () w"
| "scan_orphans env limits now ((name, f) # fs) w =
     (if (name_extension name = Some (lit ''partial'') \<or> name_extension name = Some (lit ''meta''))
         \<and> map_of (qw_partial w) (with_name_extension name ''reservation'') = None
         \<and> now - pf_modified f > partial_ttl limits
      then st_bind (discard_sidecar_group env (with_name_extension name ''reservation'')) (\<lambda>_. scan_orphans env limits now fs) w
      else scan_orphans env limits now fs w)"

definition scan_reservations :: "quota_env \<Rightarrow> cache_limits \<Rightarrow> nat \<Rightarrow> (str \<times> reservation_record) list quota" where
  "scan_reservations env limits now =
     st_bind (attempt env (\<lambda>w. w)) (\<lambda>_ w.
       st_bind (scan_files env limits now (qw_partial w) []) (\<lambda>records.
       st_bind (attempt env (\<lambda>w. w)) (\<lambda>_ w.
         st_bind (scan_orphans env limits now (qw_partial w)) (\<lambda>_. st_ret records) w)) w)"

section \<open>Global capacity\<close>

text \<open>Rows without a blob and blobs without a row are removed, when the index shows all rows.\<close>

definition row_blob :: "quota_env \<Rightarrow> (str \<times> byte list) list \<Rightarrow> cache_entry \<Rightarrow> str option" where
  "row_blob env blobs e = (case qe_path env (ce_hash e) of None \<Rightarrow> None | Some p \<Rightarrow> if map_of blobs p = None then None else Some p)"

fun remove_blobs :: "quota_env \<Rightarrow> str list \<Rightarrow> unit quota" where
  "remove_blobs env [] w = st_ret () w"
| "remove_blobs env (p # ps) w =
     st_bind (attempt env (\<lambda>w. w\<lparr>qw_blobs := AList.delete p (qw_blobs w)\<rparr>)) (\<lambda>_. remove_blobs env ps) w"

definition reconcile_physical_blobs :: "quota_env \<Rightarrow> unit quota" where
  "reconcile_physical_blobs env =
     (if \<not> qe_complete env then st_ret ()
      else st_bind (load_entries_lru env) (\<lambda>rows w.
        st_bind (delete_keys env (map ce_key (filter (\<lambda>e. row_blob env (qw_blobs w) e = None) rows))) (\<lambda>_ w.
          let referenced = List.map_filter (row_blob env (qw_blobs w)) rows in
          remove_blobs env (filter (\<lambda>p. p \<notin> set referenced) (map fst (qw_blobs w))) w) w))"

definition global_capacity_fits :: "quota_env \<Rightarrow> cache_limits \<Rightarrow> nat \<Rightarrow> nat \<Rightarrow> bool quota" where
  "global_capacity_fits env limits committed reserved w =
     (if sat_add committed reserved > max_global_bytes limits then (Inr False, w)
      else case qe_free env (qw_step w) of
        None \<Rightarrow> (Inl ProbeFailed, w\<lparr>qw_step := Suc (qw_step w)\<rparr>)
      | Some available \<Rightarrow> (Inr (reserved \<le> available - min_free_space_bytes limits), w\<lparr>qw_step := Suc (qw_step w)\<rparr>))"

fun evict_for_reservation :: "quota_env \<Rightarrow> cache_limits \<Rightarrow> nat \<Rightarrow> physical_blob list \<Rightarrow> nat \<Rightarrow> unit quota" where
  "evict_for_reservation env limits reserved [] committed w =
     (Inl (if sat_add committed reserved > max_global_bytes limits then CapacityQuota else CapacityFreeSpace), w)"
| "evict_for_reservation env limits reserved (g # gs) committed w =
     st_bind (delete_keys env (pb_keys g)) (\<lambda>_.
     st_bind (remove_physical_blob env (pb_hash g)) (\<lambda>_.
     st_bind (global_capacity_fits env limits (committed - pb_size g) reserved) (\<lambda>fits.
       if fits then st_ret () else evict_for_reservation env limits reserved gs (committed - pb_size g)))) w"

definition committed_groups :: "quota_env \<Rightarrow> physical_blob list quota" where
  "committed_groups env =
     st_bind (load_entries_lru env) (\<lambda>rows w. (Inr (physical_groups_lru env (qw_blobs w) rows), w))"

definition ensure_global_capacity :: "quota_env \<Rightarrow> cache_limits \<Rightarrow> nat \<Rightarrow> unit quota" where
  "ensure_global_capacity env limits reserved =
     (if reserved > max_global_bytes limits then st_lift (Inl CapacityQuota)
      else st_bind (committed_groups env) (\<lambda>gs.
        st_bind (global_capacity_fits env limits (sat_sum (map pb_size gs)) reserved) (\<lambda>fits.
          if fits then st_ret ()
          else st_bind (reconcile_physical_blobs env) (\<lambda>_.
            st_bind (committed_groups env) (\<lambda>gs.
            st_bind (global_capacity_fits env limits (sat_sum (map pb_size gs)) reserved) (\<lambda>fits.
              if fits then st_ret ()
              else evict_for_reservation env limits reserved gs (sat_sum (map pb_size gs))))))))"

section \<open>Reservations\<close>

text \<open>A record is written beside its place and renamed into it; a failure may leave the first file behind.\<close>

definition temp_name :: "nat \<Rightarrow> str \<Rightarrow> str" where
  "temp_name n name = dot # name @ lit ''.tmp-'' @ nat_digits n"

definition write_reservation :: "quota_env \<Rightarrow> str \<Rightarrow> reservation_record \<Rightarrow> unit quota" where
  "write_reservation env name r w =
     (let f = \<lparr>pf_len = qe_json_len env r, pf_modified = rr_updated_at r, pf_record = Some r\<rparr>;
          w' = w\<lparr>qw_step := Suc (Suc (qw_step w))\<rparr> in
      if \<not> qe_fails env (qw_step w) then (Inr (), w'\<lparr>qw_partial := AList.update name f (qw_partial w)\<rparr>)
      else if qe_fails env (Suc (qw_step w)) then (Inl StoreFailed, w'\<lparr>qw_partial := AList.update (temp_name (qw_step w) name) f (qw_partial w)\<rparr>)
      else (Inl StoreFailed, w'))"

definition check_reservation ::
    "cache_limits \<Rightarrow> cache_owner \<Rightarrow> str \<Rightarrow> nat \<Rightarrow> (str \<times> reservation_record) list \<Rightarrow> quota_error + nat" where
  "check_reservation limits owner name target reservations =
     (let new = (if list_ex (\<lambda>(n, _). n = name) reservations then 0 else 1);
          others = filter (\<lambda>(n, _). n \<noteq> name) reservations;
          own = filter (\<lambda>(_, r). rr_owner r = owner) others;
          own_bytes = sat_add (sat_sum (map (\<lambda>(_, r). rr_reserved_bytes r) own)) target
      in if sat_add (length own) new > max_owner_partial_objects limits then Inl OwnerPartialObjects
         else if sat_add (length others) new > max_global_partial_objects limits then Inl GlobalPartialObjects
         else if own_bytes > max_owner_partial_bytes limits then Inl (OwnerPartialBytes own_bytes (max_owner_partial_bytes limits))
         else Inr (sat_add (sat_sum (map (\<lambda>(_, r). rr_reserved_bytes r) others)) target))"

definition reserve_at :: "quota_env \<Rightarrow> cache_limits \<Rightarrow> cache_owner \<Rightarrow> str \<Rightarrow> str \<Rightarrow> nat \<Rightarrow> nat \<Rightarrow> unit quota" where
  "reserve_at env limits owner key name target now =
     (if target > max_object_bytes limits then st_lift (Inl (ObjectTooLarge target (max_object_bytes limits)))
      else st_bind (scan_reservations env limits now) (\<lambda>reservations.
        st_bind (st_lift (check_reservation limits owner name target reservations)) (\<lambda>reserved.
        st_bind (ensure_global_capacity env limits reserved) (\<lambda>_.
          write_reservation env name
            \<lparr>rr_owner = owner, rr_scoped_key = key, rr_reserved_bytes = target, rr_updated_at = now\<rparr>))))"

definition release_reservation :: "quota_env \<Rightarrow> str \<Rightarrow> unit quota" where
  "release_reservation env name = remove_partial env name"

definition maintain_at :: "quota_env \<Rightarrow> cache_limits \<Rightarrow> nat \<Rightarrow> unit quota" where
  "maintain_at env limits now = st_bind (scan_reservations env limits now) (\<lambda>_. reconcile_physical_blobs env)"

end
