(* ===== verification/Quota_Reservations.thy ===== *)
theory Quota_Reservations
  imports Cache_Quota
begin

text \<open>
  The keys of the cache read back, and the reservations of running downloads stay within the quotas: an operation only
  removes files from the partial directory or writes one record that was checked against everything a scan left there.
\<close>

section \<open>Keys\<close>

lemma split_bytes_append: "split_bytes (str_len a) (a @ b) = Some (a, b)"
proof (induction a)
  case Nil
  then show ?case by (cases b) (simp_all add: str_len_def)
next
  case (Cons c a)
  have "utf8_width c > 0" by (simp add: utf8_width_def)
  then show ?case using Cons by (simp add: str_len_def)
qed

lemma nat_digits_no_colon: "colon \<notin> set (nat_digits n)"
  using nat_digits_ascii [of n] by (auto simp: list_all_iff is_ascii_digit_def)

definition short_owner :: "cache_owner \<Rightarrow> bool" where
  "short_owner owner \<longleftrightarrow> (case owner of PluginOwner p \<Rightarrow> int (str_len p) < U64_END | HostOwner \<Rightarrow> True)"

lemma parse_scoped_key_scoped:
  "parse_scoped_key (scoped_key owner key) = (if short_owner owner then Some (owner, key) else None)"
proof (cases owner)
  case HostOwner
  then show ?thesis by (simp add: parse_scoped_key_def strip_prefix_def starts_with_iff short_owner_def)
next
  case (PluginOwner p)
  let ?rest = "nat_digits (str_len p) @ colon # p @ colon # key"
  have 1: "strip_prefix (scoped_key owner key) SCOPED_KEY_PREFIX = Some (lit ''p:'' @ ?rest)"
    by (simp add: PluginOwner strip_prefix_eq_Some)
  have 2: "strip_prefix (lit ''p:'' @ ?rest) (lit ''h:0::'') = None" by (auto simp: strip_prefix_def starts_with_iff)
  have 3: "strip_prefix (lit ''p:'' @ ?rest) (lit ''p:'') = Some ?rest" by (simp add: strip_prefix_eq_Some)
  have 4: "split_once colon ?rest = Some (nat_digits (str_len p), p @ colon # key)"
    by (simp add: split_once_eq_Some nat_digits_no_colon)
  show ?thesis
  proof (cases "int (str_len p) < U64_END")
    case True
    show ?thesis
      unfolding parse_scoped_key_def 1 bind.bind_lunit option.case 2 3 4 prod.case parse_u64_digits if_P [OF True] split_bytes_append
      using True by (simp add: PluginOwner short_owner_def)
  next
    case False
    show ?thesis
      unfolding parse_scoped_key_def 1 bind.bind_lunit option.case 2 3 4 prod.case parse_u64_digits if_not_P [OF False]
      using False by (simp add: PluginOwner short_owner_def)
  qed
qed

text \<open>C36. A key that is scoped to an owner reads back as that owner and that key, whatever characters they contain, so no two
  owners and no two keys of one owner share a scoped key: what a plugin chooses as its key never reaches into the
  cache of another plugin or of the host. The identifier of a plugin is shorter than a string can be.\<close>

theorem scoped_key_reads_back:
  assumes "short_owner owner"
  shows "parse_scoped_key (scoped_key owner key) = Some (owner, key)
    \<and> (\<forall>owner' key'. scoped_key owner' key' = scoped_key owner key \<longrightarrow> owner' = owner \<and> key' = key)"
proof (intro conjI allI impI)
  show parse: "parse_scoped_key (scoped_key owner key) = Some (owner, key)" by (simp add: parse_scoped_key_scoped assms)
  fix owner' key' assume "scoped_key owner' key' = scoped_key owner key"
  then have "parse_scoped_key (scoped_key owner' key') = Some (owner, key)" using parse by simp
  then show "owner' = owner" "key' = key" by (simp_all add: parse_scoped_key_scoped split: if_splits)
qed

theorem scoped_key_reads_back_witness:
  "parse_scoped_key (scoped_key (PluginOwner (lit ''a:b'')) (lit '':1:c:d'')) = Some (PluginOwner (lit ''a:b''), lit '':1:c:d'')
   \<and> scoped_key (PluginOwner (lit ''a'')) (lit ''b:1:c:d'') \<noteq> scoped_key (PluginOwner (lit ''a:b'')) (lit '':1:c:d'')"
proof -
  have "short_owner (PluginOwner (lit ''a:b''))" by code_simp
  then show ?thesis using scoped_key_reads_back [of "PluginOwner (lit ''a:b'')" "lit '':1:c:d''"] by auto
qed

section \<open>What an operation leaves of the partial directory\<close>

text \<open>Everything but the writing of a record only removes files.\<close>

definition trims :: "'a quota \<Rightarrow> bool" where
  "trims m \<longleftrightarrow> (\<forall>w. map_of (qw_partial (snd (m w))) \<subseteq>\<^sub>m map_of (qw_partial w)
     \<and> (distinct (map fst (qw_partial w)) \<longrightarrow> distinct (map fst (qw_partial (snd (m w))))))"

lemma trimsI:
  assumes "\<And>w. qw_partial (snd (m w)) = qw_partial w \<or> (\<exists>k. qw_partial (snd (m w)) = AList.delete k (qw_partial w))"
  shows "trims m"
  unfolding trims_def
proof (intro allI)
  fix w
  show "map_of (qw_partial (snd (m w))) \<subseteq>\<^sub>m map_of (qw_partial w)
     \<and> (distinct (map fst (qw_partial w)) \<longrightarrow> distinct (map fst (qw_partial (snd (m w)))))"
    using assms [of w] by (auto simp: map_le_def delete_conv distinct_delete split: if_splits)
qed

lemma trims_same: "(\<And>w. qw_partial (snd (m w)) = qw_partial w) \<Longrightarrow> trims m"
  by (rule trimsI) blast

lemma trims_at: "trims m \<Longrightarrow> trims (\<lambda>w. m w)"
  by simp

lemma trims_bind:
  assumes "trims m" "\<And>x. trims (f x)"
  shows "trims (st_bind m f)"
  unfolding trims_def
proof (intro allI)
  fix w
  obtain r w1 where m: "m w = (r, w1)" by fastforce
  have 1: "map_of (qw_partial w1) \<subseteq>\<^sub>m map_of (qw_partial w)" "distinct (map fst (qw_partial w)) \<longrightarrow> distinct (map fst (qw_partial w1))"
    using assms(1) m unfolding trims_def by (metis snd_conv)+
  show "map_of (qw_partial (snd (st_bind m f w))) \<subseteq>\<^sub>m map_of (qw_partial w)
     \<and> (distinct (map fst (qw_partial w)) \<longrightarrow> distinct (map fst (qw_partial (snd (st_bind m f w)))))"
  proof (cases r)
    case (Inl e)
    then show ?thesis using 1 m by (simp add: st_bind_def)
  next
    case (Inr x)
    have 2: "map_of (qw_partial (snd (f x w1))) \<subseteq>\<^sub>m map_of (qw_partial w1)"
      "distinct (map fst (qw_partial w1)) \<longrightarrow> distinct (map fst (qw_partial (snd (f x w1))))"
      using assms(2) unfolding trims_def by blast+
    then show ?thesis using 1 m Inr map_le_trans [OF 2(1) 1(1)] by (simp add: st_bind_def)
  qed
qed

lemma trims_run:
  assumes "trims m" "m w = (r, w')"
  shows "map_of (qw_partial w') \<subseteq>\<^sub>m map_of (qw_partial w)"
    and "distinct (map fst (qw_partial w)) \<Longrightarrow> distinct (map fst (qw_partial w'))"
  using assms unfolding trims_def by (metis snd_conv)+

lemma trims_basic [simp]: "trims (st_ret x)" "trims (st_lift r)" "trims (read_record env limits now f)"
  "trims (global_capacity_fits env limits c reserved)" "trims (register_commit p)"
  by (rule trims_same; simp add: st_ret_def st_lift_def read_record_def global_capacity_fits_def register_commit_def split: option.split)+

lemma trims_attempt [simp]: "(\<And>w. qw_partial (f w) = qw_partial w) \<Longrightarrow> trims (attempt env f)"
  by (rule trims_same) (simp add: attempt_def Let_def)

lemma trims_remove_partial [simp]: "trims (remove_partial env name)"
  by (rule trimsI) (auto simp: remove_partial_def attempt_def Let_def)

lemma trims_discard [simp]: "trims (discard_sidecar_group env name)"
  unfolding discard_sidecar_group_def by (intro trims_bind) simp_all

lemma trims_recursive [simp]: "trims (delete_keys env ks)" "trims (remove_blobs env ps)" "trims (scan_orphans env limits now fs)"
    "trims (scan_files env limits now fs acc)"
proof -
  show "trims (delete_keys env ks)"
  proof (induction ks)
    case (Cons k ks)
    have "delete_keys env (k # ks) = st_bind (index_delete env k) (\<lambda>_. delete_keys env ks)" by (rule ext) simp
    then show ?case using Cons by (simp add: trims_bind index_delete_def)
  qed (simp add: trims_def st_ret_def)
  show "trims (remove_blobs env ps)"
  proof (induction ps)
    case (Cons p ps)
    have "remove_blobs env (p # ps) = st_bind (attempt env (\<lambda>w. w\<lparr>qw_blobs := AList.delete p (qw_blobs w)\<rparr>)) (\<lambda>_. remove_blobs env ps)"
      by (rule ext) simp
    then show ?case using Cons by (simp add: trims_bind)
  qed (simp add: trims_def st_ret_def)
  show "trims (scan_orphans env limits now fs)"
  proof (induction fs)
    case (Cons x fs)
    obtain n f where x: "x = (n, f)" by fastforce
    have "trims (st_bind (discard_sidecar_group env (with_name_extension n ''reservation'')) (\<lambda>_. scan_orphans env limits now fs))"
      by (rule trims_bind) (simp_all add: Cons)
    then show ?case using Cons unfolding trims_def x scan_orphans.simps by simp
  qed (simp add: trims_def st_ret_def)
  show "trims (scan_files env limits now fs acc)"
  proof (induction fs arbitrary: acc)
    case (Cons x fs)
    obtain n f where x: "x = (n, f)" by fastforce
    have "trims (st_bind (remove_partial env n) (\<lambda>_. scan_files env limits now fs acc))" by (rule trims_bind) (simp_all add: Cons)
    moreover have "trims (st_bind (read_record env limits now f) (\<lambda>record.
        case record of None \<Rightarrow> st_bind (discard_sidecar_group env n) (\<lambda>_. scan_files env limits now fs acc)
        | Some r \<Rightarrow> scan_files env limits now fs (acc @ [(n, r)])))"
      by (intro trims_bind) (auto simp: Cons trims_bind split: option.split)
    ultimately show ?case using Cons [of acc] unfolding trims_def x scan_files.simps by simp
  qed (simp add: trims_def st_ret_def)
qed

lemma trims_load [simp]: "trims (load_entries_lru env)"
  unfolding load_entries_lru_def by (intro trims_bind) (auto intro: trims_same)

lemma trims_blob [simp]: "trims (remove_physical_blob env h)" "trims (discard_blob_if_unreferenced env h)" "trims (committed_groups env)"
proof -
  show rm: "trims (remove_physical_blob env h)" for h
    unfolding remove_physical_blob_def by (simp split: option.split)
  have "trims (has_content_hash env h)"
    unfolding has_content_hash_def by (intro trims_bind) (auto intro: trims_same)
  then show "trims (discard_blob_if_unreferenced env h)"
    unfolding discard_blob_if_unreferenced_def by (intro trims_bind) (auto simp: rm)
  show "trims (committed_groups env)"
    unfolding committed_groups_def by (intro trims_bind) (auto intro: trims_same)
qed

lemma trims_fun: "(\<And>w. \<exists>m'. trims m' \<and> m w = m' w) \<Longrightarrow> trims m"
  unfolding trims_def by metis

lemma trims_reconcile [simp]: "trims (reconcile_physical_blobs env)"
proof -
  have inner: "trims (\<lambda>w. st_bind (delete_keys env (ks w)) (\<lambda>_ w. remove_blobs env (ps w) w) w)"
    for ks :: "quota_world \<Rightarrow> str list" and ps :: "quota_world \<Rightarrow> str list"
  proof (rule trims_fun)
    fix w
    have "trims (\<lambda>w. remove_blobs env (ps w) w)" by (rule trims_fun) (use trims_recursive(2) in blast)
    then have "trims (st_bind (delete_keys env (ks w)) (\<lambda>_ w. remove_blobs env (ps w) w))" by (intro trims_bind) simp_all
    then show "\<exists>m'. trims m' \<and> st_bind (delete_keys env (ks w)) (\<lambda>_ w. remove_blobs env (ps w) w) w = m' w" by blast
  qed
  show ?thesis
    unfolding reconcile_physical_blobs_def Let_def by (auto intro!: trims_bind inner)
qed

lemma trims_evict [simp]: "trims (evict_for_reservation env limits reserved gs c)"
proof (induction gs arbitrary: c)
  case Nil
  show ?case by (rule trims_same) simp
next
  case (Cons g gs)
  have "evict_for_reservation env limits reserved (g # gs) c =
      st_bind (delete_keys env (pb_keys g)) (\<lambda>_.
      st_bind (remove_physical_blob env (pb_hash g)) (\<lambda>_.
      st_bind (global_capacity_fits env limits (c - pb_size g) reserved) (\<lambda>fits.
        if fits then st_ret () else evict_for_reservation env limits reserved gs (c - pb_size g))))"
    by (rule ext) simp
  then show ?case using Cons by (auto intro!: trims_bind)
qed

lemma trims_capacity [simp]: "trims (ensure_global_capacity env limits reserved)"
  unfolding ensure_global_capacity_def by (auto intro!: trims_bind)

lemma trims_scan [simp]: "trims (scan_reservations env limits now)"
proof -
  have orphans: "trims (\<lambda>w. st_bind (scan_orphans env limits now (fs w)) (\<lambda>_. st_ret r) w)" for fs and r :: "'r"
  proof (rule trims_fun)
    fix w
    have "trims (st_bind (scan_orphans env limits now (fs w)) (\<lambda>_. st_ret r))" by (rule trims_bind) simp_all
    then show "\<exists>m'. trims m' \<and> st_bind (scan_orphans env limits now (fs w)) (\<lambda>_. st_ret r) w = m' w" by blast
  qed
  have "trims (\<lambda>w. st_bind (scan_files env limits now (fs w) []) (\<lambda>records.
      st_bind (attempt env (\<lambda>w. w)) (\<lambda>_ w. st_bind (scan_orphans env limits now (qw_partial w)) (\<lambda>_. st_ret records) w)) w)" for fs
  proof (rule trims_fun)
    fix w
    have "trims (st_bind (scan_files env limits now (fs w) []) (\<lambda>records.
      st_bind (attempt env (\<lambda>w. w)) (\<lambda>_ w. st_bind (scan_orphans env limits now (qw_partial w)) (\<lambda>_. st_ret records) w)))"
      by (intro trims_bind orphans) simp_all
    then show "\<exists>m'. trims m' \<and> st_bind (scan_files env limits now (fs w) []) (\<lambda>records.
      st_bind (attempt env (\<lambda>w. w)) (\<lambda>_ w. st_bind (scan_orphans env limits now (qw_partial w)) (\<lambda>_. st_ret records) w)) w = m' w" by blast
  qed
  then show ?thesis unfolding scan_reservations_def by (intro trims_bind) simp_all
qed

section \<open>Reservations that are held\<close>

definition is_reservation :: "str \<Rightarrow> bool" where
  "is_reservation name \<longleftrightarrow> \<not> is_atomic_temp name \<and> name_extension name = Some (lit ''reservation'')"

definition held :: "quota_world \<Rightarrow> (str \<times> reservation_record) set" where
  "held w = {(n, r). is_reservation n \<and> (\<exists>f. map_of (qw_partial w) n = Some f \<and> pf_record f = Some r)}"

definition owner_held :: "cache_owner \<Rightarrow> quota_world \<Rightarrow> (str \<times> reservation_record) set" where
  "owner_held owner w = {(n, r) \<in> held w. rr_owner r = owner}"

definition bytes_of :: "(str \<times> reservation_record) set \<Rightarrow> nat" where
  "bytes_of S = (\<Sum>(n, r) \<in> S. rr_reserved_bytes r)"

lemma held_finite [simp]: "finite (held w)"
proof -
  have "held w \<subseteq> (\<lambda>n. (n, the (pf_record (the (map_of (qw_partial w) n))))) ` dom (map_of (qw_partial w))"
    by (auto simp: held_def image_iff)
  then show ?thesis by (rule finite_subset) (simp add: finite_dom_map_of)
qed

lemma owner_held_sub: "owner_held owner w \<subseteq> held w"
  by (auto simp: owner_held_def)

lemma owner_held_finite [simp]: "finite (owner_held owner w)"
  by (rule finite_subset [OF owner_held_sub held_finite])

lemma held_mono: "map_of (qw_partial w') \<subseteq>\<^sub>m map_of (qw_partial w) \<Longrightarrow> held w' \<subseteq> held w"
  by (auto simp: held_def map_le_def dom_def)

lemma bytes_of_mono: "S \<subseteq> T \<Longrightarrow> finite T \<Longrightarrow> bytes_of S \<le> bytes_of T"
  unfolding bytes_of_def by (rule sum_mono2) auto

lemma bytes_of_list: "bytes_of (set xs) \<le> sum_list (map (\<lambda>(_, r). rr_reserved_bytes r) xs)"
proof (induction xs)
  case (Cons x xs)
  show ?case
  proof (cases "x \<in> set xs")
    case True
    then show ?thesis using Cons by (simp add: insert_absorb)
  next
    case False
    then show ?thesis using Cons by (simp add: bytes_of_def)
  qed
qed (simp add: bytes_of_def)

lemma sat_sum_eq: "sat_sum ns = nat (min (int (sum_list ns)) (U64_END - 1))"
proof -
  have "foldl sat_add a ns = nat (min (int a + int (sum_list ns)) (U64_END - 1))" if "int a < U64_END" for a
    using that
  proof (induction ns arbitrary: a)
    case Nil
    then show ?case by (simp add: min_def U64_END_def)
  next
    case (Cons n ns)
    have "int (sat_add a n) < U64_END" by (simp add: sat_add_def min_def U64_END_def)
    note IH = Cons.IH [OF this]
    have "min (int (sat_add a n) + int (sum_list ns)) (U64_END - 1) = min (int a + int (sum_list (n # ns))) (U64_END - 1)"
      by (simp add: sat_add_def U64_END_def)
    then show ?case using IH by simp
  qed
  then show ?thesis by (simp add: sat_sum_def U64_END_def)
qed

text \<open>A saturating sum that stays under a limit below the largest number is exact.\<close>

lemma sat_add_le: "int limit < U64_END - 1 \<Longrightarrow> sat_add a b \<le> limit \<longleftrightarrow> a + b \<le> limit"
  by (auto simp: sat_add_def min_def nat_le_iff)

lemma sat_sum_add_le: "int limit < U64_END - 1 \<Longrightarrow> sat_add (sat_sum ns) b \<le> limit \<longleftrightarrow> sum_list ns + b \<le> limit"
  by (auto simp: sat_add_le sat_sum_eq min_def U64_END_def)

lemma with_own_extension: "name_extension n = Some (lit ''reservation'') \<Longrightarrow> with_name_extension n ''reservation'' = n"
proof -
  assume ext: "name_extension n = Some (lit ''reservation'')"
  then obtain stem where "rsplit_once dot n = Some (stem, lit ''reservation'')" "stem \<noteq> []"
    by (auto simp: name_extension_def split_name_def simp del: lit_Cons split: option.splits prod.splits if_splits)
  then obtain a b where split: "split_once dot (rev n) = Some (a, b)" and ab: "stem = rev b" "lit ''reservation'' = rev a"
    by (auto simp: rsplit_once_def simp del: lit_Cons)
  have "rev n = a @ dot # b" using split by (simp add: split_once_eq_Some)
  then have "rev (rev n) = rev b @ dot # rev a" by simp
  then have n: "n = stem @ dot # lit ''reservation''" unfolding ab rev_rev_ident .
  have "fst (split_name n) = stem" using \<open>rsplit_once dot n = _\<close> \<open>stem \<noteq> []\<close> by (simp add: split_name_def del: lit_Cons)
  then show ?thesis using n by (simp add: with_name_extension_def del: lit_Cons)
qed

lemma remove_partial_gone: "remove_partial env n w = (Inr x, w') \<Longrightarrow> map_of (qw_partial w') n = None"
  by (auto simp: remove_partial_def attempt_def Let_def delete_conv split: if_splits)

lemma discard_gone:
  assumes "discard_sidecar_group env n w = (Inr x, w')" "name_extension n = Some (lit ''reservation'')"
  shows "map_of (qw_partial w') n = None"
proof -
  obtain w1 w2 where 1: "remove_partial env n w = (Inr (), w1)"
    and 2: "remove_partial env (with_name_extension n ''partial'') w1 = (Inr (), w2)"
    and 3: "remove_partial env (with_name_extension n ''meta'') w2 = (Inr x, w')"
    using assms(1) unfolding discard_sidecar_group_def st_bind_Inr with_own_extension [OF assms(2)] by auto
  have "map_of (qw_partial w1) n = None" by (rule remove_partial_gone [OF 1])
  moreover have "map_of (qw_partial w') \<subseteq>\<^sub>m map_of (qw_partial w1)"
    using map_le_trans [OF trims_run(1) [OF trims_remove_partial 3] trims_run(1) [OF trims_remove_partial 2]] .
  ultimately show ?thesis by (auto simp: map_le_def dom_def)
qed

lemma live_record_of: "live_record limits now f = Some r \<Longrightarrow> pf_record f = Some r"
  by (auto simp: live_record_def split: if_splits option.splits)

text \<open>A scan returns records of the directory, and leaves no reservation that it does not return.\<close>

lemma scan_files_records:
  assumes "scan_files env limits now fs acc w = (Inr recs, w')"
  shows "set acc \<subseteq> set recs
    \<and> (\<forall>(n, r) \<in> set recs. (n, r) \<in> set acc \<or> (is_reservation n \<and> (\<exists>f. (n, f) \<in> set fs \<and> pf_record f = Some r)))
    \<and> (\<forall>(n, f) \<in> set fs. is_reservation n \<longrightarrow> map_of (qw_partial w') n = None \<or> (\<exists>r. (n, r) \<in> set recs \<and> pf_record f = Some r))"
  using assms
proof (induction fs arbitrary: acc w)
  case Nil
  then show ?case by (auto simp: st_ret_eq)
next
  case (Cons x fs)
  obtain n f where x: "x = (n, f)" by fastforce
  consider (skip) w1 where "\<not> is_reservation n" "scan_files env limits now fs acc w1 = (Inr recs, w')"
    | (drop) w1 w2 where "is_reservation n" "discard_sidecar_group env n w1 = (Inr (), w2)" "scan_files env limits now fs acc w2 = (Inr recs, w')"
    | (keep) r w1 where "is_reservation n" "pf_record f = Some r" "scan_files env limits now fs (acc @ [(n, r)]) w1 = (Inr recs, w')"
    using Cons.prems unfolding x scan_files.simps
    by (auto simp: is_reservation_def st_bind_Inr read_record_def live_record_of simp del: lit_Cons split: if_splits option.splits)
  then show ?case
  proof cases
    case skip
    show ?thesis using Cons.IH [OF skip(2)] skip(1) by (auto simp: x)
  next
    case drop
    have "map_of (qw_partial w2) n = None" using discard_gone [OF drop(2)] drop(1) by (simp add: is_reservation_def)
    then have "map_of (qw_partial w') n = None"
      using trims_run(1) [OF trims_recursive(4) drop(3)] by (auto simp: map_le_def dom_def)
    then show ?thesis using Cons.IH [OF drop(3)] by (auto simp: x)
  next
    case keep
    show ?thesis using Cons.IH [OF keep(3)] keep(1,2) by (auto simp: x)
  qed
qed

lemma scan_records:
  assumes "scan_reservations env limits now w = (Inr recs, w')"
  shows "held w' \<subseteq> set recs" "held w' \<subseteq> held w" "distinct (map fst (qw_partial w)) \<Longrightarrow> set recs \<subseteq> held w"
    "distinct (map fst (qw_partial w)) \<Longrightarrow> distinct (map fst (qw_partial w'))"
proof -
  obtain w1 w2 w3 where 1: "attempt env (\<lambda>w. w) w = (Inr (), w1)"
    and scan: "scan_files env limits now (qw_partial w1) [] w1 = (Inr recs, w2)"
    and 2: "attempt env (\<lambda>w. w) w2 = (Inr (), w3)"
    and 3: "scan_orphans env limits now (qw_partial w3) w3 = (Inr (), w')"
    using assms unfolding scan_reservations_def st_bind_Inr by (auto simp: st_ret_eq)
  have p: "qw_partial w1 = qw_partial w" "qw_partial w3 = qw_partial w2"
    using 1 2 by (auto simp: attempt_def Let_def split: if_splits)
  have le: "map_of (qw_partial w') \<subseteq>\<^sub>m map_of (qw_partial w2)"
    using trims_run(1) [OF trims_recursive(3) 3] by (simp add: p)
  note files = scan_files_records [OF scan]
  show sub: "held w' \<subseteq> held w" by (rule held_mono [OF trims_run(1) [OF trims_scan assms]])
  show "held w' \<subseteq> set recs"
  proof
    fix x assume "x \<in> held w'"
    then obtain n r f where x: "x = (n, r)" "is_reservation n" "map_of (qw_partial w') n = Some f" "pf_record f = Some r"
      by (auto simp: held_def)
    have here: "map_of (qw_partial w2) n = Some f" using le x(3) by (auto simp: map_le_def dom_def)
    then have "map_of (qw_partial w) n = Some f"
      using trims_run(1) [OF trims_recursive(4) scan] p by (auto simp: map_le_def dom_def)
    then have "(n, f) \<in> set (qw_partial w1)" using map_of_SomeD p by metis
    then show "x \<in> set recs" using files x here by fastforce
  qed
  show "set recs \<subseteq> held w" if "distinct (map fst (qw_partial w))"
    using files that by (fastforce simp: held_def p)
  show "distinct (map fst (qw_partial w'))" if "distinct (map fst (qw_partial w))"
    by (rule trims_run(2) [OF trims_scan assms that])
qed

section \<open>Reservations within the quotas\<close>

definition limits_fit :: "cache_limits \<Rightarrow> bool" where
  "limits_fit limits \<longleftrightarrow> (\<forall>n \<in> {max_owner_partial_bytes limits, max_owner_partial_objects limits, max_global_partial_objects limits,
     max_global_bytes limits, max_owner_committed_bytes limits, max_owner_committed_objects limits, max_global_committed_objects limits}.
     int n < U64_END - 1)"

definition reservations_fit :: "cache_limits \<Rightarrow> quota_world \<Rightarrow> bool" where
  "reservations_fit limits w \<longleftrightarrow>
     (\<forall>owner. bytes_of (owner_held owner w) \<le> max_owner_partial_bytes limits
        \<and> card (owner_held owner w) \<le> max_owner_partial_objects limits)
     \<and> bytes_of (held w) \<le> max_global_bytes limits \<and> card (held w) \<le> max_global_partial_objects limits"

lemma owner_held_mono: "held w' \<subseteq> held w \<Longrightarrow> owner_held owner w' \<subseteq> owner_held owner w"
  by (auto simp: owner_held_def)

lemma reservations_fit_mono:
  assumes "held w' \<subseteq> held w" "reservations_fit limits w"
  shows "reservations_fit limits w'"
  unfolding reservations_fit_def
proof (intro conjI allI)
  fix owner
  show "bytes_of (owner_held owner w') \<le> max_owner_partial_bytes limits"
    using le_trans [OF bytes_of_mono [OF owner_held_mono [OF assms(1)] owner_held_finite]] assms(2) by (simp add: reservations_fit_def)
  show "card (owner_held owner w') \<le> max_owner_partial_objects limits"
    using le_trans [OF card_mono [OF owner_held_finite owner_held_mono [OF assms(1)]]] assms(2) by (simp add: reservations_fit_def)
next
  show "bytes_of (held w') \<le> max_global_bytes limits" "card (held w') \<le> max_global_partial_objects limits"
    using le_trans [OF bytes_of_mono [OF assms(1) held_finite]] le_trans [OF card_mono [OF held_finite assms(1)]] assms(2)
    by (simp_all add: reservations_fit_def)
qed

lemma bytes_of_insert: "finite S \<Longrightarrow> bytes_of (insert (n, r) S) \<le> bytes_of S + rr_reserved_bytes r"
  by (cases "(n, r) \<in> S") (simp_all add: bytes_of_def insert_absorb)

text \<open>One record more, counted against what is held beside it.\<close>

lemma one_more:
  assumes "S \<subseteq> insert (name, r) T" "T \<subseteq> set xs" and cap: "int limit < U64_END - 1" "int objects < U64_END - 1"
    and bytes: "sat_add (sat_sum (map (\<lambda>(_, r). rr_reserved_bytes r) xs)) (rr_reserved_bytes r) \<le> limit"
    and count: "sat_add (length xs) (if known then 0 else 1) \<le> objects"
    and known: "known \<Longrightarrow> \<exists>r0. (name, r0) \<in> U \<and> (name, r0) \<notin> T" and U: "T \<subseteq> U" "finite U" "card U \<le> objects"
  shows "bytes_of S \<le> limit \<and> card S \<le> objects"
proof
  have fin: "finite T" using assms(2) finite_subset by blast
  have "bytes_of S \<le> bytes_of (insert (name, r) T)" by (rule bytes_of_mono [OF assms(1)]) (simp add: fin)
  also have "\<dots> \<le> bytes_of T + rr_reserved_bytes r" by (rule bytes_of_insert [OF fin])
  also have "\<dots> \<le> sum_list (map (\<lambda>(_, r). rr_reserved_bytes r) xs) + rr_reserved_bytes r"
    using le_trans [OF bytes_of_mono [OF assms(2)] bytes_of_list] by simp
  also have "\<dots> \<le> limit" using bytes by (simp add: sat_sum_add_le [OF cap(1)])
  finally show "bytes_of S \<le> limit" .
  have "card S \<le> card (insert (name, r) T)" by (rule card_mono [OF _ assms(1)]) (simp add: fin)
  also have "\<dots> \<le> Suc (card T)" by (simp add: card_insert_if fin)
  also have "\<dots> \<le> objects"
  proof (cases known)
    case True
    obtain r0 where r0: "(name, r0) \<in> U" "(name, r0) \<notin> T" using known [OF True] by blast
    have "Suc (card T) = card (insert (name, r0) T)" using r0(2) fin by simp
    also have "\<dots> \<le> card U" by (rule card_mono) (use U r0 in auto)
    finally show ?thesis using U(3) by simp
  next
    case False
    have "card T \<le> length xs" using le_trans [OF card_mono [OF _ assms(2)] card_length] by simp
    then show ?thesis using count False by (simp add: sat_add_le [OF cap(2)])
  qed
  finally show "card S \<le> objects" .
qed

lemma held_update:
  assumes "qw_partial w' = AList.update n f (qw_partial w)" "pf_record f = Some r"
  shows "held w' \<subseteq> insert (n, r) {(m, s) \<in> held w. m \<noteq> n}"
  using assms by (auto simp: held_def update_conv split: if_splits)

lemma temp_not_reservation: "\<not> is_reservation (temp_name k n)"
proof -
  have here: "contains_str s p" if "starts_with s p" for s p using that by (cases s) (simp_all add: starts_with_iff)
  have mid: "contains_str (x @ p @ y) p" for x p y
  proof (induction x)
    case Nil
    show ?case by (rule here) (simp add: starts_with_iff)
  qed simp
  have "contains_str ((dot # n) @ lit ''.tmp-'' @ nat_digits k) (lit ''.tmp-'')" by (rule mid)
  then show ?thesis by (simp add: is_reservation_def is_atomic_temp_def temp_name_def starts_with_iff)
qed

lemma write_reservation_held:
  assumes "write_reservation env n r w = (res, w')"
  shows "(\<exists>x. res = Inl x) \<and> held w' \<subseteq> held w \<or> res = Inr () \<and> held w' \<subseteq> insert (n, r) {(m, s) \<in> held w. m \<noteq> n}"
    and "distinct (map fst (qw_partial w)) \<Longrightarrow> distinct (map fst (qw_partial w'))"
proof -
  let ?f = "\<lparr>pf_len = qe_json_len env r, pf_modified = rr_updated_at r, pf_record = Some r\<rparr>"
  consider (ok) "res = Inr ()" "qw_partial w' = AList.update n ?f (qw_partial w)"
    | (temp) "\<exists>x. res = Inl x" "qw_partial w' = AList.update (temp_name (qw_step w) n) ?f (qw_partial w)"
    | (same) "\<exists>x. res = Inl x" "qw_partial w' = qw_partial w"
    using assms by (auto simp: write_reservation_def Let_def split: if_splits)
  then show "(\<exists>x. res = Inl x) \<and> held w' \<subseteq> held w \<or> res = Inr () \<and> held w' \<subseteq> insert (n, r) {(m, s) \<in> held w. m \<noteq> n}"
  proof cases
    case ok
    then show ?thesis using held_update [OF ok(2)] by simp
  next
    case temp
    have "held w' \<subseteq> held w"
      using temp(2) temp_not_reservation by (auto simp: held_def update_conv split: if_splits)
    then show ?thesis using temp(1) by blast
  next
    case same
    then show ?thesis by (simp add: held_def)
  qed
  show "distinct (map fst (qw_partial w'))" if "distinct (map fst (qw_partial w))"
    using that assms by (auto simp: write_reservation_def Let_def distinct_update split: if_splits)
qed

lemma check_reservation_Inr:
  assumes "check_reservation limits owner name target recs = Inr reserved"
  defines "others \<equiv> filter (\<lambda>(n, _). n \<noteq> name) recs"
  defines "own \<equiv> filter (\<lambda>(_, r). rr_owner r = owner) others"
  defines "known \<equiv> \<exists>r. (name, r) \<in> set recs"
  shows "sat_add (length own) (if known then 0 else 1) \<le> max_owner_partial_objects limits"
    "sat_add (length others) (if known then 0 else 1) \<le> max_global_partial_objects limits"
    "sat_add (sat_sum (map (\<lambda>(_, r). rr_reserved_bytes r) own)) target \<le> max_owner_partial_bytes limits"
    "sat_add (sat_sum (map (\<lambda>(_, r). rr_reserved_bytes r) others)) target = reserved"
proof -
  have "list_ex (\<lambda>(n, _). n = name) recs \<longleftrightarrow> known" by (auto simp: list_ex_iff known_def)
  then show "sat_add (length own) (if known then 0 else 1) \<le> max_owner_partial_objects limits"
    "sat_add (length others) (if known then 0 else 1) \<le> max_global_partial_objects limits"
    "sat_add (sat_sum (map (\<lambda>(_, r). rr_reserved_bytes r) own)) target \<le> max_owner_partial_bytes limits"
    "sat_add (sat_sum (map (\<lambda>(_, r). rr_reserved_bytes r) others)) target = reserved"
    using assms(1) by (auto simp: check_reservation_def Let_def others_def own_def split: if_splits)
qed

text \<open>The record that is written, on top of what the scan left.\<close>

lemma reserve_success:
  fixes owner key target now
  defines "r \<equiv> \<lparr>rr_owner = owner, rr_scoped_key = key, rr_reserved_bytes = target, rr_updated_at = now\<rparr>"
  assumes new: "held w' \<subseteq> insert (name, r) {(m, s) \<in> held w2. m \<noteq> name}"
    and recs: "held w2 \<subseteq> set recs" "set recs \<subseteq> held w" and check: "check_reservation limits owner name target recs = Inr reserved"
    and cap: "reserved \<le> max_global_bytes limits" and fit: "limits_fit limits" and before: "reservations_fit limits w"
    and own: "\<forall>r. (name, r) \<in> held w \<longrightarrow> rr_owner r = owner"
  shows "reservations_fit limits w' \<and> (\<forall>(n, r) \<in> held w'. (n, r) \<in> held w \<or> n = name \<and> rr_owner r = owner)"
proof -
  let ?T = "{(m, s) \<in> held w2. m \<noteq> name}"
  let ?To = "{(m, s) \<in> ?T. rr_owner s = owner}"
  let ?known = "\<exists>r. (name, r) \<in> set recs"
  note c = check_reservation_Inr [OF check]
  have fits: "int (max_owner_partial_bytes limits) < U64_END - 1" "int (max_owner_partial_objects limits) < U64_END - 1"
    "int (max_global_bytes limits) < U64_END - 1" "int (max_global_partial_objects limits) < U64_END - 1"
    using fit by (simp_all add: limits_fit_def)
  have b: "card (owner_held o' w) \<le> max_owner_partial_objects limits" "card (held w) \<le> max_global_partial_objects limits"
    "bytes_of (owner_held o' w) \<le> max_owner_partial_bytes limits" for o'
    using before by (simp_all add: reservations_fit_def)
  have bytes: "rr_reserved_bytes r = target" and owner: "rr_owner r = owner" by (simp_all add: r_def)
  have sub: "held w2 \<subseteq> held w" using recs by blast
  have "bytes_of (held w') \<le> max_global_bytes limits \<and> card (held w') \<le> max_global_partial_objects limits"
  proof (rule one_more [where T = ?T and U = "held w" and known = ?known, OF new _ fits(3,4) _ c(2)])
    show "?T \<subseteq> set (filter (\<lambda>(n, _). n \<noteq> name) recs)" using recs(1) by auto
    show "sat_add (sat_sum (map (\<lambda>(_, r). rr_reserved_bytes r) (filter (\<lambda>(n, _). n \<noteq> name) recs))) (rr_reserved_bytes r) \<le> max_global_bytes limits"
      using c(4) cap by (simp add: bytes)
  qed (use sub recs(2) b in auto)
  moreover have "bytes_of (owner_held owner w') \<le> max_owner_partial_bytes limits \<and> card (owner_held owner w') \<le> max_owner_partial_objects limits"
  proof (rule one_more [where T = ?To and U = "owner_held owner w" and known = ?known, OF _ _ fits(1,2) _ c(1)])
    show "owner_held owner w' \<subseteq> insert (name, r) ?To" using new by (auto simp: owner_held_def)
    show "?To \<subseteq> set (filter (\<lambda>(_, r). rr_owner r = owner) (filter (\<lambda>(n, _). n \<noteq> name) recs))" using recs(1) by auto
    show "sat_add (sat_sum (map (\<lambda>(_, r). rr_reserved_bytes r) (filter (\<lambda>(_, r). rr_owner r = owner) (filter (\<lambda>(n, _). n \<noteq> name) recs))))
        (rr_reserved_bytes r) \<le> max_owner_partial_bytes limits"
      using c(3) by (simp add: bytes)
    show "\<exists>r0. (name, r0) \<in> owner_held owner w \<and> (name, r0) \<notin> ?To" if ?known
      using that recs(2) own by (fastforce simp: owner_held_def)
    show "?To \<subseteq> owner_held owner w" using sub by (auto simp: owner_held_def)
  qed (use b in auto)
  moreover have "bytes_of (owner_held o' w') \<le> max_owner_partial_bytes limits \<and> card (owner_held o' w') \<le> max_owner_partial_objects limits"
    if "o' \<noteq> owner" for o'
  proof -
    have "owner_held o' w' \<subseteq> owner_held o' w" using new sub that owner by (auto simp: owner_held_def)
    then show ?thesis
      using bytes_of_mono [of "owner_held o' w'" "owner_held o' w"] card_mono [of "owner_held o' w" "owner_held o' w'"] b(1,3) by (meson le_trans owner_held_finite)
  qed
  ultimately have "reservations_fit limits w'" unfolding reservations_fit_def by metis
  then show ?thesis using new sub owner by auto
qed

lemma capacity_bound: "ensure_global_capacity env limits reserved w = (Inr x, w') \<Longrightarrow> reserved \<le> max_global_bytes limits"
  by (auto simp: ensure_global_capacity_def st_lift_def split: if_splits)

lemma reserve_fits:
  assumes run: "reserve_at env limits owner key name target now w = (res, w')"
    and fit: "limits_fit limits" and distinct: "distinct (map fst (qw_partial w))" and before: "reservations_fit limits w"
    and own: "\<forall>r. (name, r) \<in> held w \<longrightarrow> rr_owner r = owner"
  shows "reservations_fit limits w'" "distinct (map fst (qw_partial w'))"
    "\<forall>(n, r) \<in> held w'. (n, r) \<in> held w \<or> n = name \<and> rr_owner r = owner"
proof -
  let ?r = "\<lparr>rr_owner = owner, rr_scoped_key = key, rr_reserved_bytes = target, rr_updated_at = now\<rparr>"
  have "reservations_fit limits w' \<and> distinct (map fst (qw_partial w'))
    \<and> (\<forall>(n, r) \<in> held w'. (n, r) \<in> held w \<or> n = name \<and> rr_owner r = owner)" (is "?goal w'")
  proof -
    have less: "?goal w'" if "held w' \<subseteq> held w" "distinct (map fst (qw_partial w'))" for w'
      using that reservations_fit_mono [OF that(1) before] by auto
    obtain r1 w1 where scan: "scan_reservations env limits now w = (r1, w1)" by fastforce
    note trim1 = held_mono [OF trims_run(1) [OF trims_scan scan]] trims_run(2) [OF trims_scan scan distinct]
    show ?thesis
    proof (cases "target > max_object_bytes limits \<or> (\<exists>e. r1 = Inl e)")
      case True
      then have "w' = w \<or> w' = w1" using run scan by (auto simp: reserve_at_def st_lift_def st_bind_def split: if_splits)
      then show ?thesis using less trim1 distinct by auto
    next
      case False
      then obtain recs where recs: "r1 = Inr recs" by (cases r1) auto
      note records = scan_records [OF scan [unfolded recs]]
      show ?thesis
      proof (cases "check_reservation limits owner name target recs")
        case (Inl e)
        then have "w' = w1" using run scan recs False by (simp add: reserve_at_def st_lift_def st_bind_def)
        then show ?thesis using less trim1 by auto
      next
        case (Inr reserved)
        obtain r2 w2 where cap: "ensure_global_capacity env limits reserved w1 = (r2, w2)" by fastforce
        have trim2: "held w2 \<subseteq> held w1" "distinct (map fst (qw_partial w2))"
          using held_mono [OF trims_run(1) [OF trims_capacity cap]] trims_run(2) [OF trims_capacity cap trim1(2)] .
        show ?thesis
        proof (cases r2)
          case (Inl e)
          then have "w' = w2" using run scan recs False Inr cap by (simp add: reserve_at_def st_lift_def st_bind_def)
          then show ?thesis using less trim1 trim2 by auto
        next
          case r2: (Inr u)
          have wrote: "write_reservation env name ?r w2 = (res, w')"
            using run scan recs False Inr cap r2 by (simp add: reserve_at_def st_lift_def st_bind_def)
          note wr = write_reservation_held [OF wrote]
          have dist: "distinct (map fst (qw_partial w'))" by (rule wr(2) [OF trim2(2)])
          from wr(1) show ?thesis
          proof (elim disjE conjE)
            assume "held w' \<subseteq> held w2"
            then show ?thesis using less trim1 trim2 dist by auto
          next
            assume new: "held w' \<subseteq> insert (name, ?r) {(m, s) \<in> held w2. m \<noteq> name}"
            show ?thesis
              using reserve_success [OF new _ _ Inr _ fit before own] records(1,3) trim1 trim2 capacity_bound [OF cap [unfolded r2]] distinct dist
              by auto
          qed
        qed
      qed
    qed
  qed
  then show "reservations_fit limits w'" "distinct (map fst (qw_partial w'))"
    "\<forall>(n, r) \<in> held w'. (n, r) \<in> held w \<or> n = name \<and> rr_owner r = owner" by auto
qed

section \<open>Histories\<close>

lemma trims_until [simp]: "trims (evict_until env fits gs b n)"
proof (induction gs arbitrary: b n)
  case Nil
  show ?case by (rule trims_same) (simp add: st_ret_def)
next
  case (Cons g gs)
  have "evict_until env fits (g # gs) b n =
      st_bind (delete_keys env (pb_keys g)) (\<lambda>_. st_bind (discard_blob_if_unreferenced env (pb_hash g)) (\<lambda>_.
        let bytes = b - pb_size g; objects = n - length (pb_keys g) in
        if fits bytes objects then st_ret (bytes, objects) else evict_until env fits gs bytes objects))"
    by (rule ext) simp
  then show ?case using Cons by (auto simp: Let_def intro!: trims_bind)
qed

lemma trims_room [simp]: "trims (make_room env fits e gs b n)"
  unfolding make_room_def by (auto intro!: trims_bind)

lemma trims_prepare [simp]: "trims (prepare_commit env limits owner key incoming)"
proof -
  have owner: "trims (ensure_owner_committed_capacity env limits owner key incoming pending)" for pending
    unfolding ensure_owner_committed_capacity_def Let_def
    by (intro trims_bind trims_load trims_fun, rule exI, rule conjI [OF trims_bind [OF trims_room trims_basic(1)] refl])
  have "trims (ensure_global_committed_capacity env limits key incoming pending)" for pending
    unfolding ensure_global_committed_capacity_def Let_def 
    by (intro trims_bind trims_load trims_fun, rule exI, rule conjI [OF trims_room refl])
  then have inner: "trims (st_bind (ensure_owner_committed_capacity env limits owner key incoming pending) (\<lambda>new.
      st_bind (ensure_global_committed_capacity env limits key incoming pending) (\<lambda>_. register_commit (p new))))" for pending p
    using owner by (intro trims_bind) simp_all
  show ?thesis
    unfolding prepare_commit_def Let_def
  proof (intro trims_bind trims_attempt trims_fun)
    fix w :: quota_world
    let ?pending = "map snd (qw_pending w)"
    let ?admit = "st_bind (ensure_owner_committed_capacity env limits owner key incoming ?pending) (\<lambda>new.
          st_bind (ensure_global_committed_capacity env limits key incoming ?pending) (\<lambda>_.
            register_commit \<lparr>pn_owner = owner, pn_scoped_key = key, pn_bytes = incoming, pn_objects = new\<rparr>))"
    let ?m = "if max_object_bytes limits < incoming then st_lift (Inl (ObjectTooLarge incoming (max_object_bytes limits)))
        else if max_owner_committed_bytes limits < incoming then st_lift (Inl OwnerCommitted) else ?admit"
    have "trims ?m" using inner by simp
    moreover have "(if max_object_bytes limits < incoming then (Inl (ObjectTooLarge incoming (max_object_bytes limits)), w)
        else if max_owner_committed_bytes limits < incoming then (Inl OwnerCommitted, w) else ?admit w) = ?m w"
      by (simp add: st_lift_def)
    ultimately show "\<exists>m'. trims m' \<and> (if max_object_bytes limits < incoming then (Inl (ObjectTooLarge incoming (max_object_bytes limits)), w)
        else if max_owner_committed_bytes limits < incoming then (Inl OwnerCommitted, w) else ?admit w) = m' w" by blast
  qed simp
qed

text \<open>What happens to a cache, in the order of the quota lock: reservations, commits and maintenance, and whatever the
  writers of blobs and rows do to the store in between.\<close>

datatype quota_event =
    ReserveEvent cache_owner str str nat nat
  | ReleaseEvent str
  | MaintainEvent nat
  | CommitEvent cache_owner str nat
  | DropEvent nat
  | StoreEvent "cache_entry list" "(str \<times> byte list) list"

fun quota_step :: "quota_env \<Rightarrow> cache_limits \<Rightarrow> quota_event \<Rightarrow> quota_world \<Rightarrow> quota_world" where
  "quota_step env limits (ReserveEvent owner key name target now) w = snd (reserve_at env limits owner key name target now w)"
| "quota_step env limits (ReleaseEvent name) w = snd (release_reservation env name w)"
| "quota_step env limits (MaintainEvent now) w = snd (maintain_at env limits now w)"
| "quota_step env limits (CommitEvent owner key n) w = snd (prepare_commit env limits owner key n w)"
| "quota_step env limits (DropEvent n) w = drop_admission n w"
| "quota_step env limits (StoreEvent rows blobs) w = w\<lparr>qw_index := rows, qw_blobs := blobs\<rparr>"

definition quota_run :: "quota_env \<Rightarrow> cache_limits \<Rightarrow> quota_event list \<Rightarrow> quota_world \<Rightarrow> quota_world" where
  "quota_run env limits es w = fold (quota_step env limits) es w"

text \<open>A place of the partial directory belongs to one owner.\<close>

definition places_owned :: "quota_event list \<Rightarrow> bool" where
  "places_owned es \<longleftrightarrow> (\<forall>owner owner' key key' name n n' t t'.
     ReserveEvent owner key name n t \<in> set es \<and> ReserveEvent owner' key' name n' t' \<in> set es \<longrightarrow> owner = owner')"

lemma quota_step_other:
  assumes "\<forall>owner key name n t. e \<noteq> ReserveEvent owner key name n t"
  shows "held (quota_step env limits e w) \<subseteq> held w"
    and "distinct (map fst (qw_partial w)) \<Longrightarrow> distinct (map fst (qw_partial (quota_step env limits e w)))"
proof -
  have "trims (release_reservation env n)" "trims (maintain_at env limits t)" for n t
    by (simp_all add: release_reservation_def maintain_at_def trims_bind)
  then have "map_of (qw_partial (quota_step env limits e w)) \<subseteq>\<^sub>m map_of (qw_partial w)
    \<and> (distinct (map fst (qw_partial w)) \<longrightarrow> distinct (map fst (qw_partial (quota_step env limits e w))))"
    using assms trims_prepare unfolding trims_def by (cases e) (simp_all add: drop_admission_def)
  then show "held (quota_step env limits e w) \<subseteq> held w"
    "distinct (map fst (qw_partial w)) \<Longrightarrow> distinct (map fst (qw_partial (quota_step env limits e w)))"
    using held_mono by blast+
qed

lemma quota_run_fits:
  assumes "limits_fit limits" "places_owned (done_es @ es)" "reservations_fit limits w" "distinct (map fst (qw_partial w))"
    "\<forall>(n, r) \<in> held w. \<exists>key m t. ReserveEvent (rr_owner r) key n m t \<in> set done_es"
  shows "reservations_fit limits (quota_run env limits es w)"
  using assms
proof (induction es arbitrary: w done_es)
  case (Cons e es)
  let ?w = "quota_step env limits e w"
  have run: "quota_run env limits (e # es) w = quota_run env limits es ?w" by (simp add: quota_run_def)
  have owned: "places_owned ((done_es @ [e]) @ es)" using Cons.prems(2) by simp
  have "reservations_fit limits ?w \<and> distinct (map fst (qw_partial ?w))
    \<and> (\<forall>(n, r) \<in> held ?w. \<exists>key m t. ReserveEvent (rr_owner r) key n m t \<in> set (done_es @ [e]))"
  proof (cases "\<exists>owner key name n t. e = ReserveEvent owner key name n t")
    case True
    then obtain owner key name n t where e: "e = ReserveEvent owner key name n t" by blast
    obtain res where step: "reserve_at env limits owner key name n t w = (res, ?w)" by (metis e prod.collapse quota_step.simps(1))
    have own: "\<forall>r. (name, r) \<in> held w \<longrightarrow> rr_owner r = owner"
    proof (intro allI impI)
      fix r assume "(name, r) \<in> held w"
      then obtain key' m t' where "ReserveEvent (rr_owner r) key' name m t' \<in> set done_es" using Cons.prems(5) by blast
      then show "rr_owner r = owner" using Cons.prems(2) unfolding places_owned_def e by (metis Un_iff list.set_intros(1) set_append)
    qed
    note fits = reserve_fits [OF step Cons.prems(1,4,3) own]
    show ?thesis using fits Cons.prems(5) e by fastforce
  next
    case False
    then have other: "\<forall>owner key name n t. e \<noteq> ReserveEvent owner key name n t" by blast
    note q = quota_step_other [OF other, where env = env and limits = limits and w = w]
    have "\<exists>key m t. ReserveEvent (rr_owner r) key n m t \<in> set (done_es @ [e])" if "(n, r) \<in> held ?w" for n r
      using that q(1) Cons.prems(5) by fastforce
    then show ?thesis using q(2) Cons.prems(4) reservations_fit_mono [OF q(1) Cons.prems(3)] by blast
  qed
  then show ?case using Cons.IH [OF Cons.prems(1) owned] unfolding run by blast
qed (simp add: quota_run_def)

text \<open>C34. Whatever downloads, commits and maintenance do to a cache, in any order and with any failures of the file system and
  the index, the reservations on disk never exceed the quotas: no owner holds more bytes or more objects than the
  limits allow, and all owners together hold no more bytes than the cache may have and no more objects than the
  global limit. A place in the directory is used by one owner only, and the limits are below the largest number.\<close>

theorem reservations_stay_within_quotas:
  assumes "limits_fit limits" "places_owned es" "qw_partial w = []"
  shows "bytes_of (owner_held owner (quota_run env limits es w)) \<le> max_owner_partial_bytes limits
    \<and> card (owner_held owner (quota_run env limits es w)) \<le> max_owner_partial_objects limits
    \<and> bytes_of (held (quota_run env limits es w)) \<le> max_global_bytes limits
    \<and> card (held (quota_run env limits es w)) \<le> max_global_partial_objects limits"
proof -
  have none: "held w = {}" "owner_held owner w = {}" for owner using assms(3) by (auto simp: held_def owner_held_def)
  have "reservations_fit limits (quota_run env limits es w)"
    by (rule quota_run_fits [where done_es = "[]"]) (use assms none in \<open>simp_all add: reservations_fit_def bytes_of_def\<close>)
  then show ?thesis by (simp add: reservations_fit_def)
qed

definition sample_cache_limits :: cache_limits where
  "sample_cache_limits = \<lparr>max_object_bytes = 9, max_owner_partial_bytes = 9, max_owner_partial_objects = 2, max_owner_committed_bytes = 8,
     max_owner_committed_objects = 5, max_global_bytes = 20, max_global_partial_objects = 3, max_global_committed_objects = 9,
     max_queued_writes = 2, max_queued_bytes = 9, reservation_chunk_bytes = 1, min_free_space_bytes = 1, partial_ttl = 5\<rparr>"

definition sample_quota_env :: quota_env where
  "sample_quota_env = \<lparr>qe_fails = (\<lambda>_. False), qe_path = Some, qe_json_len = (\<lambda>_. 1), qe_free = (\<lambda>_. Some 99), qe_complete = True\<rparr>"

definition sample_cache :: quota_world where
  "sample_cache = \<lparr>qw_index = [], qw_blobs = [], qw_partial = [], qw_pending = [], qw_next_id = 0, qw_step = 0\<rparr>"

definition sample_history :: "quota_event list" where
  "sample_history = [ReserveEvent HostOwner (scoped_key HostOwner (lit ''k'')) (lit ''a.reservation'') 6 1,
     ReserveEvent HostOwner (scoped_key HostOwner (lit ''l'')) (lit ''b.reservation'') 6 2]"

lemma sample_limits_fit: "limits_fit sample_cache_limits"
  by (simp add: limits_fit_def sample_cache_limits_def U64_END_def)

theorem reservations_stay_within_quotas_witness:
  "map fst (qw_partial (quota_run sample_quota_env sample_cache_limits sample_history sample_cache)) = [lit ''a.reservation'']
   \<and> bytes_of (held (quota_run sample_quota_env sample_cache_limits sample_history sample_cache)) \<le> 20"
proof -
  have "map fst (qw_partial (quota_run sample_quota_env sample_cache_limits sample_history sample_cache)) = [lit ''a.reservation'']" by code_simp
  moreover have "places_owned sample_history" by (auto simp: places_owned_def sample_history_def)
  moreover have "qw_partial sample_cache = []" "max_global_bytes sample_cache_limits = 20" by (simp_all add: sample_cache_def sample_cache_limits_def)
  ultimately show ?thesis using reservations_stay_within_quotas [OF sample_limits_fit, of sample_history sample_cache] by simp
qed

lemma default_limits_fit: "limits_fit default_limits"
  by (simp add: limits_fit_def default_limits_def U64_END_def)

text \<open>The places of streamed downloads, named after the digest of the scoped key, belong to one owner when the digest
  does not collide.\<close>

definition sidecar_name :: "(str \<Rightarrow> str) \<Rightarrow> cache_owner \<Rightarrow> str \<Rightarrow> str" where
  "sidecar_name digest owner key = digest (scoped_key owner key) @ lit ''.reservation''"

lemma sidecar_names_owned:
  assumes "inj digest" "short_owner owner" "sidecar_name digest owner key = sidecar_name digest owner' key'"
  shows "owner = owner'"
proof -
  have "scoped_key owner key = scoped_key owner' key'" using assms(1,3) by (simp add: sidecar_name_def inj_eq)
  then have "parse_scoped_key (scoped_key owner' key') = Some (owner, key)" using assms(2) parse_scoped_key_scoped by metis
  then show ?thesis by (simp add: parse_scoped_key_scoped split: if_splits)
qed

end
