(* ===== verification/Quota_Commits.thy ===== *)
theory Quota_Commits
  imports Quota_Reservations
begin

text \<open>
  Commits that are admitted fit into the limits of their owner and of the cache, after the blobs used longest ago were
  evicted. Rows that name one blob form a group; evicting groups removes exactly their rows.
\<close>

section \<open>Groups\<close>

definition hash_size :: "(cache_entry \<Rightarrow> nat) \<Rightarrow> cache_entry list \<Rightarrow> str \<Rightarrow> nat" where
  "hash_size sz rows h = foldr (\<lambda>e m. max (sz e) m) (filter (\<lambda>e. ce_hash e = h) rows) 0"

text \<open>The bytes of some rows: every blob counts once.\<close>

definition blob_bytes :: "(cache_entry \<Rightarrow> nat) \<Rightarrow> cache_entry list \<Rightarrow> nat" where
  "blob_bytes sz rows = (\<Sum>h \<in> ce_hash ` set rows. hash_size sz rows h)"

definition groups_of :: "(cache_entry \<Rightarrow> nat) \<Rightarrow> cache_entry list \<Rightarrow> physical_blob list \<Rightarrow> bool" where
  "groups_of sz rows gs \<longleftrightarrow> distinct (map pb_hash gs) \<and> set (map pb_hash gs) = ce_hash ` set rows
     \<and> (\<forall>g \<in> set gs. pb_size g = hash_size sz rows (pb_hash g)
          \<and> pb_keys g = map ce_key (filter (\<lambda>e. ce_hash e = pb_hash g) rows))"

lemma hash_size_snoc: "hash_size sz (rows @ [e]) h = (if ce_hash e = h then max (hash_size sz rows h) (sz e) else hash_size sz rows h)"
proof -
  have "foldr (\<lambda>e m. max (sz e) m) (xs @ [e]) 0 = max (foldr (\<lambda>e m. max (sz e) m) xs 0) (sz e)" for xs
    by (induction xs) (simp_all add: max.assoc)
  then show ?thesis by (simp add: hash_size_def)
qed

lemma hash_size_none: "h \<notin> ce_hash ` set rows \<Longrightarrow> hash_size sz rows h = 0"
proof -
  assume "h \<notin> ce_hash ` set rows"
  then have "filter (\<lambda>e. ce_hash e = h) rows = []" by (auto simp: filter_empty_conv)
  then show ?thesis by (simp add: hash_size_def)
qed

lemma add_to_group_hashes: "set (map pb_hash (add_to_group pos e s gs)) = insert (ce_hash e) (set (map pb_hash gs))"
  "distinct (map pb_hash gs) \<Longrightarrow> distinct (map pb_hash (add_to_group pos e s gs))"
proof -
  show hashes: "set (map pb_hash (add_to_group pos e s gs)) = insert (ce_hash e) (set (map pb_hash gs))" for gs
    by (induction gs) auto
  show "distinct (map pb_hash gs) \<Longrightarrow> distinct (map pb_hash (add_to_group pos e s gs))"
  proof (induction gs)
    case (Cons g gs)
    have "pb_hash g \<notin> set (map pb_hash (add_to_group pos e s gs))" if "pb_hash g \<noteq> ce_hash e"
      using Cons.prems that unfolding hashes by auto
    then show ?case using Cons by auto
  qed simp
qed

lemma add_to_group_member:
  assumes "g \<in> set (add_to_group pos e s gs)" "distinct (map pb_hash gs)"
  shows "(g \<in> set gs \<and> pb_hash g \<noteq> ce_hash e)
    \<or> (pb_hash g = ce_hash e \<and> (ce_hash e \<notin> set (map pb_hash gs) \<and> pb_size g = s \<and> pb_keys g = [ce_key e]
        \<or> (\<exists>g0 \<in> set gs. pb_hash g0 = ce_hash e \<and> pb_size g = max (pb_size g0) s \<and> pb_keys g = pb_keys g0 @ [ce_key e])))"
  using assms
proof (induction gs)
  case (Cons g' gs)
  show ?case
  proof (cases "pb_hash g' = ce_hash e")
    case True
    have "pb_hash x \<noteq> ce_hash e" if "x \<in> set gs" for x using Cons.prems(2) True that by (force simp: image_iff)
    then show ?thesis using Cons.prems True by auto
  next
    case False
    then show ?thesis using Cons by auto
  qed
qed auto

lemma add_to_group_of:
  assumes gs: "groups_of sz rows gs"
  shows "groups_of sz (rows @ [e]) (add_to_group pos e (sz e) gs)"
  unfolding groups_of_def
proof (intro conjI ballI)
  have dist: "distinct (map pb_hash gs)" and hashes: "set (map pb_hash gs) = ce_hash ` set rows" using gs by (auto simp: groups_of_def)
  show "distinct (map pb_hash (add_to_group pos e (sz e) gs))" by (rule add_to_group_hashes(2) [OF dist])
  show "set (map pb_hash (add_to_group pos e (sz e) gs)) = ce_hash ` set (rows @ [e])"
    unfolding add_to_group_hashes(1) hashes by auto
  fix g assume g: "g \<in> set (add_to_group pos e (sz e) gs)"
  have old: "\<And>g. g \<in> set gs \<Longrightarrow> pb_size g = hash_size sz rows (pb_hash g)"
    "\<And>g. g \<in> set gs \<Longrightarrow> pb_keys g = map ce_key (filter (\<lambda>e. ce_hash e = pb_hash g) rows)" using gs by (auto simp: groups_of_def)
  have none: "hash_size sz rows (ce_hash e) = 0" "filter (\<lambda>e'. ce_hash e' = ce_hash e) rows = []" if "ce_hash e \<notin> set (map pb_hash gs)"
    using that hash_size_none [of "ce_hash e" rows sz] unfolding hashes by (force simp: filter_empty_conv image_iff)+
  have "pb_size g = hash_size sz (rows @ [e]) (pb_hash g) \<and> pb_keys g = map ce_key (filter (\<lambda>e. ce_hash e = pb_hash g) (rows @ [e]))"
  proof -
    from add_to_group_member [OF g dist] consider (same) "g \<in> set gs" "pb_hash g \<noteq> ce_hash e"
      | (first) "pb_hash g = ce_hash e" "ce_hash e \<notin> set (map pb_hash gs)" "pb_size g = sz e" "pb_keys g = [ce_key e]"
      | (more) g0 where "pb_hash g = ce_hash e" "g0 \<in> set gs" "pb_hash g0 = ce_hash e" "pb_size g = max (pb_size g0) (sz e)"
          "pb_keys g = pb_keys g0 @ [ce_key e]" by blast
    then show ?thesis
    proof cases
      case same
      then show ?thesis using old [OF same(1)] by (simp add: hash_size_snoc)
    next
      case first
      show ?thesis using none [OF first(2)] first(1,3,4) by (simp add: hash_size_snoc)
    next
      case more
      show ?thesis using old [OF more(2)] more(1,3,4,5) by (simp add: hash_size_snoc)
    qed
  qed
  then show "pb_size g = hash_size sz (rows @ [e]) (pb_hash g)" "pb_keys g = map ce_key (filter (\<lambda>e. ce_hash e = pb_hash g) (rows @ [e]))"
    by blast+
qed

lemma collect_groups_of: "groups_of sz (filter counted rows) (collect_groups counted sz rows)"
proof (induction rows rule: rev_induct)
  case Nil
  then show ?case by (simp add: groups_of_def collect_groups_def)
next
  case (snoc e rows)
  have "collect_groups counted sz (rows @ [e]) =
      (if counted e then add_to_group (length rows) e (sz e) (collect_groups counted sz rows) else collect_groups counted sz rows)"
    by (simp add: collect_groups_def enumerate_append_eq)
  then show ?case using snoc add_to_group_of by auto
qed

lemma groups_lru_of: "groups_of sz (filter counted rows) (groups_lru counted sz rows)"
  using collect_groups_of [of sz counted rows] by (simp add: groups_of_def groups_lru_def distinct_map)

lemma groups_bytes: "groups_of sz rows gs \<Longrightarrow> sum_list (map pb_size gs) = blob_bytes sz rows"
proof -
  assume gs: "groups_of sz rows gs"
  have "map pb_size gs = map (hash_size sz rows) (map pb_hash gs)" using gs by (auto simp: groups_of_def)
  then have "sum_list (map pb_size gs) = sum_list (map (hash_size sz rows) (map pb_hash gs))" by (simp only:)
  also have "\<dots> = sum (hash_size sz rows) (set (map pb_hash gs))"
    using gs by (intro sum.distinct_set_conv_list [symmetric]) (simp add: groups_of_def)
  finally show ?thesis using gs by (simp add: groups_of_def blob_bytes_def)
qed

text \<open>Without the rows of the first group the rest are the groups of what is left.\<close>

lemma groups_of_tail:
  assumes "groups_of sz rows (g # gs)"
  shows "groups_of sz (filter (\<lambda>e. ce_hash e \<noteq> pb_hash g) rows) gs"
proof -
  have size: "hash_size sz (filter (\<lambda>e. ce_hash e \<noteq> pb_hash g) rows) h = hash_size sz rows h" if "h \<noteq> pb_hash g" for h
    using that by (simp add: hash_size_def filter_filter conj_commute cong: conj_cong)
  have keys: "filter (\<lambda>e. ce_hash e = h) (filter (\<lambda>e. ce_hash e \<noteq> pb_hash g) rows) = filter (\<lambda>e. ce_hash e = h) rows" if "h \<noteq> pb_hash g" for h
    using that by (auto simp: filter_filter intro: filter_cong)
  have "pb_hash x \<noteq> pb_hash g" if "x \<in> set gs" for x using that assms by (force simp: groups_of_def image_iff)
  moreover have "set (map pb_hash gs) = ce_hash ` set (filter (\<lambda>e. ce_hash e \<noteq> pb_hash g) rows)"
  proof -
    have "insert (pb_hash g) (pb_hash ` set gs) = ce_hash ` set rows" "pb_hash g \<notin> pb_hash ` set gs" using assms by (simp_all add: groups_of_def)
    then have "pb_hash ` set gs = ce_hash ` set rows - {pb_hash g}" by blast
    moreover have "ce_hash ` set (filter (\<lambda>e. ce_hash e \<noteq> pb_hash g) rows) = ce_hash ` set rows - {pb_hash g}" by auto
    ultimately show ?thesis by simp
  qed
  ultimately show ?thesis using assms size keys by (auto simp: groups_of_def simp del: filter_filter)
qed

lemma groups_objects: "groups_of sz rows gs \<Longrightarrow> sum_list (map (\<lambda>g. length (pb_keys g)) gs) = length rows"
proof (induction gs arbitrary: rows)
  case Nil
  then show ?case by (simp add: groups_of_def)
next
  case (Cons g gs)
  have "length (pb_keys g) = length (filter (\<lambda>e. ce_hash e = pb_hash g) rows)" using Cons.prems by (simp add: groups_of_def)
  then show ?case using Cons.IH [OF groups_of_tail [OF Cons.prems]] sum_length_filter_compl [of "\<lambda>e. ce_hash e = pb_hash g" rows] by simp
qed

section \<open>Eviction\<close>

lemma load_pages_rows:
  assumes "acc = take (length acc) rows"
  shows "load_pages rows acc = rows"
  using assms
proof (induction rows acc rule: load_pages.induct)
  case (1 rows acc)
  let ?page = "take INDEX_PAGE_SIZE (drop (length acc) rows)"
  have joined: "acc @ ?page = take (length (acc @ ?page)) rows"
  proof -
    have "acc @ ?page = take (length acc + INDEX_PAGE_SIZE) rows" using 1(2) by (metis take_add)
    then show ?thesis by (metis append_take_drop_id append_eq_conv_conj)
  qed
  show ?case
  proof (cases "length ?page < INDEX_PAGE_SIZE")
    case True
    then have "?page = drop (length acc) rows" by simp
    then have "acc @ ?page = rows" using 1(2) by (metis append_take_drop_id)
    then show ?thesis using True by (simp add: load_pages.simps [of rows acc] Let_def del: length_take length_drop)
  next
    case False
    then show ?thesis using 1(1) [OF refl False joined] by (simp add: load_pages.simps [of rows acc] Let_def del: length_take length_drop)
  qed
qed

text \<open>The paths of two blobs differ.\<close>

definition blob_paths_distinct :: "quota_env \<Rightarrow> bool" where
  "blob_paths_distinct env \<longleftrightarrow> (\<forall>h h' p. qe_path env h = Some p \<and> qe_path env h' = Some p \<longrightarrow> h = h')"

text \<open>From one state to another only rows that may be evicted are gone, and the blobs of the others are as they were.\<close>

definition evicts :: "quota_env \<Rightarrow> (cache_entry \<Rightarrow> bool) \<Rightarrow> quota_world \<Rightarrow> quota_world \<Rightarrow> bool" where
  "evicts env counted w w' \<longleftrightarrow>
     (\<exists>keep. qw_index w' = filter keep (qw_index w) \<and> (\<forall>e \<in> set (qw_index w). \<not> counted e \<longrightarrow> keep e))
     \<and> qw_pending w' = qw_pending w \<and> qw_next_id w' = qw_next_id w
     \<and> (\<forall>e \<in> set (qw_index w'). physical_blob_size env (qw_blobs w') e = physical_blob_size env (qw_blobs w) e)"

lemma evicts_refl: "qw_index w' = qw_index w \<Longrightarrow> qw_pending w' = qw_pending w \<Longrightarrow> qw_next_id w' = qw_next_id w \<Longrightarrow> qw_blobs w' = qw_blobs w
  \<Longrightarrow> evicts env counted w w'"
  unfolding evicts_def by (auto intro: exI [of _ "\<lambda>_. True"])

lemma evicts_trans:
  assumes "evicts env counted w w1" "evicts env counted w1 w2"
  shows "evicts env counted w w2"
proof -
  obtain k1 k2 where k: "qw_index w1 = filter k1 (qw_index w)" "\<forall>e \<in> set (qw_index w). \<not> counted e \<longrightarrow> k1 e"
    "qw_index w2 = filter k2 (qw_index w1)" "\<forall>e \<in> set (qw_index w1). \<not> counted e \<longrightarrow> k2 e" using assms unfolding evicts_def by blast
  have "qw_index w2 = filter (\<lambda>e. k1 e \<and> k2 e) (qw_index w)" using k(1,3) by (simp add: filter_filter conj_commute)
  moreover have "\<forall>e \<in> set (qw_index w). \<not> counted e \<longrightarrow> k1 e \<and> k2 e" using k by auto
  ultimately show ?thesis using assms k(1,3) unfolding evicts_def by auto
qed

lemma evicts_weaken: "evicts env counted w w' \<Longrightarrow> (\<And>e. counted e \<Longrightarrow> counted' e) \<Longrightarrow> evicts env counted' w w'"
  unfolding evicts_def by blast

lemma attempt_Inr: "attempt env f w = (Inr x, w') \<Longrightarrow> w' = f (w\<lparr>qw_step := Suc (qw_step w)\<rparr>)"
  by (simp add: attempt_def Let_def split: if_splits)

lemma delete_keys_Inr:
  "delete_keys env ks w = (Inr x, w') \<Longrightarrow> qw_index w' = filter (\<lambda>e. ce_key e \<notin> set ks) (qw_index w)
    \<and> qw_blobs w' = qw_blobs w \<and> qw_pending w' = qw_pending w \<and> qw_next_id w' = qw_next_id w"
proof (induction ks arbitrary: w)
  case Nil
  then show ?case by (simp add: st_ret_eq)
next
  case (Cons k ks)
  obtain w1 where 1: "index_delete env k w = (Inr (), w1)" and 2: "delete_keys env ks w1 = (Inr x, w')"
    using Cons.prems by (auto simp: st_bind_Inr)
  have "w1 = w\<lparr>qw_step := Suc (qw_step w), qw_index := filter (\<lambda>e. ce_key e \<noteq> k) (qw_index w)\<rparr>"
    using attempt_Inr [OF 1 [unfolded index_delete_def]] by simp
  then show ?case using Cons.IH [OF 2] by (simp add: filter_filter conj_commute)
qed

lemma discard_Inr:
  assumes "discard_blob_if_unreferenced env h w = (Inr x, w')" "blob_paths_distinct env"
  shows "evicts env (\<lambda>_. False) w w'"
proof -
  obtain used w1 where has: "has_content_hash env h w = (Inr used, w1)"
    and rest: "(if used then st_ret () else remove_physical_blob env h) w1 = (Inr x, w')"
    using assms(1) by (auto simp: discard_blob_if_unreferenced_def st_bind_Inr)
  have w1: "w1 = w\<lparr>qw_step := Suc (qw_step w)\<rparr>" and used: "\<not> used \<Longrightarrow> \<forall>e \<in> set (qw_index w). ce_hash e \<noteq> h"
    using has by (auto simp: has_content_hash_def st_bind_Inr list_ex_iff dest!: attempt_Inr split: if_splits)
  show ?thesis
  proof (cases "used \<or> qe_path env h = None")
    case True
    then have "w' = w1" using rest by (auto simp: st_ret_eq remove_physical_blob_def split: if_splits)
    then show ?thesis by (auto simp: w1 intro: evicts_refl)
  next
    case False
    then obtain p where p: "qe_path env h = Some p" by auto
    have w': "w' = w\<lparr>qw_step := Suc (Suc (qw_step w)), qw_blobs := AList.delete p (qw_blobs w)\<rparr>"
    proof -
      have "attempt env (\<lambda>w. w\<lparr>qw_blobs := AList.delete p (qw_blobs w)\<rparr>) w1 = (Inr x, w')"
        using rest False p by (simp add: remove_physical_blob_def)
      from attempt_Inr [OF this] show ?thesis by (simp add: w1)
    qed
    have "physical_blob_size env (AList.delete p (qw_blobs w)) e = physical_blob_size env (qw_blobs w) e" if "e \<in> set (qw_index w)" for e
    proof -
      have "qe_path env (ce_hash e) \<noteq> Some p" using used False that assms(2) p unfolding blob_paths_distinct_def by metis
      then show ?thesis by (cases "qe_path env (ce_hash e)") (auto simp: physical_blob_size_def delete_conv)
    qed
    then show ?thesis by (auto simp: evicts_def w' intro: exI [of _ "\<lambda>_. True"])
  qed
qed

lemma evict_group:
  assumes groups: "groups_of sz (filter counted (qw_index w)) (g # gs)" and distinct: "distinct (map ce_key (qw_index w))"
    and index: "qw_index w1 = filter (\<lambda>e. ce_key e \<notin> set (pb_keys g)) (qw_index w)"
  shows "filter counted (qw_index w1) = filter (\<lambda>e. ce_hash e \<noteq> pb_hash g) (filter counted (qw_index w))"
    "\<forall>e \<in> set (qw_index w). \<not> counted e \<longrightarrow> ce_key e \<notin> set (pb_keys g)"
proof -
  have keys: "pb_keys g = map ce_key (filter (\<lambda>e. ce_hash e = pb_hash g) (filter counted (qw_index w)))"
    using groups by (simp add: groups_of_def)
  have same: "e = e'" if "e \<in> set (qw_index w)" "e' \<in> set (qw_index w)" "ce_key e = ce_key e'" for e e'
    using that distinct by (auto simp: distinct_map inj_on_def)
  have mem: "ce_key e \<in> set (pb_keys g) \<longleftrightarrow> counted e \<and> ce_hash e = pb_hash g" if "e \<in> set (qw_index w)" for e
    using that same by (auto simp: keys)
  then show "\<forall>e \<in> set (qw_index w). \<not> counted e \<longrightarrow> ce_key e \<notin> set (pb_keys g)" by blast
  show "filter counted (qw_index w1) = filter (\<lambda>e. ce_hash e \<noteq> pb_hash g) (filter counted (qw_index w))"
    unfolding index filter_filter by (rule filter_cong [OF refl]) (use mem in auto)
qed

lemma evict_until_Inr:
  assumes "evict_until env fits gs b n w = (Inr (b', n'), w')" "groups_of sz (filter counted (qw_index w)) gs"
    "distinct (map ce_key (qw_index w))" "blob_paths_distinct env" "b = blob_bytes sz (filter counted (qw_index w))"
    "n = length (filter counted (qw_index w))"
  shows "evicts env counted w w' \<and> b' = blob_bytes sz (filter counted (qw_index w')) \<and> n' = length (filter counted (qw_index w'))"
  using assms
proof (induction gs arbitrary: b n w)
  case Nil
  then show ?case by (auto simp: st_ret_eq intro: evicts_refl)
next
  case (Cons g gs)
  let ?b = "b - pb_size g" and ?n = "n - length (pb_keys g)"
  obtain w1 w2 where 1: "delete_keys env (pb_keys g) w = (Inr (), w1)" and 2: "discard_blob_if_unreferenced env (pb_hash g) w1 = (Inr (), w2)"
    and 3: "(if fits ?b ?n then st_ret (?b, ?n) else evict_until env fits gs ?b ?n) w2 = (Inr (b', n'), w')"
    using Cons.prems(1) by (auto simp: st_bind_Inr Let_def)
  note d = delete_keys_Inr [OF 1]
  note group = evict_group [OF Cons.prems(2,3) conjunct1 [OF d]]
  have "evicts env counted w w1" using d group(2) by (auto simp: evicts_def)
  moreover have "evicts env counted w1 w2" by (rule evicts_weaken [OF discard_Inr [OF 2 Cons.prems(4)]]) simp
  ultimately have e2: "evicts env counted w w2" by (rule evicts_trans)
  have "qw_index w2 = qw_index w1"
    using discard_Inr [OF 2 Cons.prems(4)] by (auto simp: evicts_def)
  then have rows: "filter counted (qw_index w2) = filter (\<lambda>e. ce_hash e \<noteq> pb_hash g) (filter counted (qw_index w))" using group(1) by simp
  have tail: "groups_of sz (filter counted (qw_index w2)) gs" unfolding rows by (rule groups_of_tail [OF Cons.prems(2)])
  have b: "?b = blob_bytes sz (filter counted (qw_index w2))"
    using groups_bytes [OF tail] groups_bytes [OF Cons.prems(2)] Cons.prems(5) by simp
  have n: "?n = length (filter counted (qw_index w2))"
    using groups_objects [OF tail] groups_objects [OF Cons.prems(2)] Cons.prems(6) by simp
  have dist: "distinct (map ce_key (qw_index w2))" using Cons.prems(3) e2 by (auto simp: evicts_def distinct_map_filter)
  show ?case
  proof (cases "fits ?b ?n")
    case True
    then have "w' = w2" "b' = ?b" "n' = ?n" using 3 by (auto simp: st_ret_eq)
    then show ?thesis using e2 b n by simp
  next
    case False
    then have "evict_until env fits gs ?b ?n w2 = (Inr (b', n'), w')" using 3 by simp
    from Cons.IH [OF this tail dist Cons.prems(4) b n] show ?thesis using evicts_trans [OF e2] by blast
  qed
qed

lemma make_room_Inr:
  assumes "make_room env fits e gs b n w = (Inr x, w')" "groups_of sz (filter counted (qw_index w)) gs"
    "distinct (map ce_key (qw_index w))" "blob_paths_distinct env" "b = blob_bytes sz (filter counted (qw_index w))"
    "n = length (filter counted (qw_index w))"
  shows "evicts env counted w w'" "fits (blob_bytes sz (filter counted (qw_index w'))) (length (filter counted (qw_index w')))"
proof -
  have "evicts env counted w w' \<and> fits (blob_bytes sz (filter counted (qw_index w'))) (length (filter counted (qw_index w')))"
  proof (cases "fits b n")
    case True
    then have "w' = w" using assms(1) by (simp add: make_room_def st_ret_eq)
    then show ?thesis using True assms(5,6) by (auto intro: evicts_refl)
  next
    case False
    then obtain b' n' w1 where run: "evict_until env fits gs b n w = (Inr (b', n'), w1)"
      and ok: "(if fits b' n' then st_ret () else st_lift (Inl e)) w1 = (Inr x, w')"
      using assms(1) by (auto simp: make_room_def st_bind_Inr)
    have "fits b' n'" "w' = w1" using ok by (auto simp: st_ret_eq st_lift_eq split: if_splits)
    then show ?thesis using evict_until_Inr [OF run assms(2-6)] by auto
  qed
  then show "evicts env counted w w'" "fits (blob_bytes sz (filter counted (qw_index w'))) (length (filter counted (qw_index w')))" by auto
qed

section \<open>Admitted commits\<close>

lemma sat_sum_exact: "int (sum_list ns) < U64_END \<Longrightarrow> sat_sum ns = sum_list ns"
  by (simp add: sat_sum_eq)

lemma fits_under_exact:
  assumes "int max_bytes < U64_END - 1" "int max_objects < U64_END - 1"
    "fits_under max_bytes max_objects (sat_sum ps) (sat_sum os) incoming new bytes objects"
  shows "bytes + sum_list ps + incoming \<le> max_bytes" "objects + sum_list os + new \<le> max_objects"
proof -
  have exact: "a + sum_list ns + c \<le> limit" if "int limit < U64_END - 1" "sat_add (sat_add a (sat_sum ns)) c \<le> limit" for a ns c limit
    using that by (simp add: sat_add_def sat_sum_eq nat_le_iff)
  show "bytes + sum_list ps + incoming \<le> max_bytes" "objects + sum_list os + new \<le> max_objects"
    using exact assms by (simp_all add: fits_under_def)
qed

lemma load_Inr: "load_entries_lru env w = (Inr rows, w') \<Longrightarrow> rows = qw_index w \<and> w' = w\<lparr>qw_step := Suc (qw_step w)\<rparr>"
  by (auto simp: load_entries_lru_def st_bind_Inr load_pages_rows dest!: attempt_Inr)

lemma hash_size_le: "(\<And>e. e \<in> set rows \<Longrightarrow> sz e = sz' e) \<Longrightarrow> hash_size sz rows h = hash_size sz' rows h"
  by (induction rows) (auto simp: hash_size_def)

lemma blob_bytes_cong: "(\<And>e. e \<in> set rows \<Longrightarrow> sz e = sz' e) \<Longrightarrow> blob_bytes sz rows = blob_bytes sz' rows"
  using hash_size_le [of rows sz sz'] by (simp add: blob_bytes_def)

lemma blob_bytes_filter: "blob_bytes sz (filter P rows) \<le> blob_bytes sz rows"
proof -
  have size: "hash_size sz (filter P rows) h \<le> hash_size sz rows h" for h
    by (induction rows) (auto simp: hash_size_def le_max_iff_disj)
  have "blob_bytes sz (filter P rows) \<le> (\<Sum>h \<in> ce_hash ` set (filter P rows). hash_size sz rows h)"
    unfolding blob_bytes_def by (rule sum_mono) (rule size)
  also have "\<dots> \<le> blob_bytes sz rows" unfolding blob_bytes_def by (rule sum_mono2) auto
  finally show ?thesis .
qed

text \<open>What one test of the commits leaves: the rows it counts fit.\<close>

lemma room_for_commit:
  assumes run: "make_room env (fits_under mb mo (sat_sum ps) (sat_sum os) incoming new) e
      (groups_lru counted (physical_blob_size env (qw_blobs w)) (qw_index w))
      (sat_sum (map pb_size (groups_lru counted (physical_blob_size env (qw_blobs w)) (qw_index w)))) n w = (Inr x, w')"
    and n: "n = length (filter counted (qw_index w))" and limits: "int mb < U64_END - 1" "int mo < U64_END - 1"
    and distinct: "distinct (map ce_key (qw_index w))" and paths: "blob_paths_distinct env"
    and total: "int (blob_bytes (physical_blob_size env (qw_blobs w)) (qw_index w)) < U64_END"
  shows "evicts env counted w w'"
    "blob_bytes (physical_blob_size env (qw_blobs w')) (filter counted (qw_index w')) + sum_list ps + incoming \<le> mb"
    "length (filter counted (qw_index w')) + sum_list os + new \<le> mo"
proof -
  let ?sz = "physical_blob_size env (qw_blobs w)"
  note groups = groups_lru_of [of ?sz counted "qw_index w"]
  have "int (blob_bytes ?sz (filter counted (qw_index w))) < U64_END" using blob_bytes_filter [of ?sz counted "qw_index w"] total by linarith
  then have b: "sat_sum (map pb_size (groups_lru counted ?sz (qw_index w))) = blob_bytes ?sz (filter counted (qw_index w))"
    using groups_bytes [OF groups] by (simp add: sat_sum_exact)
  note room = make_room_Inr [OF run groups distinct paths b n]
  show ev: "evicts env counted w w'" by (rule room(1))
  have "blob_bytes (physical_blob_size env (qw_blobs w')) (filter counted (qw_index w')) = blob_bytes ?sz (filter counted (qw_index w'))"
    by (rule blob_bytes_cong) (use ev in \<open>auto simp: evicts_def\<close>)
  then show "blob_bytes (physical_blob_size env (qw_blobs w')) (filter counted (qw_index w')) + sum_list ps + incoming \<le> mb"
    "length (filter counted (qw_index w')) + sum_list os + new \<le> mo"
    using fits_under_exact [OF limits room(2)] by simp_all
qed


lemma evicts_distinct: "evicts env counted w w' \<Longrightarrow> distinct (map ce_key (qw_index w)) \<Longrightarrow> distinct (map ce_key (qw_index w'))"
  by (auto simp: evicts_def distinct_map_filter)

lemma evicts_counted:
  assumes "evicts env counted w w'"
  shows "blob_bytes (physical_blob_size env (qw_blobs w')) (filter P (qw_index w')) \<le> blob_bytes (physical_blob_size env (qw_blobs w)) (filter P (qw_index w))"
    "length (filter P (qw_index w')) \<le> length (filter P (qw_index w))"
proof -
  obtain keep where keep: "qw_index w' = filter keep (qw_index w)" using assms by (auto simp: evicts_def)
  have "blob_bytes (physical_blob_size env (qw_blobs w')) (filter P (qw_index w')) = blob_bytes (physical_blob_size env (qw_blobs w)) (filter P (qw_index w'))"
    by (rule blob_bytes_cong) (use assms in \<open>auto simp: evicts_def\<close>)
  moreover have swap: "filter P (qw_index w') = filter keep (filter P (qw_index w))" unfolding keep by (simp add: conj_commute)
  ultimately show "blob_bytes (physical_blob_size env (qw_blobs w')) (filter P (qw_index w')) \<le> blob_bytes (physical_blob_size env (qw_blobs w)) (filter P (qw_index w))"
    using blob_bytes_filter [of "physical_blob_size env (qw_blobs w)" keep "filter P (qw_index w)"] by (simp del: filter_filter)
  show "length (filter P (qw_index w')) \<le> length (filter P (qw_index w))"
    unfolding swap by (rule length_filter_le)
qed

lemma evicts_total: "evicts env counted w w' \<Longrightarrow>
    blob_bytes (physical_blob_size env (qw_blobs w')) (qw_index w') \<le> blob_bytes (physical_blob_size env (qw_blobs w)) (qw_index w)"
  using evicts_counted(1) [of env counted w w' "\<lambda>_. True"] by simp

lemma evicts_step: "evicts env counted (w\<lparr>qw_step := s\<rparr>) w' \<longleftrightarrow> evicts env counted w w'"
  by (simp add: evicts_def)

lemma owner_stage:
  assumes run: "ensure_owner_committed_capacity env limits owner key incoming pending w = (Inr new, w')"
    and limits: "int (max_owner_committed_bytes limits) < U64_END - 1" "int (max_owner_committed_objects limits) < U64_END - 1"
    and distinct: "distinct (map ce_key (qw_index w))" and paths: "blob_paths_distinct env"
    and total: "int (blob_bytes (physical_blob_size env (qw_blobs w)) (qw_index w)) < U64_END" "int (length (qw_index w)) < U64_END"
  shows "new = count_new key (qw_index w)" "evicts env (owner_counted owner key) w w'"
    "blob_bytes (physical_blob_size env (qw_blobs w')) (filter (owner_counted owner key) (qw_index w'))
        + sum_list (map pn_bytes (filter (\<lambda>c. pn_owner c = owner \<and> pn_scoped_key c \<noteq> key) pending)) + incoming \<le> max_owner_committed_bytes limits"
    "length (filter (owner_counted owner key) (qw_index w'))
        + sum_list (map pn_objects (filter (\<lambda>c. pn_owner c = owner \<and> pn_scoped_key c \<noteq> key) pending)) + new \<le> max_owner_committed_objects limits"
proof -
  let ?w = "w\<lparr>qw_step := Suc (qw_step w)\<rparr>"
  let ?others = "filter (\<lambda>c. pn_owner c = owner \<and> pn_scoped_key c \<noteq> key) pending"
  let ?gs = "groups_lru (owner_counted owner key) (physical_blob_size env (qw_blobs ?w)) (qw_index ?w)"
  have room: "make_room env (fits_under (max_owner_committed_bytes limits) (max_owner_committed_objects limits)
        (sat_sum (map pn_bytes ?others)) (sat_sum (map pn_objects ?others)) incoming (count_new key (qw_index w)))
      OwnerCommitted ?gs (sat_sum (map pb_size ?gs)) (sat_sum (map (\<lambda>g. length (pb_keys g)) ?gs)) ?w = (Inr (), w')"
    and new: "new = count_new key (qw_index w)"
    using run unfolding ensure_owner_committed_capacity_def st_bind_Inr Let_def
    by (auto simp: st_bind_Inr st_ret_eq dest!: load_Inr)
  have objects: "sum_list (map (\<lambda>g. length (pb_keys g)) ?gs) = length (filter (owner_counted owner key) (qw_index ?w))"
    by (rule groups_objects [OF groups_lru_of])
  have "length (filter (owner_counted owner key) (qw_index ?w)) \<le> length (qw_index w)" by simp
  then have "int (sum_list (map (\<lambda>g. length (pb_keys g)) ?gs)) < U64_END" unfolding objects using total(2) by linarith
  from sat_sum_exact [OF this] have n: "sat_sum (map (\<lambda>g. length (pb_keys g)) ?gs) = length (filter (owner_counted owner key) (qw_index ?w))"
    unfolding objects .
  note r = room_for_commit [OF room n limits _ paths]
  show "new = count_new key (qw_index w)" by (rule new)
  show "evicts env (owner_counted owner key) w w'"
    "blob_bytes (physical_blob_size env (qw_blobs w')) (filter (owner_counted owner key) (qw_index w'))
        + sum_list (map pn_bytes ?others) + incoming \<le> max_owner_committed_bytes limits"
    "length (filter (owner_counted owner key) (qw_index w')) + sum_list (map pn_objects ?others) + new \<le> max_owner_committed_objects limits"
    using r distinct total(1) by (simp_all add: evicts_step new)
qed

lemma global_stage:
  assumes run: "ensure_global_committed_capacity env limits key incoming pending w = (Inr x, w')"
    and limits: "int (max_global_bytes limits) < U64_END - 1" "int (max_global_committed_objects limits) < U64_END - 1"
    and distinct: "distinct (map ce_key (qw_index w))" and paths: "blob_paths_distinct env"
    and total: "int (blob_bytes (physical_blob_size env (qw_blobs w)) (qw_index w)) < U64_END"
  shows "evicts env (\<lambda>e. ce_key e \<noteq> key) w w'"
    "blob_bytes (physical_blob_size env (qw_blobs w')) (filter (\<lambda>e. ce_key e \<noteq> key) (qw_index w'))
        + sum_list (map pn_bytes (filter (\<lambda>c. pn_scoped_key c \<noteq> key) pending)) + incoming \<le> max_global_bytes limits"
    "length (filter (\<lambda>e. ce_key e \<noteq> key) (qw_index w'))
        + sum_list (map pn_objects (filter (\<lambda>c. pn_scoped_key c \<noteq> key) pending)) + count_new key (qw_index w) \<le> max_global_committed_objects limits"
proof -
  let ?w = "w\<lparr>qw_step := Suc (qw_step w)\<rparr>"
  let ?others = "filter (\<lambda>c. pn_scoped_key c \<noteq> key) pending"
  let ?gs = "groups_lru (\<lambda>e. ce_key e \<noteq> key) (physical_blob_size env (qw_blobs ?w)) (qw_index ?w)"
  have room: "make_room env (fits_under (max_global_bytes limits) (max_global_committed_objects limits)
        (sat_sum (map pn_bytes ?others)) (sat_sum (map pn_objects ?others)) incoming (count_new key (qw_index w)))
      GlobalCommitted ?gs (sat_sum (map pb_size ?gs)) (length (filter (\<lambda>e. ce_key e \<noteq> key) (qw_index ?w))) ?w = (Inr x, w')"
    using run unfolding ensure_global_committed_capacity_def st_bind_Inr Let_def by (auto dest!: load_Inr)
  note r = room_for_commit [OF room refl limits _ paths]
  show "evicts env (\<lambda>e. ce_key e \<noteq> key) w w'"
    "blob_bytes (physical_blob_size env (qw_blobs w')) (filter (\<lambda>e. ce_key e \<noteq> key) (qw_index w'))
        + sum_list (map pn_bytes ?others) + incoming \<le> max_global_bytes limits"
    "length (filter (\<lambda>e. ce_key e \<noteq> key) (qw_index w')) + sum_list (map pn_objects ?others) + count_new key (qw_index w)
      \<le> max_global_committed_objects limits"
    using r distinct total by (simp_all add: evicts_step)
qed

definition sample_row :: "string \<Rightarrow> string \<Rightarrow> cache_entry" where
  "sample_row key hash = \<lparr>ce_key = scoped_key (PluginOwner (lit ''p'')) (lit key), ce_hash = lit hash, ce_size = None\<rparr>"

definition sample_full_cache :: quota_world where
  "sample_full_cache = sample_cache\<lparr>qw_index := [sample_row ''a'' ''x'', sample_row ''b'' ''y''], qw_blobs := [(lit ''x'', [1, 2, 3, 4]), (lit ''y'', [5, 6, 7])]\<rparr>"

definition sample_admission :: "(quota_error + nat) \<times> quota_world" where
  "sample_admission = prepare_commit sample_quota_env sample_cache_limits (PluginOwner (lit ''p'')) (scoped_key (PluginOwner (lit ''p'')) (lit ''c'')) 4 sample_full_cache"


end
