(* ===== verification/Content_Cache.thy ===== *)
theory Content_Cache
  imports Quota_Commits
begin

text \<open>
  \<^verbatim>\<open>crates/data/src/features/content_cache/cache.rs\<close>: storing, reading and removing what owners keep under their
  keys, over the quota and the index. A blob lies at the path of its digest. Where a written or used row stands among
  those used longest ago is for the index to say, the parameter \<open>cc_place\<close>. Each critical section is one
  computation; an admission ends with the operation that asked for it. What an owner stored is what it reads, and a
  removal by a plugin reaches only the row of its own key.
\<close>

section \<open>The queue of writes\<close>

record queue_budget =
  qb_max_items :: nat
  qb_max_bytes :: nat
  qb_items :: nat
  qb_bytes :: nat

datatype queue_error = QueueItems | QueueBytes

definition queue_acquire :: "nat \<Rightarrow> queue_budget \<Rightarrow> (queue_error + nat) \<times> queue_budget" where
  "queue_acquire bytes q =
     (if qb_items q \<ge> qb_max_items q then (Inl QueueItems, q)
      else if sat_add (qb_bytes q) bytes > qb_max_bytes q then (Inl QueueBytes, q)
      else (Inr bytes, q\<lparr>qb_items := qb_items q + 1, qb_bytes := sat_add (qb_bytes q) bytes\<rparr>))"

definition drop_permit :: "nat \<Rightarrow> queue_budget \<Rightarrow> queue_budget" where
  "drop_permit bytes q = q\<lparr>qb_items := qb_items q - 1, qb_bytes := qb_bytes q - bytes\<rparr>"

section \<open>Writing\<close>

record cache_env =
  cc_quota :: quota_env
  cc_limits :: cache_limits
  cc_digest :: "byte list \<Rightarrow> str"
  cc_verifies :: "str \<Rightarrow> byte list \<Rightarrow> bool"
  cc_place :: "cache_entry list \<Rightarrow> nat"

definition index_get :: "cache_env \<Rightarrow> str \<Rightarrow> cache_entry option quota" where
  "index_get env key =
     st_bind (attempt (cc_quota env) (\<lambda>w. w)) (\<lambda>_ w. (Inr (find (\<lambda>e. ce_key e = key) (qw_index w)), w))"

definition index_has :: "cache_env \<Rightarrow> str \<Rightarrow> bool quota" where
  "index_has env key =
     st_bind (attempt (cc_quota env) (\<lambda>w. w)) (\<lambda>_ w. (Inr (list_ex (\<lambda>e. ce_key e = key) (qw_index w)), w))"

definition put_row :: "cache_env \<Rightarrow> cache_entry \<Rightarrow> cache_entry list \<Rightarrow> cache_entry list" where
  "put_row env row rows =
     (let others = filter (\<lambda>e. ce_key e \<noteq> ce_key row) rows; n = cc_place env others in take n others @ row # drop n others)"

definition index_upsert :: "cache_env \<Rightarrow> cache_entry \<Rightarrow> unit quota" where
  "index_upsert env row = attempt (cc_quota env) (\<lambda>w. w\<lparr>qw_index := put_row env row (qw_index w)\<rparr>)"

definition probe_replaced_entry :: "cache_env \<Rightarrow> str \<Rightarrow> cache_entry option quota" where
  "probe_replaced_entry env key =
     st_bind (index_has env key) (\<lambda>found. if found then index_get env key else st_ret None)"

text \<open>\<^verbatim>\<open>cacache::write_hash_sync\<close>.\<close>

definition write_blob :: "cache_env \<Rightarrow> byte list \<Rightarrow> str quota" where
  "write_blob env data =
     st_bind (attempt (cc_quota env) (\<lambda>w.
         case qe_path (cc_quota env) (cc_digest env data) of
           None \<Rightarrow> w | Some p \<Rightarrow> w\<lparr>qw_blobs := AList.update p data (qw_blobs w)\<rparr>))
       (\<lambda>_. st_ret (cc_digest env data))"

fun upsert_attempts :: "cache_env \<Rightarrow> nat \<Rightarrow> cache_entry \<Rightarrow> unit quota" where
  "upsert_attempts env 0 row w = st_lift (Inl StoreFailed) w"
| "upsert_attempts env (Suc n) row w =
     (case index_upsert env row w of (Inr _, w) \<Rightarrow> (Inr (), w) | (Inl _, w) \<Rightarrow> upsert_attempts env n row w)"

text \<open>A call whose error is dropped, and one that runs after an error before it is returned.\<close>

definition ignoring :: "'a quota \<Rightarrow> quota_world \<Rightarrow> quota_world" where
  "ignoring m w = snd (m w)"

definition or_else :: "'a quota \<Rightarrow> 'b quota \<Rightarrow> 'a quota" where
  "or_else m cleanup w = (case m w of (Inl e, w) \<Rightarrow> (Inl e, ignoring cleanup w) | ok \<Rightarrow> ok)"

definition row_of :: "str \<Rightarrow> str \<Rightarrow> nat \<Rightarrow> cache_entry" where
  "row_of key hash bytes = \<lparr>ce_key = key, ce_hash = hash, ce_size = Some (int bytes)\<rparr>"

definition discard_previous :: "cache_env \<Rightarrow> cache_entry option \<Rightarrow> str \<Rightarrow> quota_world \<Rightarrow> quota_world" where
  "discard_previous env previous sri w =
     (case previous of
        Some e \<Rightarrow> if ce_hash e \<noteq> sri then ignoring (discard_blob_if_unreferenced (cc_quota env) (ce_hash e)) w else w
      | None \<Rightarrow> w)"

text \<open>The rest of \<^verbatim>\<open>put_for_owner_with\<close> once the commit is admitted.\<close>

definition store_admitted :: "cache_env \<Rightarrow> str \<Rightarrow> str \<Rightarrow> byte list \<Rightarrow> nat \<Rightarrow> str quota" where
  "store_admitted env key name data admission =
     (let release = release_reservation (cc_quota env) name in
      st_bind (or_else (probe_replaced_entry env key) release) (\<lambda>previous.
      st_bind (attempt (cc_quota env) (\<lambda>w. w)) (\<lambda>_.
      st_bind (or_else (write_blob env data) release) (\<lambda>sri w.
        case upsert_attempts env 3 (row_of key sri (length data)) w of
          (Inr _, w) \<Rightarrow>
            st_bind release (\<lambda>_. st_ret sri) (discard_previous env previous sri (drop_admission admission w))
        | (Inl e, w) \<Rightarrow> (Inl e, ignoring release (ignoring (discard_blob_if_unreferenced (cc_quota env) sri) w))))))"

definition put_for_owner_with :: "cache_env \<Rightarrow> cache_owner \<Rightarrow> str \<Rightarrow> byte list \<Rightarrow> str \<Rightarrow> bool \<Rightarrow> nat \<Rightarrow> str quota" where
  "put_for_owner_with env owner raw_key data name pre_reserved now =
     (let key = scoped_key owner raw_key; q = cc_quota env in
      st_bind (if pre_reserved then st_ret () else reserve_at q (cc_limits env) owner key name (length data) now) (\<lambda>_.
      st_bind (or_else (prepare_commit q (cc_limits env) owner key (length data)) (release_reservation q name)) (\<lambda>admission w.
        case store_admitted env key name data admission w of (r, w) \<Rightarrow> (r, drop_admission admission w))))"

text \<open>\<^verbatim>\<open>commit_streaming_for_owner_locked\<close>, with the bytes that went through the writer.\<close>

definition commit_streaming_for_owner_locked :: "cache_env \<Rightarrow> cache_owner \<Rightarrow> str \<Rightarrow> byte list \<Rightarrow> (str \<times> nat) quota" where
  "commit_streaming_for_owner_locked env owner raw_key data =
     (let key = scoped_key owner raw_key in
      st_bind (attempt (cc_quota env) (\<lambda>w. w)) (\<lambda>_.
      st_bind (probe_replaced_entry env key) (\<lambda>previous.
      st_bind (write_blob env data) (\<lambda>sri w.
        case upsert_attempts env 3 (row_of key sri (length data)) w of
          (Inr _, w) \<Rightarrow> (Inr (sri, length data), discard_previous env previous sri w)
        | (Inl e, w) \<Rightarrow> (Inl e, ignoring (discard_blob_if_unreferenced (cc_quota env) sri) w)))))"

section \<open>Reading\<close>

datatype read_error = ReadStore quota_error | ReadTooLarge nat | ReadCorrupt

definition touch_row :: "cache_env \<Rightarrow> str \<Rightarrow> quota_world \<Rightarrow> quota_world" where
  "touch_row env key =
     ignoring (attempt (cc_quota env) (\<lambda>w. w\<lparr>qw_index := (case find (\<lambda>e. ce_key e = key) (qw_index w) of
        None \<Rightarrow> qw_index w | Some e \<Rightarrow> put_row env e (qw_index w))\<rparr>))"

definition read_blob :: "cache_env \<Rightarrow> str \<Rightarrow> cache_entry \<Rightarrow> nat \<Rightarrow> (quota_world, read_error, byte list option) st" where
  "read_blob env key e limit w =
     (case Option.bind (qe_path (cc_quota env) (ce_hash e)) (map_of (qw_blobs w)) of
        None \<Rightarrow> (Inr None, w)
      | Some data \<Rightarrow>
          if length data > limit then (Inl (ReadTooLarge limit), w)
          else if \<not> cc_verifies env (ce_hash e) data then (Inl ReadCorrupt, w)
          else (Inr (Some data), touch_row env key w))"

definition get_indexed_with_limit :: "cache_env \<Rightarrow> str \<Rightarrow> nat \<Rightarrow> (quota_world, read_error, byte list option) st" where
  "get_indexed_with_limit env key limit w =
     (case index_get env key w of
        (Inl x, w) \<Rightarrow> (Inl (ReadStore x), w)
      | (Inr None, w) \<Rightarrow> (Inr None, w)
      | (Inr (Some e), w) \<Rightarrow>
          if (case ce_size e of Some n \<Rightarrow> n \<ge> 0 \<and> n > int limit | None \<Rightarrow> False) then (Inl (ReadTooLarge limit), w)
          else if ce_hash e = [] then (Inr None, w)
          else read_blob env key e limit w)"

definition get_with_limit_for_owner :: "cache_env \<Rightarrow> cache_owner \<Rightarrow> str \<Rightarrow> nat \<Rightarrow> (quota_world, read_error, byte list option) st" where
  "get_with_limit_for_owner env owner raw_key limit =
     st_bind (get_indexed_with_limit env (scoped_key owner raw_key) limit) (\<lambda>found w.
       case found of
         Some data \<Rightarrow> (Inr (Some data), w)
       | None \<Rightarrow>
           if owner = HostOwner then
             (case index_has env raw_key w of
                (Inl x, w) \<Rightarrow> (Inl (ReadStore x), w)
              | (Inr True, w) \<Rightarrow> get_indexed_with_limit env raw_key limit w
              | (Inr False, w) \<Rightarrow> (Inr None, w))
           else (Inr None, w))"

definition has_for_owner :: "cache_env \<Rightarrow> cache_owner \<Rightarrow> str \<Rightarrow> bool quota" where
  "has_for_owner env owner raw_key =
     st_bind (index_has env (scoped_key owner raw_key)) (\<lambda>found.
       if found then st_ret True else if owner = HostOwner then index_has env raw_key else st_ret False)"

text \<open>A page of keys is refused when the index returns one of another owner or without the prefix.\<close>

definition list_keys_with_prefix_page_for_owner :: "cache_owner \<Rightarrow> str \<Rightarrow> str list \<Rightarrow> str list option" where
  "list_keys_with_prefix_page_for_owner owner pre page =
     those (map (\<lambda>key. case parse_scoped_key key of
        None \<Rightarrow> None
      | Some (actual, raw) \<Rightarrow> if actual \<noteq> owner \<or> \<not> starts_with raw pre then None else Some raw) page)"

section \<open>Removing\<close>

fun discard_all :: "quota_env \<Rightarrow> str list \<Rightarrow> unit quota" where
  "discard_all env [] w = st_ret () w"
| "discard_all env (h # hs) w = st_bind (discard_blob_if_unreferenced env h) (\<lambda>_. discard_all env hs) w"

definition hash_of_row :: "cache_env \<Rightarrow> str \<Rightarrow> str list quota" where
  "hash_of_row env key =
     st_bind (index_get env key) (\<lambda>found. st_ret (case found of None \<Rightarrow> [] | Some e \<Rightarrow> [ce_hash e]))"

definition delete_row :: "cache_env \<Rightarrow> str \<Rightarrow> bool quota" where
  "delete_row env key w =
     (let found = list_ex (\<lambda>e. ce_key e = key) (qw_index w) in
      st_bind (index_delete (cc_quota env) key) (\<lambda>_. st_ret found) w)"

definition remove_for_owner :: "cache_env \<Rightarrow> cache_owner \<Rightarrow> str \<Rightarrow> bool quota" where
  "remove_for_owner env owner raw_key =
     (let key = scoped_key owner raw_key; complete = qe_complete (cc_quota env) in
      st_bind (if owner = HostOwner then index_has env raw_key else st_ret False) (\<lambda>legacy.
      st_bind (if complete then hash_of_row env key else st_ret []) (\<lambda>hs.
      st_bind (if complete \<and> legacy then hash_of_row env raw_key else st_ret []) (\<lambda>hs'.
      st_bind (delete_row env key) (\<lambda>removed.
      st_bind (if legacy then delete_row env raw_key else st_ret False) (\<lambda>removed'.
      st_bind (discard_all (cc_quota env) (remdups (hs @ hs'))) (\<lambda>_. st_ret (removed \<or> removed'))))))))"

text \<open>The index goes first, so that no row is left without its blob. Deleting a directory is one step.\<close>

definition clear_content :: "cache_env \<Rightarrow> unit quota" where
  "clear_content env =
     (let q = cc_quota env in
      st_bind (attempt q (\<lambda>w. w\<lparr>qw_index := []\<rparr>)) (\<lambda>_.
      st_bind (\<lambda>w. if qw_blobs w = [] then st_ret () w else attempt q (\<lambda>w. w\<lparr>qw_blobs := []\<rparr>) w) (\<lambda>_ w.
        if qw_partial w = [] then st_ret () w else attempt q (\<lambda>w. w\<lparr>qw_partial := []\<rparr>) w)))"

section \<open>What is stored is read\<close>

lemma find_put_row: "find (\<lambda>e. ce_key e = ce_key row) (put_row env row rows) = Some row"
proof -
  let ?others = "filter (\<lambda>e. ce_key e \<noteq> ce_key row) rows"
  have "find (\<lambda>e. ce_key e = ce_key row) (take n ?others) = None" for n
    by (auto simp: find_None_iff dest!: in_set_takeD)
  moreover have "find P (xs @ ys) = (case find P xs of None \<Rightarrow> find P ys | r \<Rightarrow> r)" for P and xs ys :: "cache_entry list"
    by (induction xs) auto
  ultimately show ?thesis by (simp add: put_row_def Let_def)
qed

lemma upsert_attempts_Inr:
  "upsert_attempts env n row w = (Inr x, w') \<Longrightarrow> qw_index w' = put_row env row (qw_index w) \<and> qw_blobs w' = qw_blobs w"
proof (induction n arbitrary: w)
  case 0
  then show ?case by (simp add: st_lift_eq)
next
  case (Suc n)
  obtain r w1 where run: "index_upsert env row w = (r, w1)" by fastforce
  show ?case
  proof (cases r)
    case (Inl e)
    then have "qw_index w1 = qw_index w" "qw_blobs w1 = qw_blobs w"
      using run by (auto simp: index_upsert_def attempt_def Let_def split: if_splits)
    then show ?thesis using Suc Inl run by simp
  next
    case (Inr u)
    then have "w' = w1" using Suc.prems run by simp
    then show ?thesis using attempt_Inr [OF run [unfolded Inr index_upsert_def]] by simp
  qed
qed

text \<open>Discarding another blob leaves this one.\<close>

lemma discard_keeps:
  assumes "blob_paths_distinct env" "qe_path env sri = Some p" "h \<noteq> sri"
  shows "qw_index (ignoring (discard_blob_if_unreferenced env h) w) = qw_index w"
    "map_of (qw_blobs (ignoring (discard_blob_if_unreferenced env h) w)) p = map_of (qw_blobs w) p"
proof -
  have "qe_path env h \<noteq> Some p" using assms unfolding blob_paths_distinct_def by metis
  then show "qw_index (ignoring (discard_blob_if_unreferenced env h) w) = qw_index w"
    "map_of (qw_blobs (ignoring (discard_blob_if_unreferenced env h) w)) p = map_of (qw_blobs w) p"
    by (auto simp: ignoring_def discard_blob_if_unreferenced_def has_content_hash_def remove_physical_blob_def attempt_def st_bind_def st_ret_def
        Let_def delete_conv split: option.splits)
qed

lemma release_keeps: "release_reservation env n w = (r, w') \<Longrightarrow> qw_index w' = qw_index w \<and> qw_blobs w' = qw_blobs w"
  by (auto simp: release_reservation_def remove_partial_def attempt_def Let_def split: if_splits)

lemma or_else_Inr: "or_else m c w = (Inr x, w') \<longleftrightarrow> m w = (Inr x, w')"
  by (auto simp: or_else_def split: prod.splits sum.splits)

lemma stored:
  assumes "store_admitted env key name data n w = (Inr sri, w')" "blob_paths_distinct (cc_quota env)"
    "qe_path (cc_quota env) (cc_digest env data) = Some p"
  shows "find (\<lambda>e. ce_key e = key) (qw_index w') = Some (row_of key (cc_digest env data) (length data))"
    "map_of (qw_blobs w') p = Some data"
proof -
  let ?row = "row_of key (cc_digest env data) (length data)"
  obtain previous w1 w2 w3 w4 where 1: "write_blob env data w1 = (Inr (cc_digest env data), w2)"
    and 2: "upsert_attempts env 3 ?row w2 = (Inr (), w3)"
    and 3: "release_reservation (cc_quota env) name (discard_previous env previous (cc_digest env data) (drop_admission n w3)) = (Inr (), w4)"
    and w': "w' = w4"
    using assms(1) unfolding store_admitted_def Let_def st_bind_Inr or_else_Inr
    by (fastforce simp: st_bind_Inr st_ret_eq write_blob_def split: prod.splits sum.splits)
  have blob: "map_of (qw_blobs w2) p = Some data"
    using 1 assms(3) by (auto simp: write_blob_def st_bind_Inr st_ret_eq update_conv dest!: attempt_Inr)
  note up = upsert_attempts_Inr [OF 2]
  let ?w = "discard_previous env previous (cc_digest env data) (drop_admission n w3)"
  have kept: "qw_index ?w = qw_index w3" "map_of (qw_blobs ?w) p = map_of (qw_blobs w3) p"
    using discard_keeps [OF assms(2,3)] by (auto simp: discard_previous_def drop_admission_def split: option.splits)
  have "qw_index w4 = qw_index w3" "map_of (qw_blobs w4) p = map_of (qw_blobs w3) p" using release_keeps [OF 3] kept by simp_all
  then show "find (\<lambda>e. ce_key e = key) (qw_index w') = Some ?row" "map_of (qw_blobs w') p = Some data"
    using find_put_row [of ?row env "qw_index w2"] up blob by (simp_all add: w' row_of_def)
qed

text \<open>The digest of the store: it is never empty, has a path and verifies what it was taken of.\<close>

definition digests_work :: "cache_env \<Rightarrow> bool" where
  "digests_work env \<longleftrightarrow> blob_paths_distinct (cc_quota env)
     \<and> (\<forall>data. cc_digest env data \<noteq> [] \<and> qe_path (cc_quota env) (cc_digest env data) \<noteq> None \<and> cc_verifies env (cc_digest env data) data)"

lemma drop_admission_keeps [simp]: "qw_index (drop_admission n w) = qw_index w" "qw_blobs (drop_admission n w) = qw_blobs w"
  "qw_step (drop_admission n w) = qw_step w"
  by (simp_all add: drop_admission_def)

text \<open>C33. What an owner stored under a key is what it reads back: after a write that succeeded, through the reservation, the
  admission with its evictions, the blob, the row and the discarding of the blob it replaced, a read of that key by that
  owner returns exactly the bytes that were written, when they are within the limit of the read and the index answers.
  The digest is not empty, verifies what it was taken of, and different digests have different paths.\<close>

theorem stored_content_is_read:
  assumes put: "put_for_owner_with env owner key data name pre_reserved now w = (Inr sri, w')"
    and digests: "digests_work env" and limit: "length data \<le> limit" and answers: "\<not> qe_fails (cc_quota env) (qw_step w')"
  shows "\<exists>w''. get_with_limit_for_owner env owner key limit w' = (Inr (Some data), w'')"
proof -
  let ?key = "scoped_key owner key"
  let ?row = "row_of ?key (cc_digest env data) (length data)"
  obtain p where p: "qe_path (cc_quota env) (cc_digest env data) = Some p" and paths: "blob_paths_distinct (cc_quota env)"
    and ok: "cc_digest env data \<noteq> []" "cc_verifies env (cc_digest env data) data"
    using digests unfolding digests_work_def by blast
  obtain n w1 where ends: "(case store_admitted env ?key name data n w1 of (r, w) \<Rightarrow> (r, drop_admission n w)) = (Inr sri, w')"
    using put unfolding put_for_owner_with_def Let_def st_bind_Inr by blast
  obtain w2 where store: "store_admitted env ?key name data n w1 = (Inr sri, w2)" and w': "w' = drop_admission n w2"
    using ends by (cases "store_admitted env ?key name data n w1") simp
  note st = stored [OF store paths p]
  have row: "find (\<lambda>e. ce_key e = ?key) (qw_index w') = Some ?row" and blob: "map_of (qw_blobs w') p = Some data"
    using st by (simp_all add: w')
  have "index_get env ?key w' = (Inr (Some ?row), w'\<lparr>qw_step := Suc (qw_step w')\<rparr>)"
    using answers row by (simp add: index_get_def st_bind_def attempt_def Let_def)
  moreover have "read_blob env ?key ?row limit (w'\<lparr>qw_step := Suc (qw_step w')\<rparr>)
      = (Inr (Some data), touch_row env ?key (w'\<lparr>qw_step := Suc (qw_step w')\<rparr>))"
    using p blob ok limit by (simp add: read_blob_def row_of_def)
  ultimately have "get_indexed_with_limit env ?key limit w' = (Inr (Some data), touch_row env ?key (w'\<lparr>qw_step := Suc (qw_step w')\<rparr>))"
    using ok limit by (simp add: get_indexed_with_limit_def row_of_def)
  then show ?thesis by (simp add: get_with_limit_for_owner_def st_bind_def)
qed

definition sample_cache_env :: cache_env where
  "sample_cache_env = \<lparr>cc_quota = sample_quota_env, cc_limits = sample_cache_limits, cc_digest = (\<lambda>data. 1 # map uint data),
     cc_verifies = (\<lambda>h data. h = 1 # map uint data), cc_place = length\<rparr>"

definition sample_put :: "(quota_error + str) \<times> quota_world" where
  "sample_put = put_for_owner_with sample_cache_env (PluginOwner (lit ''p'')) (lit ''c'') [7, 8] (lit ''.buffered-1-0.reservation'') False 3 sample_full_cache"

theorem stored_content_is_read_witness:
  "map ce_key (qw_index (snd sample_put)) = map (scoped_key (PluginOwner (lit ''p''))) [lit ''b'', lit ''c'']
   \<and> fst (get_with_limit_for_owner sample_cache_env (PluginOwner (lit ''p'')) (lit ''c'') 2 (snd sample_put)) = Inr (Some [7, 8])"
proof -
  have index: "map ce_key (qw_index (snd sample_put)) = map (scoped_key (PluginOwner (lit ''p''))) [lit ''b'', lit ''c'']" by code_simp
  have sri: "fst sample_put = Inr [1, 7, 8]" by code_simp
  have put: "put_for_owner_with sample_cache_env (PluginOwner (lit ''p'')) (lit ''c'') [7, 8] (lit ''.buffered-1-0.reservation'') False 3 sample_full_cache
      = (Inr [1, 7, 8], snd sample_put)" using sri unfolding sample_put_def by (metis prod.collapse)
  have digests: "digests_work sample_cache_env"
    by (auto simp: digests_work_def sample_cache_env_def blob_paths_distinct_def sample_quota_env_def)
  have "length [7, 8 :: byte] \<le> 2" "\<not> qe_fails (cc_quota sample_cache_env) (qw_step (snd sample_put))"
    by (simp_all add: sample_cache_env_def sample_quota_env_def)
  then obtain w'' where "get_with_limit_for_owner sample_cache_env (PluginOwner (lit ''p'')) (lit ''c'') 2 (snd sample_put) = (Inr (Some [7, 8]), w'')"
    using stored_content_is_read [OF put digests, of 2] by blast
  then have "fst (get_with_limit_for_owner sample_cache_env (PluginOwner (lit ''p'')) (lit ''c'') 2 (snd sample_put)) = Inr (Some [7, 8])"
    by (metis fst_conv)
  with index show ?thesis by blast
qed

section \<open>What a removal leaves\<close>

text \<open>Whether it succeeds or not, a removal by a plugin leaves every row but the one of its own key.\<close>

lemma discard_index: "qw_index (snd (discard_blob_if_unreferenced env h w)) = qw_index w"
  by (auto simp: discard_blob_if_unreferenced_def has_content_hash_def remove_physical_blob_def attempt_def st_bind_def st_ret_def
      Let_def split: option.splits)

lemma discard_all_index: "qw_index (snd (discard_all env hs w)) = qw_index w"
proof (induction hs arbitrary: w)
  case (Cons h hs)
  obtain r w1 where run: "discard_blob_if_unreferenced env h w = (r, w1)" by fastforce
  have "qw_index w1 = qw_index w" using discard_index [of env h w] run by simp
  then show ?case using Cons [of w1] run by (cases r) (simp_all add: st_bind_def)
qed (simp add: st_ret_def)

lemma hash_of_row_index: "qw_index (snd (hash_of_row env key w)) = qw_index w"
  by (auto simp: hash_of_row_def index_get_def attempt_def st_bind_def st_ret_def Let_def)

lemma delete_row_index:
  "qw_index (snd (delete_row env key w)) = qw_index w \<or> qw_index (snd (delete_row env key w)) = filter (\<lambda>e. ce_key e \<noteq> key) (qw_index w)"
  by (auto simp: delete_row_def index_delete_def attempt_def st_bind_def st_ret_def Let_def)

definition same_but :: "str \<Rightarrow> quota_world \<Rightarrow> quota_world \<Rightarrow> bool" where
  "same_but key w w' \<longleftrightarrow> filter (\<lambda>e. ce_key e \<noteq> key) (qw_index w') = filter (\<lambda>e. ce_key e \<noteq> key) (qw_index w)"

lemma same_but_bind:
  assumes "same_but key w (snd (m w))" and "\<And>x w1. m w = (Inr x, w1) \<Longrightarrow> same_but key w1 (snd (k x w1))"
  shows "same_but key w (snd (st_bind m k w))"
proof (cases "m w")
  case (Pair r w1)
  then show ?thesis using assms by (cases r) (auto simp: st_bind_def same_but_def)
qed

lemma same_but_ret [simp]: "same_but key w (snd (st_ret x w))"
  by (simp add: same_but_def st_ret_def)

lemma plugin_remove_keeps_others: "same_but (scoped_key (PluginOwner p) raw) w (snd (remove_for_owner env (PluginOwner p) raw w))"
proof -
  have rows: "same_but key w (snd (hash_of_row env key' w))" "same_but key w (snd (discard_all q hs w))" for key key' q hs w
    by (simp_all add: same_but_def hash_of_row_index discard_all_index)
  have del: "same_but key w (snd (delete_row env key w))" for key w
    using delete_row_index [of env key w] by (auto simp: same_but_def)
  show ?thesis unfolding remove_for_owner_def Let_def by (auto simp: st_ret_eq intro!: same_but_bind rows del)
qed

text \<open>The host has no such bound. Its fallback to rows from before keys had owners takes the key as it is, and a key that
  reads as one of a plugin reaches that plugin's row.\<close>

lemma host_reads_plugin_row:
  "fst (get_with_limit_for_owner sample_cache_env HostOwner (scoped_key (PluginOwner (lit ''p'')) (lit ''c'')) 2 (snd sample_put)) = Inr (Some [7, 8])
   \<and> map ce_key (qw_index (snd (remove_for_owner sample_cache_env HostOwner (scoped_key (PluginOwner (lit ''p'')) (lit ''c'')) (snd sample_put))))
     = [scoped_key (PluginOwner (lit ''p'')) (lit ''b'')]"
  by code_simp

end
