(* ===== verification/Entry_Time.thy ===== *)
theory Entry_Time
  imports Prelude
begin

text \<open>
  \<^verbatim>\<open>crates/core/src/backends/entry_time.rs\<close>: the modification times of archive entries, rendered in UTC. The
  calendar and the local zone, \<^verbatim>\<open>chrono\<close>'s, are the record \<open>calendar\<close>, and so is the decoder of MS-DOS
  date words of the \<^verbatim>\<open>zip\<close> crate. A reading of a clock and an instant are both seconds since the epoch. A time that a
  tool printed is read as the instant it denotes.
\<close>

unbundle bit_operations_syntax

type_synonym civil_fields = "nat \<times> nat \<times> nat \<times> nat \<times> nat \<times> nat"

datatype local_result = SingleInstant int | AmbiguousInstants int int | NoInstant

record calendar =
  cal_reading :: "int \<Rightarrow> nat \<Rightarrow> nat \<Rightarrow> nat \<Rightarrow> nat \<Rightarrow> nat \<Rightarrow> int option"
  cal_fields :: "int \<Rightarrow> (int \<times> nat \<times> nat \<times> nat \<times> nat \<times> nat) option"
  cal_local :: "int \<Rightarrow> local_result"
  cal_add :: "int \<Rightarrow> int \<Rightarrow> int option"
  cal_msdos :: "16 word \<Rightarrow> 16 word \<Rightarrow> civil_fields option"

section \<open>Rendering\<close>

definition civil :: "nat \<Rightarrow> nat \<Rightarrow> nat \<Rightarrow> nat \<Rightarrow> nat \<Rightarrow> nat \<Rightarrow> str" where
  "civil year month day hour minute sec =
     pad_digits 4 year @ lit ''-'' @ pad_digits 2 month @ lit ''-'' @ pad_digits 2 day @ lit '' ''
     @ pad_digits 2 hour @ lit '':'' @ pad_digits 2 minute @ lit '':'' @ pad_digits 2 sec"

definition from_unix_seconds :: "calendar \<Rightarrow> int \<Rightarrow> str option" where
  "from_unix_seconds cal seconds =
     (case cal_fields cal seconds of
        None \<Rightarrow> None
      | Some (y, m, d, h, mi, s) \<Rightarrow> if y < 0 then None else Some (civil (nat y) m d h mi s))"

definition wall_clock_to_utc_seconds :: "calendar \<Rightarrow> int \<Rightarrow> int option" where
  "wall_clock_to_utc_seconds cal wall =
     (case cal_local cal wall of
        SingleInstant t \<Rightarrow> Some t
      | AmbiguousInstants earliest _ \<Rightarrow> Some earliest
      | NoInstant \<Rightarrow>
          Option.bind (cal_add cal wall (- 3600)) (\<lambda>before_gap.
            case cal_local cal before_gap of
              SingleInstant t \<Rightarrow> cal_add cal t 3600
            | AmbiguousInstants earliest _ \<Rightarrow> cal_add cal earliest 3600
            | NoInstant \<Rightarrow> Some wall))"

definition from_wall_clock :: "calendar \<Rightarrow> civil_fields \<Rightarrow> str option" where
  "from_wall_clock cal = (\<lambda>(year, month, day, hour, minute, sec).
     if int year \<ge> 2147483648 then None
     else Option.bind (cal_reading cal (int year) month day hour minute sec) (\<lambda>wall.
       Option.bind (wall_clock_to_utc_seconds cal wall) (from_unix_seconds cal)))"

definition from_msdos :: "calendar \<Rightarrow> 32 word \<Rightarrow> str option" where
  "from_msdos cal packed =
     Option.bind (cal_msdos cal (ucast (drop_bit 16 packed)) (ucast (packed AND 0xFFFF))) (from_wall_clock cal)"

section \<open>What the tools print\<close>

text \<open>\<^verbatim>\<open>parse::<u32>()\<close>, which allows one plus sign as \<^verbatim>\<open>parse::<u64>()\<close> does.\<close>

definition parse_field :: "str \<Rightarrow> nat option" where
  "parse_field s = Option.bind (parse_u64 s) (\<lambda>n. if int n < 4294967296 then Some n else None)"

text \<open>The first piece of a split is always there; a fourth field, in the date or in the time, is refused.\<close>

definition parse_date :: "str \<Rightarrow> (nat \<times> nat \<times> nat) option" where
  "parse_date s =
     (case split_on (\<lambda>c. c = 45) s of
        [y, m, d] \<Rightarrow> Option.bind (parse_field y) (\<lambda>y. Option.bind (parse_field m) (\<lambda>m.
          map_option (\<lambda>d. (y, m, d)) (parse_field d)))
      | _ \<Rightarrow> None)"

definition parse_clock :: "str \<Rightarrow> (nat \<times> nat \<times> nat) option" where
  "parse_clock s =
     (case split_on (\<lambda>c. c = 58) s of
        [h, m] \<Rightarrow> Option.bind (parse_field h) (\<lambda>h. map_option (\<lambda>m. (h, m, 0)) (parse_field m))
      | [h, m, x] \<Rightarrow> Option.bind (parse_field h) (\<lambda>h. Option.bind (parse_field m) (\<lambda>m.
          map_option (\<lambda>x. (h, m, x)) (parse_field x)))
      | _ \<Rightarrow> None)"

definition from_cli_text :: "calendar \<Rightarrow> str \<Rightarrow> str option" where
  "from_cli_text cal s =
     Option.bind (split_once 32 (trim s)) (\<lambda>(date_part, time_part).
       Option.bind (parse_date date_part) (\<lambda>(year, month, day).
         Option.bind (parse_clock (hd (split_on (\<lambda>c. c = 44 \<or> c = 46) (trim time_part)))) (\<lambda>(hour, minute, sec).
           from_wall_clock cal (year, month, day, hour, minute, sec))))"

section \<open>A printed time is recovered\<close>

lemma pad_digits_ascii: "list_all is_ascii_digit (pad_digits w n)"
  using nat_digits_ascii [of n] by (auto simp: pad_digits_def Let_def list_all_iff is_ascii_digit_def)

lemma pad_digits_not_Nil [simp]: "pad_digits w n \<noteq> []"
  by (simp add: pad_digits_def Let_def)

lemma pad_digits_range: "c \<in> set (pad_digits w n) \<Longrightarrow> 48 \<le> c \<and> c \<le> 57"
  using pad_digits_ascii [of w n] by (auto simp: list_all_iff is_ascii_digit_def)

lemma parse_field_pad [simp]: "int n < 4294967296 \<Longrightarrow> parse_field (pad_digits w n) = Some n"
proof -
  have "(case pad_digits w n of [] \<Rightarrow> pad_digits w n | c # cs \<Rightarrow> if c = 43 then cs else pad_digits w n) = pad_digits w n"
    using pad_digits_range [of 43 w n] by (auto split: list.split)
  then have "parse_u64 (pad_digits w n) = (if int n < U64_END then Some n else None)"
    by (simp add: parse_u64_def Let_def pad_digits_ascii)
  then show "int n < 4294967296 \<Longrightarrow> parse_field (pad_digits w n) = Some n" by (simp add: parse_field_def U64_END_def)
qed

text \<open>Three padded numbers between two separators, as a split sees them.\<close>

lemma split_padded:
  assumes "\<And>c. P c \<Longrightarrow> c < 48 \<or> c > 57" "P sep"
  shows "split_on P (pad_digits i a @ sep # pad_digits j b @ sep # pad_digits k c) = [pad_digits i a, pad_digits j b, pad_digits k c]"
proof -
  have alone: "split_on P (pad_digits w n) = [pad_digits w n]" for w n
    using assms(1) pad_digits_range by (intro split_on_no_sep) fastforce
  show ?thesis using assms(2) by (simp add: split_on_append alone)
qed

definition fraction :: "str \<Rightarrow> bool" where
  "fraction s = (case s of [] \<Rightarrow> True | c # cs \<Rightarrow> (c = 44 \<or> c = 46) \<and> list_all is_ascii_digit cs)"

text \<open>The instant of a reading: the only one, the earlier of two, or that of the hour before a gap plus the hour.\<close>

definition denotes :: "calendar \<Rightarrow> int \<Rightarrow> int \<Rightarrow> bool" where
  "denotes cal wall t \<longleftrightarrow>
     cal_local cal wall = SingleInstant t \<or> (\<exists>later. cal_local cal wall = AmbiguousInstants t later)
     \<or> cal_local cal wall = NoInstant \<and> (\<exists>before t'. cal_add cal wall (- 3600) = Some before
         \<and> (cal_local cal before = SingleInstant t' \<or> (\<exists>later. cal_local cal before = AmbiguousInstants t' later))
         \<and> cal_add cal t' 3600 = Some t)"

lemma trim_between: "\<not> is_whitespace (hd s) \<Longrightarrow> \<not> is_whitespace (last s) \<Longrightarrow> s \<noteq> [] \<Longrightarrow> trim s = s"
  by (simp add: trim_def trim_start_by_def trim_end_by_def dropWhile_eq_self_iff [THEN iffD2] hd_rev)

lemma digit_not_whitespace: "48 \<le> c \<Longrightarrow> c \<le> 57 \<Longrightarrow> \<not> is_whitespace c"
  by (auto simp: is_whitespace_def)

lemma fraction_range: "fraction s \<Longrightarrow> c \<in> set s \<Longrightarrow> 44 \<le> c \<and> c \<le> 57"
  by (cases s) (auto simp: fraction_def list_all_iff is_ascii_digit_def)

lemma printable_not_whitespace: "44 \<le> c \<Longrightarrow> c \<le> 58 \<Longrightarrow> \<not> is_whitespace c"
  by (auto simp: is_whitespace_def)

lemma trim_printable: "(\<And>c. c \<in> set s \<Longrightarrow> 44 \<le> c \<and> c \<le> 58) \<Longrightarrow> trim s = s"
proof (cases "s = []")
  case False
  assume "\<And>c. c \<in> set s \<Longrightarrow> 44 \<le> c \<and> c \<le> 58"
  with False show ?thesis by (intro trim_between) (use printable_not_whitespace in \<open>blast intro: hd_in_set last_in_set\<close>)+
qed (simp add: trim_def trim_start_by_def trim_end_by_def)

lemma parse_printed:
  assumes "int y < 2147483648" "list_all (\<lambda>n. int n < 4294967296) [mo, d, h, mi, x]" "fraction s"
  shows "from_cli_text cal (civil y mo d h mi x @ s) = from_wall_clock cal (y, mo, d, h, mi, x)"
proof -
  let ?date = "pad_digits 4 y @ 45 # pad_digits 2 mo @ 45 # pad_digits 2 d"
  let ?clk = "pad_digits 2 h @ 58 # pad_digits 2 mi @ 58 # pad_digits 2 x"
  have shape: "civil y mo d h mi x @ s = ?date @ 32 # ?clk @ s" by (simp add: civil_def)
  have date: "44 \<le> c \<and> c \<le> 58" if "c \<in> set ?date" for c using that pad_digits_range by fastforce
  have clk: "44 \<le> c \<and> c \<le> 58" if "c \<in> set (?clk @ s)" for c using that pad_digits_range fraction_range [OF assms(3)] by fastforce
  have "trim (?date @ 32 # ?clk @ s) = ?date @ 32 # ?clk @ s"
  proof (rule trim_between)
    have "hd (?date @ 32 # ?clk @ s) \<in> set ?date" by (simp add: hd_in_set)
    then show "\<not> is_whitespace (hd (?date @ 32 # ?clk @ s))" using date printable_not_whitespace by blast
    have "last (?date @ 32 # ?clk @ s) \<in> set (?clk @ s)" using last_in_set [of "?clk @ s"] by (simp add: last_append)
    then show "\<not> is_whitespace (last (?date @ 32 # ?clk @ s))" using clk printable_not_whitespace by blast
  qed simp
  moreover have "split_once 32 (?date @ 32 # ?clk @ s) = Some (?date, ?clk @ s)"
    using date by (fastforce simp: split_once_eq_Some)
  moreover have "parse_date ?date = Some (y, mo, d)"
    using assms(1,2) split_padded [of "\<lambda>c. c = 45" 45 4 y 2 mo 2 d] by (simp add: parse_date_def)
  moreover have "hd (split_on (\<lambda>c. c = 44 \<or> c = 46) (trim (?clk @ s))) = ?clk"
  proof -
    have alone: "split_on (\<lambda>c. c = 44 \<or> c = 46) ?clk = [?clk]" using pad_digits_range by (intro split_on_no_sep) fastforce
    have "trim (?clk @ s) = ?clk @ s" using clk by (rule trim_printable)
    moreover have "hd (split_on (\<lambda>c. c = 44 \<or> c = 46) (?clk @ s)) = ?clk"
    proof (cases s)
      case (Cons c cs)
      then have "c = 44 \<or> c = 46" using assms(3) by (simp add: fraction_def)
      then show ?thesis using split_on_append [of "\<lambda>c. c = 44 \<or> c = 46" c ?clk cs] alone Cons by simp
    qed (use alone in simp)
    ultimately show ?thesis by simp
  qed
  moreover have "parse_clock ?clk = Some (h, mi, x)"
    using assms(2) split_padded [of "\<lambda>c. c = 58" 58 2 h 2 mi 2 x] by (simp add: parse_clock_def)
  ultimately show ?thesis by (simp add: from_cli_text_def shape)
qed

text \<open>C39. The time that a command-line tool printed is the instant it started from: a reading of the local clock, in the shape
  both tools use and whatever fraction of a second they add to it, becomes the rendering in UTC of the instant that the
  reading denotes in the zone, which is the earlier one where the clock went back, and where it went forward the one
  that the rules before the gap give. The fields are those of a date of the calendar.\<close>

theorem printed_time_is_recovered:
  assumes "cal_reading cal (int y) mo d h mi x = Some wall" "denotes cal wall t"
    and "int y < 2147483648" "list_all (\<lambda>n. int n < 4294967296) [mo, d, h, mi, x]" "fraction s"
  shows "from_cli_text cal (civil y mo d h mi x @ s) = from_unix_seconds cal t"
proof -
  have "wall_clock_to_utc_seconds cal wall = Some t"
    using assms(2) by (auto simp: denotes_def wall_clock_to_utc_seconds_def)
  then show ?thesis using parse_printed [OF assms(3-5)] assms(1,3) by (simp add: from_wall_clock_def)
qed

text \<open>A zone two hours ahead, with the minutes of the first of January 1970 as its calendar.\<close>

definition sample_calendar :: calendar where
  "sample_calendar = \<lparr>
     cal_reading = (\<lambda>y m d h mi x. if y = 1970 \<and> m = 1 \<and> d = 1 then Some (int (3600 * h + 60 * mi + x)) else None),
     cal_fields = (\<lambda>t. Some (1970, 1, 1, nat (t div 3600), nat (t div 60 mod 60), nat (t mod 60))),
     cal_local = (\<lambda>t. SingleInstant (t - 7200)),
     cal_add = (\<lambda>t n. Some (t + n)),
     cal_msdos = (\<lambda>_ _. None)\<rparr>"

theorem printed_time_is_recovered_witness:
  "from_cli_text sample_calendar (lit ''1970-01-01 13:37:20,000000000'') = Some (lit ''1970-01-01 11:37:20'')"
proof -
  have printed: "lit ''1970-01-01 13:37:20,000000000'' = civil 1970 1 1 13 37 20 @ lit '',000000000''" by code_simp
  have reading: "cal_reading sample_calendar (int 1970) 1 1 13 37 20 = Some 49040" by (simp add: sample_calendar_def)
  have "denotes sample_calendar 49040 41840" by (simp add: denotes_def sample_calendar_def)
  moreover have "fraction (lit '',000000000'')" by code_simp
  ultimately have "from_cli_text sample_calendar (civil 1970 1 1 13 37 20 @ lit '',000000000'') = from_unix_seconds sample_calendar 41840"
    by (intro printed_time_is_recovered [OF reading]) simp_all
  moreover have "from_unix_seconds sample_calendar 41840 = Some (lit ''1970-01-01 11:37:20'')" by code_simp
  ultimately show ?thesis unfolding printed by (rule trans)
qed

end
