(* ===== verification/Cli_Listing.thy ===== *)
theory Cli_Listing
  imports Archive_Entry Modinfo Entry_Time "HOL-Library.List_Lexorder"
begin

text \<open>
  The listings that the command-line tools print, read back: \<^verbatim>\<open>crates/core/src/backends/sevenz_cli/parser.rs\<close>
  and \<^verbatim>\<open>unrar_cli/parser.rs\<close>, with \<^verbatim>\<open>ArchiveKind\<close> and \<^verbatim>\<open>ArchiveInfo\<close> of
  \<^verbatim>\<open>archive/info.rs\<close>, without the path that is passed through. What the tools answer is the argument.
\<close>

datatype archive_kind = ZipKind | SevenZKind | RarKind | UnknownKind str

record archive_info =
  archive_kind_of :: archive_kind
  info_entries :: "archive_entry list"
  info_encrypted :: bool
  headers_encrypted :: bool
  encryption_method :: "str option"

record listing_env =
  le_tables :: unicode
  le_calendar :: calendar

section \<open>Text\<close>

text \<open>\<^verbatim>\<open>str::split_once\<close> on a string, and \<^verbatim>\<open>join\<close> with one.\<close>

fun split_once_at :: "str \<Rightarrow> str \<Rightarrow> (str \<times> str) option" where
  "split_once_at p [] = (if p = [] then Some ([], []) else None)"
| "split_once_at p (c # cs) =
     (case strip_prefix (c # cs) p of
        Some rest \<Rightarrow> Some ([], rest)
      | None \<Rightarrow> map_option (\<lambda>(a, b). (c # a, b)) (split_once_at p cs))"

fun join_with :: "str \<Rightarrow> str list \<Rightarrow> str" where
  "join_with sep [] = []"
| "join_with sep [x] = x"
| "join_with sep (x # xs) = x @ sep @ join_with sep xs"

definition trim_end :: "str \<Rightarrow> str" where
  "trim_end = trim_end_by is_whitespace"

section \<open>7-Zip\<close>

definition kind_of :: "unicode \<Rightarrow> str \<Rightarrow> archive_kind" where
  "kind_of u rest =
     (let t = str_lower u (trim rest) in
      if t = lit ''zip'' then ZipKind else if t = lit ''7z'' then SevenZKind else if t = lit ''rar'' then RarKind else UnknownKind t)"

definition parse_kind :: "unicode \<Rightarrow> str \<Rightarrow> archive_kind" where
  "parse_kind u slt =
     (case List.map_filter (\<lambda>line. strip_prefix line (lit ''Type = '')) (str_lines slt) of
        [] \<Rightarrow> UnknownKind (lit ''unknown'')
      | rest # _ \<Rightarrow> kind_of u rest)"

text \<open>The decision of \<^verbatim>\<open>is_rar_encrypted\<close> on the output of the tool or its error.\<close>

definition is_rar_encrypted :: "unicode \<Rightarrow> str + str \<Rightarrow> str + bool" where
  "is_rar_encrypted u result =
     (case result of
        Inr out \<Rightarrow> Inr (list_ex (\<lambda>line. starts_with line (lit ''Encrypted = +'')
          \<or> starts_with line (lit ''Encrypted = '') \<and> contains_str line (lit ''+'')) (str_lines out))
      | Inl e \<Rightarrow>
          (let msg = str_lower u e in
           if contains_str msg (lit ''wrong password'') \<or> contains_str msg (lit ''can not open encrypted archive'')
              \<or> contains_str msg (lit ''encrypted'')
           then Inr True else Inl e))"

record slt_state =
  sl_entries :: "archive_entry list"
  sl_cur :: "(str \<times> str) list"
  sl_header :: "str \<rightharpoonup> str"
  sl_in_entries :: bool
  sl_methods :: "str list"  \<comment> \<open>a set, sorted when it is read\<close>

definition parse_size :: "str option \<Rightarrow> u64" where
  "parse_size v = (case Option.bind v parse_u64 of Some n \<Rightarrow> of_nat n | None \<Rightarrow> 0)"

definition slt_path :: "str \<Rightarrow> str" where
  "slt_path p =
     (let p = (case strip_prefix p (lit ''./'') of Some rest \<Rightarrow> rest | None \<Rightarrow> p); p = fwd p in
      if ends_with p [slash] \<and> str_len p > 1 then trim_end_by (\<lambda>c. c = slash) p else p)"

definition slt_entry :: "listing_env \<Rightarrow> (str \<rightharpoonup> str) \<Rightarrow> archive_entry option" where
  "slt_entry env m =
     (case m (lit ''Path'') of
        None \<Rightarrow> None
      | Some p \<Rightarrow>
          if m (lit ''Attributes'') = None \<and> m (lit ''Folder'') = None then None
          else Some \<lparr>entry_path = slt_path p,
            entry_size = parse_size (m (lit ''Size'')),
            packed_size = parse_size (m (lit ''Packed Size'')),
            modified = Option.bind (m (lit ''Modified'')) (from_cli_text (le_calendar env)),
            is_dir = (m (lit ''Folder'') = Some (lit ''+'')
              \<or> (case m (lit ''Attributes'') of Some a \<Rightarrow> 68 \<in> set a | None \<Rightarrow> False)),
            encrypted = (m (lit ''Encrypted'') = Some (lit ''+'')),
            crc32 = Option.bind (m (lit ''CRC'')) (\<lambda>s. let s = str_upper (le_tables env) (trim s) in if s = [] then None else Some s)\<rparr>)"

definition slt_methods :: "(str \<rightharpoonup> str) \<Rightarrow> str list" where
  "slt_methods m =
     (if m (lit ''Encrypted'') = Some (lit ''+'')
      then (case m (lit ''Method'') of Some v \<Rightarrow> if trim v = [] then [] else [trim v] | None \<Rightarrow> []) else [])"

definition slt_flush :: "listing_env \<Rightarrow> slt_state \<Rightarrow> slt_state" where
  "slt_flush env st =
     (let m = map_of (rev (sl_cur st)) in
      case slt_entry env m of
        None \<Rightarrow> st
      | Some e \<Rightarrow> st\<lparr>sl_entries := sl_entries st @ [e], sl_methods := sl_methods st @ slt_methods m\<rparr>)"

definition slt_end_block :: "listing_env \<Rightarrow> slt_state \<Rightarrow> slt_state" where
  "slt_end_block env st = (if sl_cur st = [] then st else (slt_flush env st)\<lparr>sl_cur := []\<rparr>)"

definition header_keys :: "str list" where
  "header_keys = map lit [''Headers Encrypted'', ''Encryption'', ''Encrypted'', ''Header Encryption'', ''Characteristics'']"

definition slt_line :: "listing_env \<Rightarrow> str \<Rightarrow> slt_state \<Rightarrow> slt_state" where
  "slt_line env raw st =
     (let line = trim_end raw in
      if starts_with line (lit ''----------'') then st\<lparr>sl_in_entries := True\<rparr>
      else case split_once_at (lit '' = '') line of
        Some (k, v) \<Rightarrow>
          (let key = trim k; val = trim v in
           if key = lit ''Path'' then
             (let st = slt_end_block env st in st\<lparr>sl_in_entries := True, sl_cur := sl_cur st @ [(key, val)]\<rparr>)
           else if sl_in_entries st \<and> sl_cur st \<noteq> [] \<and> key \<notin> set header_keys then st\<lparr>sl_cur := sl_cur st @ [(key, val)]\<rparr>
           else st\<lparr>sl_header := (sl_header st)(key \<mapsto> val)\<rparr>)
      | None \<Rightarrow> if line = [] then slt_end_block env st else st)"

definition slt_start :: slt_state where
  "slt_start = \<lparr>sl_entries = [], sl_cur = [], sl_header = Map.empty, sl_in_entries = False, sl_methods = []\<rparr>"

definition says_yes :: "str option \<Rightarrow> bool" where
  "says_yes v = (case v of Some x \<Rightarrow> x = lit ''+'' \<or> eq_ignore_ascii_case x (lit ''yes'') | None \<Rightarrow> False)"

definition given :: "str option \<Rightarrow> str list" where
  "given v = (case v of Some x \<Rightarrow> if trim x = [] then [] else [trim x] | None \<Rightarrow> [])"

definition slt_encrypted :: "listing_env \<Rightarrow> archive_entry list \<Rightarrow> (str \<rightharpoonup> str) \<Rightarrow> bool" where
  "slt_encrypted env es h \<longleftrightarrow>
     list_ex encrypted es \<or> says_yes (h (lit ''Encrypted'')) \<or> given (h (lit ''Encryption'')) \<noteq> []
     \<or> (case h (lit ''Characteristics'') of Some v \<Rightarrow> contains_str (str_lower (le_tables env) v) (lit ''encrypted'') | None \<Rightarrow> False)"

definition slt_headers_encrypted :: "listing_env \<Rightarrow> (str \<rightharpoonup> str) \<Rightarrow> bool" where
  "slt_headers_encrypted env h \<longleftrightarrow>
     says_yes (h (lit ''Headers Encrypted'')) \<or> given (h (lit ''Header Encryption'')) \<noteq> []
     \<or> (case h (lit ''Characteristics'') of
          Some v \<Rightarrow> contains_str (str_lower (le_tables env) v) (lit ''headers encrypted'')
            \<or> contains_str (str_lower (le_tables env) v) (lit ''encrypted headers'')
        | None \<Rightarrow> False)"

definition slt_info :: "listing_env \<Rightarrow> archive_kind \<Rightarrow> slt_state \<Rightarrow> archive_info" where
  "slt_info env kind st =
     (let h = sl_header st; secret = slt_encrypted env (sl_entries st) h; hidden = slt_headers_encrypted env h;
          methods = sort (remdups (sl_methods st @ given (h (lit ''Encryption'')) @ given (h (lit ''Header Encryption''))))
      in \<lparr>archive_kind_of = kind, info_entries = sl_entries st, info_encrypted = secret, headers_encrypted = hidden,
          encryption_method = (if secret \<or> hidden
            then if methods \<noteq> [] then Some (join_with (lit '', '') methods) else h (lit ''Method'') else None)\<rparr>)"

definition parse_list_slt :: "listing_env \<Rightarrow> str \<Rightarrow> archive_info" where
  "parse_list_slt env slt =
     slt_info env (parse_kind (le_tables env) slt) (slt_flush env (fold (slt_line env) (str_lines slt) slt_start))"

section \<open>UnRAR\<close>

definition modification_time_field :: "str \<Rightarrow> str option" where
  "modification_time_field line =
     (case List.map_filter (strip_prefix line) (map lit [''Modified: '', ''mtime: '', ''Time: '', ''Last write time: '']) of
        [] \<Rightarrow> None | s # _ \<Rightarrow> Some (trim s))"

definition parse_number :: "str \<Rightarrow> u64" where
  "parse_number s = parse_size (Some (filter is_ascii_digit s))"

record unrar_state =
  ur_entries :: "archive_entry list"
  ur_current :: "archive_entry option"
  ur_encrypted :: bool
  ur_headers :: bool

definition unrar_flush :: "unrar_state \<Rightarrow> unrar_state" where
  "unrar_flush st = (case ur_current st of None \<Rightarrow> st | Some e \<Rightarrow> st\<lparr>ur_entries := ur_entries st @ [e], ur_current := None\<rparr>)"

definition named_entry :: "str \<Rightarrow> archive_entry" where
  "named_entry p = \<lparr>entry_path = p, entry_size = 0, packed_size = 0, modified = None, is_dir = False, encrypted = False, crc32 = None\<rparr>"

text \<open>A line of the current entry, with whether it says that the entry is encrypted.\<close>

definition unrar_field :: "listing_env \<Rightarrow> str \<Rightarrow> archive_entry \<Rightarrow> archive_entry \<times> bool" where
  "unrar_field env line e =
     (if starts_with line (lit ''Type: '') then (e\<lparr>is_dir := contains_str line (lit ''Directory'') \<or> contains_str line (lit ''Dir'')\<rparr>, False)
      else case strip_prefix line (lit ''Size: '') of Some s \<Rightarrow> (e\<lparr>entry_size := parse_number s\<rparr>, False)
      | None \<Rightarrow> (case strip_prefix line (lit ''Packed size: '') of Some s \<Rightarrow> (e\<lparr>packed_size := parse_number s\<rparr>, False)
      | None \<Rightarrow> (case modification_time_field line of Some s \<Rightarrow> (e\<lparr>modified := from_cli_text (le_calendar env) s\<rparr>, False)
      | None \<Rightarrow> (case strip_prefix line (lit ''CRC32: '') of Some s \<Rightarrow> (e\<lparr>crc32 := Some (str_upper (le_tables env) (trim s))\<rparr>, False)
      | None \<Rightarrow> if starts_with line (lit ''Flags: '') \<and> contains_str line (lit ''encrypted'') then (e\<lparr>encrypted := True\<rparr>, True)
          else (e, False)))))"

definition unrar_headers :: "str \<Rightarrow> unrar_state \<Rightarrow> unrar_state" where
  "unrar_headers line st =
     (if contains_str line (lit ''encrypted headers'') \<or> contains_str line (lit ''Encrypted headers'')
      then st\<lparr>ur_headers := True, ur_encrypted := True\<rparr> else st)"

definition unrar_line :: "listing_env \<Rightarrow> str \<Rightarrow> unrar_state \<Rightarrow> unrar_state" where
  "unrar_line env raw st =
     (let line = trim raw in
      unrar_headers line
        (case strip_prefix line (lit ''Name: '') of
           Some p \<Rightarrow> (unrar_flush st)\<lparr>ur_current := Some (named_entry p)\<rparr>
         | None \<Rightarrow>
             (case ur_current st of
                None \<Rightarrow> st
              | Some e \<Rightarrow> (case unrar_field env line e of
                  (e, secret) \<Rightarrow> st\<lparr>ur_current := Some e, ur_encrypted := ur_encrypted st \<or> secret\<rparr>))))"

definition unrar_start :: unrar_state where
  "unrar_start = \<lparr>ur_entries = [], ur_current = None, ur_encrypted = False, ur_headers = False\<rparr>"

definition parse_list_output :: "listing_env \<Rightarrow> str \<Rightarrow> archive_info" where
  "parse_list_output env out =
     (let st = unrar_flush (fold (unrar_line env) (str_lines out) unrar_start) in
      \<lparr>archive_kind_of = RarKind, info_entries = ur_entries st, info_encrypted = ur_encrypted st, headers_encrypted = ur_headers st,
       encryption_method = (if ur_encrypted st then Some (lit ''RAR'') else None)\<rparr>)"

end
