(* ===== verification/Listing_Properties.thy ===== *)
theory Listing_Properties
  imports Cli_Listing
begin

text \<open>
  The two listing parsers read back what their tools print: a reference printer for a list of files, the lines and
  blocks that the parsers see, and the entries that come out. The line of 7-Zip that says whether a file is encrypted
  is lost on the way.
\<close>

section \<open>Lines and fields\<close>

lemma split_lines: "(\<And>l. l \<in> set ls \<Longrightarrow> 10 \<notin> set l) \<Longrightarrow> split_on (\<lambda>c. c = 10) (concat (map (\<lambda>l. l @ [10]) ls)) = ls @ [[]]"
proof (induction ls)
  case (Cons l ls)
  then have "split_on (\<lambda>c. c = 10) l = [l]" by (intro split_on_no_sep) auto
  then show ?case using Cons split_on_append [of "\<lambda>c. c = 10" 10 l] by simp
qed simp

lemma strip_cr_id: "\<not> ends_with l [13] \<Longrightarrow> strip_cr l = l"
  by (simp add: strip_cr_def strip_suffix_def)

lemma str_lines_joined:
  "(\<And>l. l \<in> set ls \<Longrightarrow> 10 \<notin> set l \<and> \<not> ends_with l [13]) \<Longrightarrow> str_lines (concat (map (\<lambda>l. l @ [10]) ls)) = ls"
  by (simp add: str_lines_def split_lines strip_cr_id map_idI)

text \<open>Text that a line carries as it is: not empty, on one line, without white space around it.\<close>

definition plain :: "str \<Rightarrow> bool" where
  "plain s \<longleftrightarrow> s \<noteq> [] \<and> 10 \<notin> set s \<and> \<not> is_whitespace (hd s) \<and> \<not> is_whitespace (last s)"

lemma plain_trim: "plain s \<Longrightarrow> trim s = s"
  by (simp add: plain_def trim_between)

lemma plain_trim_end: "plain s \<Longrightarrow> trim_end (a @ s) = a @ s"
  by (simp add: plain_def trim_end_def trim_end_by_def dropWhile_eq_self_iff [THEN iffD2] hd_rev hd_append)

lemma plain_ends: "plain s \<Longrightarrow> \<not> ends_with (a @ s) [13]"
  by (cases s rule: rev_cases) (auto simp: plain_def ends_with_def starts_with_def is_whitespace_def)

definition plain_key :: "str \<Rightarrow> bool" where
  "plain_key k \<longleftrightarrow> plain k \<and> 61 \<notin> set k \<and> hd k \<noteq> 45"

definition field_line :: "str \<times> str \<Rightarrow> str" where
  "field_line = (\<lambda>(k, v). k @ 32 # 61 # 32 # v)"

lemma split_field: "61 \<notin> set k \<Longrightarrow> split_once_at [32, 61, 32] (k @ 32 # 61 # 32 # v) = Some (k, v)"
proof (induction k)
  case (Cons c k)
  then have "\<not> starts_with ((c # k) @ 32 # 61 # 32 # v) [32, 61, 32]" by (cases k) (auto simp: starts_with_def)
  then show ?case using Cons by (simp add: strip_prefix_def)
qed (simp add: strip_prefix_def starts_with_def)

lemma slt_field:
  assumes "plain_key k" "plain v"
  shows "slt_line env (field_line (k, v)) st =
    (if k = lit ''Path'' then (let st = slt_end_block env st in st\<lparr>sl_in_entries := True, sl_cur := sl_cur st @ [(k, v)]\<rparr>)
     else if sl_in_entries st \<and> sl_cur st \<noteq> [] \<and> k \<notin> set header_keys then st\<lparr>sl_cur := sl_cur st @ [(k, v)]\<rparr>
     else st\<lparr>sl_header := (sl_header st)(k \<mapsto> v)\<rparr>)"
proof -
  have line: "trim_end (field_line (k, v)) = k @ 32 # 61 # 32 # v"
    using plain_trim_end [OF assms(2), of "k @ [32, 61, 32]"] by (simp add: field_line_def)
  have dash: "\<not> starts_with (k @ 32 # 61 # 32 # v) (lit ''----------'')"
    using assms(1) by (cases k) (auto simp: plain_key_def plain_def starts_with_def)
  have "split_once_at (lit '' = '') (k @ 32 # 61 # 32 # v) = Some (k, v)"
    using split_field [of k v] assms(1) by (simp add: plain_key_def)
  moreover have "trim k = k" "trim v = v" using assms by (simp_all add: plain_key_def plain_trim)
  moreover have "trim (lit ''Path'') = lit ''Path''" by code_simp
  ultimately show ?thesis unfolding slt_line_def line Let_def using dash by (simp del: lit_Cons)
qed

section \<open>A block of a 7-Zip listing\<close>

definition entry_fields :: "(str \<times> str) list \<Rightarrow> (str \<times> str) list" where
  "entry_fields = filter (\<lambda>(k, _). k \<notin> set header_keys)"

definition header_fields :: "(str \<times> str) list \<Rightarrow> (str \<times> str) list" where
  "header_fields = filter (\<lambda>(k, _). k \<in> set header_keys)"

definition plain_fields :: "(str \<times> str) list \<Rightarrow> bool" where
  "plain_fields = list_all (\<lambda>(k, v). plain_key k \<and> plain v \<and> k \<noteq> lit ''Path'')"

lemma fold_fields:
  "plain_fields fs \<Longrightarrow> sl_in_entries st \<Longrightarrow> sl_cur st \<noteq> [] \<Longrightarrow>
   fold (slt_line env) (map field_line fs) st =
     st\<lparr>sl_cur := sl_cur st @ entry_fields fs, sl_header := sl_header st ++ map_of (rev (header_fields fs))\<rparr>"
proof (induction fs arbitrary: st)
  case (Cons f fs)
  obtain k v where f: "f = (k, v)" by fastforce
  have ok: "plain_key k" "plain v" "k \<noteq> lit ''Path''" "plain_fields fs" using Cons.prems(1) by (simp_all add: f plain_fields_def)
  show ?case
  proof (cases "k \<in> set header_keys")
    case True
    then show ?thesis using Cons ok by (simp add: f slt_field entry_fields_def header_fields_def del: lit_Cons)
  next
    case False
    then show ?thesis using Cons ok by (simp add: f slt_field entry_fields_def header_fields_def del: lit_Cons)
  qed
qed (simp add: entry_fields_def header_fields_def)

lemma slt_blank: "slt_line env [] st = slt_end_block env st"
  by (simp add: slt_line_def trim_end_def trim_end_by_def starts_with_def)

lemma slt_ruler: "slt_line env (lit ''----------'') st = st\<lparr>sl_in_entries := True\<rparr>"
proof -
  have "trim_end (lit ''----------'') = lit ''----------''" by code_simp
  then show ?thesis by (simp add: slt_line_def Let_def starts_with_def del: lit_Cons)
qed

definition block_lines :: "str \<Rightarrow> (str \<times> str) list \<Rightarrow> str list" where
  "block_lines p fs = map field_line ((lit ''Path'', p) # fs) @ [[]]"

lemma path_key: "plain_key (lit ''Path'')"
  by code_simp

lemma fold_block:
  assumes "plain p" "plain_fields fs" "sl_cur st = []"
  shows "fold (slt_line env) (block_lines p fs) st =
    (slt_flush env (st\<lparr>sl_in_entries := True, sl_cur := (lit ''Path'', p) # entry_fields fs,
       sl_header := sl_header st ++ map_of (rev (header_fields fs))\<rparr>))\<lparr>sl_cur := []\<rparr>"
  using assms fold_fields [OF assms(2), of "st\<lparr>sl_in_entries := True, sl_cur := [(lit ''Path'', p)]\<rparr>" env]
  by (simp add: block_lines_def slt_field path_key slt_blank slt_end_block_def del: lit_Cons)

section \<open>What 7-Zip lists\<close>

record listed_file =
  lf_path :: str
  lf_size :: nat
  lf_packed :: nat
  lf_modified :: "str option"
  lf_dir :: bool
  lf_crc :: "str option"
  lf_encrypted :: bool
  lf_method :: str

definition opt_field :: "string \<Rightarrow> str option \<Rightarrow> (str \<times> str) list" where
  "opt_field k v = (case v of None \<Rightarrow> [] | Some x \<Rightarrow> [(lit k, x)])"

definition listed_fields :: "listed_file \<Rightarrow> (str \<times> str) list" where
  "listed_fields f =
     [(lit ''Size'', nat_digits (lf_size f)), (lit ''Packed Size'', nat_digits (lf_packed f))] @ opt_field ''Modified'' (lf_modified f)
     @ [(lit ''Attributes'', if lf_dir f then lit ''D'' else lit ''A'')] @ opt_field ''CRC'' (lf_crc f)
     @ [(lit ''Encrypted'', if lf_encrypted f then lit ''+'' else lit ''-''), (lit ''Method'', lf_method f)]"

definition print_slt :: "listed_file list \<Rightarrow> str" where
  "print_slt fs = concat (map (\<lambda>l. l @ [10]) (concat (map (\<lambda>f. block_lines (lf_path f) (listed_fields f)) fs)))"

definition good_listed :: "listed_file \<Rightarrow> bool" where
  "good_listed f \<longleftrightarrow> plain (lf_path f) \<and> \<not> starts_with (lf_path f) (lit ''./'') \<and> backslash \<notin> set (lf_path f) \<and> \<not> ends_with (lf_path f) [slash]
     \<and> plain (lf_method f) \<and> pred_option plain (lf_modified f) \<and> pred_option plain (lf_crc f)
     \<and> int (lf_size f) < U64_END \<and> int (lf_packed f) < U64_END"

definition listed_entry :: "listing_env \<Rightarrow> listed_file \<Rightarrow> archive_entry" where
  "listed_entry env f = \<lparr>entry_path = lf_path f, entry_size = of_nat (lf_size f), packed_size = of_nat (lf_packed f),
     modified = Option.bind (lf_modified f) (from_cli_text (le_calendar env)), is_dir = lf_dir f, encrypted = False,
     crc32 = Option.bind (lf_crc f) (\<lambda>c. let c = str_upper (le_tables env) c in if c = [] then None else Some c)\<rparr>"

lemma plain_digits: "plain (nat_digits n)"
proof -
  have "c \<in> set (nat_digits n) \<Longrightarrow> 48 \<le> c \<and> c \<le> 57" for c
    using nat_digits_ascii [of n] by (auto simp: list_all_iff is_ascii_digit_def)
  then have "48 \<le> hd (nat_digits n) \<and> hd (nat_digits n) \<le> 57" "48 \<le> last (nat_digits n) \<and> last (nat_digits n) \<le> 57" "10 \<notin> set (nat_digits n)"
    using hd_in_set last_in_set by (metis nat_digits_not_Nil, metis nat_digits_not_Nil, fastforce)
  then show ?thesis by (simp add: plain_def digit_not_whitespace)
qed

lemma listed_keys_plain:
  "list_all plain_key (map lit [''Size'', ''Packed Size'', ''Modified'', ''Attributes'', ''CRC'', ''Encrypted'', ''Method''])"
  "list_all plain (map lit [''D'', ''A'', ''+'', ''-''])"
  "list_all (\<lambda>k. k \<noteq> lit ''Path'') (map lit [''Size'', ''Packed Size'', ''Modified'', ''Attributes'', ''CRC'', ''Encrypted'', ''Method''])"
  by code_simp+

lemma plain_listed: "good_listed f \<Longrightarrow> plain_fields (listed_fields f)"
  using listed_keys_plain plain_digits
  by (cases "lf_modified f"; cases "lf_crc f") (simp_all add: good_listed_def plain_fields_def listed_fields_def opt_field_def del: lit_Cons)

lemma listed_split:
  "entry_fields (listed_fields f) =
     [(lit ''Size'', nat_digits (lf_size f)), (lit ''Packed Size'', nat_digits (lf_packed f))] @ opt_field ''Modified'' (lf_modified f)
     @ [(lit ''Attributes'', if lf_dir f then lit ''D'' else lit ''A'')] @ opt_field ''CRC'' (lf_crc f) @ [(lit ''Method'', lf_method f)]"
  "header_fields (listed_fields f) = [(lit ''Encrypted'', if lf_encrypted f then lit ''+'' else lit ''-'')]"
  by (cases "lf_modified f"; cases "lf_crc f";
      simp add: entry_fields_def header_fields_def listed_fields_def opt_field_def header_keys_def)+

lemma slt_path_id: "\<not> starts_with p (lit ''./'') \<Longrightarrow> backslash \<notin> set p \<Longrightarrow> \<not> ends_with p [slash] \<Longrightarrow> slt_path p = p"
  by (simp add: slt_path_def strip_prefix_def replace_char_id Let_def del: lit_Cons)

lemma slt_entry_listed:
  assumes "good_listed f"
  defines "m \<equiv> map_of (rev ((lit ''Path'', lf_path f) # entry_fields (listed_fields f)))"
  shows "slt_entry env m = Some (listed_entry env f)" "slt_methods m = []"
proof -
  have m: "m (lit ''Path'') = Some (lf_path f)" "m (lit ''Size'') = Some (nat_digits (lf_size f))"
    "m (lit ''Packed Size'') = Some (nat_digits (lf_packed f))" "m (lit ''Modified'') = lf_modified f" "m (lit ''CRC'') = lf_crc f"
    "m (lit ''Attributes'') = Some (if lf_dir f then lit ''D'' else lit ''A'')" "m (lit ''Folder'') = None" "m (lit ''Encrypted'') = None"
    by (cases "lf_modified f"; cases "lf_crc f"; simp add: m_def listed_split opt_field_def)+
  have crc: "Option.bind (lf_crc f) (\<lambda>s. g (trim s)) = Option.bind (lf_crc f) g" for g :: "str \<Rightarrow> 'a option"
    using assms(1) by (cases "lf_crc f") (simp_all add: good_listed_def plain_trim)
  show "slt_methods m = []" by (simp add: slt_methods_def m del: lit_Cons)
  have dir: "68 \<in> set (if lf_dir f then lit ''D'' else lit ''A'') \<longleftrightarrow> lf_dir f" by simp
  show "slt_entry env m = Some (listed_entry env f)"
    using assms(1) crc [of "\<lambda>s. let s = str_upper (le_tables env) s in if s = [] then None else Some s"] dir
    by (simp add: slt_entry_def m listed_entry_def good_listed_def slt_path_id parse_size_def parse_u64_digits del: lit_Cons)
qed

text \<open>Every block adds its entry, and its line \<open>Encrypted\<close> replaces that of the block before it.\<close>

lemma fold_listed:
  assumes "list_all good_listed fs" "sl_cur st = []"
  shows "fold (slt_line env) (concat (map (\<lambda>f. block_lines (lf_path f) (listed_fields f)) fs)) st =
    st\<lparr>sl_entries := sl_entries st @ map (listed_entry env) fs, sl_in_entries := sl_in_entries st \<or> fs \<noteq> [],
       sl_header := (if fs = [] then sl_header st
         else (sl_header st)(lit ''Encrypted'' \<mapsto> if lf_encrypted (last fs) then lit ''+'' else lit ''-''))\<rparr>"
  using assms
proof (induction fs arbitrary: st)
  case (Cons f fs)
  have f: "good_listed f" "plain (lf_path f)" "plain_fields (listed_fields f)" using Cons.prems plain_listed by (auto simp: good_listed_def)
  have "fold (slt_line env) (block_lines (lf_path f) (listed_fields f)) st =
    st\<lparr>sl_entries := sl_entries st @ [listed_entry env f], sl_in_entries := True,
       sl_header := (sl_header st)(lit ''Encrypted'' \<mapsto> if lf_encrypted f then lit ''+'' else lit ''-'')\<rparr>"
    using Cons.prems(2) slt_entry_listed(1) [OF f(1), of env] slt_entry_listed(2) [OF f(1)]
    by (simp add: fold_block [OF f(2,3) Cons.prems(2)] slt_flush_def listed_split(2) Let_def del: lit_Cons)
  then show ?case using Cons by (simp add: fun_upd_def cong: if_cong del: lit_Cons)
qed simp

lemma block_lines_plain:
  assumes "good_listed f" "l \<in> set (block_lines (lf_path f) (listed_fields f))"
  shows "10 \<notin> set l \<and> \<not> ends_with l [13]"
proof -
  have "plain_key k \<and> plain v" if "(k, v) \<in> set ((lit ''Path'', lf_path f) # listed_fields f)" for k v
    using that assms(1) path_key plain_listed [OF assms(1)] by (auto simp: good_listed_def plain_fields_def list_all_iff simp del: lit_Cons)
  note fields = this
  consider "l = []" | k v where "(k, v) \<in> set ((lit ''Path'', lf_path f) # listed_fields f)" "l = field_line (k, v)"
    using assms(2) by (auto simp: block_lines_def simp del: lit_Cons)
  then show ?thesis
  proof cases
    case (2 k v)
    then have "plain_key k" "plain v" using fields by blast+
    then show ?thesis using 2 plain_ends [of v "k @ [32, 61, 32]"] by (simp add: field_line_def plain_key_def plain_def)
  qed (simp add: ends_with_def starts_with_def)
qed


text \<open>An archive whose secret file is listed before a plain one.\<close>

definition sample_listing :: "listed_file list" where
  "sample_listing =
     [\<lparr>lf_path = lit ''secret.txt'', lf_size = 29, lf_packed = 33, lf_modified = Some (lit ''1970-01-01 13:37:20.0000000''), lf_dir = False,
        lf_crc = Some (lit ''71c29fc3''), lf_encrypted = True, lf_method = lit ''LZMA2:12 7zAES:19''\<rparr>,
      \<lparr>lf_path = lit ''docs/empty'', lf_size = 0, lf_packed = 0, lf_modified = None, lf_dir = True, lf_crc = None, lf_encrypted = False, lf_method = lit ''Copy''\<rparr>]"

definition sample_listing_env :: listing_env where
  "sample_listing_env = \<lparr>le_tables = ascii_tables, le_calendar = sample_calendar\<rparr>"


text \<open>On no input at all does an entry come out as encrypted: the line that says so is kept with the archive.\<close>

definition no_secret :: "slt_state \<Rightarrow> bool" where
  "no_secret st \<longleftrightarrow> list_all (\<lambda>(k, _). k \<noteq> lit ''Encrypted'') (sl_cur st) \<and> list_all (\<lambda>e. \<not> encrypted e) (sl_entries st)"

lemma map_of_rev_none: "list_all (\<lambda>(k, _). k \<noteq> x) xs \<Longrightarrow> map_of (rev xs) x = None"
  by (auto simp: map_of_eq_None_iff list_all_iff)

lemma no_secret_flush: "no_secret st \<Longrightarrow> no_secret (slt_flush env st)"
  using map_of_rev_none [of "lit ''Encrypted''" "sl_cur st"]
  by (auto simp: no_secret_def slt_flush_def slt_entry_def Let_def split: option.splits simp del: lit_Cons)

lemma no_secret_end: "no_secret st \<Longrightarrow> no_secret (slt_end_block env st)"
  using no_secret_flush [of st env] by (auto simp: no_secret_def slt_end_block_def)

lemma no_secret_line: "no_secret st \<Longrightarrow> no_secret (slt_line env raw st)"
proof -
  assume st: "no_secret st"
  have keys: "lit ''Encrypted'' \<in> set header_keys" "lit ''Path'' \<noteq> lit ''Encrypted''" by code_simp+
  show ?thesis using st keys no_secret_end [OF st, of env]
    by (auto simp: slt_line_def Let_def no_secret_def split: option.splits simp del: lit_Cons)
qed

lemma slt_entries_never_encrypted: "e \<in> set (info_entries (parse_list_slt env slt)) \<Longrightarrow> \<not> encrypted e"
proof -
  have "no_secret st \<Longrightarrow> no_secret (fold (slt_line env) ls st)" for ls st
    by (induction ls arbitrary: st) (simp_all add: no_secret_line)
  then have "no_secret (slt_flush env (fold (slt_line env) (str_lines slt) slt_start))"
    by (intro no_secret_flush) (simp add: no_secret_def slt_start_def)
  then show "e \<in> set (info_entries (parse_list_slt env slt)) \<Longrightarrow> \<not> encrypted e"
    by (simp add: parse_list_slt_def slt_info_def Let_def no_secret_def list_all_iff)
qed

section \<open>What UnRAR lists\<close>

definition quiet :: "str \<Rightarrow> bool" where
  "quiet s \<longleftrightarrow> \<not> contains_str s (lit ''encrypted headers'') \<and> \<not> contains_str s (lit ''Encrypted headers'')"

definition opt_line :: "string \<Rightarrow> str option \<Rightarrow> str list" where
  "opt_line k v = (case v of None \<Rightarrow> [] | Some x \<Rightarrow> [lit k @ x])"

definition unrar_fields :: "listed_file \<Rightarrow> str list" where
  "unrar_fields f =
     [lit ''Type: '' @ (if lf_dir f then lit ''Directory'' else lit ''File''), lit ''Size: '' @ nat_digits (lf_size f),
      lit ''Packed size: '' @ nat_digits (lf_packed f)]
     @ opt_line ''mtime: '' (lf_modified f) @ opt_line ''CRC32: '' (lf_crc f) @ (if lf_encrypted f then [lit ''Flags: encrypted''] else [])"

definition unrar_lines :: "listed_file \<Rightarrow> str list" where
  "unrar_lines f = map (\<lambda>s. replicate 8 32 @ s) ((lit ''Name: '' @ lf_path f) # unrar_fields f) @ [[]]"

definition print_unrar :: "listed_file list \<Rightarrow> str" where
  "print_unrar fs = concat (map (\<lambda>l. l @ [10]) (concat (map unrar_lines fs)))"

definition good_unrar :: "listed_file \<Rightarrow> bool" where
  "good_unrar f \<longleftrightarrow> plain (lf_path f) \<and> quiet (lf_path f) \<and> pred_option (\<lambda>s. plain s \<and> quiet s) (lf_modified f)
     \<and> pred_option (\<lambda>s. plain s \<and> quiet s) (lf_crc f) \<and> int (lf_size f) < U64_END \<and> int (lf_packed f) < U64_END"

definition unrar_entry :: "listing_env \<Rightarrow> listed_file \<Rightarrow> archive_entry" where
  "unrar_entry env f = \<lparr>entry_path = lf_path f, entry_size = of_nat (lf_size f), packed_size = of_nat (lf_packed f),
     modified = Option.bind (lf_modified f) (from_cli_text (le_calendar env)), is_dir = lf_dir f, encrypted = lf_encrypted f,
     crc32 = map_option (str_upper (le_tables env)) (lf_crc f)\<rparr>"

lemma quiet_digits: "quiet (nat_digits n)"
proof -
  have "101 \<notin> set (nat_digits n)" using nat_digits_ascii [of n] by (auto simp: list_all_iff is_ascii_digit_def)
  then show ?thesis unfolding quiet_def contains_str_iff by fastforce
qed

lemma quiet_label:
  "quiet s \<Longrightarrow> list_all (\<lambda>k. quiet (lit k @ s)) [''Name: '', ''Type: '', ''Size: '', ''Packed size: '', ''mtime: '', ''CRC32: '']"
  by (simp add: quiet_def starts_with_def)

lemma quiet_words: "quiet (lit ''Directory'')" "quiet (lit ''File'')" "quiet (lit ''Flags: encrypted'')" "quiet []"
  by code_simp+

text \<open>One line of a file, without the name.\<close>

definition unrar_step :: "listing_env \<Rightarrow> str \<Rightarrow> unrar_state \<Rightarrow> unrar_state" where
  "unrar_step env line st = (case ur_current st of None \<Rightarrow> st
     | Some e \<Rightarrow> st\<lparr>ur_current := Some (fst (unrar_field env line e)), ur_encrypted := ur_encrypted st \<or> snd (unrar_field env line e)\<rparr>)"

lemma trim_indented: "plain s \<Longrightarrow> trim (replicate n 32 @ s) = s"
  using plain_trim [of s] by (induction n) (simp_all add: trim_def trim_start_by_def is_whitespace_def)

lemma unrar_line_plain:
  "plain s \<Longrightarrow> quiet s \<Longrightarrow> \<not> starts_with s (lit ''Name: '') \<Longrightarrow> unrar_line env (replicate 8 32 @ s) st = unrar_step env s st"
  by (simp add: unrar_line_def unrar_step_def trim_indented unrar_headers_def quiet_def strip_prefix_def Let_def case_prod_unfold
      del: lit_Cons split: option.split)

lemma unrar_line_name:
  "plain p \<Longrightarrow> quiet p \<Longrightarrow> unrar_line env (replicate 8 32 @ lit ''Name: '' @ p) st = (unrar_flush st)\<lparr>ur_current := Some (named_entry p)\<rparr>"
proof -
  assume p: "plain p" "quiet p"
  have "plain (lit ''Name: '' @ p)" using p(1) by (simp add: plain_def is_whitespace_def)
  moreover have "quiet (lit ''Name: '' @ p)" using quiet_label [OF p(2)] by (simp del: lit_Cons)
  moreover have "strip_prefix (lit ''Name: '' @ p) (lit ''Name: '') = Some p" by (simp add: strip_prefix_eq_Some del: lit_Cons)
  ultimately show ?thesis
    by (simp add: unrar_line_def trim_indented unrar_headers_def quiet_def Let_def del: lit_Cons)
qed

lemma unrar_blank: "unrar_line env [] st = (case ur_current st of None \<Rightarrow> st | Some e \<Rightarrow> st)"
  by (cases "ur_current st") (simp_all add: unrar_line_def trim_def trim_start_by_def trim_end_by_def strip_prefix_def starts_with_def
      unrar_field_def modification_time_field_def List.map_filter_simps unrar_headers_def)

lemma fields_read:
  "unrar_field env (lit ''Type: '' @ v) e = (e\<lparr>is_dir := contains_str (lit ''Type: '' @ v) (lit ''Directory'') \<or> contains_str (lit ''Type: '' @ v) (lit ''Dir'')\<rparr>, False)"
  "unrar_field env (lit ''Size: '' @ v) e = (e\<lparr>entry_size := parse_number v\<rparr>, False)"
  "unrar_field env (lit ''Packed size: '' @ v) e = (e\<lparr>packed_size := parse_number v\<rparr>, False)"
  "unrar_field env (lit ''mtime: '' @ v) e = (e\<lparr>modified := from_cli_text (le_calendar env) (trim v)\<rparr>, False)"
  "unrar_field env (lit ''CRC32: '' @ v) e = (e\<lparr>crc32 := Some (str_upper (le_tables env) (trim v))\<rparr>, False)"
  "unrar_field env (lit ''Flags: encrypted'') e = (e\<lparr>encrypted := True\<rparr>, True)"
  by (simp_all add: unrar_field_def strip_prefix_def starts_with_def modification_time_field_def List.map_filter_simps)

lemma parse_number_digits: "int n < U64_END \<Longrightarrow> parse_number (nat_digits n) = of_nat n"
  using nat_digits_ascii [of n] by (simp add: parse_number_def parse_size_def parse_u64_digits list_all_iff filter_id_conv [THEN iffD2])

abbreviation field_ok :: "str \<Rightarrow> bool" where
  "field_ok s \<equiv> plain s \<and> quiet s \<and> \<not> starts_with s (lit ''Name: '')"

lemma label_line:
  assumes "plain v" "quiet v"
  shows "list_all (\<lambda>k. field_ok (lit k @ v)) [''Type: '', ''Size: '', ''Packed size: '', ''mtime: '', ''CRC32: '']"
proof -
  have "list_all (\<lambda>k. plain (lit k @ v)) [''Type: '', ''Size: '', ''Packed size: '', ''mtime: '', ''CRC32: '']"
    using assms(1) by (simp add: plain_def is_whitespace_def)
  moreover have "list_all (\<lambda>k. \<not> starts_with (lit k @ v) (lit ''Name: '')) [''Type: '', ''Size: '', ''Packed size: '', ''mtime: '', ''CRC32: '']"
    by (simp add: starts_with_def)
  ultimately show ?thesis using quiet_label [OF assms(2)] by (simp del: lit_Cons)
qed

lemma fields_plain: "good_unrar f \<Longrightarrow> list_all field_ok (unrar_fields f)"
proof -
  assume good: "good_unrar f"
  have type: "plain (lit ''Directory'')" "plain (lit ''File'')" "field_ok (lit ''Flags: encrypted'')" by code_simp+
  note digits = label_line [OF plain_digits quiet_digits]
  have opt: "list_all field_ok (opt_line ''mtime: '' (lf_modified f))" "list_all field_ok (opt_line ''CRC32: '' (lf_crc f))"
    using good label_line [of "the (lf_modified f)"] label_line [of "the (lf_crc f)"]
    by (cases "lf_modified f"; cases "lf_crc f"; simp add: good_unrar_def opt_line_def del: lit_Cons)+
  show ?thesis unfolding unrar_fields_def
    using opt label_line [OF type(1) quiet_words(1)] label_line [OF type(2) quiet_words(2)] type(3) digits [of "lf_size f"] digits [of "lf_packed f"]
    by (simp del: lit_Cons)
qed

lemma fold_unrar_fields:
  "list_all field_ok ls \<Longrightarrow> fold (unrar_line env) (map (\<lambda>s. replicate 8 32 @ s) ls) st = fold (unrar_step env) ls st"
  by (induction ls arbitrary: st) (simp_all add: unrar_line_plain del: lit_Cons)

lemma opt_steps:
  assumes "ur_current st = Some e"
  shows "fold (unrar_step env) (opt_line ''mtime: '' v) st
      = st\<lparr>ur_current := Some (case v of None \<Rightarrow> e | Some x \<Rightarrow> e\<lparr>modified := from_cli_text (le_calendar env) (trim x)\<rparr>)\<rparr>"
    "fold (unrar_step env) (opt_line ''CRC32: '' v) st
      = st\<lparr>ur_current := Some (case v of None \<Rightarrow> e | Some x \<Rightarrow> e\<lparr>crc32 := Some (str_upper (le_tables env) (trim x))\<rparr>)\<rparr>"
  using assms by (auto simp: opt_line_def unrar_step_def fields_read split: option.split simp del: lit_Cons)

lemma type_words:
  "contains_str (lit ''Type: '' @ (if b then lit ''Directory'' else lit ''File'')) (lit ''Dir'') = b"
  "contains_str (lit ''Type: '' @ (if b then lit ''Directory'' else lit ''File'')) (lit ''Directory'') = b"
  by (cases b; simp add: starts_with_def)+

lemma fold_unrar_block:
  assumes "good_unrar f"
  shows "fold (unrar_line env) (unrar_lines f) st =
    (unrar_flush st)\<lparr>ur_current := Some (unrar_entry env f), ur_encrypted := ur_encrypted st \<or> lf_encrypted f\<rparr>"
proof -
  have plain: "plain (lf_path f)" "quiet (lf_path f)" using assms by (simp_all add: good_unrar_def)
  have trims: "lf_modified f = Some x \<Longrightarrow> trim x = x" "lf_crc f = Some x \<Longrightarrow> trim x = x" for x
    using assms by (auto simp: good_unrar_def plain_trim)
  have flags: "ur_encrypted (unrar_flush st) = ur_encrypted st" by (simp add: unrar_flush_def split: option.split)
  let ?st = "(unrar_flush st)\<lparr>ur_current := Some (named_entry (lf_path f))\<rparr>"
  have "fold (unrar_step env) (unrar_fields f) ?st =
    ?st\<lparr>ur_current := Some (unrar_entry env f), ur_encrypted := ur_encrypted st \<or> lf_encrypted f\<rparr>"
    using assms trims
    by (cases "lf_modified f"; cases "lf_crc f"; cases "lf_encrypted f")
      (simp_all add: unrar_fields_def unrar_step_def opt_steps fields_read type_words flags named_entry_def unrar_entry_def good_unrar_def
        parse_number_digits del: lit_Cons)
  then show ?thesis
    using fold_unrar_fields [OF fields_plain [OF assms], of env ?st]
    by (simp add: unrar_lines_def unrar_line_name [OF plain] unrar_blank del: lit_Cons)
qed

lemma fold_unrar:
  "list_all good_unrar fs \<Longrightarrow> unrar_flush (fold (unrar_line env) (concat (map unrar_lines fs)) st) =
   (unrar_flush st)\<lparr>ur_entries := ur_entries (unrar_flush st) @ map (unrar_entry env) fs,
     ur_encrypted := ur_encrypted st \<or> list_ex lf_encrypted fs\<rparr>"
proof (induction fs arbitrary: st)
  case Nil
  then show ?case by (simp add: unrar_flush_def split: option.split)
next
  case (Cons f fs)
  have "unrar_flush ((unrar_flush st)\<lparr>ur_current := Some e, ur_encrypted := b\<rparr>)
      = (unrar_flush st)\<lparr>ur_entries := ur_entries (unrar_flush st) @ [e], ur_encrypted := b\<rparr>" for e b
    by (simp add: unrar_flush_def split: option.split)
  then show ?case using Cons by (simp add: fold_unrar_block)
qed

lemma unrar_lines_plain:
  assumes "good_unrar f" "l \<in> set (unrar_lines f)"
  shows "10 \<notin> set l \<and> \<not> ends_with l [13]"
proof -
  have name: "plain (lit ''Name: '' @ lf_path f)" using assms(1) by (simp add: good_unrar_def plain_def is_whitespace_def)
  consider "l = []" | s where "plain s" "l = replicate 8 32 @ s"
    using assms(2) name fields_plain [OF assms(1)] by (fastforce simp: unrar_lines_def list_all_iff simp del: lit_Cons)
  then show ?thesis
  proof cases
    case (2 s)
    have "10 \<notin> set (replicate 8 32 @ s)" using 2 by (simp add: plain_def)
    then show ?thesis using 2 plain_ends by blast
  qed (simp add: ends_with_def starts_with_def)
qed



text \<open>The words are looked for in every line: a file whose name contains them makes an open archive one with encrypted headers.\<close>

lemma name_reads_as_encrypted_headers:
  "headers_encrypted (parse_list_output sample_listing_env (lit ''Name: about encrypted headers.txt''))
   \<and> encryption_method (parse_list_output sample_listing_env (lit ''Name: about encrypted headers.txt'')) = Some (lit ''RAR'')"
  by code_simp

end
