(* ===== verification/Backend_Chain.thy ===== *)
theory Backend_Chain
  imports Cli_Listing Host_Path
begin

text \<open>
  The interface of the archive backends (\<^verbatim>\<open>crates/core/src/archive/mod.rs\<close>), the chain that tries one backend
  after another (\<^verbatim>\<open>backends/fallback_backend.rs\<close>), the choice of a chain by the extension
  (\<^verbatim>\<open>backends/selector.rs\<close>) and the handle that owns one (\<^verbatim>\<open>archive/handle.rs\<close>). A backend is a record of
  computations over a world that holds the file system, the progress callback and the cancellation token. One tier that
  can list an archive is enough for the chain that is selected.
\<close>

section \<open>Errors\<close>

text \<open>The causes of an \<^verbatim>\<open>anyhow::Error\<close>, the outermost first.\<close>

datatype cause = Message str | ArchiveNotFound str | IoNotFound str | IoOther str

type_synonym causes = "cause list"

fun cause_text :: "cause \<Rightarrow> str" where
  "cause_text (Message s) = s"
| "cause_text (ArchiveNotFound path) = lit ''no such archive file: '' @ path"
| "cause_text (IoNotFound s) = s"
| "cause_text (IoOther s) = s"

definition error_text :: "causes \<Rightarrow> str" where
  "error_text e = (case e of [] \<Rightarrow> [] | c # _ \<Rightarrow> cause_text c)"

definition error_chain_text :: "causes \<Rightarrow> str" where
  "error_chain_text e = join_with (lit '': '') (map cause_text e)"

fun missing_cause :: "cause \<Rightarrow> bool" where
  "missing_cause (ArchiveNotFound _) = True"
| "missing_cause (IoNotFound _) = True"
| "missing_cause _ = False"

definition is_archive_not_found :: "causes \<Rightarrow> bool" where
  "is_archive_not_found = list_ex missing_cause"

type_synonym ('w, 'a) backend_op = "('w, causes, 'a) st"

definition with_message :: "str \<Rightarrow> ('w, 'a) backend_op \<Rightarrow> ('w, 'a) backend_op" where
  "with_message c m w = (case m w of (Inl e, w) \<Rightarrow> (Inl (Message c # e), w) | (Inr x, w) \<Rightarrow> (Inr x, w))"

definition require_archive_file :: "('w \<Rightarrow> str \<Rightarrow> bool) \<Rightarrow> str \<Rightarrow> ('w, unit) backend_op" where
  "require_archive_file exists path w = (if exists w path then (Inr (), w) else (Inl [ArchiveNotFound path], w))"

section \<open>Backends\<close>

record entry_ref =
  er_path :: str
  er_index :: "nat option"
  er_is_dir :: bool

definition ref_matches :: "entry_ref \<Rightarrow> str \<Rightarrow> bool" where
  "ref_matches r p \<longleftrightarrow> er_path r = p \<or> er_is_dir r \<and>
     (let pre = trim_end_by (\<lambda>c. c = slash) (er_path r) in
      (case strip_prefix p pre of None \<Rightarrow> False | Some rest \<Rightarrow> rest = [] \<or> hd rest = slash))"

record capabilities =
  can_extract :: bool
  can_create :: bool
  can_add_files :: bool
  can_delete_files :: bool
  can_modify_files :: bool
  can_recompress_7z :: bool
  can_convert_to_7z :: bool

definition read_only_caps :: capabilities where
  "read_only_caps = \<lparr>can_extract = True, can_create = False, can_add_files = False, can_delete_files = False, can_modify_files = False,
     can_recompress_7z = False, can_convert_to_7z = False\<rparr>"

definition full_featured_caps :: capabilities where
  "full_featured_caps = \<lparr>can_extract = True, can_create = True, can_add_files = True, can_delete_files = True, can_modify_files = True,
     can_recompress_7z = True, can_convert_to_7z = True\<rparr>"

definition is_read_only :: "capabilities \<Rightarrow> bool" where
  "is_read_only c \<longleftrightarrow> \<not> can_create c \<and> \<not> can_add_files c \<and> \<not> can_delete_files c \<and> \<not> can_modify_files c"

text \<open>\<^verbatim>\<open>ArchiveProfile\<close> of \<^verbatim>\<open>features/organization/profile.rs\<close>, without what only the database and the interface read.\<close>

datatype archive_format = FormatSevenZ | FormatZip

record archive_profile =
  ap_format :: archive_format
  compression_level :: "8 word"
  compression_method :: "str option"
  solid_archive :: bool
  encrypt_headers :: bool

fun format_arg :: "archive_format \<Rightarrow> str" where
  "format_arg FormatSevenZ = lit ''7z''"
| "format_arg FormatZip = lit ''zip''"

definition format_from_str :: "unicode \<Rightarrow> str \<Rightarrow> archive_format" where
  "format_from_str u s = (if str_lower u s = lit ''zip'' then FormatZip else FormatSevenZ)"

record 'w backend =
  be_name :: str
  be_capabilities :: capabilities
  be_identify :: "str \<Rightarrow> ('w, archive_kind) backend_op"
  be_list :: "str \<Rightarrow> str option \<Rightarrow> ('w, archive_info) backend_op"
  be_extract_all :: "str \<Rightarrow> str \<Rightarrow> str option \<Rightarrow> ('w, unit) backend_op"
  be_extract_files :: "str \<Rightarrow> str \<Rightarrow> str list \<Rightarrow> str option \<Rightarrow> ('w, unit) backend_op"
  be_extract_files_with_progress :: "str \<Rightarrow> str \<Rightarrow> str list \<Rightarrow> str option \<Rightarrow> ('w, unit) backend_op"
  be_extract_directory :: "str \<Rightarrow> str \<Rightarrow> str \<Rightarrow> str option \<Rightarrow> ('w, unit) backend_op"
  be_extract :: "str \<Rightarrow> str \<Rightarrow> entry_ref list option \<Rightarrow> str option \<Rightarrow> ('w, unit) backend_op"
  be_extract_entry_to_writer :: "str \<Rightarrow> str \<Rightarrow> str option \<Rightarrow> ('w, unit) backend_op"
  be_recompress_7z :: "str \<Rightarrow> str \<Rightarrow> ('w, unit) backend_op"
  be_add_files :: "str \<Rightarrow> str list \<Rightarrow> ('w, unit) backend_op"
  be_create_archive :: "str \<Rightarrow> str list \<Rightarrow> str \<Rightarrow> ('w, unit) backend_op"
  be_create_archive_with_profile :: "str \<Rightarrow> str list \<Rightarrow> archive_profile \<Rightarrow> ('w, unit) backend_op"
  be_read_text_file :: "str \<Rightarrow> str \<Rightarrow> str option \<Rightarrow> ('w, str) backend_op"
  be_delete_files :: "str \<Rightarrow> str list \<Rightarrow> ('w, unit) backend_op"
  be_add_or_update_file_from_str :: "str \<Rightarrow> str \<Rightarrow> str \<Rightarrow> ('w, unit) backend_op"
  be_convert_to_7z :: "str \<Rightarrow> str option \<Rightarrow> str \<Rightarrow> str \<Rightarrow> ('w, unit) backend_op"  \<comment> \<open>an archive is its path and its password\<close>
  be_crc32_of_entry :: "str \<Rightarrow> str \<Rightarrow> str option \<Rightarrow> ('w, str) backend_op"

text \<open>The default of the trait for a backend that does not know profiles.\<close>

definition default_create_with_profile ::
    "(str \<Rightarrow> str list \<Rightarrow> str \<Rightarrow> ('w, unit) backend_op) \<Rightarrow> str \<Rightarrow> str list \<Rightarrow> archive_profile \<Rightarrow> ('w, unit) backend_op" where
  "default_create_with_profile create dest files profile = create dest files (format_arg (ap_format profile))"

section \<open>The chain of two\<close>

definition both_failed_context :: "string \<Rightarrow> str \<Rightarrow> causes \<Rightarrow> str" where
  "both_failed_context operation name e =
     lit ''Both backends failed to '' @ lit operation @ lit '' ('' @ name @ lit '': '' @ error_chain_text e @ lit '')''"

text \<open>The second computation runs after an error of the first, unless the error says to stop.\<close>

definition or_fallback :: "(causes \<Rightarrow> bool) \<Rightarrow> (causes \<Rightarrow> str) option \<Rightarrow> ('w, 'a) backend_op \<Rightarrow> ('w, 'a) backend_op \<Rightarrow> ('w, 'a) backend_op" where
  "or_fallback stop context m m' w =
     (case m w of
        (Inr x, w) \<Rightarrow> (Inr x, w)
      | (Inl e, w) \<Rightarrow>
          if stop e then (Inl e, w)
          else (case context of None \<Rightarrow> m' w | Some c \<Rightarrow> with_message (c e) m' w))"

definition never :: "causes \<Rightarrow> bool" where
  "never e = False"

definition says_cancelled :: "causes \<Rightarrow> bool" where
  "says_cancelled e = contains_str (error_text e) (lit ''cancelled'')"

definition list_failed :: "str \<Rightarrow> str \<Rightarrow> str" where
  "list_failed p f = lit ''Both '' @ p @ lit '' and '' @ f @ lit '' backends failed to list archive''"

definition fallback_list :: "('w \<Rightarrow> str \<Rightarrow> bool) \<Rightarrow> 'w backend \<Rightarrow> 'w backend \<Rightarrow> str \<Rightarrow> str option \<Rightarrow> ('w, archive_info) backend_op" where
  "fallback_list exists p f path password =
     st_bind (require_archive_file exists path) (\<lambda>_ w.
       case be_list p path password w of
         (Inr i, w) \<Rightarrow>
           if info_entries i = [] \<and> \<not> headers_encrypted i
           then with_message (list_failed (be_name p) (be_name f) @ lit '' (Primary returned empty list)'') (be_list f path password) w
           else (Inr i, w)
       | (Inl e, w) \<Rightarrow>
           if is_archive_not_found e then (Inl e, w)
           else with_message (list_failed (be_name p) (be_name f)) (be_list f path password) w)"

definition fallback_capabilities :: "capabilities \<Rightarrow> capabilities \<Rightarrow> capabilities" where
  "fallback_capabilities a b = \<lparr>can_extract = can_extract a \<or> can_extract b, can_create = can_create a \<or> can_create b,
     can_add_files = can_add_files a \<or> can_add_files b, can_delete_files = can_delete_files a \<or> can_delete_files b,
     can_modify_files = can_modify_files a \<or> can_modify_files b, can_recompress_7z = can_recompress_7z a \<or> can_recompress_7z b,
     can_convert_to_7z = can_convert_to_7z a \<or> can_convert_to_7z b\<rparr>"

definition fallback_backend :: "('w \<Rightarrow> str \<Rightarrow> bool) \<Rightarrow> 'w backend \<Rightarrow> 'w backend \<Rightarrow> 'w backend" where
  "fallback_backend exists p f =
     (let both = (\<lambda>op. Some (both_failed_context op (be_name p)));
          create = (\<lambda>dest files fmt. or_fallback never None (be_create_archive p dest files fmt) (be_create_archive f dest files fmt)) in
      \<lparr>be_name = be_name p,
       be_capabilities = fallback_capabilities (be_capabilities p) (be_capabilities f),
       be_identify = (\<lambda>path. or_fallback never None (be_identify p path) (be_identify f path)),
       be_list = fallback_list exists p f,
       be_extract_all = (\<lambda>path dest pw. st_bind (require_archive_file exists path) (\<lambda>_.
         or_fallback is_archive_not_found (both ''extract the archive'') (be_extract_all p path dest pw) (be_extract_all f path dest pw))),
       be_extract_files = (\<lambda>path dest files pw.
         or_fallback never (both ''extract files'') (be_extract_files p path dest files pw) (be_extract_files f path dest files pw)),
       be_extract_files_with_progress = (\<lambda>path dest files pw.
         or_fallback says_cancelled (both ''extract files'') (be_extract_files_with_progress p path dest files pw)
           (be_extract_files_with_progress f path dest files pw)),
       be_extract_directory = (\<lambda>path dest dir pw.
         or_fallback never (both ''extract directory'') (be_extract_directory p path dest dir pw) (be_extract_directory f path dest dir pw)),
       be_extract = (\<lambda>path dest refs pw.
         or_fallback says_cancelled (both ''extract'') (be_extract p path dest refs pw) (be_extract f path dest refs pw)),
       be_extract_entry_to_writer = be_extract_entry_to_writer f,
       be_recompress_7z = (\<lambda>source dest. or_fallback never None (be_recompress_7z p source dest) (be_recompress_7z f source dest)),
       be_add_files = (\<lambda>path files. or_fallback never None (be_add_files p path files) (be_add_files f path files)),
       be_create_archive = create,
       be_create_archive_with_profile = default_create_with_profile create,
       be_read_text_file = (\<lambda>path name pw.
         or_fallback never (both ''read file'') (be_read_text_file p path name pw) (be_read_text_file f path name pw)),
       be_delete_files = (\<lambda>path files. or_fallback never None (be_delete_files p path files) (be_delete_files f path files)),
       be_add_or_update_file_from_str = (\<lambda>path name content.
         or_fallback never None (be_add_or_update_file_from_str p path name content) (be_add_or_update_file_from_str f path name content)),
       be_convert_to_7z = (\<lambda>source pw dest temp.
         or_fallback never None (be_convert_to_7z p source pw dest temp) (be_convert_to_7z f source pw dest temp)),
       be_crc32_of_entry = (\<lambda>path name pw.
         or_fallback never (both ''get CRC'') (be_crc32_of_entry p path name pw) (be_crc32_of_entry f path name pw))\<rparr>)"

section \<open>The selector\<close>

text \<open>What is installed: the two command-line tools as they are detected, and the native backends.\<close>

record 'w toolbox =
  tb_exists :: "'w \<Rightarrow> str \<Rightarrow> bool"
  tb_separator :: "uchar \<Rightarrow> bool"
  tb_sevenz_cli :: "causes + 'w backend"
  tb_unrar_cli :: "'w backend option"
  tb_zip :: "'w backend"
  tb_unrar :: "'w backend"
  tb_sevenz :: "'w backend"

definition detected :: "causes + 'a \<Rightarrow> 'a option" where
  "detected r = (case r of Inr x \<Rightarrow> Some x | Inl _ \<Rightarrow> None)"

definition select_rar :: "'w toolbox \<Rightarrow> 'w backend" where
  "select_rar tb =
     (let chain = fallback_backend (tb_exists tb) in
      case (tb_unrar_cli tb, detected (tb_sevenz_cli tb)) of
        (Some unrar, Some sevenz) \<Rightarrow> chain (tb_unrar tb) (chain unrar sevenz)
      | (None, Some sevenz) \<Rightarrow> chain (tb_unrar tb) sevenz
      | (Some unrar, None) \<Rightarrow> chain (tb_unrar tb) unrar
      | (None, None) \<Rightarrow> tb_unrar tb)"

definition with_cli :: "'w toolbox \<Rightarrow> 'w backend \<Rightarrow> 'w backend" where
  "with_cli tb native =
     (case detected (tb_sevenz_cli tb) of None \<Rightarrow> native | Some sevenz \<Rightarrow> fallback_backend (tb_exists tb) native sevenz)"

definition archive_extension :: "unicode \<Rightarrow> (uchar \<Rightarrow> bool) \<Rightarrow> str \<Rightarrow> str" where
  "archive_extension u sep path = str_lower u (case path_extension sep path of Some e \<Rightarrow> e | None \<Rightarrow> [])"

definition rar_extensions :: "str list" where
  "rar_extensions = map lit [''rar'', ''r00'', ''r01'', ''r02'', ''r03'']"

definition sevenz_extensions :: "str list" where
  "sevenz_extensions = map lit [''7z'', ''exe'', ''sfx'']"

definition select_backend :: "unicode \<Rightarrow> str \<Rightarrow> 'w toolbox \<Rightarrow> str \<Rightarrow> causes + 'w backend" where
  "select_backend u mode tb path =
     (if mode = lit ''cli'' then tb_sevenz_cli tb
      else let ext = archive_extension u (tb_separator tb) path in
        if ext = lit ''zip'' then Inr (with_cli tb (tb_zip tb))
        else if ext \<in> set rar_extensions then Inr (select_rar tb)
        else if ext \<in> set sevenz_extensions then Inr (with_cli tb (tb_sevenz tb))
        else tb_sevenz_cli tb)"

section \<open>The handle\<close>

record archive_handle =
  ah_path :: str
  ah_password :: "str option"
  ah_needs_password :: "bool option"

definition new_handle :: "str \<Rightarrow> archive_handle" where
  "new_handle path = \<lparr>ah_path = path, ah_password = None, ah_needs_password = None\<rparr>"

definition handle_with_password :: "str \<Rightarrow> str \<Rightarrow> archive_handle" where
  "handle_with_password path pw = \<lparr>ah_path = path, ah_password = Some pw, ah_needs_password = Some True\<rparr>"

definition set_password :: "str \<Rightarrow> archive_handle \<Rightarrow> archive_handle" where
  "set_password pw h = h\<lparr>ah_password := Some pw, ah_needs_password := Some True\<rparr>"

definition clear_password :: "archive_handle \<Rightarrow> archive_handle" where
  "clear_password h = h\<lparr>ah_password := None\<rparr>"

definition handle_list :: "'w backend \<Rightarrow> archive_handle \<times> 'w \<Rightarrow> (causes + archive_info) \<times> (archive_handle \<times> 'w)" where
  "handle_list b = (\<lambda>(h, w).
     case with_message (lit ''listing archive contents'') (be_list b (ah_path h) (ah_password h)) w of
       (Inl e, w) \<Rightarrow> (Inl e, (h, w))
     | (Inr i, w) \<Rightarrow>
         (let h = (if ah_needs_password h = None then h\<lparr>ah_needs_password := Some (info_encrypted i)\<rparr> else h) in
          if info_encrypted i \<and> ah_password h = None
          then (Inl [Message (lit ''Archive '' @ [39] @ ah_path h @ [39] @ lit '' is encrypted but no password was provided'')], (h, w))
          else (Inr i, (h, w))))"

section \<open>One tier that works is enough\<close>

text \<open>A backend that never loses the archive nor calls it missing while it is there, and one that can list it.\<close>

definition answers :: "archive_info \<Rightarrow> bool" where
  "answers i \<longleftrightarrow> info_entries i \<noteq> [] \<or> headers_encrypted i"

definition honest :: "('w \<Rightarrow> str \<Rightarrow> bool) \<Rightarrow> str \<Rightarrow> str option \<Rightarrow> 'w backend \<Rightarrow> bool" where
  "honest exists path pw b \<longleftrightarrow> (\<forall>w. exists w path \<longrightarrow> exists (snd (be_list b path pw w)) path
     \<and> (\<forall>e. fst (be_list b path pw w) = Inl e \<longrightarrow> \<not> is_archive_not_found e))"

definition serves :: "('w \<Rightarrow> str \<Rightarrow> bool) \<Rightarrow> str \<Rightarrow> str option \<Rightarrow> 'w backend \<Rightarrow> bool" where
  "serves exists path pw b \<longleftrightarrow> (\<forall>w. exists w path \<longrightarrow> (\<exists>i. fst (be_list b path pw w) = Inr i \<and> answers i))"

lemma message_not_found [simp]: "is_archive_not_found (Message c # e) = is_archive_not_found e"
  by (simp add: is_archive_not_found_def)

lemma with_message_world [simp]: "snd (with_message c m w) = snd (m w)"
  by (simp add: with_message_def split: prod.split sum.split)

lemma with_message_Inr: "fst (with_message c m w) = Inr x \<longleftrightarrow> fst (m w) = Inr x"
  by (simp add: with_message_def split: prod.split sum.split)

lemma with_message_Inl: "fst (with_message c m w) = Inl e \<longleftrightarrow> (\<exists>e'. fst (m w) = Inl e' \<and> e = Message c # e')"
  by (auto simp: with_message_def split: prod.split sum.split)

lemma fallback_be_list: "be_list (fallback_backend exists p f) = fallback_list exists p f"
  by (simp add: fallback_backend_def Let_def)

text \<open>Where the archive is there, the second tier is asked exactly when the first does not answer.\<close>

lemma fallback_list_cases:
  assumes "exists w path" "honest exists path pw p"
  obtains i w' where "be_list p path pw w = (Inr i, w')" "answers i" "fallback_list exists p f path pw w = (Inr i, w')"
  | c w' where "be_list p path pw w = (fst (be_list p path pw w), w')" "exists w' path"
      "fallback_list exists p f path pw w = with_message c (be_list f path pw) w'"
      "\<not> (\<exists>i. fst (be_list p path pw w) = Inr i \<and> answers i)"
proof (cases "be_list p path pw w")
  case (Pair r w')
  have there: "exists w' path" and known: "\<And>e. r = Inl e \<Longrightarrow> \<not> is_archive_not_found e"
    using assms unfolding honest_def by (metis Pair fst_conv snd_conv)+
  show ?thesis
  proof (cases r)
    case (Inl e)
    then show ?thesis using that(2) Pair there known assms(1)
      by (simp add: fallback_list_def st_bind_def require_archive_file_def)
  next
    case (Inr i)
    show ?thesis
    proof (cases "answers i")
      case True
      then show ?thesis using that(1) Pair Inr assms(1) by (auto simp: fallback_list_def st_bind_def require_archive_file_def answers_def)
    next
      case False
      then show ?thesis using that(2) Pair Inr there assms(1) by (simp add: fallback_list_def st_bind_def require_archive_file_def answers_def)
    qed
  qed
qed

lemma fallback_honest:
  assumes "honest exists path pw p" "honest exists path pw f"
  shows "honest exists path pw (fallback_backend exists p f)"
  unfolding honest_def fallback_be_list
proof (intro allI impI)
  fix w assume w: "exists w path"
  show "exists (snd (fallback_list exists p f path pw w)) path
    \<and> (\<forall>e. fst (fallback_list exists p f path pw w) = Inl e \<longrightarrow> \<not> is_archive_not_found e)"
  proof (rule fallback_list_cases [OF w assms(1), where f = f], goal_cases)
    case (1 i w')
    then show ?case using assms(1) w unfolding honest_def by (metis fst_conv snd_conv sum.distinct(1))
  next
    case (2 c w')
    have "exists (snd (be_list f path pw w')) path" "fst (be_list f path pw w') = Inl e \<Longrightarrow> \<not> is_archive_not_found e" for e
      using assms(2) 2(2) unfolding honest_def by blast+
    then show ?case unfolding 2(3) by (auto simp: with_message_Inl)
  qed
qed

lemma fallback_serves:
  assumes "honest exists path pw p" "serves exists path pw p \<or> serves exists path pw f"
  shows "serves exists path pw (fallback_backend exists p f)"
  unfolding serves_def fallback_be_list
proof (intro allI impI)
  fix w assume w: "exists w path"
  show "\<exists>i. fst (fallback_list exists p f path pw w) = Inr i \<and> answers i"
  proof (rule fallback_list_cases [OF w assms(1), where f = f], goal_cases)
    case (2 c w')
    then have "serves exists path pw f" using assms(2) w unfolding serves_def by blast
    then show ?case using 2(2) unfolding 2(3) serves_def by (simp add: with_message_Inr)
  qed simp
qed

text \<open>The tiers that a selection has, in the order in which they are asked.\<close>

definition tiers :: "unicode \<Rightarrow> str \<Rightarrow> 'w toolbox \<Rightarrow> str \<Rightarrow> 'w backend list" where
  "tiers u mode tb path =
     (let ext = archive_extension u (tb_separator tb) path;
          native = (if mode = lit ''cli'' then [] else if ext = lit ''zip'' then [tb_zip tb]
            else if ext \<in> set rar_extensions then tb_unrar tb # (case tb_unrar_cli tb of Some b \<Rightarrow> [b] | None \<Rightarrow> [])
            else if ext \<in> set sevenz_extensions then [tb_sevenz tb] else []) in
      native @ (case tb_sevenz_cli tb of Inr b \<Rightarrow> [b] | Inl _ \<Rightarrow> []))"

fun chained :: "('w \<Rightarrow> str \<Rightarrow> bool) \<Rightarrow> 'w backend list \<Rightarrow> 'w backend \<Rightarrow> bool" where
  "chained exists [] b \<longleftrightarrow> False"
| "chained exists [t] b \<longleftrightarrow> b = t"
| "chained exists (t # ts) b \<longleftrightarrow> (\<exists>b'. chained exists ts b' \<and> b = fallback_backend exists t b')"

lemma select_chains: "select_backend u mode tb path = Inr b \<Longrightarrow> chained (tb_exists tb) (tiers u mode tb path) b"
  by (auto simp: select_backend_def tiers_def with_cli_def select_rar_def detected_def Let_def simp del: lit_Cons
      split: if_splits sum.splits option.splits)

lemma chained_honest: "chained exists ts b \<Longrightarrow> \<forall>t \<in> set ts. honest exists path pw t \<Longrightarrow> honest exists path pw b"
  by (induction exists ts b rule: chained.induct) (auto intro: fallback_honest)

lemma chained_serves:
  "chained exists ts b \<Longrightarrow> \<forall>t \<in> set ts. honest exists path pw t \<Longrightarrow> \<exists>t \<in> set ts. serves exists path pw t \<Longrightarrow> serves exists path pw b"
proof (induction exists ts b rule: chained.induct)
  case (3 exists t t' ts b)
  then obtain b' where b': "chained exists (t' # ts) b'" "b = fallback_backend exists t b'" by auto
  show ?case
  proof (cases "serves exists path pw t")
    case True
    then show ?thesis using 3 b' by (auto intro: fallback_serves)
  next
    case False
    then have "serves exists path pw b'" using 3 b' by auto
    then show ?thesis using 3 b' by (auto intro: fallback_serves)
  qed
qed auto


text \<open>A native backend that fails, and a command-line tool that lists one file.\<close>

definition plain_backend :: "str \<Rightarrow> causes + archive_info \<Rightarrow> str list backend" where
  "plain_backend name result =
     (let refuse = (\<lambda>w. (Inl [Message (lit ''unsupported'')], w)) in
      \<lparr>be_name = name, be_capabilities = read_only_caps, be_identify = (\<lambda>_ w. (Inl [], w)), be_list = (\<lambda>_ _ w. (result, w @ [name])),
       be_extract_all = (\<lambda>_ _ _. refuse), be_extract_files = (\<lambda>_ _ _ _. refuse), be_extract_files_with_progress = (\<lambda>_ _ _ _. refuse),
       be_extract_directory = (\<lambda>_ _ _ _. refuse), be_extract = (\<lambda>_ _ _ _. refuse), be_extract_entry_to_writer = (\<lambda>_ _ _. refuse),
       be_recompress_7z = (\<lambda>_ _. refuse), be_add_files = (\<lambda>_ _. refuse),
       be_create_archive = (\<lambda>_ _ fmt w. (Inr (), w @ [fmt])),
       be_create_archive_with_profile = (\<lambda>_ _ prof w. (Inr (), w @ [format_arg (ap_format prof) @ nat_digits (unat (compression_level prof))])),
       be_read_text_file = (\<lambda>_ _ _ w. (Inl [], w)), be_delete_files = (\<lambda>_ _. refuse), be_add_or_update_file_from_str = (\<lambda>_ _ _. refuse),
       be_convert_to_7z = (\<lambda>_ _ _ _. refuse), be_crc32_of_entry = (\<lambda>_ _ _ w. (Inl [], w))\<rparr>)"

definition one_file :: archive_info where
  "one_file = \<lparr>archive_kind_of = ZipKind, info_entries = [file_entry (lit ''a.txt'') 1], info_encrypted = False, headers_encrypted = False,
     encryption_method = None\<rparr>"

definition sample_toolbox :: "str list toolbox" where
  "sample_toolbox =
     (let broken = plain_backend (lit ''native'') (Inl [Message (lit ''bad header'')]) in
      \<lparr>tb_exists = (\<lambda>_ path. path = lit ''a.zip''), tb_separator = (\<lambda>c. c = slash),
       tb_sevenz_cli = Inr (plain_backend (lit ''7z'') (Inr one_file)), tb_unrar_cli = None,
       tb_zip = broken, tb_unrar = broken, tb_sevenz = broken\<rparr>)"

lemma plain_backend_list: "be_list (plain_backend name r) path pw w = (r, w @ [name])"
  by (simp add: plain_backend_def Let_def)


section \<open>What a chain loses\<close>

text \<open>A chain has no method of its own for profiles, so the default of the trait runs and only the format of the profile
  reaches the tiers, also where a tier knows profiles.\<close>

lemma chain_drops_profile:
  "be_create_archive_with_profile (fallback_backend exists p f) dest files profile
     = or_fallback never None (be_create_archive p dest files (format_arg (ap_format profile)))
         (be_create_archive f dest files (format_arg (ap_format profile)))"
  by (simp add: fallback_backend_def Let_def default_create_with_profile_def)

text \<open>Whether an error is a cancellation is read off its text: one that quotes a file with the word in its name stops the chain.\<close>

lemma file_name_stops_chain:
  assumes "be_extract p path dest refs pw w = (Inl [Message (lit ''cannot extract '' @ lit ''cancelled.txt'')], w')"
  shows "be_extract (fallback_backend exists p f) path dest refs pw w = (Inl [Message (lit ''cannot extract '' @ lit ''cancelled.txt'')], w')"
proof -
  have "says_cancelled [Message (lit ''cannot extract '' @ lit ''cancelled.txt'')]" by code_simp
  then show ?thesis using assms by (simp add: fallback_backend_def Let_def or_fallback_def del: lit_Cons)
qed

end
