(* ===== verification/Spec2Isabelle.thy ===== *)
theory Spec2Isabelle
  imports Plan_Properties Operation_Registry Rate_Limiter Navigation Multipart
    Flatten_Properties Output_Properties Destination_Lock Merkle_Properties Rar_Properties Import_Properties
    Apply_Layout Network_Properties Request_Tracking Content_Cache
    Listing_Properties Backend_Chain
begin

text \<open>
  Arclain is an archive manager in Rust. This development models the parts of it that decide where
  files go and what a user is told, and proves what those parts guarantee.

  \<^bold>\<open>The program.\<close> \<^verbatim>\<open>crates/core\<close> reads archives into a list of entries
  (\<^verbatim>\<open>archive/info.rs\<close>), lets a user browse them (\<^verbatim>\<open>archive/navigation.rs\<close>), recognises
  split sets (\<^verbatim>\<open>archive/multipart.rs\<close>), and organizes them: a rule whose trigger matches carries
  a layout, the layout is resolved to named outputs, each output is filled with moves, generated
  documents and downloads, and the resulting plan is validated before anything touches the disk
  (\<^verbatim>\<open>features/organization\<close>, \<^verbatim>\<open>features/conversion/modinfo.rs\<close>,
  \<^verbatim>\<open>utilities\<close>). \<^verbatim>\<open>crates/app\<close> runs such work as operations that report events through
  a registry (\<^verbatim>\<open>operations/registry.rs\<close>) and fail with one error envelope
  (\<^verbatim>\<open>error.rs\<close>). \<^verbatim>\<open>crates/network\<close> limits how often a domain is asked
  (\<^verbatim>\<open>features/rate_limiting\<close>) and lets plugins reach it under a policy
  (\<^verbatim>\<open>features/request\<close>, \<^verbatim>\<open>whitelist\<close>, \<^verbatim>\<open>security\<close>).
  \<^verbatim>\<open>crates/data\<close> keeps what the host and the plugins download, under keys of their owner and within
  quotas (\<^verbatim>\<open>features/content_cache\<close>). \<^verbatim>\<open>crates/checksum\<close> commits to a set of
  files by a Merkle tree. \<^verbatim>\<open>crates/archive-import\<close> reads untrusted archives in a worker process
  and streams their entries to the application over a pipe.

  \<^bold>\<open>Theories.\<close>
  \<^item> \<open>Prelude\<close>: strings as lists of code points, the operations of \<^verbatim>\<open>str\<close>, results as
    sums with their loop combinators, and the lemmas the components share. The Unicode tables are the
    record \<open>unicode\<close>, a parameter.
  \<^item> \<open>Ordered_Map\<close>, \<open>Claim_Store\<close>: \<^verbatim>\<open>BTreeMap\<close> as a sorted association list; the
    contract of a loop that refuses a key taken before, a locale that the output names, the
    destinations of an output and the destinations of a plan interpret.
  \<^item> \<open>Utf8\<close>, \<open>Host_Path\<close>: strict UTF-8 decoding and encoding; \<^verbatim>\<open>std::path\<close> on text.
  \<^item> \<open>Checked_Path\<close>: \<^verbatim>\<open>checked_relative_path.rs\<close>, \<^verbatim>\<open>plain_file_component\<close>. Accepted
    paths stay below their root, lexically and on a host whose answers are a parameter.
  \<^item> \<open>Title_Filter\<close>, \<open>Modinfo\<close>: what the two sanitisers guarantee and where they fall short.
  \<^item> \<open>Archive_Entry\<close>, \<open>Path_Tree\<close>: the listing and the tree that prunes it; on a consistent
    listing pruning is a filter and a sort.
  \<^item> \<open>Layout\<close>, \<open>Outputs\<close>: layouts, template expansion against a piecewise reference, root
    selection without nesting, naming that accounts for every root.
  \<^item> \<open>Rule_Match\<close>, \<open>Content_Root\<close>: trigger matching, variables and their precedence, content-root
    detection and its fallback. The regex crate and serde are fields of \<open>engine_env\<close>.
  \<^item> \<open>Plan_Builder\<close>, \<open>Plan_Properties\<close>: \<^verbatim>\<open>fill_output\<close>, \<^verbatim>\<open>create_plan\<close> and
    \<^verbatim>\<open>validate_paths\<close>; filling an output refines routing by first match, and a returned plan
    stays inside its root, overwrites nothing, carries no file twice and accounts for every output.
  \<^item> \<open>Application_Error\<close>, \<open>Operation_Registry\<close>: the error builders as an inductive set with
    their invariant; the registry's critical sections as functions, interleaved by a step relation
    whose reachable states keep events numbered, final and in agreement with the snapshots.
  \<^item> \<open>Rate_Limiter\<close>: refinement of a limiter that counts every request, and the bound per window.
  \<^item> \<open>Navigation\<close>: history laws, normalised paths, visible rows and saturating totals.
  \<^item> \<open>Multipart\<close>: detection, enumeration to the first gap through the locale
    \<open>numbered_parts\<close>, and two places where detection and enumeration disagree.

  \<^item> \<open>File_System\<close>, \<open>File_Frame\<close>: the part of \<^verbatim>\<open>std::fs\<close> the program uses, over a tree of
    directories and files. A computation passes the tree along and returns a result; which calls fail,
    and what a failing call leaves behind, is the parameter \<open>io_env\<close>. Rules for sequences of calls,
    what a lookup finds after each change, and which paths a call cannot touch.
  \<^item> \<open>Flatten\<close>, \<open>Flatten_Properties\<close>: \<^verbatim>\<open>features/conversion/mod.rs\<close> and
    \<^verbatim>\<open>flatten.rs\<close>. Whatever fails, no file is lost but unpacked archives; a pass accounts for every
    archive; the recursive run ends and is the union of its passes. The extractor is a parameter.
  \<^item> \<open>Diagnose\<close>: \<^verbatim>\<open>features/conversion/diagnose.rs\<close>, the warnings on a folder of mods.
  \<^item> \<open>Output_Transaction\<close>, \<open>Output_Properties\<close>: \<^verbatim>\<open>features/pipeline/output_transaction.rs\<close>
    and the folder output of \<^verbatim>\<open>executor.rs\<close>. A commit replaces the destination as a whole, leaves
    it as it was or keeps both versions for recovery; a folder output is a copy of the work directory.
  \<^item> \<open>Plan_Apply\<close>, \<open>Apply_Properties\<close>, \<open>Apply_Layout\<close>:
    \<^verbatim>\<open>features/pipeline/apply_plan.rs\<close> and the copying of \<^verbatim>\<open>organizer.rs\<close>. A plan that was
    applied leaves exactly the planned files; one that could not be leaves every file where it was, or names the
    directory it is in.
  \<^item> \<open>Destination_Lock\<close>: the registry of commit locks as a step relation; commits into one directory
    exclude each other and none can be locked out.
  \<^item> \<open>Bytes\<close>: little-endian integers and length-prefixed fields as byte lists, and that they read
    back.
  \<^item> \<open>Merkle\<close>, \<open>Merkle_Properties\<close>: \<^verbatim>\<open>crates/checksum\<close>. The tree depends on the files'
    identities alone and binds them; proofs lead to the root; a stored tree loads. The hash functions are a
    parameter, and that they do not collide is a hypothesis on the encodings that were hashed.
  \<^item> \<open>Rar_Headers\<close>, \<open>Rar_Properties\<close>: \<^verbatim>\<open>worker/rar_headers.rs\<close>, both header formats. An
    accepted archive is covered by its blocks, cannot be continued, and its integers and names are read
    exactly.
  \<^item> \<open>Import_Frames\<close>, \<open>Import_Source\<close>, \<open>Import_Backends\<close>: the frames of
    \<^verbatim>\<open>protocol.rs\<close>; \<^verbatim>\<open>worker/source.rs\<close>, a file that anybody may write to; the listing and
    decoding of \<^verbatim>\<open>worker/zip.rs\<close>, \<^verbatim>\<open>sevenz.rs\<close> and \<^verbatim>\<open>rar.rs\<close> over their libraries.
  \<^item> \<open>Backend_Properties\<close>: the contract of a backend as the locale \<open>archive_backend\<close>, interpreted
    on the three of them: a decoding that succeeds has written every entry once and in full.
  \<^item> \<open>Import_Protocol\<close>, \<open>Import_Properties\<close>: the worker's \<^verbatim>\<open>run\<close> and the client's session. What
    the backend decoded is what a caller reads, from a source that did not change; and whatever arrives, a
    caller that gets to the end was given whole entries only.
  \<^item> \<open>Ip_Address\<close>, \<open>Domain_Security\<close>, \<open>Domain_Whitelist\<close>: addresses with their text and the
    test for public ones, against the blocks of the address registries; the analysis of a URL; the whitelist, which
    answers from the last operations on a plugin and a domain.
  \<^item> \<open>Plugin_Policy\<close>, \<open>Plugin_Request\<close>, \<open>Network_Properties\<close>: the checks of
    \<^verbatim>\<open>request/plugin_policy.rs\<close> and the checked executor of \<^verbatim>\<open>request/client.rs\<close>. Other threads may change
    the shared context before every access to it; the resolver, the transport, the routing crate and the URL crate are
    fields of \<open>net_env\<close>. Whatever they do, what leaves obeys the policy.
  \<^item> \<open>Response_Body\<close>, \<open>Request_Tracking\<close>: bodies in memory up to a limit and into a writer within
    the declared range; the map of background requests, from which a result is taken once.
  \<^item> \<open>Cache_Quota\<close>, \<open>Quota_Reservations\<close>, \<open>Quota_Commits\<close>
    (\<^verbatim>\<open>crates/data\<close>, \<^verbatim>\<open>content_cache/quota.rs\<close>): keys scoped to an owner, reservations on disk and their scan,
    admission of commits and eviction. Every call of the index, the file system and the probe of free space may fail.
    Reservations stay within the quotas over any run, and an admitted commit fits together with those under way.
  \<^item> \<open>Content_Cache\<close> (\<^verbatim>\<open>content_cache/cache.rs\<close>): storing, reading and removing what
    owners keep; what an owner stored is what it reads.
  \<^item> \<open>Entry_Time\<close>, \<open>Cli_Listing\<close>, \<open>Listing_Properties\<close>
    (\<^verbatim>\<open>crates/core\<close>, \<^verbatim>\<open>backends/entry_time.rs\<close> and the two \<^verbatim>\<open>parser.rs\<close>): the listings that
    7-Zip and UnRAR print, read back against a reference printer; \<^verbatim>\<open>chrono\<close> is the record \<open>calendar\<close>.
  \<^item> \<open>Backend_Chain\<close> (\<^verbatim>\<open>archive/mod.rs\<close>, \<^verbatim>\<open>fallback_backend.rs\<close>,
    \<^verbatim>\<open>selector.rs\<close>, \<^verbatim>\<open>handle.rs\<close>): backends as records of computations, the chain of two and
    its selection. One tier that can list an archive is enough.

  \<^bold>\<open>Conventions.\<close> Errors of \<^verbatim>\<open>bail!\<close> are constructors that carry what the message
  interpolates. A panic is the value \<open>None\<close> of the function that can panic. Hash maps that are only
  looked up are functions, maps that are iterated are association lists; the order of a hash map's
  iteration is never relied on. Sizes, identifiers, sequence numbers and limits are words of their
  width; counters wrap, and the theorem on event order carries the bound below which they do not. The byte
  counts of the content cache are naturals whose additions saturate at 64 bits, as those of the code do.

  \<^bold>\<open>Loops and fuel.\<close> Template expansion, path walks and trimming are total functions with
  a measure, and so is the redirect loop of \<open>Plugin_Request\<close>, which counts the redirects it has followed. The
  part enumeration of \<open>Multipart\<close> takes one unit of fuel per name of the directory,
  and \<open>enumeration_complete\<close> shows that it always stops at a missing number and never for lack of
  fuel.

  \<^bold>\<open>Left out.\<close> The contents of archives and the backends that unpack them, the transport of HTTP and the requests of the host itself; the database layer; plugins and the
  user interface; serde representations; symbolic links and the path syntax of Windows in the
  file-system tree; the writer thread of the content cache, its removal by pattern and the resumption of
  downloads into it; the step loop of the pipeline executor.
\<close>

end
